(* ===== verification/Js_Prelude.thy ===== *)
theory Js_Prelude
  imports Main "HOL-Library.Word" "HOL-Library.Char_ord" "HOL-Library.List_Lexorder"
    "HOL-Library.Sublist"
begin

text \<open>
  The fragment of the JavaScript language and standard library that the client uses, and the
  generic lemmas the component theories share.

  A JavaScript string is a sequence of UTF-16 code units. The type \<^typ>\<open>string\<close> holds the
  strings whose code units are all below 256 (Latin-1). This is the range on which \<open>btoa\<close> is
  defined and \<open>atob\<close> returns, and on it every operation below is the exact JavaScript one:
  \<open>toLowerCase\<close>, \<open>trim\<close> and the regular expression class \<open>\s\<close> map Latin-1 to Latin-1.
  JavaScript's \<open>undefined\<close> and \<open>null\<close> are \<^const>\<open>None\<close>; a thrown exception is a
  value of a sum or option type at the operation that throws. A \<open>Uint8Array\<close> is a list of
  8-bit words. Timestamps and counters are \<^typ>\<open>int\<close> or \<^typ>\<open>nat\<close>: the code keeps them
  far below the limit of exact doubles.
\<close>

named_theorems js_string_simps "evaluation rules of the string operations"
named_theorems codec_simps "round-trip equations of encoders and decoders"

type_synonym byte = "8 word"
type_synonym bytes = "byte list"

section \<open>Strings\<close>

definition startsWith :: "string \<Rightarrow> string \<Rightarrow> bool" where
  "startsWith s p \<longleftrightarrow> prefix p s"

definition endsWith :: "string \<Rightarrow> string \<Rightarrow> bool" where
  "endsWith s p \<longleftrightarrow> suffix p s"

definition strIncludes :: "string \<Rightarrow> string \<Rightarrow> bool" where
  "strIncludes s p \<longleftrightarrow> sublist p s"

fun indexOf :: "string \<Rightarrow> string \<Rightarrow> nat option" where
  "indexOf [] p = (if p = [] then Some 0 else None)"
| "indexOf (c # cs) p =
     (if prefix p (c # cs) then Some 0 else map_option Suc (indexOf cs p))"

definition replaceFirst :: "string \<Rightarrow> string \<Rightarrow> string \<Rightarrow> string" where
  "replaceFirst s p r =
     (case indexOf s p of None \<Rightarrow> s | Some i \<Rightarrow> take i s @ r @ drop (i + length p) s)"

fun splitOn :: "char \<Rightarrow> string \<Rightarrow> string list" where
  "splitOn c [] = [[]]"
| "splitOn c (x # xs) =
     (if x = c then [] # splitOn c xs
      else (case splitOn c xs of [] \<Rightarrow> [[x]] | y # ys \<Rightarrow> (x # y) # ys))"

fun join :: "string \<Rightarrow> string list \<Rightarrow> string" where
  "join sep [] = []"
| "join sep [x] = x"
| "join sep (x # y # ys) = x @ sep @ join sep (y # ys)"

definition padStart :: "nat \<Rightarrow> char \<Rightarrow> string \<Rightarrow> string" where
  "padStart n c s = replicate (n - length s) c @ s"

definition substring :: "nat \<Rightarrow> nat \<Rightarrow> string \<Rightarrow> string" where
  "substring i j s = take (j - i) (drop i s)"

definition isSpace :: "char \<Rightarrow> bool" where
  "isSpace c \<longleftrightarrow> (let n = (of_char c :: nat) in (9 \<le> n \<and> n \<le> 13) \<or> n = 32 \<or> n = 160)"

definition trim :: "string \<Rightarrow> string" where
  "trim s = rev (dropWhile isSpace (rev (dropWhile isSpace s)))"

definition lowerChar :: "char \<Rightarrow> char" where
  "lowerChar c =
     (let n = (of_char c :: nat)
      in if (65 \<le> n \<and> n \<le> 90) \<or> (192 \<le> n \<and> n \<le> 222 \<and> n \<noteq> 215) then char_of (n + 32) else c)"

definition toLowerCase :: "string \<Rightarrow> string" where
  "toLowerCase s = map lowerChar s"

text \<open>\<open>s.split(/\s+/)\<close> and \<open>s.replace(/\s+/g, '')\<close>.\<close>

function splitSpaces :: "string \<Rightarrow> string list" where
  "splitSpaces s =
     (let w = takeWhile (\<lambda>c. \<not> isSpace c) s; r = dropWhile (\<lambda>c. \<not> isSpace c) s
      in if r = [] then [w] else w # splitSpaces (dropWhile isSpace r))"
  by pat_completeness auto
termination
proof (relation "measure length", goal_cases)
  case 1
  then show ?case by simp
next
  case (2 s w r)
  then obtain c cs where r: "r = c # cs" by (meson neq_Nil_conv)
  from 2 r have "isSpace c"
    by (metis dropWhile_eq_Cons_conv)
  then have "length (dropWhile isSpace r) \<le> length cs"
    using r by (simp add: length_dropWhile_le)
  moreover have "length r \<le> length s"
    using 2 by (simp add: length_dropWhile_le)
  ultimately show ?case using r by simp
qed

declare splitSpaces.simps [simp del]

definition removeSpaces :: "string \<Rightarrow> string" where
  "removeSpaces s = filter (\<lambda>c. \<not> isSpace c) s"

section \<open>Numbers to strings\<close>

definition digitChar :: "nat \<Rightarrow> char" where
  "digitChar d = (if d < 10 then char_of (48 + d) else char_of (87 + d))"

fun toString :: "nat \<Rightarrow> nat \<Rightarrow> string" where
  "toString b n =
     (if b < 2 \<or> n < b then [digitChar n] else toString b (n div b) @ [digitChar (n mod b)])"

declare toString.simps [simp del]

abbreviation decimal :: "nat \<Rightarrow> string" where
  "decimal n \<equiv> toString 10 n"

definition isDigit :: "char \<Rightarrow> bool" where
  "isDigit c \<longleftrightarrow> c \<in> set ''0123456789''"

definition digitsVal :: "string \<Rightarrow> nat" where
  "digitsVal ds = foldl (\<lambda>v c. v * 10 + (of_char c - 48)) 0 ds"

definition numString :: "int \<Rightarrow> string" where
  "numString n = (if n < 0 then CHR ''-'' # decimal (nat (- n)) else decimal (nat n))"

section \<open>Bytes and text\<close>

definition strToBytes :: "string \<Rightarrow> bytes" where
  "strToBytes s = map (\<lambda>c. word_of_nat (of_char c)) s"

definition bytesToStr :: "bytes \<Rightarrow> string" where
  "bytesToStr bs = map (\<lambda>b. char_of (unat b)) bs"

text \<open>
  \<open>new TextEncoder().encode(s)\<close>: UTF-8. A Latin-1 code unit takes one byte below 128 and two
  bytes from 128 on.
\<close>

definition utf8Char :: "char \<Rightarrow> bytes" where
  "utf8Char c =
     (let n = (of_char c :: nat)
      in if n < 128 then [word_of_nat n]
         else [word_of_nat (192 + n div 64), word_of_nat (128 + n mod 64)])"

definition textEncode :: "string \<Rightarrow> bytes" where
  "textEncode s = concat (map utf8Char s)"

text \<open>
  \<open>new TextDecoder().decode(bs)\<close>: a leading byte-order mark is dropped. \<^const>\<open>None\<close> stands
  for a result with a code unit above 255, the replacement character of malformed input among
  them: such a string is outside \<^typ>\<open>string\<close>.
\<close>

fun utf8Decode :: "bytes \<Rightarrow> string option" where
  "utf8Decode [] = Some []"
| "utf8Decode [b] = (if unat b < 128 then Some [char_of (unat b)] else None)"
| "utf8Decode (b # c # bs) =
     (if unat b < 128 then map_option ((#) (char_of (unat b))) (utf8Decode (c # bs))
      else if 194 \<le> unat b \<and> unat b \<le> 195 \<and> 128 \<le> unat c \<and> unat c \<le> 191
      then map_option ((#) (char_of ((unat b - 192) * 64 + (unat c - 128)))) (utf8Decode bs)
      else None)"

definition textDecode :: "bytes \<Rightarrow> string option" where
  "textDecode bs = utf8Decode (if take 3 bs = [239, 187, 191] then drop 3 bs else bs)"

section \<open>Serialised values\<close>

text \<open>An asynchronous operation that completes with a value or whose promise is rejected.\<close>

datatype 'a outcome = Done 'a | Rejected

text \<open>The answer to a \<open>fetch\<close>: the request fails, the status is not a success, or there is a body.\<close>

datatype 'a http = NetFail | HttpError nat | HttpOk 'a

text \<open>
  A string that the code produced with \<open>JSON.stringify\<close> (and possibly \<open>btoa\<close>) is modelled by
  the value it serialises; any other string is \<open>Garbage\<close>, on which \<open>JSON.parse\<close> throws.
\<close>

datatype 'a blob = Blob 'a | Garbage string

fun parseBlob :: "'a blob \<Rightarrow> 'a option" where
  "parseBlob (Blob a) = Some a"
| "parseBlob (Garbage s) = None"

section \<open>Lemmas on strings\<close>

text \<open>A finite check by evaluation, as a lemma for every number below the bound.\<close>

lemma list_all_upt: "list_all P [0..<n] \<Longrightarrow> d < n \<Longrightarrow> P d"
  by (simp add: list_all_iff)

lemma substring_pair [simp]:
  "substring i (i + 2) s = take 2 (drop i s)" "substring i (Suc (Suc i)) s = take 2 (drop i s)"
  by (simp_all add: substring_def numeral_2_eq_2)

lemma length_padStart: "length (padStart n c s) = max n (length s)"
  by (simp add: padStart_def)

lemma set_padStart: "set (padStart n c s) \<subseteq> insert c (set s)"
  by (auto simp: padStart_def)

lemma length_toLowerCase [simp]: "length (toLowerCase s) = length s"
  by (simp add: toLowerCase_def)

lemma indexOf_Some:
  "indexOf s p = Some i \<Longrightarrow> i + length p \<le> length s \<and> take (length p) (drop i s) = p"
proof (induction s p arbitrary: i rule: indexOf.induct)
  case (1 p)
  then show ?case by (simp split: if_splits)
next
  case (2 c cs p)
  show ?case
  proof (cases "prefix p (c # cs)")
    case True
    then obtain r where r: "c # cs = p @ r" by (auto simp: prefix_def)
    from 2(2) True have "i = 0" by simp
    then show ?thesis unfolding r by simp
  next
    case False
    with 2 show ?thesis by auto
  qed
qed

lemma indexOf_sublist: "indexOf s p \<noteq> None \<longleftrightarrow> sublist p s"
  by (induction s p rule: indexOf.induct) (auto simp: sublist_Cons_right)

lemma splitOn_not_Nil [simp]: "splitOn c s \<noteq> []"
  by (induction s) (auto split: list.splits)

lemma splitOn_append_sep: "c \<notin> set s \<Longrightarrow> splitOn c (s @ c # t) = s # splitOn c t"
  by (induction s) auto

lemma splitOn_single: "c \<notin> set s \<Longrightarrow> splitOn c s = [s]"
  by (induction s) auto

lemma join_splitOn: "join [c] (splitOn c s) = s"
proof (induction s)
  case Nil
  then show ?case by simp
next
  case (Cons x xs)
  then show ?case
    by (cases "splitOn c xs"; cases "tl (splitOn c xs)") (auto split: list.splits)
qed

lemma splitOn_join:
  "\<forall>x \<in> set xs. c \<notin> set x \<Longrightarrow> xs \<noteq> [] \<Longrightarrow> splitOn c (join [c] xs) = xs"
proof (induction xs rule: induct_list012)
  case (3 x y zs)
  then show ?case by (simp add: splitOn_append_sep)
qed (simp_all add: splitOn_single)

lemma removeSpaces_append [simp]: "removeSpaces (s @ t) = removeSpaces s @ removeSpaces t"
  by (simp add: removeSpaces_def)

lemma removeSpaces_idem [simp]: "removeSpaces (removeSpaces s) = removeSpaces s"
  by (simp add: removeSpaces_def)

lemma set_removeSpaces: "set (removeSpaces s) = {c \<in> set s. \<not> isSpace c}"
  by (auto simp: removeSpaces_def)

lemma removeSpaces_join_spaces:
  "removeSpaces (join '' '' xs) = concat (map removeSpaces xs)"
proof (induction xs rule: induct_list012)
  case (3 x y zs)
  then show ?case by (simp add: removeSpaces_def isSpace_def)
qed (simp_all add: removeSpaces_def)

section \<open>Lemmas on digits\<close>

lemma digitChar_decimal: "d < 10 \<Longrightarrow> digitChar d \<in> set ''0123456789''"
  by (erule list_all_upt [rotated]) code_simp

lemma set_toString_10: "set (toString 10 n) \<subseteq> set ''0123456789''"
proof (induction "10 :: nat" n rule: toString.induct)
  case (1 n)
  show ?case
  proof (cases "n < 10")
    case True
    then show ?thesis using digitChar_decimal [OF True] by (simp add: toString.simps [of 10 n])
  next
    case False
    have "digitChar (n mod 10) \<in> set ''0123456789''" by (rule digitChar_decimal) simp
    moreover have "set (toString 10 (n div 10)) \<subseteq> set ''0123456789''"
      using 1 False by simp
    ultimately show ?thesis using False by (simp add: toString.simps [of 10 n])
  qed
qed

lemma digitsVal_snoc: "digitsVal (ds @ [c]) = digitsVal ds * 10 + (of_char c - 48)"
  by (simp add: digitsVal_def)

lemma digitsVal_decimal: "digitsVal (decimal n) = n"
proof (induction n rule: less_induct)
  case (less n)
  have d: "of_char (digitChar k) - 48 = k" if "k < 10" for k :: nat
    using that by (simp add: digitChar_def)
  show ?case
  proof (cases "n < 10")
    case True
    then show ?thesis using d [of n] by (simp add: toString.simps [of 10 n] digitsVal_def)
  next
    case False
    then have "digitsVal (decimal (n div 10)) = n div 10" by (intro less) simp
    then show ?thesis
      using False d [of "n mod 10"] by (subst toString.simps) (simp add: digitsVal_snoc)
  qed
qed

lemma length_toString_le: "2 \<le> b \<Longrightarrow> 0 < k \<Longrightarrow> n < b ^ k \<Longrightarrow> length (toString b n) \<le> k"
proof (induction b n arbitrary: k rule: toString.induct)
  case (1 b n)
  show ?case
  proof (cases "n < b")
    case True
    with 1 show ?thesis by (simp add: toString.simps [of b n])
  next
    case False
    with "1.prems" obtain j where k: "k = Suc j" and j: "0 < j"
      by (cases k; cases "k - 1") auto
    from False k "1.prems" have "n div b < b ^ j"
      by (simp add: less_mult_imp_div_less mult.commute)
    with 1 False j have "length (toString b (n div b)) \<le> j" by simp
    with False k "1.prems" show ?thesis by (simp add: toString.simps [of b n])
  qed
qed

section \<open>Lemmas on bytes and text\<close>

lemma length_strToBytes [simp]: "length (strToBytes s) = length s"
  by (simp add: strToBytes_def)

lemma length_bytesToStr [simp]: "length (bytesToStr bs) = length bs"
  by (simp add: bytesToStr_def)

lemma unat_byte_less [simp]: "unat (b :: byte) < 256"
proof -
  have "unat b < 2 ^ LENGTH(8)" by (rule unsigned_less)
  then show ?thesis by simp
qed

lemma unat_of_nat_byte: "n < 256 \<Longrightarrow> unat (word_of_nat n :: byte) = n"
  by (simp add: unat_of_nat)

lemma unat_word_of_char [simp]: "unat (word_of_nat (of_char c) :: byte) = of_char c"
  by (simp add: unat_of_nat)

lemma strToBytes_bytesToStr [simp, codec_simps]: "strToBytes (bytesToStr bs) = bs"
  by (induction bs) (simp_all add: strToBytes_def bytesToStr_def)

lemma bytesToStr_strToBytes [simp, codec_simps]: "bytesToStr (strToBytes s) = s"
  by (induction s) (simp_all add: strToBytes_def bytesToStr_def)

lemma utf8Decode_Cons_utf8Char:
  "utf8Decode (utf8Char c @ bs) = map_option ((#) c) (utf8Decode bs)"
proof (cases "(of_char c :: nat) < 128")
  case True
  then show ?thesis
    by (cases bs) (auto simp: utf8Char_def unat_of_nat)
next
  case False
  let ?n = "of_char c :: nat"
  have n: "?n < 256" by simp
  have d: "?n div 64 = 2 \<or> ?n div 64 = 3" using False n by linarith
  have u1: "unat (word_of_nat (192 + ?n div 64) :: byte) = 192 + ?n div 64"
    using d by (intro unat_of_nat_byte) linarith
  have u2: "unat (word_of_nat (128 + ?n mod 64) :: byte) = 128 + ?n mod 64"
    by (intro unat_of_nat_byte) simp
  have "?n div 64 * 64 + ?n mod 64 = ?n" by simp
  with False d u1 u2 show ?thesis
    by (auto simp: utf8Char_def Let_def simp del: of_nat_add)
qed

lemma utf8Decode_textEncode [simp]: "utf8Decode (textEncode s) = Some s"
  by (induction s) (simp_all add: textEncode_def utf8Decode_Cons_utf8Char)

lemma textEncode_no_bom: "take 3 (textEncode s) \<noteq> [239, 187, 191]"
proof (cases s)
  case Nil
  then show ?thesis by (simp add: textEncode_def)
next
  case (Cons c cs)
  let ?n = "of_char c :: nat"
  have "hd (utf8Char c) \<noteq> 239"
  proof
    assume h: "hd (utf8Char c) = 239"
    have n: "?n < 256" by simp
    then have "192 + ?n div 64 < 196" by linarith
    then have "unat (hd (utf8Char c)) < 196"
      using n by (auto simp: utf8Char_def Let_def unat_of_nat_byte simp del: of_nat_add)
    with h show False by simp
  qed
  then show ?thesis using Cons
    by (auto simp: textEncode_def utf8Char_def Let_def split: if_splits)
qed

lemma textDecode_textEncode [simp, codec_simps]: "textDecode (textEncode s) = Some s"
  by (simp add: textDecode_def textEncode_no_bom)

end
