(* ===== verification/Codec.thy ===== *)
theory Codec
  imports Js_Prelude
begin

text \<open>
  The byte and text encodings of the client: hexadecimal (written out in nearly every file as
  \<open>b.toString(16).padStart(2, '0')\<close> and read back with \<open>parseInt(_, 16)\<close>), the base64 of
  \<open>btoa\<close> and \<open>atob\<close>, the conversions between them (\<open>e2ee-ratchet.ts\<close>), and the buffer
  helpers of \<open>device-linking.ts\<close>, \<open>key-backup.ts\<close>, \<open>key-ceremony.ts\<close> and
  \<open>storage.ts\<close>. The locale \<open>codec\<close> is the interface the clients of an encoding rely on.
\<close>

section \<open>Reading hexadecimal\<close>

definition isHexDigit :: "char \<Rightarrow> bool" where
  "isHexDigit c \<longleftrightarrow>
     (let n = (of_char c :: nat)
      in (48 \<le> n \<and> n \<le> 57) \<or> (65 \<le> n \<and> n \<le> 70) \<or> (97 \<le> n \<and> n \<le> 102))"

definition hexVal :: "char \<Rightarrow> nat" where
  "hexVal c =
     (let n = (of_char c :: nat)
      in if n \<le> 57 then n - 48 else if n \<le> 70 then n - 55 else n - 87)"

text \<open>\<open>parseInt(s, 16)\<close>; \<^const>\<open>None\<close> is \<open>NaN\<close>.\<close>

definition parseInt16 :: "string \<Rightarrow> int option" where
  "parseInt16 s =
     (let s1 = dropWhile isSpace s;
          neg = (s1 \<noteq> [] \<and> hd s1 = CHR ''-'');
          s2 = (if s1 \<noteq> [] \<and> (hd s1 = CHR ''-'' \<or> hd s1 = CHR ''+'') then tl s1 else s1);
          s3 = (if prefix ''0x'' s2 \<or> prefix ''0X'' s2 then drop 2 s2 else s2);
          ds = takeWhile isHexDigit s3;
          v = foldl (\<lambda>a c. 16 * a + int (hexVal c)) 0 ds
      in if ds = [] then None else Some (if neg then - v else v))"

text \<open>What a \<open>Uint8Array\<close> stores of a number: modulo 256, and 0 for \<open>NaN\<close>.\<close>

definition toUint8 :: "int option \<Rightarrow> byte" where
  "toUint8 v = (case v of None \<Rightarrow> 0 | Some n \<Rightarrow> word_of_int n)"

text \<open>\<open>s.match(/.{1,2}/g)\<close>: the dot matches no line terminator; an empty list is \<open>null\<close>.\<close>

definition isLineEnd :: "char \<Rightarrow> bool" where
  "isLineEnd c \<longleftrightarrow> of_char c = (10 :: nat) \<or> of_char c = (13 :: nat)"

fun matchPairs :: "string \<Rightarrow> string list" where
  "matchPairs [] = []"
| "matchPairs [x] = (if isLineEnd x then [] else [[x]])"
| "matchPairs (x # y # zs) =
     (if isLineEnd x then matchPairs (y # zs)
      else if isLineEnd y then [x] # matchPairs zs
      else [x, y] # matchPairs zs)"

text \<open>
  \<open>hex.match(/.{1,2}/g)!.map((b) => parseInt(b, 16))\<close>, where a \<open>null\<close> match throws, and the
  tolerant form \<open>hex.match(/.{1,2}/g)?.map(\<dots>) || []\<close>.
\<close>

definition hexMatch :: "string \<Rightarrow> bytes option" where
  "hexMatch hex =
     (if matchPairs hex = [] then None
      else Some (map (toUint8 \<circ> parseInt16) (matchPairs hex)))"

definition hexMatchOrEmpty :: "string \<Rightarrow> bytes" where
  "hexMatchOrEmpty hex = map (toUint8 \<circ> parseInt16) (matchPairs hex)"

text \<open>The index loop of \<open>hexToBuffer\<close> and \<open>hexToBytes\<close>: an odd last digit is left out.\<close>

definition hexToBuffer :: "string \<Rightarrow> bytes" where
  "hexToBuffer hex =
     map (\<lambda>i. toUint8 (parseInt16 (substring (i * 2) (i * 2 + 2) hex))) [0..<length hex div 2]"

text \<open>
  The other loop steps \<open>i\<close> by two up to the length of the string and writes \<open>bytes[i / 2]\<close>
  into an array that starts as zeros; a write past its end is ignored.
\<close>

fun hexToBytesLoop :: "string \<Rightarrow> nat list \<Rightarrow> bytes \<Rightarrow> bytes" where
  "hexToBytesLoop hex [] bytes = bytes"
| "hexToBytesLoop hex (i # is) bytes =
     hexToBytesLoop hex is (bytes[i div 2 := toUint8 (parseInt16 (substring i (i + 2) hex))])"

definition hexToBytes :: "string \<Rightarrow> bytes" where
  "hexToBytes hex =
     hexToBytesLoop hex (map (\<lambda>k. 2 * k) [0..<(length hex + 1) div 2])
       (replicate (length hex div 2) 0)"

section \<open>Writing hexadecimal\<close>

definition hexByte :: "byte \<Rightarrow> string" where
  "hexByte b = padStart 2 CHR ''0'' (toString 16 (unat b))"

definition bytesToHex :: "bytes \<Rightarrow> string" where
  "bytesToHex bs = join [] (map hexByte bs)"

fun bufferToHexLoop :: "bytes \<Rightarrow> string \<Rightarrow> string" where
  "bufferToHexLoop [] hex = hex"
| "bufferToHexLoop (b # bs) hex = bufferToHexLoop bs (hex @ hexByte b)"

definition bufferToHex :: "bytes \<Rightarrow> string" where
  "bufferToHex bs = bufferToHexLoop bs []"

section \<open>Base64\<close>

definition b64Char :: "nat \<Rightarrow> char" where
  "b64Char n =
     (if n < 26 then char_of (65 + n) else if n < 52 then char_of (71 + n)
      else if n < 62 then char_of (n - 4) else if n = 62 then CHR ''+'' else CHR ''/'')"

definition b64Val :: "char \<Rightarrow> nat option" where
  "b64Val c =
     (let n = (of_char c :: nat)
      in if 65 \<le> n \<and> n \<le> 90 then Some (n - 65)
         else if 97 \<le> n \<and> n \<le> 122 then Some (n - 71)
         else if 48 \<le> n \<and> n \<le> 57 then Some (n + 4)
         else if n = 43 then Some 62 else if n = 47 then Some 63 else None)"

fun b64Encode :: "nat list \<Rightarrow> string" where
  "b64Encode [] = []"
| "b64Encode [a] = [b64Char (a div 4), b64Char (a mod 4 * 16), CHR ''='', CHR ''='']"
| "b64Encode [a, b] =
     [b64Char (a div 4), b64Char (a mod 4 * 16 + b div 16), b64Char (b mod 16 * 4), CHR ''='']"
| "b64Encode (a # b # c # xs) =
     b64Char (a div 4) # b64Char (a mod 4 * 16 + b div 16) #
     b64Char (b mod 16 * 4 + c div 64) # b64Char (c mod 64) # b64Encode xs"

fun b64Decode :: "nat list \<Rightarrow> nat list" where
  "b64Decode (a # b # c # d # xs) =
     (a * 4 + b div 16) # (b mod 16 * 16 + c div 4) # (c mod 4 * 64 + d) # b64Decode xs"
| "b64Decode [a, b, c] = [a * 4 + b div 16, b mod 16 * 16 + c div 4]"
| "b64Decode [a, b] = [a * 4 + b div 16]"
| "b64Decode [a] = []"
| "b64Decode [] = []"

definition btoa :: "string \<Rightarrow> string" where
  "btoa s = b64Encode (map of_char s)"

definition isAsciiSpace :: "char \<Rightarrow> bool" where
  "isAsciiSpace c \<longleftrightarrow> (of_char c :: nat) \<in> {9, 10, 12, 13, 32}"

definition stripPad :: "string \<Rightarrow> string" where
  "stripPad s =
     (if length s mod 4 = 0
      then (if suffix ''=='' s then take (length s - 2) s
            else if suffix ''='' s then take (length s - 1) s else s)
      else s)"

text \<open>\<open>atob\<close>: \<^const>\<open>None\<close> where it throws.\<close>

definition atob :: "string \<Rightarrow> string option" where
  "atob s =
     (let d = stripPad (filter (\<lambda>c. \<not> isAsciiSpace c) s)
      in if length d mod 4 = 1 then None
         else map_option (\<lambda>vs. map char_of (b64Decode vs)) (those (map b64Val d)))"

definition bufferToBase64 :: "bytes \<Rightarrow> string" where
  "bufferToBase64 bs = btoa (bytesToStr bs)"

definition base64ToBuffer :: "string \<Rightarrow> bytes option" where
  "base64ToBuffer b64 = map_option strToBytes (atob b64)"

text \<open>\<open>hexToBase64\<close> and \<open>base64ToHex\<close> of \<open>e2ee-ratchet.ts\<close>, which pass the empty string on.\<close>

definition hexToBase64 :: "string \<Rightarrow> string" where
  "hexToBase64 hex = (if hex = [] then [] else btoa (bytesToStr (hexMatchOrEmpty hex)))"

definition base64ToHex :: "string \<Rightarrow> string option" where
  "base64ToHex b64 =
     (if b64 = [] then Some []
      else map_option (\<lambda>bin. bufferToHexLoop (strToBytes bin) []) (atob b64))"

section \<open>The interface of an encoding\<close>

locale codec =
  fixes enc :: "'a \<Rightarrow> 'b" and dec :: "'b \<Rightarrow> 'a option"
  assumes dec_enc [simp]: "dec (enc x) = Some x"
begin

lemma enc_inject: "enc x = enc y \<longleftrightarrow> x = y"
  using dec_enc by (metis option.inject)

lemma dec_enc_bind: "Option.bind (dec (enc x)) f = f x"
  by simp

lemma those_map_dec_enc: "those (map dec (map enc xs)) = Some xs"
  by (induction xs) simp_all

end

text \<open>Two encodings in sequence are an encoding.\<close>

locale codec_seq = inner: codec enc1 dec1 + outer: codec enc2 dec2
  for enc1 :: "'a \<Rightarrow> 'b" and dec1 and enc2 :: "'b \<Rightarrow> 'c" and dec2
begin

sublocale codec "enc2 \<circ> enc1" "\<lambda>c. Option.bind (dec2 c) dec1"
  by unfold_locales simp

end

section \<open>Hexadecimal round trips\<close>

lemma digitChar_no_sign: "d < 16 \<Longrightarrow> digitChar d \<notin> set ''-+xX''"
  by (rule list_all_upt [where P = "\<lambda>d. digitChar d \<notin> set ''-+xX''" and n = 16]) code_simp

lemma hexDigit_ok:
  "d < 16 \<Longrightarrow> isHexDigit (digitChar d) \<and> hexVal (digitChar d) = d \<and> \<not> isSpace (digitChar d)
    \<and> \<not> isLineEnd (digitChar d) \<and> CHR ''x'' \<noteq> digitChar d \<and> CHR ''X'' \<noteq> digitChar d
    \<and> digitChar d \<noteq> CHR ''-'' \<and> digitChar d \<noteq> CHR ''+''"
  using digitChar_no_sign [of d]
  by (auto simp: isHexDigit_def hexVal_def isSpace_def isLineEnd_def digitChar_def Let_def)

lemma nibbles_less: "unat (b :: byte) div 16 < 16" "unat b mod 16 < 16"
  using unat_byte_less [of b] by linarith simp

lemma digitChar_0: "digitChar 0 = CHR ''0''"
  by code_simp

lemma hexByte_digits: "hexByte b = [digitChar (unat b div 16), digitChar (unat b mod 16)]"
proof -
  show ?thesis
  proof (cases "unat b < 16")
    case True
    then show ?thesis
      by (simp add: hexByte_def padStart_def toString.simps [of 16 "unat b"] digitChar_0)
  next
    case False
    then show ?thesis using nibbles_less [of b]
      by (simp add: hexByte_def padStart_def toString.simps [of 16 "unat b"]
          toString.simps [of 16 "unat b div 16"])
  qed
qed

lemma parseInt16_hexByte [codec_simps]: "toUint8 (parseInt16 (hexByte b)) = b"
proof -
  note h = hexDigit_ok [OF nibbles_less(1) [of b]] hexDigit_ok [OF nibbles_less(2) [of b]]
  have "parseInt16 (hexByte b) = Some (16 * int (unat b div 16) + int (unat b mod 16))"
    using h by (simp add: hexByte_digits parseInt16_def Let_def)
  moreover have "16 * int (unat b div 16) + int (unat b mod 16) = int (unat b)"
    by presburger
  ultimately show ?thesis by (simp add: toUint8_def)
qed

lemma matchPairs_hexByte: "matchPairs (hexByte b @ s) = hexByte b # matchPairs s"
  using hexDigit_ok [OF nibbles_less(1) [of b]] hexDigit_ok [OF nibbles_less(2) [of b]]
  by (simp add: hexByte_digits)

lemma join_Nil: "join [] xs = concat xs"
  by (induction xs rule: induct_list012) simp_all

lemma bytesToHex_concat: "bytesToHex bs = concat (map hexByte bs)"
  by (simp add: bytesToHex_def join_Nil)

lemma length_hexByte [simp]: "length (hexByte b) = 2"
  by (simp add: hexByte_digits)

lemma length_bytesToHex: "length (bytesToHex bs) = 2 * length bs"
  by (induction bs) (simp_all add: bytesToHex_concat)

lemma bufferToHexLoop_append: "bufferToHexLoop bs acc = acc @ bytesToHex bs"
  by (induction bs arbitrary: acc) (simp_all add: bytesToHex_concat)

lemma bufferToHex_eq: "bufferToHex bs = bytesToHex bs"
  by (simp add: bufferToHex_def bufferToHexLoop_append)

lemma matchPairs_bytesToHex: "matchPairs (bytesToHex bs) = map hexByte bs"
  by (induction bs) (simp_all add: bytesToHex_concat matchPairs_hexByte)

lemma hexMatchOrEmpty_bytesToHex [codec_simps]: "hexMatchOrEmpty (bytesToHex bs) = bs"
  by (induction bs)
    (simp_all add: hexMatchOrEmpty_def matchPairs_bytesToHex parseInt16_hexByte)

lemma hexMatch_bytesToHex [codec_simps]:
  "hexMatch (bytesToHex bs) = (if bs = [] then None else Some bs)"
  using hexMatchOrEmpty_bytesToHex [of bs]
  by (simp add: hexMatch_def hexMatchOrEmpty_def matchPairs_bytesToHex)

lemma take_drop_bytesToHex:
  "i < length bs \<Longrightarrow> take 2 (drop (i * 2) (bytesToHex bs)) = hexByte (bs ! i)"
proof (induction bs arbitrary: i)
  case (Cons b bs)
  then show ?case
    by (cases i) (simp_all add: bytesToHex_concat)
qed simp

lemma hexToBuffer_bytesToHex [codec_simps]: "hexToBuffer (bytesToHex bs) = bs"
  by (rule nth_equalityI)
    (simp_all add: hexToBuffer_def length_bytesToHex take_drop_bytesToHex parseInt16_hexByte)

lemma length_hexToBytesLoop [simp]: "length (hexToBytesLoop hex is bytes) = length bytes"
  by (induction "is" arbitrary: bytes) simp_all

lemma hexToBytesLoop_nth:
  "j < length bytes \<Longrightarrow>
   hexToBytesLoop hex (map (\<lambda>k. 2 * k) [m..<n]) bytes ! j =
     (if m \<le> j \<and> j < n then toUint8 (parseInt16 (take 2 (drop (2 * j) hex))) else bytes ! j)"
proof (induction "n - m" arbitrary: m bytes)
  case 0
  then have "[m..<n] = []" "\<not> (m \<le> j \<and> j < n)" by simp_all
  then show ?case by (simp only: list.map hexToBytesLoop.simps if_False)
next
  case (Suc d)
  then have "[m..<n] = m # [Suc m..<n]" by (simp add: upt_conv_Cons)
  with Suc show ?case by (cases "j = m") (auto simp: nth_list_update)
qed

text \<open>The two loops over a hexadecimal string compute the same bytes on every input.\<close>

lemma hexToBytes_eq_hexToBuffer: "hexToBytes hex = hexToBuffer hex"
proof (rule nth_equalityI)
  show "length (hexToBytes hex) = length (hexToBuffer hex)"
    by (simp add: hexToBytes_def hexToBuffer_def)
next
  fix i
  assume i: "i < length (hexToBytes hex)"
  then have "i < length hex div 2" by (simp add: hexToBytes_def)
  then show "hexToBytes hex ! i = hexToBuffer hex ! i"
    unfolding hexToBytes_def hexToBuffer_def
    by (subst hexToBytesLoop_nth) (auto simp: mult.commute)
qed

interpretation hex: codec bytesToHex "\<lambda>s. Some (hexMatchOrEmpty s)"
  by unfold_locales (simp add: codec_simps)

interpretation hexBuffer: codec bufferToHex "\<lambda>s. Some (hexToBuffer s)"
  by unfold_locales (simp add: bufferToHex_eq codec_simps)

section \<open>Base64 round trips\<close>

lemma b64Val_b64Char:
  "n < 64 \<Longrightarrow> b64Val (b64Char n) = Some n \<and> \<not> isAsciiSpace (b64Char n)"
  by (auto simp: b64Val_def b64Char_def isAsciiSpace_def Let_def)

lemma b64Char_no_pad: "n < 64 \<Longrightarrow> b64Char n \<noteq> CHR ''=''"
  by (drule b64Val_b64Char) (auto simp: b64Val_def Let_def)

text \<open>The sextets of the unpadded text, and the padding.\<close>

fun sextets :: "nat list \<Rightarrow> nat list" where
  "sextets [] = []"
| "sextets [a] = [a div 4, a mod 4 * 16]"
| "sextets [a, b] = [a div 4, a mod 4 * 16 + b div 16, b mod 16 * 4]"
| "sextets (a # b # c # xs) =
     a div 4 # (a mod 4 * 16 + b div 16) # (b mod 16 * 4 + c div 64) # c mod 64 # sextets xs"

fun padding :: "nat list \<Rightarrow> string" where
  "padding [] = []"
| "padding [a] = ''==''"
| "padding [a, b] = ''=''"
| "padding (a # b # c # xs) = padding xs"

lemma b64Encode_sextets: "b64Encode xs = map b64Char (sextets xs) @ padding xs"
  by (induction xs rule: b64Encode.induct) simp_all

lemma sextets_less: "\<forall>a \<in> set xs. a < 256 \<Longrightarrow> \<forall>s \<in> set (sextets xs). s < 64"
proof (induction xs rule: sextets.induct)
  case (4 a b c xs)
  then have "a < 256" "b < 256" "c < 256" by simp_all
  then have "a div 4 < 64" "a mod 4 * 16 + b div 16 < 64" "b mod 16 * 4 + c div 64 < 64"
    by linarith+
  with 4 show ?case by simp
next
  case (3 a b)
  then have "a < 256" "b < 256" by simp_all
  then have "a div 4 < 64" "a mod 4 * 16 + b div 16 < 64" "b mod 16 * 4 < 64"
    by linarith+
  then show ?case by simp
next
  case (2 a)
  then have "a < 256" by simp
  then have "a div 4 < 64" "a mod 4 * 16 < 64" by linarith+
  then show ?case by simp
qed simp

lemma unpack: "(y :: nat) < k \<Longrightarrow> (x * k + y) div k = x" "y < k \<Longrightarrow> (x * k + y) mod k = y"
  by simp_all

lemma b64Decode_sextets: "\<forall>a \<in> set xs. a < 256 \<Longrightarrow> b64Decode (sextets xs) = xs"
proof (induction xs rule: sextets.induct)
  case (4 a b c xs)
  then have "b div 16 < 16" "c div 64 < 4" by auto
  with 4 show ?case by (simp add: unpack)
next
  case (3 a b)
  then have "b div 16 < 16" by auto
  then show ?case by (simp add: unpack)
qed simp_all

lemma length_sextets: "length (sextets xs) mod 4 \<noteq> 1
    \<and> length (sextets xs) + length (padding xs) = 4 * ((length xs + 2) div 3)"
proof (induction xs rule: sextets.induct)
  case (4 a b c xs)
  have "(length (a # b # c # xs) + 2) div 3 = Suc ((length xs + 2) div 3)" by simp
  moreover have "length (sextets (a # b # c # xs)) = length (sextets xs) + 4" by simp
  moreover have "(length (sextets xs) + 4) mod 4 = length (sextets xs) mod 4" by simp
  ultimately show ?case using 4 by (simp del: list.size)
qed simp_all

lemma padding_cases: "padding xs = [] \<or> padding xs = ''='' \<or> padding xs = ''==''"
  by (induction xs rule: padding.induct) auto

lemma length_b64Encode: "length (b64Encode xs) = 4 * ((length xs + 2) div 3)"
  using length_sextets [of xs] by (simp add: b64Encode_sextets)

lemma stripPad_padding:
  assumes "CHR ''='' \<notin> set s" and "(length s + length (padding xs)) mod 4 = 0"
  shows "stripPad (s @ padding xs) = s"
proof -
  have ne: "\<not> suffix ''='' s" "\<not> suffix ''=='' s"
    using assms(1) by (auto dest: set_mono_suffix)
  have one: "\<not> suffix ''=='' (s @ ''='')"
  proof
    assume "suffix ''=='' (s @ ''='')"
    then have "suffix ''='' s"
      by (metis append_Cons append_Nil snoc_suffix_snoc)
    with ne show False by simp
  qed
  have "suffix ''=='' (s @ ''=='')" "suffix ''='' (s @ ''='')"
    by (rule suffixI, rule refl)+
  with ne one show ?thesis using padding_cases [of xs] assms(2)
    by (elim disjE) (simp_all add: stripPad_def)
qed

lemma atob_b64Encode:
  assumes "\<forall>a \<in> set xs. a < 256"
  shows "atob (b64Encode xs) = Some (map char_of xs)"
proof -
  let ?s = "map b64Char (sextets xs)"
  have lt: "\<forall>s \<in> set (sextets xs). s < 64" using assms by (rule sextets_less)
  have sp: "filter (\<lambda>c. \<not> isAsciiSpace c) (b64Encode xs) = ?s @ padding xs"
  proof -
    have "filter (\<lambda>c. \<not> isAsciiSpace c) ?s = ?s"
      using lt b64Val_b64Char by (auto simp: filter_id_conv)
    moreover have "filter (\<lambda>c. \<not> isAsciiSpace c) (padding xs) = padding xs"
      using padding_cases [of xs] by (auto simp: isAsciiSpace_def)
    ultimately show ?thesis by (simp add: b64Encode_sextets)
  qed
  have "CHR ''='' \<notin> set ?s" using lt b64Char_no_pad by fastforce
  then have st: "stripPad (?s @ padding xs) = ?s"
    using length_sextets [of xs] by (intro stripPad_padding) simp_all
  have "those (map b64Val (map b64Char ys)) = Some ys" if "\<forall>s \<in> set ys. s < 64" for ys
    using that b64Val_b64Char by (induction ys) auto
  then have "those (map b64Val ?s) = Some (sextets xs)" using lt by blast
  then show ?thesis
    using length_sextets [of xs] assms by (simp add: atob_def sp st b64Decode_sextets)
qed

lemma atob_btoa [simp, codec_simps]: "atob (btoa s) = Some s"
proof -
  have "map char_of (map of_char s :: nat list) = s" by (induction s) simp_all
  then show ?thesis by (simp add: btoa_def atob_b64Encode)
qed

lemma set_btoa: "c \<in> set (btoa s) \<Longrightarrow> b64Val c \<noteq> None \<or> c = CHR ''=''"
proof -
  assume "c \<in> set (btoa s)"
  then consider n where "n \<in> set (sextets (map of_char s))" "c = b64Char n" | "c = CHR ''=''"
    using padding_cases [of "map of_char s"] by (auto simp: btoa_def b64Encode_sextets)
  then show ?thesis
  proof cases
    case 1
    have "\<forall>x \<in> set (sextets (map of_char s)). x < 64" by (rule sextets_less) simp
    with 1 show ?thesis using b64Val_b64Char by fastforce
  qed simp
qed

lemma no_colon_btoa: "CHR '':'' \<notin> set (btoa s)"
  using set_btoa [of "CHR '':''" s] by (auto simp: b64Val_def)

lemma length_btoa: "length (btoa s) = 4 * ((length s + 2) div 3)"
  by (simp add: btoa_def length_b64Encode)

lemma btoa_eq_Nil [simp]: "btoa s = [] \<longleftrightarrow> s = []"
  by (cases s) (auto simp flip: length_0_conv simp: length_btoa)

lemma base64ToBuffer_bufferToBase64 [codec_simps]: "base64ToBuffer (bufferToBase64 bs) = Some bs"
  by (simp add: base64ToBuffer_def bufferToBase64_def)

interpretation base64: codec bufferToBase64 base64ToBuffer
  by unfold_locales (rule base64ToBuffer_bufferToBase64)

interpretation textBase64: codec_seq textEncode textDecode bufferToBase64 base64ToBuffer
  by unfold_locales simp

lemma base64ToHex_hexToBase64: "base64ToHex (hexToBase64 (bytesToHex bs)) = Some (bytesToHex bs)"
proof (cases "bs = []")
  case True
  then show ?thesis by (simp add: base64ToHex_def hexToBase64_def bytesToHex_concat)
next
  case False
  then have "bytesToHex bs \<noteq> []" "bytesToStr bs \<noteq> []"
    by (simp_all add: length_bytesToHex flip: length_greater_0_conv)
  then show ?thesis
    by (simp add: base64ToHex_def hexToBase64_def bufferToHexLoop_append codec_simps)
qed

text \<open>
  The readers invert the writers on every byte string: the three hexadecimal readers (the
  regular-expression one and the two index loops), the base64 pair, and the detour through
  base64 that the pre-key upload takes.
\<close>
theorem codec_roundtrips:
  "hexMatchOrEmpty (bytesToHex bs) = bs
   \<and> hexToBuffer (bufferToHex bs) = bs
   \<and> hexToBytes (bytesToHex bs) = bs
   \<and> base64ToBuffer (bufferToBase64 bs) = Some bs
   \<and> base64ToHex (hexToBase64 (bytesToHex bs)) = Some (bytesToHex bs)"
  by (simp add: bufferToHex_eq hexToBytes_eq_hexToBuffer base64ToHex_hexToBase64 codec_simps)

end
