(* ===== verification/Kv_Store.thy ===== *)
theory Kv_Store
  imports Js_Prelude "HOL-Library.AList"
begin

text \<open>
  Key-value state. Every component of the client keeps its state in a JavaScript object, a
  \<open>Map\<close>, \<open>localStorage\<close> or an IndexedDB object store. This theory holds the interface they
  share (the locale \<open>kv_store\<close>: what a read returns after a write or a delete) with the lemma
  its clients use (the effect of a whole history of operations on one key), the insertion-ordered
  association list that models an object or a \<open>Map\<close>, and the \<open>localStorage\<close> slot with its
  failure modes.
\<close>

datatype ('k, 'v) kv_op = Put 'k 'v | Del 'k

fun kv_apply :: "('k \<Rightarrow> 'v \<Rightarrow> 's \<Rightarrow> 's) \<Rightarrow> ('k \<Rightarrow> 's \<Rightarrow> 's) \<Rightarrow> ('k, 'v) kv_op \<Rightarrow> 's \<Rightarrow> 's" where
  "kv_apply put del (Put k v) s = put k v s"
| "kv_apply put del (Del k) s = del k s"

text \<open>What a key holds after a history of operations: the last operation on it decides.\<close>

fun kv_after :: "('k, 'v) kv_op list \<Rightarrow> 'k \<Rightarrow> 'v option \<Rightarrow> 'v option" where
  "kv_after [] k v = v"
| "kv_after (Put k' w # ops) k v = kv_after ops k (if k' = k then Some w else v)"
| "kv_after (Del k' # ops) k v = kv_after ops k (if k' = k then None else v)"

locale kv_store =
  fixes invar :: "'s \<Rightarrow> bool"
    and lookup :: "'s \<Rightarrow> 'k \<Rightarrow> 'v option"
    and put :: "'k \<Rightarrow> 'v \<Rightarrow> 's \<Rightarrow> 's"
    and del :: "'k \<Rightarrow> 's \<Rightarrow> 's"
  assumes lookup_put: "invar s \<Longrightarrow> lookup (put k v s) k' = (if k = k' then Some v else lookup s k')"
    and lookup_del: "invar s \<Longrightarrow> lookup (del k s) k' = (if k = k' then None else lookup s k')"
    and invar_put: "invar s \<Longrightarrow> invar (put k v s)"
    and invar_del: "invar s \<Longrightarrow> invar (del k s)"
begin

lemma invar_apply: "invar s \<Longrightarrow> invar (kv_apply put del x s)"
  by (cases x) (simp_all add: invar_put invar_del)

lemma invar_history: "invar s \<Longrightarrow> invar (fold (kv_apply put del) ops s)"
  by (induction ops arbitrary: s) (simp_all add: invar_apply)

lemma lookup_history:
  "invar s \<Longrightarrow> lookup (fold (kv_apply put del) ops s) k = kv_after ops k (lookup s k)"
proof (induction ops arbitrary: s)
  case (Cons x ops)
  then show ?case
    by (cases x) (simp_all add: invar_put invar_del lookup_put lookup_del)
qed simp

lemma put_put_lookup: "invar s \<Longrightarrow> lookup (put k w (put k v s)) = lookup (put k w s)"
  by (rule ext) (simp add: lookup_put invar_put)

end

section \<open>Objects and maps with insertion order\<close>

text \<open>
  A JavaScript object or \<open>Map\<close> with the order of its keys: writing an existing key keeps its
  place, writing a new key appends it, deleting removes it.
\<close>

type_synonym 'v jsmap = "(string \<times> 'v) list"

definition jsGet :: "'v jsmap \<Rightarrow> string \<Rightarrow> 'v option" where
  "jsGet m k = map_of m k"

definition jsSet :: "string \<Rightarrow> 'v \<Rightarrow> 'v jsmap \<Rightarrow> 'v jsmap" where
  "jsSet k v m = AList.update k v m"

definition jsDelete :: "string \<Rightarrow> 'v jsmap \<Rightarrow> 'v jsmap" where
  "jsDelete k m = AList.delete k m"

definition wfMap :: "'v jsmap \<Rightarrow> bool" where
  "wfMap m \<longleftrightarrow> distinct (map fst m)"

lemma jsGet_jsSet [simp]: "jsGet (jsSet k v m) k' = (if k = k' then Some v else jsGet m k')"
  by (simp add: jsGet_def jsSet_def update_conv)

lemma jsGet_jsDelete [simp]: "jsGet (jsDelete k m) k' = (if k = k' then None else jsGet m k')"
  by (simp add: jsGet_def jsDelete_def delete_conv)

lemma jsGet_Nil [simp]: "jsGet [] k = None"
  by (simp add: jsGet_def)

lemma wfMap_Nil [simp]: "wfMap []"
  by (simp add: wfMap_def)

lemma wfMap_jsSet [simp]: "wfMap m \<Longrightarrow> wfMap (jsSet k v m)"
  by (simp add: wfMap_def jsSet_def distinct_update)

lemma wfMap_jsDelete [simp]: "wfMap m \<Longrightarrow> wfMap (jsDelete k m)"
  by (simp add: wfMap_def jsDelete_def distinct_delete)

lemma jsGet_mem: "wfMap m \<Longrightarrow> (k, v) \<in> set m \<longleftrightarrow> jsGet m k = Some v"
  by (auto simp: wfMap_def jsGet_def dest: map_of_SomeD)

interpretation jsmap: kv_store wfMap jsGet jsSet jsDelete
  by unfold_locales simp_all

section \<open>An object store of IndexedDB\<close>

text \<open>
  The records of an object store in the order of their keys, the order in which \<open>getAll\<close> and a
  cursor return them. Keys are strings and compare by code unit.
\<close>

type_synonym 'v idb = "(string \<times> 'v) list"

fun idbPut :: "string \<Rightarrow> 'v \<Rightarrow> 'v idb \<Rightarrow> 'v idb" where
  "idbPut k v [] = [(k, v)]"
| "idbPut k v (x # xs) =
     (if k < fst x then (k, v) # x # xs
      else if k = fst x then (k, v) # xs
      else x # idbPut k v xs)"

definition idbGet :: "'v idb \<Rightarrow> string \<Rightarrow> 'v option" where
  "idbGet s k = map_of s k"

definition idbDelete :: "string \<Rightarrow> 'v idb \<Rightarrow> 'v idb" where
  "idbDelete k s = filter (\<lambda>x. fst x \<noteq> k) s"

definition idbGetAll :: "'v idb \<Rightarrow> 'v list" where
  "idbGetAll s = map snd s"

definition wfIdb :: "'v idb \<Rightarrow> bool" where
  "wfIdb s \<longleftrightarrow> sorted_wrt (<) (map fst s)"

lemma set_idbPut: "wfIdb s \<Longrightarrow> set (idbPut k v s) = insert (k, v) {x \<in> set s. fst x \<noteq> k}"
  by (induction s) (auto simp: wfIdb_def)

lemma wfIdb_distinct: "wfIdb s \<Longrightarrow> distinct (map fst s)"
  by (simp add: wfIdb_def strict_sorted_iff)

lemma idbGet_mem: "wfIdb s \<Longrightarrow> idbGet s k = Some v \<longleftrightarrow> (k, v) \<in> set s"
  using wfIdb_distinct by (auto simp: idbGet_def dest: map_of_SomeD)

lemma wfIdb_idbPut [simp]: "wfIdb s \<Longrightarrow> wfIdb (idbPut k v s)"
proof (induction s)
  case (Cons x s)
  then have s: "wfIdb s" "\<forall>y \<in> set s. fst x < fst y" by (simp_all add: wfIdb_def)
  then show ?case
    using Cons set_idbPut [OF s(1), of k v] by (fastforce simp: wfIdb_def)
qed (simp add: wfIdb_def)

lemma wfIdb_filter [simp]: "wfIdb s \<Longrightarrow> wfIdb (filter P s)"
  by (simp add: wfIdb_def sorted_wrt_map sorted_wrt_filter)

lemma wfIdb_idbDelete [simp]: "wfIdb s \<Longrightarrow> wfIdb (idbDelete k s)"
  by (simp add: idbDelete_def)

lemma wfIdb_Nil [simp]: "wfIdb []"
  by (simp add: wfIdb_def)

lemma option_eqI_mem: "(\<And>v. x = Some v \<longleftrightarrow> y = Some v) \<Longrightarrow> x = y"
  by (metis not_None_eq)

lemma idbGet_idbPut [simp]:
  "wfIdb s \<Longrightarrow> idbGet (idbPut k v s) k' = (if k = k' then Some v else idbGet s k')"
  by (rule option_eqI_mem) (auto simp: idbGet_mem set_idbPut)

lemma idbGet_idbDelete [simp]:
  "wfIdb s \<Longrightarrow> idbGet (idbDelete k s) k' = (if k = k' then None else idbGet s k')"
  by (rule option_eqI_mem) (auto simp: idbGet_mem idbDelete_def)

interpretation idb: kv_store wfIdb idbGet idbPut idbDelete
  by unfold_locales simp_all

section \<open>A slot of localStorage\<close>

text \<open>
  One key of \<open>localStorage\<close>. Reading throws when storage is disabled, writing also when the
  quota is exceeded; a stored string may fail to parse.
\<close>

record 'v slot =
  item :: "'v blob option"
  readable :: bool
  writable :: bool

definition slotRead :: "'v slot \<Rightarrow> 'v option" where
  "slotRead s = (if readable s then Option.bind (item s) parseBlob else None)"

definition slotWrite :: "'v \<Rightarrow> 'v slot \<Rightarrow> 'v slot" where
  "slotWrite v s = (if writable s then s\<lparr>item := Some (Blob v)\<rparr> else s)"

lemma slotRead_slotWrite [simp]:
  "readable s \<Longrightarrow> writable s \<Longrightarrow> slotRead (slotWrite v s) = Some v"
  by (simp add: slotRead_def slotWrite_def)

lemma slotWrite_flags [simp]:
  "readable (slotWrite v s) = readable s" "writable (slotWrite v s) = writable s"
  by (simp_all add: slotWrite_def)

lemma slotWrite_refused: "\<not> writable s \<Longrightarrow> slotWrite v s = s"
  by (simp add: slotWrite_def)

end
