(* ===== verification/Safety_Numbers.thy ===== *)
theory Safety_Numbers
  imports Codec Kv_Store
begin

text \<open>
  \<open>SafetyNumberManager\<close> of \<open>packages/client-web/src/lib/safety-numbers.ts\<close>: the 60-digit safety
  number, the QR payload that carries it, the parser that checks a scanned payload, and the
  store of verified contacts with its key-change detection. The digest \<open>crypto.subtle.digest\<close>
  (SHA-512) and \<open>String.prototype.localeCompare\<close> (ICU collation) are parameters.
\<close>

unbundle bit_operations_syntax

section \<open>The safety number\<close>

datatype keyArg = KeyHex string | KeyBytes bytes

fun keyString :: "keyArg \<Rightarrow> string" where
  "keyString (KeyHex s) = s"
| "keyString (KeyBytes bs) = bytesToHex bs"

record party =
  userId :: string
  key :: string

definition resolveParties ::
  "string \<Rightarrow> keyArg \<Rightarrow> string option \<Rightarrow> keyArg option \<Rightarrow> party \<times> party" where
  "resolveParties userAOrIdA keyAOrIdB userIdB identityKeyB =
     (case (userIdB, identityKeyB) of
        (Some uB, Some kB) \<Rightarrow>
          (\<lparr>userId = userAOrIdA, key = keyString keyAOrIdB\<rparr>, \<lparr>userId = uB, key = keyString kB\<rparr>)
      | _ \<Rightarrow>
          (\<lparr>userId = userAOrIdA, key = []\<rparr>,
           \<lparr>userId = (case keyAOrIdB of KeyHex s \<Rightarrow> s | KeyBytes _ \<Rightarrow> []), key = []\<rparr>))"

definition partyString :: "party \<Rightarrow> string" where
  "partyString p = userId p @ '':'' @ key p"

definition sortParties :: "(string \<Rightarrow> string \<Rightarrow> int) \<Rightarrow> party \<times> party \<Rightarrow> party \<times> party" where
  "sortParties localeCompare ps =
     (case ps of (partyA, partyB) \<Rightarrow>
        if localeCompare (partyString partyA) (partyString partyB) \<le> 0
        then (partyA, partyB) else (partyB, partyA))"

definition safetyPayload :: "party \<times> party \<Rightarrow> string" where
  "safetyPayload ps =
     (case ps of (p1, p2) \<Rightarrow>
        ''genchat-safety-v1:'' @ userId p1 @ '':'' @ key p1 @ '':'' @ userId p2 @ '':'' @ key p2)"

fun iterateDigest :: "(bytes \<Rightarrow> bytes) \<Rightarrow> nat \<Rightarrow> bytes \<Rightarrow> bytes" where
  "iterateDigest digest 0 h = h"
| "iterateDigest digest (Suc n) h = iterateDigest digest n (digest h)"

text \<open>\<open>hashBytes[k] || 0\<close>: reading past the end gives \<open>undefined\<close>.\<close>

definition byteAt :: "bytes \<Rightarrow> nat \<Rightarrow> byte" where
  "byteAt bs k = (if k < length bs then bs ! k else 0)"

definition blockVal :: "bytes \<Rightarrow> nat \<Rightarrow> nat" where
  "blockVal hashBytes i =
     (let b0 = ucast (byteAt hashBytes (i * 4)) :: 32 word;
          b1 = ucast (byteAt hashBytes (i * 4 + 1)) :: 32 word;
          b2 = ucast (byteAt hashBytes (i * 4 + 2)) :: 32 word;
          b3 = ucast (byteAt hashBytes (i * 4 + 3)) :: 32 word
      in unat (push_bit 24 b0 OR push_bit 16 b1 OR push_bit 8 b2 OR b3) mod 100000)"

definition safetyBlocks :: "bytes \<Rightarrow> string list" where
  "safetyBlocks hashBytes =
     map (\<lambda>i. padStart 5 CHR ''0'' (decimal (blockVal hashBytes i))) [0..<12]"

definition computeSafetyNumber ::
  "(string \<Rightarrow> string \<Rightarrow> int) \<Rightarrow> (bytes \<Rightarrow> bytes) \<Rightarrow>
   string \<Rightarrow> keyArg \<Rightarrow> string option \<Rightarrow> keyArg option \<Rightarrow> string" where
  "computeSafetyNumber localeCompare digest userAOrIdA keyAOrIdB userIdB identityKeyB =
     (let ps = sortParties localeCompare
                 (resolveParties userAOrIdA keyAOrIdB userIdB identityKeyB);
          payloadBytes = textEncode (safetyPayload ps);
          currentHash = iterateDigest digest 5 (digest payloadBytes)
      in join '' '' (safetyBlocks currentHash))"

section \<open>The QR payload\<close>

definition isUnreserved :: "char \<Rightarrow> bool" where
  "isUnreserved c \<longleftrightarrow>
     (let n = (of_char c :: nat)
      in (65 \<le> n \<and> n \<le> 90) \<or> (97 \<le> n \<and> n \<le> 122) \<or> (48 \<le> n \<and> n \<le> 57)
         \<or> n \<in> {45, 95, 46, 33, 126, 42, 39, 40, 41})"

definition upperHexDigit :: "nat \<Rightarrow> char" where
  "upperHexDigit d = (if d < 10 then char_of (48 + d) else char_of (55 + d))"

definition percentByte :: "byte \<Rightarrow> string" where
  "percentByte b = [CHR ''%'', upperHexDigit (unat b div 16), upperHexDigit (unat b mod 16)]"

definition encodeURIComponent :: "string \<Rightarrow> string" where
  "encodeURIComponent s =
     concat (map (\<lambda>c. if isUnreserved c then [c] else concat (map percentByte (utf8Char c))) s)"

definition sortPair :: "string \<Rightarrow> string \<Rightarrow> string \<times> string" where
  "sortPair x y = (if x \<le> y then (x, y) else (y, x))"

definition generateQrPayload :: "string \<Rightarrow> string \<Rightarrow> string \<Rightarrow> string" where
  "generateQrPayload userIdA userIdB safetyNumber =
     (case sortPair userIdA userIdB of (s0, s1) \<Rightarrow>
        ''genchat:safety?v=1&a='' @ encodeURIComponent s0 @ ''&b='' @ encodeURIComponent s1
          @ ''&num='' @ removeSpaces safetyNumber)"

text \<open>
  The query of \<open>new URL(\<dots>)\<close> and its \<open>searchParams\<close>. The URL parser strips trailing control
  characters and spaces, drops tabs and line ends anywhere and cuts the fragment; the parameters
  are the non-empty pieces between ampersands, split at the first equals sign, with plus read
  as a space and percent escapes decoded as UTF-8. The URL parser percent-encodes the characters
  it does not allow in a query and the parameter parser decodes them again, so the two cancel.
  \<^const>\<open>None\<close> stands for \<open>null\<close> and for a value outside Latin-1: both differ from every
  expected value.
\<close>

definition urlQuery :: "string \<Rightarrow> string" where
  "urlQuery s =
     (let s1 = rev (dropWhile (\<lambda>c. of_char c \<le> (32 :: nat)) (rev s));
          s2 = filter (\<lambda>c. (of_char c :: nat) \<notin> {9, 10, 13}) s1
      in takeWhile (\<lambda>c. c \<noteq> CHR ''#'') s2)"

fun percentDecode :: "bytes \<Rightarrow> bytes" where
  "percentDecode (p # h # l # bs) =
     (if p = 37 \<and> isHexDigit (char_of (unat h)) \<and> isHexDigit (char_of (unat l))
      then word_of_nat (16 * hexVal (char_of (unat h)) + hexVal (char_of (unat l))) # percentDecode bs
      else p # percentDecode (h # l # bs))"
| "percentDecode bs = bs"

definition formDecode :: "string \<Rightarrow> string option" where
  "formDecode s =
     utf8Decode (percentDecode (textEncode (map (\<lambda>c. if c = CHR ''+'' then CHR '' '' else c) s)))"

definition paramPair :: "string \<Rightarrow> string option \<times> string option" where
  "paramPair piece =
     (formDecode (takeWhile (\<lambda>c. c \<noteq> CHR ''='') piece),
      formDecode (drop 1 (dropWhile (\<lambda>c. c \<noteq> CHR ''='') piece)))"

definition searchParam :: "string \<Rightarrow> string \<Rightarrow> string option" where
  "searchParam query name =
     (case find (\<lambda>p. fst p = Some name)
             (map paramPair (filter (\<lambda>p. p \<noteq> []) (splitOn CHR ''&'' query))) of
        None \<Rightarrow> None | Some p \<Rightarrow> snd p)"

datatype qrResult = Valid | NotSafetyQr | WrongContact | NumberMismatch

definition parseAndVerifyQrPayload :: "string \<Rightarrow> string \<Rightarrow> string \<Rightarrow> string \<Rightarrow> qrResult" where
  "parseAndVerifyQrPayload payload currentUserId peerId expectedSafetyNumber =
     (if \<not> startsWith payload ''genchat:safety?'' then NotSafetyQr
      else
        let query = urlQuery (drop (length ''genchat:safety?'') payload);
            a = searchParam query ''a'';
            b = searchParam query ''b'';
            num = searchParam query ''num''
        in case sortPair currentUserId peerId of (e0, e1) \<Rightarrow>
             if a \<noteq> Some e0 \<or> b \<noteq> Some e1 then WrongContact
             else if num \<noteq> Some (removeSpaces expectedSafetyNumber) then NumberMismatch
             else Valid)"

section \<open>The trust store\<close>

record TrustRecord =
  peerId :: string
  safetyNumber :: string
  isVerified :: bool
  verifiedAt :: "int option"
  hasChanged :: bool
  previousSafetyNumber :: "string option"

type_synonym trustSlot = "TrustRecord jsmap slot"

definition getAllRecords :: "trustSlot \<Rightarrow> TrustRecord jsmap" where
  "getAllRecords ls = (case slotRead ls of None \<Rightarrow> [] | Some m \<Rightarrow> m)"

definition saveAllRecords :: "TrustRecord jsmap \<Rightarrow> trustSlot \<Rightarrow> trustSlot" where
  "saveAllRecords records ls = slotWrite records ls"

definition getTrustRecord :: "trustSlot \<Rightarrow> string \<Rightarrow> string \<Rightarrow> TrustRecord" where
  "getTrustRecord ls pid currentSafetyNumber =
     (case jsGet (getAllRecords ls) pid of
        None \<Rightarrow>
          \<lparr>peerId = pid, safetyNumber = currentSafetyNumber, isVerified = False,
           verifiedAt = None, hasChanged = False, previousSafetyNumber = None\<rparr>
      | Some record \<Rightarrow>
          let changed = isVerified record \<and> safetyNumber record \<noteq> currentSafetyNumber
          in \<lparr>peerId = pid, safetyNumber = currentSafetyNumber,
              isVerified = (if changed then False else isVerified record),
              verifiedAt = verifiedAt record, hasChanged = changed,
              previousSafetyNumber = (if changed then Some (safetyNumber record) else None)\<rparr>)"

definition setVerified :: "int \<Rightarrow> string \<Rightarrow> string \<Rightarrow> trustSlot \<Rightarrow> trustSlot" where
  "setVerified now pid number ls =
     saveAllRecords
       (jsSet pid \<lparr>peerId = pid, safetyNumber = number, isVerified = True,
                   verifiedAt = Some now, hasChanged = False, previousSafetyNumber = None\<rparr>
         (getAllRecords ls)) ls"

definition revokeVerification :: "string \<Rightarrow> trustSlot \<Rightarrow> trustSlot" where
  "revokeVerification pid ls =
     (case jsGet (getAllRecords ls) pid of
        None \<Rightarrow> ls
      | Some record \<Rightarrow>
          saveAllRecords
            (jsSet pid (record\<lparr>isVerified := False, hasChanged := False, verifiedAt := None\<rparr>)
              (getAllRecords ls)) ls)"

definition getVerifiedPeerIds :: "trustSlot \<Rightarrow> string set" where
  "getVerifiedPeerIds ls = set (map fst (filter (\<lambda>e. isVerified (snd e)) (getAllRecords ls)))"

section \<open>Format and value of the safety number\<close>

lemma blockVal_less: "blockVal h i < 100000"
  by (simp add: blockVal_def Let_def)

lemma length_decimal_block: "length (padStart 5 CHR ''0'' (decimal (blockVal h i))) = 5"
  using length_toString_le [of 10 5 "blockVal h i"] blockVal_less [of h i]
  by (simp add: length_padStart)

lemma set_decimal_block:
  "set (padStart 5 CHR ''0'' (decimal (blockVal h i))) \<subseteq> set ''0123456789''"
proof -
  have "CHR ''0'' \<in> set ''0123456789''" by simp
  then show ?thesis
    using set_padStart [of 5 "CHR ''0''" "decimal (blockVal h i)"] set_toString_10 [of "blockVal h i"]
    by blast
qed

lemma digits_no_space: "set s \<subseteq> set ''0123456789'' \<Longrightarrow> removeSpaces s = s \<and> CHR '' '' \<notin> set s"
  by (induction s) (auto simp: removeSpaces_def isSpace_def)

lemma safetyBlocks_ok:
  "length (safetyBlocks h) = 12"
  "b \<in> set (safetyBlocks h) \<Longrightarrow> length b = 5 \<and> set b \<subseteq> set ''0123456789''"
  using set_decimal_block by (auto simp: safetyBlocks_def length_decimal_block)

lemma map_length_safetyBlocks: "map length (safetyBlocks h) = replicate 12 5"
proof -
  have "map length (safetyBlocks h) = map (\<lambda>_. 5) [0..<12]"
    unfolding safetyBlocks_def map_map comp_def length_decimal_block ..
  then show ?thesis by (simp add: map_replicate_const)
qed

lemma removeSpaces_blocks: "removeSpaces (join '' '' (safetyBlocks h)) = concat (safetyBlocks h)"
proof -
  have "map removeSpaces (safetyBlocks h) = safetyBlocks h"
    using safetyBlocks_ok(2) digits_no_space by (auto intro!: map_idI)
  then show ?thesis by (simp add: removeSpaces_join_spaces)
qed

lemma length_concat_blocks: "length (concat (safetyBlocks h)) = 60"
  by (simp add: length_concat map_length_safetyBlocks sum_list_replicate)

lemma splitOn_blocks: "splitOn CHR '' '' (join '' '' (safetyBlocks h)) = safetyBlocks h"
proof (rule splitOn_join)
  show "\<forall>x \<in> set (safetyBlocks h). CHR '' '' \<notin> set x"
    using safetyBlocks_ok(2) digits_no_space by blast
  show "safetyBlocks h \<noteq> []" using safetyBlocks_ok(1) [of h] by auto
qed

definition safetyHash ::
  "(string \<Rightarrow> string \<Rightarrow> int) \<Rightarrow> (bytes \<Rightarrow> bytes) \<Rightarrow> string \<Rightarrow> keyArg \<Rightarrow> string option \<Rightarrow> keyArg option \<Rightarrow> bytes"
  where
  "safetyHash cmp digest uA kA uB kB =
     iterateDigest digest 5 (digest (textEncode (safetyPayload (sortParties cmp (resolveParties uA kA uB kB)))))"

lemma computeSafetyNumber_blocks:
  "computeSafetyNumber cmp digest uA kA uB kB = join '' '' (safetyBlocks (safetyHash cmp digest uA kA uB kB))"
  by (simp add: computeSafetyNumber_def safetyHash_def Let_def)

lemma or_is_plus:
  assumes "\<And>n. \<not> bit a n \<or> \<not> bit b n"
  shows "(a OR b :: 32 word) = a + b"
  using assms by (simp add: disjunctive_add)

lemma byte_bits: "bit (ucast (b :: byte) :: 32 word) n \<Longrightarrow> n < 8"
  by (auto simp: bit_ucast_iff dest: bit_imp_le_length)

lemma unat_ucast_byte [simp]: "unat (ucast (b :: byte) :: 32 word) = unat b"
proof -
  have "unat b < 256" by (rule unat_byte_less)
  then have "unat b < 2 ^ 32" by (rule order.strict_trans) simp
  then show ?thesis by (simp add: unsigned_ucast_eq take_bit_nat_eq_self)
qed

lemma be32:
  "unat (push_bit 24 (ucast (b0 :: byte)) OR push_bit 16 (ucast (b1 :: byte))
         OR push_bit 8 (ucast (b2 :: byte)) OR (ucast (b3 :: byte)) :: 32 word)
   = unat b0 * 2 ^ 24 + unat b1 * 2 ^ 16 + unat b2 * 2 ^ 8 + unat b3"
proof -
  let ?w = "\<lambda>b :: byte. ucast b :: 32 word"
  have or3: "(push_bit 8 (?w b2) OR ?w b3) = push_bit 8 (?w b2) + ?w b3"
    by (rule or_is_plus) (auto simp: bit_push_bit_iff dest: byte_bits)
  have or2: "(push_bit 16 (?w b1) OR push_bit 8 (?w b2) OR ?w b3)
      = push_bit 16 (?w b1) + (push_bit 8 (?w b2) + ?w b3)"
    unfolding or.assoc or3 [symmetric]
    by (rule or_is_plus) (auto simp: bit_push_bit_iff bit_or_iff dest: byte_bits)
  have or1: "(push_bit 24 (?w b0) OR (push_bit 16 (?w b1) OR push_bit 8 (?w b2) OR ?w b3))
      = push_bit 24 (?w b0) + (push_bit 16 (?w b1) + (push_bit 8 (?w b2) + ?w b3))"
    unfolding or2 [symmetric]
    by (rule or_is_plus) (auto simp: bit_push_bit_iff bit_or_iff dest: byte_bits)
  have "push_bit 24 (?w b0) OR push_bit 16 (?w b1) OR push_bit 8 (?w b2) OR ?w b3
      = word_of_nat (unat b0 * 2 ^ 24 + unat b1 * 2 ^ 16 + unat b2 * 2 ^ 8 + unat b3)"
    using or1 by (simp add: or.assoc push_bit_eq_mult add.assoc)
  moreover have "unat b0 * 2 ^ 24 + unat b1 * 2 ^ 16 + unat b2 * 2 ^ 8 + unat b3 < 2 ^ 32"
    using unat_byte_less [of b0] unat_byte_less [of b1] unat_byte_less [of b2] unat_byte_less [of b3]
    by (simp del: unat_byte_less)
  ultimately show ?thesis by (simp only: unat_of_nat take_bit_nat_eq_self len_bit0 len_num1) simp
qed

lemma blockVal_big_endian:
  "blockVal h i =
     (unat (byteAt h (i * 4)) * 2 ^ 24 + unat (byteAt h (i * 4 + 1)) * 2 ^ 16
      + unat (byteAt h (i * 4 + 2)) * 2 ^ 8 + unat (byteAt h (i * 4 + 3))) mod 100000"
  by (simp add: blockVal_def Let_def be32)


section \<open>Symmetry\<close>

lemma partyString_payload:
  "safetyPayload (p1, p2) = ''genchat-safety-v1:'' @ partyString p1 @ '':'' @ partyString p2"
  by (simp add: safetyPayload_def partyString_def)

text \<open>
  What the sort relies on of a collation at two strings: the sign flips when the arguments are
  swapped, and 0 means the strings are the same.
\<close>

definition collates :: "(string \<Rightarrow> string \<Rightarrow> int) \<Rightarrow> string \<Rightarrow> string \<Rightarrow> bool" where
  "collates cmp s t \<longleftrightarrow> sgn (cmp t s) = - sgn (cmp s t) \<and> (cmp s t = 0 \<longrightarrow> s = t)"

lemma sortParties_swap:
  assumes "collates cmp (partyString p) (partyString q)"
  shows "safetyPayload (sortParties cmp (p, q)) = safetyPayload (sortParties cmp (q, p))"
  using assms
  by (cases "cmp (partyString p) (partyString q)" "0 :: int" rule: linorder_cases)
    (auto simp: collates_def sortParties_def partyString_payload sgn_if split: if_splits)

section \<open>Percent encoding\<close>

lemma utf8Char_ascii: "of_char c < (128 :: nat) \<Longrightarrow> utf8Char c = [word_of_nat (of_char c)]"
  by (simp add: utf8Char_def)

lemma percentDecode_Cons: "p \<noteq> 37 \<Longrightarrow> percentDecode (p # bs) = p # percentDecode bs"
  by (cases bs; cases "tl bs") auto

lemma upperHexDigit_ok:
  "d < 16 \<Longrightarrow> isHexDigit (upperHexDigit d) \<and> hexVal (upperHexDigit d) = d
    \<and> of_char (upperHexDigit d) < (128 :: nat) \<and> isUnreserved (upperHexDigit d)"
  by (auto simp: isHexDigit_def hexVal_def upperHexDigit_def isUnreserved_def Let_def)

lemma textEncode_Nil [simp]: "textEncode [] = []"
  by (simp add: textEncode_def)

lemma textEncode_Cons: "textEncode (c # s) = utf8Char c @ textEncode s"
  by (simp add: textEncode_def)

lemma textEncode_append: "textEncode (s @ t) = textEncode s @ textEncode t"
  by (simp add: textEncode_def)

lemma percentDecode_percentByte:
  "percentDecode (textEncode (percentByte b) @ bs) = b # percentDecode bs"
proof -
  note h = upperHexDigit_ok [OF nibbles_less(1) [of b]] upperHexDigit_ok [OF nibbles_less(2) [of b]]
  have w: "of_char CHR ''%'' = (37 :: nat)" by simp
  have "textEncode (percentByte b) =
      [37, word_of_nat (of_char (upperHexDigit (unat b div 16))),
       word_of_nat (of_char (upperHexDigit (unat b mod 16)))]"
    using h by (simp add: percentByte_def textEncode_def utf8Char_ascii)
  moreover have "16 * (unat b div 16) + unat b mod 16 = unat b" by simp
  ultimately show ?thesis using h by simp
qed

lemma percentDecode_percentBytes:
  "percentDecode (textEncode (concat (map percentByte xs)) @ bs) = xs @ percentDecode bs"
  by (induction xs) (simp_all add: textEncode_append percentDecode_percentByte)

lemma unreserved_ok:
  assumes "isUnreserved c"
  shows "of_char c < (128 :: nat)" "32 < (of_char c :: nat)" "word_of_nat (of_char c) \<noteq> (37 :: byte)"
    "c \<notin> set ''%&=+#''"
proof -
  show a: "of_char c < (128 :: nat)" "32 < (of_char c :: nat)"
    using assms by (auto simp: isUnreserved_def Let_def)
  have n: "(of_char c :: nat) \<noteq> 37" using assms by (auto simp: isUnreserved_def Let_def)
  show "word_of_nat (of_char c) \<noteq> (37 :: byte)"
  proof
    assume "word_of_nat (of_char c) = (37 :: byte)"
    then have "unat (word_of_nat (of_char c) :: byte) = unat (37 :: byte)" by simp
    with n show False by simp
  qed
  show "c \<notin> set ''%&=+#''" using assms by (auto simp: isUnreserved_def Let_def)
qed

lemma percentDecode_encodeURIComponent:
  "percentDecode (textEncode (encodeURIComponent s) @ bs) = textEncode s @ percentDecode bs"
proof (induction s)
  case Nil
  then show ?case by (simp add: encodeURIComponent_def textEncode_def)
next
  case (Cons c s)
  have e: "encodeURIComponent (c # s) =
      (if isUnreserved c then [c] else concat (map percentByte (utf8Char c))) @ encodeURIComponent s"
    by (simp add: encodeURIComponent_def)
  show ?case
  proof (cases "isUnreserved c")
    case True
    then show ?thesis
      using Cons by (simp add: e textEncode_Cons utf8Char_ascii unreserved_ok percentDecode_Cons)
  next
    case False
    then show ?thesis
      using Cons by (simp add: e textEncode_append textEncode_Cons percentDecode_percentBytes)
  qed
qed

definition uriChar :: "char \<Rightarrow> bool" where
  "uriChar c \<longleftrightarrow> isUnreserved c \<or> c = CHR ''%''"

lemma set_encodeURIComponent: "set (encodeURIComponent s) \<subseteq> Collect uriChar"
proof -
  have "set (percentByte b) \<subseteq> Collect uriChar" for b
    using upperHexDigit_ok [OF nibbles_less(1) [of b]] upperHexDigit_ok [OF nibbles_less(2) [of b]]
    by (simp add: percentByte_def uriChar_def)
  then show ?thesis by (auto simp: encodeURIComponent_def uriChar_def split: if_splits)
qed

lemma uriChar_ok:
  assumes "uriChar c"
  shows "32 < (of_char c :: nat)" "c \<noteq> CHR ''&''" "c \<noteq> CHR ''=''" "c \<noteq> CHR ''+''" "c \<noteq> CHR ''#''"
  using assms unreserved_ok [of c] by (auto simp: uriChar_def)

lemma no_plus: "CHR ''+'' \<notin> set s \<Longrightarrow> map (\<lambda>c. if c = CHR ''+'' then CHR '' '' else c) s = s"
  by (induction s) auto

lemma formDecode_encodeURIComponent [codec_simps]:
  "formDecode (encodeURIComponent s) = Some s"
proof -
  have "CHR ''+'' \<notin> set (encodeURIComponent s)"
    using set_encodeURIComponent [of s] uriChar_ok(4) by blast
  then show ?thesis
    using percentDecode_encodeURIComponent [of s "[]"] by (simp add: formDecode_def no_plus)
qed

lemma encodeURIComponent_plain: "list_all isUnreserved s \<Longrightarrow> encodeURIComponent s = s"
  by (induction s) (simp_all add: encodeURIComponent_def)

lemma formDecode_plain: "list_all isUnreserved s \<Longrightarrow> formDecode s = Some s"
  using formDecode_encodeURIComponent [of s] by (simp add: encodeURIComponent_plain)

interpretation uri: codec encodeURIComponent formDecode
  by unfold_locales (rule formDecode_encodeURIComponent)


section \<open>Scanning a payload\<close>

definition qrQuery :: "string \<Rightarrow> string \<Rightarrow> string \<Rightarrow> string" where
  "qrQuery s0 s1 n = ''v=1&a='' @ encodeURIComponent s0 @ ''&b='' @ encodeURIComponent s1 @ ''&num='' @ n"

lemma dropWhile_none: "list_all (\<lambda>c. \<not> Q c) q \<Longrightarrow> dropWhile Q q = q"
  by (cases q) simp_all

lemma urlQuery_plain:
  assumes "list_all (\<lambda>c. 32 < (of_char c :: nat) \<and> c \<noteq> CHR ''#'') q"
  shows "urlQuery q = q"
proof -
  have mem: "32 < (of_char c :: nat)" "c \<noteq> CHR ''#''" if "c \<in> set q" for c
    using assms that by (simp_all add: list_all_iff)
  have r: "dropWhile (\<lambda>c. of_char c \<le> (32 :: nat)) (rev q) = rev q"
    by (rule dropWhile_none) (use mem(1) in \<open>simp add: list_all_iff not_le\<close>)
  have "(of_char c :: nat) \<notin> {9, 10, 13}" if "c \<in> set q" for c
    using mem(1) [OF that] by auto
  then have "filter (\<lambda>c. (of_char c :: nat) \<notin> {9, 10, 13}) q = q"
    by (simp only: filter_id_conv) blast
  moreover have "takeWhile (\<lambda>c. c \<noteq> CHR ''#'') q = q"
    using mem(2) by (simp add: takeWhile_eq_all_conv)
  ultimately show ?thesis by (simp only: urlQuery_def r Let_def rev_rev_ident)
qed

lemma uri_list_all: "list_all uriChar (encodeURIComponent s)"
  using set_encodeURIComponent [of s] by (auto simp: list_all_iff)

lemma digits_unreserved: "set n \<subseteq> set ''0123456789'' \<Longrightarrow> list_all isUnreserved n"
  by (auto simp: list_all_iff isUnreserved_def Let_def)

lemma urlQuery_qrQuery:
  assumes "set n \<subseteq> set ''0123456789''"
  shows "urlQuery (qrQuery s0 s1 n) = qrQuery s0 s1 n"
proof (rule urlQuery_plain)
  have e: "list_all (\<lambda>c. 32 < (of_char c :: nat) \<and> c \<noteq> CHR ''#'') (encodeURIComponent s)" for s
    using uri_list_all [of s] uriChar_ok by (auto simp: list_all_iff)
  have "list_all (\<lambda>c. 32 < (of_char c :: nat) \<and> c \<noteq> CHR ''#'') n"
    using assms by (auto simp: list_all_iff)
  with e show "list_all (\<lambda>c. 32 < (of_char c :: nat) \<and> c \<noteq> CHR ''#'') (qrQuery s0 s1 n)"
    by (simp add: qrQuery_def)
qed

lemma splitOn_qrQuery:
  assumes "set n \<subseteq> set ''0123456789''"
  shows "splitOn CHR ''&'' (qrQuery s0 s1 n) =
    [''v=1'', ''a='' @ encodeURIComponent s0, ''b='' @ encodeURIComponent s1, ''num='' @ n]"
proof -
  have e: "CHR ''&'' \<notin> set (encodeURIComponent s)" for s
    using set_encodeURIComponent [of s] uriChar_ok(2) by blast
  have q: "qrQuery s0 s1 n = join ''&''
      [''v=1'', ''a='' @ encodeURIComponent s0, ''b='' @ encodeURIComponent s1, ''num='' @ n]"
    by (simp add: qrQuery_def)
  show ?thesis unfolding q by (rule splitOn_join) (use e assms in auto)
qed

lemma paramPair_split:
  "CHR ''='' \<notin> set nm \<Longrightarrow> paramPair (nm @ ''='' @ v) = (formDecode nm, formDecode v)"
proof -
  assume a: "CHR ''='' \<notin> set nm"
  from a have "takeWhile (\<lambda>c. c \<noteq> CHR ''='') (nm @ ''='' @ v) = nm" by (induction nm) auto
  moreover from a have "dropWhile (\<lambda>c. c \<noteq> CHR ''='') (nm @ ''='' @ v) = ''='' @ v"
    by (induction nm) auto
  ultimately show ?thesis by (simp add: paramPair_def)
qed

lemma param_names:
  "formDecode ''v'' = Some ''v''" "formDecode ''a'' = Some ''a''" "formDecode ''b'' = Some ''b''"
  "formDecode ''num'' = Some ''num''"
  by (rule formDecode_plain, simp add: isUnreserved_def)+

lemma searchParam_qrQuery:
  assumes "set n \<subseteq> set ''0123456789''"
  shows "searchParam (qrQuery s0 s1 n) ''a'' = Some s0"
    "searchParam (qrQuery s0 s1 n) ''b'' = Some s1"
    "searchParam (qrQuery s0 s1 n) ''num'' = Some n"
proof -
  have n: "formDecode n = Some n" using assms by (intro formDecode_plain digits_unreserved)
  have p: "paramPair ''v=1'' = (Some ''v'', formDecode ''1'')"
    "paramPair (''a='' @ encodeURIComponent s0) = (Some ''a'', Some s0)"
    "paramPair (''b='' @ encodeURIComponent s1) = (Some ''b'', Some s1)"
    "paramPair (''num='' @ n) = (Some ''num'', Some n)"
    using paramPair_split [of "''v''" "''1''"] paramPair_split [of "''a''" "encodeURIComponent s0"]
      paramPair_split [of "''b''" "encodeURIComponent s1"] paramPair_split [of "''num''" n]
    by (simp_all add: param_names n codec_simps)
  show "searchParam (qrQuery s0 s1 n) ''a'' = Some s0"
    "searchParam (qrQuery s0 s1 n) ''b'' = Some s1"
    "searchParam (qrQuery s0 s1 n) ''num'' = Some n"
    using p by (simp_all add: searchParam_def splitOn_qrQuery [OF assms])
qed

lemma parse_generate:
  assumes "set (removeSpaces n) \<subseteq> set ''0123456789''"
  shows "parseAndVerifyQrPayload (generateQrPayload x y n) c d m =
    (if sortPair x y \<noteq> sortPair c d then WrongContact
     else if removeSpaces n \<noteq> removeSpaces m then NumberMismatch else Valid)"
proof -
  obtain s0 s1 where s: "sortPair x y = (s0, s1)" by (cases "sortPair x y")
  obtain e0 e1 where e: "sortPair c d = (e0, e1)" by (cases "sortPair c d")
  have g: "generateQrPayload x y n = ''genchat:safety?'' @ qrQuery s0 s1 (removeSpaces n)"
    by (simp add: generateQrPayload_def s qrQuery_def)
  show ?thesis
    using assms
    by (auto simp: parseAndVerifyQrPayload_def g s e startsWith_def urlQuery_qrQuery searchParam_qrQuery)
qed

lemma sortPair_eq: "sortPair x y = sortPair c d \<longleftrightarrow> (x = c \<and> y = d) \<or> (x = d \<and> y = c)"
  by (auto simp: sortPair_def split: if_splits)

section \<open>The trust store as verified numbers\<close>

text \<open>
  The abstract state: the safety number a contact was verified with, if any. The two operations
  are a write and a delete of it.
\<close>

definition verifiedEntry :: "trustSlot \<Rightarrow> string \<Rightarrow> (int \<times> string) option" where
  "verifiedEntry ls pid =
     (case jsGet (getAllRecords ls) pid of
        None \<Rightarrow> None
      | Some r \<Rightarrow>
          if isVerified r
          then Some (case verifiedAt r of None \<Rightarrow> 0 | Some t \<Rightarrow> t, safetyNumber r) else None)"

abbreviation setVerifiedAt :: "string \<Rightarrow> int \<times> string \<Rightarrow> trustSlot \<Rightarrow> trustSlot" where
  "setVerifiedAt pid tn \<equiv> setVerified (fst tn) pid (snd tn)"

definition trustOk :: "trustSlot \<Rightarrow> bool" where
  "trustOk ls \<longleftrightarrow> readable ls \<and> writable ls \<and> wfMap (getAllRecords ls)"

lemma getAllRecords_save [simp]: "trustOk ls \<Longrightarrow> getAllRecords (saveAllRecords m ls) = m"
  by (simp add: trustOk_def getAllRecords_def saveAllRecords_def)

lemma trustOk_save: "trustOk ls \<Longrightarrow> wfMap m \<Longrightarrow> trustOk (saveAllRecords m ls)"
  using getAllRecords_save [of ls m] by (simp add: trustOk_def saveAllRecords_def)

lemma trustOk_setVerified: "trustOk ls \<Longrightarrow> trustOk (setVerified now pid n ls)"
  unfolding setVerified_def by (rule trustOk_save) (simp_all add: trustOk_def)

lemma trustOk_revoke: "trustOk ls \<Longrightarrow> trustOk (revokeVerification pid ls)"
  unfolding revokeVerification_def
  by (auto split: option.split intro!: trustOk_save wfMap_jsSet) (simp add: trustOk_def)

interpretation trust: kv_store trustOk verifiedEntry setVerifiedAt revokeVerification
proof unfold_locales
  fix ls :: trustSlot and k and v :: "int \<times> string" and k'
  assume ok: "trustOk ls"
  show "verifiedEntry (setVerifiedAt k v ls) k' = (if k = k' then Some v else verifiedEntry ls k')"
    using ok by (simp add: verifiedEntry_def setVerified_def)
  show "verifiedEntry (revokeVerification k ls) k' = (if k = k' then None else verifiedEntry ls k')"
    using ok by (auto simp: verifiedEntry_def revokeVerification_def split: option.splits)
  show "trustOk (setVerifiedAt k v ls)" using ok by (rule trustOk_setVerified)
  show "trustOk (revokeVerification k ls)" using ok by (rule trustOk_revoke)
qed

lemma getTrustRecord_verified:
  "isVerified (getTrustRecord ls pid n) \<longleftrightarrow> map_option snd (verifiedEntry ls pid) = Some n"
  by (auto simp: getTrustRecord_def verifiedEntry_def Let_def split: option.splits)

lemma getTrustRecord_changed:
  "previousSafetyNumber (getTrustRecord ls pid n) =
     (case verifiedEntry ls pid of None \<Rightarrow> None | Some e \<Rightarrow> if snd e = n then None else Some (snd e))"
  "hasChanged (getTrustRecord ls pid n) \<longleftrightarrow> previousSafetyNumber (getTrustRecord ls pid n) \<noteq> None"
  by (auto simp: getTrustRecord_def verifiedEntry_def Let_def split: option.splits)

lemma getVerifiedPeerIds_iff:
  "trustOk ls \<Longrightarrow> pid \<in> getVerifiedPeerIds ls \<longleftrightarrow> verifiedEntry ls pid \<noteq> None"
  using jsGet_mem [of "getAllRecords ls" pid]
  by (force simp: getVerifiedPeerIds_def verifiedEntry_def trustOk_def split: option.splits)

section \<open>Properties\<close>

text \<open>
  C7. The safety number is symmetric: both parties compute the same digits, whatever the digest,
  as long as the collation orders the two party strings (swapping flips the sign, and 0 is
  returned only for equal strings). The payload depends on the joined strings alone, so parties
  whose \<open>userId:key\<close> strings coincide are no exception.
\<close>
theorem computeSafetyNumber_symmetric:
  assumes "collates localeCompare (u @ '':'' @ keyString k) (v @ '':'' @ keyString l)"
  shows "computeSafetyNumber localeCompare digest u k (Some v) (Some l)
       = computeSafetyNumber localeCompare digest v l (Some u) (Some k)"
  using sortParties_swap [of localeCompare "\<lparr>userId = u, key = keyString k\<rparr>" "\<lparr>userId = v, key = keyString l\<rparr>"] assms
  by (simp add: computeSafetyNumber_def resolveParties_def partyString_def)

definition codeUnitCompare :: "string \<Rightarrow> string \<Rightarrow> int" where
  "codeUnitCompare s t = (if s = t then 0 else if s < t then -1 else 1)"

theorem computeSafetyNumber_symmetric_witness:
  "computeSafetyNumber codeUnitCompare (map (\<lambda>b. b + 1)) ''alice'' (KeyHex ''0a'') (Some ''bob'') (Some (KeyBytes [11]))
   = computeSafetyNumber codeUnitCompare (map (\<lambda>b. b + 1)) ''bob'' (KeyBytes [11]) (Some ''alice'') (Some (KeyHex ''0a''))"
  by (rule computeSafetyNumber_symmetric) (auto simp: collates_def codeUnitCompare_def)

text \<open>
  C39. Whatever the digest returns (even too few bytes), the number is 12 groups of exactly five
  decimal digits separated by single spaces: 71 characters, 60 digits.
\<close>
theorem computeSafetyNumber_format:
  "length (removeSpaces (computeSafetyNumber cmp digest uA kA uB kB)) = 60
   \<and> set (removeSpaces (computeSafetyNumber cmp digest uA kA uB kB)) \<subseteq> set ''0123456789''
   \<and> map length (splitOn CHR '' '' (computeSafetyNumber cmp digest uA kA uB kB)) = replicate 12 5"
  unfolding computeSafetyNumber_blocks removeSpaces_blocks splitOn_blocks length_concat_blocks
    map_length_safetyBlocks
  using safetyBlocks_ok(2) by auto

lemma iterateDigest_const: "iterateDigest (\<lambda>_. v) n v = v"
  by (induction n) simp_all

text \<open>
  Group \<open>i\<close> of the number is the big-endian 32-bit value of bytes \<open>4i\<close> to \<open>4i + 3\<close> of the
  iterated digest, modulo 100000: the 32-bit shifts and ors neither overflow nor go negative.
\<close>
theorem safety_block_value:
  assumes "i < 12" and "\<And>x. length (digest x) = 64"
  shows "splitOn CHR '' '' (computeSafetyNumber cmp digest uA kA uB kB) ! i =
    (let h = safetyHash cmp digest uA kA uB kB
     in padStart 5 CHR ''0''
          (decimal ((unat (h ! (4 * i)) * 2 ^ 24 + unat (h ! (4 * i + 1)) * 2 ^ 16
             + unat (h ! (4 * i + 2)) * 2 ^ 8 + unat (h ! (4 * i + 3))) mod 100000)))"
proof -
  define h where "h = safetyHash cmp digest uA kA uB kB"
  have len: "length h = 64" by (simp add: h_def safetyHash_def eval_nat_numeral assms(2))
  have byte: "byteAt h (i * 4 + j) = h ! (4 * i + j)" if "j < 4" for j
    using that assms(1) len by (simp add: byteAt_def mult.commute)
  have "safetyBlocks h ! i = padStart 5 CHR ''0'' (decimal (blockVal h i))"
    unfolding safetyBlocks_def using assms(1) by (subst nth_map) (simp_all del: upt_Suc upt_rec_numeral)
  then show ?thesis
    unfolding computeSafetyNumber_blocks splitOn_blocks h_def [symmetric] Let_def blockVal_big_endian
    using byte [of 0] byte [of 1] byte [of 2] byte [of 3] by (simp add: mult.commute)
qed

theorem safety_block_value_witness:
  "splitOn CHR '' '' (computeSafetyNumber codeUnitCompare (\<lambda>_. replicate 64 1) ''a'' (KeyHex ''b'') None None) ! 3
   = ''43009''"
proof -
  have h: "safetyHash codeUnitCompare (\<lambda>_. replicate 64 1) ''a'' (KeyHex ''b'') None None = replicate 64 1"
    unfolding safetyHash_def by (rule iterateDigest_const)
  have "splitOn CHR '' '' (computeSafetyNumber codeUnitCompare (\<lambda>_. replicate 64 1) ''a'' (KeyHex ''b'') None None) ! 3
    = padStart 5 CHR ''0'' (decimal ((1 * 2 ^ 24 + 1 * 2 ^ 16 + 1 * 2 ^ 8 + 1) mod 100000))"
    using safety_block_value [of 3 "\<lambda>_. replicate 64 1" codeUnitCompare "''a''" "KeyHex ''b''" None None]
    unfolding h Let_def by simp
  also have "(1 * 2 ^ 24 + 1 * 2 ^ 16 + 1 * 2 ^ 8 + 1) mod 100000 = (43009 :: nat)" by simp
  also have "padStart 5 CHR ''0'' (decimal 43009) = ''43009''"
    by (simp add: padStart_def digitChar_def char_of_def bit_0 toString.simps [of 10 43009]
        toString.simps [of 10 4300] toString.simps [of 10 430] toString.simps [of 10 43] toString.simps [of 10 4])
  finally show ?thesis .
qed

text \<open>
  Scanning the payload that a client generated is accepted exactly when it is for the same
  unordered pair of contacts and the same digits; another pair is reported as another contact,
  another number as a mismatch. User identifiers are arbitrary: percent encoding brings them
  through the URL query unchanged.
\<close>
theorem qr_payload_roundtrip:
  "parseAndVerifyQrPayload
     (generateQrPayload x y (computeSafetyNumber cmp digest uA kA uB kB)) c d expected =
   (if \<not> ((x = c \<and> y = d) \<or> (x = d \<and> y = c)) then WrongContact
    else if removeSpaces (computeSafetyNumber cmp digest uA kA uB kB) \<noteq> removeSpaces expected
    then NumberMismatch else Valid)"
proof -
  have "set (removeSpaces (computeSafetyNumber cmp digest uA kA uB kB)) \<subseteq> set ''0123456789''"
    unfolding computeSafetyNumber_blocks removeSpaces_blocks using safetyBlocks_ok(2) by auto
  from parse_generate [OF this] show ?thesis by (simp add: sortPair_eq)
qed

text \<open>
  C8. The trust store refines a map from contacts to verified numbers: after any history of
  verifications and revocations, a contact shows as verified exactly when the last operation on
  it verified the number shown now; a number verified earlier that differs from the current one
  raises the key-change flag and is reported as the previous number; and the set of verified
  contacts is the domain of that map.
\<close>
theorem trust_history:
  assumes "trustOk ls"
    and "after = fold (kv_apply setVerifiedAt revokeVerification) ops ls"
    and "entry = kv_after ops pid (verifiedEntry ls pid)"
  shows "(isVerified (getTrustRecord after pid n) \<longleftrightarrow> map_option snd entry = Some n)
    \<and> (hasChanged (getTrustRecord after pid n) \<longleftrightarrow> entry \<noteq> None \<and> map_option snd entry \<noteq> Some n)
    \<and> (hasChanged (getTrustRecord after pid n) \<longrightarrow>
         previousSafetyNumber (getTrustRecord after pid n) = map_option snd entry)
    \<and> (pid \<in> getVerifiedPeerIds after \<longleftrightarrow> entry \<noteq> None)"
proof -
  have e: "verifiedEntry after pid = entry" unfolding assms(2,3) by (rule trust.lookup_history [OF assms(1)])
  have "trustOk after" unfolding assms(2) by (rule trust.invar_history [OF assms(1)])
  then show ?thesis
    by (auto simp: getTrustRecord_verified getTrustRecord_changed getVerifiedPeerIds_iff e split: option.splits)
qed

theorem trust_history_witness:
  "hasChanged (getTrustRecord
     (fold (kv_apply setVerifiedAt revokeVerification) [Put ''bob'' (5, ''111''), Put ''eve'' (6, ''9''), Del ''eve'']
        \<lparr>item = None, readable = True, writable = True\<rparr>) ''bob'' ''222'')"
  using trust_history [of "\<lparr>item = None, readable = True, writable = True\<rparr>" _
      "[Put ''bob'' (5, ''111''), Put ''eve'' (6, ''9''), Del ''eve'']" _ "''bob''" "''222''", OF _ refl refl]
  by (simp add: trustOk_def getAllRecords_def slotRead_def)

end
