(* ===== verification/Reed_Solomon.thy ===== *)
theory Reed_Solomon
  imports Js_Prelude
begin

text \<open>
  \<open>QrCodeSvgGenerator.computeReedSolomon\<close> of \<open>packages/client-web/src/lib/safety-numbers.ts\<close>.
  The exponential and logarithm tables are filled by the loop of the source; the theory shows
  that the table product is the product of the field of 256 elements, and that every data block
  with its error-correction bytes appended is a code word: it vanishes at the roots of the
  generator. The numbers of the source stay below 256 and are natural numbers here.
\<close>

unbundle bit_operations_syntax

section \<open>Reed-Solomon error correction\<close>

record gfTables =
  expT :: "nat list"
  logT :: "nat list"

definition gfStep :: "nat \<Rightarrow> nat" where
  "gfStep x = push_bit 1 x XOR (if x \<ge> 128 then 0x11d else 0)"

fun gfFill :: "nat list \<Rightarrow> nat \<Rightarrow> gfTables \<Rightarrow> gfTables" where
  "gfFill [] x t = t"
| "gfFill (i # is) x t =
     gfFill is (gfStep x)
       (t\<lparr>expT := (expT t)[i := x, i + 255 := x], logT := (logT t)[x := i]\<rparr>)"

definition gfTablesInit :: gfTables where
  "gfTablesInit = gfFill [0..<255] 1 \<lparr>expT = replicate 512 0, logT = replicate 256 0\<rparr>"

definition gfMul :: "gfTables \<Rightarrow> nat \<Rightarrow> nat \<Rightarrow> nat" where
  "gfMul t a b = (if a = 0 \<or> b = 0 then 0 else expT t ! (logT t ! a + logT t ! b))"

fun genLoop :: "gfTables \<Rightarrow> nat \<Rightarrow> nat list \<Rightarrow> nat list \<Rightarrow> nat list \<Rightarrow> nat list" where
  "genLoop t i gen [] nextGen = nextGen"
| "genLoop t i gen (j # js) nextGen =
     (let n1 = nextGen[j := nextGen ! j XOR gfMul t (gen ! j) (expT t ! i)];
          n2 = n1[j + 1 := n1 ! (j + 1) XOR gen ! j]
      in genLoop t i gen js n2)"

definition genStep :: "gfTables \<Rightarrow> nat \<Rightarrow> nat list \<Rightarrow> nat list" where
  "genStep t i gen = genLoop t i gen [0..<length gen] (replicate (length gen + 1) 0)"

definition rsGenerator :: "gfTables \<Rightarrow> nat \<Rightarrow> nat list" where
  "rsGenerator t ecCount = fold (genStep t) [0..<ecCount] [1]"

fun resLoop :: "gfTables \<Rightarrow> nat list \<Rightarrow> nat \<Rightarrow> nat \<Rightarrow> nat list \<Rightarrow> nat list \<Rightarrow> nat list" where
  "resLoop t gen ecCount factor [] res = res"
| "resLoop t gen ecCount factor (j # js) res =
     resLoop t gen ecCount factor js
       (res[j := res ! (j + 1) XOR gfMul t (gen ! (ecCount - 1 - j)) factor])"

definition rsStep :: "gfTables \<Rightarrow> nat list \<Rightarrow> nat \<Rightarrow> nat \<Rightarrow> nat list \<Rightarrow> nat list" where
  "rsStep t gen ecCount d res =
     (let factor = d XOR res ! 0;
          res' = resLoop t gen ecCount factor [0..<ecCount - 1] res
      in res'[ecCount - 1 := gfMul t (gen ! 0) factor])"

definition computeReedSolomon :: "nat list \<Rightarrow> nat \<Rightarrow> nat list" where
  "computeReedSolomon data ecCount =
     (let t = gfTablesInit;
          gen = rsGenerator t ecCount
      in fold (rsStep t gen ecCount) data (replicate ecCount 0))"

section \<open>The field of 256 elements\<close>

lemma nat_xor_less: "a < 2 ^ n \<Longrightarrow> b < 2 ^ n \<Longrightarrow> a XOR b < (2 ^ n :: nat)"
  by (metis take_bit_nat_eq_self_iff take_bit_xor)

lemma byte_xor_less: "a < 256 \<Longrightarrow> b < 256 \<Longrightarrow> a XOR b < (256 :: nat)"
  using nat_xor_less [of a 8 b] by simp

lemma top_bit_iff: "(a :: nat) < 2 ^ Suc n \<Longrightarrow> bit a n \<longleftrightarrow> 2 ^ n \<le> a"
proof -
  assume "a < 2 ^ Suc n"
  then have "a div 2 ^ n < 2" by (simp add: less_mult_imp_div_less)
  then have "a div 2 ^ n = 0 \<or> a div 2 ^ n = 1" by auto
  then show ?thesis using div_greater_zero_iff [of a "2 ^ n"] by (auto simp: bit_iff_odd)
qed

lemma bit_7_iff: "a < 256 \<Longrightarrow> bit a 7 \<longleftrightarrow> 128 \<le> (a :: nat)"
  using top_bit_iff [of a 7] by simp

lemma gfStep_xor:
  assumes "a < 256" "b < 256"
  shows "gfStep (a XOR b) = gfStep a XOR gfStep b"
proof -
  have "128 \<le> a XOR b \<longleftrightarrow> (128 \<le> a) \<noteq> (128 \<le> b)"
    using bit_7_iff [OF byte_xor_less [OF assms]] bit_7_iff [OF assms(1)] bit_7_iff [OF assms(2)]
    by (auto simp: bit_xor_iff)
  then show ?thesis
    by (auto simp: gfStep_def push_bit_xor ac_simps)
qed

lemma gfStep_less: "x < 256 \<Longrightarrow> gfStep x < 256"
proof (cases "x < 128")
  case True
  then show ?thesis by (simp add: gfStep_def push_bit_eq_mult)
next
  case False
  assume x: "x < 256"
  have less: "gfStep x < 512"
    using nat_xor_less [of "push_bit 1 x" 9 285] x False by (simp add: gfStep_def push_bit_eq_mult)
  have "bit x 7" using x False bit_7_iff by simp
  moreover have "bit (push_bit 1 x) 8 = bit x 7" by (simp only: bit_push_bit_iff_nat) simp
  ultimately have "\<not> bit (gfStep x) 8"
    using False by (simp add: gfStep_def bit_xor_iff bit_0)
  with less show ?thesis using top_bit_iff [of "gfStep x" 8] by simp
qed

lemma gfStep_eq_0: "gfStep x = 0 \<longleftrightarrow> x = 0"
proof
  assume z: "gfStep x = 0"
  show "x = 0"
  proof (cases "x < 128")
    case True
    with z show ?thesis by (simp add: gfStep_def push_bit_eq_mult)
  next
    case False
    have "bit (push_bit 1 x) 0 = False" by (simp only: bit_push_bit_iff_nat) simp
    with False have "bit (gfStep x) 0" unfolding gfStep_def bit_xor_iff by (simp add: bit_0)
    with z show ?thesis by simp
  qed
qed (simp add: gfStep_def)

abbreviation gfPow :: "nat \<Rightarrow> nat" where
  "gfPow k \<equiv> (gfStep ^^ k) 1"

lemma gfSteps_less: "x < 256 \<Longrightarrow> (gfStep ^^ k) x < 256"
  by (induction k) (simp_all add: gfStep_less)

lemma gfSteps_eq_0: "(gfStep ^^ k) x = 0 \<longleftrightarrow> x = 0"
  by (induction k) (simp_all add: gfStep_eq_0)

lemma gfSteps_0 [simp]: "(gfStep ^^ k) 0 = 0"
  using gfSteps_eq_0 [of k 0] by simp

lemma gfSteps_xor:
  "a < 256 \<Longrightarrow> b < 256 \<Longrightarrow> (gfStep ^^ k) (a XOR b) = (gfStep ^^ k) a XOR (gfStep ^^ k) b"
  by (induction k) (simp_all add: gfStep_xor gfSteps_less)

lemma xor_eq_0_nat: "a XOR b = 0 \<longleftrightarrow> a = (b :: nat)"
  by (auto simp: bit_eq_iff bit_xor_iff)

lemma gfSteps_inj: "a < 256 \<Longrightarrow> b < 256 \<Longrightarrow> (gfStep ^^ k) a = (gfStep ^^ k) b \<longleftrightarrow> a = b"
  by (metis gfSteps_xor gfSteps_eq_0 xor_eq_0_nat)

fun gfOrbit :: "nat \<Rightarrow> nat \<Rightarrow> nat list" where
  "gfOrbit 0 x = []"
| "gfOrbit (Suc n) x = x # gfOrbit n (gfStep x)"

lemma gfOrbit_numeral: "gfOrbit (numeral k) x = x # gfOrbit (pred_numeral k) (gfStep x)"
  by (simp add: numeral_eq_Suc)

lemma gfOrbit_eq: "gfOrbit n x = map (\<lambda>k. (gfStep ^^ k) x) [0..<n]"
  by (induction n arbitrary: x) (simp_all add: upt_conv_Cons map_Suc_upt [symmetric] funpow_swap1 del: upt_Suc)

lemma gf_orbit: "list_all (\<lambda>x. x \<noteq> 1) (tl (gfOrbit 255 1)) \<and> gfStep (last (gfOrbit 255 1)) = 1"
  by (simp add: gfOrbit_numeral gfStep_def)

lemma gf_order: "gfPow 255 = 1" "0 < k \<Longrightarrow> k < 255 \<Longrightarrow> gfPow k \<noteq> 1"
proof -
  have l: "gfOrbit 255 1 = map gfPow [0..<254] @ [gfPow 254]"
    using upt_Suc_append [of 0 254] by (simp add: gfOrbit_eq)
  then have "last (gfOrbit 255 1) = gfPow 254" by simp
  moreover have "gfPow (Suc 254) = gfStep (gfPow 254)" by (simp only: funpow.simps comp_apply)
  moreover have "Suc 254 = 255" by simp
  ultimately show "gfPow 255 = 1" using gf_orbit by metis
  assume k: "0 < k" "k < 255"
  have "gfPow k \<in> set (tl (map gfPow [0..<255]))"
    using k by (simp add: map_tl [symmetric] tl_upt del: upt_rec_numeral)
  then show "gfPow k \<noteq> 1"
    using gf_orbit by (auto simp: gfOrbit_eq list_all_iff)
qed

lemma gfPow_inj: "i < 255 \<Longrightarrow> j < 255 \<Longrightarrow> gfPow i = gfPow j \<longleftrightarrow> i = j"
proof (induction i j rule: linorder_wlog)
  case (le i j)
  have "gfPow j = (gfStep ^^ i) (gfPow (j - i))" using le(1) by (simp flip: funpow_add [THEN fun_cong, unfolded comp_def])
  then have "gfPow i = gfPow j \<longleftrightarrow> 1 = gfPow (j - i)"
    by (simp add: gfSteps_inj gfSteps_less)
  moreover have "gfPow (j - i) \<noteq> 1" if "i \<noteq> j" using that le by (intro gf_order(2)) auto
  ultimately show ?case by metis
next
  case (sym i j)
  then show ?case by metis
qed

lemma gfPow_image: "gfPow ` {..<255} = {0<..<256}"
proof (rule card_subset_eq)
  show "gfPow ` {..<255} \<subseteq> {0<..<256}"
    by (auto simp: gfSteps_less gfSteps_eq_0 neq0_conv [symmetric] simp del: neq0_conv)
  have "inj_on gfPow {..<255}" by (rule inj_onI) (simp only: gfPow_inj lessThan_iff)
  then show "card (gfPow ` {..<255}) = card {0<..<256 :: nat}" by (simp add: card_image)
qed simp

lemma gfPow_cases: assumes "x < 256" obtains "x = 0" | k where "k < 255" "x = gfPow k"
proof -
  have "x = 0 \<or> x \<in> gfPow ` {..<255}" using assms unfolding gfPow_image by auto
  then show thesis using that by auto
qed

section \<open>The tables\<close>


lemma length_gfFill [simp]:
  "length (expT (gfFill is x t)) = length (expT t)" "length (logT (gfFill is x t)) = length (logT t)"
  by (induction "is" arbitrary: x t) simp_all

lemma gfFill_snoc:
  "gfFill (is @ [i]) x t =
     (let u = gfFill is x t; y = (gfStep ^^ length is) x
      in u\<lparr>expT := (expT u)[i := y, i + 255 := y], logT := (logT u)[y := i]\<rparr>)"
  by (induction "is" arbitrary: x t) (simp_all add: Let_def funpow_swap1)

lemma gfFill_upt:
  assumes "n \<le> 255"
  defines "u \<equiv> gfFill [0..<n] 1 \<lparr>expT = replicate 512 0, logT = replicate 256 0\<rparr>"
  shows "i < n \<Longrightarrow> expT u ! i = gfPow i \<and> expT u ! (i + 255) = gfPow i \<and> logT u ! gfPow i = i"
  using assms(1) unfolding u_def
proof (induction n arbitrary: i)
  case (Suc n)
  show ?case
  proof (cases "i = n")
    case True
    then show ?thesis
      using Suc.prems by (simp add: gfFill_snoc Let_def gfSteps_less)
  next
    case False
    then have "gfPow n \<noteq> gfPow i" using Suc.prems by (subst gfPow_inj) auto
    then show ?thesis
      using Suc False by (simp add: gfFill_snoc Let_def)
  qed
qed simp

lemma gfTablesInit_exp: "i < 510 \<Longrightarrow> expT gfTablesInit ! i = gfPow (i mod 255)"
  using gfFill_upt [of 255 "i mod 255"] mod_less_divisor [of 255 i]
  unfolding gfTablesInit_def [symmetric] by (cases "i < 255") (auto simp: mod_if)

lemma gfTablesInit_log: "k < 255 \<Longrightarrow> logT gfTablesInit ! gfPow k = k"
  using gfFill_upt [of 255 k] unfolding gfTablesInit_def [symmetric] by simp

abbreviation gfm :: "nat \<Rightarrow> nat \<Rightarrow> nat" where
  "gfm \<equiv> gfMul gfTablesInit"

lemma gfPow_mod: "gfPow (i mod 255) = gfPow i"
proof -
  have "(gfStep ^^ (255 * q)) 1 = 1" for q
    by (induction q) (simp_all add: funpow_add gf_order(1) [simplified] add.commute)
  then have "(gfStep ^^ (i mod 255 + 255 * (i div 255))) 1 = (gfStep ^^ (i mod 255)) 1"
    by (simp only: funpow_add comp_apply)
  then show ?thesis by simp
qed

lemma gfm_pow: "i < 255 \<Longrightarrow> j < 255 \<Longrightarrow> gfm (gfPow i) (gfPow j) = gfPow (i + j)"
  using gfSteps_eq_0 [of i 1] gfSteps_eq_0 [of j 1]
  by (simp add: gfMul_def gfTablesInit_log [simplified] gfTablesInit_exp gfPow_mod [simplified])

text \<open>Multiplying by a power of the generator is iterating the doubling step.\<close>

lemma gfm_steps: "a < 256 \<Longrightarrow> j < 255 \<Longrightarrow> gfm a (gfPow j) = (gfStep ^^ j) a"
proof (erule gfPow_cases)
  assume "a = 0"
  then show ?thesis using gfSteps_eq_0 [of j 0] by (simp add: gfMul_def)
next
  fix k assume k: "j < 255" "k < 255" "a = gfPow k"
  then have "gfm a (gfPow j) = gfPow (j + k)" using gfm_pow [of k j] by (simp add: add.commute)
  then show ?thesis using k(3) by (simp add: funpow_add)
qed

lemma gfm_less [simp]: assumes "a < 256" "b < 256" shows "gfm a b < 256"
  using assms(2)
proof (cases rule: gfPow_cases)
  case 1
  then show ?thesis by (simp add: gfMul_def)
next
  case (2 k)
  then show ?thesis using gfm_steps [OF assms(1) 2(1)] gfSteps_less [OF assms(1)] by simp
qed

lemma gfm_commute: "gfm a b = gfm b a"
  by (simp add: gfMul_def add.commute)

lemma gfm_1: "a < 256 \<Longrightarrow> gfm 1 a = a"
  using gfm_steps [of a 0] by (simp add: gfm_commute)

lemma gfm_xor:
  assumes "a < 256" "b < 256" "c < 256"
  shows "gfm (a XOR b) c = gfm a c XOR gfm b c"
  using assms(3)
proof (cases rule: gfPow_cases)
  case 1
  then show ?thesis by (simp add: gfMul_def)
next
  case (2 k)
  then show ?thesis
    using assms by (simp only: gfm_steps byte_xor_less gfSteps_xor)
qed

lemma gfm_assoc:
  assumes "a < 256" "b < 256" "c < 256"
  shows "gfm (gfm a b) c = gfm a (gfm b c)"
  using assms(3)
proof (cases rule: gfPow_cases)
  case 1
  then show ?thesis by (simp add: gfMul_def)
next
  case c: (2 k)
  show ?thesis
    using assms(2)
  proof (cases rule: gfPow_cases)
    case 1
    then show ?thesis by (simp add: gfMul_def)
  next
    case b: (2 j)
    have "gfm b c = gfPow ((j + k) mod 255)"
      using b c by (simp only: gfm_pow gfPow_mod)
    then have "gfm a (gfm b c) = (gfStep ^^ ((j + k) mod 255)) a"
      using gfm_steps [OF assms(1), of "(j + k) mod 255"] by simp
    moreover have "gfm (gfm a b) c = (gfStep ^^ k) ((gfStep ^^ j) a)"
      using assms b c by (simp only: gfm_steps gfSteps_less)
    moreover have "(gfStep ^^ ((j + k) mod 255)) a = (gfStep ^^ k) ((gfStep ^^ j) a)"
      using assms(1)
    proof (cases rule: gfPow_cases)
      case 1
      then show ?thesis by (simp add: gfSteps_eq_0)
    next
      case (2 i)
      have "gfPow ((j + k) mod 255 + i) = gfPow ((k + (j + i)) mod 255)"
        by (subst gfPow_mod [symmetric]) (simp only: mod_add_right_eq ac_simps)
      then show ?thesis using 2 gfPow_mod by (simp only: funpow_add comp_apply)
    qed
    ultimately show ?thesis by simp
  qed
qed

typedef gf = "{..<256 :: nat}" by (rule exI [of _ 0]) simp

setup_lifting type_definition_gf

instantiation gf :: comm_ring_1
begin

lift_definition zero_gf :: gf is 0 by simp
lift_definition one_gf :: gf is 1 by simp
lift_definition plus_gf :: "gf \<Rightarrow> gf \<Rightarrow> gf" is "\<lambda>a b. a XOR b" by (simp add: byte_xor_less)
lift_definition times_gf :: "gf \<Rightarrow> gf \<Rightarrow> gf" is gfm by simp
lift_definition uminus_gf :: "gf \<Rightarrow> gf" is "\<lambda>a. a" .
lift_definition minus_gf :: "gf \<Rightarrow> gf \<Rightarrow> gf" is "\<lambda>a b. a XOR b" by (simp add: byte_xor_less)

instance
proof
  fix a b c :: gf
  show "a * b * c = a * (b * c)" by transfer (simp add: gfm_assoc)
  show "a * b = b * a" by transfer (rule gfm_commute)
  show "1 * a = a" by transfer (simp add: gfm_1 [simplified])
  show "(a + b) * c = a * c + b * c" by transfer (simp add: gfm_xor)
  show "a + b + c = a + (b + c)" by transfer (rule xor.assoc)
  show "a + b = b + a" by transfer (rule xor.commute)
  show "0 + a = a" "- a + a = 0" "a - b = a + - b" by (transfer; simp)+
  show "(0 :: gf) \<noteq> 1" by transfer simp
qed

end

lemma gf_double [simp]: "x + x = (0 :: gf)"
  by transfer simp

lemma gf_double_left [simp]: "x + (x + y) = (y :: gf)"
  by (simp flip: add.assoc)

text \<open>The bytes of the program as field elements.\<close>

definition gfOf :: "nat \<Rightarrow> gf" where
  "gfOf n = Abs_gf (n mod 256)"

lemma gfOf_0 [simp]: "gfOf 0 = 0" and gfOf_1 [simp]: "gfOf (Suc 0) = 1"
  by (simp_all add: gfOf_def zero_gf_def one_gf_def)

lemma Rep_gfOf: "a < 256 \<Longrightarrow> Rep_gf (gfOf a) = a"
  by (simp add: gfOf_def Abs_gf_inverse)

lemma gfOf_xor: "a < 256 \<Longrightarrow> b < 256 \<Longrightarrow> gfOf (a XOR b) = gfOf a + gfOf b"
  by (simp add: Rep_gf_inject [symmetric] plus_gf.rep_eq Rep_gfOf byte_xor_less)

lemma gfOf_mul: "a < 256 \<Longrightarrow> b < 256 \<Longrightarrow> gfOf (gfm a b) = gfOf a * gfOf b"
  by (simp add: Rep_gf_inject [symmetric] times_gf.rep_eq Rep_gfOf)

lemma gfOf_eq_0: "a < 256 \<Longrightarrow> gfOf a = 0 \<longleftrightarrow> a = 0"
  by (simp add: Rep_gf_inject [symmetric] zero_gf.rep_eq Rep_gfOf)

section \<open>Polynomials\<close>

text \<open>A list of coefficients with the lowest first, and one with the highest first.\<close>

definition evalLow :: "nat list \<Rightarrow> gf \<Rightarrow> gf" where
  "evalLow p a = (\<Sum>j<length p. gfOf (p ! j) * a ^ j)"

definition evalHigh :: "nat list \<Rightarrow> gf \<Rightarrow> gf" where
  "evalHigh p a = foldl (\<lambda>s c. s * a + gfOf c) 0 p"

lemma evalHigh_snoc: "evalHigh (p @ [c]) a = evalHigh p a * a + gfOf c"
  by (simp add: evalHigh_def)

lemma evalHigh_sum: "evalHigh p a = (\<Sum>j<length p. gfOf (p ! j) * a ^ (length p - Suc j))"
proof (induction p rule: rev_induct)
  case (snoc c p)
  have "(\<Sum>j<length p. gfOf (p ! j) * a ^ (length p - j))
      = (\<Sum>j<length p. gfOf (p ! j) * a ^ (length p - Suc j)) * a"
    unfolding sum_distrib_right
    by (intro sum.cong refl) (simp add: Suc_diff_Suc mult.assoc flip: power_Suc2)
  then show ?case using snoc by (simp add: evalHigh_snoc nth_append)
qed (simp add: evalHigh_def)

lemma evalHigh_append: "evalHigh (p @ q) a = evalHigh p a * a ^ length q + evalHigh q a"
proof (induction q rule: rev_induct)
  case (snoc c q)
  then show ?case
    by (simp add: evalHigh_snoc algebra_simps flip: append_assoc)
qed (simp add: evalHigh_def)

section \<open>The generator polynomial\<close>

abbreviation bytesOk :: "nat list \<Rightarrow> bool" where
  "bytesOk xs \<equiv> \<forall>x \<in> set xs. x < 256"

lemma genLoop_snoc:
  "genLoop t i gen (js @ [j]) nxt =
     (let n0 = genLoop t i gen js nxt;
          n1 = n0[j := n0 ! j XOR gfMul t (gen ! j) (expT t ! i)]
      in n1[j + 1 := n1 ! (j + 1) XOR gen ! j])"
  by (induction js arbitrary: nxt) (simp_all add: Let_def)

lemma length_genLoop [simp]: "length (genLoop t i gen js nxt) = length nxt"
  by (induction js arbitrary: nxt) (simp_all add: Let_def)

lemma genLoop_nth:
  assumes "n \<le> length gen" "j \<le> length gen"
  shows "genLoop t i gen [0..<n] (replicate (length gen + 1) 0) ! j =
    (if j < n then gfMul t (gen ! j) (expT t ! i) else 0) XOR (if 0 < j \<and> j \<le> n then gen ! (j - 1) else 0)"
  using assms
proof (induction n arbitrary: j)
  case 0
  then show ?case by (simp del: replicate_Suc)
next
  case (Suc n)
  then show ?case
    by (auto simp: genLoop_snoc Let_def nth_list_update xor.commute simp del: replicate_Suc)
qed

lemma genStep_nth:
  assumes "j \<le> length gen"
  shows "genStep t i gen ! j =
    (if j < length gen then gfMul t (gen ! j) (expT t ! i) else 0) XOR (if 0 < j then gen ! (j - 1) else 0)"
  using genLoop_nth [of "length gen" gen j t i] assms by (simp add: genStep_def)

lemma length_genStep [simp]: "length (genStep t i gen) = Suc (length gen)"
  by (simp add: genStep_def)

lemma genStep_ok:
  assumes "bytesOk gen" "i < 255"
  shows "bytesOk (genStep gfTablesInit i gen)"
    and "evalLow (genStep gfTablesInit i gen) a = evalLow gen a * (a + gfOf (gfPow i))"
proof -
  let ?n = "length gen" and ?e = "gfPow i"
  have e: "expT gfTablesInit ! i = ?e" using assms(2) gfTablesInit_exp [of i] by simp
  have lt: "j < ?n \<Longrightarrow> gen ! j < 256" for j using assms(1) by simp
  have elt: "?e < 256" by (simp add: gfSteps_less)
  have nth: "genStep gfTablesInit i gen ! j =
    (if j < ?n then gfm (gen ! j) ?e else 0) XOR (if 0 < j then gen ! (j - 1) else 0)" if "j \<le> ?n" for j
    using genStep_nth [OF that, of gfTablesInit i] unfolding e .
  show "bytesOk (genStep gfTablesInit i gen)"
  proof
    fix x assume "x \<in> set (genStep gfTablesInit i gen)"
    then obtain j where "j \<le> ?n" "x = genStep gfTablesInit i gen ! j"
      by (auto simp: in_set_conv_nth less_Suc_eq_le)
    then show "x < 256" using nth lt elt by (auto intro!: byte_xor_less)
  qed
  have "gfOf (genStep gfTablesInit i gen ! j) =
      (if j < ?n then gfOf (gen ! j) * gfOf ?e else 0) + (if 0 < j then gfOf (gen ! (j - 1)) else 0)"
    if "j \<le> ?n" for j
    using that lt elt nth [OF that] by (auto simp: gfOf_xor gfOf_mul)
  then have "evalLow (genStep gfTablesInit i gen) a =
      (\<Sum>j<Suc ?n. ((if j < ?n then gfOf (gen ! j) * gfOf ?e else 0)
        + (if 0 < j then gfOf (gen ! (j - 1)) else 0)) * a ^ j)"
    unfolding evalLow_def by (intro sum.cong) auto
  also have "\<dots> = (\<Sum>j<Suc ?n. (if j < ?n then gfOf (gen ! j) * gfOf ?e else 0) * a ^ j)
      + (\<Sum>j<Suc ?n. (if 0 < j then gfOf (gen ! (j - 1)) else 0) * a ^ j)"
    by (simp only: distrib_right sum.distrib)
  also have "(\<Sum>j<Suc ?n. (if j < ?n then gfOf (gen ! j) * gfOf ?e else 0) * a ^ j) = evalLow gen a * gfOf ?e"
    by (simp add: evalLow_def sum_distrib_left sum_distrib_right ac_simps)
  also have "(\<Sum>j<Suc ?n. (if 0 < j then gfOf (gen ! (j - 1)) else 0) * a ^ j) = evalLow gen a * a"
    by (subst sum.lessThan_Suc_shift) (simp add: evalLow_def sum_distrib_left sum_distrib_right ac_simps)
  finally show "evalLow (genStep gfTablesInit i gen) a = evalLow gen a * (a + gfOf ?e)"
    by (simp add: algebra_simps)
qed

lemma rsGenerator_Suc: "rsGenerator t (Suc n) = genStep t n (rsGenerator t n)"
  by (simp add: rsGenerator_def)

lemma rsGenerator_ok:
  assumes "n \<le> 255"
  shows "bytesOk (rsGenerator gfTablesInit n) \<and> length (rsGenerator gfTablesInit n) = Suc n
    \<and> rsGenerator gfTablesInit n ! n = 1
    \<and> (\<forall>i<n. evalLow (rsGenerator gfTablesInit n) (gfOf (gfPow i)) = 0)"
  using assms
proof (induction n)
  case 0
  then show ?case by (simp add: rsGenerator_def)
next
  case (Suc n)
  let ?g = "rsGenerator gfTablesInit n"
  have ih: "bytesOk ?g" "length ?g = Suc n" "?g ! n = 1"
    "\<forall>i<n. evalLow ?g (gfOf (gfPow i)) = 0" and n: "n < 255"
    using Suc by simp_all
  have "genStep gfTablesInit n ?g ! Suc n = 1"
    using genStep_nth [of "Suc n" ?g] ih by simp
  then show ?case
    using genStep_ok [OF ih(1) n] ih by (auto simp: rsGenerator_Suc less_Suc_eq)
qed

section \<open>The remainder\<close>

lemma resLoop_snoc:
  "resLoop t gen ec f (js @ [j]) res =
     (let r = resLoop t gen ec f js res
      in r[j := r ! (j + 1) XOR gfMul t (gen ! (ec - 1 - j)) f])"
  by (induction js arbitrary: res) (simp_all add: Let_def)

lemma length_resLoop [simp]: "length (resLoop t gen ec f js res) = length res"
  by (induction js arbitrary: res) simp_all

lemma resLoop_nth:
  "n < length res \<Longrightarrow> j < length res \<Longrightarrow>
   resLoop t gen ec f [0..<n] res ! j =
     (if j < n then res ! (j + 1) XOR gfMul t (gen ! (ec - 1 - j)) f else res ! j)"
  by (induction n arbitrary: j) (auto simp: resLoop_snoc Let_def nth_list_update)

lemma length_rsStep [simp]: "length (rsStep t gen ec d res) = length res"
  by (simp add: rsStep_def Let_def)

lemma rsStep_nth:
  assumes "length res = ec" "j < ec"
  shows "rsStep t gen ec d res ! j =
    (if Suc j < ec then res ! Suc j else 0) XOR gfMul t (gen ! (ec - Suc j)) (d XOR res ! 0)"
proof (cases "Suc j < ec")
  case True
  then have "j < ec - 1" by simp
  then show ?thesis
    using True assms by (simp add: rsStep_def Let_def resLoop_nth)
next
  case False
  then have "j = ec - 1" using assms by simp
  then show ?thesis using assms by (simp add: rsStep_def Let_def)
qed

lemma rsStep_ok:
  assumes gen: "bytesOk gen" "length gen = Suc ec" "gen ! ec = 1"
    and res: "bytesOk res" "length res = ec" "0 < ec" and d: "d < 256"
  shows "bytesOk (rsStep gfTablesInit gen ec d res)"
    and "evalLow gen a = 0 \<Longrightarrow> evalHigh (rsStep gfTablesInit gen ec d res) a = evalHigh res a * a + gfOf d * a ^ ec"
proof -
  let ?f = "d XOR res ! 0"
  have f: "?f < 256" "res ! 0 < 256" using res d by (simp_all add: byte_xor_less)
  have r: "j < ec \<Longrightarrow> res ! j < 256" for j using res by simp
  have g: "j \<le> ec \<Longrightarrow> gen ! j < 256" for j using gen by simp
  note nth = rsStep_nth [OF res(2), of _ gfTablesInit gen d]
  have "rsStep gfTablesInit gen ec d res ! j < 256" if "j < ec" for j
    using that f r g by (auto simp: nth intro!: byte_xor_less)
  then show "bytesOk (rsStep gfTablesInit gen ec d res)"
    using res(2) by (auto simp: in_set_conv_nth)
  assume root: "evalLow gen a = 0"
  have "gfOf (rsStep gfTablesInit gen ec d res ! j) =
      (if Suc j < ec then gfOf (res ! Suc j) else 0) + gfOf (gen ! (ec - Suc j)) * gfOf ?f"
    if "j < ec" for j
    using that f r g by (simp add: nth gfOf_xor gfOf_mul)
  then have "evalHigh (rsStep gfTablesInit gen ec d res) a =
      (\<Sum>j<ec. ((if Suc j < ec then gfOf (res ! Suc j) else 0) + gfOf (gen ! (ec - Suc j)) * gfOf ?f) * a ^ (ec - Suc j))"
    unfolding evalHigh_sum using res(2) by (intro sum.cong) auto
  also have "\<dots> = (\<Sum>j<ec. (if Suc j < ec then gfOf (res ! Suc j) else 0) * a ^ (ec - Suc j))
      + (\<Sum>j<ec. gfOf (gen ! (ec - Suc j)) * a ^ (ec - Suc j)) * gfOf ?f"
    unfolding distrib_right sum.distrib sum_distrib_right by (simp add: ac_simps)
  also have "(\<Sum>j<ec. gfOf (gen ! (ec - Suc j)) * a ^ (ec - Suc j)) = (\<Sum>j<ec. gfOf (gen ! j) * a ^ j)"
    by (rule sum.nat_diff_reindex)
  also have "\<dots> = a ^ ec"
  proof -
    have "(\<Sum>j<ec. gfOf (gen ! j) * a ^ j) + a ^ ec = 0" using gen root by (simp add: evalLow_def)
    then have "(\<Sum>j<ec. gfOf (gen ! j) * a ^ j) + a ^ ec + a ^ ec = a ^ ec" by simp
    then show ?thesis by (simp only: add.assoc gf_double add_0_right)
  qed
  also have "(\<Sum>j<ec. (if Suc j < ec then gfOf (res ! Suc j) else 0) * a ^ (ec - Suc j))
      = evalHigh res a * a + gfOf (res ! 0) * a ^ ec"
  proof -
    obtain m where m: "ec = Suc m" using res(3) by (cases ec) auto
    have "evalHigh res a = gfOf (res ! 0) * a ^ m + (\<Sum>j<m. gfOf (res ! Suc j) * a ^ (m - Suc j))"
      unfolding evalHigh_sum res(2) m by (subst sum.lessThan_Suc_shift) simp
    moreover have "(\<Sum>j<m. gfOf (res ! Suc j) * a ^ (m - j)) = (\<Sum>j<m. gfOf (res ! Suc j) * a ^ (m - Suc j)) * a"
      unfolding sum_distrib_right
      by (intro sum.cong refl) (simp add: Suc_diff_Suc mult.assoc flip: power_Suc2)
    ultimately show ?thesis by (simp add: m algebra_simps)
  qed
  finally show "evalHigh (rsStep gfTablesInit gen ec d res) a = evalHigh res a * a + gfOf d * a ^ ec"
    using f d by (simp add: gfOf_xor algebra_simps)
qed

lemma rsRemainder:
  assumes gen: "bytesOk gen" "length gen = Suc ec" "gen ! ec = 1" and ec: "0 < ec" and d: "bytesOk data"
  defines "r \<equiv> fold (rsStep gfTablesInit gen ec) data (replicate ec 0)"
  shows "bytesOk r \<and> length r = ec \<and> (evalLow gen a = 0 \<longrightarrow> evalHigh r a = evalHigh data a * a ^ ec)"
  using d unfolding r_def
proof (induction data rule: rev_induct)
  case Nil
  have "evalHigh (replicate n 0) a = 0" for n by (induction n) (simp_all add: evalHigh_def)
  then show ?case by (simp add: evalHigh_def)
next
  case (snoc x xs)
  let ?r = "fold (rsStep gfTablesInit gen ec) xs (replicate ec 0)"
  have ih: "bytesOk ?r" "length ?r = ec" "evalLow gen a = 0 \<Longrightarrow> evalHigh ?r a = evalHigh xs a * a ^ ec"
    and x: "x < 256" using snoc by simp_all
  show ?case
    using rsStep_ok(1) [OF gen ih(1,2) ec x] rsStep_ok(2) [OF gen ih(1,2) ec x, of a] ih
    by (auto simp: evalHigh_snoc algebra_simps)
qed

section \<open>Code words\<close>

text \<open>
  What a reader of the code computes: the word as a polynomial at the \<open>i\<close>-th root, by
  Horner's rule with the program's own product.
\<close>

definition rsSyndrome :: "nat \<Rightarrow> nat list \<Rightarrow> nat" where
  "rsSyndrome i codeword =
     foldl (\<lambda>s c. gfMul gfTablesInit s (expT gfTablesInit ! i) XOR c) 0 codeword"

lemma rsSyndrome_eval:
  assumes "i < 255" "bytesOk cw"
  shows "rsSyndrome i cw < 256 \<and> gfOf (rsSyndrome i cw) = evalHigh cw (gfOf (gfPow i))"
  using assms(2)
proof (induction cw rule: rev_induct)
  case (snoc c cw)
  have e: "expT gfTablesInit ! i = gfPow i" using assms(1) gfTablesInit_exp [of i] by simp
  have "gfPow i < 256" by (simp add: gfSteps_less)
  then show ?case
    using snoc unfolding rsSyndrome_def e
    by (simp add: evalHigh_snoc gfOf_xor gfOf_mul byte_xor_less)
qed (simp add: rsSyndrome_def evalHigh_def)

lemma computeReedSolomon_ok:
  assumes "0 < ecCount" "ecCount \<le> 255" "bytesOk data"
  shows "bytesOk (computeReedSolomon data ecCount)" "length (computeReedSolomon data ecCount) = ecCount"
    "i < ecCount \<Longrightarrow> rsSyndrome i (data @ computeReedSolomon data ecCount) = 0"
proof -
  have gen: "bytesOk (rsGenerator gfTablesInit ecCount)" "length (rsGenerator gfTablesInit ecCount) = Suc ecCount"
    "rsGenerator gfTablesInit ecCount ! ecCount = 1"
    "i < ecCount \<Longrightarrow> evalLow (rsGenerator gfTablesInit ecCount) (gfOf (gfPow i)) = 0" for i
    using rsGenerator_ok [OF assms(2)] by blast+
  note r = rsRemainder [OF gen(1-3) assms(1,3)]
  show 1: "bytesOk (computeReedSolomon data ecCount)" "length (computeReedSolomon data ecCount) = ecCount"
    using r by (simp_all add: computeReedSolomon_def Let_def)
  assume i: "i < ecCount"
  let ?a = "gfOf (gfPow i)" and ?cw = "data @ computeReedSolomon data ecCount"
  have "evalHigh (computeReedSolomon data ecCount) ?a = evalHigh data ?a * ?a ^ ecCount"
    using r gen(4) [OF i] by (simp add: computeReedSolomon_def Let_def)
  then have "evalHigh ?cw ?a = 0" by (simp add: evalHigh_append 1)
  moreover have "bytesOk ?cw" using assms(3) 1(1) by auto
  ultimately show "rsSyndrome i ?cw = 0"
    using rsSyndrome_eval [of i ?cw] i assms(2) gfOf_eq_0 [of "rsSyndrome i ?cw"] by simp
qed

text \<open>
  C13. Every block of data bytes followed by the error-correction bytes the program computes is a
  Reed-Solomon code word: there are exactly \<open>ecCount\<close> of them, all below 256, and each of the
  \<open>ecCount\<close> syndromes a reader computes is zero.
\<close>
theorem reed_solomon_codeword:
  assumes "0 < ecCount" and "ecCount \<le> 255" and "list_all (\<lambda>d. d < 256) data"
  shows "length (computeReedSolomon data ecCount) = ecCount
    \<and> list_all (\<lambda>d. d < 256) (computeReedSolomon data ecCount)
    \<and> list_all (\<lambda>i. rsSyndrome i (data @ computeReedSolomon data ecCount) = 0) [0..<ecCount]"
  using computeReedSolomon_ok [OF assms(1,2), of data] assms(3) by (auto simp: list_all_iff)

theorem reed_solomon_codeword_witness:
  "length (computeReedSolomon [64, 53, 102] 10) = 10
    \<and> rsSyndrome 9 ([64, 53, 102] @ computeReedSolomon [64, 53, 102] 10) = 0"
  using reed_solomon_codeword [of 10 "[64, 53, 102]"] by (auto simp: list_all_iff)

end
