(* ===== verification/Qr_Code.thy ===== *)
theory Qr_Code
  imports Reed_Solomon
begin

text \<open>
  \<open>QrCodeSvgGenerator\<close> of \<open>packages/client-web/src/lib/safety-numbers.ts\<close>: the byte-mode
  bit stream and the module matrix. \<open>generateSvg\<close> only prints the matrix with floating-point
  coordinates and is left out.
\<close>

unbundle bit_operations_syntax

section \<open>The bit stream\<close>

definition pushBits :: "nat \<Rightarrow> nat \<Rightarrow> bool list" where
  "pushBits val len = map (\<lambda>i. drop_bit i val AND 1 = 1) (rev [0..<len])"

definition getTotalDataBytes :: "nat \<Rightarrow> nat" where
  "getTotalDataBytes version =
     (if version = 1 then 19 else if version = 2 then 34 else if version = 3 then 55
      else if version = 4 then 80 else if version = 5 then 108 else if version = 6 then 136
      else 80)"

definition getEcBytesCount :: "nat \<Rightarrow> nat" where
  "getEcBytesCount version =
     (if version = 1 then 7 else if version = 2 then 10 else if version = 3 then 15
      else if version = 4 then 20 else if version = 5 then 26 else if version = 6 then 36
      else 20)"

function padTo8 :: "bool list \<Rightarrow> bool list" where
  "padTo8 bits = (if length bits mod 8 \<noteq> 0 then padTo8 (bits @ [False]) else bits)"
  by pat_completeness auto
termination
proof (relation "measure (\<lambda>bits. (8 - length bits mod 8) mod 8)")
  fix bits :: "bool list"
  assume "length bits mod 8 \<noteq> 0"
  then show "(bits @ [False], bits) \<in> measure (\<lambda>bits. (8 - length bits mod 8) mod 8)"
    using mod_Suc [of "length bits" 8] mod_less_divisor [of 8 "length bits"] by (auto simp: diff_less_mono2)
qed simp

declare padTo8.simps [simp del]

function padBytes :: "nat \<Rightarrow> nat \<Rightarrow> bool list \<Rightarrow> bool list" where
  "padBytes capacityBits padIdx bits =
     (if length bits < capacityBits
      then padBytes capacityBits (padIdx + 1)
             (bits @ pushBits (if padIdx mod 2 = 0 then 0xec else 0x11) 8)
      else bits)"
  by pat_completeness auto
termination
  by (relation "measure (\<lambda>(c, _, bits). c - length bits)") (auto simp: pushBits_def)

declare padBytes.simps [simp del]

text \<open>The inner loop \<open>b = (b << 1) | bit\<close> over eight bits; every stream here is a multiple of 8.\<close>

definition packByte :: "bool list \<Rightarrow> nat" where
  "packByte bs = foldl (\<lambda>b bit. push_bit 1 b OR (if bit then 1 else 0)) 0 bs"

function packBytes :: "bool list \<Rightarrow> nat list" where
  "packBytes bits = (if bits = [] then [] else packByte (take 8 bits) # packBytes (drop 8 bits))"
  by pat_completeness auto
termination by (relation "measure length") auto

declare packBytes.simps [simp del]

definition dataBits :: "bytes \<Rightarrow> nat \<Rightarrow> bool list" where
  "dataBits data version =
     (let bits = pushBits 4 4 @ pushBits (length data) 8 @ concat (map (\<lambda>b. pushBits (unat b) 8) data);
          capacityBits = getTotalDataBytes version * 8;
          terminatorLen = nat (min 4 (int capacityBits - int (length bits)));
          bits1 = padTo8 (bits @ replicate terminatorLen False)
      in padBytes capacityBits 0 bits1)"

definition createDataBitstream :: "bytes \<Rightarrow> nat \<Rightarrow> bool list" where
  "createDataBitstream data version =
     (let bits = dataBits data version;
          ecCodewords = computeReedSolomon (packBytes bits) (getEcBytesCount version)
      in bits @ concat (map (\<lambda>ec. pushBits ec 8) ecCodewords))"

section \<open>The module matrix\<close>

text \<open>
  A cell is \<^const>\<open>None\<close> (\<open>null\<close>) while it is free. All coordinates the program writes are inside the
  square, so the writes never fall out of range.
\<close>

type_synonym matrix = "bool option list list"

definition cell :: "matrix \<Rightarrow> nat \<Rightarrow> nat \<Rightarrow> bool option" where
  "cell m row col = m ! row ! col"

definition setCell :: "nat \<Rightarrow> nat \<Rightarrow> bool \<Rightarrow> matrix \<Rightarrow> matrix" where
  "setCell row col v m = m[row := (m ! row)[col := Some v]]"

definition setIfFree :: "nat \<Rightarrow> nat \<Rightarrow> bool \<Rightarrow> matrix \<Rightarrow> matrix" where
  "setIfFree row col v m = (if cell m row col = None then setCell row col v m else m)"

definition finderColour :: "int \<Rightarrow> int \<Rightarrow> bool" where
  "finderColour r c =
     (if r = -1 \<or> r = 7 \<or> c = -1 \<or> c = 7 then False
      else if r = 0 \<or> r = 6 \<or> c = 0 \<or> c = 6 then True
      else r \<ge> 2 \<and> r \<le> 4 \<and> c \<ge> 2 \<and> c \<le> 4)"

definition addFinderPattern :: "nat \<Rightarrow> nat \<Rightarrow> matrix \<Rightarrow> matrix" where
  "addFinderPattern startRow startCol matrix =
     fold (\<lambda>(r, c) m.
             let row = int startRow + r; col = int startCol + c
             in if row < 0 \<or> row \<ge> int (length m) \<or> col < 0 \<or> col \<ge> int (length m) then m
                else setCell (nat row) (nat col) (finderColour r c) m)
       (List.product [-1..7] [-1..7]) matrix"

definition alignmentColour :: "nat \<Rightarrow> nat \<Rightarrow> bool" where
  "alignmentColour r c \<longleftrightarrow> r = 0 \<or> r = 4 \<or> c = 0 \<or> c = 4 \<or> (r = 2 \<and> c = 2)"

definition addAlignmentPattern :: "nat \<Rightarrow> nat \<Rightarrow> matrix \<Rightarrow> matrix" where
  "addAlignmentPattern startRow startCol matrix =
     fold (\<lambda>(r, c). setCell (startRow + r) (startCol + c) (alignmentColour r c))
       (List.product [0..<5] [0..<5]) matrix"

definition getAlignmentPositions :: "nat \<Rightarrow> nat list" where
  "getAlignmentPositions version =
     (if version = 1 then [] else if version = 2 then [6, 18] else if version = 3 then [6, 22]
      else if version = 4 then [6, 26] else if version = 5 then [6, 30]
      else if version = 6 then [6, 34] else [6, version * 4 + 10])"

definition addAlignmentPatterns :: "nat list \<Rightarrow> matrix \<Rightarrow> matrix" where
  "addAlignmentPatterns alignPos matrix =
     fold (\<lambda>(r, c) m. if cell m r c = None then addAlignmentPattern (r - 2) (c - 2) m else m)
       (List.product alignPos alignPos) matrix"

definition addTimingPatterns :: "nat \<Rightarrow> matrix \<Rightarrow> matrix" where
  "addTimingPatterns dim matrix =
     fold (\<lambda>i m. setIfFree i 6 (i mod 2 = 0) (setIfFree 6 i (i mod 2 = 0) m)) [8..<dim - 8] matrix"

definition reserveFormat :: "nat \<Rightarrow> matrix \<Rightarrow> matrix" where
  "reserveFormat dim matrix =
     fold (\<lambda>i m. setIfFree (dim - 1 - i) 8 False (setIfFree 8 (dim - 1 - i) False m)) [0..<8]
       (fold (\<lambda>i m. setIfFree i 8 False (setIfFree 8 i False m)) [0..<9] matrix)"

definition functionPatterns :: "nat \<Rightarrow> matrix" where
  "functionPatterns version =
     (let dim = version * 4 + 17;
          m0 = replicate dim (replicate dim None);
          m1 = addFinderPattern 0 (dim - 7) (addFinderPattern (dim - 7) 0 (addFinderPattern 0 0 m0));
          m2 = addAlignmentPatterns (getAlignmentPositions version) m1;
          m3 = setCell (dim - 8) 8 True (addTimingPatterns dim m2)
      in reserveFormat dim m3)"

text \<open>The cells in the order of the zig-zag: column pairs from the right, the timing column skipped.\<close>

function zigzag :: "nat \<Rightarrow> nat \<Rightarrow> bool \<Rightarrow> (nat \<times> nat) list" where
  "zigzag dim right upwards =
     (if right > 0
      then let right' = (if right = 6 then right - 1 else right);
               rows = (if upwards then map (\<lambda>i. dim - 1 - i) [0..<dim] else [0..<dim])
           in concat (map (\<lambda>row. [(row, right'), (row, right' - 1)]) rows)
                @ zigzag dim (right' - 2) (\<not> upwards)
      else [])"
  by pat_completeness auto
termination by (relation "measure (\<lambda>(_, right, _). right)") (auto split: if_splits)

declare zigzag.simps [simp del]

definition placeBit :: "nat \<times> nat \<Rightarrow> matrix \<times> bool list \<Rightarrow> matrix \<times> bool list" where
  "placeBit rc s =
     (case rc of (row, col) \<Rightarrow> case s of (m, bits) \<Rightarrow>
        if cell m row col = None
        then let bit = (case bits of [] \<Rightarrow> False | b # _ \<Rightarrow> b);
                 bit' = (if (row + col) mod 2 = 0 then \<not> bit else bit)
             in (setCell row col bit' m, tl bits)
        else s)"

definition formatBits :: "bool list" where
  "formatBits = [True, True, True, False, True, True, True, True, True, False, False, False, True, False, False]"

definition formatCells :: "nat \<Rightarrow> ((nat \<times> nat) \<times> bool) list" where
  "formatCells dim =
     map (\<lambda>i. ((8, i), formatBits ! i)) [0..<6]
     @ [((8, 7), formatBits ! 6), ((8, 8), formatBits ! 7), ((7, 8), formatBits ! 8)]
     @ map (\<lambda>i. ((14 - i, 8), formatBits ! i)) [9..<15]
     @ map (\<lambda>i. ((dim - 1 - i, 8), formatBits ! i)) [0..<7]
     @ map (\<lambda>i. ((8, dim - 15 + i), formatBits ! i)) [7..<15]"

definition writeFormat :: "nat \<Rightarrow> matrix \<Rightarrow> matrix" where
  "writeFormat dim m = fold (\<lambda>((row, col), v). setCell row col v) (formatCells dim) m"

definition selectVersion :: "nat \<Rightarrow> nat" where
  "selectVersion len =
     (if len > 84 then 6 else if len > 60 then 5 else if len > 32 then 4 else 3)"

definition createMatrix :: "string \<Rightarrow> bool list list" where
  "createMatrix text =
     (let data = textEncode text;
          version = selectVersion (length data);
          dim = version * 4 + 17;
          skeleton = functionPatterns version;
          bits = createDataBitstream data version;
          placed = fst (fold placeBit (zigzag dim (dim - 1) True) (skeleton, bits));
          formatted = writeFormat dim placed
      in map (map (\<lambda>c. case c of None \<Rightarrow> False | Some b \<Rightarrow> b)) formatted)"

section \<open>What the bit stream carries\<close>

lemma pushBits_Suc: "pushBits v (Suc n) = odd (drop_bit n v) # pushBits v n"
  by (simp add: pushBits_def and_one_eq odd_iff_mod_2_eq_one)

lemma length_pushBits [simp]: "length (pushBits v n) = n"
  by (simp add: pushBits_def)

lemma shift_or: "push_bit 1 b OR (if x then 1 else 0) = 2 * b + of_bool x" for b :: nat
  by (simp add: push_bit_eq_mult or_Suc_0_eq mult.commute)

lemma packByte_acc:
  "foldl (\<lambda>b bit. 2 * b + of_bool bit) acc (pushBits v n) = acc * 2 ^ n + v mod 2 ^ n"
proof (induction n arbitrary: acc)
  case 0
  then show ?case by (simp add: pushBits_def)
next
  case (Suc n)
  have "v mod 2 ^ Suc n = of_bool (odd (v div 2 ^ n)) * 2 ^ n + v mod 2 ^ n"
    using mod_mult2_eq [of v "2 ^ n" 2] by (simp add: mult.commute odd_iff_mod_2_eq_one mod2_eq_if)
  then show ?case
    unfolding pushBits_Suc foldl.simps Suc drop_bit_eq_div by (simp add: algebra_simps)
qed

lemma packByte_pushBits: "packByte (pushBits v n) = v mod 2 ^ n"
  using packByte_acc [of 0 v n] unfolding packByte_def shift_or by simp

lemma packBytes_append: "length xs = 8 \<Longrightarrow> packBytes (xs @ ys) = packByte xs # packBytes ys"
  by (subst packBytes.simps) auto

lemma packBytes_pushBits: "packBytes (concat (map (\<lambda>v. pushBits v 8) vs)) = map (\<lambda>v. v mod 256) vs"
  by (induction vs) (simp_all add: packBytes.simps [of "[]"] packBytes_append packByte_pushBits)

lemma length_concat_pushBits: "length (concat (map (\<lambda>v. pushBits (f v) 8) vs)) = 8 * length vs"
  by (induction vs) simp_all

lemma packByte_less: "packByte bs < 2 ^ length bs"
proof (induction bs rule: rev_induct)
  case (snoc b bs)
  have "packByte (bs @ [b]) = 2 * packByte bs + of_bool b" by (simp only: packByte_def foldl_append foldl.simps shift_or)
  with snoc show ?case by simp
qed (simp add: packByte_def)

lemma packBytes_bytes: "x \<in> set (packBytes bits) \<Longrightarrow> x < 256"
proof (induction bits rule: packBytes.induct)
  case (1 bits)
  have "packByte (take 8 bits) < 2 ^ 8"
    using packByte_less [of "take 8 bits"] power_increasing [of "length (take 8 bits)" 8 "2 :: nat"] by simp
  then show ?case using 1 by (subst (asm) (2) packBytes.simps) (auto split: if_splits)
qed

lemma packBytes_append_mult:
  "length xs mod 8 = 0 \<Longrightarrow> packBytes (xs @ ys) = packBytes xs @ packBytes ys"
proof (induction xs rule: packBytes.induct)
  case (1 xs)
  show ?case
  proof (cases "xs = []")
    case True
    then show ?thesis by (simp add: packBytes.simps [of "[]"])
  next
    case False
    then have "8 \<le> length xs" using 1(2) by (cases "length xs < 8") auto
    moreover from this have "length (drop 8 xs) mod 8 = 0" using 1(2) by (simp add: mod_if)
    ultimately show ?thesis
      using 1(1) [OF False] False by (simp add: packBytes.simps [of "xs @ ys"] packBytes.simps [of xs])
  qed
qed

lemma padTo8_eq: "padTo8 bits = bits @ replicate ((8 - length bits mod 8) mod 8) False"
proof (induction bits rule: padTo8.induct)
  case (1 bits)
  show ?case
  proof (cases "length bits mod 8 = 0")
    case True
    then show ?thesis by (simp add: padTo8.simps [of bits])
  next
    case False
    have "Suc ((8 - Suc (length bits) mod 8) mod 8) = (8 - length bits mod 8) mod 8"
      using False mod_less_divisor [of 8 "length bits"] by (auto simp: mod_Suc Suc_diff_Suc)
    then have "replicate ((8 - length bits mod 8) mod 8) False = False # replicate ((8 - Suc (length bits) mod 8) mod 8) False"
      by (metis replicate_Suc)
    then show ?thesis using 1 False by (subst padTo8.simps) simp
  qed
qed

lemma padBytes_eq:
  assumes "length bits mod 8 = 0" "cap mod 8 = 0"
  shows "\<exists>ps. padBytes cap k bits = bits @ concat (map (\<lambda>v. pushBits v 8) ps)
    \<and> length (padBytes cap k bits) = max cap (length bits)"
  using assms
proof (induction cap k bits rule: padBytes.induct)
  case (1 cap k bits)
  show ?case
  proof (cases "length bits < cap")
    case False
    then show ?thesis by (intro exI [of _ "[]"]) (simp add: padBytes.simps [of cap k bits])
  next
    case True
    define v :: nat where "v = (if k mod 2 = 0 then 0xec else 0x11)"
    have step: "padBytes cap k bits = padBytes cap (k + 1) (bits @ pushBits v 8)"
      using True by (simp add: padBytes.simps [of cap k bits] v_def)
    obtain ps where ps: "padBytes cap (k + 1) (bits @ pushBits v 8)
        = (bits @ pushBits v 8) @ concat (map (\<lambda>v. pushBits v 8) ps)"
      "length (padBytes cap (k + 1) (bits @ pushBits v 8)) = max cap (length (bits @ pushBits v 8))"
      using 1(1) [OF True] 1(2,3) unfolding v_def [symmetric] by auto
    have "length bits + 8 \<le> cap"
      using True 1(2,3) by presburger
    then show ?thesis unfolding step using ps by (intro exI [of _ "v # ps"]) simp
  qed
qed

text \<open>The header: mode, count and the bytes themselves.\<close>

definition headerBits :: "bytes \<Rightarrow> bool list" where
  "headerBits data =
     pushBits 4 4 @ pushBits (length data) 8 @ concat (map (\<lambda>b. pushBits (unat b) 8) data)"

lemma length_headerBits: "length (headerBits data) = 12 + 8 * length data"
  by (simp add: headerBits_def length_concat_pushBits)

lemma dataBits_eq:
  "\<exists>ps. dataBits data version = headerBits data @ replicate 4 False @ concat (map (\<lambda>v. pushBits v 8) ps)
    \<and> length (dataBits data version) = 8 * max (getTotalDataBytes version) (length data + 2)"
proof -
  define cap where "cap = getTotalDataBytes version * 8"
  define t where "t = nat (min 4 (int cap - int (length (headerBits data))))"
  let ?b = "headerBits data @ replicate t False"
  have t: "t = 4 \<or> t = 0"
    using length_headerBits [of data] unfolding t_def cap_def by (auto simp: min_def nat_eq_iff) presburger
  have "padTo8 ?b = headerBits data @ replicate 4 False"
  proof -
    have "(12 + 8 * length data + 4) mod 8 = 0" "(12 + 8 * length data) mod 8 = 4" by presburger+
    with t show ?thesis by (auto simp: padTo8_eq length_headerBits)
  qed
  then have "dataBits data version = padBytes cap 0 (headerBits data @ replicate 4 False)"
    by (simp add: dataBits_def Let_def headerBits_def t_def cap_def)
  moreover have "length (headerBits data @ replicate 4 False) = 8 * (length data + 2)"
    by (simp add: length_headerBits)
  moreover have "cap mod 8 = 0" by (simp add: cap_def)
  ultimately show ?thesis
    using padBytes_eq [of "headerBits data @ replicate 4 False" cap 0]
    by (auto simp: cap_def max_def mult.commute)
qed

text \<open>What a reader takes out of the data bits: the count, then that many bytes.\<close>

definition readPayload :: "bool list \<Rightarrow> nat list" where
  "readPayload bits =
     take (packByte (take 8 (drop 4 bits))) (packBytes (drop 12 bits))"

lemma readPayload_header:
  assumes "length data < 256"
  shows "take 4 (headerBits data @ rest) = pushBits 4 4 \<and> readPayload (headerBits data @ rest) = map unat data"
proof -
  have "packBytes (concat (map (\<lambda>b. pushBits (unat b) 8) data) @ rest) = map unat data @ packBytes rest"
    using packBytes_pushBits [of "map unat data"]
    by (simp add: packBytes_append_mult length_concat_pushBits comp_def)
  moreover have "packByte (pushBits (length data) 8) = length data"
    using assms by (simp add: packByte_pushBits)
  ultimately show ?thesis by (simp add: readPayload_def headerBits_def)
qed

text \<open>
  The bit stream is what a byte-mode reader expects: the mode bits, then a count and bytes
  that read back as the text, in a stream of exactly the data and error-correction bytes of the
  version (or more, when the text exceeds the version's capacity); and its bytes form a
  Reed-Solomon code word.
\<close>
theorem qr_bitstream:
  assumes "length data < 256" and bits_def: "bits = createDataBitstream data version"
  shows "take 4 bits = [False, True, False, False]
    \<and> readPayload bits = map unat data
    \<and> length bits = 8 * (max (getTotalDataBytes version) (length data + 2) + getEcBytesCount version)
    \<and> list_all (\<lambda>i. rsSyndrome i (packBytes bits) = 0) [0..<getEcBytesCount version]"
proof -
  let ?d = "dataBits data version" and ?n = "getEcBytesCount version"
  obtain ps where d: "?d = headerBits data @ replicate 4 False @ concat (map (\<lambda>v. pushBits v 8) ps)"
    "length ?d = 8 * max (getTotalDataBytes version) (length data + 2)"
    using dataBits_eq by blast
  define ec where "ec = computeReedSolomon (packBytes ?d) ?n"
  have n: "0 < ?n" "?n \<le> 255" by (simp_all add: getEcBytesCount_def)
  note rs = computeReedSolomon_ok [OF n, of "packBytes ?d"]
  have bytes: "\<forall>x \<in> set (packBytes ?d). x < 256" using packBytes_bytes by blast
  then have ec: "length ec = ?n" "map (\<lambda>v. v mod 256) ec = ec"
    using rs unfolding ec_def by (auto intro!: map_idI)
  have bits: "bits = ?d @ concat (map (\<lambda>v. pushBits v 8) ec)"
    by (simp add: bits_def createDataBitstream_def Let_def ec_def)
  have len: "length ?d mod 8 = 0" using d(2) by simp
  have "packBytes bits = packBytes ?d @ ec"
    using packBytes_append_mult [OF len] ec(2) by (simp add: bits packBytes_pushBits)
  then have "\<forall>i \<in> set [0..<?n]. rsSyndrome i (packBytes bits) = 0"
    using rs(3) [OF bytes] by (simp add: ec_def)
  moreover have "take 4 bits = pushBits 4 4 \<and> readPayload bits = map unat data"
    unfolding bits d(1) append_assoc by (rule readPayload_header [OF assms(1)])
  moreover have "pushBits 4 4 = [False, True, False, False]" by (simp add: pushBits_def upt_rec drop_bit_eq_div)
  ultimately show ?thesis
    using d(2) ec(1) by (simp add: bits list_all_iff length_concat_pushBits)
qed

theorem qr_bitstream_witness:
  "readPayload (createDataBitstream [72, 105] 3) = [72, 105]
    \<and> length (createDataBitstream [72, 105] 3) = 560"
  using qr_bitstream [of "[72, 105]" _ 3, OF _ refl] by (simp add: getTotalDataBytes_def getEcBytesCount_def)

section \<open>Placing the bits\<close>

definition square :: "nat \<Rightarrow> matrix \<Rightarrow> bool" where
  "square n m \<longleftrightarrow> length m = n \<and> list_all (\<lambda>row. length row = n) m"

lemma square_setCell [simp]: "square n m \<Longrightarrow> square n (setCell r c v m)"
  by (cases "r < length m") (auto simp: square_def setCell_def list_all_length nth_list_update)

lemma square_setIfFree [simp]: "square n m \<Longrightarrow> square n (setIfFree r c v m)"
  by (simp add: setIfFree_def)

lemma cell_setCell:
  "square n m \<Longrightarrow> r < n \<Longrightarrow> c < n \<Longrightarrow>
   cell (setCell r c v m) r' c' = (if r = r' \<and> c = c' then Some v else cell m r' c')"
  by (auto simp: square_def cell_def setCell_def list_all_length nth_list_update)

lemma cell_setIfFree:
  "square n m \<Longrightarrow> r < n \<Longrightarrow> c < n \<Longrightarrow>
   cell (setIfFree r c v m) r' c' =
     (if r = r' \<and> c = c' \<and> cell m r c = None then Some v else cell m r' c')"
  by (auto simp: setIfFree_def cell_setCell)

lemma square_fold: "(\<And>x m. square n m \<Longrightarrow> square n (f x m)) \<Longrightarrow> square n m \<Longrightarrow> square n (fold f xs m)"
  by (induction xs arbitrary: m) simp_all

lemma functionPatterns_reserve:
  obtains m where "square (version * 4 + 17) m" "functionPatterns version = reserveFormat (version * 4 + 17) m"
proof -
  have 0: "square n (replicate n (replicate n None))" for n by (simp add: square_def list_all_length)
  have f: "square n m \<Longrightarrow> square n (addFinderPattern a b m)" for n m a b
    unfolding addFinderPattern_def by (rule square_fold) (auto simp: Let_def)
  have a: "square n m \<Longrightarrow> square n (addAlignmentPattern a b m)" for n m a b
    unfolding addAlignmentPattern_def by (rule square_fold) auto
  have as: "square n m \<Longrightarrow> square n (addAlignmentPatterns ps m)" for n m ps
    unfolding addAlignmentPatterns_def by (rule square_fold) (auto simp: a)
  have t: "square n m \<Longrightarrow> square n (addTimingPatterns k m)" for n m k
    unfolding addTimingPatterns_def by (rule square_fold) auto
  show thesis
    by (rule that [OF _ functionPatterns_def [unfolded Let_def]]) (simp add: 0 f as t)
qed

lemma square_reserveFormat: "square n m \<Longrightarrow> square n (reserveFormat k m)"
  unfolding reserveFormat_def by (intro square_fold) auto

lemma square_functionPatterns: "square (version * 4 + 17) (functionPatterns version)"
  by (rule functionPatterns_reserve [of version]) (simp add: square_reserveFormat)

definition maskBit :: "nat \<times> nat \<Rightarrow> bool \<Rightarrow> bool" where
  "maskBit rc b = (if (fst rc + snd rc) mod 2 = 0 then \<not> b else b)"

lemma maskBit_maskBit [simp]: "maskBit rc (maskBit rc b) = b"
  by (simp add: maskBit_def)

text \<open>The stream as the matrix sees it: bits past its end are read as light.\<close>

definition padded :: "bool list \<Rightarrow> nat \<Rightarrow> bool list" where
  "padded bits n = take n (bits @ replicate n False)"

lemma length_padded [simp]: "length (padded bits n) = n"
  by (simp add: padded_def)

lemma padded_Suc: "padded bits (Suc n) = (case bits of [] \<Rightarrow> False | b # _ \<Rightarrow> b) # padded (tl bits) n"
  by (cases bits) (auto simp: padded_def min_def take_Cons split: nat.splits)

definition freeIn :: "matrix \<Rightarrow> nat \<times> nat \<Rightarrow> bool" where
  "freeIn m rc \<longleftrightarrow> cell m (fst rc) (snd rc) = None"

lemma place_ok:
  fixes bits :: "bool list"
  assumes "square n m" "distinct cs" "\<forall>rc \<in> set cs. fst rc < n \<and> snd rc < n"
  defines "m' \<equiv> fst (fold placeBit cs (m, bits))" and "free \<equiv> filter (freeIn m) cs"
  shows "square n m'
    \<and> map (\<lambda>rc. cell m' (fst rc) (snd rc)) free = map2 (\<lambda>rc b. Some (maskBit rc b)) free (padded bits (length free))
    \<and> (\<forall>r c. (r, c) \<notin> set free \<longrightarrow> cell m' r c = cell m r c)"
  using assms(1-3) unfolding m'_def free_def
proof (induction cs arbitrary: m bits)
  case (Cons rc cs)
  obtain r c where rc [simp]: "rc = (r, c)" by (cases rc)
  have rn: "r < n" "c < n" using Cons.prems rc by auto
  show ?case
  proof (cases "freeIn m rc")
    case False
    then show ?thesis
      using Cons by (auto simp: placeBit_def rc freeIn_def)
  next
    case True
    define v where "v = maskBit rc (case bits of [] \<Rightarrow> False | b # _ \<Rightarrow> b)"
    let ?m = "setCell r c v m"
    have step: "placeBit (r, c) (m, bits) = (?m, tl bits)"
      using True by (simp add: placeBit_def rc freeIn_def v_def maskBit_def Let_def)
    have fr: "filter (freeIn ?m) cs = filter (freeIn m) cs"
      using Cons.prems rn rc by (intro filter_cong refl) (auto simp: freeIn_def cell_setCell)
    have ih: "square n (fst (fold placeBit cs (?m, tl bits)))"
      "map (\<lambda>rc. cell (fst (fold placeBit cs (?m, tl bits))) (fst rc) (snd rc)) (filter (freeIn m) cs)
       = map2 (\<lambda>rc b. Some (maskBit rc b)) (filter (freeIn m) cs) (padded (tl bits) (length (filter (freeIn m) cs)))"
      "(r', c') \<notin> set (filter (freeIn m) cs) \<Longrightarrow>
        cell (fst (fold placeBit cs (?m, tl bits))) r' c' = cell ?m r' c'" for r' c'
      using Cons.IH [of ?m "tl bits"] Cons.prems unfolding fr by auto
    have "cell (fst (fold placeBit cs (?m, tl bits))) r c = Some v"
      using ih(3) [of r c] Cons.prems rc rn by (simp add: cell_setCell)
    moreover have "filter (freeIn m) (rc # cs) = (r, c) # filter (freeIn m) cs" using True by simp
    ultimately show ?thesis
      using ih Cons.prems rn by (auto simp: step padded_Suc v_def cell_setCell)
  qed
qed simp

lemma zigzag_ok:
  "distinct (zigzag n right up) \<and> (\<forall>rc \<in> set (zigzag n right up). fst rc < n \<and> snd rc \<le> right)"
proof (induction n right up rule: zigzag.induct)
  case (1 n right up)
  show ?case
  proof (cases "right > 0")
    case False
    then show ?thesis by (simp add: zigzag.simps)
  next
    case True
    define k where "k = (if right = 6 then right - 1 else right)"
    define rows where "rows = (if up then map (\<lambda>i. n - 1 - i) [0..<n] else [0..<n])"
    have k: "0 < k" "k \<le> right" using True by (auto simp: k_def)
    have rows: "distinct rows" "\<forall>r \<in> set rows. r < n"
      by (auto simp: rows_def distinct_map inj_on_def)
    have z: "zigzag n right up = concat (map (\<lambda>row. [(row, k), (row, k - 1)]) rows) @ zigzag n (k - 2) (\<not> up)"
      using True by (subst zigzag.simps) (simp add: k_def rows_def Let_def)
    have ih: "distinct (zigzag n (k - 2) (\<not> up))"
      "\<forall>rc \<in> set (zigzag n (k - 2) (\<not> up)). fst rc < n \<and> snd rc \<le> k - 2"
      using 1 [OF True k_def rows_def] by blast+
    have "distinct (concat (map (\<lambda>row. [(row, k), (row, k - 1)]) rows))"
      using rows(1) k(1) by (induction rows) auto
    moreover have "\<forall>rc \<in> set (concat (map (\<lambda>row. [(row, k), (row, k - 1)]) rows)). fst rc < n \<and> snd rc \<le> right \<and> k \<le> Suc (snd rc)"
      using rows(2) k by auto
    moreover have "\<forall>rc \<in> set (zigzag n (k - 2) (\<not> up)). Suc (snd rc) < k"
      using ih(2) k by (cases "k = 1") (auto simp: zigzag.simps [of n 0])
    ultimately show ?thesis
      unfolding z distinct_append set_append using ih k by (fastforce simp del: set_concat)
  qed
qed

section \<open>Reading the matrix back\<close>

lemma cell_fold_setIfFree:
  assumes "square n m" "\<forall>(r, c) \<in> set cs. r < n \<and> c < n"
  shows "cell m r' c' \<noteq> None \<or> (r', c') \<in> set cs \<Longrightarrow>
    cell (fold (\<lambda>(r, c). setIfFree r c False) cs m) r' c' \<noteq> None"
  using assms
proof (induction cs arbitrary: m)
  case (Cons rc cs)
  obtain r c where rc: "rc = (r, c)" by (cases rc)
  have "cell (setIfFree r c False m) r' c' \<noteq> None \<or> (r', c') \<in> set cs"
    using Cons.prems rc by (auto simp: cell_setIfFree)
  then show ?case using Cons rc by simp
qed simp

definition reservedCells :: "nat \<Rightarrow> (nat \<times> nat) list" where
  "reservedCells dim =
     concat (map (\<lambda>i. [(8, i), (i, 8)]) [0..<9]) @ concat (map (\<lambda>i. [(8, dim - 1 - i), (dim - 1 - i, 8)]) [0..<8])"

lemma fold_pairs: "fold (\<lambda>i m. f (h i) (f (g i) m)) is m = fold f (concat (map (\<lambda>i. [g i, h i]) is)) m"
  by (induction "is" arbitrary: m) simp_all

lemma reserveFormat_fold: "reserveFormat dim m = fold (\<lambda>(r, c). setIfFree r c False) (reservedCells dim) m"
  using fold_pairs [of "\<lambda>(r, c). setIfFree r c False" "\<lambda>i. (i, 8)" "\<lambda>i. (8, i)"]
    fold_pairs [of "\<lambda>(r, c). setIfFree r c False" "\<lambda>i. (dim - 1 - i, 8)" "\<lambda>i. (8, dim - 1 - i)"]
  by (simp only: reserveFormat_def reservedCells_def fold_append comp_apply prod.case)

lemma reservedCells_iff:
  assumes "29 \<le> dim"
  shows "(r, c) \<in> set (reservedCells dim) \<longleftrightarrow>
    (r = 8 \<and> (c < 9 \<or> (dim \<le> c + 8 \<and> c < dim))) \<or> (c = 8 \<and> (r < 9 \<or> (dim \<le> r + 8 \<and> r < dim)))"
proof -
  have edge: "dim \<le> i + 8 \<and> i < dim \<longleftrightarrow> (\<exists>j<8. i = dim - Suc j)" for i
    using assms by (auto intro!: exI [of _ "dim - Suc i"])
  show ?thesis
    unfolding reservedCells_def edge by (auto simp del: upt_rec_numeral)
qed

lemma formatCells_reserved:
  assumes "29 \<le> dim" "x \<in> set (formatCells dim)"
  shows "fst x \<in> set (reservedCells dim)"
  using assms by (auto simp: formatCells_def reservedCells_iff simp del: upt_rec_numeral)

lemma reserved_in_range: "29 \<le> dim \<Longrightarrow> rc \<in> set (reservedCells dim) \<Longrightarrow> fst rc < dim \<and> snd rc < dim"
  by (cases rc) (auto simp: reservedCells_iff)

lemma reserved_not_free:
  assumes "3 \<le> version" "rc \<in> set (reservedCells (version * 4 + 17))"
  shows "\<not> freeIn (functionPatterns version) rc"
proof -
  let ?n = "version * 4 + 17"
  obtain m where m: "square ?n m" "functionPatterns version = reserveFormat ?n m"
    by (rule functionPatterns_reserve)
  have "\<forall>(r, c) \<in> set (reservedCells ?n). r < ?n \<and> c < ?n"
    using reserved_in_range [of ?n] assms(1) by auto
  then show ?thesis
    using cell_fold_setIfFree [OF m(1), of "reservedCells ?n" "fst rc" "snd rc"] assms(2)
    by (simp add: freeIn_def m(2) reserveFormat_fold)
qed

lemma writeFormat_other:
  assumes "square n m" "\<forall>x \<in> set xs. fst (fst x) < n \<and> snd (fst x) < n" "(r, c) \<notin> fst ` set xs"
  shows "cell (fold (\<lambda>((row, col), v). setCell row col v) xs m) r c = cell m r c
    \<and> square n (fold (\<lambda>((row, col), v). setCell row col v) xs m)"
  using assms
proof (induction xs arbitrary: m)
  case (Cons x xs)
  obtain r' c' v where x: "x = ((r', c'), v)" by (cases x) auto
  show ?case using Cons.IH [of "setCell r' c' v m"] Cons.prems by (auto simp: x cell_setCell)
qed simp

text \<open>A reader visits the free cells in the same order and removes the mask.\<close>

definition freeCells :: "nat \<Rightarrow> (nat \<times> nat) list" where
  "freeCells version =
     filter (freeIn (functionPatterns version)) (zigzag (version * 4 + 17) (version * 4 + 16) True)"

definition readMatrix :: "nat \<Rightarrow> bool list list \<Rightarrow> bool list" where
  "readMatrix version m = map (\<lambda>rc. maskBit rc (m ! fst rc ! snd rc)) (freeCells version)"

text \<open>Reading back gives the stream, cut or padded with zeros to the number of free modules.\<close>

lemma readMatrix_padded:
  "(let data = textEncode text; version = selectVersion (length data)
    in readMatrix version (createMatrix text) =
         padded (createDataBitstream data version) (length (freeCells version)))"
proof -
  define data where "data = textEncode text"
  define v where "v = selectVersion (length data)"
  define n where "n = v * 4 + 17"
  define bits where "bits = createDataBitstream data v"
  define placed where "placed = fst (fold placeBit (zigzag n (n - 1) True) (functionPatterns v, bits))"
  have v: "3 \<le> v" "29 \<le> n" by (auto simp: v_def n_def selectVersion_def)
  have zz: "distinct (zigzag n (n - 1) True)" "\<forall>rc \<in> set (zigzag n (n - 1) True). fst rc < n \<and> snd rc < n"
    using zigzag_ok [of n "n - 1" True] v by auto
  have free: "freeCells v = filter (freeIn (functionPatterns v)) (zigzag n (n - 1) True)"
    by (simp add: freeCells_def n_def add.commute)
  have sq: "square n (functionPatterns v)" unfolding n_def by (rule square_functionPatterns)
  note pl = place_ok [OF sq zz, of bits, folded placed_def free]
  have rd: "cell (writeFormat n placed) (fst rc) (snd rc) = cell placed (fst rc) (snd rc)
      \<and> square n (writeFormat n placed)" if "rc \<in> set (freeCells v)" for rc
    unfolding writeFormat_def
  proof (rule writeFormat_other)
    show "square n placed" using pl by blast
    show "\<forall>x \<in> set (formatCells n). fst (fst x) < n \<and> snd (fst x) < n"
      using formatCells_reserved [OF v(2)] reserved_in_range [OF v(2)] by blast
    show "(fst rc, snd rc) \<notin> fst ` set (formatCells n)"
      using that reserved_not_free [OF v(1)] formatCells_reserved [OF v(2)]
      by (auto simp: free n_def)
  qed
  have "createMatrix text = map (map (\<lambda>c. case c of None \<Rightarrow> False | Some b \<Rightarrow> b)) (writeFormat n placed)"
    by (simp add: createMatrix_def Let_def data_def v_def n_def bits_def placed_def)
  then have "createMatrix text ! fst rc ! snd rc
      = (case cell placed (fst rc) (snd rc) of None \<Rightarrow> False | Some b \<Rightarrow> b)" if "rc \<in> set (freeCells v)" for rc
    using rd [OF that] that zz(2) by (auto simp: cell_def square_def list_all_length free)
  then have "readMatrix v (createMatrix text)
      = map (\<lambda>rc. maskBit rc (case cell placed (fst rc) (snd rc) of None \<Rightarrow> False | Some b \<Rightarrow> b)) (freeCells v)"
    by (simp add: readMatrix_def)
  also have "\<dots> = map2 (\<lambda>rc x. maskBit rc (case x of None \<Rightarrow> False | Some b \<Rightarrow> b)) (freeCells v)
      (map (\<lambda>rc. cell placed (fst rc) (snd rc)) (freeCells v))"
    by (simp add: zip_map2 zip_same_conv_map comp_def)
  also have "\<dots> = padded bits (length (freeCells v))"
    using pl by (auto intro!: nth_equalityI)
  finally show ?thesis by (simp add: Let_def data_def v_def bits_def)
qed

subsection \<open>The number of free modules\<close>

lemma zigzag_reaches:
  assumes "r < n" "c \<noteq> 6" "(6 \<le> right \<and> even right) \<or> (right \<le> 5 \<and> odd right)" "c \<le> right"
  shows "(r, c) \<in> set (zigzag n right up)"
  using assms
proof (induction n right up rule: zigzag.induct)
  case (1 n right up)
  define k where "k = (if right = 6 then right - 1 else right)"
  define rows where "rows = (if up then map (\<lambda>i. n - 1 - i) [0..<n] else [0..<n])"
  have right: "0 < right" using 1(4) odd_pos by auto
  have z: "zigzag n right up = concat (map (\<lambda>row. [(row, k), (row, k - 1)]) rows) @ zigzag n (k - 2) (\<not> up)"
    using right by (subst zigzag.simps) (simp add: k_def rows_def Let_def)
  have "r \<in> (\<lambda>i. n - 1 - i) ` {0..<n}" by (rule image_eqI [of _ _ "n - 1 - r"]) (use 1(2) in auto)
  then have r: "r \<in> set rows" using 1(2) by (auto simp: rows_def)
  show ?case
  proof (cases "c = k \<or> c = k - 1")
    case True
    then show ?thesis using r unfolding z by auto
  next
    case False
    have c: "c \<le> k" using 1(3,5) by (auto simp: k_def)
    have "(6 \<le> k - 2 \<and> even (k - 2)) \<or> (k - 2 \<le> 5 \<and> odd (k - 2))" "c \<le> k - 2"
    proof -
      show "c \<le> k - 2" using c False by auto
      show "(6 \<le> k - 2 \<and> even (k - 2)) \<or> (k - 2 \<le> 5 \<and> odd (k - 2))"
      proof (cases "right \<le> 5")
        case True
        then have "right = 1 \<or> right = 3 \<or> right = 5" using 1(4) by (auto elim!: oddE)
        then show ?thesis using c False by (auto simp: k_def)
      next
        case False
        with 1(4) have "even right" "6 \<le> right" by auto
        moreover from this have "right = 6 \<or> 8 \<le> right" by (auto elim!: evenE)
        ultimately show ?thesis by (auto simp: k_def)
      qed
    qed
    with 1(1) [OF right k_def rows_def] 1(2,3) show ?thesis unfolding z by simp
  qed
qed

text \<open>The modules that the patterns leave free, counted row by row; none of them is in the column of the timing pattern\<close>

definition noneCount :: "matrix \<Rightarrow> nat" where
  "noneCount m = length (filter (\<lambda>c. c = None) (concat m))"

lemma noneCount_card:
  assumes "square n m"
  shows "noneCount m = card {rc. fst rc < n \<and> snd rc < n \<and> freeIn m rc}"
proof -
  have "concat m = map (\<lambda>rc. cell m (fst rc) (snd rc)) (List.product [0..<n] [0..<n])"
  proof -
    have "m = map (\<lambda>r. map (\<lambda>c. m ! r ! c) [0..<n]) [0..<n]"
      using assms by (intro nth_equalityI) (auto simp: square_def list_all_length intro!: nth_equalityI)
    then have "concat m = concat (map (\<lambda>r. map (\<lambda>c. m ! r ! c) [0..<n]) [0..<n])" by simp
    then show ?thesis by (simp add: product_concat_map map_concat comp_def cell_def)
  qed
  then have "noneCount m = length (filter (freeIn m) (List.product [0..<n] [0..<n]))"
    by (simp add: noneCount_def filter_map comp_def freeIn_def [abs_def])
  also have "\<dots> = card (set (filter (freeIn m) (List.product [0..<n] [0..<n])))"
    by (intro distinct_card [symmetric] distinct_filter) (simp add: distinct_product)
  also have "set (filter (freeIn m) (List.product [0..<n] [0..<n])) = {rc. fst rc < n \<and> snd rc < n \<and> freeIn m rc}"
    by auto
  finally show ?thesis .
qed

lemma length_freeCells:
  assumes "3 \<le> v" "list_all (\<lambda>row. row ! 6 \<noteq> None) (functionPatterns v)"
  shows "length (freeCells v) = noneCount (functionPatterns v)"
proof -
  define n where "n = v * 4 + 17"
  have sq: "square n (functionPatterns v)" unfolding n_def by (rule square_functionPatterns)
  have free: "freeCells v = filter (freeIn (functionPatterns v)) (zigzag n (n - 1) True)"
    by (simp add: freeCells_def n_def add.commute)
  have zz: "distinct (zigzag n (n - 1) True)" "\<forall>rc \<in> set (zigzag n (n - 1) True). fst rc < n \<and> snd rc < n"
    using zigzag_ok [of n "n - 1" True] by (auto simp: n_def)
  have six: "\<not> freeIn (functionPatterns v) (r, 6)" if "r < n" for r
    using assms(2) sq that by (auto simp: freeIn_def cell_def square_def list_all_length)
  have e: "6 \<le> n - 1 \<and> even (n - 1)" by (simp add: n_def)
  have "(r, c) \<in> set (zigzag n (n - 1) True)" if "r < n" "c < n" "freeIn (functionPatterns v) (r, c)" for r c
    by (rule zigzag_reaches) (use that six e in \<open>auto simp: n_def\<close>)
  then have "set (freeCells v) = {rc. fst rc < n \<and> snd rc < n \<and> freeIn (functionPatterns v) rc}"
    using zz(2) by (auto simp: free)
  then show ?thesis
    using noneCount_card [OF sq] zz(1) distinct_card [of "freeCells v"] by (simp add: free)
qed

lemma count_3: "noneCount (functionPatterns 3) = 567 \<and> list_all (\<lambda>row. row ! 6 \<noteq> None) (functionPatterns 3)"
  by code_simp
lemma count_4: "noneCount (functionPatterns 4) = 807 \<and> list_all (\<lambda>row. row ! 6 \<noteq> None) (functionPatterns 4)"
  by code_simp
lemma count_5: "noneCount (functionPatterns 5) = 1079 \<and> list_all (\<lambda>row. row ! 6 \<noteq> None) (functionPatterns 5)"
  by code_simp
lemma count_6: "noneCount (functionPatterns 6) = 1383 \<and> list_all (\<lambda>row. row ! 6 \<noteq> None) (functionPatterns 6)"
  by code_simp

lemma freeCells_count:
  "length (freeCells 3) = 567" "length (freeCells 4) = 807" "length (freeCells 5) = 1079" "length (freeCells 6) = 1383"
  using count_3 count_4 count_5 count_6 by (simp_all add: length_freeCells)

text \<open>
  C38. Reading the modules of the finished matrix back in zig-zag order and removing the mask. For a text of at most 134
  bytes the version that is chosen has room for it: what is read is the whole bit stream, data and error correction,
  followed by zeros, and a reader takes the bytes of the text out of it. Neither the function patterns nor the format
  bits overwrite data, and no module is written twice. A longer text does not fit: the stream that is read is cut.
\<close>
theorem qr_matrix_roundtrip:
  assumes "data = textEncode text" "v = selectVersion (length data)" "bits = createDataBitstream data v"
    and "read = readMatrix v (createMatrix text)"
  shows "(length data \<le> 134 \<longrightarrow> length bits \<le> length read \<and> read = bits @ replicate (length read - length bits) False
          \<and> readPayload read = map unat data)
    \<and> (134 < length data \<longrightarrow> length read < length bits \<and> read = take (length read) bits)"
proof -
  have p: "read = padded bits (length (freeCells v))"
    using readMatrix_padded [of "text"] by (simp add: assms Let_def)
  then have l: "length read = length (freeCells v)" by simp
  obtain ps where d: "dataBits data v = headerBits data @ replicate 4 False @ concat (map (\<lambda>v. pushBits v 8) ps)"
    "length (dataBits data v) = 8 * max (getTotalDataBytes v) (length data + 2)"
    using dataBits_eq by blast
  have n: "0 < getEcBytesCount v" "getEcBytesCount v \<le> 255" by (simp_all add: getEcBytesCount_def)
  have b: "bits = headerBits data @ drop (12 + 8 * length data) bits"
    using d(1) by (simp add: assms(3) createDataBitstream_def Let_def length_headerBits)
  have len: "length bits = 8 * (max (getTotalDataBytes v) (length data + 2) + getEcBytesCount v)"
    using d(2) computeReedSolomon_ok(2) [OF n, of "packBytes (dataBits data v)"] packBytes_bytes [of _ "dataBits data v"]
    by (simp add: assms(3) createDataBitstream_def Let_def length_concat_pushBits)
  have fits: "length bits \<le> length read" if "length data \<le> 134"
    using that len freeCells_count by (auto simp: l assms(2) selectVersion_def getTotalDataBytes_def getEcBytesCount_def)
  have cut: "length read < length bits" if "134 < length data"
    using that len freeCells_count by (auto simp: l assms(2) selectVersion_def getTotalDataBytes_def getEcBytesCount_def)
  have r: "read = bits @ replicate (length read - length bits) False" if "length data \<le> 134"
    using fits [OF that] by (simp add: p padded_def)
  have "readPayload read = map unat data" if "length data \<le> 134"
  proof -
    have "read = (headerBits data @ drop (12 + 8 * length data) bits) @ replicate (length read - length bits) False"
      by (subst b [symmetric]) (rule r [OF that])
    also note append_assoc
    finally have h: "read = headerBits data @ drop (12 + 8 * length data) bits @ replicate (length read - length bits) False" .
    have "length data < 256" using that by simp
    then show ?thesis by (subst h) (rule conjunct2 [OF readPayload_header])
  qed
  moreover have "read = take (length read) bits" if "134 < length data"
    using cut [OF that] by (simp add: p padded_def)
  ultimately show ?thesis using fits cut r by blast
qed

theorem qr_matrix_roundtrip_witness:
  "readPayload (readMatrix 3 (createMatrix ''GENCHAT'')) = map unat (textEncode ''GENCHAT'')"
proof -
  have l: "length (textEncode ''GENCHAT'') = 7" by code_simp
  then have v: "selectVersion (length (textEncode ''GENCHAT'')) = 3" by (simp add: selectVersion_def)
  from qr_matrix_roundtrip [OF refl refl refl refl, of "''GENCHAT''"] show ?thesis by (simp add: v) (simp add: l)
qed

end
