(* ===== verification/Local_Store.thy ===== *)
theory Local_Store
  imports Kv_Store "HOL-Library.Product_Lexorder" "HOL-Library.Multiset"
begin

text \<open>
  The offline store: \<open>packages/client-web/src/lib/local-storage-db.ts\<close>. Messages live in an
  IndexedDB object store keyed by message id, or, when IndexedDB is missing, in one
  \<open>localStorage\<close> entry per channel; the updates write both. An IndexedDB transaction may fail,
  \<open>localStorage\<close> may be unreadable or full, and an entry may hold text that does not parse: each
  of these is a branch of the operations below. The clock is an argument.
\<close>

section \<open>Data\<close>

datatype msgStatus = StPending | StSent | StDelivered | StRead

datatype deleteScope = Everyone | OnlyMe

record QuotedReply =
  qMessageId :: string
  qSenderId :: string
  qSenderName :: "string option"
  qSnippet :: string

text \<open>
  The stores keep the object they are given. The last five members are those that the chat page adds to a
  message; no operation of the stores looks at them or removes them.
\<close>

record StoredMessage =
  msgId :: string
  clientMsgId :: string
  channelId :: string
  senderId :: string
  msgText :: "string option"
  attachment :: "string option"
  status :: msgStatus
  timestamp :: string
  createdAt :: int
  ephemeralTtlSec :: "int option"
  expiresAt :: "int option"
  replyTo :: "QuotedReply option"
  reactions :: "(string \<times> string list) list option"
  isDeleted :: bool
  deletedAt :: "int option"
  deletedBy :: "string option"
  scopeOfDelete :: "deleteScope option"
  isEdited :: bool
  editedAt :: "int option"
  isPinned :: bool
  pinnedAt :: "int option"
  pinnedBy :: "string option"
  rawCiphertext :: "string option"
  itemEncrypted :: bool
  itemFallback :: bool
  securityWarning :: "string option"
  itemFingerprint :: "string option"

record StoredConversation =
  convId :: string
  convName :: string
  isDirect :: bool
  lastMessage :: "string option"
  unreadCount :: "int option"

record dbState =
  messages :: "StoredMessage idb option"
  conversations :: "StoredConversation idb"
  txFails :: bool
  lsMsgs :: "StoredMessage list blob jsmap"
  lsConvs :: "StoredConversation list blob option"
  lsReadable :: bool
  lsWritable :: bool

text \<open>An optional number is truthy when it is present and not zero.\<close>

definition expiredAt :: "int \<Rightarrow> 'x StoredMessage_scheme \<Rightarrow> bool" where
  "expiredAt now m \<longleftrightarrow> (case expiresAt m of None \<Rightarrow> False | Some e \<Rightarrow> e \<noteq> 0 \<and> e \<le> now)"

definition matches :: "string \<Rightarrow> 'x StoredMessage_scheme \<Rightarrow> bool" where
  "matches k m \<longleftrightarrow> msgId m = k \<or> clientMsgId m = k"

definition lsKey :: "string \<Rightarrow> string" where
  "lsKey channel = ''genchat_msgs_'' @ channel"

section \<open>The localStorage fallback\<close>

definition rawFalsy :: "'a blob \<Rightarrow> bool" where
  "rawFalsy b \<longleftrightarrow> (case b of Blob _ \<Rightarrow> False | Garbage s \<Rightarrow> s = [])"

definition getLocalStorageMessages :: "int \<Rightarrow> string option \<Rightarrow> dbState \<Rightarrow> StoredMessage list" where
  "getLocalStorageMessages now channel s =
     (case channel of
        None \<Rightarrow> []
      | Some c \<Rightarrow>
          if c = [] \<or> \<not> lsReadable s then []
          else case jsGet (lsMsgs s) (lsKey c) of
                 None \<Rightarrow> []
               | Some raw \<Rightarrow> (case parseBlob raw of
                                None \<Rightarrow> []
                              | Some msgs \<Rightarrow> filter (\<lambda>m. \<not> expiredAt now m) msgs))"

definition getLocalStorageConversations :: "dbState \<Rightarrow> StoredConversation list" where
  "getLocalStorageConversations s =
     (if \<not> lsReadable s then []
      else case lsConvs s of
             None \<Rightarrow> []
           | Some raw \<Rightarrow> (case parseBlob raw of None \<Rightarrow> [] | Some cs \<Rightarrow> cs))"

text \<open>
  The shape shared by \<open>purgeFromKey\<close> and the three \<open>updateKey\<close> functions: read one entry, compute
  its new contents and write them if anything changed. The flag says whether the step
  completed; an exception ends the loop over the entries.
\<close>

definition rewriteKey ::
  "(StoredMessage list \<Rightarrow> StoredMessage list option) \<Rightarrow> string \<Rightarrow> dbState \<Rightarrow> dbState \<times> bool" where
  "rewriteKey f k s =
     (if \<not> lsReadable s then (s, False)
      else case jsGet (lsMsgs s) k of
             None \<Rightarrow> (s, True)
           | Some raw \<Rightarrow>
               if rawFalsy raw then (s, True)
               else (case parseBlob raw of
                       None \<Rightarrow> (s, False)
                     | Some msgs \<Rightarrow>
                         (case f msgs of
                            None \<Rightarrow> (s, True)
                          | Some msgs' \<Rightarrow>
                              if lsWritable s
                              then (s\<lparr>lsMsgs := jsSet k (Blob msgs') (lsMsgs s)\<rparr>, True)
                              else (s, False))))"

fun rewriteKeys ::
  "(StoredMessage list \<Rightarrow> StoredMessage list option) \<Rightarrow> string list \<Rightarrow> dbState \<Rightarrow> dbState" where
  "rewriteKeys f [] s = s"
| "rewriteKeys f (k # ks) s =
     (if startsWith k ''genchat_msgs_''
      then let r = rewriteKey f k s in if snd r then rewriteKeys f ks (fst r) else fst r
      else rewriteKeys f ks s)"

definition rewriteStorage ::
  "(StoredMessage list \<Rightarrow> StoredMessage list option) \<Rightarrow> string \<Rightarrow> dbState \<Rightarrow> dbState" where
  "rewriteStorage f channel s =
     (if channel \<noteq> [] then fst (rewriteKey f (lsKey channel) s)
      else rewriteKeys f (map fst (lsMsgs s)) s)"

definition removeMatching :: "string \<Rightarrow> StoredMessage list \<Rightarrow> StoredMessage list option" where
  "removeMatching k msgs =
     (let remaining = filter (\<lambda>m. msgId m \<noteq> k \<and> clientMsgId m \<noteq> k) msgs
      in if length remaining \<noteq> length msgs then Some remaining else None)"

definition updateMatching ::
  "(StoredMessage \<Rightarrow> StoredMessage) \<Rightarrow> string \<Rightarrow> StoredMessage list \<Rightarrow> StoredMessage list option" where
  "updateMatching g k msgs =
     (if list_ex (matches k) msgs then Some (map (\<lambda>m. if matches k m then g m else m) msgs) else None)"

section \<open>Messages\<close>

definition putMessage :: "StoredMessage \<Rightarrow> StoredMessage idb \<Rightarrow> StoredMessage idb" where
  "putMessage m store = idbPut (msgId m) m store"

definition saveMessage :: "int \<Rightarrow> StoredMessage \<Rightarrow> dbState \<Rightarrow> dbState outcome" where
  "saveMessage now m s =
     (case messages s of
        Some store \<Rightarrow>
          if txFails s then Rejected else Done (s\<lparr>messages := Some (putMessage m store)\<rparr>)
      | None \<Rightarrow>
          let all = getLocalStorageMessages now (Some (channelId m)) s;
              same = (\<lambda>x. msgId x = msgId m \<or> (clientMsgId m \<noteq> [] \<and> clientMsgId x = clientMsgId m));
              all' = (case find (\<lambda>i. same (all ! i)) [0..<length all] of
                        Some idx \<Rightarrow> all[idx := m]
                      | None \<Rightarrow> all @ [m])
          in Done (if lsWritable s
                   then s\<lparr>lsMsgs := jsSet (lsKey (channelId m)) (Blob all') (lsMsgs s)\<rparr> else s))"

fun saveEach :: "int \<Rightarrow> StoredMessage list \<Rightarrow> dbState \<Rightarrow> dbState outcome" where
  "saveEach now [] s = Done s"
| "saveEach now (m # ms) s =
     (case saveMessage now m s of Done s' \<Rightarrow> saveEach now ms s' | Rejected \<Rightarrow> Rejected)"

definition saveMessages :: "int \<Rightarrow> StoredMessage list \<Rightarrow> dbState \<Rightarrow> dbState outcome" where
  "saveMessages now ms s =
     (case messages s of
        Some store \<Rightarrow>
          if ms \<noteq> [] then (if txFails s then Rejected else Done (s\<lparr>messages := Some (fold putMessage ms store)\<rparr>))
          else saveEach now ms s
      | None \<Rightarrow> saveEach now ms s)"

definition getMessagesByChannel :: "int \<Rightarrow> string \<Rightarrow> dbState \<Rightarrow> StoredMessage list" where
  "getMessagesByChannel now channel s =
     (case messages s of
        Some store \<Rightarrow>
          if txFails s then getLocalStorageMessages now (Some channel) s
          else sort_key createdAt
                 (filter (\<lambda>m. \<not> expiredAt now m)
                   (filter (\<lambda>m. channelId m = channel) (idbGetAll store)))
      | None \<Rightarrow> getLocalStorageMessages now (Some channel) s)"

definition onStore :: "(StoredMessage idb \<Rightarrow> StoredMessage idb) \<Rightarrow> dbState \<Rightarrow> dbState" where
  "onStore f s =
     (case messages s of
        Some store \<Rightarrow> if txFails s then s else s\<lparr>messages := Some (f store)\<rparr>
      | None \<Rightarrow> s)"

text \<open>\<open>store.get\<close>, a change of the record found, and \<open>store.put\<close> of the result.\<close>

definition updateRecord ::
  "(StoredMessage \<Rightarrow> StoredMessage) \<Rightarrow> string \<Rightarrow> StoredMessage idb \<Rightarrow> StoredMessage idb" where
  "updateRecord g k store =
     (case idbGet store k of None \<Rightarrow> store | Some m \<Rightarrow> putMessage (g m) store)"

definition deleteMessage :: "string \<Rightarrow> string \<Rightarrow> dbState \<Rightarrow> dbState" where
  "deleteMessage k channel s =
     rewriteStorage (removeMatching k) channel (onStore (idbDelete k) s)"

definition tombstone :: "int \<Rightarrow> string \<Rightarrow> 'x StoredMessage_scheme \<Rightarrow> 'x StoredMessage_scheme" where
  "tombstone now who m =
     m\<lparr>isDeleted := True, deletedAt := Some now, deletedBy := Some who, scopeOfDelete := Some Everyone,
       msgText := None, attachment := None, replyTo := None, reactions := None\<rparr>"

definition markMessageDeleted ::
  "int \<Rightarrow> string \<Rightarrow> string \<Rightarrow> string \<Rightarrow> deleteScope \<Rightarrow> dbState \<Rightarrow> dbState" where
  "markMessageDeleted now k channel who scope s =
     (if scope = OnlyMe then deleteMessage k channel s
      else rewriteStorage (updateMatching (tombstone now who) k) channel
             (onStore (updateRecord (tombstone now who) k) s))"

definition edited :: "string \<Rightarrow> int \<Rightarrow> 'x StoredMessage_scheme \<Rightarrow> 'x StoredMessage_scheme" where
  "edited newText at m = m\<lparr>msgText := Some newText, isEdited := True, editedAt := Some at\<rparr>"

definition updateMessageText :: "string \<Rightarrow> string \<Rightarrow> string \<Rightarrow> int \<Rightarrow> dbState \<Rightarrow> dbState" where
  "updateMessageText k channel newText at s =
     rewriteStorage (updateMatching (edited newText at) k) channel
       (onStore (updateRecord (edited newText at) k) s)"

definition pinned :: "bool \<Rightarrow> string option \<Rightarrow> int \<Rightarrow> 'x StoredMessage_scheme \<Rightarrow> 'x StoredMessage_scheme" where
  "pinned on who at m =
     m\<lparr>isPinned := on, pinnedAt := (if on then Some at else None), pinnedBy := (if on then who else None)\<rparr>"

definition updateMessagePinned ::
  "int \<Rightarrow> string \<Rightarrow> string \<Rightarrow> bool \<Rightarrow> string option \<Rightarrow> int option \<Rightarrow> dbState \<Rightarrow> dbState" where
  "updateMessagePinned now k channel on who pinAt s =
     (let at = (case pinAt of None \<Rightarrow> now | Some t \<Rightarrow> if t = 0 then now else t)
      in rewriteStorage (updateMatching (pinned on who at) k) channel
           (onStore (updateRecord (pinned on who at) k) s))"

definition getPinnedMessages :: "int \<Rightarrow> string \<Rightarrow> dbState \<Rightarrow> StoredMessage list" where
  "getPinnedMessages now channel s =
     sort_key (\<lambda>m. - (case pinnedAt m of None \<Rightarrow> 0 | Some t \<Rightarrow> t))
       (filter (\<lambda>m. isPinned m \<and> \<not> isDeleted m) (getMessagesByChannel now channel s))"

definition purgeId :: "StoredMessage \<Rightarrow> string" where
  "purgeId m = (if msgId m \<noteq> [] then msgId m else clientMsgId m)"

definition addPurged :: "int \<Rightarrow> StoredMessage list \<Rightarrow> string list \<Rightarrow> string list" where
  "addPurged now msgs ids =
     fold (\<lambda>m ids. if expiredAt now m \<and> purgeId m \<notin> set ids then ids @ [purgeId m] else ids) msgs ids"

fun purgeKeys :: "int \<Rightarrow> string list \<Rightarrow> dbState \<Rightarrow> string list \<Rightarrow> dbState \<times> string list" where
  "purgeKeys now [] s ids = (s, ids)"
| "purgeKeys now (k # ks) s ids =
     (if \<not> lsReadable s then (s, ids)
      else if \<not> startsWith k ''genchat_msgs_'' then purgeKeys now ks s ids
      else case jsGet (lsMsgs s) k of
             None \<Rightarrow> purgeKeys now ks s ids
           | Some raw \<Rightarrow>
               if rawFalsy raw then purgeKeys now ks s ids
               else (case parseBlob raw of
                       None \<Rightarrow> (s, ids)
                     | Some msgs \<Rightarrow>
                         let remaining = filter (\<lambda>m. \<not> expiredAt now m) msgs;
                             ids' = addPurged now msgs ids
                         in if length remaining = length msgs then purgeKeys now ks s ids'
                            else if \<not> lsWritable s then (s, ids')
                            else purgeKeys now ks (s\<lparr>lsMsgs := jsSet k (Blob remaining) (lsMsgs s)\<rparr>) ids'))"

definition purgeExpiredMessages :: "int \<Rightarrow> dbState \<Rightarrow> dbState \<times> string list" where
  "purgeExpiredMessages now s =
     (let purged = (case messages s of
                      Some store \<Rightarrow> if txFails s then [] else map purgeId (filter (expiredAt now) (idbGetAll store))
                    | None \<Rightarrow> []);
          s' = onStore (filter (\<lambda>r. \<not> expiredAt now (snd r))) s
      in purgeKeys now (map fst (lsMsgs s')) s' purged)"

definition updateMessageStatus :: "string \<Rightarrow> msgStatus \<Rightarrow> dbState \<Rightarrow> dbState" where
  "updateMessageStatus k st s = onStore (updateRecord (\<lambda>m. m\<lparr>status := st\<rparr>) k) s"

section \<open>Conversations\<close>

definition saveConversations :: "StoredConversation list \<Rightarrow> dbState \<Rightarrow> dbState outcome" where
  "saveConversations cs s =
     (case messages s of
        Some _ \<Rightarrow> if txFails s then Rejected
                  else Done (s\<lparr>conversations := fold (\<lambda>c. idbPut (convId c) c) cs (conversations s)\<rparr>)
      | None \<Rightarrow> if lsWritable s then Done (s\<lparr>lsConvs := Some (Blob cs)\<rparr>) else Rejected)"

definition getConversations :: "dbState \<Rightarrow> StoredConversation list" where
  "getConversations s =
     (case messages s of
        Some _ \<Rightarrow> if txFails s then getLocalStorageConversations s else idbGetAll (conversations s)
      | None \<Rightarrow> getLocalStorageConversations s)"

section \<open>Search\<close>

record SearchSnippetResult =
  hit :: StoredMessage
  score :: nat
  snippets :: "string list"

definition searchTerms :: "string \<Rightarrow> string list" where
  "searchTerms query = filter (\<lambda>t. t \<noteq> []) (splitSpaces (toLowerCase (trim query)))"

definition cleanTerm :: "string \<Rightarrow> string" where
  "cleanTerm t = (if endsWith t ''*'' then butlast t else t)"

definition boundaryBefore :: "string \<Rightarrow> nat \<Rightarrow> bool" where
  "boundaryBefore lower idx \<longleftrightarrow>
     idx = 0 \<or> isSpace (lower ! (idx - 1)) \<or> lower ! (idx - 1) \<in> set ''.,!?;:''"

fun scoreTerms :: "string \<Rightarrow> string list \<Rightarrow> nat \<Rightarrow> string list \<Rightarrow> (nat \<times> string list) option" where
  "scoreTerms txt [] sc sn = Some (sc, sn)"
| "scoreTerms txt (t # ts) sc sn =
     (case indexOf (toLowerCase txt) (cleanTerm t) of
        None \<Rightarrow> None
      | Some idx \<Rightarrow>
          scoreTerms txt ts (sc + (if boundaryBefore (toLowerCase txt) idx then 10 else 5))
            (sn @ [''...'' @ substring (idx - 25) (min (length txt) (idx + length (cleanTerm t) + 25)) txt @ ''...'']))"

definition searchMessage :: "string list \<Rightarrow> StoredMessage \<Rightarrow> SearchSnippetResult option" where
  "searchMessage terms m =
     (if isDeleted m then None
      else case msgText m of
             None \<Rightarrow> None
           | Some txt \<Rightarrow>
               if txt = [] then None
               else map_option (\<lambda>(sc, sn). \<lparr>hit = m, score = sc, snippets = sn\<rparr>) (scoreTerms txt terms 0 []))"

definition searchPool :: "int \<Rightarrow> string option \<Rightarrow> dbState \<Rightarrow> StoredMessage list" where
  "searchPool now channel s =
     (case messages s of
        Some store \<Rightarrow>
          if txFails s then []
          else (case channel of
                  None \<Rightarrow> idbGetAll store
                | Some c \<Rightarrow> if c = [] then idbGetAll store else filter (\<lambda>m. channelId m = c) (idbGetAll store))
      | None \<Rightarrow> getLocalStorageMessages now channel s)"

definition search :: "int \<Rightarrow> string \<Rightarrow> string option \<Rightarrow> dbState \<Rightarrow> SearchSnippetResult list" where
  "search now query channel s =
     (let terms = searchTerms query
      in if terms = [] then []
         else let pool = filter (\<lambda>m. \<not> isDeleted m \<and> \<not> expiredAt now m) (searchPool now channel s);
                  results = List.map_filter (searchMessage terms) pool
              in take 30 (sort_key (\<lambda>r. (- int (score r), - createdAt (hit r))) results))"

section \<open>Well-formed stores\<close>

definition storeOk :: "StoredMessage idb \<Rightarrow> bool" where
  "storeOk store \<longleftrightarrow> wfIdb store \<and> list_all (\<lambda>(k, m). msgId m = k) store"

definition dbOk :: "dbState \<Rightarrow> bool" where
  "dbOk s \<longleftrightarrow> (case messages s of None \<Rightarrow> True | Some store \<Rightarrow> storeOk store)
     \<and> wfIdb (conversations s) \<and> wfMap (lsMsgs s)"

lemma storeOk_put [simp]: "storeOk store \<Longrightarrow> storeOk (putMessage m store)"
  by (auto simp: storeOk_def putMessage_def set_idbPut list_all_iff)

lemma storeOk_filter [simp]: "storeOk store \<Longrightarrow> storeOk (filter P store)"
  by (auto simp: storeOk_def list_all_iff)

lemma storeOk_delete [simp]: "storeOk store \<Longrightarrow> storeOk (idbDelete k store)"
  by (simp add: idbDelete_def)

lemma storeOk_updateRecord [simp]: "storeOk store \<Longrightarrow> storeOk (updateRecord g k store)"
  by (simp add: updateRecord_def split: option.splits)

lemma storeOk_get: "storeOk store \<Longrightarrow> idbGet store k = Some m \<Longrightarrow> msgId m = k"
  by (auto simp: storeOk_def idbGet_mem list_all_iff)

lemma storeOk_getAll: "storeOk store \<Longrightarrow> m \<in> set (idbGetAll store) \<longleftrightarrow> idbGet store (msgId m) = Some m"
  by (force simp: storeOk_def idbGet_mem idbGetAll_def list_all_iff)

lemma storeOk_distinct: "storeOk store \<Longrightarrow> distinct (map msgId (idbGetAll store))"
proof -
  assume ok: "storeOk store"
  then have "map msgId (idbGetAll store) = map fst store"
    by (auto simp: storeOk_def idbGetAll_def list_all_iff)
  with ok show ?thesis by (simp add: storeOk_def wfIdb_distinct)
qed

lemma idbGet_updateRecord:
  assumes "storeOk store" "\<And>m. msgId (g m) = msgId m"
  shows "idbGet (updateRecord g k store) k' =
    (if k = k' then map_option g (idbGet store k) else idbGet store k')"
  using assms storeOk_get [OF assms(1), of k]
  by (auto simp: updateRecord_def putMessage_def storeOk_def split: option.splits)

lemma onStore_fields [simp]:
  "lsMsgs (onStore f s) = lsMsgs s" "conversations (onStore f s) = conversations s"
  "lsReadable (onStore f s) = lsReadable s" "lsWritable (onStore f s) = lsWritable s"
  "txFails (onStore f s) = txFails s" "lsConvs (onStore f s) = lsConvs s"
  by (simp_all add: onStore_def split: option.splits)

lemma messages_onStore [simp]:
  "messages (onStore f s) = (if txFails s then messages s else map_option f (messages s))"
  by (simp add: onStore_def split: option.splits)

lemma rewriteKey_fields [simp]:
  "messages (fst (rewriteKey f k s)) = messages s" "conversations (fst (rewriteKey f k s)) = conversations s"
  "lsReadable (fst (rewriteKey f k s)) = lsReadable s" "lsWritable (fst (rewriteKey f k s)) = lsWritable s"
  "txFails (fst (rewriteKey f k s)) = txFails s"
  by (simp_all add: rewriteKey_def split: option.splits)

lemma wfMap_rewriteKey [simp]: "wfMap (lsMsgs s) \<Longrightarrow> wfMap (lsMsgs (fst (rewriteKey f k s)))"
  by (simp add: rewriteKey_def split: option.splits)

lemma rewriteKeys_fields [simp]:
  "messages (rewriteKeys f ks s) = messages s" "conversations (rewriteKeys f ks s) = conversations s"
  "txFails (rewriteKeys f ks s) = txFails s"
  "wfMap (lsMsgs s) \<Longrightarrow> wfMap (lsMsgs (rewriteKeys f ks s))"
  by (induction ks arbitrary: s) (simp_all add: Let_def)

lemma rewriteStorage_fields [simp]:
  "messages (rewriteStorage f c s) = messages s" "conversations (rewriteStorage f c s) = conversations s"
  "txFails (rewriteStorage f c s) = txFails s"
  "wfMap (lsMsgs s) \<Longrightarrow> wfMap (lsMsgs (rewriteStorage f c s))"
  by (simp_all add: rewriteStorage_def)

lemma purgeKeys_fields [simp]:
  "messages (fst (purgeKeys now ks s ids)) = messages s"
  "conversations (fst (purgeKeys now ks s ids)) = conversations s"
  "txFails (fst (purgeKeys now ks s ids)) = txFails s"
  "wfMap (lsMsgs s) \<Longrightarrow> wfMap (lsMsgs (fst (purgeKeys now ks s ids)))"
  by (induction now ks s ids rule: purgeKeys.induct) (auto simp: Let_def split: option.splits)

lemma storeOk_fold_put: "storeOk store \<Longrightarrow> storeOk (fold putMessage ms store)"
  by (induction ms arbitrary: store) simp_all

lemma dbOk_onStore: "dbOk s \<Longrightarrow> (\<And>store. storeOk store \<Longrightarrow> storeOk (f store)) \<Longrightarrow> dbOk (onStore f s)"
  by (auto simp: dbOk_def split: option.splits)

lemma dbOk_rewriteStorage: "dbOk s \<Longrightarrow> dbOk (rewriteStorage f c s)"
  by (simp add: dbOk_def)

lemma dbOk_saveMessage: "dbOk s \<Longrightarrow> saveMessage now m s = Done s' \<Longrightarrow> dbOk s'"
  by (auto simp: saveMessage_def dbOk_def Let_def split: option.splits if_splits)

lemma dbOk_saveEach: "dbOk s \<Longrightarrow> saveEach now ms s = Done s' \<Longrightarrow> dbOk s'"
  by (induction ms arbitrary: s) (auto split: outcome.splits dest: dbOk_saveMessage)

lemma saveMessages_cases:
  "saveMessages now ms s = Done s' \<Longrightarrow>
   saveEach now ms s = Done s' \<or> (\<exists>store. messages s = Some store \<and> s' = s\<lparr>messages := Some (fold putMessage ms store)\<rparr>)"
  by (auto simp: saveMessages_def split: option.splits if_splits)

lemma dbOk_saveMessages: "dbOk s \<Longrightarrow> saveMessages now ms s = Done s' \<Longrightarrow> dbOk s'"
  by (drule saveMessages_cases) (auto simp: dbOk_saveEach storeOk_fold_put dbOk_def [of "s\<lparr>messages := _\<rparr>"] dest: dbOk_def [THEN iffD1])

section \<open>The operations as one interface\<close>

datatype dbOp =
    SaveMessage StoredMessage
  | SaveMessages "StoredMessage list"
  | DeleteMessage string string
  | MarkDeleted string string string deleteScope
  | UpdateText string string string int
  | UpdatePinned string string bool "string option" "int option"
  | UpdateStatus string msgStatus
  | Purge
  | SaveConversations "StoredConversation list"

text \<open>A rejected promise leaves the database as it was.\<close>

definition settled :: "dbState \<Rightarrow> dbState outcome \<Rightarrow> dbState" where
  "settled s r = (case r of Done s' \<Rightarrow> s' | Rejected \<Rightarrow> s)"

fun dbStep :: "int \<times> dbOp \<Rightarrow> dbState \<Rightarrow> dbState" where
  "dbStep (now, SaveMessage m) s = settled s (saveMessage now m s)"
| "dbStep (now, SaveMessages ms) s = settled s (saveMessages now ms s)"
| "dbStep (now, DeleteMessage k c) s = deleteMessage k c s"
| "dbStep (now, MarkDeleted k c who scope) s = markMessageDeleted now k c who scope s"
| "dbStep (now, UpdateText k c txt at) s = updateMessageText k c txt at s"
| "dbStep (now, UpdatePinned k c on who at) s = updateMessagePinned now k c on who at s"
| "dbStep (now, UpdateStatus k st) s = updateMessageStatus k st s"
| "dbStep (now, Purge) s = fst (purgeExpiredMessages now s)"
| "dbStep (now, SaveConversations cs) s = settled s (saveConversations cs s)"

lemma dbOk_saveConversations: "dbOk s \<Longrightarrow> saveConversations cs s = Done s' \<Longrightarrow> dbOk s'"
proof -
  have "wfIdb t \<Longrightarrow> wfIdb (fold (\<lambda>c. idbPut (convId c) c) cs t)" for t
    by (induction cs arbitrary: t) simp_all
  then show "dbOk s \<Longrightarrow> saveConversations cs s = Done s' \<Longrightarrow> dbOk s'"
    by (auto simp: saveConversations_def dbOk_def split: option.splits if_splits)
qed

lemma dbOk_purge: "dbOk s \<Longrightarrow> dbOk (fst (purgeExpiredMessages now s))"
  by (auto simp: purgeExpiredMessages_def Let_def dbOk_def split: option.splits)

lemma dbOk_deleteMessage: "dbOk s \<Longrightarrow> dbOk (deleteMessage k c s)"
  by (simp add: deleteMessage_def dbOk_rewriteStorage dbOk_onStore)

lemma dbOk_step: "dbOk s \<Longrightarrow> dbOk (dbStep op s)"
  by (induction op s rule: dbStep.induct)
    (auto simp: settled_def markMessageDeleted_def updateMessageText_def updateMessagePinned_def
      updateMessageStatus_def Let_def dbOk_rewriteStorage dbOk_onStore dbOk_purge dbOk_deleteMessage
      dest: dbOk_saveMessage dbOk_saveMessages dbOk_saveConversations split: outcome.splits)

lemma dbOk_run: "dbOk s \<Longrightarrow> dbOk (fold dbStep ops s)"
  by (induction ops arbitrary: s) (simp_all add: dbOk_step)

section \<open>What readers see\<close>

lemma getLocalStorageMessages_unexpired: "m \<in> set (getLocalStorageMessages now c s) \<Longrightarrow> \<not> expiredAt now m"
  by (auto simp: getLocalStorageMessages_def split: option.splits if_splits)

lemma getMessagesByChannel_unexpired: "m \<in> set (getMessagesByChannel now c s) \<Longrightarrow> \<not> expiredAt now m"
  by (auto simp: getMessagesByChannel_def dest: getLocalStorageMessages_unexpired split: option.splits if_splits)

lemma searchMessage_hit: "searchMessage ts m = Some r \<Longrightarrow> hit r = m"
  by (auto simp: searchMessage_def split: if_splits option.splits)

definition matchesQuery :: "string list \<Rightarrow> StoredMessage \<Rightarrow> bool" where
  "matchesQuery terms m \<longleftrightarrow>
     (case msgText m of None \<Rightarrow> False
      | Some txt \<Rightarrow> txt \<noteq> [] \<and> list_all (\<lambda>t. sublist (cleanTerm t) (toLowerCase txt)) terms)"

lemma scoreTerms_None: "scoreTerms txt ts sc sn = None \<longleftrightarrow> \<not> list_all (\<lambda>t. sublist (cleanTerm t) (toLowerCase txt)) ts"
  by (induction ts arbitrary: sc sn) (auto simp: indexOf_sublist [symmetric] split: option.splits)

lemma searchMessage_None: "searchMessage ts m = None \<longleftrightarrow> isDeleted m \<or> \<not> matchesQuery ts m"
  by (auto simp: searchMessage_def matchesQuery_def scoreTerms_None split: option.splits)

lemma map_hit_map_filter:
  "map hit (List.map_filter (searchMessage ts) ms) = filter (\<lambda>m. \<not> isDeleted m \<and> matchesQuery ts m) ms"
proof (induction ms)
  case (Cons m ms)
  show ?case
  proof (cases "searchMessage ts m")
    case None
    then show ?thesis using Cons searchMessage_None [of ts m] by (simp add: List.map_filter_simps)
  next
    case (Some r)
    then have "hit r = m" "\<not> isDeleted m \<and> matchesQuery ts m"
      using searchMessage_hit searchMessage_None [of ts m] by auto
    then show ?thesis using Cons Some by (simp add: List.map_filter_simps)
  qed
qed (simp add: List.map_filter_simps)

lemma search_hits:
  assumes "r \<in> set (search now q c s)"
  shows "\<not> expiredAt now (hit r) \<and> \<not> isDeleted (hit r)"
proof -
  define pool where "pool = filter (\<lambda>m. \<not> isDeleted m \<and> \<not> expiredAt now m) (searchPool now c s)"
  have "r \<in> set (List.map_filter (searchMessage (searchTerms q)) pool)"
    using assms by (auto simp: search_def Let_def pool_def dest: in_set_takeD split: if_splits)
  then have "hit r \<in> set (map hit (List.map_filter (searchMessage (searchTerms q)) pool))" by simp
  then show ?thesis unfolding map_hit_map_filter by (simp add: pool_def)
qed

text \<open>
  C31. Whatever the state of the two stores, and with any of them failing: no view of the
  messages returns an expired one, the pinned view and the search return no deleted one, and a
  search returns at most thirty results.
\<close>
theorem views_hide_expired_and_deleted:
  "list_all (\<lambda>m. \<not> expiredAt now m) (getMessagesByChannel now c s)
   \<and> list_all (\<lambda>m. isPinned m \<and> \<not> isDeleted m \<and> \<not> expiredAt now m) (getPinnedMessages now c s)
   \<and> list_all (\<lambda>r. \<not> isDeleted (hit r) \<and> \<not> expiredAt now (hit r)) (search now q c' s)
   \<and> length (search now q c' s) \<le> 30"
proof -
  have "length (search now q c' s) \<le> 30" by (auto simp: search_def Let_def)
  then show ?thesis
    using getMessagesByChannel_unexpired search_hits
    by (fastforce simp: list_all_iff getPinnedMessages_def)
qed

lemma distinct_map_sort_key: "distinct (map f (sort_key g xs)) \<longleftrightarrow> distinct (map f xs)"
proof -
  have "mset (map f (sort_key g xs)) = mset (map f xs)" by simp
  then show ?thesis by (rule mset_eq_imp_distinct_iff)
qed

text \<open>
  After any history of operations on a well-formed database, a channel shows each of its
  unexpired messages exactly once, and nothing else, in the order of creation.
\<close>
theorem channel_view:
  assumes "dbOk s0" and "s = fold dbStep ops s0" and "messages s = Some store" and "\<not> txFails s"
  shows "set (getMessagesByChannel now c s) = {m \<in> set (idbGetAll store). channelId m = c \<and> \<not> expiredAt now m}
    \<and> distinct (map msgId (getMessagesByChannel now c s))
    \<and> sorted (map createdAt (getMessagesByChannel now c s))"
proof -
  have "storeOk store" using dbOk_run [OF assms(1), of ops] assms(2,3) by (simp add: dbOk_def)
  then have "distinct (map msgId (idbGetAll store))" by (rule storeOk_distinct)
  then show ?thesis
    using assms(3,4) by (auto simp: getMessagesByChannel_def distinct_map_sort_key distinct_map_filter)
qed

section \<open>Search\<close>

text \<open>
  A search with at least one term ranks exactly the stored, undeleted and unexpired messages
  whose text contains every term (a trailing star is ignored), each once, by falling score and,
  among equal scores, from the newest to the oldest; it returns the first thirty.
\<close>
theorem search_ranking:
  assumes "searchTerms q \<noteq> []"
  shows "\<exists>ranking. search now q c s = take 30 ranking
    \<and> mset (map hit ranking) =
        mset (filter (\<lambda>m. \<not> isDeleted m \<and> \<not> expiredAt now m \<and> matchesQuery (searchTerms q) m) (searchPool now c s))
    \<and> sorted_wrt (\<lambda>a b. score b < score a \<or> (score a = score b \<and> createdAt (hit b) \<le> createdAt (hit a))) ranking"
proof -
  define pool where "pool = filter (\<lambda>m. \<not> isDeleted m \<and> \<not> expiredAt now m) (searchPool now c s)"
  define rs where "rs = sort_key (\<lambda>r. (- int (score r), - createdAt (hit r))) (List.map_filter (searchMessage (searchTerms q)) pool)"
  have "search now q c s = take 30 rs" using assms by (simp add: search_def Let_def rs_def pool_def)
  moreover have "mset (map hit rs) = mset (map hit (List.map_filter (searchMessage (searchTerms q)) pool))"
    by (simp add: rs_def)
  then have "mset (map hit rs) =
      mset (filter (\<lambda>m. \<not> isDeleted m \<and> \<not> expiredAt now m \<and> matchesQuery (searchTerms q) m) (searchPool now c s))"
    unfolding map_hit_map_filter pool_def filter_filter by (simp add: conj_comms conj_left_commute cong: conj_cong)
  moreover have "sorted_wrt (\<lambda>a b. score b < score a \<or> (score a = score b \<and> createdAt (hit b) \<le> createdAt (hit a))) rs"
  proof -
    have "sorted_wrt (\<lambda>a b. (- int (score a), - createdAt (hit a)) \<le> (- int (score b), - createdAt (hit b))) rs"
      using sorted_sort_key [of "\<lambda>r. (- int (score r), - createdAt (hit r))"]
      unfolding rs_def sorted_map by blast
    then show ?thesis by (rule sorted_wrt_mono_rel [rotated]) (auto simp: less_eq_prod_def)
  qed
  ultimately show ?thesis by blast
qed

section \<open>What the updates write\<close>

text \<open>The messages a localStorage entry of a channel holds.\<close>

definition lsEntry :: "dbState \<Rightarrow> string \<Rightarrow> StoredMessage list option" where
  "lsEntry s c = Option.bind (jsGet (lsMsgs s) (lsKey c)) parseBlob"

lemma lsKey_inject [simp]: "lsKey c = lsKey c' \<longleftrightarrow> c = c'"
  by (simp add: lsKey_def)

lemma lsEntry_onStore [simp]: "lsEntry (onStore f s) c = lsEntry s c"
  by (simp add: lsEntry_def)

lemma parse_not_falsy: "parseBlob b = Some x \<Longrightarrow> \<not> rawFalsy b"
  by (cases b) (simp_all add: rawFalsy_def)

lemma lsEntry_rewriteStorage:
  assumes "lsReadable s" "lsWritable s" "c \<noteq> []"
  shows "lsEntry (rewriteStorage f c s) c' =
    (if c' = c then map_option (\<lambda>ms. case f ms of None \<Rightarrow> ms | Some ms' \<Rightarrow> ms') (lsEntry s c) else lsEntry s c')"
  using assms
  by (auto simp: rewriteStorage_def rewriteKey_def lsEntry_def dest: parse_not_falsy split: option.splits)

lemma updateMatching_map:
  "(case updateMatching g k ms of None \<Rightarrow> ms | Some ms' \<Rightarrow> ms') = map (\<lambda>m. if matches k m then g m else m) ms"
  by (auto simp: updateMatching_def list_ex_iff intro!: map_idI [symmetric])

lemma removeMatching_filter:
  "(case removeMatching k ms of None \<Rightarrow> ms | Some ms' \<Rightarrow> ms') = filter (\<lambda>m. \<not> matches k m) ms"
proof -
  have "(\<lambda>m :: StoredMessage. msgId m \<noteq> k \<and> clientMsgId m \<noteq> k) = (\<lambda>m. \<not> matches k m)"
    by (auto simp: matches_def)
  moreover have "length (filter P ms) = length ms \<Longrightarrow> filter P ms = ms" for P :: "StoredMessage \<Rightarrow> bool"
    by (metis filter_id_conv length_filter_less less_irrefl)
  ultimately show ?thesis by (simp add: removeMatching_def Let_def) metis
qed

definition idbMsg :: "dbState \<Rightarrow> string \<Rightarrow> StoredMessage option" where
  "idbMsg s k = Option.bind (messages s) (\<lambda>store. idbGet store k)"

definition erased :: "StoredMessage \<Rightarrow> bool" where
  "erased m \<longleftrightarrow> isDeleted m \<and> msgText m = None \<and> attachment m = None \<and> replyTo m = None \<and> reactions m = None"

lemma idbMsg_update:
  assumes "dbOk s" "\<not> txFails s" "\<And>m. msgId (g m) = msgId m"
  shows "idbMsg (rewriteStorage f c (onStore (updateRecord g k) s)) k' =
    (if k' = k then map_option g (idbMsg s k) else idbMsg s k')"
  using assms by (cases "messages s") (auto simp: idbMsg_def dbOk_def idbGet_updateRecord)

text \<open>
  C12. Deleting a message for everyone leaves a tombstone: the record stays, marked as deleted, with text, attachment,
  quote and reactions erased, and with the cipher text it carried. In localStorage that is every message of the channel
  with that id or client id. In IndexedDB it is the record with that primary key only: a record that has it as its
  client id, and another primary key, keeps its text. Every other message, of this and of other channels, is untouched.
\<close>
theorem delete_for_everyone:
  assumes "dbOk s" and "\<not> txFails s" and "lsReadable s" and "lsWritable s" and "c \<noteq> []"
    and "s' = markMessageDeleted now k c who Everyone s"
  shows "idbMsg s' k = map_option (tombstone now who) (idbMsg s k)
    \<and> pred_option erased (idbMsg s' k)
    \<and> map_option rawCiphertext (idbMsg s' k) = map_option rawCiphertext (idbMsg s k)
    \<and> lsEntry s' c = map_option (map (\<lambda>m. if matches k m then tombstone now who m else m)) (lsEntry s c)
    \<and> pred_option (list_all (\<lambda>m. matches k m \<longrightarrow> erased m)) (lsEntry s' c)
    \<and> (k' \<noteq> k \<longrightarrow> idbMsg s' k' = idbMsg s k') \<and> (c' \<noteq> c \<longrightarrow> lsEntry s' c' = lsEntry s c')"
proof -
  have i: "idbMsg s' x = (if x = k then map_option (tombstone now who) (idbMsg s k) else idbMsg s x)" for x
    unfolding assms(6) markMessageDeleted_def using assms(1,2)
    by (simp add: idbMsg_update tombstone_def)
  have l: "lsEntry s' x = (if x = c then map_option (map (\<lambda>m. if matches k m then tombstone now who m else m)) (lsEntry s c) else lsEntry s x)" for x
    unfolding assms(6) markMessageDeleted_def using assms(3-5)
    by (simp add: lsEntry_rewriteStorage updateMatching_map)
  have e: "erased (tombstone now who m)" "rawCiphertext (tombstone now who m) = rawCiphertext m" for m :: StoredMessage
    by (simp_all add: erased_def tombstone_def)
  have "matches k (tombstone now who m) \<longleftrightarrow> matches k m" for m :: StoredMessage by (simp add: matches_def tombstone_def)
  then show ?thesis
    using e by (auto simp: i l option.pred_map pred_option_def list_all_iff option.map_comp comp_def)
qed

text \<open>
  Deleting a message for oneself removes it from both stores, under its primary key in
  IndexedDB and under its id or client id in localStorage, and keeps every other message.
\<close>
theorem delete_for_me:
  assumes "dbOk s" and "\<not> txFails s" and "lsReadable s" and "lsWritable s" and "c \<noteq> []"
    and "s' = markMessageDeleted now k c who OnlyMe s"
  shows "idbMsg s' k' = (if k' = k then None else idbMsg s k')
    \<and> lsEntry s' c' = (if c' = c then map_option (filter (\<lambda>m. \<not> matches k m)) (lsEntry s c) else lsEntry s c')"
proof -
  have "idbMsg s' k' = (if k' = k then None else idbMsg s k')"
    unfolding assms(6) markMessageDeleted_def deleteMessage_def using assms(1,2)
    by (cases "messages s") (auto simp: idbMsg_def dbOk_def storeOk_def)
  then show ?thesis
    unfolding assms(6) markMessageDeleted_def deleteMessage_def using assms(3-5)
    by (simp add: lsEntry_rewriteStorage removeMatching_filter)
qed

section \<open>Read your writes\<close>

lemma lsEntry_get:
  "lsReadable s \<Longrightarrow> c \<noteq> [] \<Longrightarrow>
   getLocalStorageMessages now (Some c) s = (case lsEntry s c of None \<Rightarrow> [] | Some ms \<Rightarrow> filter (\<lambda>m. \<not> expiredAt now m) ms)"
  by (auto simp: getLocalStorageMessages_def lsEntry_def split: option.splits)

lemma find_index_mem:
  "m \<in> set (case find (\<lambda>i. P (xs ! i)) [0..<length xs] of Some i \<Rightarrow> xs[i := m] | None \<Rightarrow> xs @ [m])"
  by (auto simp: find_Some_iff set_update_memI split: option.splits)

lemma saveMessage_shown:
  assumes "dbOk s" and "saveMessage now m s = Done s'" and "\<not> txFails s"
    and "messages s = None \<Longrightarrow> lsReadable s \<and> lsWritable s \<and> channelId m \<noteq> []"
    and "\<not> expiredAt later m"
  shows "m \<in> set (getMessagesByChannel later (channelId m) s')"
proof (cases "messages s")
  case (Some store)
  with assms have s': "messages s' = Some (putMessage m store)" "\<not> txFails s'" "wfIdb store"
    by (auto simp: saveMessage_def dbOk_def storeOk_def)
  then have "(msgId m, m) \<in> set (putMessage m store)" by (simp add: putMessage_def set_idbPut)
  then show ?thesis using s' assms(5) by (force simp: getMessagesByChannel_def idbGetAll_def)
next
  case None
  then have ls: "lsReadable s" "lsWritable s" "channelId m \<noteq> []" using assms(4) by auto
  have s': "messages s' = None" "lsReadable s'" "\<exists>ms. lsEntry s' (channelId m) = Some ms \<and> m \<in> set ms"
    using assms(2) None ls find_index_mem
    by (auto simp: saveMessage_def Let_def lsEntry_def)
  then show ?thesis using ls(3) assms(5) by (auto simp: getMessagesByChannel_def lsEntry_get)
qed

text \<open>
  A message that was saved is shown in its channel until it expires, in IndexedDB and in the
  localStorage fallback alike.
\<close>
theorem saved_message_shown:
  assumes "dbOk s" and "saveMessage now m s = Done s'" and "\<not> txFails s"
    and "messages s = None \<Longrightarrow> lsReadable s \<and> lsWritable s \<and> channelId m \<noteq> []"
    and "\<not> expiredAt later m"
  shows "m \<in> set (getMessagesByChannel later (channelId m) s')"
  using assms by (rule saveMessage_shown)

section \<open>Purging\<close>

definition isMsgKey :: "string \<Rightarrow> bool" where
  "isMsgKey k \<longleftrightarrow> startsWith k ''genchat_msgs_''"

definition lsParses :: "dbState \<Rightarrow> bool" where
  "lsParses s \<longleftrightarrow> list_all (\<lambda>(k, b). isMsgKey k \<longrightarrow> parseBlob b \<noteq> None \<or> rawFalsy b) (lsMsgs s)"

definition keyMsgs :: "dbState \<Rightarrow> string \<Rightarrow> StoredMessage set" where
  "keyMsgs s k =
     (case Option.bind (jsGet (lsMsgs s) k) parseBlob of None \<Rightarrow> {} | Some ms \<Rightarrow> if isMsgKey k then set ms else {})"

text \<open>Every message the database holds, in IndexedDB and under the message keys of localStorage.\<close>

definition storedMsgs :: "dbState \<Rightarrow> StoredMessage set" where
  "storedMsgs s =
     (case messages s of None \<Rightarrow> {} | Some store \<Rightarrow> set (idbGetAll store))
     \<union> (\<Union>k \<in> set (map fst (lsMsgs s)). keyMsgs s k)"

lemma set_addPurged: "set (addPurged now ms ids) = set ids \<union> purgeId ` {m \<in> set ms. expiredAt now m}"
  unfolding addPurged_def by (induction ms arbitrary: ids) auto

lemma purgeKeys_ok:
  assumes "lsReadable s" "lsWritable s" "distinct ks"
    and "\<forall>k \<in> set ks. \<forall>b. isMsgKey k \<longrightarrow> jsGet (lsMsgs s) k = Some b \<longrightarrow> parseBlob b \<noteq> None \<or> rawFalsy b"
  shows "keyMsgs (fst (purgeKeys now ks s ids)) k =
      (if k \<in> set ks then {m \<in> keyMsgs s k. \<not> expiredAt now m} else keyMsgs s k)
    \<and> set (map fst (lsMsgs (fst (purgeKeys now ks s ids)))) = set (map fst (lsMsgs s))
    \<and> set (snd (purgeKeys now ks s ids)) = set ids \<union> purgeId ` {m \<in> (\<Union>k \<in> set ks. keyMsgs s k). expiredAt now m}"
  using assms
proof (induction ks arbitrary: s ids k)
  case (Cons a ks)
  show ?case
  proof (cases "isMsgKey a \<and> Option.bind (jsGet (lsMsgs s) a) parseBlob \<noteq> None")
    case False
    then have a: "keyMsgs s a = {}" by (auto simp: keyMsgs_def split: option.splits)
    have "purgeKeys now (a # ks) s ids = purgeKeys now ks s ids"
      using False Cons.prems by (auto simp: isMsgKey_def split: option.splits)
    then show ?thesis using Cons.IH [of s ids k] Cons.prems a by auto
  next
    case True
    then obtain raw ms where raw: "jsGet (lsMsgs s) a = Some raw" "parseBlob raw = Some ms" "isMsgKey a"
      by (auto simp: bind_eq_Some_conv)
    define s' where "s' = (if length (filter (\<lambda>m. \<not> expiredAt now m) ms) = length ms then s
      else s\<lparr>lsMsgs := jsSet a (Blob (filter (\<lambda>m. \<not> expiredAt now m) ms)) (lsMsgs s)\<rparr>)"
    have step: "purgeKeys now (a # ks) s ids = purgeKeys now ks s' (addPurged now ms ids)"
      using raw Cons.prems parse_not_falsy [OF raw(2)] by (simp add: isMsgKey_def s'_def Let_def)
    have all: "{m \<in> set ms. \<not> expiredAt now m} = set ms"
      if "length (filter (\<lambda>m. \<not> expiredAt now m) ms) = length ms"
      using that by (metis filter_id_conv length_filter_less less_irrefl set_filter)
    have km: "keyMsgs s' k = (if k = a then {m \<in> keyMsgs s a. \<not> expiredAt now m} else keyMsgs s k)" for k
      using raw all by (cases "length (filter (\<lambda>m. \<not> expiredAt now m) ms) = length ms") (simp_all add: s'_def keyMsgs_def)
    have a: "keyMsgs s a = set ms" using raw by (simp add: keyMsgs_def)
    have keys: "set (map fst (lsMsgs s')) = set (map fst (lsMsgs s))"
    proof -
      have "a \<in> fst ` set (lsMsgs s)" using raw(1) by (metis domI dom_map_of_conv_image_fst jsGet_def)
      then show ?thesis by (auto simp: s'_def jsSet_def dom_update)
    qed
    have "lsReadable s'" "lsWritable s'" using Cons.prems by (simp_all add: s'_def)
    moreover have "\<forall>k \<in> set ks. \<forall>b. isMsgKey k \<longrightarrow> jsGet (lsMsgs s') k = Some b \<longrightarrow> parseBlob b \<noteq> None \<or> rawFalsy b"
      using Cons.prems by (auto simp: s'_def)
    ultimately have ih: "keyMsgs (fst (purgeKeys now ks s' (addPurged now ms ids))) k =
        (if k \<in> set ks then {m \<in> keyMsgs s' k. \<not> expiredAt now m} else keyMsgs s' k)"
      "set (map fst (lsMsgs (fst (purgeKeys now ks s' (addPurged now ms ids))))) = set (map fst (lsMsgs s'))"
      "set (snd (purgeKeys now ks s' (addPurged now ms ids))) =
        set (addPurged now ms ids) \<union> purgeId ` {m \<in> (\<Union>k \<in> set ks. keyMsgs s' k). expiredAt now m}"
      using Cons.IH [of s' "addPurged now ms ids" k] Cons.prems(3) by auto
    have "(\<Union>k \<in> set ks. keyMsgs s' k) = (\<Union>k \<in> set ks. keyMsgs s k)"
      using Cons.prems(3) by (auto simp: km)
    then show ?thesis unfolding step ih keys using Cons.prems(3) a by (auto simp: km set_addPurged)
  qed
qed simp

text \<open>
  A purge removes exactly the messages whose time has come, from both stores, keeps all the
  others, and reports exactly the removed ones.
\<close>
theorem purge_exact:
  assumes "dbOk s" and "\<not> txFails s" and "lsReadable s" and "lsWritable s" and "lsParses s"
    and "purgeExpiredMessages now s = (s', ids)"
  shows "storedMsgs s' = {m \<in> storedMsgs s. \<not> expiredAt now m}
    \<and> set ids = purgeId ` {m \<in> storedMsgs s. expiredAt now m}"
proof -
  define t where "t = onStore (filter (\<lambda>r. \<not> expiredAt now (snd r))) s"
  define ids0 where "ids0 = (case messages s of
      Some store \<Rightarrow> map purgeId (filter (expiredAt now) (idbGetAll store)) | None \<Rightarrow> [])"
  have run: "purgeKeys now (map fst (lsMsgs t)) t ids0 = (s', ids)"
    using assms(2,6) by (simp add: purgeExpiredMessages_def t_def ids0_def Let_def cong: option.case_cong)
  have km: "keyMsgs t k = keyMsgs s k" for k by (simp add: keyMsgs_def t_def)
  have wf: "wfMap (lsMsgs s)" using assms(1) by (simp add: dbOk_def)
  have "\<forall>k \<in> set (map fst (lsMsgs t)). \<forall>b. isMsgKey k \<longrightarrow> jsGet (lsMsgs t) k = Some b \<longrightarrow> parseBlob b \<noteq> None \<or> rawFalsy b"
    using assms(5) wf by (auto simp: t_def lsParses_def list_all_iff jsGet_mem [symmetric])
  moreover have "lsReadable t" "lsWritable t" "distinct (map fst (lsMsgs t))"
    using assms(3,4) wf by (simp_all add: t_def wfMap_def)
  ultimately have r: "keyMsgs s' k = (if k \<in> set (map fst (lsMsgs t)) then {m \<in> keyMsgs t k. \<not> expiredAt now m} else keyMsgs t k)"
    "set (map fst (lsMsgs s')) = set (map fst (lsMsgs t))"
    "set ids = set ids0 \<union> purgeId ` {m \<in> (\<Union>k \<in> set (map fst (lsMsgs t)). keyMsgs t k). expiredAt now m}" for k
    using purgeKeys_ok [of t "map fst (lsMsgs t)" now ids0] run by auto
  have msgs: "messages s' = messages t"
    using purgeKeys_fields(1) [of now "map fst (lsMsgs t)" t ids0] run by simp
  have "(case messages s' of None \<Rightarrow> {} | Some store \<Rightarrow> set (idbGetAll store)) =
      {m \<in> (case messages s of None \<Rightarrow> {} | Some store \<Rightarrow> set (idbGetAll store)). \<not> expiredAt now m}"
    unfolding msgs t_def using assms(2) by (auto simp: idbGetAll_def split: option.splits)
  moreover have "set ids0 = purgeId ` {m \<in> (case messages s of None \<Rightarrow> {} | Some store \<Rightarrow> set (idbGetAll store)). expiredAt now m}"
    by (auto simp: ids0_def split: option.splits)
  moreover have "lsMsgs t = lsMsgs s" by (simp add: t_def)
  ultimately show ?thesis
    unfolding storedMsgs_def r km by auto
qed

section \<open>Examples\<close>

definition exampleMessage :: "string \<Rightarrow> string \<Rightarrow> int \<Rightarrow> int option \<Rightarrow> StoredMessage" where
  "exampleMessage k txt created expires =
     \<lparr>msgId = k, clientMsgId = ''c'' @ k, channelId = ''general'', senderId = ''alice'', msgText = Some txt,
      attachment = None, status = StSent, timestamp = [], createdAt = created, ephemeralTtlSec = None,
      expiresAt = expires, replyTo = None, reactions = None, isDeleted = False, deletedAt = None,
      deletedBy = None, scopeOfDelete = None, isEdited = False, editedAt = None, isPinned = False,
      pinnedAt = None, pinnedBy = None, rawCiphertext = None, itemEncrypted = False, itemFallback = False,
      securityWarning = None, itemFingerprint = None\<rparr>"

definition exampleDb :: dbState where
  "exampleDb =
     \<lparr>messages = Some [], conversations = [], txFails = False,
      lsMsgs = [(''genchat_msgs_general'', Blob [exampleMessage ''2'' ''old'' 1 (Some 5)])],
      lsConvs = None, lsReadable = True, lsWritable = True\<rparr>"

lemma exampleDb_ok: "dbOk exampleDb" "\<not> txFails exampleDb" "lsReadable exampleDb" "lsWritable exampleDb"
    "lsParses exampleDb"
  by (simp_all add: exampleDb_def dbOk_def storeOk_def wfMap_def lsParses_def)

theorem channel_view_witness:
  "exampleMessage ''1'' ''hi'' 2 None \<in> set (getMessagesByChannel 9 ''general''
      (fold dbStep [(1, SaveMessage (exampleMessage ''1'' ''hi'' 2 None)), (3, SaveMessage (exampleMessage ''0'' ''yo'' 1 (Some 7)))] exampleDb))"
proof -
  let ?ops = "[(1, SaveMessage (exampleMessage ''1'' ''hi'' 2 None)), (3, SaveMessage (exampleMessage ''0'' ''yo'' 1 (Some 7)))]"
  have ids: "msgId (exampleMessage k t c e) = k" "channelId (exampleMessage k t c e) = ''general''" for k t c e
    by (simp_all add: exampleMessage_def)
  have "messages (fold dbStep ?ops exampleDb) =
      Some [(''0'', exampleMessage ''0'' ''yo'' 1 (Some 7)), (''1'', exampleMessage ''1'' ''hi'' 2 None)]"
    "\<not> txFails (fold dbStep ?ops exampleDb)"
    by (simp_all add: settled_def saveMessage_def exampleDb_def putMessage_def ids)
  from channel_view [OF exampleDb_ok(1) refl this, of 9 "''general''"] show ?thesis
    by (simp add: ids idbGetAll_def) (simp add: exampleMessage_def expiredAt_def)
qed

theorem delete_for_everyone_witness:
  "let m = exampleMessage ''1'' ''hi'' 2 None; d = exampleDb\<lparr>messages := Some [(''1'', m)]\<rparr>
   in pred_option erased (idbMsg (markMessageDeleted 4 ''1'' ''general'' ''bob'' Everyone d) ''1'')
     \<and> idbMsg (markMessageDeleted 4 (clientMsgId m) ''general'' ''bob'' Everyone d) ''1'' = Some m
     \<and> pred_option (list_all (\<lambda>m. matches ''c2'' m \<longrightarrow> erased m))
         (lsEntry (markMessageDeleted 4 ''c2'' ''general'' ''bob'' Everyone d) ''general'')"
proof -
  let ?m = "exampleMessage ''1'' ''hi'' 2 None"
  let ?d = "exampleDb\<lparr>messages := Some [(''1'', ?m)]\<rparr>"
  have d: "dbOk ?d" "\<not> txFails ?d" "lsReadable ?d" "lsWritable ?d" "''general'' \<noteq> []"
    by (simp_all add: exampleDb_def dbOk_def storeOk_def wfIdb_def wfMap_def exampleMessage_def)
  have "idbMsg ?d ''1'' = Some ?m" "clientMsgId ?m \<noteq> ''1''" by (simp_all add: idbMsg_def idbGet_def) (simp add: exampleMessage_def)
  with delete_for_everyone [OF d refl, of 4 "''1''" "''bob''"] delete_for_everyone [OF d refl, of 4 "clientMsgId ?m" "''bob''" "''1''"]
    delete_for_everyone [OF d refl, of 4 "''c2''" "''bob''"]
  show ?thesis unfolding Let_def by metis
qed

theorem delete_for_me_witness:
  "lsEntry (markMessageDeleted 4 ''c2'' ''general'' ''bob'' OnlyMe exampleDb) ''general'' = Some []"
proof -
  have "''general'' \<noteq> []" by simp
  from delete_for_me [OF exampleDb_ok(1-4) this refl, of 4 "''c2''" "''bob''" "''x''" "''general''"]
  have "lsEntry (markMessageDeleted 4 ''c2'' ''general'' ''bob'' OnlyMe exampleDb) ''general''
      = map_option (filter (\<lambda>m. \<not> matches ''c2'' m)) (lsEntry exampleDb ''general'')" by simp
  also have "lsEntry exampleDb ''general'' = Some [exampleMessage ''2'' ''old'' 1 (Some 5)]"
    by (simp add: exampleDb_def lsEntry_def lsKey_def jsGet_def)
  finally show ?thesis by (simp add: matches_def exampleMessage_def)
qed

theorem saved_message_shown_witness:
  "exampleMessage ''1'' ''hi'' 2 (Some 50) \<in> set (getMessagesByChannel 9 ''general''
     (settled exampleDb (saveMessage 3 (exampleMessage ''1'' ''hi'' 2 (Some 50)) exampleDb)))"
proof -
  let ?m = "exampleMessage ''1'' ''hi'' 2 (Some 50)"
  have c: "channelId ?m = ''general''" "\<not> expiredAt 9 ?m" by (simp_all add: exampleMessage_def expiredAt_def)
  obtain s' where s': "saveMessage 3 ?m exampleDb = Done s'"
    by (simp add: saveMessage_def exampleDb_def)
  show ?thesis
    using saved_message_shown [OF exampleDb_ok(1) s' exampleDb_ok(2), of 9] c exampleDb_ok(3,4)
    by (simp add: s' settled_def)
qed

theorem purge_exact_witness:
  "exampleMessage ''2'' ''old'' 1 (Some 5) \<notin> storedMsgs (fst (purgeExpiredMessages 9 exampleDb))
    \<and> ''2'' \<in> set (snd (purgeExpiredMessages 9 exampleDb))"
proof -
  let ?m = "exampleMessage ''2'' ''old'' 1 (Some 5)"
  have m: "expiredAt 9 ?m" "purgeId ?m = ''2''" by (simp_all add: exampleMessage_def expiredAt_def purgeId_def)
  have mem: "?m \<in> storedMsgs exampleDb"
    by (simp add: storedMsgs_def keyMsgs_def exampleDb_def jsGet_def isMsgKey_def startsWith_def)
  have p: "storedMsgs (fst (purgeExpiredMessages 9 exampleDb)) = {m \<in> storedMsgs exampleDb. \<not> expiredAt 9 m}"
    "set (snd (purgeExpiredMessages 9 exampleDb)) = purgeId ` {m \<in> storedMsgs exampleDb. expiredAt 9 m}"
    using purge_exact [OF exampleDb_ok prod.collapse [symmetric], of 9] by blast+
  have "purgeId ?m \<in> set (snd (purgeExpiredMessages 9 exampleDb))" unfolding p using mem m(1) by blast
  then show ?thesis unfolding p(1) using m by simp
qed

theorem search_ranking_witness:
  "\<exists>ranking. search 3 ''ol'' (Some ''general'') (exampleDb\<lparr>messages := None\<rparr>) = take 30 ranking
    \<and> mset (map hit ranking) = {#exampleMessage ''2'' ''old'' 1 (Some 5)#}"
proof -
  let ?m = "exampleMessage ''2'' ''old'' 1 (Some 5)"
  have terms: "searchTerms ''ol'' = [''ol'']"
    by (simp add: searchTerms_def trim_def isSpace_def toLowerCase_def lowerChar_def splitSpaces.simps [of "''ol''"])
  have "sublist (cleanTerm ''ol'') (toLowerCase ''old'')"
    by (simp add: cleanTerm_def endsWith_def toLowerCase_def lowerChar_def sublist_code)
  then have "matchesQuery [''ol''] ?m" by (simp add: matchesQuery_def exampleMessage_def)
  moreover have "\<not> isDeleted ?m" "\<not> expiredAt 3 ?m" by (simp_all add: exampleMessage_def expiredAt_def)
  moreover have "searchPool 3 (Some ''general'') (exampleDb\<lparr>messages := None\<rparr>) = [?m]"
    using \<open>\<not> expiredAt 3 ?m\<close>
    by (simp add: exampleDb_def searchPool_def getLocalStorageMessages_def lsKey_def jsGet_def)
  ultimately show ?thesis
    using search_ranking [of "''ol''" 3 "Some ''general''" "exampleDb\<lparr>messages := None\<rparr>"] terms by simp blast
qed

end
