(* ===== verification/Crypto_Api.thy ===== *)
theory Crypto_Api
  imports Codec
begin

text \<open>
  The cryptographic functions the client calls and does not implement: the Web Crypto API and the
  compiled cryptography module. They are parameters of the operations; this theory names their
  types and the documented laws that some of the properties rely on. A key is the byte string it
  was imported from, random bytes are arguments of the operation that draws them.
\<close>

type_synonym key = bytes

text \<open>AES-GCM: key, initialisation vector, additional data, and the text.\<close>

record aead =
  seal :: "key \<Rightarrow> bytes \<Rightarrow> bytes \<Rightarrow> bytes \<Rightarrow> bytes"
  unseal :: "key \<Rightarrow> bytes \<Rightarrow> bytes \<Rightarrow> bytes \<Rightarrow> bytes option"

text \<open>
  Decryption inverts encryption, and a text is accepted only if it is the encryption of the
  result under the same key, vector and additional data.
\<close>

definition aeadCorrect :: "aead \<Rightarrow> bool" where
  "aeadCorrect a \<longleftrightarrow> (\<forall>k iv ad p. unseal a k iv ad (seal a k iv ad p) = Some p)"

definition aeadAuthentic :: "aead \<Rightarrow> bool" where
  "aeadAuthentic a \<longleftrightarrow> (\<forall>k iv ad c p. unseal a k iv ad c = Some p \<longrightarrow> c = seal a k iv ad p)"

lemma unseal_seal [simp]: "aeadCorrect a \<Longrightarrow> unseal a k iv ad (seal a k iv ad p) = Some p"
  by (simp add: aeadCorrect_def)

text \<open>A ciphertext carries an authentication tag, so it is not empty.\<close>

definition aeadTagged :: "aead \<Rightarrow> bool" where
  "aeadTagged a \<longleftrightarrow> (\<forall>k iv ad p. iv \<noteq> [] \<longrightarrow> seal a k iv ad p \<noteq> [])"

text \<open>A concrete function that satisfies the laws: a tag of the key, the vector and the data.\<close>

definition tagAead :: aead where
  "tagAead =
     \<lparr>seal = (\<lambda>k iv ad p. k @ iv @ ad @ p),
      unseal = (\<lambda>k iv ad c. if take (length (k @ iv @ ad)) c = k @ iv @ ad then Some (drop (length (k @ iv @ ad)) c) else None)\<rparr>"

lemma tagAead_tagged: "aeadTagged tagAead"
  by (simp add: aeadTagged_def tagAead_def)

lemma tagAead_ok: "aeadCorrect tagAead" "aeadAuthentic tagAead"
  by (auto simp: aeadCorrect_def aeadAuthentic_def tagAead_def split: if_splits)
    (metis append.assoc append_take_drop_id)

end
