(* ===== verification/Local_Cache.thy ===== *)
theory Local_Cache
  imports Local_Store Crypto_Api
begin

text \<open>
  \<open>LocalEncryptedCache\<close> of \<open>packages/client-web/src/lib/local-cache.ts\<close>: the key kept in its own
  IndexedDB database, the encryption of message texts before they reach the offline store, the
  decryption on load, and the last-read sequence number of each channel.
\<close>

section \<open>State\<close>

record cacheState =
  cryptoKey :: "key option"
  keyRecord :: "key option"
  keyDbOpens :: bool
  keyPutFails :: bool
  cacheDb :: dbState
  lastSeqs :: "string jsmap"
  seqReadable :: bool
  seqWritable :: bool

definition getStoredCryptoKey :: "cacheState \<Rightarrow> key option" where
  "getStoredCryptoKey s = (if keyDbOpens s then keyRecord s else None)"

text \<open>
  A database that does not open is only logged; a write that fails rejects the promise, which
  reaches the caller.
\<close>

definition persistCryptoKey :: "key \<Rightarrow> cacheState \<Rightarrow> cacheState outcome" where
  "persistCryptoKey k s =
     (if \<not> keyDbOpens s then Done s
      else if keyPutFails s then Rejected
      else Done (s\<lparr>keyRecord := Some k\<rparr>))"

definition getOrCreateKey :: "key \<Rightarrow> cacheState \<Rightarrow> (key \<times> cacheState) outcome" where
  "getOrCreateKey generated s =
     (case cryptoKey s of
        Some k \<Rightarrow> Done (k, s)
      | None \<Rightarrow>
          (case getStoredCryptoKey s of
             Some k \<Rightarrow> Done (k, s\<lparr>cryptoKey := Some k\<rparr>)
           | None \<Rightarrow>
               (case persistCryptoKey generated s of
                  Rejected \<Rightarrow> Rejected
                | Done s' \<Rightarrow> Done (generated, s'\<lparr>cryptoKey := Some generated\<rparr>))))"

section \<open>Texts\<close>

definition encryptText ::
  "aead \<Rightarrow> key \<Rightarrow> bytes \<Rightarrow> string \<Rightarrow> cacheState \<Rightarrow> ((string \<times> string) \<times> cacheState) outcome" where
  "encryptText a generated iv plaintext s =
     (case getOrCreateKey generated s of
        Rejected \<Rightarrow> Rejected
      | Done (k, s') \<Rightarrow>
          Done ((btoa (bytesToStr (seal a k iv [] (textEncode plaintext))), btoa (bytesToStr iv)), s'))"

text \<open>Every failure of the decryption gives back the cipher text.\<close>

definition decryptText ::
  "aead \<Rightarrow> key \<Rightarrow> string \<Rightarrow> string \<Rightarrow> cacheState \<Rightarrow> string \<times> cacheState" where
  "decryptText a generated ciphertextB64 ivB64 s =
     (case getOrCreateKey generated s of
        Rejected \<Rightarrow> (ciphertextB64, s)
      | Done (k, s') \<Rightarrow>
          (case (atob ciphertextB64, atob ivB64) of
             (Some cBin, Some ivBin) \<Rightarrow>
               (case Option.bind (unseal a k (strToBytes ivBin) [] (strToBytes cBin)) textDecode of
                  Some plain \<Rightarrow> (plain, s')
                | None \<Rightarrow> (ciphertextB64, s'))
           | _ \<Rightarrow> (ciphertextB64, s')))"

definition cacheSaveMessage ::
  "aead \<Rightarrow> int \<Rightarrow> key \<Rightarrow> bytes \<Rightarrow> StoredMessage \<Rightarrow> cacheState \<Rightarrow> cacheState outcome" where
  "cacheSaveMessage a now generated iv m s =
     (let (encryptedText, s1) =
            (case msgText m of
               None \<Rightarrow> (None, s)
             | Some t \<Rightarrow>
                 if t = [] then (Some t, s)
                 else case encryptText a generated iv t s of
                        Done ((c, v), s') \<Rightarrow> (Some (''ENC_GCM:'' @ v @ '':'' @ c), s')
                      | Rejected \<Rightarrow> (Some t, s))
      in case saveMessage now (m\<lparr>msgText := encryptedText\<rparr>) (cacheDb s1) of
           Done db \<Rightarrow> Done (s1\<lparr>cacheDb := db\<rparr>)
         | Rejected \<Rightarrow> Rejected)"

definition loadMessage :: "aead \<Rightarrow> key \<Rightarrow> StoredMessage \<Rightarrow> cacheState \<Rightarrow> StoredMessage \<times> cacheState" where
  "loadMessage a generated m s =
     (case msgText m of
        None \<Rightarrow> (m, s)
      | Some t \<Rightarrow>
          if startsWith t ''ENC_GCM:'' \<and> length (splitOn CHR '':'' t) = 3
          then case decryptText a generated (splitOn CHR '':'' t ! 2) (splitOn CHR '':'' t ! 1) s of
                 (plain, s') \<Rightarrow> (m\<lparr>msgText := Some plain\<rparr>, s')
          else (m, s))"

fun loadEach :: "aead \<Rightarrow> key \<Rightarrow> StoredMessage list \<Rightarrow> cacheState \<Rightarrow> StoredMessage list \<times> cacheState" where
  "loadEach a generated [] s = ([], s)"
| "loadEach a generated (m # ms) s =
     (case loadMessage a generated m s of
        (m', s') \<Rightarrow> (case loadEach a generated ms s' of (ms', s'') \<Rightarrow> (m' # ms', s'')))"

definition loadMessages :: "aead \<Rightarrow> int \<Rightarrow> key \<Rightarrow> string \<Rightarrow> cacheState \<Rightarrow> StoredMessage list \<times> cacheState" where
  "loadMessages a now generated channel s =
     loadEach a generated (getMessagesByChannel now channel (cacheDb s)) s"

section \<open>Sequence numbers and delegated operations\<close>

definition seqKey :: "string \<Rightarrow> string" where
  "seqKey channel = ''genchat_last_seq_'' @ channel"

text \<open>\<open>parseInt(val, 10)\<close>: leading white space, an optional sign, then digits; \<^const>\<open>None\<close> is NaN.\<close>

definition parseInt10 :: "string \<Rightarrow> int option" where
  "parseInt10 s =
     (let t = dropWhile isSpace s;
          (neg, u) = (case t of c # cs \<Rightarrow> if c = CHR ''-'' then (True, cs) else if c = CHR ''+'' then (False, cs) else (False, t)
                      | [] \<Rightarrow> (False, t));
          ds = takeWhile isDigit u
      in if ds = [] then None else Some (if neg then - int (digitsVal ds) else int (digitsVal ds)))"

definition getLastReadSeq :: "string \<Rightarrow> cacheState \<Rightarrow> int option" where
  "getLastReadSeq channel s =
     (if \<not> seqReadable s then Some 0
      else case jsGet (lastSeqs s) (seqKey channel) of
             None \<Rightarrow> Some 0
           | Some val \<Rightarrow> if val = [] then Some 0 else parseInt10 val)"

text \<open>A comparison with NaN is false.\<close>

definition setLastReadSeq :: "string \<Rightarrow> int \<Rightarrow> cacheState \<Rightarrow> cacheState" where
  "setLastReadSeq channel seq s =
     (case getLastReadSeq channel s of
        None \<Rightarrow> s
      | Some current \<Rightarrow>
          if seq > current \<and> seqWritable s
          then s\<lparr>lastSeqs := jsSet (seqKey channel) (numString seq) (lastSeqs s)\<rparr> else s)"

definition cachePurgeExpired :: "int \<Rightarrow> cacheState \<Rightarrow> cacheState \<times> string list" where
  "cachePurgeExpired now s =
     (case purgeExpiredMessages now (cacheDb s) of (db, ids) \<Rightarrow> (s\<lparr>cacheDb := db\<rparr>, ids))"

definition cacheDeleteMessage :: "string \<Rightarrow> string \<Rightarrow> cacheState \<Rightarrow> cacheState" where
  "cacheDeleteMessage k channel s = s\<lparr>cacheDb := deleteMessage k channel (cacheDb s)\<rparr>"

definition cacheUpdateText :: "string \<Rightarrow> string \<Rightarrow> string \<Rightarrow> int \<Rightarrow> cacheState \<Rightarrow> cacheState" where
  "cacheUpdateText k channel newText at s = s\<lparr>cacheDb := updateMessageText k channel newText at (cacheDb s)\<rparr>"

definition cacheUpdatePinned ::
  "int \<Rightarrow> string \<Rightarrow> string \<Rightarrow> bool \<Rightarrow> string option \<Rightarrow> int option \<Rightarrow> cacheState \<Rightarrow> cacheState" where
  "cacheUpdatePinned now k channel on who at s =
     s\<lparr>cacheDb := updateMessagePinned now k channel on who at (cacheDb s)\<rparr>"

definition cacheGetPinned :: "int \<Rightarrow> string \<Rightarrow> cacheState \<Rightarrow> StoredMessage list" where
  "cacheGetPinned now channel s = getPinnedMessages now channel (cacheDb s)"

section \<open>Numbers\<close>

lemma parseInt10_numString: "parseInt10 (numString n) = Some n"
proof -
  have dig: "\<forall>c \<in> set (decimal k). isDigit c" for k
    using set_toString_10 [of k] unfolding isDigit_def by blast
  have ne: "decimal k \<noteq> []" for k by (subst toString.simps) simp
  have tw: "takeWhile isDigit (decimal k) = decimal k" for k using dig by (simp add: takeWhile_eq_all_conv)
  have sp: "\<not> isSpace c \<and> c \<noteq> CHR ''-'' \<and> c \<noteq> CHR ''+''" if "isDigit c" for c
    using that by (auto simp: isDigit_def isSpace_def)
  have hd: "\<exists>c cs. decimal k = c # cs \<and> isDigit c" for k using ne [of k] dig [of k] by (cases "decimal k") auto
  show ?thesis
  proof (cases "n < 0")
    case True
    then show ?thesis
      by (simp add: parseInt10_def numString_def isSpace_def tw ne digitsVal_decimal Let_def)
  next
    case False
    define d where "d = decimal (nat n)"
    obtain c cs where c: "d = c # cs" "isDigit c" unfolding d_def using hd by blast
    have u: "(case d of c # cs \<Rightarrow> if c = CHR ''-'' then (True, cs) else if c = CHR ''+'' then (False, cs) else (False, d)
        | [] \<Rightarrow> (False, d)) = (False, d)" "dropWhile isSpace d = d"
      using c sp [OF c(2)] by simp_all
    have "takeWhile isDigit d = d" "d \<noteq> []" "digitsVal d = nat n"
      unfolding d_def by (rule tw ne digitsVal_decimal)+
    then show ?thesis using False by (simp only: parseInt10_def numString_def Let_def u prod.case if_False d_def [symmetric]) simp
  qed
qed

text \<open>
  The last-read sequence number of a channel never decreases: after any sequence of updates it
  is the largest value seen, and no other channel is affected.
\<close>
theorem last_read_seq_max:
  assumes "seqReadable s" and "seqWritable s" and "getLastReadSeq c s = Some v"
  shows "getLastReadSeq c (fold (setLastReadSeq c) seqs s) = Some (foldl max v seqs)
    \<and> (c' \<noteq> c \<longrightarrow> getLastReadSeq c' (fold (setLastReadSeq c) seqs s) = getLastReadSeq c' s)"
  using assms
proof (induction seqs arbitrary: s v)
  case (Cons n ns)
  have ne: "numString n \<noteq> []" by (auto simp: numString_def toString.simps [of 10 "nat n"])
  have "getLastReadSeq c (setLastReadSeq c n s) = Some (max v n)"
    using Cons.prems ne by (auto simp: setLastReadSeq_def getLastReadSeq_def [of _ "_\<lparr>lastSeqs := _\<rparr>"] parseInt10_numString max_def)
  moreover have "seqReadable (setLastReadSeq c n s)" "seqWritable (setLastReadSeq c n s)"
    using Cons.prems by (auto simp: setLastReadSeq_def)
  moreover have "c' \<noteq> c \<Longrightarrow> getLastReadSeq c' (setLastReadSeq c n s) = getLastReadSeq c' s"
    using Cons.prems by (auto simp: setLastReadSeq_def getLastReadSeq_def seqKey_def split: option.splits)
  ultimately show ?case using Cons.IH [of "setLastReadSeq c n s" "max v n"] by simp
qed simp

section \<open>Encryption at rest\<close>

lemma getOrCreateKey_cached:
  "getOrCreateKey g s = Done (k, s') \<Longrightarrow> cryptoKey s' = Some k \<and> cacheDb s' = cacheDb s
    \<and> seqReadable s' = seqReadable s \<and> keyDbOpens s' = keyDbOpens s"
  by (auto simp: getOrCreateKey_def persistCryptoKey_def split: option.splits outcome.splits if_splits)

text \<open>The text form of an encrypted message and its parts.\<close>

definition encodedText :: "aead \<Rightarrow> key \<Rightarrow> bytes \<Rightarrow> string \<Rightarrow> string" where
  "encodedText a k iv t =
     ''ENC_GCM:'' @ btoa (bytesToStr iv) @ '':'' @ btoa (bytesToStr (seal a k iv [] (textEncode t)))"

lemma split_encodedText:
  "splitOn CHR '':'' (encodedText a k iv t) =
     [''ENC_GCM'', btoa (bytesToStr iv), btoa (bytesToStr (seal a k iv [] (textEncode t)))]"
proof -
  have "CHR '':'' \<notin> set ''ENC_GCM''" by simp
  from splitOn_append_sep [OF this] splitOn_append_sep [OF no_colon_btoa] splitOn_single [OF no_colon_btoa]
  show ?thesis by (simp add: encodedText_def)
qed

definition currentKey :: "cacheState \<Rightarrow> key option" where
  "currentKey s = (case cryptoKey s of Some k \<Rightarrow> Some k | None \<Rightarrow> getStoredCryptoKey s)"

lemma getOrCreateKey_current:
  "currentKey s = Some k \<Longrightarrow> \<exists>s'. getOrCreateKey g s = Done (k, s') \<and> currentKey s' = Some k"
  by (auto simp: currentKey_def getOrCreateKey_def split: option.splits)

text \<open>What loading makes of a stored text under a fixed key.\<close>

definition openText :: "aead \<Rightarrow> key \<Rightarrow> string \<Rightarrow> string" where
  "openText a k t =
     (let parts = splitOn CHR '':'' t
      in if startsWith t ''ENC_GCM:'' \<and> length parts = 3
         then case (atob (parts ! 2), atob (parts ! 1)) of
                (Some c, Some iv) \<Rightarrow>
                  (case Option.bind (unseal a k (strToBytes iv) [] (strToBytes c)) textDecode of
                     Some plain \<Rightarrow> plain | None \<Rightarrow> parts ! 2)
              | _ \<Rightarrow> parts ! 2
         else t)"

lemma loadMessage_open:
  assumes "currentKey s = Some k"
  shows "fst (loadMessage a g m s) = m\<lparr>msgText := map_option (openText a k) (msgText m)\<rparr>
    \<and> currentKey (snd (loadMessage a g m s)) = Some k"
proof -
  obtain s' where "getOrCreateKey g s = Done (k, s')" "currentKey s' = Some k"
    using getOrCreateKey_current [OF assms] by blast
  then show ?thesis
    using assms by (auto simp: loadMessage_def decryptText_def openText_def Let_def split: option.splits)
qed

lemma loadEach_open:
  "currentKey s = Some k \<Longrightarrow>
   fst (loadEach a g ms s) = map (\<lambda>m. m\<lparr>msgText := map_option (openText a k) (msgText m)\<rparr>) ms"
proof (induction ms arbitrary: s)
  case (Cons m ms)
  obtain m' s' ms' s'' where r: "loadMessage a g m s = (m', s')" "loadEach a g ms s' = (ms', s'')"
    by (meson surj_pair)
  then show ?case using loadMessage_open [OF Cons.prems, of a g m] Cons.IH [of s'] by simp
qed simp

lemma openText_encodedText: "aeadCorrect a \<Longrightarrow> openText a k (encodedText a k iv t) = t"
proof -
  have "startsWith (encodedText a k iv t) ''ENC_GCM:''" by (simp add: encodedText_def startsWith_def)
  moreover assume "aeadCorrect a"
  ultimately show ?thesis by (simp add: openText_def split_encodedText)
qed

lemma cacheSave_encrypted:
  assumes "getOrCreateKey g s = Done (k, s1)" "msgText m = Some t" "t \<noteq> []"
  shows "cacheSaveMessage a now g iv m s =
    (case saveMessage now (m\<lparr>msgText := Some (encodedText a k iv t)\<rparr>) (cacheDb s) of
       Done db \<Rightarrow> Done (s1\<lparr>cacheDb := db\<rparr>) | Rejected \<Rightarrow> Rejected)"
  using assms getOrCreateKey_cached [OF assms(1)]
  by (simp add: cacheSaveMessage_def encryptText_def encodedText_def)

text \<open>
  C37. A text that is saved while IndexedDB works: with a key, the text in the record is the encryption, and loading the
  channel later, in the same session or after a reload that finds the same key, shows the message with its original
  text. When no key can be had, the text is stored as it is.
\<close>
theorem cache_roundtrip:
  assumes "aeadCorrect a" and "dbOk (cacheDb s)" and "messages (cacheDb s) = Some store" and "\<not> txFails (cacheDb s)"
    and "msgText m = Some t" and "t \<noteq> []"
    and "cacheSaveMessage a now g iv m s = Done s'"
    and "cacheDb s'' = cacheDb s'" and "currentKey s'' = currentKey s'" and "\<not> expiredAt later m"
  shows "idbMsg (cacheDb s') (msgId m)
      = Some (m\<lparr>msgText := Some (case getOrCreateKey g s of Done (k, s1) \<Rightarrow> encodedText a k iv t | Rejected \<Rightarrow> t)\<rparr>)
    \<and> (getOrCreateKey g s \<noteq> Rejected \<longrightarrow> m \<in> set (fst (loadMessages a later g' (channelId m) s'')))"
proof (cases "getOrCreateKey g s")
  case Rejected
  then have e: "encryptText a g iv t s = Rejected" by (simp add: encryptText_def)
  have m: "m\<lparr>msgText := Some t\<rparr> = m" using assms(5) by simp
  obtain db where db: "saveMessage now m (cacheDb s) = Done db" "s' = s\<lparr>cacheDb := db\<rparr>"
    using assms(5-7) by (auto simp: cacheSaveMessage_def e m split: outcome.splits)
  then show ?thesis
    using assms(2-4) Rejected m by (auto simp: saveMessage_def idbMsg_def putMessage_def dbOk_def storeOk_def)
next
  case (Done ks)
  obtain k s1 where key1: "getOrCreateKey g s = Done (k, s1)" using Done by (cases ks) auto
  let ?e = "m\<lparr>msgText := Some (encodedText a k iv t)\<rparr>"
  obtain db where db: "saveMessage now ?e (cacheDb s) = Done db" "s' = s1\<lparr>cacheDb := db\<rparr>"
    using assms(7) unfolding cacheSave_encrypted [OF key1 assms(5,6)] by (auto split: outcome.splits)
  have key: "currentKey s'' = Some k"
    using getOrCreateKey_cached [OF key1] unfolding assms(9) db(2) by (simp add: currentKey_def)
  have "storeOk store" using assms(2,3) by (simp add: dbOk_def)
  then have i: "idbMsg (cacheDb s') (msgId m) = Some ?e"
    using db assms(3,4) by (auto simp: saveMessage_def idbMsg_def putMessage_def storeOk_def)
  have "?e \<in> set (getMessagesByChannel later (channelId ?e) db)"
    using assms(2-4,10) db(1) by (intro saveMessage_shown [of "cacheDb s" now]) (auto simp: expiredAt_def)
  then have "?e\<lparr>msgText := map_option (openText a k) (msgText ?e)\<rparr> \<in> set (fst (loadMessages a later g' (channelId m) s''))"
    unfolding loadMessages_def loadEach_open [OF key] assms(8) db(2) set_map by (intro imageI) simp
  moreover have "?e\<lparr>msgText := map_option (openText a k) (msgText ?e)\<rparr> = m"
    using assms(1,5) by (simp add: openText_encodedText)
  ultimately show ?thesis using i key1 by simp
qed

text \<open>
  An edit bypasses the encryption: the record of the edited message holds the new text as it
  was typed, and loading shows it as it is stored.
\<close>
theorem edit_stored_in_clear:
  assumes "dbOk (cacheDb s)" and "\<not> txFails (cacheDb s)" and "idbMsg (cacheDb s) k = Some m"
  shows "map_option msgText (idbMsg (cacheDb (cacheUpdateText k c newText at s)) k) = Some (Some newText)"
  unfolding cacheUpdateText_def updateMessageText_def using assms
  by (simp add: idbMsg_update edited_def)

section \<open>Examples\<close>

definition exampleCache :: cacheState where
  "exampleCache =
     \<lparr>cryptoKey = None, keyRecord = Some [7], keyDbOpens = True, keyPutFails = False, cacheDb = exampleDb,
      lastSeqs = [], seqReadable = True, seqWritable = True\<rparr>"

theorem last_read_seq_max_witness:
  "getLastReadSeq ''c'' (fold (setLastReadSeq ''c'') [4, 9, 2] exampleCache) = Some 9"
  using last_read_seq_max [of exampleCache "''c''" 0 "[4, 9, 2]"]
  by (simp add: exampleCache_def getLastReadSeq_def)

theorem cache_roundtrip_witness:
  "\<exists>s'. cacheSaveMessage tagAead 1 [5] [1] (exampleMessage ''1'' ''hi'' 2 None) exampleCache = Done s'
     \<and> exampleMessage ''1'' ''hi'' 2 None \<in> set (fst (loadMessages tagAead 9 [6] ''general'' (s'\<lparr>cryptoKey := None\<rparr>)))"
proof -
  let ?m = "exampleMessage ''1'' ''hi'' 2 None"
  have key: "getOrCreateKey [5] exampleCache = Done ([7], exampleCache\<lparr>cryptoKey := Some [7]\<rparr>)"
    by (simp add: getOrCreateKey_def getStoredCryptoKey_def exampleCache_def)
  have m: "msgText ?m = Some ''hi''" "channelId ?m = ''general''" "\<not> expiredAt 9 ?m"
    by (simp_all add: exampleMessage_def expiredAt_def)
  have db: "messages (cacheDb exampleCache) = Some []" "dbOk (cacheDb exampleCache)" "\<not> txFails (cacheDb exampleCache)"
    using exampleDb_ok by (simp_all add: exampleCache_def) (simp add: exampleDb_def)
  have "\<exists>db. cacheSaveMessage tagAead 1 [5] [1] ?m exampleCache = Done (exampleCache\<lparr>cryptoKey := Some [7], cacheDb := db\<rparr>)"
    using cacheSave_encrypted [OF key m(1), of tagAead 1 "[1]"] db by (simp add: saveMessage_def) blast
  then obtain db' where s': "cacheSaveMessage tagAead 1 [5] [1] ?m exampleCache = Done (exampleCache\<lparr>cryptoKey := Some [7], cacheDb := db'\<rparr>)"
    by blast
  then show ?thesis
    using cache_roundtrip [OF tagAead_ok(1) db(2,1,3) m(1) _ s', of "exampleCache\<lparr>cryptoKey := None, cacheDb := db'\<rparr>" 9 "[6]"] m key
    by (simp add: currentKey_def getStoredCryptoKey_def exampleCache_def)
qed

theorem edit_stored_in_clear_witness:
  "map_option msgText (idbMsg (cacheDb (cacheUpdateText ''1'' ''general'' ''secret'' 3
     (exampleCache\<lparr>cacheDb := exampleDb\<lparr>messages := Some [(''1'', exampleMessage ''1'' ''hi'' 2 None)]\<rparr>\<rparr>))) ''1'')
   = Some (Some ''secret'')"
  by (rule edit_stored_in_clear [where m = "exampleMessage ''1'' ''hi'' 2 None"])
    (simp_all add: exampleDb_def dbOk_def storeOk_def wfIdb_def wfMap_def idbMsg_def idbGet_def exampleMessage_def)

end
