(* ===== verification/Mls_Group.thy ===== *)
theory Mls_Group
  imports Crypto_Api Kv_Store
begin

text \<open>
  \<open>MlsGroupManager\<close> of \<open>packages/client-web/src/lib/mls-group-manager.ts\<close>: key packages, group
  creation with encrypted welcomes, joining, epoch transitions, the commits that carry them to the
  other members, the application keys and the local state with its cache. The Web Crypto functions
  and the answers of the server are parameters; a base64 JSON payload is a \<^typ>\<open>'a blob\<close>, which
  is \<^const>\<open>Garbage\<close> when it does not decode.
\<close>

section \<open>Data\<close>

record MlsKeyPackageData =
  kpUserId :: string
  kpDeviceId :: string
  kpPublicKeyHex :: string
  kpSignatureHex :: string
  kpTimestamp :: int

record leaf =
  leafIndex :: int
  leafUserId :: string
  leafPublicKeyHex :: string

record MlsWelcomeEnvelope =
  wGroupId :: string
  wEpoch :: int
  wCreatorId :: string
  wEphemeralPublicKeyHex :: string
  wEncryptedEpochSecretB64 :: string
  wIvB64 :: string
  wRatchetTree :: "leaf list"

datatype commitAction = Add | Remove | Rekey

record MlsCommitEnvelope =
  cGroupId :: string
  cEpoch :: int
  cCommitterId :: string
  cAction :: commitAction
  cTargetUserId :: "string option"
  cAddedMember :: "leaf option"
  cCommitHashHex :: string
  cTimestamp :: int

record MlsEncryptedGroupMessage =
  eProtocol :: string
  eGroupId :: string
  eEpoch :: int
  eSenderId :: string
  eIvHex :: string
  eCiphertextBase64 :: string

record MlsLocalGroupState =
  groupId :: string
  epoch :: int
  myLeafIndex :: int
  epochSecretHex :: string
  members :: "leaf list"
  updatedAt :: int

record mlsState =
  groupCache :: "MlsLocalGroupState jsmap"
  appKeyCache :: "key jsmap"
  groupStore :: "MlsLocalGroupState blob jsmap"
  storeReadable :: bool
  storeWritable :: bool
  session :: "string jsmap"
  sessionReadable :: bool
  sessionWritable :: bool

text \<open>The Web Crypto operations: HKDF-SHA-256, SHA-256, ECDH on imported keys, AES-GCM.\<close>

record mlsCrypto =
  hkdf :: "bytes \<Rightarrow> bytes \<Rightarrow> bytes \<Rightarrow> bytes"
  sha256 :: "bytes \<Rightarrow> bytes"
  ecdh :: "bytes \<Rightarrow> bytes \<Rightarrow> bytes option"
  gcm :: aead

text \<open>What the client sends: commits to live peers and requests to the server.\<close>

datatype mlsOut =
    WsCommit string int "MlsCommitEnvelope blob"
  | PostCommitEpoch string int "MlsCommitEnvelope blob"
  | PostAddMember string string int "MlsWelcomeEnvelope blob" "MlsCommitEnvelope blob"
  | PostRemoveMember string string "int option"
  | PostLeave string

definition cleanId :: "string \<Rightarrow> string" where
  "cleanId channel = replaceFirst ''chan_'' [] channel"

section \<open>Local state\<close>

definition storeKey :: "string \<Rightarrow> string" where
  "storeKey channel = ''genchat_mls_group_'' @ channel"

definition getLocalGroupState :: "string \<Rightarrow> mlsState \<Rightarrow> MlsLocalGroupState option \<times> mlsState" where
  "getLocalGroupState channel s =
     (case jsGet (groupCache s) channel of
        Some st \<Rightarrow> (Some st, s)
      | None \<Rightarrow>
          if \<not> storeReadable s then (None, s)
          else case Option.bind (jsGet (groupStore s) (storeKey channel)) parseBlob of
                 Some st \<Rightarrow> (Some st, s\<lparr>groupCache := jsSet channel st (groupCache s)\<rparr>)
               | None \<Rightarrow> (None, s))"

definition saveGroupAt :: "string \<Rightarrow> MlsLocalGroupState \<Rightarrow> mlsState \<Rightarrow> mlsState" where
  "saveGroupAt gid st s =
     (let s1 = s\<lparr>groupCache := jsSet gid st (groupCache s)\<rparr>
      in if storeWritable s1 then s1\<lparr>groupStore := jsSet (storeKey gid) (Blob st) (groupStore s1)\<rparr> else s1)"

definition saveLocalGroupState :: "MlsLocalGroupState \<Rightarrow> mlsState \<Rightarrow> mlsState" where
  "saveLocalGroupState st s = saveGroupAt (groupId st) st s"

definition clearLocalGroupState :: "string \<Rightarrow> mlsState \<Rightarrow> mlsState" where
  "clearLocalGroupState channel s =
     (let s1 = s\<lparr>groupCache := jsDelete channel (groupCache s)\<rparr>
      in if storeWritable s1 then s1\<lparr>groupStore := jsDelete (storeKey channel) (groupStore s1)\<rparr> else s1)"

section \<open>Key packages\<close>

definition generateKeyPackage ::
  "mlsCrypto \<Rightarrow> int \<Rightarrow> bytes \<times> bytes \<Rightarrow> string \<Rightarrow> string \<Rightarrow> mlsState \<Rightarrow> (MlsKeyPackageData \<times> string) \<times> mlsState" where
  "generateKeyPackage c now keyPair userId deviceId s =
     (let pubHex = bytesToHex (fst keyPair);
          privHex = bytesToHex (snd keyPair);
          sigHex = bytesToHex (sha256 c (textEncode (userId @ '':'' @ deviceId @ '':'' @ pubHex)));
          pkg = \<lparr>kpUserId = userId, kpDeviceId = deviceId, kpPublicKeyHex = pubHex,
                 kpSignatureHex = sigHex, kpTimestamp = now\<rparr>;
          s' = (if sessionWritable s
                then s\<lparr>session := jsSet (''genchat_mls_hpke_'' @ deviceId) privHex (session s)\<rparr> else s)
      in ((pkg, privHex), s'))"

definition publishKeyPackage ::
  "mlsCrypto \<Rightarrow> int \<Rightarrow> bytes \<times> bytes \<Rightarrow> (MlsKeyPackageData \<Rightarrow> unit http) \<Rightarrow> string \<Rightarrow> string \<Rightarrow> mlsState \<Rightarrow> bool \<times> mlsState" where
  "publishKeyPackage c now keyPair upload userId deviceId s =
     (case generateKeyPackage c now keyPair userId deviceId s of ((pkg, _), s') \<Rightarrow>
        (case upload pkg of HttpOk _ \<Rightarrow> True | _ \<Rightarrow> False, s'))"

text \<open>The answer holds the package as JSON text, or in base64 under one of two names.\<close>

record keyPackageAnswer =
  ansRaw :: "MlsKeyPackageData blob option"
  ansSnake :: "MlsKeyPackageData blob option"
  ansCamel :: "MlsKeyPackageData blob option"

definition orElse :: "'a option \<Rightarrow> 'a option \<Rightarrow> 'a option" where
  "orElse x y = (case x of Some _ \<Rightarrow> x | None \<Rightarrow> y)"

definition fetchKeyPackage :: "keyPackageAnswer http \<Rightarrow> MlsKeyPackageData option" where
  "fetchKeyPackage answer =
     (case answer of
        HttpOk d \<Rightarrow> Option.bind (orElse (ansRaw d) (orElse (ansSnake d) (ansCamel d))) parseBlob
      | _ \<Rightarrow> None)"

section \<open>Creating a group\<close>

record welcomeRandom =
  encapPub :: bytes
  encapPriv :: bytes
  welcomeIv :: bytes

fun collectPackages ::
  "(string \<Rightarrow> keyPackageAnswer http) \<Rightarrow> string \<Rightarrow> string list \<Rightarrow> MlsKeyPackageData jsmap \<Rightarrow> MlsKeyPackageData jsmap" where
  "collectPackages fetch creator [] pkgs = pkgs"
| "collectPackages fetch creator (uid # uids) pkgs =
     (if uid = creator then collectPackages fetch creator uids pkgs
      else case fetchKeyPackage (fetch uid) of
             Some pkg \<Rightarrow> collectPackages fetch creator uids (jsSet uid pkg pkgs)
           | None \<Rightarrow> collectPackages fetch creator uids pkgs)"

definition buildTree :: "string \<Rightarrow> MlsKeyPackageData jsmap \<Rightarrow> leaf list" where
  "buildTree creator pkgs =
     \<lparr>leafIndex = 0, leafUserId = creator, leafPublicKeyHex = ''creator_root_key''\<rparr>
     # map2 (\<lambda>i (uid, pkg). \<lparr>leafIndex = int i, leafUserId = uid, leafPublicKeyHex = kpPublicKeyHex pkg\<rparr>)
         [1..<Suc (length pkgs)] pkgs"

text \<open>The wrapped epoch secret, the vector and the encapsulated key of one welcome.\<close>

definition wrapSecret ::
  "mlsCrypto \<Rightarrow> welcomeRandom \<Rightarrow> string \<Rightarrow> string \<Rightarrow> bytes \<Rightarrow> string \<times> string \<times> string" where
  "wrapSecret c r uid pubHex secret =
     (if pubHex \<noteq> [] \<and> \<not> startsWith pubHex ''pubkey_'' then
        let eph = bytesToHex (encapPub r)
        in case Option.bind (hexMatch pubHex) (ecdh c (encapPriv r)) of
             Some shared \<Rightarrow>
               (bufferToBase64 (seal (gcm c) shared (welcomeIv r) [] secret), bufferToBase64 (welcomeIv r), eph)
           | None \<Rightarrow> (bufferToBase64 secret, bufferToBase64 (welcomeIv r), eph)
      else
        let wrapKey = hkdf c (textEncode (''mls_welcome_key_'' @ uid @ ''_'' @ pubHex))
                        (textEncode ''welcome_salt'') (textEncode ''epoch_secret_wrap'')
        in (bufferToBase64 (seal (gcm c) wrapKey (welcomeIv r) [] secret), bufferToBase64 (welcomeIv r), []))"

definition makeWelcome ::
  "mlsCrypto \<Rightarrow> (string \<Rightarrow> welcomeRandom) \<Rightarrow> string \<Rightarrow> bytes \<Rightarrow> leaf list \<Rightarrow> string \<Rightarrow> MlsKeyPackageData \<Rightarrow> MlsWelcomeEnvelope" where
  "makeWelcome c rnd creator secret tree uid pkg =
     (case wrapSecret c (rnd uid) uid (kpPublicKeyHex pkg) secret of (enc, iv, eph) \<Rightarrow>
        \<lparr>wGroupId = [], wEpoch = 0, wCreatorId = creator, wEphemeralPublicKeyHex = eph,
         wEncryptedEpochSecretB64 = enc, wIvB64 = iv, wRatchetTree = tree\<rparr>)"

record createRequest =
  reqName :: string
  reqMembers :: "string list"
  reqWelcomes :: "MlsWelcomeEnvelope blob jsmap"
  reqCommit :: "MlsCommitEnvelope blob"

definition createRequestOf ::
  "mlsCrypto \<Rightarrow> int \<Rightarrow> (string \<Rightarrow> welcomeRandom) \<Rightarrow> bytes \<Rightarrow> MlsKeyPackageData jsmap \<Rightarrow> string \<Rightarrow> string list \<Rightarrow> string \<Rightarrow> createRequest" where
  "createRequestOf c now rnd secret pkgs name uids creator =
     \<lparr>reqName = name, reqMembers = uids,
      reqWelcomes = map (\<lambda>(uid, pkg). (uid, Blob (makeWelcome c rnd creator secret (buildTree creator pkgs) uid pkg))) pkgs,
      reqCommit = Blob \<lparr>cGroupId = [], cEpoch = 0, cCommitterId = creator, cAction = Add, cTargetUserId = None,
                        cAddedMember = None, cCommitHashHex = take 32 (bytesToHex secret), cTimestamp = now\<rparr>\<rparr>"

text \<open>The server answers with the channel id; the request itself failing rejects the promise.\<close>

definition createGroup ::
  "mlsCrypto \<Rightarrow> int \<Rightarrow> (string \<Rightarrow> welcomeRandom) \<Rightarrow> bytes \<Rightarrow> (string \<Rightarrow> keyPackageAnswer http) \<Rightarrow>
   (createRequest \<Rightarrow> string http) \<Rightarrow> string \<Rightarrow> string list \<Rightarrow> string \<Rightarrow> mlsState \<Rightarrow>
   (MlsLocalGroupState option \<times> mlsState) outcome" where
  "createGroup c now rnd secret fetch post name uids creator s =
     (let pkgs = collectPackages fetch creator uids []
      in case post (createRequestOf c now rnd secret pkgs name uids creator) of
           NetFail \<Rightarrow> Rejected
         | HttpError _ \<Rightarrow> Done (None, s)
         | HttpOk rawChannelId \<Rightarrow>
             let st = \<lparr>groupId = ''chan_'' @ rawChannelId, epoch = 0, myLeafIndex = 0,
                       epochSecretHex = bytesToHex secret, members = buildTree creator pkgs, updatedAt = now\<rparr>
             in Done (Some st, saveLocalGroupState st s))"

section \<open>Joining\<close>

definition unwrapSecret :: "mlsCrypto \<Rightarrow> string option \<Rightarrow> MlsWelcomeEnvelope \<Rightarrow> bytes option" where
  "unwrapSecret c privHex w =
     (if wEphemeralPublicKeyHex w \<noteq> [] \<and> privHex \<noteq> None then
        case Option.bind (hexMatch (the privHex)) (\<lambda>priv.
             Option.bind (hexMatch (wEphemeralPublicKeyHex w)) (\<lambda>pub.
             Option.bind (ecdh c priv pub) (\<lambda>shared.
             Option.bind (base64ToBuffer (wIvB64 w)) (\<lambda>iv.
             Option.bind (base64ToBuffer (wEncryptedEpochSecretB64 w)) (\<lambda>ct.
               unseal (gcm c) shared iv [] ct))))) of
          Some secret \<Rightarrow> Some secret
        | None \<Rightarrow> base64ToBuffer (wEncryptedEpochSecretB64 w)
      else base64ToBuffer (wEncryptedEpochSecretB64 w))"

text \<open>A stored string that is empty is falsy.\<close>

definition sessionItem :: "string \<Rightarrow> mlsState \<Rightarrow> string option" where
  "sessionItem k s = (case jsGet (session s) k of Some v \<Rightarrow> if v = [] then None else Some v | None \<Rightarrow> None)"

definition hpkePrivateKey :: "string \<Rightarrow> mlsState \<Rightarrow> string option" where
  "hpkePrivateKey myUserId s =
     (let devId = (case sessionItem ''genchat_current_device_id'' s of Some d \<Rightarrow> d | None \<Rightarrow> [])
      in orElse (sessionItem (''genchat_mls_hpke_'' @ devId) s) (sessionItem (''genchat_mls_hpke_'' @ myUserId) s))"

definition acceptWelcome ::
  "mlsCrypto \<Rightarrow> int \<Rightarrow> string \<Rightarrow> string \<Rightarrow> MlsWelcomeEnvelope \<Rightarrow> mlsState \<Rightarrow> MlsLocalGroupState option \<times> mlsState" where
  "acceptWelcome c now channel myUserId w s =
     (if \<not> sessionReadable s then (None, s)
      else case unwrapSecret c (hpkePrivateKey myUserId s) w of
             None \<Rightarrow> (None, s)
           | Some secret \<Rightarrow>
               let st = \<lparr>groupId = channel, epoch = wEpoch w,
                         myLeafIndex = (case find (\<lambda>m. leafUserId m = myUserId) (wRatchetTree w) of
                                          Some m \<Rightarrow> leafIndex m | None \<Rightarrow> 1),
                         epochSecretHex = bytesToHex secret, members = wRatchetTree w, updatedAt = now\<rparr>
               in (Some st, saveLocalGroupState st s))"

definition joinGroup ::
  "mlsCrypto \<Rightarrow> int \<Rightarrow> MlsWelcomeEnvelope blob option http \<Rightarrow> string \<Rightarrow> string \<Rightarrow> mlsState \<Rightarrow>
   (MlsLocalGroupState option \<times> mlsState) outcome" where
  "joinGroup c now answer channel myUserId s =
     (case answer of
        NetFail \<Rightarrow> Rejected
      | HttpError _ \<Rightarrow> Done (None, s)
      | HttpOk None \<Rightarrow> Done (None, s)
      | HttpOk (Some welcomeB64) \<Rightarrow>
          Done (case parseBlob welcomeB64 of
                  None \<Rightarrow> (None, s)
                | Some w \<Rightarrow> acceptWelcome c now channel myUserId w s))"

section \<open>Epochs\<close>

definition nextSecretBits :: "mlsCrypto \<Rightarrow> string \<Rightarrow> int \<Rightarrow> string \<Rightarrow> bytes option" where
  "nextSecretBits c channel e secretHex =
     map_option (\<lambda>prev.
       hkdf c prev (textEncode (''mls_epoch_salt_'' @ numString e))
         (textEncode (''mls_epoch_transition_'' @ channel @ ''_'' @ numString e)))
       (hexMatch secretHex)"

definition nextSecret :: "mlsCrypto \<Rightarrow> string \<Rightarrow> int \<Rightarrow> string \<Rightarrow> string option" where
  "nextSecret c channel e secretHex = map_option bytesToHex (nextSecretBits c channel e secretHex)"

definition truthy :: "string option \<Rightarrow> bool" where
  "truthy x \<longleftrightarrow> x \<noteq> None \<and> x \<noteq> Some []"

definition advanceEpoch ::
  "mlsCrypto \<Rightarrow> int \<Rightarrow> string \<Rightarrow> string \<Rightarrow> string option \<Rightarrow> string option \<Rightarrow> bool \<Rightarrow> mlsState \<Rightarrow>
   (MlsLocalGroupState option \<times> mlsState \<times> mlsOut list) outcome" where
  "advanceEpoch c now channel committer removed accessToken wsSend s =
     (case getLocalGroupState channel s of
        (None, s1) \<Rightarrow> Done (None, s1, [])
      | (Some st, s1) \<Rightarrow>
          let nextEpoch = epoch st + 1
          in case nextSecret c channel nextEpoch (epochSecretHex st) of
               None \<Rightarrow> Rejected
             | Some secretHex \<Rightarrow>
                 let updated = (if truthy removed then filter (\<lambda>m. Some (leafUserId m) \<noteq> removed) (members st)
                                else members st);
                     st' = \<lparr>groupId = channel, epoch = nextEpoch, myLeafIndex = myLeafIndex st,
                            epochSecretHex = secretHex, members = updated, updatedAt = now\<rparr>;
                     commit = Blob \<lparr>cGroupId = channel, cEpoch = nextEpoch, cCommitterId = committer,
                                    cAction = (if truthy removed then Remove else Rekey), cTargetUserId = removed,
                                    cAddedMember = None, cCommitHashHex = take 32 secretHex, cTimestamp = now\<rparr>
                 in Done (Some st', saveLocalGroupState st' s1,
                          (if wsSend then [WsCommit channel nextEpoch commit] else [])
                          @ (if truthy accessToken then [PostCommitEpoch (cleanId channel) nextEpoch commit] else [])))"

definition maxLeaf :: "leaf list \<Rightarrow> int" where
  "maxLeaf ms = foldl (\<lambda>mx m. max mx (leafIndex m)) 0 ms"

definition freshGroup :: "int \<Rightarrow> bytes \<Rightarrow> string \<Rightarrow> string \<Rightarrow> string \<Rightarrow> MlsLocalGroupState" where
  "freshGroup now randomSecret channel user pub =
     \<lparr>groupId = channel, epoch = 0, myLeafIndex = 0, epochSecretHex = bytesToHex randomSecret,
      members = [\<lparr>leafIndex = 0, leafUserId = user, leafPublicKeyHex = pub\<rparr>], updatedAt = now\<rparr>"

definition ensureGroup ::
  "int \<Rightarrow> bytes \<Rightarrow> string \<Rightarrow> string \<Rightarrow> string \<Rightarrow> mlsState \<Rightarrow> MlsLocalGroupState \<times> mlsState" where
  "ensureGroup now randomSecret channel user pub s =
     (case getLocalGroupState channel s of
        (Some st, s1) \<Rightarrow> (st, s1)
      | (None, s1) \<Rightarrow>
          let st = freshGroup now randomSecret channel user pub in (st, saveLocalGroupState st s1))"

definition addMember ::
  "mlsCrypto \<Rightarrow> int \<Rightarrow> bytes \<Rightarrow> (string \<Rightarrow> keyPackageAnswer http) \<Rightarrow> string \<Rightarrow> string \<Rightarrow> string \<Rightarrow> string \<Rightarrow> bool \<Rightarrow>
   mlsState \<Rightarrow> (MlsLocalGroupState \<times> mlsState \<times> mlsOut list) outcome" where
  "addMember c now randomSecret fetch channel newUser committer accessToken wsSend s =
     (case ensureGroup now randomSecret channel committer ''creator_root'' s of (st, s1) \<Rightarrow>
        if list_ex (\<lambda>m. leafUserId m = newUser) (members st) then Done (st, s1, [])
        else
          let keyHex = (case fetchKeyPackage (fetch newUser) of Some p \<Rightarrow> kpPublicKeyHex p | None \<Rightarrow> ''auto_derived'');
              nextEpoch = epoch st + 1
          in case nextSecretBits c channel nextEpoch (epochSecretHex st) of
               None \<Rightarrow> Rejected
             | Some bits \<Rightarrow>
                 let secretHex = bytesToHex bits;
                     newMember = \<lparr>leafIndex = maxLeaf (members st) + 1, leafUserId = newUser, leafPublicKeyHex = keyHex\<rparr>;
                     updated = members st @ [newMember];
                     st' = \<lparr>groupId = channel, epoch = nextEpoch, myLeafIndex = myLeafIndex st,
                            epochSecretHex = secretHex, members = updated, updatedAt = now\<rparr>;
                     welcome = Blob \<lparr>wGroupId = channel, wEpoch = nextEpoch, wCreatorId = committer,
                                     wEphemeralPublicKeyHex = [],
                                     wEncryptedEpochSecretB64 = bufferToBase64 bits,
                                     wIvB64 = btoa (''welcome_epoch_'' @ numString nextEpoch), wRatchetTree = updated\<rparr>;
                     commit = Blob \<lparr>cGroupId = channel, cEpoch = nextEpoch, cCommitterId = committer,
                                    cAction = Add, cTargetUserId = Some newUser, cAddedMember = Some newMember,
                                    cCommitHashHex = take 32 secretHex, cTimestamp = now\<rparr>
                 in Done (st', saveLocalGroupState st' s1,
                          (if wsSend then [WsCommit channel nextEpoch commit] else [])
                          @ (if accessToken \<noteq> [] then [PostAddMember (cleanId channel) newUser nextEpoch welcome commit] else [])))"

definition removeMember ::
  "mlsCrypto \<Rightarrow> int \<Rightarrow> string \<Rightarrow> string \<Rightarrow> string \<Rightarrow> string option \<Rightarrow> bool \<Rightarrow> mlsState \<Rightarrow>
   (MlsLocalGroupState option \<times> mlsState \<times> mlsOut list) outcome" where
  "removeMember c now channel committer target accessToken wsSend s =
     (case advanceEpoch c now channel committer (Some target) accessToken wsSend s of
        Rejected \<Rightarrow> Rejected
      | Done (st, s1, outs) \<Rightarrow>
          Done (st, s1, outs @ (if truthy accessToken
                                then [PostRemoveMember (cleanId channel) target (map_option epoch st)] else [])))"

text \<open>The answer of the server to the leave request is not looked at, only a failed request is.\<close>

definition leaveGroup ::
  "mlsCrypto \<Rightarrow> int \<Rightarrow> unit http \<Rightarrow> string \<Rightarrow> string \<Rightarrow> string \<Rightarrow> bool \<Rightarrow> mlsState \<Rightarrow> bool \<times> mlsState \<times> mlsOut list" where
  "leaveGroup c now answer channel myUserId accessToken wsSend s =
     (case advanceEpoch c now channel myUserId (Some myUserId) (Some accessToken) wsSend s of
        Rejected \<Rightarrow> (False, snd (getLocalGroupState channel s), [])
      | Done (_, s1, outs) \<Rightarrow>
          (case answer of
             NetFail \<Rightarrow> (False, s1, outs @ [PostLeave (cleanId channel)])
           | _ \<Rightarrow> (True, clearLocalGroupState channel s1, outs @ [PostLeave (cleanId channel)])))"

definition commitMembers :: "MlsCommitEnvelope \<Rightarrow> leaf list \<Rightarrow> leaf list" where
  "commitMembers commit ms =
     (if cAction commit = Remove \<and> truthy (cTargetUserId commit)
      then filter (\<lambda>m. Some (leafUserId m) \<noteq> cTargetUserId commit) ms
      else case cAddedMember commit of
             Some a \<Rightarrow> if cAction commit = Add then filter (\<lambda>m. leafUserId m \<noteq> leafUserId a) ms @ [a] else ms
           | None \<Rightarrow> ms)"

definition applyIncomingCommit ::
  "mlsCrypto \<Rightarrow> int \<Rightarrow> string \<Rightarrow> MlsCommitEnvelope blob \<Rightarrow> int \<Rightarrow> mlsState \<Rightarrow> bool \<times> mlsState" where
  "applyIncomingCommit c now channel commitDataB64 newEpoch s =
     (case parseBlob commitDataB64 of
        None \<Rightarrow> (False, s)
      | Some commit \<Rightarrow>
          (case getLocalGroupState channel s of
             (None, s1) \<Rightarrow> (False, s1)
           | (Some st, s1) \<Rightarrow>
               if newEpoch \<le> epoch st then (False, s1)
               else (case nextSecret c channel newEpoch (epochSecretHex st) of
                       None \<Rightarrow> (False, s1)
                     | Some secretHex \<Rightarrow>
                         (True, saveLocalGroupState
                            \<lparr>groupId = channel, epoch = newEpoch, myLeafIndex = myLeafIndex st,
                             epochSecretHex = secretHex, members = commitMembers commit (members st),
                             updatedAt = now\<rparr> s1))))"

section \<open>Application messages\<close>

definition appCacheKey :: "MlsLocalGroupState \<Rightarrow> string" where
  "appCacheKey st = groupId st @ '':'' @ numString (epoch st)"

definition deriveAppKey :: "mlsCrypto \<Rightarrow> MlsLocalGroupState \<Rightarrow> key option" where
  "deriveAppKey c st =
     map_option (\<lambda>secret. hkdf c secret (textEncode (''mls_app_salt_'' @ numString (epoch st)))
       (textEncode (''mls_application_encryption_'' @ groupId st @ ''_'' @ numString (epoch st))))
       (hexMatch (epochSecretHex st))"

definition getEpochApplicationKey :: "mlsCrypto \<Rightarrow> MlsLocalGroupState \<Rightarrow> mlsState \<Rightarrow> (key \<times> mlsState) outcome" where
  "getEpochApplicationKey c st s =
     (case jsGet (appKeyCache s) (appCacheKey st) of
        Some k \<Rightarrow> Done (k, s)
      | None \<Rightarrow>
          (case deriveAppKey c st of
             None \<Rightarrow> Rejected
           | Some k \<Rightarrow> Done (k, s\<lparr>appKeyCache := jsSet (appCacheKey st) k (appKeyCache s)\<rparr>)))"

definition encryptGroupMessage ::
  "mlsCrypto \<Rightarrow> int \<Rightarrow> bytes \<Rightarrow> bytes \<Rightarrow> string \<Rightarrow> string \<Rightarrow> string \<Rightarrow> mlsState \<Rightarrow>
   (MlsEncryptedGroupMessage blob \<times> mlsState) outcome" where
  "encryptGroupMessage c now randomSecret iv channel sender plaintext s =
     (case ensureGroup now randomSecret channel sender ''auto'' s of (st, s1) \<Rightarrow>
        (case getEpochApplicationKey c st s1 of
           Rejected \<Rightarrow> Rejected
         | Done (k, s2) \<Rightarrow>
             Done (Blob \<lparr>eProtocol = ''genchat-mls-v1'', eGroupId = channel, eEpoch = epoch st, eSenderId = sender,
                         eIvHex = bytesToHex iv,
                         eCiphertextBase64 = bufferToBase64 (seal (gcm c) k iv [] (textEncode plaintext))\<rparr>, s2)))"

text \<open>The result is the plaintext, or the payload itself when it cannot be decrypted.\<close>

datatype 'a decrypted = Plain string | RawPayload 'a

definition decryptGroupMessage ::
  "mlsCrypto \<Rightarrow> string \<Rightarrow> MlsEncryptedGroupMessage blob \<Rightarrow> mlsState \<Rightarrow>
   MlsEncryptedGroupMessage blob decrypted \<times> mlsState" where
  "decryptGroupMessage c channel payload s =
     (case parseBlob payload of
        None \<Rightarrow> (RawPayload payload, s)
      | Some e \<Rightarrow>
          if eProtocol e \<noteq> ''genchat-mls-v1'' then (RawPayload payload, s)
          else (case getLocalGroupState channel s of
                  (None, s1) \<Rightarrow> (RawPayload payload, s1)
                | (Some st, s1) \<Rightarrow>
                    (case getEpochApplicationKey c st s1 of
                       Rejected \<Rightarrow> (RawPayload payload, s1)
                     | Done (k, s2) \<Rightarrow>
                         (case Option.bind (hexMatch (eIvHex e)) (\<lambda>iv.
                               Option.bind (base64ToBuffer (eCiphertextBase64 e)) (\<lambda>ct.
                               Option.bind (unseal (gcm c) k iv [] ct) textDecode)) of
                            Some plain \<Rightarrow> (Plain plain, s2)
                          | None \<Rightarrow> (RawPayload payload, s2)))))"

definition exportGroupMediaKey ::
  "mlsCrypto \<Rightarrow> string \<Rightarrow> string \<Rightarrow> mlsState \<Rightarrow> ((string \<times> string) \<times> mlsState) outcome" where
  "exportGroupMediaKey c gid participant s =
     (case getLocalGroupState gid s of
        (None, _) \<Rightarrow> Rejected
      | (Some st, s1) \<Rightarrow>
          (case hexMatch (epochSecretHex st) of
             None \<Rightarrow> Rejected
           | Some secret \<Rightarrow>
               let exporter = hkdf c secret (textEncode (''mls_epoch_'' @ numString (epoch st)))
                                (textEncode (''sframe_media_exporter:'' @ gid));
                   keyHex = bytesToHex (hkdf c exporter (textEncode participant)
                              (textEncode ''sframe_participant_media_key''))
               in Done ((keyHex, take 32 keyHex), s1)))"

section \<open>The local state as a map\<close>

definition groupView :: "mlsState \<Rightarrow> string \<Rightarrow> MlsLocalGroupState option" where
  "groupView s channel = fst (getLocalGroupState channel s)"

lemma getLocal_Some: "groupView s channel = Some st \<Longrightarrow> \<exists>s1. getLocalGroupState channel s = (Some st, s1)"
  unfolding groupView_def by (metis prod.collapse)

lemma getLocal_fst: "getLocalGroupState channel s = (x, s1) \<Longrightarrow> groupView s channel = x"
  by (simp add: groupView_def)

lemma storeKey_inject [simp]: "storeKey a = storeKey b \<longleftrightarrow> a = b"
  by (simp add: storeKey_def)

lemma groupView_save [simp]:
  "groupView (saveGroupAt gid st s) channel = (if gid = channel then Some st else groupView s channel)"
  by (auto simp: groupView_def getLocalGroupState_def saveGroupAt_def Let_def split: option.splits)

lemma groupView_fill [simp]: "groupView (snd (getLocalGroupState a s)) channel = groupView s channel"
  by (auto simp: groupView_def getLocalGroupState_def split: option.splits)

lemma getLocal_fields [simp]:
  "appKeyCache (snd (getLocalGroupState a s)) = appKeyCache s"
  "storeWritable (snd (getLocalGroupState a s)) = storeWritable s"
  by (auto simp: getLocalGroupState_def split: option.splits)

lemma save_fields [simp]:
  "appKeyCache (saveGroupAt gid st s) = appKeyCache s" "storeWritable (saveGroupAt gid st s) = storeWritable s"
  by (simp_all add: saveGroupAt_def Let_def)

lemma getLocal_view:
  assumes "getLocalGroupState channel s = (x, s1)"
  shows "groupView s1 = groupView s" "appKeyCache s1 = appKeyCache s"
  using groupView_fill [where a = channel and s = s] getLocal_fields(1) [where a = channel and s = s] assms by (simp_all add: fun_eq_iff)

interpretation groups: kv_store storeWritable groupView saveGroupAt clearLocalGroupState
proof
  fix s :: mlsState and k k' v
  show "groupView (saveGroupAt k v s) k' = (if k = k' then Some v else groupView s k')" by simp
  show "storeWritable s \<Longrightarrow> groupView (clearLocalGroupState k s) k' = (if k = k' then None else groupView s k')"
    by (auto simp: groupView_def getLocalGroupState_def clearLocalGroupState_def Let_def split: option.splits)
  show "storeWritable s \<Longrightarrow> storeWritable (saveGroupAt k v s)" by simp
  show "storeWritable s \<Longrightarrow> storeWritable (clearLocalGroupState k s)"
    by (simp add: clearLocalGroupState_def Let_def)
qed

section \<open>What the operations do to the local state\<close>

lemmas group_defs = saveLocalGroupState_def Let_def

definition nextState :: "mlsCrypto \<Rightarrow> int \<Rightarrow> string \<Rightarrow> string \<Rightarrow> leaf list \<Rightarrow> MlsLocalGroupState \<Rightarrow> int \<Rightarrow> MlsLocalGroupState" where
  "nextState c now channel secretHex ms st e =
     \<lparr>groupId = channel, epoch = e, myLeafIndex = myLeafIndex st, epochSecretHex = secretHex,
      members = ms, updatedAt = now\<rparr>"

lemma advanceEpoch_cases:
  assumes "advanceEpoch c now channel cm rm tok ws s = Done (r, s', outs)"
  obtains "groupView s channel = None" "r = None" "groupView s' = groupView s" "outs = []" "appKeyCache s' = appKeyCache s"
  | st secretHex commit where "groupView s channel = Some st"
      "nextSecret c channel (epoch st + 1) (epochSecretHex st) = Some secretHex"
      "r = Some (nextState c now channel secretHex (commitMembers commit (members st)) st (epoch st + 1))"
      "groupView s' = (groupView s)(channel := r)" "appKeyCache s' = appKeyCache s"
      "commit = \<lparr>cGroupId = channel, cEpoch = epoch st + 1, cCommitterId = cm,
        cAction = (if truthy rm then Remove else Rekey), cTargetUserId = rm, cAddedMember = None,
        cCommitHashHex = take 32 secretHex, cTimestamp = now\<rparr>"
      "outs = (if ws then [WsCommit channel (epoch st + 1) (Blob commit)] else [])
        @ (if truthy tok then [PostCommitEpoch (cleanId channel) (epoch st + 1) (Blob commit)] else [])"
proof (cases "groupView s channel")
  case None
  then obtain s1 where s1: "getLocalGroupState channel s = (None, s1)" unfolding groupView_def by (metis prod.collapse)
  then have "groupView s1 = groupView s" "appKeyCache s1 = appKeyCache s" by (rule getLocal_view)+
  then show thesis using assms s1 None that(1) by (simp add: advanceEpoch_def)
next
  case (Some st)
  define commit where "commit = (\<lambda>secretHex. \<lparr>cGroupId = channel, cEpoch = epoch st + 1, cCommitterId = cm,
        cAction = (if truthy rm then Remove else Rekey), cTargetUserId = rm, cAddedMember = None,
        cCommitHashHex = take 32 secretHex, cTimestamp = now\<rparr>)"
  obtain s1 where s1: "getLocalGroupState channel s = (Some st, s1)" using getLocal_Some [OF Some] by blast
  then have v: "groupView s1 = groupView s" "appKeyCache s1 = appKeyCache s" by (rule getLocal_view)+
  obtain secretHex where sec: "nextSecret c channel (epoch st + 1) (epochSecretHex st) = Some secretHex"
    using assms s1 by (auto simp: advanceEpoch_def Let_def split: option.splits)
  have m: "commitMembers (commit secretHex) (members st) =
      (if truthy rm then filter (\<lambda>m. Some (leafUserId m) \<noteq> rm) (members st) else members st)"
    by (simp add: commitMembers_def commit_def)
  show thesis
    by (rule that(2) [of st secretHex "commit secretHex"])
      (use assms s1 sec v Some in \<open>auto simp: advanceEpoch_def group_defs nextState_def m fun_eq_iff\<close>,
       simp_all add: commit_def)
qed

lemma ensureGroup_cases:
  assumes "ensureGroup now rs channel user pub s = (st, s1)"
  shows "(groupView s channel = Some st \<and> groupView s1 = groupView s
      \<or> groupView s channel = None \<and> st = freshGroup now rs channel user pub
        \<and> groupView s1 = (groupView s)(channel \<mapsto> st)) \<and> appKeyCache s1 = appKeyCache s"
proof -
  obtain x s0 where x: "getLocalGroupState channel s = (x, s0)" by fastforce
  then have v: "groupView s0 = groupView s" "appKeyCache s0 = appKeyCache s" by (rule getLocal_view)+
  have g: "groupView s channel = x" using x by (rule getLocal_fst)
  show ?thesis
    using assms x v g
    by (cases x) (auto simp: ensureGroup_def group_defs freshGroup_def fun_eq_iff)
qed

lemma addMember_cases:
  assumes "addMember c now rs fetch channel user cm tok ws s = Done (r, s', outs)"
  obtains st s1 where "ensureGroup now rs channel cm ''creator_root'' s = (st, s1)"
      "list_ex (\<lambda>m. leafUserId m = user) (members st)" "r = st" "s' = s1" "outs = []"
  | st s1 bits commit wel where "ensureGroup now rs channel cm ''creator_root'' s = (st, s1)"
      "\<not> list_ex (\<lambda>m. leafUserId m = user) (members st)"
      "nextSecretBits c channel (epoch st + 1) (epochSecretHex st) = Some bits"
      "r = nextState c now channel (bytesToHex bits) (commitMembers commit (members st)) st (epoch st + 1)"
      "groupView s' = (groupView s1)(channel \<mapsto> r)" "appKeyCache s' = appKeyCache s1"
      "cAction commit = Add" "map_option leafUserId (cAddedMember commit) = Some user"
      "wEncryptedEpochSecretB64 wel = bufferToBase64 bits"
      "outs = (if ws then [WsCommit channel (epoch st + 1) (Blob commit)] else [])
        @ (if tok \<noteq> [] then [PostAddMember (cleanId channel) user (epoch st + 1) (Blob wel) (Blob commit)] else [])"
proof -
  obtain st s1 where e: "ensureGroup now rs channel cm ''creator_root'' s = (st, s1)" by fastforce
  show thesis
  proof (cases "list_ex (\<lambda>m. leafUserId m = user) (members st)")
    case True
    then show thesis using assms e that(1) by (simp add: addMember_def)
  next
    case False
    then obtain bits where bits: "nextSecretBits c channel (epoch st + 1) (epochSecretHex st) = Some bits"
      using assms e by (auto simp: addMember_def Let_def split: option.splits)
    have flt: "filter (\<lambda>m. leafUserId m \<noteq> user) (members st) = members st"
      using False by (auto simp: filter_id_conv list_ex_iff)
    show thesis
      using assms e False bits
      by (intro that(2) [OF e False bits, where commit = "\<lparr>cGroupId = channel, cEpoch = epoch st + 1, cCommitterId = cm,
            cAction = Add, cTargetUserId = Some user,
            cAddedMember = Some \<lparr>leafIndex = maxLeaf (members st) + 1, leafUserId = user,
              leafPublicKeyHex = (case fetchKeyPackage (fetch user) of Some p \<Rightarrow> kpPublicKeyHex p | None \<Rightarrow> ''auto_derived'')\<rparr>,
            cCommitHashHex = take 32 (bytesToHex bits), cTimestamp = now\<rparr>"])
        (auto simp: addMember_def group_defs nextState_def commitMembers_def flt fun_eq_iff)
  qed
qed
lemma applyIncomingCommit_cases:
  "applyIncomingCommit c now channel b e s = (ok, s') \<Longrightarrow>
   (\<not> ok \<and> groupView s' = groupView s
    \<or> ok \<and> (\<exists>commit st secretHex. parseBlob b = Some commit \<and> groupView s channel = Some st \<and> epoch st < e
         \<and> nextSecret c channel e (epochSecretHex st) = Some secretHex
         \<and> groupView s' = (groupView s)(channel \<mapsto> nextState c now channel secretHex (commitMembers commit (members st)) st e)))
   \<and> appKeyCache s' = appKeyCache s"
proof (cases "parseBlob b")
  case None
  then show "applyIncomingCommit c now channel b e s = (ok, s') \<Longrightarrow> ?thesis" by (auto simp: applyIncomingCommit_def)
next
  case (Some commit)
  assume r: "applyIncomingCommit c now channel b e s = (ok, s')"
  obtain x s1 where x: "getLocalGroupState channel s = (x, s1)" by fastforce
  then have v: "groupView s1 = groupView s" "appKeyCache s1 = appKeyCache s" by (rule getLocal_view)+
  have "groupView s channel = x" using x by (rule getLocal_fst)
  then show ?thesis
    using r x v Some
    by (cases x) (auto simp: applyIncomingCommit_def group_defs nextState_def fun_eq_iff split: if_splits option.splits)
qed

lemma applyIncomingCommit_applies:
  assumes "groupView s channel = Some st" "epoch st < e" "nextSecret c channel e (epochSecretHex st) = Some secretHex"
  shows "fst (applyIncomingCommit c now channel (Blob commit) e s)
    \<and> groupView (snd (applyIncomingCommit c now channel (Blob commit) e s)) =
        (groupView s)(channel \<mapsto> nextState c now channel secretHex (commitMembers commit (members st)) st e)"
proof -
  obtain s1 where s1: "getLocalGroupState channel s = (Some st, s1)" using getLocal_Some [OF assms(1)] by blast
  then have "groupView s1 = groupView s" by (rule getLocal_view)
  then show ?thesis
    using assms s1 by (auto simp: applyIncomingCommit_def group_defs nextState_def fun_eq_iff)
qed

section \<open>Epochs and members over time\<close>

inductive mlsStep :: "mlsCrypto \<Rightarrow> mlsState \<Rightarrow> mlsState \<Rightarrow> bool" for c where
  step_advance: "advanceEpoch c now channel cm rm tok ws s = Done (r, s', outs) \<Longrightarrow> mlsStep c s s'"
| step_add: "addMember c now rs fetch channel user cm tok ws s = Done (r', s', outs) \<Longrightarrow> mlsStep c s s'"
| step_remove: "removeMember c now channel cm target tok ws s = Done (r, s', outs) \<Longrightarrow> mlsStep c s s'"
| step_apply: "applyIncomingCommit c now channel b e s = (ok, s') \<Longrightarrow> mlsStep c s s'"
| step_encrypt: "encryptGroupMessage c now rs iv channel sender plain s = Done (env, s') \<Longrightarrow> mlsStep c s s'"
| step_decrypt: "decryptGroupMessage c channel env s = (res, s') \<Longrightarrow> mlsStep c s s'"
| step_export: "exportGroupMediaKey c channel part s = Done (mk, s') \<Longrightarrow> mlsStep c s s'"

definition uniqueMembers :: "MlsLocalGroupState \<Rightarrow> bool" where
  "uniqueMembers st \<longleftrightarrow> distinct (map leafUserId (members st))"

definition groupLe :: "MlsLocalGroupState \<Rightarrow> MlsLocalGroupState \<Rightarrow> bool" where
  "groupLe st st' \<longleftrightarrow> epoch st \<le> epoch st' \<and> (uniqueMembers st \<longrightarrow> uniqueMembers st')"

lemma groupLe_refl [simp]: "groupLe st st"
  by (simp add: groupLe_def)

lemma groupLe_trans: "groupLe a b \<Longrightarrow> groupLe b d \<Longrightarrow> groupLe a d"
  by (auto simp: groupLe_def)

lemma unique_commitMembers: "distinct (map leafUserId ms) \<Longrightarrow> distinct (map leafUserId (commitMembers commit ms))"
  by (auto simp: commitMembers_def distinct_map_filter split: option.splits)

lemma groupLe_next: "epoch st \<le> e \<Longrightarrow> groupLe st (nextState c now channel secretHex (commitMembers commit (members st)) st e)"
  by (simp add: groupLe_def nextState_def uniqueMembers_def unique_commitMembers)

lemma getEpochApplicationKey_view: "getEpochApplicationKey c st s = Done (k, s') \<Longrightarrow> groupView s' = groupView s"
  by (auto simp: getEpochApplicationKey_def groupView_def getLocalGroupState_def fun_eq_iff split: option.splits)

text \<open>Every step keeps the known groups and adds groups with one member at most.\<close>

definition viewLe :: "mlsState \<Rightarrow> mlsState \<Rightarrow> bool" where
  "viewLe s s' \<longleftrightarrow>
     (\<forall>ch. case groupView s ch of
        Some st \<Rightarrow> (\<exists>st'. groupView s' ch = Some st' \<and> groupLe st st')
      | None \<Rightarrow> (\<forall>st'. groupView s' ch = Some st' \<longrightarrow> uniqueMembers st'))"

lemma viewLe_same: "groupView s' = groupView s \<Longrightarrow> viewLe s s'"
  by (auto simp: viewLe_def split: option.splits)

lemma viewLe_upd: "groupView s' = (groupView s)(ch \<mapsto> st') \<Longrightarrow> groupView s ch = Some st \<Longrightarrow> groupLe st st' \<Longrightarrow> viewLe s s'"
  by (auto simp: viewLe_def split: option.splits)

lemma viewLe_new: "groupView s' = (groupView s)(ch \<mapsto> st') \<Longrightarrow> groupView s ch = None \<Longrightarrow> uniqueMembers st' \<Longrightarrow> viewLe s s'"
  by (auto simp: viewLe_def split: option.splits)

lemma viewLe_trans: "viewLe a b \<Longrightarrow> viewLe b d \<Longrightarrow> viewLe a d"
proof -
  assume ab: "viewLe a b" and bd: "viewLe b d"
  show "viewLe a d"
    unfolding viewLe_def
  proof
    fix ch
    show "case groupView a ch of Some st \<Rightarrow> \<exists>st'. groupView d ch = Some st' \<and> groupLe st st'
        | None \<Rightarrow> \<forall>st'. groupView d ch = Some st' \<longrightarrow> uniqueMembers st'"
      using ab [unfolded viewLe_def, rule_format, of ch] bd [unfolded viewLe_def, rule_format, of ch]
      by (cases "groupView a ch"; cases "groupView b ch") (auto intro: groupLe_trans simp: groupLe_def)
  qed
qed

lemma viewLe_advance: "advanceEpoch c now ch cm rm tok ws s = Done (r, s', outs) \<Longrightarrow> viewLe s s'"
proof (erule advanceEpoch_cases)
  fix st secretHex commit
  assume v: "groupView s ch = Some st" and g: "groupView s' = (groupView s)(ch := r)"
    and r: "r = Some (nextState c now ch secretHex (commitMembers commit (members st)) st (epoch st + 1))"
  show ?thesis by (rule viewLe_upd [OF g [unfolded r] v groupLe_next]) simp
qed (simp add: viewLe_same)

lemma viewLe_ensure: "ensureGroup now rs ch user pub s = (st, s1) \<Longrightarrow> viewLe s s1"
proof (drule ensureGroup_cases, elim conjE disjE)
  assume "groupView s ch = None" "st = freshGroup now rs ch user pub" "groupView s1 = (groupView s)(ch \<mapsto> st)"
  then show ?thesis by (intro viewLe_new [of s1 s ch st]) (simp_all add: freshGroup_def uniqueMembers_def)
qed (simp add: viewLe_same)

lemma viewLe_add: "addMember c now rs fetch ch user cm tok ws s = Done (r, s', outs) \<Longrightarrow> viewLe s s'"
proof (erule addMember_cases)
  fix st s1 bits commit wel
  assume e: "ensureGroup now rs ch cm ''creator_root'' s = (st, s1)"
    and r: "r = nextState c now ch (bytesToHex bits) (commitMembers commit (members st)) st (epoch st + 1)"
    and v: "groupView s' = (groupView s1)(ch \<mapsto> r)"
  have "groupView s1 ch = Some st" using ensureGroup_cases [OF e] by auto
  then have "viewLe s1 s'" by (rule viewLe_upd [OF v]) (simp add: r groupLe_next)
  with viewLe_ensure [OF e] show ?thesis by (rule viewLe_trans)
qed (simp add: viewLe_ensure)

lemma viewLe_step: "mlsStep c s s' \<Longrightarrow> viewLe s s'"
proof (induction rule: mlsStep.induct)
  case (step_remove now channel cm target tok ws s r s' outs)
  then show ?case by (auto simp: removeMember_def split: outcome.splits intro: viewLe_advance)
next
  case (step_apply now channel b e s ok s')
  then show ?case
    using applyIncomingCommit_cases [OF step_apply] viewLe_upd groupLe_next viewLe_same by (meson less_imp_le)
next
  case (step_encrypt now rs iv channel sender plain s env s')
  then obtain st s1 k where e: "ensureGroup now rs channel sender ''auto'' s = (st, s1)" "getEpochApplicationKey c st s1 = Done (k, s')"
    by (auto simp: encryptGroupMessage_def split: prod.splits outcome.splits)
  then show ?case by (meson viewLe_ensure viewLe_same viewLe_trans getEpochApplicationKey_view)
next
  case (step_decrypt channel env s res s')
  have "groupView s' = groupView s"
    using step_decrypt
    by (auto simp: decryptGroupMessage_def dest!: getEpochApplicationKey_view getLocal_view(1)
        split: option.splits prod.splits outcome.splits if_splits)
  then show ?case by (rule viewLe_same)
next
  case (step_export channel part s mk s')
  have "groupView s' = groupView s"
    using step_export by (auto simp: exportGroupMediaKey_def Let_def dest!: getLocal_view(1) split: option.splits prod.splits)
  then show ?case by (rule viewLe_same)
qed (auto intro: viewLe_advance viewLe_add)

text \<open>
  Over any sequence of local changes, received commits and messages, the epoch of a group
  never goes back and no user ever occupies two leaves of its tree.
\<close>
theorem group_epoch_monotone:
  assumes "(mlsStep c)\<^sup>*\<^sup>* s s'" and "groupView s ch = Some st" and "uniqueMembers st"
  shows "\<exists>st'. groupView s' ch = Some st' \<and> epoch st \<le> epoch st' \<and> uniqueMembers st'"
proof -
  have "viewLe s s'"
    using assms(1) by (induction rule: rtranclp_induct) (auto intro: viewLe_same viewLe_trans viewLe_step)
  then show ?thesis using assms(2,3) by (fastforce simp: viewLe_def groupLe_def split: option.splits)
qed

section \<open>Agreement between members\<close>

text \<open>
  A state replicated by messages: performing an operation changes the own copy and yields
  messages, receiving them changes another copy, and one step keeps two copies in agreement.
\<close>

fun performAll :: "('op \<Rightarrow> 's \<Rightarrow> 's \<times> 'm list) \<Rightarrow> 'op list \<Rightarrow> 's \<Rightarrow> 's \<times> 'm list" where
  "performAll perform [] s = (s, [])"
| "performAll perform (x # xs) s =
     (let (s1, ms) = perform x s; (s2, ms') = performAll perform xs s1 in (s2, ms @ ms'))"

locale replicated =
  fixes perform :: "'op \<Rightarrow> 's \<Rightarrow> 's \<times> 'm list"
    and receive :: "'m \<Rightarrow> 's \<Rightarrow> 's"
    and agree :: "'s \<Rightarrow> 's \<Rightarrow> bool"
  assumes agree_step: "agree s p \<Longrightarrow> agree (fst (perform x s)) (fold receive (snd (perform x s)) p)"
begin

lemma agree_run: "agree s p \<Longrightarrow> agree (fst (performAll perform xs s)) (fold receive (snd (performAll perform xs s)) p)"
proof (induction xs arbitrary: s p)
  case (Cons x xs)
  then have "agree (fst (perform x s)) (fold receive (snd (perform x s)) p)" by (simp add: agree_step)
  from Cons.IH [OF this] show ?case by (simp add: Let_def split_beta)
qed simp

end

datatype groupOp =
    Rotate int string
  | Kick int string string
  | Invite int bytes "string \<Rightarrow> keyPackageAnswer http" string string

text \<open>One change of a group by its owner, with the commits that go to the live peers.\<close>

definition wsCommits :: "mlsOut list \<Rightarrow> (int \<times> MlsCommitEnvelope blob) list" where
  "wsCommits outs = List.map_filter (\<lambda>out. case out of WsCommit ch e b \<Rightarrow> Some (e, b) | _ \<Rightarrow> None) outs"

fun groupPerform ::
  "mlsCrypto \<Rightarrow> string \<Rightarrow> groupOp \<Rightarrow> mlsState \<Rightarrow> mlsState \<times> (int \<times> MlsCommitEnvelope blob) list" where
  "groupPerform c ch (Rotate now who) s =
     (case advanceEpoch c now ch who None None True s of Rejected \<Rightarrow> (s, []) | Done (_, s', outs) \<Rightarrow> (s', wsCommits outs))"
| "groupPerform c ch (Kick now who target) s =
     (case removeMember c now ch who target None True s of Rejected \<Rightarrow> (s, []) | Done (_, s', outs) \<Rightarrow> (s', wsCommits outs))"
| "groupPerform c ch (Invite now rs fetch who user) s =
     (case addMember c now rs fetch ch user who [] True s of Rejected \<Rightarrow> (s, []) | Done (_, s', outs) \<Rightarrow> (s', wsCommits outs))"

definition groupReceive :: "mlsCrypto \<Rightarrow> string \<Rightarrow> int \<times> MlsCommitEnvelope blob \<Rightarrow> mlsState \<Rightarrow> mlsState" where
  "groupReceive c ch m p = snd (applyIncomingCommit c 0 ch (snd m) (fst m) p)"

definition sameGroup :: "MlsLocalGroupState \<Rightarrow> MlsLocalGroupState \<Rightarrow> bool" where
  "sameGroup st pt \<longleftrightarrow> groupId st = groupId pt \<and> epoch st = epoch pt \<and> epochSecretHex st = epochSecretHex pt
     \<and> members st = members pt"

definition agreeOn :: "string \<Rightarrow> mlsState \<Rightarrow> mlsState \<Rightarrow> bool" where
  "agreeOn ch s p \<longleftrightarrow>
     (case (groupView s ch, groupView p ch) of (Some st, Some pt) \<Rightarrow> sameGroup st pt | _ \<Rightarrow> False)"

lemma agreeOn_obtain:
  assumes "agreeOn ch s p"
  obtains st pt where "groupView s ch = Some st" "groupView p ch = Some pt" "sameGroup st pt"
  using assms by (auto simp: agreeOn_def split: option.splits)

lemma agreeOnI: "groupView s ch = Some st \<Longrightarrow> groupView p ch = Some pt \<Longrightarrow> sameGroup st pt \<Longrightarrow> agreeOn ch s p"
  by (simp add: agreeOn_def)

text \<open>A commit for the next epoch brings a peer that agreed with the committer to the new state.\<close>

lemma commit_agrees:
  assumes "agreeOn ch s p" and st: "groupView s ch = Some st"
    and sec: "nextSecret c ch (epoch st + 1) (epochSecretHex st) = Some secretHex"
    and s': "groupView s' = (groupView s)(ch \<mapsto> nextState c now ch secretHex (commitMembers commit (members st)) st (epoch st + 1))"
  shows "fst (applyIncomingCommit c now' ch (Blob commit) (epoch st + 1) p)
    \<and> agreeOn ch s' (snd (applyIncomingCommit c now' ch (Blob commit) (epoch st + 1) p))"
proof -
  obtain pt where pt: "groupView p ch = Some pt" "sameGroup st pt"
    using assms(1) st by (auto elim: agreeOn_obtain)
  then have "epoch pt < epoch st + 1" "nextSecret c ch (epoch st + 1) (epochSecretHex pt) = Some secretHex"
    using sec by (simp_all add: sameGroup_def)
  from applyIncomingCommit_applies [OF pt(1) this, of now' commit] pt(2) show ?thesis
    by (auto simp: s' nextState_def sameGroup_def intro!: agreeOnI)
qed

lemma agreeOn_cong: "groupView s' = groupView s \<Longrightarrow> agreeOn ch s p \<Longrightarrow> agreeOn ch s' p"
  by (simp add: agreeOn_def)

lemma agree_advance:
  assumes "agreeOn ch s p" "advanceEpoch c now ch cm rm tok True s = Done (r, s', outs)"
  shows "agreeOn ch s' (fold (groupReceive c ch) (wsCommits outs) p)"
  using assms(2)
proof (cases rule: advanceEpoch_cases)
  case 1
  then show ?thesis using assms(1) by (auto simp: wsCommits_def List.map_filter_simps intro: agreeOn_cong)
next
  case (2 st secretHex commit)
  have "wsCommits outs = [(epoch st + 1, Blob commit)]" using 2(7) by (simp add: wsCommits_def List.map_filter_simps)
  then show ?thesis
    using commit_agrees [OF assms(1) 2(1,2), of s' now commit] 2(3,4) by (simp add: groupReceive_def)
qed

lemma agree_add:
  assumes "agreeOn ch s p" "addMember c now rs fetch ch user cm tok True s = Done (r, s', outs)"
  shows "agreeOn ch s' (fold (groupReceive c ch) (wsCommits outs) p)"
proof -
  have e: "groupView s ch = Some st \<and> groupView s1 = groupView s"
    if "ensureGroup now rs ch cm ''creator_root'' s = (st, s1)" for st s1
    using ensureGroup_cases [OF that] assms(1) by (auto simp: agreeOn_def)
  from assms(2) show ?thesis
  proof (cases rule: addMember_cases)
    case (1 st s1)
    then show ?thesis using assms(1) e [OF 1(1)] by (auto simp: wsCommits_def List.map_filter_simps intro: agreeOn_cong)
  next
    case (2 st s1 bits commit wel)
    have "wsCommits outs = [(epoch st + 1, Blob commit)]" using 2(10) by (simp add: wsCommits_def List.map_filter_simps)
    moreover have "nextSecret c ch (epoch st + 1) (epochSecretHex st) = Some (bytesToHex bits)"
      using 2(3) by (simp add: nextSecret_def)
    ultimately show ?thesis
      using commit_agrees [OF assms(1), of st c "bytesToHex bits" s' now commit] 2(4,5) e [OF 2(1)]
      by (simp add: groupReceive_def)
  qed
qed

interpretation mls: replicated "groupPerform c ch" "groupReceive c ch" "agreeOn ch" for c ch
proof
  fix s p x
  assume "agreeOn ch s p"
  then show "agreeOn ch (fst (groupPerform c ch x s)) (fold (groupReceive c ch) (snd (groupPerform c ch x s)) p)"
    by (cases x) (auto simp: removeMember_def wsCommits_def truthy_def split: outcome.splits
        dest: agree_advance [unfolded wsCommits_def] agree_add [unfolded wsCommits_def])
qed

text \<open>
  C6. Two members that agree on a group stay in agreement: whatever sequence of key rotations,
  removals and invitations one of them performs, a peer that receives the broadcast commits in
  order ends with the same epoch, the same epoch secret and the same tree.
\<close>
theorem members_stay_in_agreement:
  assumes "agreeOn ch s p"
  shows "agreeOn ch (fst (performAll (groupPerform c ch) xs s))
    (fold (groupReceive c ch) (snd (performAll (groupPerform c ch) xs s)) p)"
  using assms by (rule mls.agree_run)

section \<open>Messages between members\<close>

text \<open>The cached application key of the current epoch, if any, was derived from the current secret.\<close>

definition appCacheOk :: "mlsCrypto \<Rightarrow> string \<Rightarrow> mlsState \<Rightarrow> bool" where
  "appCacheOk c ch s \<longleftrightarrow>
     (case groupView s ch of
        None \<Rightarrow> True
      | Some st \<Rightarrow> (case jsGet (appKeyCache s) (appCacheKey st) of None \<Rightarrow> True | Some k \<Rightarrow> deriveAppKey c st = Some k))"

lemma appKey_derived:
  assumes "appCacheOk c ch s" "groupView s ch = Some st" "appKeyCache s1 = appKeyCache s" "deriveAppKey c st = Some k"
  shows "\<exists>s2. getEpochApplicationKey c st s1 = Done (k, s2)"
  using assms by (auto simp: getEpochApplicationKey_def appCacheOk_def split: option.splits)

lemma encryptGroup_known:
  assumes "appCacheOk c ch s" "groupView s ch = Some st" "deriveAppKey c st = Some k"
  shows "\<exists>s'. encryptGroupMessage c now rs iv ch sender plain s =
    Done (Blob \<lparr>eProtocol = ''genchat-mls-v1'', eGroupId = ch, eEpoch = epoch st, eSenderId = sender,
      eIvHex = bytesToHex iv, eCiphertextBase64 = bufferToBase64 (seal (gcm c) k iv [] (textEncode plain))\<rparr>, s')"
proof -
  obtain s1 where s1: "getLocalGroupState ch s = (Some st, s1)" using getLocal_Some [OF assms(2)] by blast
  then have "appKeyCache s1 = appKeyCache s" by (rule getLocal_view)
  from appKey_derived [OF assms(1,2) this assms(3)] show ?thesis
    using s1 by (auto simp: encryptGroupMessage_def ensureGroup_def)
qed

lemma decryptGroup_known:
  assumes "appCacheOk c ch p" "groupView p ch = Some pt" "deriveAppKey c pt = Some k"
    and "aeadCorrect (gcm c)" "iv \<noteq> []"
  shows "fst (decryptGroupMessage c ch (Blob \<lparr>eProtocol = ''genchat-mls-v1'', eGroupId = g, eEpoch = e, eSenderId = sender,
      eIvHex = bytesToHex iv, eCiphertextBase64 = bufferToBase64 (seal (gcm c) k iv [] (textEncode plain))\<rparr>) p) = Plain plain"
proof -
  obtain s1 where s1: "getLocalGroupState ch p = (Some pt, s1)" using getLocal_Some [OF assms(2)] by blast
  then have "appKeyCache s1 = appKeyCache p" by (rule getLocal_view)
  from appKey_derived [OF assms(1,2) this assms(3)] show ?thesis
    using s1 assms(4,5) by (auto simp: decryptGroupMessage_def codec_simps)
qed

lemma deriveAppKey_same: "sameGroup st pt \<Longrightarrow> deriveAppKey c pt = deriveAppKey c st"
  by (simp add: sameGroup_def deriveAppKey_def)

text \<open>
  A message that one member encrypts is read by every member that agrees with it on the
  group, provided neither has an application key cached from another secret of the same epoch.
\<close>
theorem group_message_roundtrip:
  assumes "aeadCorrect (gcm c)" and "agreeOn ch s p" and "appCacheOk c ch s" and "appCacheOk c ch p" and "iv \<noteq> []"
    and "encryptGroupMessage c now rs iv ch sender plain s = Done (payload, s')"
  shows "fst (decryptGroupMessage c ch payload p) = Plain plain"
proof -
  obtain st pt where v: "groupView s ch = Some st" "groupView p ch = Some pt" "sameGroup st pt"
    using assms(2) by (rule agreeOn_obtain)
  obtain s1 where s1: "getLocalGroupState ch s = (Some st, s1)" using getLocal_Some [OF v(1)] by blast
  then have k1: "appKeyCache s1 = appKeyCache s" by (rule getLocal_view)
  have "deriveAppKey c st \<noteq> None"
    using assms(3,6) v(1) s1 k1
    by (auto simp: encryptGroupMessage_def ensureGroup_def getEpochApplicationKey_def appCacheOk_def split: option.splits outcome.splits)
  then obtain k where k: "deriveAppKey c st = Some k" by blast
  from encryptGroup_known [OF assms(3) v(1) k, of now rs iv sender plain] assms(6)
  have "payload = Blob \<lparr>eProtocol = ''genchat-mls-v1'', eGroupId = ch, eEpoch = epoch st, eSenderId = sender,
      eIvHex = bytesToHex iv, eCiphertextBase64 = bufferToBase64 (seal (gcm c) k iv [] (textEncode plain))\<rparr>"
    by auto
  then show ?thesis
    using decryptGroup_known [OF assms(4) v(2) _ assms(1,5), of k] deriveAppKey_same [OF v(3)] k by simp
qed

section \<open>Removal\<close>

text \<open>
  Removing a member does not take the key away from it: the next epoch secret is derived from
  the previous one and public values only, so the client of the removed member, which agreed on
  the group before, accepts the broadcast commit and ends with the new epoch secret, although it
  is no longer in the tree.
\<close>
theorem removed_member_derives_secret:
  assumes "agreeOn ch s p" and "target \<noteq> []"
    and "removeMember c now ch committer target tok True s = Done (Some st', s', outs)"
    and "WsCommit ch e commit \<in> set outs"
  shows "fst (applyIncomingCommit c now' ch commit e p)
    \<and> map_option epochSecretHex (groupView (snd (applyIncomingCommit c now' ch commit e p)) ch) = Some (epochSecretHex st')
    \<and> target \<notin> leafUserId ` set (members st')"
proof -
  obtain outs' where adv: "advanceEpoch c now ch committer (Some target) tok True s = Done (Some st', s', outs')"
    and outs: "WsCommit ch e commit \<in> set outs'"
    using assms(3,4) by (auto simp: removeMember_def split: outcome.splits if_splits)
  from adv show ?thesis
  proof (cases rule: advanceEpoch_cases)
    case (2 st secretHex cm)
    then have e: "e = epoch st + 1" "commit = Blob cm" using outs by (auto split: if_splits)
    have "agreeOn ch s' (snd (applyIncomingCommit c now' ch commit e p))" "fst (applyIncomingCommit c now' ch commit e p)"
      unfolding e using commit_agrees [OF assms(1) 2(1,2), of s' now cm now'] 2(3,4) by simp_all
    moreover have "groupView s' ch = Some st'" using 2(3,4) by simp
    moreover have "target \<notin> leafUserId ` set (members st')"
      using 2(3,6) assms(2) by (auto simp: nextState_def commitMembers_def truthy_def)
    ultimately show ?thesis by (auto simp: agreeOn_def sameGroup_def split: option.splits)
  qed simp
qed

text \<open>
  The welcome that an invitation sends to the server carries the new epoch secret without
  encryption: decoding its base64 field gives the secret of the group.
\<close>
theorem invitation_reveals_secret:
  assumes "addMember c now rs fetch ch user cm tok ws s = Done (st', s', outs)"
    and "PostAddMember cid u e (Blob w) commit \<in> set outs"
  shows "map_option bytesToHex (base64ToBuffer (wEncryptedEpochSecretB64 w)) = Some (epochSecretHex st')"
  using assms(1)
proof (cases rule: addMember_cases)
  case (2 st s1 bits cm' wel)
  then have "w = wel" using assms(2) by (auto split: if_splits)
  then show ?thesis using 2(4,9) by (simp add: base64ToBuffer_bufferToBase64 nextState_def)
qed (use assms(2) in simp)

section \<open>Creating and joining\<close>

lemma jsGet_collectPackages:
  "jsGet (collectPackages fetch creator uids acc) u =
     (if u \<in> set uids \<and> u \<noteq> creator \<and> fetchKeyPackage (fetch u) \<noteq> None then fetchKeyPackage (fetch u) else jsGet acc u)"
  by (induction uids arbitrary: acc) (auto split: option.splits)

lemma jsGet_map: "jsGet (map (\<lambda>(k, v). (k, f k v)) m) k = map_option (f k) (jsGet m k)"
  by (induction m) (auto simp: jsGet_def)

lemma jsGet_key: "jsGet m k = Some v \<Longrightarrow> (k, v) \<in> set m"
  by (simp add: jsGet_def map_of_SomeD)

lemma bytesToHex_not_pubkey: "\<not> startsWith (bytesToHex bs) ''pubkey_''"
proof (cases bs)
  case (Cons b cs)
  have "isHexDigit (digitChar (unat b div 16))" using hexDigit_ok [OF nibbles_less(1)] by blast
  then have "digitChar (unat b div 16) \<noteq> CHR ''p''" by (auto simp: isHexDigit_def Let_def)
  then show ?thesis by (simp add: Cons bytesToHex_concat hexByte_digits startsWith_def)
qed (simp add: bytesToHex_concat startsWith_def)

lemma bytesToHex_eq_Nil [simp]: "bytesToHex bs = [] \<longleftrightarrow> bs = []"
  by (simp add: length_bytesToHex flip: length_0_conv)

text \<open>The ECDH agreement of the encapsulated key and the joiner's key package.\<close>

definition ecdhAgree :: "mlsCrypto \<Rightarrow> welcomeRandom \<Rightarrow> bytes \<Rightarrow> bytes \<Rightarrow> bool" where
  "ecdhAgree c r pub priv \<longleftrightarrow> ecdh c (encapPriv r) pub = ecdh c priv (encapPub r) \<and> ecdh c priv (encapPub r) \<noteq> None"

lemma unwrap_wrap:
  assumes "aeadCorrect (gcm c)" "ecdhAgree c r pub priv" "pub \<noteq> []" "priv \<noteq> []" "encapPub r \<noteq> []"
    and "wrapSecret c r uid (bytesToHex pub) secret = (enc, iv, eph)"
    and "wEphemeralPublicKeyHex w = eph" "wEncryptedEpochSecretB64 w = enc" "wIvB64 w = iv"
  shows "unwrapSecret c (Some (bytesToHex priv)) w = Some secret"
proof -
  obtain shared where sh: "ecdh c priv (encapPub r) = Some shared" "ecdh c (encapPriv r) pub = Some shared"
    using assms(2) by (auto simp: ecdhAgree_def)
  have "enc = bufferToBase64 (seal (gcm c) shared (welcomeIv r) [] secret)" "iv = bufferToBase64 (welcomeIv r)"
    "eph = bytesToHex (encapPub r)"
    using assms(3,6) sh bytesToHex_not_pubkey [of pub] by (auto simp: wrapSecret_def codec_simps Let_def)
  then show ?thesis
    using assms(1,4,5,7-9) sh by (simp add: unwrapSecret_def codec_simps)
qed

lemma buildTree_leaf:
  assumes "jsGet pkgs uid \<noteq> None"
  shows "\<exists>m \<in> set (buildTree creator pkgs). leafUserId m = uid"
proof -
  obtain pkg where "(uid, pkg) \<in> set pkgs" using assms jsGet_key by fastforce
  then obtain i where i: "i < length pkgs" "pkgs ! i = (uid, pkg)" by (meson in_set_conv_nth)
  then have "buildTree creator pkgs ! Suc i = \<lparr>leafIndex = int (Suc i), leafUserId = uid, leafPublicKeyHex = kpPublicKeyHex pkg\<rparr>"
    by (simp add: buildTree_def del: upt_Suc)
  moreover have "Suc i < length (buildTree creator pkgs)" using i by (simp add: buildTree_def)
  ultimately show ?thesis by (metis nth_mem leaf.select_convs(2))
qed

lemma hpkePrivateKey_device:
  assumes "generateKeyPackage c t (pub, priv) uid dev j0 = ((pkg, privHex), j)" "sessionWritable j0"
    and "sessionItem ''genchat_current_device_id'' j0 = Some dev" "priv \<noteq> []"
  shows "hpkePrivateKey uid j = Some (bytesToHex priv) \<and> kpPublicKeyHex pkg = bytesToHex pub
    \<and> sessionReadable j = sessionReadable j0"
  using assms
  by (auto simp: generateKeyPackage_def hpkePrivateKey_def sessionItem_def orElse_def Let_def split: option.splits if_splits)

text \<open>
  C36. A member invited at the creation of a group joins it: from the welcome the creator sent for
  it, the client whose key package was used unwraps the same epoch secret, stores the same epoch
  and tree as the creator, and finds its own leaf there.
\<close>
theorem welcome_roundtrip:
  assumes "aeadCorrect (gcm c)"
    and joiner: "generateKeyPackage c t (pub, priv) uid dev j0 = ((pkg, privHex), j)"
      "sessionWritable j0" "sessionReadable j0" "sessionItem ''genchat_current_device_id'' j0 = Some dev"
    and keys: "ecdhAgree c (rnd uid) pub priv" "pub \<noteq> []" "priv \<noteq> []" "encapPub (rnd uid) \<noteq> []"
    and invited: "uid \<in> set uids" "uid \<noteq> creator" "fetchKeyPackage (fetch uid) = Some pkg"
    and created: "createGroup c now rnd secret fetch post name uids creator s = Done (Some st, s')"
    and sent: "jsGet (reqWelcomes (createRequestOf c now rnd secret (collectPackages fetch creator uids []) name uids creator)) uid = Some wb"
  shows "\<exists>st2 j'. joinGroup c now' (HttpOk (Some wb)) (groupId st) uid j = Done (Some st2, j')
    \<and> sameGroup st st2 \<and> groupView j' (groupId st) = Some st2
    \<and> list_ex (\<lambda>m. leafUserId m = uid \<and> leafIndex m = myLeafIndex st2) (members st2)"
proof -
  define pkgs where "pkgs = collectPackages fetch creator uids []"
  have pkg: "jsGet pkgs uid = Some pkg" using invited by (simp add: pkgs_def jsGet_collectPackages)
  have hp: "hpkePrivateKey uid j = Some (bytesToHex priv)" "kpPublicKeyHex pkg = bytesToHex pub" "sessionReadable j"
    using hpkePrivateKey_device [OF joiner(1,2,4) keys(3)] joiner(3) by auto
  let ?w = "makeWelcome c rnd creator secret (buildTree creator pkgs) uid pkg"
  have wb: "wb = Blob ?w"
    using sent pkg by (simp add: createRequestOf_def jsGet_map flip: pkgs_def)
  have st: "st = \<lparr>groupId = groupId st, epoch = 0, myLeafIndex = 0, epochSecretHex = bytesToHex secret,
      members = buildTree creator pkgs, updatedAt = now\<rparr>"
    using created by (auto simp: createGroup_def Let_def pkgs_def split: http.splits)
  obtain enc iv eph where wr: "wrapSecret c (rnd uid) uid (bytesToHex pub) secret = (enc, iv, eph)"
    by (metis surj_pair)
  have w: "wEphemeralPublicKeyHex ?w = eph" "wEncryptedEpochSecretB64 ?w = enc" "wIvB64 ?w = iv"
    "wRatchetTree ?w = buildTree creator pkgs" "wEpoch ?w = 0"
    using wr hp(2) by (simp_all add: makeWelcome_def)
  have un: "unwrapSecret c (hpkePrivateKey uid j) ?w = Some secret"
    unfolding hp(1) by (rule unwrap_wrap [OF assms(1) keys wr w(1-3)])
  obtain m where m: "find (\<lambda>m. leafUserId m = uid) (buildTree creator pkgs) = Some m" "m \<in> set (buildTree creator pkgs)" "leafUserId m = uid"
    using buildTree_leaf [of pkgs uid creator] pkg
    by (cases "find (\<lambda>m. leafUserId m = uid) (buildTree creator pkgs)") (auto simp: find_None_iff find_Some_iff)
  then show ?thesis
    using un hp(3) w(4,5) arg_cong [OF st, of epoch] arg_cong [OF st, of epochSecretHex] arg_cong [OF st, of members]
    by (auto simp: joinGroup_def wb acceptWelcome_def group_defs sameGroup_def list_ex_iff)
qed

section \<open>Examples\<close>

definition exampleCrypto :: mlsCrypto where
  "exampleCrypto = \<lparr>hkdf = (\<lambda>secret salt info. secret @ salt), sha256 = (\<lambda>x. x), ecdh = (\<lambda>priv pub. Some [7]), gcm = tagAead\<rparr>"

definition exampleGroup :: MlsLocalGroupState where
  "exampleGroup =
     \<lparr>groupId = ''g'', epoch = 0, myLeafIndex = 0, epochSecretHex = bytesToHex [1, 2],
      members = [\<lparr>leafIndex = 0, leafUserId = ''a'', leafPublicKeyHex = ''k''\<rparr>,
                 \<lparr>leafIndex = 1, leafUserId = ''b'', leafPublicKeyHex = ''l''\<rparr>], updatedAt = 0\<rparr>"

definition exampleMls :: mlsState where
  "exampleMls =
     \<lparr>groupCache = [(''g'', exampleGroup)], appKeyCache = [], groupStore = [], storeReadable = True, storeWritable = True,
      session = [(''genchat_current_device_id'', ''dev'')], sessionReadable = True, sessionWritable = True\<rparr>"

lemma exampleMls_local: "getLocalGroupState ''g'' exampleMls = (Some exampleGroup, exampleMls)"
  by (simp add: getLocalGroupState_def exampleMls_def jsGet_def)

lemma exampleMls_ok:
  "groupView exampleMls ''g'' = Some exampleGroup" "agreeOn ''g'' exampleMls exampleMls" "uniqueMembers exampleGroup"
  "appCacheOk c ''g'' exampleMls" "aeadCorrect (gcm exampleCrypto)"
  by (simp_all add: groupView_def exampleMls_local agreeOn_def sameGroup_def appCacheOk_def tagAead_ok exampleCrypto_def)
    (simp_all add: exampleMls_def jsGet_def uniqueMembers_def exampleGroup_def)

lemma example_nextSecret:
  "\<exists>bits. nextSecretBits exampleCrypto ''g'' (epoch exampleGroup + 1) (epochSecretHex exampleGroup) = Some bits"
  by (simp add: nextSecretBits_def exampleGroup_def codec_simps)

theorem group_epoch_monotone_witness:
  "\<exists>s' st'. mlsStep exampleCrypto exampleMls s' \<and> groupView s' ''g'' = Some st' \<and> 0 \<le> epoch st' \<and> uniqueMembers st'"
proof -
  obtain bits where "nextSecretBits exampleCrypto ''g'' (epoch exampleGroup + 1) (epochSecretHex exampleGroup) = Some bits"
    using example_nextSecret by blast
  then obtain r s' outs where "advanceEpoch exampleCrypto 1 ''g'' ''a'' None None True exampleMls = Done (r, s', outs)"
    by (auto simp: advanceEpoch_def exampleMls_local nextSecret_def Let_def)
  then have step: "mlsStep exampleCrypto exampleMls s'" by (rule step_advance)
  then have "(mlsStep exampleCrypto)\<^sup>*\<^sup>* exampleMls s'" by simp
  from group_epoch_monotone [OF this exampleMls_ok(1,3)] step show ?thesis
    by (auto simp: exampleGroup_def)
qed

theorem members_stay_in_agreement_witness:
  "agreeOn ''g'' (fst (performAll (groupPerform exampleCrypto ''g'') [Rotate 1 ''a'', Kick 2 ''a'' ''b''] exampleMls))
    (fold (groupReceive exampleCrypto ''g'')
       (snd (performAll (groupPerform exampleCrypto ''g'') [Rotate 1 ''a'', Kick 2 ''a'' ''b''] exampleMls)) exampleMls)"
  using exampleMls_ok(2) by (rule members_stay_in_agreement)

theorem group_message_roundtrip_witness:
  "\<exists>payload s'. encryptGroupMessage exampleCrypto 1 [] [9] ''g'' ''a'' ''hello'' exampleMls = Done (payload, s')
     \<and> fst (decryptGroupMessage exampleCrypto ''g'' payload exampleMls) = Plain ''hello''"
proof -
  have "\<exists>k. deriveAppKey exampleCrypto exampleGroup = Some k" by (simp add: deriveAppKey_def exampleGroup_def codec_simps)
  then obtain payload s' where e: "encryptGroupMessage exampleCrypto 1 [] [9] ''g'' ''a'' ''hello'' exampleMls = Done (payload, s')"
    using encryptGroup_known [OF exampleMls_ok(4,1)] by blast
  with group_message_roundtrip [OF exampleMls_ok(5,2,4,4) _ e] show ?thesis by auto
qed

theorem removed_member_derives_secret_witness:
  "\<exists>st' s' outs commit. removeMember exampleCrypto 1 ''g'' ''a'' ''b'' None True exampleMls = Done (Some st', s', outs)
     \<and> map_option epochSecretHex (groupView (snd (applyIncomingCommit exampleCrypto 2 ''g'' commit 1 exampleMls)) ''g'')
         = Some (epochSecretHex st')"
proof -
  obtain bits where "nextSecretBits exampleCrypto ''g'' (epoch exampleGroup + 1) (epochSecretHex exampleGroup) = Some bits"
    using example_nextSecret by blast
  then obtain st' s' outs commit where
    r: "removeMember exampleCrypto 1 ''g'' ''a'' ''b'' None True exampleMls = Done (Some st', s', outs)"
      "WsCommit ''g'' (epoch exampleGroup + 1) commit \<in> set outs"
    by (auto simp: removeMember_def advanceEpoch_def exampleMls_local nextSecret_def truthy_def Let_def)
  have "''b'' \<noteq> []" by simp
  from removed_member_derives_secret [OF exampleMls_ok(2) this r, of 2] r(1) show ?thesis
    by (auto simp: exampleGroup_def)
qed

theorem invitation_reveals_secret_witness:
  "\<exists>st' s' outs (w :: MlsWelcomeEnvelope). addMember exampleCrypto 1 [] (\<lambda>_. NetFail) ''g'' ''z'' ''a'' ''tok'' False exampleMls = Done (st', s', outs)
     \<and> map_option bytesToHex (base64ToBuffer (wEncryptedEpochSecretB64 w)) = Some (epochSecretHex st')"
proof -
  obtain bits where b: "nextSecretBits exampleCrypto ''g'' (epoch exampleGroup + 1) (epochSecretHex exampleGroup) = Some bits"
    using example_nextSecret by blast
  have "\<not> list_ex (\<lambda>m. leafUserId m = ''z'') (members exampleGroup)" by (simp add: exampleGroup_def)
  with b obtain st' s' outs w commit where
    r: "addMember exampleCrypto 1 [] (\<lambda>_. NetFail) ''g'' ''z'' ''a'' ''tok'' False exampleMls = Done (st', s', outs)"
      "PostAddMember (cleanId ''g'') ''z'' (epoch exampleGroup + 1) (Blob w) commit \<in> set outs"
    by (auto simp: addMember_def ensureGroup_def exampleMls_local Let_def)
  from invitation_reveals_secret [OF r] r(1) show ?thesis by blast
qed

definition exampleRandom :: "string \<Rightarrow> welcomeRandom" where
  "exampleRandom uid = \<lparr>encapPub = [3], encapPriv = [4], welcomeIv = [5]\<rparr>"

definition exampleFetch :: "string \<Rightarrow> keyPackageAnswer http" where
  "exampleFetch uid =
     HttpOk \<lparr>ansRaw = Some (Blob (fst (fst (generateKeyPackage exampleCrypto 0 ([11], [12]) uid ''dev'' exampleMls)))),
             ansSnake = None, ansCamel = None\<rparr>"

theorem welcome_roundtrip_witness:
  "\<exists>st s' wb st2 j'. createGroup exampleCrypto 1 exampleRandom [1, 2] exampleFetch (\<lambda>_. HttpOk ''77'') ''team'' [''b''] ''a'' exampleMls
       = Done (Some st, s')
     \<and> joinGroup exampleCrypto 2 (HttpOk (Some wb)) (groupId st) ''b''
         (snd (generateKeyPackage exampleCrypto 0 ([11], [12]) ''b'' ''dev'' exampleMls)) = Done (Some st2, j')
     \<and> sameGroup st st2"
proof -
  let ?g = "generateKeyPackage exampleCrypto 0 ([11], [12]) ''b'' ''dev'' exampleMls"
  obtain pkg privHex j where g: "?g = ((pkg, privHex), j)" by (metis surj_pair)
  have s: "sessionWritable exampleMls" "sessionReadable exampleMls"
    "sessionItem ''genchat_current_device_id'' exampleMls = Some ''dev''"
    by (simp_all add: exampleMls_def sessionItem_def jsGet_def)
  have k: "ecdhAgree exampleCrypto (exampleRandom ''b'') [11] [12]" "[11] \<noteq> []" "[12] \<noteq> []" "encapPub (exampleRandom ''b'') \<noteq> []"
    by (simp_all add: ecdhAgree_def exampleCrypto_def exampleRandom_def)
  have f: "fetchKeyPackage (exampleFetch ''b'') = Some pkg"
    using g by (simp add: exampleFetch_def fetchKeyPackage_def orElse_def)
  have i: "''b'' \<in> set [''b'']" "''b'' \<noteq> ''a''" by simp_all
  obtain st s' where c: "createGroup exampleCrypto 1 exampleRandom [1, 2] exampleFetch (\<lambda>_. HttpOk ''77'') ''team'' [''b''] ''a'' exampleMls
      = Done (Some st, s')"
    by (simp add: createGroup_def Let_def)
  obtain wb where w: "jsGet (reqWelcomes (createRequestOf exampleCrypto 1 exampleRandom [1, 2]
      (collectPackages exampleFetch ''a'' [''b''] []) ''team'' [''b''] ''a'')) ''b'' = Some wb"
    using f by (simp add: createRequestOf_def jsGet_map)
  from welcome_roundtrip [OF exampleMls_ok(5) g s k i f c w, of 2] c g show ?thesis by auto
qed

end
