(* ===== verification/E2ee_Session.thy ===== *)
theory E2ee_Session
  imports Safety_Numbers Crypto_Api
begin

text \<open>
  \<open>E2eeService\<close> of \<open>packages/client-web/src/lib/e2ee-ratchet.ts\<close>: identity keys, pre-key bundles,
  the post-quantum handshake with retries, the session cache with its persisted copies, and the
  encryption and decryption of direct messages. The compiled handshake module, Web Crypto, the
  parser of a token's payload and the server's answers are parameters.
\<close>

section \<open>Data\<close>

record WasmIdentityBundle =
  identityKeyEd25519PubHex :: string
  identitySecrets :: string

record oneTimeKey =
  otkId :: int
  otkPublicHex :: string

record WasmPublicPreKeyBundle =
  identityKeyHex :: string
  identityKeyX25519Hex :: string
  signedPreKeyId :: int
  signedPreKeyPublicHex :: string
  signedPreKeySignatureHex :: string
  pqPreKeyId :: int
  pqPreKeyPublicHex :: string
  pqPreKeySignatureHex :: string
  oneTimePreKeys :: "oneTimeKey list"

record WasmPqxdhInitMessage =
  senderIdentityKeyHex :: string
  senderIdentityKeyX25519Hex :: string
  ephemeralKeyHex :: string
  pqCiphertextHex :: string
  usedSignedPreKeyId :: int
  usedPqPreKeyId :: int
  usedOneTimeKeyId :: "int option"

record EncryptedEnvelope =
  protocol :: string
  conversationId :: string
  sequenceNum :: int
  senderId :: string
  recipientId :: "string option"
  initMessage :: "WasmPqxdhInitMessage option"
  ivHex :: string
  ciphertextBase64 :: string
  senderFingerprint :: string
  insecureFallback :: bool

record ActiveSession =
  sessionKey :: key
  sharedSecretHex :: string
  peerIdentityKeyHex :: string
  pendingInitMessage :: "WasmPqxdhInitMessage option"

record PersistedSessionData =
  pSharedSecretHex :: string
  pPeerIdentityKeyHex :: string
  pCanonicalContextId :: string
  pPendingInitMessage :: "WasmPqxdhInitMessage option"

text \<open>A bundle as the server sends it: every key in base64, a missing object gives no field.\<close>

record wirePreKey =
  wpkId :: int
  wpkPublicKey :: string
  wpkSignature :: string

record wireBundle =
  wbIdentityKey :: string
  wbIdentityKeyX25519 :: string
  wbSignedPreKey :: "wirePreKey option"
  wbPqPreKey :: "wirePreKey option"
  wbOneTimePreKey :: "(int \<times> string) option"

record uploadedBundle =
  upDevice :: string
  upIdentityKey :: string
  upIdentityKeyX25519 :: string
  upSignedPreKey :: wirePreKey
  upPqPreKey :: wirePreKey
  upOneTimePreKeys :: "(int \<times> string) list"

record sessionUser =
  suUserId :: string
  suDeviceId :: string

record jwtPayload =
  jwtSub :: string
  jwtDeviceId :: string

record e2eeState =
  identityBundle :: "WasmIdentityBundle option"
  currentUserId :: string
  currentDeviceId :: string
  authToken :: string
  sessionCache :: "ActiveSession jsmap"
  peerIdentityKeys :: "string jsmap"
  pendingHandshakes :: "(ActiveSession \<times> WasmPqxdhInitMessage) option jsmap"
  persistedSessions :: "PersistedSessionData blob jsmap"
  persistedIdentities :: "WasmIdentityBundle blob jsmap"
  localReadable :: bool
  localWritable :: bool
  storedUser :: "sessionUser blob option"
  storedToken :: "string option"
  sessionEvents :: "string list"
  uploads :: "(string \<times> uploadedBundle) list"

text \<open>The functions the service calls: the handshake module, HKDF to an AES key, SHA-256, AES-GCM.\<close>

record e2eeCrypto =
  initiatePqxdh :: "WasmIdentityBundle \<Rightarrow> WasmPublicPreKeyBundle \<Rightarrow> (string \<times> WasmPqxdhInitMessage) outcome"
  receivePqxdh :: "WasmIdentityBundle \<Rightarrow> WasmPqxdhInitMessage \<Rightarrow> string outcome"
  hkdfKey :: "bytes \<Rightarrow> bytes \<Rightarrow> bytes \<Rightarrow> key"
  sha256d :: "bytes \<Rightarrow> bytes"
  gcmd :: aead

text \<open>What an operation meets: the token parser, newly generated keys, and the server.\<close>

record e2eeEnv =
  parseJwt :: "string \<Rightarrow> jwtPayload option"
  freshKeys :: "(WasmIdentityBundle \<times> WasmPublicPreKeyBundle) outcome"
  keyCount :: "int http"
  bundleOf :: "string \<Rightarrow> nat \<Rightarrow> wireBundle option http"
  uploadAnswer :: "unit http"
  freshIv :: bytes

section \<open>Who the user is\<close>

definition tokenPayload :: "(string \<Rightarrow> jwtPayload option) \<Rightarrow> string \<Rightarrow> jwtPayload option" where
  "tokenPayload parse t =
     (let parts = splitOn CHR ''.'' t
      in if length parts = 3
         then Option.bind (atob (map (\<lambda>ch. if ch = CHR ''-'' then CHR ''+'' else if ch = CHR ''_'' then CHR ''/'' else ch)
                                 (parts ! 1))) parse
         else None)"

definition tokenSubject :: "e2eeEnv \<Rightarrow> e2eeState \<Rightarrow> string" where
  "tokenSubject env s =
     (case Option.bind (storedToken s) (tokenPayload (parseJwt env)) of Some p \<Rightarrow> jwtSub p | None \<Rightarrow> [])"

text \<open>A stored user that does not parse ends the attempt before the token is looked at.\<close>

definition resolveUserId :: "e2eeEnv \<Rightarrow> string \<Rightarrow> e2eeState \<Rightarrow> string" where
  "resolveUserId env uid s =
     (if uid \<noteq> [] then uid
      else if currentUserId s \<noteq> [] then currentUserId s
      else case storedUser s of
             None \<Rightarrow> tokenSubject env s
           | Some (Garbage g) \<Rightarrow> if g = [] then tokenSubject env s else []
           | Some (Blob u) \<Rightarrow> if suUserId u \<noteq> [] then suUserId u else tokenSubject env s)"

definition extractPeerId :: "string \<Rightarrow> string \<Rightarrow> string" where
  "extractPeerId conv me =
     (let cleanId = (if startsWith conv ''dm:'' then drop 3 conv else conv)
      in if CHR '':'' \<in> set cleanId
         then let parts = filter (\<lambda>p. p \<noteq> [] \<and> p \<noteq> ''dm'') (splitOn CHR '':'' cleanId)
              in case find (\<lambda>p. p \<noteq> me) parts of
                   Some p \<Rightarrow> p
                 | None \<Rightarrow> (case parts of p # _ \<Rightarrow> p | [] \<Rightarrow> cleanId)
         else cleanId)"

definition getCanonicalContextId :: "string \<Rightarrow> string \<Rightarrow> string \<Rightarrow> string" where
  "getCanonicalContextId conv me explicitPeer =
     (if startsWith conv ''chan_'' then conv
      else let peer = (if explicitPeer \<noteq> [] then explicitPeer else extractPeerId conv me)
           in if peer \<noteq> [] \<and> me \<noteq> [] \<and> peer \<noteq> me
              then (case sortPair me peer of (a, b) \<Rightarrow> join '':'' [a, b])
              else conv)"

definition isUuid :: "string \<Rightarrow> bool" where
  "isUuid d \<longleftrightarrow> length d = 36 \<and>
     list_all (\<lambda>i. if i \<in> {8, 13, 18, 23} then d ! i = CHR ''-'' else isHexDigit (d ! i)) [0..<36]"

definition extractDeviceIdFromToken :: "e2eeEnv \<Rightarrow> string \<Rightarrow> e2eeState \<Rightarrow> string" where
  "extractDeviceIdFromToken env token s =
     (let t = (if token \<noteq> [] then token else if authToken s \<noteq> [] then authToken s
               else case storedToken s of Some t \<Rightarrow> t | None \<Rightarrow> [])
      in if t = [] then []
         else case tokenPayload (parseJwt env) t of
                Some p \<Rightarrow> if isUuid (jwtDeviceId p) then jwtDeviceId p else []
              | None \<Rightarrow> [])"

section \<open>Sessions\<close>

definition deriveKeyFromSecret :: "e2eeCrypto \<Rightarrow> string \<Rightarrow> string \<Rightarrow> key" where
  "deriveKeyFromSecret c secretHex contextId =
     hkdfKey c (hexMatchOrEmpty secretHex) (textEncode ''genchat_pqxdh_salt_2026'')
       (textEncode (''genchat_pq_session_'' @ contextId))"

definition getSessionStorageKey :: "e2eeEnv \<Rightarrow> string \<Rightarrow> string \<Rightarrow> e2eeState \<Rightarrow> string" where
  "getSessionStorageKey env me peer s = ''genchat_pq_session_'' @ resolveUserId env me s @ ''_'' @ peer"

definition notePeerKey :: "string \<Rightarrow> string \<Rightarrow> e2eeState \<Rightarrow> e2eeState" where
  "notePeerKey peer keyHex s =
     (if keyHex \<noteq> [] then s\<lparr>peerIdentityKeys := jsSet peer keyHex (peerIdentityKeys s)\<rparr> else s)"

definition restoreSession :: "e2eeCrypto \<Rightarrow> string \<Rightarrow> string \<Rightarrow> string \<Rightarrow> PersistedSessionData \<Rightarrow> ActiveSession" where
  "restoreSession c conv me peer d =
     (let contextId = (if CHR '':'' \<in> set (pCanonicalContextId d) \<or> startsWith (pCanonicalContextId d) ''chan_''
                       then pCanonicalContextId d else getCanonicalContextId conv me peer)
      in \<lparr>sessionKey = deriveKeyFromSecret c (pSharedSecretHex d) contextId, sharedSecretHex = pSharedSecretHex d,
          peerIdentityKeyHex = pPeerIdentityKeyHex d, pendingInitMessage = pPendingInitMessage d\<rparr>)"

definition getOrRestoreSession ::
  "e2eeCrypto \<Rightarrow> e2eeEnv \<Rightarrow> string \<Rightarrow> string \<Rightarrow> string \<Rightarrow> e2eeState \<Rightarrow> ActiveSession option \<times> e2eeState" where
  "getOrRestoreSession c env peer me conv s =
     (if peer = [] then (None, s)
      else case jsGet (sessionCache s) peer of
             Some ses \<Rightarrow> (Some ses, s)
           | None \<Rightarrow>
               let uid = resolveUserId env me s
               in if \<not> localReadable s then (None, s)
                  else case Option.bind (jsGet (persistedSessions s) (getSessionStorageKey env uid peer s)) parseBlob of
                         None \<Rightarrow> (None, s)
                       | Some d \<Rightarrow>
                           let ses = restoreSession c conv uid peer d
                           in (Some ses, notePeerKey peer (pPeerIdentityKeyHex d)
                                 (s\<lparr>sessionCache := jsSet peer ses (sessionCache s)\<rparr>)))"

definition saveSession ::
  "e2eeEnv \<Rightarrow> string \<Rightarrow> string \<Rightarrow> string \<Rightarrow> ActiveSession \<Rightarrow> e2eeState \<Rightarrow> e2eeState" where
  "saveSession env peer me conv ses s =
     (let uid = resolveUserId env me s;
          s1 = notePeerKey peer (peerIdentityKeyHex ses) (s\<lparr>sessionCache := jsSet peer ses (sessionCache s)\<rparr>);
          d = \<lparr>pSharedSecretHex = sharedSecretHex ses, pPeerIdentityKeyHex = peerIdentityKeyHex ses,
               pCanonicalContextId = getCanonicalContextId conv uid peer, pPendingInitMessage = pendingInitMessage ses\<rparr>;
          s2 = (if localWritable s1
                then s1\<lparr>persistedSessions := jsSet (getSessionStorageKey env uid peer s1) (Blob d) (persistedSessions s1)\<rparr>
                else s1)
      in s2\<lparr>sessionEvents := sessionEvents s2 @ [peer]\<rparr>)"

section \<open>Pre-key bundles\<close>

definition publishedBundle :: "WasmPublicPreKeyBundle \<Rightarrow> string \<Rightarrow> uploadedBundle" where
  "publishedBundle b device =
     \<lparr>upDevice = device, upIdentityKey = hexToBase64 (identityKeyHex b),
      upIdentityKeyX25519 = hexToBase64 (identityKeyX25519Hex b),
      upSignedPreKey = \<lparr>wpkId = signedPreKeyId b, wpkPublicKey = hexToBase64 (signedPreKeyPublicHex b),
                        wpkSignature = hexToBase64 (signedPreKeySignatureHex b)\<rparr>,
      upPqPreKey = \<lparr>wpkId = pqPreKeyId b, wpkPublicKey = hexToBase64 (pqPreKeyPublicHex b),
                    wpkSignature = hexToBase64 (pqPreKeySignatureHex b)\<rparr>,
      upOneTimePreKeys = map (\<lambda>k. (otkId k, hexToBase64 (otkPublicHex k))) (oneTimePreKeys b)\<rparr>"

text \<open>Every upload request is recorded in the state; the result says whether the server accepted it.\<close>

definition publishPreKeyBundle ::
  "e2eeEnv \<Rightarrow> WasmPublicPreKeyBundle \<Rightarrow> string \<Rightarrow> string \<Rightarrow> e2eeState \<Rightarrow> bool \<times> e2eeState" where
  "publishPreKeyBundle env b device token s =
     (case uploadAnswer env of HttpOk _ \<Rightarrow> True | _ \<Rightarrow> False,
      s\<lparr>uploads := uploads s @ [(token, publishedBundle b device)]\<rparr>)"

definition decodePreKey :: "wirePreKey option \<Rightarrow> (int \<times> string \<times> string) option" where
  "decodePreKey pk =
     (case pk of
        None \<Rightarrow> Some (1, [], [])
      | Some k \<Rightarrow>
          (case (base64ToHex (wpkPublicKey k), base64ToHex (wpkSignature k)) of
             (Some p, Some g) \<Rightarrow> Some (if wpkId k = 0 then 1 else wpkId k, p, g)
           | _ \<Rightarrow> None))"

definition decodeBundle :: "wireBundle \<Rightarrow> WasmPublicPreKeyBundle option" where
  "decodeBundle b =
     (case (case wbOneTimePreKey b of None \<Rightarrow> Some []
            | Some (i, p) \<Rightarrow> map_option (\<lambda>h. [\<lparr>otkId = i, otkPublicHex = h\<rparr>]) (base64ToHex p),
            base64ToHex (wbIdentityKey b),
            base64ToHex (if wbIdentityKeyX25519 b \<noteq> [] then wbIdentityKeyX25519 b else wbIdentityKey b),
            decodePreKey (wbSignedPreKey b), decodePreKey (wbPqPreKey b)) of
        (Some otks, Some ik, Some ikx, Some (si, sp, sg), Some (pi, pp, pg)) \<Rightarrow>
          Some \<lparr>identityKeyHex = ik, identityKeyX25519Hex = ikx, signedPreKeyId = si, signedPreKeyPublicHex = sp,
                signedPreKeySignatureHex = sg, pqPreKeyId = pi, pqPreKeyPublicHex = pp, pqPreKeySignatureHex = pg,
                oneTimePreKeys = otks\<rparr>
      | _ \<Rightarrow> None)"

definition fetchPreKeyBundle ::
  "wireBundle option http \<Rightarrow> string \<Rightarrow> string \<Rightarrow> e2eeState \<Rightarrow> WasmPublicPreKeyBundle option \<times> e2eeState" where
  "fetchPreKeyBundle answer peer token s =
     (if token = [] \<and> authToken s = [] then (None, s)
      else case answer of
             HttpOk (Some b) \<Rightarrow>
               (case decodeBundle b of
                  Some bundle \<Rightarrow> (Some bundle, notePeerKey peer (identityKeyHex bundle) s)
                | None \<Rightarrow> (None, s))
           | _ \<Rightarrow> (None, s))"

section \<open>Identity keys\<close>

definition identityStorageKey :: "string \<Rightarrow> string" where
  "identityStorageKey uid = ''genchat_pqxdh_identity_'' @ uid"

definition loadIdentity :: "string \<Rightarrow> e2eeState \<Rightarrow> WasmIdentityBundle option" where
  "loadIdentity uid s =
     (if localReadable s then Option.bind (jsGet (persistedIdentities s) (identityStorageKey uid)) parseBlob else None)"

definition storeIdentity :: "string \<Rightarrow> WasmIdentityBundle \<Rightarrow> e2eeState \<Rightarrow> e2eeState" where
  "storeIdentity uid b s =
     (if localWritable s
      then s\<lparr>persistedIdentities := jsSet (identityStorageKey uid) (Blob b) (persistedIdentities s)\<rparr> else s)"

definition effectiveDevice :: "e2eeEnv \<Rightarrow> string \<Rightarrow> string \<Rightarrow> e2eeState \<Rightarrow> string" where
  "effectiveDevice env deviceId accessToken s =
     (let tokenDev = extractDeviceIdFromToken env accessToken s
      in if isUuid deviceId then deviceId else if tokenDev \<noteq> [] then tokenDev else deviceId)"

definition installFreshKeys ::
  "string \<Rightarrow> WasmIdentityBundle \<Rightarrow> e2eeState \<Rightarrow> e2eeState" where
  "installFreshKeys uid ib s = storeIdentity uid ib (s\<lparr>identityBundle := Some ib\<rparr>)"

definition needsFreshKeys :: "int http \<Rightarrow> bool" where
  "needsFreshKeys answer = (case answer of NetFail \<Rightarrow> False | HttpError _ \<Rightarrow> True | HttpOk n \<Rightarrow> n = 0)"

definition initUserKeys ::
  "e2eeEnv \<Rightarrow> string \<Rightarrow> string \<Rightarrow> string \<Rightarrow> e2eeState \<Rightarrow> WasmIdentityBundle outcome \<times> e2eeState" where
  "initUserKeys env uid deviceId accessToken s =
     (let s1 = (if accessToken \<noteq> [] then s\<lparr>authToken := accessToken\<rparr> else s);
          device = effectiveDevice env deviceId accessToken s1;
          s2 = s1\<lparr>currentUserId := uid, currentDeviceId := device\<rparr>
      in case loadIdentity uid s2 of
           None \<Rightarrow>
             (case freshKeys env of
                Rejected \<Rightarrow> (Rejected, s2)
              | Done (ib, pb) \<Rightarrow>
                  let s3 = installFreshKeys uid ib s2
                  in (Done ib, if authToken s3 \<noteq> [] \<and> device \<noteq> []
                               then snd (publishPreKeyBundle env pb device (authToken s3) s3) else s3))
         | Some stored \<Rightarrow>
             let s3 = s2\<lparr>identityBundle := Some stored\<rparr>
             in if authToken s3 \<noteq> [] \<and> device \<noteq> [] \<and> needsFreshKeys (keyCount env)
                then (case freshKeys env of
                        Rejected \<Rightarrow> (Done stored, s3)
                      | Done (ib, pb) \<Rightarrow>
                          (Done ib, snd (publishPreKeyBundle env pb device (authToken s3) (installFreshKeys uid ib s3))))
                else (Done stored, s3))"

definition storedDeviceId :: "e2eeState \<Rightarrow> string" where
  "storedDeviceId s = (case storedUser s of Some (Blob u) \<Rightarrow> suDeviceId u | _ \<Rightarrow> [])"

definition deviceForKeys :: "e2eeEnv \<Rightarrow> string \<Rightarrow> e2eeState \<Rightarrow> string" where
  "deviceForKeys env token s =
     (if currentDeviceId s \<noteq> [] then currentDeviceId s
      else if extractDeviceIdFromToken env token s \<noteq> [] then extractDeviceIdFromToken env token s
      else if storedDeviceId s \<noteq> [] then storedDeviceId s
      else ''dev_client'')"

definition getPublicIdentityKey :: "e2eeState \<Rightarrow> string" where
  "getPublicIdentityKey s = (case identityBundle s of Some b \<Rightarrow> identityKeyEd25519PubHex b | None \<Rightarrow> [])"

definition getPeerIdentityKey :: "string \<Rightarrow> e2eeState \<Rightarrow> string" where
  "getPeerIdentityKey peer s = (case jsGet (peerIdentityKeys s) peer of Some k \<Rightarrow> k | None \<Rightarrow> [])"

definition getFingerprint :: "e2eeCrypto \<Rightarrow> string \<Rightarrow> string" where
  "getFingerprint c uid = bytesToHex (sha256d c (textEncode (''genchat_fingerprint:'' @ uid)))"

section \<open>The handshake with retries\<close>

definition initiatedSession ::
  "e2eeCrypto \<Rightarrow> string \<Rightarrow> string \<Rightarrow> string \<Rightarrow> WasmPublicPreKeyBundle \<Rightarrow> string \<Rightarrow> WasmPqxdhInitMessage \<Rightarrow> ActiveSession" where
  "initiatedSession c conv uid peer bundle secretHex m =
     \<lparr>sessionKey = deriveKeyFromSecret c secretHex (getCanonicalContextId conv uid peer), sharedSecretHex = secretHex,
      peerIdentityKeyHex = identityKeyHex bundle, pendingInitMessage = Some m\<rparr>"

definition attemptHandshake ::
  "e2eeCrypto \<Rightarrow> e2eeEnv \<Rightarrow> string \<Rightarrow> string \<Rightarrow> nat \<Rightarrow> e2eeState
    \<Rightarrow> (ActiveSession \<times> WasmPqxdhInitMessage) option \<times> e2eeState" where
  "attemptHandshake c env peer conv attempt s =
     (case fetchPreKeyBundle (bundleOf env peer attempt) peer (authToken s) s of
        (None, s1) \<Rightarrow> (None, s1)
      | (Some bundle, s1) \<Rightarrow>
          (case identityBundle s1 of
             None \<Rightarrow> (None, s1)
           | Some me \<Rightarrow>
               (case initiatePqxdh c me bundle of
                  Rejected \<Rightarrow> (None, s1)
                | Done (secretHex, m) \<Rightarrow>
                    let ses = initiatedSession c conv (currentUserId s1) peer bundle secretHex m
                    in (Some (ses, m), saveSession env peer (currentUserId s1) conv ses s1))))"

function handshakeLoop ::
  "e2eeCrypto \<Rightarrow> e2eeEnv \<Rightarrow> string \<Rightarrow> string \<Rightarrow> nat \<Rightarrow> nat \<Rightarrow> e2eeState
    \<Rightarrow> (ActiveSession \<times> WasmPqxdhInitMessage) option \<times> e2eeState" where
  "handshakeLoop c env peer conv maxRetries attempt s =
     (if attempt < maxRetries
      then case attemptHandshake c env peer conv (attempt + 1) s of
             (Some r, s1) \<Rightarrow> (Some r, s1)
           | (None, s1) \<Rightarrow> handshakeLoop c env peer conv maxRetries (attempt + 1) s1
      else (None, s))"
  by pat_completeness auto
termination
  by (relation "measure (\<lambda>(c, env, peer, conv, maxRetries, attempt, s). maxRetries - attempt)") auto

declare handshakeLoop.simps [simp del]

text \<open>
  The whole call, for a caller that nobody joins before it returns: a promise that is in flight for the peer when it
  comes is represented by the value it resolves to, which it gets without a handshake of its own. The theory
  \<open>Handshake_Flight\<close> models the same function with every suspension, for any number of callers, and shows that
  a caller that is alone gets this result in this state.
\<close>

definition establishSessionWithRetry ::
  "e2eeCrypto \<Rightarrow> e2eeEnv \<Rightarrow> string \<Rightarrow> string \<Rightarrow> nat \<Rightarrow> e2eeState
    \<Rightarrow> (ActiveSession \<times> WasmPqxdhInitMessage) option \<times> e2eeState" where
  "establishSessionWithRetry c env peer conv maxRetries s =
     (if identityBundle s = None then (None, s)
      else case jsGet (pendingHandshakes s) peer of
             Some r \<Rightarrow> (r, s)
           | None \<Rightarrow>
               (case handshakeLoop c env peer conv maxRetries 0 s of
                  (r, s1) \<Rightarrow> (r, s1\<lparr>pendingHandshakes := jsDelete peer (jsSet peer r (pendingHandshakes s1))\<rparr>)))"

section \<open>Encryption\<close>

datatype e2eeError = SessionBlocked string | KeysUnavailable

definition fallbackKey :: "e2eeCrypto \<Rightarrow> string \<Rightarrow> string \<Rightarrow> key" where
  "fallbackKey c conv sender =
     hkdfKey c (textEncode (''genchat_fallback_'' @ conv @ ''_'' @ sender)) (textEncode ''genchat_fallback_salt'')
       (textEncode (''fallback_'' @ conv))"

text \<open>The common start of \<open>encrypt\<close> and \<open>decrypt\<close>: the token and the user the operation runs for.\<close>

definition enterOperation :: "e2eeEnv \<Rightarrow> string \<Rightarrow> string \<Rightarrow> e2eeState \<Rightarrow> string \<times> e2eeState" where
  "enterOperation env me token s =
     (let s1 = (if token \<noteq> [] then s\<lparr>authToken := token\<rparr> else s);
          uid = resolveUserId env me s1
      in (uid, if uid \<noteq> [] \<and> currentUserId s1 = [] then s1\<lparr>currentUserId := uid\<rparr> else s1))"

text \<open>Keys are created for a user who has none; the result is false when creating them fails.\<close>

definition ensureKeys :: "e2eeEnv \<Rightarrow> string \<Rightarrow> string \<Rightarrow> e2eeState \<Rightarrow> bool \<times> e2eeState" where
  "ensureKeys env uid token s =
     (if identityBundle s = None \<and> uid \<noteq> []
      then (case initUserKeys env uid (deviceForKeys env token s) (authToken s) s of
              (Rejected, s1) \<Rightarrow> (False, s1)
            | (Done _, s1) \<Rightarrow> (True, s1))
      else (True, s))"

definition sealEnvelope ::
  "e2eeCrypto \<Rightarrow> bytes \<Rightarrow> string \<Rightarrow> string \<Rightarrow> int \<Rightarrow> string \<Rightarrow> string \<Rightarrow> ActiveSession option
    \<Rightarrow> WasmPqxdhInitMessage option \<Rightarrow> string \<Rightarrow> EncryptedEnvelope" where
  "sealEnvelope c iv plaintext conv seqNum uid peer session initMsg myIdKey =
     (let keyToUse = (case session of Some ses \<Rightarrow> sessionKey ses | None \<Rightarrow> fallbackKey c conv uid)
      in \<lparr>protocol = (if session = None then ''genchat-fallback-v1'' else ''genchat-pq-v1''),
          conversationId = conv, sequenceNum = seqNum, senderId = uid, recipientId = Some peer,
          initMessage = initMsg, ivHex = bytesToHex iv,
          ciphertextBase64 = btoa (bytesToStr (seal (gcmd c) keyToUse iv [] (textEncode plaintext))),
          senderFingerprint = (if myIdKey \<noteq> [] then take 16 myIdKey else getFingerprint c uid),
          insecureFallback = (session = None)\<rparr>)"

definition encrypt ::
  "e2eeCrypto \<Rightarrow> e2eeEnv \<Rightarrow> string \<Rightarrow> string \<Rightarrow> string \<Rightarrow> int \<Rightarrow> string \<Rightarrow> bool \<Rightarrow> e2eeState
    \<Rightarrow> (e2eeError + EncryptedEnvelope) \<times> e2eeState" where
  "encrypt c env plaintext conv me seqNum token allowInsecureFallback s =
     (case enterOperation env me token s of (uid, s1) \<Rightarrow>
      case ensureKeys env uid token s1 of
        (False, s2) \<Rightarrow> (Inl KeysUnavailable, s2)
      | (True, s2) \<Rightarrow>
          let peer = extractPeerId conv uid
          in case getOrRestoreSession c env peer uid conv s2 of (ses0, s3) \<Rightarrow>
             case (if ses0 = None \<and> identityBundle s3 \<noteq> None \<and> peer \<noteq> uid
                   then establishSessionWithRetry c env peer conv 3 s3 else (None, s3)) of (r, s4) \<Rightarrow>
             let session = (case r of Some (ses, m) \<Rightarrow> Some ses | None \<Rightarrow> ses0);
                 initMsg = (case r of Some (ses, m) \<Rightarrow> Some m | None \<Rightarrow> Option.bind ses0 pendingInitMessage)
             in if session = None \<and> peer \<noteq> uid \<and> \<not> allowInsecureFallback
                then (Inl (SessionBlocked peer), s4)
                else (Inr (sealEnvelope c (freshIv env) plaintext conv seqNum uid peer session initMsg
                             (getPublicIdentityKey s4)), s4))"

section \<open>Decryption\<close>

text \<open>
  The text shown for a message: the input itself, the decrypted text, a decrypted text with a code
  unit above 255 (by its bytes), or the notice that the session is not yet available.
\<close>

datatype messageText = RawText "EncryptedEnvelope blob" | ClearText string | WideText bytes | SessionPending

record DecryptResult =
  resultText :: messageText
  isEncrypted :: bool
  isInsecureFallback :: bool
  warning :: "string option"
  resultFingerprint :: "string option"

definition rawResult :: "EncryptedEnvelope blob \<Rightarrow> DecryptResult" where
  "rawResult w = \<lparr>resultText = RawText w, isEncrypted = False, isInsecureFallback = False, warning = None,
                  resultFingerprint = None\<rparr>"

definition pendingResult :: "string option \<Rightarrow> DecryptResult" where
  "pendingResult w = \<lparr>resultText = SessionPending, isEncrypted = False, isInsecureFallback = False, warning = w,
                      resultFingerprint = None\<rparr>"

definition decodeText :: "bytes \<Rightarrow> messageText" where
  "decodeText bs = (case textDecode bs of Some t \<Rightarrow> ClearText t | None \<Rightarrow> WideText bs)"

definition isFallbackEnvelope :: "EncryptedEnvelope \<Rightarrow> bool" where
  "isFallbackEnvelope e \<longleftrightarrow> protocol e = ''genchat-fallback-v1'' \<or> insecureFallback e"

definition isEnvelope :: "EncryptedEnvelope \<Rightarrow> bool" where
  "isEnvelope e \<longleftrightarrow> (protocol e = ''genchat-pq-v1'' \<or> protocol e = ''genchat-fallback-v1'')
     \<and> ivHex e \<noteq> [] \<and> ciphertextBase64 e \<noteq> []"

definition envelopeSender :: "EncryptedEnvelope \<Rightarrow> string \<Rightarrow> string \<Rightarrow> string" where
  "envelopeSender e conv uid = (if senderId e \<noteq> [] then senderId e else extractPeerId conv uid)"

definition envelopePeer :: "EncryptedEnvelope \<Rightarrow> string \<Rightarrow> string \<Rightarrow> string" where
  "envelopePeer e conv uid =
     (let sender = envelopeSender e conv uid
      in if sender \<noteq> [] \<and> uid \<noteq> [] \<and> sender = uid
         then (case recipientId e of
                 Some r \<Rightarrow> if r \<noteq> [] then r else extractPeerId conv uid
               | None \<Rightarrow> extractPeerId conv uid)
         else sender)"

definition envelopeConversation :: "EncryptedEnvelope \<Rightarrow> string \<Rightarrow> string" where
  "envelopeConversation e conv = (if conversationId e \<noteq> [] then conversationId e else conv)"

text \<open>The session that an initial message of the peer leads to, if the handshake module accepts it.\<close>

definition receivedSession ::
  "e2eeCrypto \<Rightarrow> WasmIdentityBundle \<Rightarrow> WasmPqxdhInitMessage \<Rightarrow> string \<Rightarrow> string \<Rightarrow> string \<Rightarrow> ActiveSession option" where
  "receivedSession c ib m conv uid peer =
     (case receivePqxdh c ib m of
        Rejected \<Rightarrow> None
      | Done secretHex \<Rightarrow>
          Some \<lparr>sessionKey = deriveKeyFromSecret c secretHex (getCanonicalContextId conv uid peer),
                sharedSecretHex = secretHex, peerIdentityKeyHex = senderIdentityKeyHex m, pendingInitMessage = None\<rparr>)"

definition offeredSession ::
  "e2eeCrypto \<Rightarrow> EncryptedEnvelope \<Rightarrow> string \<Rightarrow> string \<Rightarrow> e2eeState \<Rightarrow> ActiveSession option" where
  "offeredSession c e conv uid s =
     (if envelopeSender e conv uid = uid then None
      else case (initMessage e, identityBundle s) of
             (Some m, Some ib) \<Rightarrow> receivedSession c ib m (envelopeConversation e conv) uid (envelopePeer e conv uid)
           | _ \<Rightarrow> None)"

text \<open>The session to decrypt with: the known one, replaced by the one an initial message offers.\<close>

definition sessionForEnvelope ::
  "e2eeCrypto \<Rightarrow> e2eeEnv \<Rightarrow> EncryptedEnvelope \<Rightarrow> string \<Rightarrow> string \<Rightarrow> e2eeState \<Rightarrow> ActiveSession option \<times> e2eeState" where
  "sessionForEnvelope c env e conv uid s =
     (let peer = envelopePeer e conv uid; convE = envelopeConversation e conv
      in case getOrRestoreSession c env peer uid convE s of (ses0, s1) \<Rightarrow>
         case offeredSession c e conv uid s1 of
           None \<Rightarrow> (ses0, s1)
         | Some ses \<Rightarrow> (Some ses, notePeerKey peer (peerIdentityKeyHex ses) (saveSession env peer uid convE ses s1)))"

definition openedResult :: "EncryptedEnvelope \<Rightarrow> bytes \<Rightarrow> DecryptResult" where
  "openedResult e bs =
     \<lparr>resultText = decodeText bs, isEncrypted = (\<not> isFallbackEnvelope e),
      isInsecureFallback = isFallbackEnvelope e,
      warning = (if isFallbackEnvelope e
                 then Some ''Warning: Insecure fallback encryption used for this message. Not protected by PQXDH.''
                 else None),
      resultFingerprint = Some (senderFingerprint e)\<rparr>"

text \<open>Opening with the chosen key; when that fails, once more with a session freshly received.\<close>

definition openEnvelope ::
  "e2eeCrypto \<Rightarrow> e2eeEnv \<Rightarrow> EncryptedEnvelope \<Rightarrow> string \<Rightarrow> string \<Rightarrow> key \<Rightarrow> e2eeState \<Rightarrow> DecryptResult \<times> e2eeState" where
  "openEnvelope c env e conv uid keyToUse s =
     (case (hexMatch (ivHex e), base64ToBuffer (ciphertextBase64 e)) of
        (Some iv, Some ct) \<Rightarrow>
          (case unseal (gcmd c) keyToUse iv [] ct of
             Some bs \<Rightarrow> (openedResult e bs, s)
           | None \<Rightarrow>
               (case offeredSession c e conv uid s of
                  None \<Rightarrow> (pendingResult None, s)
                | Some ses \<Rightarrow>
                    (case unseal (gcmd c) (sessionKey ses) iv [] ct of
                       None \<Rightarrow> (pendingResult None, s)
                     | Some bs \<Rightarrow>
                         (openedResult e bs,
                          saveSession env (envelopePeer e conv uid) uid (envelopeConversation e conv) ses s))))
      | _ \<Rightarrow> (pendingResult None, s))"

definition decryptEnvelope ::
  "e2eeCrypto \<Rightarrow> e2eeEnv \<Rightarrow> EncryptedEnvelope \<Rightarrow> string \<Rightarrow> string \<Rightarrow> e2eeState \<Rightarrow> DecryptResult \<times> e2eeState" where
  "decryptEnvelope c env e conv uid s =
     (if \<not> isEnvelope e then (rawResult (Blob e), s)
      else case sessionForEnvelope c env e conv uid s of (session, s1) \<Rightarrow>
        if isFallbackEnvelope e
        then openEnvelope c env e conv uid
               (fallbackKey c (envelopeConversation e conv) (envelopeSender e conv uid)) s1
        else (case session of
                None \<Rightarrow> (pendingResult (Some ''Failed to decrypt PQXDH message: No active cryptographic session.''), s1)
              | Some ses \<Rightarrow> openEnvelope c env e conv uid (sessionKey ses) s1))"

text \<open>A serialised envelope starts with a brace. The keys are loaded before anything is parsed.\<close>

definition decrypt ::
  "e2eeCrypto \<Rightarrow> e2eeEnv \<Rightarrow> EncryptedEnvelope blob \<Rightarrow> string \<Rightarrow> string \<Rightarrow> string \<Rightarrow> e2eeState
    \<Rightarrow> DecryptResult outcome \<times> e2eeState" where
  "decrypt c env w conv me token s =
     (if (case w of Garbage g \<Rightarrow> \<not> startsWith g ''{'' | Blob _ \<Rightarrow> False) then (Done (rawResult w), s)
      else case enterOperation env me token s of (uid, s1) \<Rightarrow>
        let s2 = (if identityBundle s1 = None \<and> uid \<noteq> []
                  then (case loadIdentity uid s1 of Some b \<Rightarrow> s1\<lparr>identityBundle := Some b\<rparr> | None \<Rightarrow> s1)
                  else s1)
        in case ensureKeys env uid token s2 of
             (False, s3) \<Rightarrow> (Rejected, s3)
           | (True, s3) \<Rightarrow>
               (case w of
                  Garbage _ \<Rightarrow> (Done (pendingResult None), s3)
                | Blob e \<Rightarrow> (case decryptEnvelope c env e conv uid s3 of (r, s4) \<Rightarrow> (Done r, s4))))"

definition generateSafetyNumber ::
  "(string \<Rightarrow> string \<Rightarrow> int) \<Rightarrow> (bytes \<Rightarrow> bytes) \<Rightarrow> string \<Rightarrow> keyArg \<Rightarrow> string option \<Rightarrow> keyArg option \<Rightarrow> string" where
  "generateSafetyNumber cmp digest userAOrIdA keyAOrIdB userIdB identityKeyB =
     computeSafetyNumber cmp digest userAOrIdA keyAOrIdB userIdB identityKeyB"

section \<open>Who changes what\<close>

lemma notePeerKey_frame [simp]:
  "sessionCache (notePeerKey p k s) = sessionCache s"
  "identityBundle (notePeerKey p k s) = identityBundle s"
  "currentUserId (notePeerKey p k s) = currentUserId s"
  "authToken (notePeerKey p k s) = authToken s"
  "persistedSessions (notePeerKey p k s) = persistedSessions s"
  "pendingHandshakes (notePeerKey p k s) = pendingHandshakes s"
  "localReadable (notePeerKey p k s) = localReadable s"
  "localWritable (notePeerKey p k s) = localWritable s"
  "storedUser (notePeerKey p k s) = storedUser s"
  "storedToken (notePeerKey p k s) = storedToken s"
  by (simp_all add: notePeerKey_def)

lemma resolveUserId_nonempty [simp]: "uid \<noteq> [] \<Longrightarrow> resolveUserId env uid s = uid"
  by (simp add: resolveUserId_def)

lemma resolveUserId_frame:
  "currentUserId s = currentUserId s' \<Longrightarrow> storedUser s = storedUser s' \<Longrightarrow> storedToken s = storedToken s'
    \<Longrightarrow> resolveUserId env uid s = resolveUserId env uid s'"
  by (simp add: resolveUserId_def tokenSubject_def split: option.splits blob.splits)

lemma resolveUserId_authToken [simp]: "resolveUserId env uid (s\<lparr>authToken := t\<rparr>) = resolveUserId env uid s"
  by (rule resolveUserId_frame) simp_all

lemma saveSession_frame [simp]:
  "sessionCache (saveSession env p me conv ses s) = jsSet p ses (sessionCache s)"
  "identityBundle (saveSession env p me conv ses s) = identityBundle s"
  "currentUserId (saveSession env p me conv ses s) = currentUserId s"
  "authToken (saveSession env p me conv ses s) = authToken s"
  "pendingHandshakes (saveSession env p me conv ses s) = pendingHandshakes s"
  "localReadable (saveSession env p me conv ses s) = localReadable s"
  by (simp_all add: saveSession_def Let_def)

lemma getOrRestoreSession_frame:
  assumes "getOrRestoreSession c env peer me conv s = (r, s')"
  shows "identityBundle s' = identityBundle s" "currentUserId s' = currentUserId s" "authToken s' = authToken s"
    "pendingHandshakes s' = pendingHandshakes s"
  using assms by (auto simp: getOrRestoreSession_def Let_def split: if_splits option.splits)

lemma getOrRestoreSession_cached:
  "getOrRestoreSession c env peer me conv s = (Some ses, s') \<Longrightarrow> jsGet (sessionCache s') peer = Some ses"
  by (auto simp: getOrRestoreSession_def Let_def split: if_splits option.splits)

lemma fetchPreKeyBundle_frame:
  assumes "fetchPreKeyBundle a peer t s = (r, s')"
  shows "identityBundle s' = identityBundle s" "currentUserId s' = currentUserId s" "authToken s' = authToken s"
    "pendingHandshakes s' = pendingHandshakes s" "sessionCache s' = sessionCache s"
  using assms by (auto simp: fetchPreKeyBundle_def split: if_splits option.splits http.splits)

lemma attemptHandshake_frame:
  assumes "attemptHandshake c env peer conv i s = (r, s')"
  shows "identityBundle s' = identityBundle s" "currentUserId s' = currentUserId s" "authToken s' = authToken s"
    "pendingHandshakes s' = pendingHandshakes s"
  using assms
  by (auto simp: attemptHandshake_def Let_def dest: fetchPreKeyBundle_frame
      split: prod.splits option.splits outcome.splits)

lemma attemptHandshake_cached:
  "attemptHandshake c env peer conv i s = (Some (ses, m), s') \<Longrightarrow>
    jsGet (sessionCache s') peer = Some ses \<and> pendingInitMessage ses = Some m"
  by (auto simp: attemptHandshake_def initiatedSession_def Let_def split: prod.splits option.splits outcome.splits)

lemma handshakeLoop_cached:
  "handshakeLoop c env peer conv n i s = (Some (ses, m), s') \<Longrightarrow>
    jsGet (sessionCache s') peer = Some ses \<and> pendingInitMessage ses = Some m"
proof (induction c env peer conv n i s rule: handshakeLoop.induct)
  case (1 c env peer conv n i s)
  show ?case
    using "1.prems" "1.IH" attemptHandshake_cached
    by (subst (asm) handshakeLoop.simps) (auto split: if_splits prod.splits option.splits)
qed

lemma establishSession_cached:
  assumes "establishSessionWithRetry c env peer conv n s = (Some (ses, m), s')"
  shows "(jsGet (sessionCache s') peer = Some ses \<and> pendingInitMessage ses = Some m)
    \<or> jsGet (pendingHandshakes s) peer = Some (Some (ses, m))"
  using assms handshakeLoop_cached
  by (fastforce simp: establishSessionWithRetry_def split: if_splits prod.splits option.splits)

lemma getCanonicalContextId_sym:
  assumes "a \<noteq> []" "b \<noteq> []" "a \<noteq> b"
  shows "getCanonicalContextId conv a b = getCanonicalContextId conv b a"
  using assms by (auto simp: getCanonicalContextId_def sortPair_def)

lemma enterOperation_uid [simp]: "fst (enterOperation env me token s) = resolveUserId env me s"
  by (simp add: enterOperation_def Let_def)

lemma enterOperation_frame:
  assumes "enterOperation env me token s = (uid, s')"
  shows "uid = resolveUserId env me s" "identityBundle s' = identityBundle s" "sessionCache s' = sessionCache s"
    "pendingHandshakes s' = pendingHandshakes s" "uid \<noteq> [] \<Longrightarrow> currentUserId s' \<noteq> []"
    "currentUserId s \<noteq> [] \<Longrightarrow> currentUserId s' = currentUserId s"
  using assms by (auto simp: enterOperation_def Let_def split: if_splits)

lemma initUserKeys_frame:
  assumes "initUserKeys env uid dev tok s = (r, s')"
  shows "sessionCache s' = sessionCache s" "pendingHandshakes s' = pendingHandshakes s" "currentUserId s' = uid"
  using assms
  by (auto simp: initUserKeys_def Let_def installFreshKeys_def storeIdentity_def publishPreKeyBundle_def
      split: if_splits option.splits outcome.splits prod.splits)

lemma ensureKeys_frame:
  assumes "ensureKeys env uid token s = (r, s')"
  shows "sessionCache s' = sessionCache s" "pendingHandshakes s' = pendingHandshakes s"
  using assms by (auto simp: ensureKeys_def dest: initUserKeys_frame split: if_splits outcome.splits prod.splits)

lemma ensureKeys_present [simp]: "identityBundle s = Some b \<Longrightarrow> ensureKeys env uid token s = (True, s)"
  by (simp add: ensureKeys_def)

section \<open>Encryption\<close>

text \<open>What a successful encryption has gone through.\<close>

lemma encrypt_cases:
  assumes "encrypt c env plaintext conv me n token allow s = (Inr e, s')"
  obtains uid s1 s2 ses0 s3 r where
    "enterOperation env me token s = (uid, s1)" "ensureKeys env uid token s1 = (True, s2)"
    "getOrRestoreSession c env (extractPeerId conv uid) uid conv s2 = (ses0, s3)"
    "(if ses0 = None \<and> identityBundle s3 \<noteq> None \<and> extractPeerId conv uid \<noteq> uid
      then establishSessionWithRetry c env (extractPeerId conv uid) conv 3 s3 else (None, s3)) = (r, s')"
    "(case r of Some (ses, m) \<Rightarrow> Some ses | None \<Rightarrow> ses0) = None \<Longrightarrow> extractPeerId conv uid \<noteq> uid \<Longrightarrow> allow"
    "e = sealEnvelope c (freshIv env) plaintext conv n uid (extractPeerId conv uid)
           (case r of Some (ses, m) \<Rightarrow> Some ses | None \<Rightarrow> ses0)
           (case r of Some (ses, m) \<Rightarrow> Some m | None \<Rightarrow> Option.bind ses0 pendingInitMessage) (getPublicIdentityKey s')"
proof -
  obtain uid s1 where 1: "enterOperation env me token s = (uid, s1)" by fastforce
  obtain b s2 where 2: "ensureKeys env uid token s1 = (b, s2)" by fastforce
  have b: "b = True" using assms by (cases b) (simp_all add: encrypt_def 1 2)
  obtain ses0 s3 where 3: "getOrRestoreSession c env (extractPeerId conv uid) uid conv s2 = (ses0, s3)" by fastforce
  obtain r s4 where 4: "(if ses0 = None \<and> identityBundle s3 \<noteq> None \<and> extractPeerId conv uid \<noteq> uid
      then establishSessionWithRetry c env (extractPeerId conv uid) conv 3 s3 else (None, s3)) = (r, s4)"
    by fastforce
  let ?ses = "case r of Some (ses, m) \<Rightarrow> Some ses | None \<Rightarrow> ses0"
  have "encrypt c env plaintext conv me n token allow s =
    (if ?ses = None \<and> extractPeerId conv uid \<noteq> uid \<and> \<not> allow
     then (Inl (SessionBlocked (extractPeerId conv uid)), s4)
     else (Inr (sealEnvelope c (freshIv env) plaintext conv n uid (extractPeerId conv uid) ?ses
             (case r of Some (ses, m) \<Rightarrow> Some m | None \<Rightarrow> Option.bind ses0 pendingInitMessage) (getPublicIdentityKey s4)), s4))"
    by (simp only: encrypt_def Let_def 1 2 b 3 4 prod.case bool.case)
  with assms have "\<not> (?ses = None \<and> extractPeerId conv uid \<noteq> uid \<and> \<not> allow)" "s4 = s'"
    "e = sealEnvelope c (freshIv env) plaintext conv n uid (extractPeerId conv uid) ?ses
       (case r of Some (ses, m) \<Rightarrow> Some m | None \<Rightarrow> Option.bind ses0 pendingInitMessage) (getPublicIdentityKey s4)"
    by (simp_all split: if_splits) (elim conjE; simp)
  with 1 2 3 4 b show thesis by (intro that) blast+
qed

lemma encrypt_session:
  assumes "encrypt c env plaintext conv me n token allow s = (Inr e, s')"
    and "peer = extractPeerId conv (resolveUserId env me s)"
  shows "(\<exists>ses. (jsGet (sessionCache s') peer = Some ses
                \<or> (\<exists>m. jsGet (pendingHandshakes s) peer = Some (Some (ses, m))))
            \<and> protocol e = ''genchat-pq-v1'' \<and> \<not> insecureFallback e
            \<and> ciphertextBase64 e = btoa (bytesToStr (seal (gcmd c) (sessionKey ses) (freshIv env) [] (textEncode plaintext))))
    \<or> ((peer = resolveUserId env me s \<or> allow) \<and> protocol e = ''genchat-fallback-v1'' \<and> insecureFallback e)"
  using assms(1)
proof (cases rule: encrypt_cases)
  case (1 uid s1 s2 ses0 s3 r)
  note f = enterOperation_frame [OF 1(1)] ensureKeys_frame [OF 1(2)] getOrRestoreSession_frame [OF 1(3)]
  have p: "peer = extractPeerId conv uid" "jsGet (pendingHandshakes s3) peer = jsGet (pendingHandshakes s) peer"
    using f assms(2) by simp_all
  show ?thesis
  proof (cases r)
    case None
    show ?thesis
    proof (cases ses0)
      case None
      with \<open>r = None\<close> 1(5,6) f(1) p show ?thesis by (auto simp: sealEnvelope_def)
    next
      case (Some ses)
      with \<open>r = None\<close> 1(3,4,6) p getOrRestoreSession_cached
      show ?thesis by (fastforce simp: sealEnvelope_def)
    qed
  next
    case (Some q)
    obtain ses m where q: "q = (ses, m)" by (cases q)
    with Some 1(4) have "establishSessionWithRetry c env peer conv 3 s3 = (Some (ses, m), s')"
      by (simp add: p split: if_splits)
    from establishSession_cached [OF this] p Some q 1(6) show ?thesis
      by (auto simp: sealEnvelope_def)
  qed
qed

text \<open>
  C1. Encryption never falls back silently: unless the caller asked for the insecure fallback or
  writes to itself, every envelope it returns is tagged as post-quantum and its ciphertext is sealed
  with the key of the session held for the peer (or of the handshake in flight for the peer).
\<close>

theorem encrypt_never_falls_back:
  assumes "encrypt c env plaintext conv me n token False s = (Inr e, s')"
    and "extractPeerId conv (resolveUserId env me s) \<noteq> resolveUserId env me s"
  shows "protocol e = ''genchat-pq-v1'' \<and> \<not> insecureFallback e
    \<and> (\<exists>ses. (jsGet (sessionCache s') (extractPeerId conv (resolveUserId env me s)) = Some ses
             \<or> (\<exists>m. jsGet (pendingHandshakes s) (extractPeerId conv (resolveUserId env me s)) = Some (Some (ses, m))))
         \<and> ciphertextBase64 e
             = btoa (bytesToStr (seal (gcmd c) (sessionKey ses) (freshIv env) [] (textEncode plaintext))))"
  using encrypt_session [OF assms(1) refl] assms(2) by auto

section \<open>Decryption\<close>

lemma sessionForEnvelope_cached:
  assumes "sessionForEnvelope c env e conv uid s = (Some ses, s')"
  shows "jsGet (sessionCache s') (envelopePeer e conv uid) = Some ses"
  using assms getOrRestoreSession_cached
  by (fastforce simp: sessionForEnvelope_def Let_def split: prod.splits option.splits)

lemma openEnvelope_encrypted:
  assumes "openEnvelope c env e conv uid k s = (r, s')" and "resultText r \<noteq> SessionPending"
  obtains iv ct bs where "hexMatch (ivHex e) = Some iv" "base64ToBuffer (ciphertextBase64 e) = Some ct"
    "r = openedResult e bs"
    "(unseal (gcmd c) k iv [] ct = Some bs \<and> s' = s)
     \<or> (\<exists>ses. offeredSession c e conv uid s = Some ses \<and> unseal (gcmd c) (sessionKey ses) iv [] ct = Some bs
          \<and> jsGet (sessionCache s') (envelopePeer e conv uid) = Some ses)"
  using assms
  by (auto simp: openEnvelope_def pendingResult_def split: option.splits)

lemma decryptEnvelope_authentic:
  assumes "decryptEnvelope c env e conv uid s = (r, s')" and "isEncrypted r"
  shows "protocol e = ''genchat-pq-v1'' \<and> \<not> insecureFallback e
    \<and> (\<exists>ses iv ct bs. jsGet (sessionCache s') (envelopePeer e conv uid) = Some ses
         \<and> hexMatch (ivHex e) = Some iv \<and> base64ToBuffer (ciphertextBase64 e) = Some ct
         \<and> unseal (gcmd c) (sessionKey ses) iv [] ct = Some bs \<and> resultText r = decodeText bs)"
proof -
  obtain session s1 where s1: "sessionForEnvelope c env e conv uid s = (session, s1)" by fastforce
  have e: "isEnvelope e" using assms by (auto simp: decryptEnvelope_def rawResult_def split: if_splits)
  define k where "k = (if isFallbackEnvelope e
    then fallbackKey c (envelopeConversation e conv) (envelopeSender e conv uid) else sessionKey (the session))"
  have o: "openEnvelope c env e conv uid k s1 = (r, s')" and ses: "\<not> isFallbackEnvelope e \<Longrightarrow> session \<noteq> None"
    using assms s1 e
    by (auto simp: decryptEnvelope_def k_def pendingResult_def split: if_splits option.splits)
  have "resultText r \<noteq> SessionPending"
    using o assms(2) by (auto simp: openEnvelope_def openedResult_def decodeText_def pendingResult_def split: option.splits)
  then obtain iv ct bs where ok: "hexMatch (ivHex e) = Some iv" "base64ToBuffer (ciphertextBase64 e) = Some ct"
    "r = openedResult e bs"
    and u: "(unseal (gcmd c) k iv [] ct = Some bs \<and> s' = s1)
     \<or> (\<exists>ses. offeredSession c e conv uid s1 = Some ses \<and> unseal (gcmd c) (sessionKey ses) iv [] ct = Some bs
          \<and> jsGet (sessionCache s') (envelopePeer e conv uid) = Some ses)"
    using openEnvelope_encrypted [OF o] by blast
  have nf: "\<not> isFallbackEnvelope e" using ok(3) assms(2) by (simp add: openedResult_def)
  then obtain ses where ses: "session = Some ses" using ses by blast
  have "\<exists>ses. jsGet (sessionCache s') (envelopePeer e conv uid) = Some ses \<and> unseal (gcmd c) (sessionKey ses) iv [] ct = Some bs"
    using u sessionForEnvelope_cached [OF s1 [unfolded ses]] nf by (auto simp: k_def ses)
  with ok nf e show ?thesis by (auto simp: openedResult_def isFallbackEnvelope_def isEnvelope_def)
qed

text \<open>
  C2. Decryption fails closed: a result is marked as encrypted only if the envelope is a genuine
  post-quantum one and the ciphertext authenticates under the key of the session held for the
  sender; the text shown is then the plaintext that key yields.
\<close>

theorem decrypt_fails_closed:
  assumes "decrypt c env w conv me token s = (Done r, s')" and "isEncrypted r"
  shows "\<exists>e ses iv ct bs. w = Blob e \<and> protocol e = ''genchat-pq-v1'' \<and> \<not> insecureFallback e
    \<and> jsGet (sessionCache s') (envelopePeer e conv (resolveUserId env me s)) = Some ses
    \<and> hexMatch (ivHex e) = Some iv \<and> base64ToBuffer (ciphertextBase64 e) = Some ct
    \<and> unseal (gcmd c) (sessionKey ses) iv [] ct = Some bs \<and> resultText r = decodeText bs"
proof -
  obtain uid s1 where 1: "enterOperation env me token s = (uid, s1)" by fastforce
  from assms 1 obtain e s3 where w: "w = Blob e" and d: "decryptEnvelope c env e conv uid s3 = (r, s')"
    by (auto simp: decrypt_def Let_def rawResult_def pendingResult_def
        split: if_splits blob.splits prod.splits bool.splits)
  from decryptEnvelope_authentic [OF d assms(2)] w enterOperation_frame(1) [OF 1] show ?thesis by blast
qed

section \<open>The retries\<close>

text \<open>What one attempt obtains from the server and the handshake module.\<close>

definition handshakeAnswer ::
  "e2eeCrypto \<Rightarrow> e2eeEnv \<Rightarrow> WasmIdentityBundle \<Rightarrow> string \<Rightarrow> nat \<Rightarrow> (WasmPublicPreKeyBundle \<times> string \<times> WasmPqxdhInitMessage) option" where
  "handshakeAnswer c env ib peer i =
     (case bundleOf env peer i of
        HttpOk (Some b) \<Rightarrow>
          (case decodeBundle b of
             Some bundle \<Rightarrow> (case initiatePqxdh c ib bundle of Done (secretHex, m) \<Rightarrow> Some (bundle, secretHex, m) | Rejected \<Rightarrow> None)
           | None \<Rightarrow> None)
      | _ \<Rightarrow> None)"

lemma attemptHandshake_fst:
  assumes "identityBundle s = Some ib" "authToken s \<noteq> []"
  shows "fst (attemptHandshake c env peer conv i s) =
    map_option (\<lambda>(bundle, secretHex, m). (initiatedSession c conv (currentUserId s) peer bundle secretHex m, m))
      (handshakeAnswer c env ib peer i)"
  using assms
  by (simp add: attemptHandshake_def fetchPreKeyBundle_def handshakeAnswer_def Let_def
      split: http.splits option.splits outcome.splits)

lemma attemptHandshake_failed:
  assumes "attemptHandshake c env peer conv i s = (None, s')"
  shows "sessionCache s' = sessionCache s" "persistedSessions s' = persistedSessions s"
  using assms
  by (auto simp: attemptHandshake_def fetchPreKeyBundle_def Let_def
      split: http.splits option.splits outcome.splits prod.splits if_splits)

text \<open>The first answer among the attempts from \<open>i + 1\<close> to \<open>n\<close>.\<close>

definition firstAnswer ::
  "e2eeCrypto \<Rightarrow> e2eeEnv \<Rightarrow> WasmIdentityBundle \<Rightarrow> string \<Rightarrow> nat \<Rightarrow> nat \<Rightarrow> (WasmPublicPreKeyBundle \<times> string \<times> WasmPqxdhInitMessage) option" where
  "firstAnswer c env ib peer i n =
     (case List.map_filter (handshakeAnswer c env ib peer) [Suc i..<Suc n] of [] \<Rightarrow> None | r # _ \<Rightarrow> Some r)"

lemma firstAnswer_step:
  "firstAnswer c env ib peer i n =
     (if i < n then (case handshakeAnswer c env ib peer (Suc i) of Some r \<Rightarrow> Some r | None \<Rightarrow> firstAnswer c env ib peer (Suc i) n)
      else None)"
  by (simp add: firstAnswer_def upt_conv_Cons List.map_filter_simps split: option.splits del: upt_Suc)

lemma handshakeLoop_fst:
  "identityBundle s = Some ib \<Longrightarrow> authToken s \<noteq> [] \<Longrightarrow>
   fst (handshakeLoop c env peer conv n i s) =
     map_option (\<lambda>(bundle, secretHex, m). (initiatedSession c conv (currentUserId s) peer bundle secretHex m, m))
       (firstAnswer c env ib peer i n)"
proof (induction c env peer conv n i s rule: handshakeLoop.induct)
  case (1 c env peer conv n i s)
  obtain r s1 where a: "attemptHandshake c env peer conv (Suc i) s = (r, s1)" by fastforce
  note f = attemptHandshake_frame [OF a]
  note fst = attemptHandshake_fst [OF "1.prems", of c env peer conv "Suc i", unfolded a fst_conv]
  show ?case
  proof (cases "i < n \<and> r = None")
    case True
    with 1 a f fst show ?thesis
      by (simp add: handshakeLoop.simps [of c env peer conv n i s] firstAnswer_step [of c env ib peer i n])
  next
    case False
    with a fst show ?thesis
      by (auto simp: handshakeLoop.simps [of c env peer conv n i s] firstAnswer_step [of c env ib peer i n]
          split: option.splits)
  qed
qed

lemma handshakeLoop_failed:
  "handshakeLoop c env peer conv n i s = (None, s') \<Longrightarrow>
    sessionCache s' = sessionCache s \<and> persistedSessions s' = persistedSessions s"
proof (induction c env peer conv n i s rule: handshakeLoop.induct)
  case (1 c env peer conv n i s)
  obtain r s1 where a: "attemptHandshake c env peer conv (Suc i) s = (r, s1)" by fastforce
  show ?case
  proof (cases "i < n \<and> r = None")
    case True
    with 1 a attemptHandshake_failed [of c env peer conv "Suc i" s s1] show ?thesis
      by (simp add: handshakeLoop.simps [of c env peer conv n i s])
  next
    case False
    with 1(2) a show ?thesis
      by (auto simp: handshakeLoop.simps [of c env peer conv n i s] split: if_splits option.splits)
  qed
qed

lemma firstAnswer_None:
  "firstAnswer c env ib peer 0 n = None \<longleftrightarrow> (\<forall>i \<in> {1..n}. handshakeAnswer c env ib peer i = None)"
proof -
  have "firstAnswer c env ib peer 0 n = None \<longleftrightarrow> List.map_filter (handshakeAnswer c env ib peer) [Suc 0..<Suc n] = []"
    by (simp add: firstAnswer_def del: upt_Suc split: list.split)
  also have "\<dots> \<longleftrightarrow> (\<forall>i \<in> set [Suc 0..<Suc n]. handshakeAnswer c env ib peer i = None)"
    unfolding List.map_filter_def map_is_Nil_conv filter_empty_conv not_not by (rule refl)
  finally show ?thesis unfolding set_upt by (simp add: Ball_def less_Suc_eq_le)
qed

text \<open>
  C33. The handshake with retries, without a handshake in flight: the result is the session of the
  first of the attempts 1 to \<open>maxRetries\<close> that the server and the handshake module answer, so it
  fails exactly if none is answered; a failure leaves every session as it was, and in no case does
  an entry for the peer stay behind in the table of handshakes in flight.
\<close>

theorem establishSession_first_answer:
  assumes "identityBundle s = Some ib" "authToken s \<noteq> []" "jsGet (pendingHandshakes s) peer = None"
    and "establishSessionWithRetry c env peer conv n s = (r, s')"
  shows "r = map_option (\<lambda>(bundle, secretHex, m). (initiatedSession c conv (currentUserId s) peer bundle secretHex m, m))
               (firstAnswer c env ib peer 0 n)
    \<and> (r = None \<longleftrightarrow> (\<forall>i \<in> {1..n}. handshakeAnswer c env ib peer i = None))
    \<and> (r = None \<longrightarrow> sessionCache s' = sessionCache s \<and> persistedSessions s' = persistedSessions s)
    \<and> jsGet (pendingHandshakes s') peer = None"
proof -
  obtain r1 s1 where l: "handshakeLoop c env peer conv n 0 s = (r1, s1)" by fastforce
  with assms have r: "r = r1" "s' = s1\<lparr>pendingHandshakes := jsDelete peer (jsSet peer r (pendingHandshakes s1))\<rparr>"
    by (auto simp: establishSessionWithRetry_def)
  have fst: "r = map_option (\<lambda>(bundle, secretHex, m). (initiatedSession c conv (currentUserId s) peer bundle secretHex m, m))
               (firstAnswer c env ib peer 0 n)"
    using handshakeLoop_fst [OF assms(1,2), of c env peer conv n 0] by (simp add: l r)
  have "r = None \<Longrightarrow> sessionCache s1 = sessionCache s \<and> persistedSessions s1 = persistedSessions s"
    using handshakeLoop_failed l r by simp
  moreover have "r = None \<longleftrightarrow> firstAnswer c env ib peer 0 n = None" by (simp add: fst)
  ultimately show ?thesis using r fst
    unfolding firstAnswer_None [symmetric] by simp
qed

section \<open>Sessions survive a reload\<close>

lemma attemptHandshake_saves:
  assumes "attemptHandshake c env peer conv i s = (Some (ses, m), s')"
  shows "\<exists>ib bundle secretHex s1. identityBundle s = Some ib
    \<and> handshakeAnswer c env ib peer i = Some (bundle, secretHex, m)
    \<and> ses = initiatedSession c conv (currentUserId s) peer bundle secretHex m
    \<and> s' = saveSession env peer (currentUserId s) conv ses s1
    \<and> currentUserId s1 = currentUserId s \<and> localWritable s1 = localWritable s"
proof -
  from assms obtain bd s1 where f: "fetchPreKeyBundle (bundleOf env peer i) peer (authToken s) s = (Some bd, s1)"
    by (auto simp: attemptHandshake_def split: prod.splits option.splits)
  then obtain b where b: "bundleOf env peer i = HttpOk (Some b)" "decodeBundle b = Some bd"
    and s1: "s1 = notePeerKey peer (identityKeyHex bd) s"
    by (auto simp: fetchPreKeyBundle_def split: if_splits option.splits http.splits)
  from assms obtain ib secretHex where i: "identityBundle s1 = Some ib" "initiatePqxdh c ib bd = Done (secretHex, m)"
    and ses: "ses = initiatedSession c conv (currentUserId s1) peer bd secretHex m"
    and s': "s' = saveSession env peer (currentUserId s1) conv ses s1"
    by (auto simp: attemptHandshake_def f Let_def split: option.splits outcome.splits)
  show ?thesis
    by (intro exI [of _ ib] exI [of _ bd] exI [of _ secretHex] exI [of _ s1])
      (use b i ses s' in \<open>simp add: handshakeAnswer_def s1\<close>)
qed

lemma handshakeLoop_saves:
  "handshakeLoop c env peer conv n i s = (Some (ses, m), s') \<Longrightarrow>
   \<exists>ib j bundle secretHex s1. identityBundle s = Some ib
    \<and> handshakeAnswer c env ib peer j = Some (bundle, secretHex, m)
    \<and> ses = initiatedSession c conv (currentUserId s) peer bundle secretHex m
    \<and> s' = saveSession env peer (currentUserId s) conv ses s1
    \<and> currentUserId s1 = currentUserId s \<and> localWritable s1 = localWritable s"
proof (induction c env peer conv n i s rule: handshakeLoop.induct)
  case (1 c env peer conv n i s)
  obtain r s1 where a: "attemptHandshake c env peer conv (Suc i) s = (r, s1)" by fastforce
  have n: "i < n" using "1.prems" by (simp add: handshakeLoop.simps [of c env peer conv n i s] split: if_splits)
  show ?case
  proof (cases r)
    case None
    have w: "localWritable s1 = localWritable s"
      using a None by (auto simp: attemptHandshake_def fetchPreKeyBundle_def Let_def
          split: prod.splits option.splits outcome.splits http.splits if_splits)
    have "handshakeLoop c env peer conv n (Suc i) s1 = (Some (ses, m), s')"
      using "1.prems" n a None by (simp add: handshakeLoop.simps [of c env peer conv n i s])
    with "1.IH" [OF n] a None attemptHandshake_frame [OF a] w show ?thesis by simp
  next
    case (Some q)
    with "1.prems" n a have "attemptHandshake c env peer conv (Suc i) s = (Some (ses, m), s')"
      by (simp add: handshakeLoop.simps [of c env peer conv n i s])
    from attemptHandshake_saves [OF this] show ?thesis by blast
  qed
qed

lemma getCanonicalContextId_kept:
  assumes "uid \<noteq> []" "peer \<noteq> []" "peer \<noteq> uid"
  shows "CHR '':'' \<in> set (getCanonicalContextId conv uid peer) \<or> startsWith (getCanonicalContextId conv uid peer) ''chan_''"
  using assms by (auto simp: getCanonicalContextId_def sortPair_def)

lemma restore_saved:
  assumes "uid \<noteq> []" "peer \<noteq> []" "peer \<noteq> uid" "localWritable s"
    and "sessionKey ses = deriveKeyFromSecret c (sharedSecretHex ses) (getCanonicalContextId conv uid peer)"
    and "persistedSessions s2 = persistedSessions (saveSession env peer uid conv ses s)" "localReadable s2"
    and "jsGet (sessionCache s2) peer = None"
  shows "fst (getOrRestoreSession c env' peer uid conv2 s2) = Some ses"
proof -
  let ?d = "\<lparr>pSharedSecretHex = sharedSecretHex ses, pPeerIdentityKeyHex = peerIdentityKeyHex ses,
               pCanonicalContextId = getCanonicalContextId conv uid peer, pPendingInitMessage = pendingInitMessage ses\<rparr>"
  have "jsGet (persistedSessions s2) (getSessionStorageKey env' uid peer s2) = Some (Blob ?d)"
    using assms by (simp add: saveSession_def Let_def getSessionStorageKey_def)
  moreover have "restoreSession c conv2 uid peer ?d = ses"
    using assms getCanonicalContextId_kept [OF assms(1-3), of conv] by (simp add: restoreSession_def Let_def)
  ultimately show ?thesis using assms by (simp add: getOrRestoreSession_def Let_def)
qed

text \<open>
  C35. A session established with a peer survives a reload of the page: from the local storage that
  the handshake left, whatever else the new state holds and whichever conversation asks for it, the
  very same session (key, secret, peer identity and pending initial message) is restored.
\<close>

theorem session_survives_reload:
  assumes "currentUserId s \<noteq> []" "peer \<noteq> []" "peer \<noteq> currentUserId s" "localWritable s"
    and "jsGet (pendingHandshakes s) peer = None"
    and "establishSessionWithRetry c env peer conv n s = (Some (ses, m), s')"
    and "persistedSessions s2 = persistedSessions s'" "localReadable s2" "jsGet (sessionCache s2) peer = None"
  shows "fst (getOrRestoreSession c env2 peer (currentUserId s) conv2 s2) = Some ses"
proof -
  obtain s1 where l: "handshakeLoop c env peer conv n 0 s = (Some (ses, m), s1)"
    and s': "persistedSessions s' = persistedSessions s1"
    using assms(5,6) by (auto simp: establishSessionWithRetry_def split: if_splits prod.splits)
  from handshakeLoop_saves [OF l] obtain bd secretHex s0 where
    ses: "ses = initiatedSession c conv (currentUserId s) peer bd secretHex m"
    and s1: "s1 = saveSession env peer (currentUserId s) conv ses s0" and w: "localWritable s0"
    using assms(4) by blast
  show ?thesis
    by (rule restore_saved [where s = s0 and conv = conv and env = env])
      (use assms s' s1 w ses in \<open>simp_all add: initiatedSession_def\<close>)
qed

section \<open>Two parties\<close>

lemma bytesToHex_not_Nil: "bs \<noteq> [] \<Longrightarrow> bytesToHex bs \<noteq> []"
  using length_bytesToHex [of bs] by auto

lemma bytesToStr_not_Nil: "bs \<noteq> [] \<Longrightarrow> bytesToStr bs \<noteq> []"
  by (simp add: bytesToStr_def)

lemma decodeText_textEncode [simp]: "decodeText (textEncode t) = ClearText t"
  by (simp add: decodeText_def)

text \<open>An envelope sealed with a session opens for whoever ends up with a session of the same key.\<close>

lemma decryptEnvelope_sealed:
  assumes "e = sealEnvelope c iv plaintext conv n uid peer (Some ses) initMsg idKey"
    and "aeadCorrect (gcmd c)" "aeadTagged (gcmd c)" "iv \<noteq> []"
    and "sessionForEnvelope c env e conv' uid' s = (Some ses', s1)" "sessionKey ses' = sessionKey ses"
  shows "decryptEnvelope c env e conv' uid' s = (openedResult e (textEncode plaintext), s1)"
    and "resultText (openedResult e (textEncode plaintext)) = ClearText plaintext"
    and "isEncrypted (openedResult e (textEncode plaintext))"
proof -
  let ?ct = "seal (gcmd c) (sessionKey ses) iv [] (textEncode plaintext)"
  have e: "protocol e = ''genchat-pq-v1''" "\<not> insecureFallback e" "ivHex e = bytesToHex iv"
    "ciphertextBase64 e = btoa (bytesToStr ?ct)"
    by (simp_all add: assms(1) sealEnvelope_def)
  have ct: "?ct \<noteq> []" using assms(3,4) by (simp add: aeadTagged_def)
  have "isEnvelope e"
    using bytesToStr_not_Nil [OF ct] bytesToHex_not_Nil [OF assms(4)] by (simp add: isEnvelope_def e)
  moreover have nf: "\<not> isFallbackEnvelope e" by (simp add: isFallbackEnvelope_def e)
  moreover have "openEnvelope c env e conv' uid' (sessionKey ses') s1 = (openedResult e (textEncode plaintext), s1)"
    using assms(2,4,6) by (simp add: openEnvelope_def e hexMatch_bytesToHex base64ToBuffer_def atob_btoa)
  ultimately show "decryptEnvelope c env e conv' uid' s = (openedResult e (textEncode plaintext), s1)"
    using assms(5) by (simp add: decryptEnvelope_def)
  show "resultText (openedResult e (textEncode plaintext)) = ClearText plaintext"
    "isEncrypted (openedResult e (textEncode plaintext))"
    using nf by (simp_all add: openedResult_def)
qed

text \<open>With its user and its keys in memory, an operation starts without touching them.\<close>

lemma enterOperation_ready:
  assumes "me \<noteq> []" "currentUserId s = me"
  shows "enterOperation env me tok s = (me, if tok \<noteq> [] then s\<lparr>authToken := tok\<rparr> else s)"
  using assms by (simp add: enterOperation_def Let_def)

lemma decrypt_ready:
  assumes "me \<noteq> []" "currentUserId s = me" "identityBundle s = Some ib"
    and "decryptEnvelope c env e conv me (if tok \<noteq> [] then s\<lparr>authToken := tok\<rparr> else s) = (r, s')"
  shows "decrypt c env (Blob e) conv me tok s = (Done r, s')"
  using assms by (simp add: decrypt_def enterOperation_ready split: if_splits)

lemma envelope_from_peer:
  assumes "senderId e = a" "a \<noteq> []" "a \<noteq> b" "conversationId e \<noteq> []"
  shows "envelopeSender e conv b = a" "envelopePeer e conv b = a" "envelopeConversation e conv = conversationId e"
  using assms by (simp_all add: envelopeSender_def envelopePeer_def envelopeConversation_def Let_def)

lemma sealEnvelope_fields [simp]:
  "senderId (sealEnvelope c iv plaintext conv n uid peer ses m k) = uid"
  "conversationId (sealEnvelope c iv plaintext conv n uid peer ses m k) = conv"
  "initMessage (sealEnvelope c iv plaintext conv n uid peer ses m k) = m"
  by (simp_all add: sealEnvelope_def Let_def)

text \<open>An initial message leads the receiver to the session of the sender.\<close>

lemma sessionForEnvelope_init:
  assumes "senderId e = a" "a \<noteq> []" "b \<noteq> []" "a \<noteq> b" "conversationId e \<noteq> []"
    and "initMessage e = Some m" "identityBundle s = Some ib" "receivePqxdh c ib m = Done secretHex"
  shows "\<exists>ses s1. sessionForEnvelope c env e conv b s = (Some ses, s1)
    \<and> sessionKey ses = deriveKeyFromSecret c secretHex (getCanonicalContextId (conversationId e) a b)
    \<and> pendingInitMessage ses = None \<and> jsGet (sessionCache s1) a = Some ses
    \<and> currentUserId s1 = currentUserId s \<and> identityBundle s1 = identityBundle s"
proof -
  note p = envelope_from_peer [OF assms(1,2,4,5), of conv]
  obtain ses0 s0 where g: "getOrRestoreSession c env a b (conversationId e) s = (ses0, s0)" by fastforce
  note f = getOrRestoreSession_frame [OF g]
  have "offeredSession c e conv b s0 =
      Some \<lparr>sessionKey = deriveKeyFromSecret c secretHex (getCanonicalContextId (conversationId e) b a),
            sharedSecretHex = secretHex, peerIdentityKeyHex = senderIdentityKeyHex m, pendingInitMessage = None\<rparr>"
    using assms f p by (simp add: offeredSession_def receivedSession_def)
  then show ?thesis
    using p g f getCanonicalContextId_sym [OF assms(2,3,4)] by (simp add: sessionForEnvelope_def Let_def)
qed

lemma sessionForEnvelope_known:
  assumes "senderId e = a" "a \<noteq> []" "a \<noteq> b" "conversationId e \<noteq> []"
    and "initMessage e = None" "jsGet (sessionCache s) a = Some ses"
  shows "sessionForEnvelope c env e conv b s = (Some ses, s)"
  using assms envelope_from_peer [OF assms(1-4), of conv]
  by (simp add: sessionForEnvelope_def getOrRestoreSession_def offeredSession_def Let_def)

text \<open>
  The handshake module agrees: the receiver's identity derives from an initial message the secret
  the sender derived, for every bundle the server hands out for the receiver.
\<close>

definition pqxdhAgrees :: "e2eeCrypto \<Rightarrow> e2eeEnv \<Rightarrow> WasmIdentityBundle \<Rightarrow> string \<Rightarrow> WasmIdentityBundle \<Rightarrow> bool" where
  "pqxdhAgrees c env ibA b ibB \<longleftrightarrow>
     (\<forall>i bundle secretHex m. handshakeAnswer c env ibA b i = Some (bundle, secretHex, m)
        \<longrightarrow> receivePqxdh c ibB m = Done secretHex)"

text \<open>The state the first encryption to a peer leaves, and the envelope it returns.\<close>

lemma encrypt_first:
  assumes "a \<noteq> []" "currentUserId s = a" "identityBundle s = Some ib" "extractPeerId conv a = b" "a \<noteq> b"
    and "jsGet (sessionCache s) b = None"
    and "jsGet (persistedSessions s) (''genchat_pq_session_'' @ a @ ''_'' @ b) = None"
    and "jsGet (pendingHandshakes s) b = None"
    and "encrypt c env plaintext conv a n tok False s = (Inr e, s')"
  obtains i bd secretHex m where "handshakeAnswer c env ib b i = Some (bd, secretHex, m)"
    "jsGet (sessionCache s') b = Some (initiatedSession c conv a b bd secretHex m)"
    "e = sealEnvelope c (freshIv env) plaintext conv n a b (Some (initiatedSession c conv a b bd secretHex m))
           (Some m) (getPublicIdentityKey s')"
  using assms(9)
proof (cases rule: encrypt_cases)
  case (1 uid s1 s2 ses0 s3 r)
  have s1: "uid = a" "s1 = (if tok \<noteq> [] then s\<lparr>authToken := tok\<rparr> else s)"
    using 1(1) assms(1,2) by (simp_all add: enterOperation_ready)
  have ids: "identityBundle s1 = Some ib" "currentUserId s1 = a" "sessionCache s1 = sessionCache s"
    "persistedSessions s1 = persistedSessions s" "pendingHandshakes s1 = pendingHandshakes s"
    by (simp_all add: s1 assms)
  have "s2 = s1" using 1(2) ids by simp
  with 1(3) s1 ids assms have g: "ses0 = None" "s3 = s1"
    by (auto simp: getOrRestoreSession_def getSessionStorageKey_def Let_def split: if_splits)
  with 1(4) s1 ids assms have r: "establishSessionWithRetry c env b conv 3 s1 = (r, s')" by simp
  have "r \<noteq> None"
  proof
    assume "r = None"
    with 1(5) g(1) s1(1) assms(4,5) show False by simp
  qed
  then obtain ses m where rm: "r = Some (ses, m)" by auto
  with r ids assms obtain s4 where l: "handshakeLoop c env b conv 3 0 s1 = (Some (ses, m), s4)"
    and s': "sessionCache s' = sessionCache s4"
    by (auto simp: establishSessionWithRetry_def split: prod.splits)
  from handshakeLoop_saves [OF l] ids obtain i bd secretHex where
    h: "handshakeAnswer c env ib b i = Some (bd, secretHex, m)"
    and ses: "ses = initiatedSession c conv a b bd secretHex m" by auto
  from handshakeLoop_cached [OF l] s' ses 1(6) rm s1 assms(4) show ?thesis
    by (intro that [OF h]) simp_all
qed

text \<open>
  The first message of a conversation reaches the peer: if the handshake module agrees, then
  from the envelope alone the peer decrypts the plaintext, marked as encrypted, and both sides are
  left with a session of the same key.
\<close>

theorem first_message_roundtrip:
  assumes "aeadCorrect (gcmd c)" "aeadTagged (gcmd c)" "freshIv envA \<noteq> []" "pqxdhAgrees c envA ibA b ibB"
    and "a \<noteq> []" "b \<noteq> []" "a \<noteq> b" "extractPeerId conv a = b" "conv \<noteq> []"
    and "currentUserId sA = a" "identityBundle sA = Some ibA"
    and "jsGet (sessionCache sA) b = None" "jsGet (pendingHandshakes sA) b = None"
    and "jsGet (persistedSessions sA) (''genchat_pq_session_'' @ a @ ''_'' @ b) = None"
    and "currentUserId sB = b" "identityBundle sB = Some ibB"
    and "encrypt c envA plaintext conv a n tokA False sA = (Inr e, sA')"
  shows "\<exists>r sB' sesA sesB. decrypt c envB (Blob e) convB b tokB sB = (Done r, sB')
    \<and> resultText r = ClearText plaintext \<and> isEncrypted r
    \<and> jsGet (sessionCache sA') b = Some sesA \<and> jsGet (sessionCache sB') a = Some sesB
    \<and> sessionKey sesA = sessionKey sesB \<and> pendingInitMessage sesB = None"
proof -
  obtain i bd secretHex m where h: "handshakeAnswer c envA ibA b i = Some (bd, secretHex, m)"
    and A: "jsGet (sessionCache sA') b = Some (initiatedSession c conv a b bd secretHex m)"
    and e: "e = sealEnvelope c (freshIv envA) plaintext conv n a b (Some (initiatedSession c conv a b bd secretHex m))
           (Some m) (getPublicIdentityKey sA')"
    using encrypt_first [OF assms(5,10,11,8,7,12,14,13,17)] .
  have rcv: "receivePqxdh c ibB m = Done secretHex" using assms(4) h by (auto simp: pqxdhAgrees_def)
  let ?s = "if tokB \<noteq> [] then sB\<lparr>authToken := tokB\<rparr> else sB"
  have fields: "senderId e = a" "conversationId e = conv" "initMessage e = Some m" by (simp_all add: e)
  have cv: "conversationId e \<noteq> []" and ib: "identityBundle ?s = Some ibB" using assms fields(2) by simp_all
  obtain ses s1 where f: "sessionForEnvelope c envB e convB b ?s = (Some ses, s1)"
    and k: "sessionKey ses = deriveKeyFromSecret c secretHex (getCanonicalContextId conv a b)"
    and p: "pendingInitMessage ses = None" "jsGet (sessionCache s1) a = Some ses"
    using sessionForEnvelope_init [OF fields(1) assms(5-7) cv fields(3) ib rcv, of envB convB]
    unfolding fields(2) by blast
  have "sessionKey ses = sessionKey (initiatedSession c conv a b bd secretHex m)"
    by (simp add: k initiatedSession_def)
  note d = decryptEnvelope_sealed [OF e assms(1-3) f this]
  from decrypt_ready [OF assms(6,15,16) d(1)] d(2,3) A p k show ?thesis
    by (auto simp: initiatedSession_def)
qed


section \<open>Any message of a conversation\<close>

text \<open>
  The session that \<open>a\<close> holds for \<open>b\<close> opens at \<open>b\<close>: while it still carries its initial message, the handshake
  module of \<open>b\<close> accepts that message and both derive the same key; afterwards \<open>b\<close> holds a session of the same key.
  Before the first message there is no session at all, in memory or in storage, and the handshake modules agree.
\<close>

definition sessionFits :: "e2eeCrypto \<Rightarrow> string \<Rightarrow> string \<Rightarrow> string \<Rightarrow> WasmIdentityBundle \<Rightarrow> e2eeState \<Rightarrow> ActiveSession \<Rightarrow> bool" where
  "sessionFits c conv a b ibB sB ses =
     (case pendingInitMessage ses of
        Some m \<Rightarrow> (case receivePqxdh c ibB m of
                     Done x \<Rightarrow> sessionKey ses = deriveKeyFromSecret c x (getCanonicalContextId conv a b)
                   | Rejected \<Rightarrow> False)
      | None \<Rightarrow> map_option sessionKey (jsGet (sessionCache sB) a) = Some (sessionKey ses))"

definition reaches ::
  "e2eeCrypto \<Rightarrow> e2eeEnv \<Rightarrow> WasmIdentityBundle \<Rightarrow> WasmIdentityBundle \<Rightarrow> string \<Rightarrow> string \<Rightarrow> string \<Rightarrow> e2eeState \<Rightarrow> e2eeState \<Rightarrow> bool" where
  "reaches c env ibA ibB conv a b sA sB \<longleftrightarrow>
     (case jsGet (sessionCache sA) b of
        Some ses \<Rightarrow> sessionFits c conv a b ibB sB ses
      | None \<Rightarrow> jsGet (pendingHandshakes sA) b = None
          \<and> jsGet (persistedSessions sA) (''genchat_pq_session_'' @ a @ ''_'' @ b) = None \<and> pqxdhAgrees c env ibA b ibB)"

lemma encrypt_known:
  assumes "a \<noteq> []" "currentUserId s = a" "identityBundle s = Some ib" "extractPeerId conv a = b" "b \<noteq> []"
    and "jsGet (sessionCache s) b = Some ses" "encrypt c env plaintext conv a n tok allow s = (Inr e, s')"
  shows "s' = (if tok \<noteq> [] then s\<lparr>authToken := tok\<rparr> else s)"
    "e = sealEnvelope c (freshIv env) plaintext conv n a b (Some ses) (pendingInitMessage ses) (getPublicIdentityKey s')"
  using assms by (auto simp: encrypt_def enterOperation_ready getOrRestoreSession_def Let_def split: if_splits)

text \<open>
  The first message and every later one is opened, and the way stays open: in the states that sending and receiving it
  leave, the next message of \<open>a\<close> reaches \<open>b\<close> as well.
\<close>

lemma message_reaches:
  assumes "aeadCorrect (gcmd c)" "aeadTagged (gcmd c)" "freshIv envA \<noteq> []"
    and "reaches c envA ibA ibB conv a b sA sB"
    and "a \<noteq> []" "b \<noteq> []" "a \<noteq> b" "extractPeerId conv a = b" "conv \<noteq> []"
    and "currentUserId sA = a" "identityBundle sA = Some ibA" "currentUserId sB = b" "identityBundle sB = Some ibB"
    and "encrypt c envA plaintext conv a n tokA False sA = (Inr e, sA')"
  shows "protocol e = ''genchat-pq-v1''
    \<and> (\<exists>r sB'. decrypt c envB (Blob e) convB b tokB sB = (Done r, sB')
         \<and> resultText r = ClearText plaintext \<and> isEncrypted r \<and> reaches c envA ibA ibB conv a b sA' sB')"
proof -
  let ?s = "if tokB \<noteq> [] then sB\<lparr>authToken := tokB\<rparr> else sB"
  obtain ses where A: "jsGet (sessionCache sA') b = Some ses" "sessionFits c conv a b ibB sB ses"
    and e: "e = sealEnvelope c (freshIv envA) plaintext conv n a b (Some ses) (pendingInitMessage ses) (getPublicIdentityKey sA')"
  proof (cases "jsGet (sessionCache sA) b")
    case None
    note r = assms(4) [unfolded reaches_def None option.case]
    obtain i bd x m where h: "handshakeAnswer c envA ibA b i = Some (bd, x, m)"
      "jsGet (sessionCache sA') b = Some (initiatedSession c conv a b bd x m)"
      "e = sealEnvelope c (freshIv envA) plaintext conv n a b (Some (initiatedSession c conv a b bd x m)) (Some m) (getPublicIdentityKey sA')"
      using encrypt_first [OF assms(5,10,11,8,7) None _ _ assms(14)] r by blast
    have q: "pendingInitMessage (initiatedSession c conv a b bd x m) = Some m"
      "sessionKey (initiatedSession c conv a b bd x m) = deriveKeyFromSecret c x (getCanonicalContextId conv a b)"
      by (simp_all add: initiatedSession_def)
    have "receivePqxdh c ibB m = Done x" using r h(1) by (auto simp: pqxdhAgrees_def)
    then have "sessionFits c conv a b ibB sB (initiatedSession c conv a b bd x m)" by (simp add: sessionFits_def q)
    from that [OF h(2) this] h(3) show ?thesis by (simp add: q(1))
  next
    case (Some ses)
    note k = encrypt_known [OF assms(5,10,11,8,6) Some assms(14)]
    show ?thesis by (rule that [OF _ _ k(2)]) (use Some assms(4) in \<open>simp_all add: k(1) reaches_def\<close>)
  qed
  have fields: "senderId e = a" "conversationId e = conv" "initMessage e = pendingInitMessage ses" by (simp_all add: e)
  have cv: "conversationId e \<noteq> []" and ib: "identityBundle ?s = Some ibB" using assms fields(2) by simp_all
  obtain ses' s1 where f: "sessionForEnvelope c envB e convB b ?s = (Some ses', s1)" "sessionKey ses' = sessionKey ses"
    "sessionFits c conv a b ibB s1 ses"
  proof (cases "pendingInitMessage ses")
    case None
    with A(2) obtain sesB where B: "jsGet (sessionCache sB) a = Some sesB" "sessionKey sesB = sessionKey ses"
      by (auto simp: sessionFits_def)
    then have "jsGet (sessionCache ?s) a = Some sesB" by simp
    from sessionForEnvelope_known [OF fields(1) assms(5,7) cv _ this] fields(3) None
    show ?thesis using that B A(2) by (simp add: sessionFits_def)
  next
    case (Some m)
    with A(2) obtain x where x: "receivePqxdh c ibB m = Done x" "sessionKey ses = deriveKeyFromSecret c x (getCanonicalContextId conv a b)"
      by (auto simp: sessionFits_def split: outcome.splits)
    from sessionForEnvelope_init [OF fields(1) assms(5-7) cv fields(3) [unfolded Some] ib x(1), of envB convB] x(2) fields(2) A(2) Some
    show ?thesis using that by (auto simp: sessionFits_def)
  qed
  note d = decryptEnvelope_sealed [OF e assms(1-3) f(1,2)]
  have "protocol e = ''genchat-pq-v1''" by (simp add: e sealEnvelope_def)
  moreover have "reaches c envA ibA ibB conv a b sA' s1" using A(1) f(3) by (simp add: reaches_def)
  ultimately show ?thesis using decrypt_ready [OF assms(6,12,13) d(1)] d(2,3) by blast
qed

section \<open>Keys that change\<close>

text \<open>
  A server error on the count of one-time keys replaces the identity: with a stored identity,
  a token and a device, any unsuccessful status makes \<open>initUserKeys\<close> install and store the freshly
  generated identity in the place of the stored one and publish its bundle.
\<close>

theorem server_error_replaces_identity:
  assumes "tok \<noteq> []" "isUuid dev" "localReadable s" "localWritable s"
    and "jsGet (persistedIdentities s) (identityStorageKey uid) = Some (Blob old)"
    and "keyCount env = HttpError status" "freshKeys env = Done (new, pub)"
  shows "\<exists>s'. initUserKeys env uid dev tok s = (Done new, s') \<and> identityBundle s' = Some new
    \<and> jsGet (persistedIdentities s') (identityStorageKey uid) = Some (Blob new)
    \<and> uploads s' = uploads s @ [(tok, publishedBundle pub dev)]"
proof -
  have "dev \<noteq> []" using assms(2) by (auto simp: isUuid_def)
  with assms show ?thesis
    by (simp add: initUserKeys_def effectiveDevice_def loadIdentity_def needsFreshKeys_def installFreshKeys_def
        storeIdentity_def publishPreKeyBundle_def Let_def)
qed

lemma openEnvelope_keeps_offer:
  assumes "openEnvelope c env e conv uid k s = (r, s')" "offeredSession c e conv uid s = Some ses"
    and "jsGet (sessionCache s) (envelopePeer e conv uid) = Some ses"
    and "jsGet (peerIdentityKeys s) (envelopePeer e conv uid) = Some ik" "peerIdentityKeyHex ses = ik"
  shows "jsGet (sessionCache s') (envelopePeer e conv uid) = Some ses
    \<and> jsGet (peerIdentityKeys s') (envelopePeer e conv uid) = Some ik"
  using assms
  by (auto simp: openEnvelope_def saveSession_def notePeerKey_def Let_def split: option.splits)

text \<open>
  An incoming initial message takes effect before anything is authenticated: whatever session
  and identity key were known for the claimed sender, and whether or not the ciphertext then opens,
  the session of the message and the identity key it carries are in their place afterwards.
\<close>

theorem init_message_replaces_session:
  assumes "isEnvelope e" "senderId e = a" "a \<noteq> []" "a \<noteq> uid" "uid \<noteq> []"
    and "initMessage e = Some m" "senderIdentityKeyHex m \<noteq> []"
    and "identityBundle s = Some ib" "receivePqxdh c ib m = Done secretHex"
    and "decryptEnvelope c env e conv uid s = (r, s')"
  shows "\<exists>ses. jsGet (sessionCache s') a = Some ses \<and> sharedSecretHex ses = secretHex
    \<and> jsGet (peerIdentityKeys s') a = Some (senderIdentityKeyHex m)"
proof -
  have p: "envelopeSender e conv uid = a" "envelopePeer e conv uid = a"
    using assms by (simp_all add: envelopeSender_def envelopePeer_def Let_def)
  let ?cv = "envelopeConversation e conv"
  obtain ses0 s0 where g: "getOrRestoreSession c env a uid ?cv s = (ses0, s0)" by fastforce
  define ses where "ses = \<lparr>sessionKey = deriveKeyFromSecret c secretHex (getCanonicalContextId ?cv uid a),
    sharedSecretHex = secretHex, peerIdentityKeyHex = senderIdentityKeyHex m, pendingInitMessage = None\<rparr>"
  have off: "offeredSession c e conv uid s2 = Some ses" if "identityBundle s2 = Some ib" for s2
    using assms p that by (simp add: offeredSession_def receivedSession_def ses_def)
  define s1 where "s1 = notePeerKey a (senderIdentityKeyHex m) (saveSession env a uid ?cv ses s0)"
  have ib: "identityBundle s0 = Some ib" "identityBundle s1 = Some ib"
    using getOrRestoreSession_frame(1) [OF g] assms(8) by (simp_all add: s1_def)
  have f: "sessionForEnvelope c env e conv uid s = (Some ses, s1)"
    using g p off [OF ib(1)] by (simp add: sessionForEnvelope_def Let_def s1_def ses_def)
  have s1: "jsGet (sessionCache s1) a = Some ses" "jsGet (peerIdentityKeys s1) a = Some (senderIdentityKeyHex m)"
    using assms(7) by (simp_all add: s1_def notePeerKey_def)
  obtain k where "openEnvelope c env e conv uid k s1 = (r, s')"
    using assms(1,10) by (auto simp: decryptEnvelope_def f split: if_splits)
  from openEnvelope_keeps_offer [OF this off [OF ib(2)], unfolded p, OF s1]
  show ?thesis by (auto simp: ses_def)
qed

section \<open>A concrete pair of users\<close>

text \<open>Parameters that satisfy the laws, and two users, for the instances of the properties below.\<close>

definition demoInit :: WasmPqxdhInitMessage where
  "demoInit = \<lparr>senderIdentityKeyHex = ''aa'', senderIdentityKeyX25519Hex = ''bb'', ephemeralKeyHex = ''cc'', pqCiphertextHex = ''dd'',
     usedSignedPreKeyId = 1, usedPqPreKeyId = 1, usedOneTimeKeyId = None\<rparr>"

definition demoCrypto :: e2eeCrypto where
  "demoCrypto = \<lparr>initiatePqxdh = (\<lambda>ib b. Done (''0a'', demoInit)), receivePqxdh = (\<lambda>ib m. Done ''0a''),
     hkdfKey = (\<lambda>k s i. k), sha256d = (\<lambda>b. b), gcmd = tagAead\<rparr>"

definition demoIdentity :: WasmIdentityBundle where
  "demoIdentity = \<lparr>identityKeyEd25519PubHex = ''aa'', identitySecrets = []\<rparr>"

definition demoWire :: wireBundle where
  "demoWire = \<lparr>wbIdentityKey = [], wbIdentityKeyX25519 = [], wbSignedPreKey = None, wbPqPreKey = None, wbOneTimePreKey = None\<rparr>"

definition demoPublic :: WasmPublicPreKeyBundle where
  "demoPublic = \<lparr>identityKeyHex = [], identityKeyX25519Hex = [], signedPreKeyId = 1, signedPreKeyPublicHex = [],
     signedPreKeySignatureHex = [], pqPreKeyId = 1, pqPreKeyPublicHex = [], pqPreKeySignatureHex = [], oneTimePreKeys = []\<rparr>"

text \<open>The server answers from the second attempt on.\<close>

definition demoEnv :: e2eeEnv where
  "demoEnv = \<lparr>parseJwt = (\<lambda>t. None), freshKeys = Done (demoIdentity, demoPublic), keyCount = HttpError 500,
     bundleOf = (\<lambda>p i. if i < 2 then NetFail else HttpOk (Some demoWire)), uploadAnswer = NetFail, freshIv = [1]\<rparr>"

definition demoUser :: "string \<Rightarrow> e2eeState" where
  "demoUser u = \<lparr>identityBundle = Some demoIdentity, currentUserId = u, currentDeviceId = [], authToken = ''t'',
     sessionCache = [], peerIdentityKeys = [], pendingHandshakes = [], persistedSessions = [], persistedIdentities = [],
     localReadable = True, localWritable = True, storedUser = None, storedToken = None, sessionEvents = [], uploads = []\<rparr>"

lemma demo_answer:
  "handshakeAnswer demoCrypto demoEnv ib peer i = (if i < 2 then None else Some (demoPublic, ''0a'', demoInit))"
  by (simp add: handshakeAnswer_def demoEnv_def decodeBundle_def demoWire_def decodePreKey_def base64ToHex_def
      demoCrypto_def demoPublic_def)

lemma demo_laws: "aeadCorrect (gcmd demoCrypto)" "aeadTagged (gcmd demoCrypto)" "freshIv demoEnv \<noteq> []"
  using tagAead_ok by (simp_all add: demoCrypto_def demoEnv_def) (simp add: aeadTagged_def tagAead_def)

lemma demo_agrees: "pqxdhAgrees demoCrypto demoEnv demoIdentity b demoIdentity"
proof -
  have "receivePqxdh demoCrypto ib m = Done ''0a''" for ib m by (simp add: demoCrypto_def)
  then show ?thesis by (simp add: pqxdhAgrees_def demo_answer)
qed

lemma demo_establish:
  "\<exists>s'. establishSessionWithRetry demoCrypto demoEnv ''bob'' ''dm:alice:bob'' 3 (demoUser ''alice'') =
     (Some (initiatedSession demoCrypto ''dm:alice:bob'' ''alice'' ''bob'' demoPublic ''0a'' demoInit, demoInit), s')"
proof -
  have "fst (handshakeLoop demoCrypto demoEnv ''bob'' ''dm:alice:bob'' 3 0 (demoUser ''alice'')) =
     Some (initiatedSession demoCrypto ''dm:alice:bob'' ''alice'' ''bob'' demoPublic ''0a'' demoInit, demoInit)"
    by (subst handshakeLoop_fst [where ib = demoIdentity])
      (simp_all add: demoUser_def firstAnswer_step demo_answer numeral_2_eq_2)
  then show ?thesis
    by (cases "handshakeLoop demoCrypto demoEnv ''bob'' ''dm:alice:bob'' 3 0 (demoUser ''alice'')")
      (simp add: establishSessionWithRetry_def demoUser_def)
qed

lemma demo_peer: "extractPeerId ''dm:alice:bob'' ''alice'' = ''bob''" "extractPeerId ''dm:alice:bob'' ''bob'' = ''alice''"
  by (simp_all add: extractPeerId_def startsWith_def)

lemma demo_encrypt: "\<exists>e s'. encrypt demoCrypto demoEnv ''hi'' ''dm:alice:bob'' ''alice'' 1 [] False (demoUser ''alice'') = (Inr e, s')"
proof -
  have "getOrRestoreSession demoCrypto demoEnv ''bob'' ''alice'' ''dm:alice:bob'' (demoUser ''alice'') = (None, demoUser ''alice'')"
    by (simp add: getOrRestoreSession_def demoUser_def Let_def)
  then show ?thesis
    using demo_establish
    by (auto simp: encrypt_def enterOperation_ready demoUser_def demo_peer Let_def split: prod.splits)
qed

theorem encrypt_never_falls_back_witness:
  "\<exists>e s'. encrypt demoCrypto demoEnv ''hi'' ''dm:alice:bob'' ''alice'' 1 [] False (demoUser ''alice'') = (Inr e, s')
    \<and> protocol e = ''genchat-pq-v1''"
proof -
  obtain e s' where e: "encrypt demoCrypto demoEnv ''hi'' ''dm:alice:bob'' ''alice'' 1 [] False (demoUser ''alice'') = (Inr e, s')"
    using demo_encrypt by blast
  have "extractPeerId ''dm:alice:bob'' (resolveUserId demoEnv ''alice'' (demoUser ''alice''))
      \<noteq> resolveUserId demoEnv ''alice'' (demoUser ''alice'')"
    by (simp add: demo_peer)
  from encrypt_never_falls_back [OF e this] e show ?thesis by blast
qed

theorem first_message_roundtrip_witness:
  "\<exists>e sA' r sB'. encrypt demoCrypto demoEnv ''hi'' ''dm:alice:bob'' ''alice'' 1 [] False (demoUser ''alice'') = (Inr e, sA')
    \<and> decrypt demoCrypto demoEnv (Blob e) ''dm:alice:bob'' ''bob'' [] (demoUser ''bob'') = (Done r, sB')
    \<and> resultText r = ClearText ''hi'' \<and> isEncrypted r"
proof -
  obtain e s' where e: "encrypt demoCrypto demoEnv ''hi'' ''dm:alice:bob'' ''alice'' 1 [] False (demoUser ''alice'') = (Inr e, s')"
    using demo_encrypt by blast
  have "\<exists>r sB' sesA sesB. decrypt demoCrypto demoEnv (Blob e) ''dm:alice:bob'' ''bob'' [] (demoUser ''bob'') = (Done r, sB')
    \<and> resultText r = ClearText ''hi'' \<and> isEncrypted r
    \<and> jsGet (sessionCache s') ''bob'' = Some sesA \<and> jsGet (sessionCache sB') ''alice'' = Some sesB
    \<and> sessionKey sesA = sessionKey sesB \<and> pendingInitMessage sesB = None"
    by (rule first_message_roundtrip [OF demo_laws demo_agrees _ _ _ demo_peer(1) _ _ _ _ _ _ _ _ e])
      (simp_all add: demoUser_def)
  with e show ?thesis by blast
qed

text \<open>The two users after the first message, each with the session for the other.\<close>

definition demoSession :: ActiveSession where
  "demoSession = \<lparr>sessionKey = [10], sharedSecretHex = ''0a'', peerIdentityKeyHex = ''aa'', pendingInitMessage = None\<rparr>"

definition demoPaired :: "string \<Rightarrow> string \<Rightarrow> e2eeState" where
  "demoPaired u peer = (demoUser u)\<lparr>sessionCache := [(peer, demoSession)]\<rparr>"

lemma demoPaired_simps [simp]:
  "currentUserId (demoPaired u p) = u" "identityBundle (demoPaired u p) = Some demoIdentity"
  "jsGet (sessionCache (demoPaired u p)) p = Some demoSession" "pendingInitMessage demoSession = None"
  by (simp_all add: demoPaired_def demoUser_def demoSession_def jsGet_def)


lemma demo_reply:
  "\<exists>e r s'. decrypt demoCrypto demoEnv (Blob e) ''dm:alice:bob'' ''alice'' [] (demoPaired ''alice'' ''bob'') = (Done r, s') \<and> isEncrypted r"
proof -
  define e where "e = sealEnvelope demoCrypto [1] ''yo'' ''dm:alice:bob'' 1 ''bob'' ''alice'' (Some demoSession) None []"
  have f: "sessionForEnvelope demoCrypto demoEnv e ''dm:alice:bob'' ''alice'' (demoPaired ''alice'' ''bob'')
      = (Some demoSession, demoPaired ''alice'' ''bob'')"
    by (rule sessionForEnvelope_known [where a = "''bob''"]) (simp_all add: e_def)
  have iv: "[1] \<noteq> ([] :: bytes)" by simp
  note d = decryptEnvelope_sealed [OF e_def demo_laws(1,2) iv f refl]
  have "decrypt demoCrypto demoEnv (Blob e) ''dm:alice:bob'' ''alice'' [] (demoPaired ''alice'' ''bob'')
      = (Done (openedResult e (textEncode ''yo'')), demoPaired ''alice'' ''bob'')"
    by (rule decrypt_ready) (use d(1) in simp_all)
  with d(3) show ?thesis by blast
qed

theorem decrypt_fails_closed_witness:
  "\<exists>e r s' ses. decrypt demoCrypto demoEnv (Blob e) ''dm:alice:bob'' ''alice'' [] (demoPaired ''alice'' ''bob'') = (Done r, s')
    \<and> isEncrypted r \<and> protocol e = ''genchat-pq-v1''
    \<and> jsGet (sessionCache s') (envelopePeer e ''dm:alice:bob'' (resolveUserId demoEnv ''alice'' (demoPaired ''alice'' ''bob''))) = Some ses"
proof -
  obtain e r s' where e: "decrypt demoCrypto demoEnv (Blob e) ''dm:alice:bob'' ''alice'' [] (demoPaired ''alice'' ''bob'') = (Done r, s')"
    and r: "isEncrypted r"
    using demo_reply by blast
  from decrypt_fails_closed [OF e r] e r show ?thesis by auto
qed

theorem establishSession_first_answer_witness:
  "fst (establishSessionWithRetry demoCrypto demoEnv ''bob'' ''dm:alice:bob'' 1 (demoUser ''alice'')) = None
    \<and> fst (establishSessionWithRetry demoCrypto demoEnv ''bob'' ''dm:alice:bob'' 3 (demoUser ''alice'')) \<noteq> None"
proof -
  have s: "identityBundle (demoUser ''alice'') = Some demoIdentity" "authToken (demoUser ''alice'') \<noteq> []"
    "jsGet (pendingHandshakes (demoUser ''alice'')) ''bob'' = None"
    by (simp_all add: demoUser_def)
  have one: "\<forall>i \<in> {1..1}. handshakeAnswer demoCrypto demoEnv demoIdentity ''bob'' i = None" by (simp add: demo_answer)
  have three: "\<not> (\<forall>i \<in> {1..3}. handshakeAnswer demoCrypto demoEnv demoIdentity ''bob'' i = None)"
    by (auto simp: demo_answer intro!: bexI [of _ 2])
  note inst = establishSession_first_answer [OF s prod.collapse [symmetric], THEN conjunct2, THEN conjunct1]
  show ?thesis
    unfolding inst using one three by blast
qed

theorem session_survives_reload_witness:
  "\<exists>ses (s' :: e2eeState). fst (getOrRestoreSession demoCrypto demoEnv ''bob'' ''alice'' ''dm:alice:bob''
       ((demoUser ''alice'')\<lparr>persistedSessions := persistedSessions s'\<rparr>)) = Some ses
    \<and> fst (establishSessionWithRetry demoCrypto demoEnv ''bob'' ''dm:alice:bob'' 3 (demoUser ''alice'')) = Some (ses, demoInit)"
proof -
  obtain ses s' where e: "establishSessionWithRetry demoCrypto demoEnv ''bob'' ''dm:alice:bob'' 3 (demoUser ''alice'') = (Some (ses, demoInit), s')"
    using demo_establish by blast
  have u: "currentUserId (demoUser ''alice'') = ''alice''" by (simp add: demoUser_def)
  have "fst (getOrRestoreSession demoCrypto demoEnv ''bob'' (currentUserId (demoUser ''alice'')) ''dm:alice:bob''
       ((demoUser ''alice'')\<lparr>persistedSessions := persistedSessions s'\<rparr>)) = Some ses"
    by (rule session_survives_reload [OF _ _ _ _ _ e]) (simp_all add: demoUser_def)
  then show ?thesis by (intro exI [of _ ses] exI [of _ s']) (simp add: e u)
qed

theorem server_error_replaces_identity_witness:
  "\<exists>s'. initUserKeys demoEnv ''alice'' ''00000000-0000-0000-0000-000000000000'' ''t''
      ((demoUser ''alice'')\<lparr>persistedIdentities := [(identityStorageKey ''alice'', Blob (demoIdentity\<lparr>identitySecrets := ''old''\<rparr>))]\<rparr>)
      = (Done demoIdentity, s') \<and> identityBundle s' = Some demoIdentity"
proof -
  let ?s = "(demoUser ''alice'')\<lparr>persistedIdentities := [(identityStorageKey ''alice'', Blob (demoIdentity\<lparr>identitySecrets := ''old''\<rparr>))]\<rparr>"
  let ?dev = "''00000000-0000-0000-0000-000000000000''"
  have dev: "isUuid ?dev" by code_simp
  have "\<exists>s'. initUserKeys demoEnv ''alice'' ?dev ''t'' ?s = (Done demoIdentity, s') \<and> identityBundle s' = Some demoIdentity
    \<and> jsGet (persistedIdentities s') (identityStorageKey ''alice'') = Some (Blob demoIdentity)
    \<and> uploads s' = uploads ?s @ [(''t'', publishedBundle demoPublic ?dev)]"
    by (rule server_error_replaces_identity [OF _ dev]) (simp_all add: demoUser_def demoEnv_def jsGet_def)
  then show ?thesis by blast
qed

theorem init_message_replaces_session_witness:
  "\<exists>e r s' ses. decryptEnvelope demoCrypto demoEnv e ''dm:alice:bob'' ''alice'' (demoPaired ''alice'' ''bob'') = (r, s')
    \<and> jsGet (sessionCache s') ''bob'' = Some ses \<and> sharedSecretHex ses = ''0a''"
proof -
  let ?e = "\<lparr>protocol = ''genchat-pq-v1'', conversationId = ''c'', sequenceNum = 1, senderId = ''bob'', recipientId = None,
    initMessage = Some demoInit, ivHex = ''00'', ciphertextBase64 = ''AA=='', senderFingerprint = [], insecureFallback = False\<rparr>"
  obtain r s' where d: "decryptEnvelope demoCrypto demoEnv ?e ''dm:alice:bob'' ''alice'' (demoPaired ''alice'' ''bob'') = (r, s')"
    by fastforce
  have "\<exists>ses. jsGet (sessionCache s') ''bob'' = Some ses \<and> sharedSecretHex ses = ''0a''
    \<and> jsGet (peerIdentityKeys s') ''bob'' = Some (senderIdentityKeyHex demoInit)"
    by (rule init_message_replaces_session [OF _ _ _ _ _ _ _ _ _ d])
      (simp_all add: isEnvelope_def demoInit_def demoCrypto_def)
  with d show ?thesis by blast
qed

end
