(* ===== verification/Handshake_Flight.thy ===== *)
theory Handshake_Flight
  imports E2ee_Session
begin

text \<open>
  \<open>E2eeService.establishSessionWithRetry\<close> of \<open>packages/client-web/src/lib/e2ee-ratchet.ts\<close> with its suspensions: any
  number of callers, the table of handshakes in flight, the loop that stops at the request of the bundle, at the
  handshake module, at the derivation of the key and at the pause between two attempts, and whatever else the service
  does in between. \<open>E2ee_Session\<close> uses the same function as one step; the last section shows that this is what a
  caller gets that is alone.
\<close>

section \<open>Handshakes in flight and their callers\<close>

text \<open>Where the loop of a handshake is suspended, with the number of the attempt, or the value it returned\<close>

datatype flightStage =
    AwaitBundle nat string
  | AwaitSecret nat WasmPublicPreKeyBundle WasmIdentityBundle
  | AwaitKey nat WasmPublicPreKeyBundle string WasmPqxdhInitMessage string
  | AwaitPause nat
  | Landed "(ActiveSession \<times> WasmPqxdhInitMessage) option"

record flight =
  flightPeer :: string
  flightConv :: string
  flightMax :: nat
  flightAt :: flightStage

text \<open>A caller without identity is refused; another one started a flight or joined one, and gets its value.\<close>

datatype caller =
    Refused | Started nat | Joined nat
  | Got nat "(ActiveSession \<times> WasmPqxdhInitMessage) option"

record flightState =
  service :: e2eeState
  flights :: "flight list"
  inFlightOf :: "nat jsmap"
  callers :: "(string \<times> caller) list"

definition noFlights :: "e2eeState \<Rightarrow> flightState" where
  "noFlights s = \<lparr>service = s, flights = [], inFlightOf = [], callers = []\<rparr>"

text \<open>The loop after \<open>attempt\<close> attempts: the next one, which sends the token of that moment, or the end\<close>

definition nextAttempt :: "nat \<Rightarrow> nat \<Rightarrow> e2eeState \<Rightarrow> flightStage" where
  "nextAttempt maxRetries attempt s = (if attempt < maxRetries then AwaitBundle (Suc attempt) (authToken s) else Landed None)"

definition attemptFailed :: "nat \<Rightarrow> nat \<Rightarrow> flightStage" where
  "attemptFailed maxRetries attempt = (if attempt < maxRetries then AwaitPause attempt else Landed None)"

definition callHandshake :: "string \<Rightarrow> string \<Rightarrow> nat \<Rightarrow> flightState \<Rightarrow> flightState" where
  "callHandshake peer conv maxRetries s =
     (if identityBundle (service s) = None then s\<lparr>callers := callers s @ [(peer, Refused)]\<rparr>
      else case jsGet (inFlightOf s) peer of
             Some i \<Rightarrow> s\<lparr>callers := callers s @ [(peer, Joined i)]\<rparr>
           | None \<Rightarrow>
               s\<lparr>flights := flights s @ [\<lparr>flightPeer = peer, flightConv = conv, flightMax = maxRetries,
                                         flightAt = nextAttempt maxRetries 0 (service s)\<rparr>],
                 inFlightOf := jsSet peer (length (flights s)) (inFlightOf s),
                 callers := callers s @ [(peer, Started (length (flights s)))]\<rparr>)"

text \<open>One suspension ends. Without a token no bundle is asked for, so the answer does not matter.\<close>

definition continueFlight ::
  "e2eeCrypto \<Rightarrow> e2eeEnv \<Rightarrow> wireBundle option http \<Rightarrow> flight \<Rightarrow> e2eeState \<Rightarrow> flightStage \<times> e2eeState" where
  "continueFlight c env answer f s =
     (case flightAt f of
        AwaitBundle a tok \<Rightarrow>
          (case (if tok = [] then (None, s) else fetchPreKeyBundle answer (flightPeer f) tok s) of
             (None, s1) \<Rightarrow> (attemptFailed (flightMax f) a, s1)
           | (Some bundle, s1) \<Rightarrow>
               (case identityBundle s1 of
                  None \<Rightarrow> (attemptFailed (flightMax f) a, s1)
                | Some me \<Rightarrow> (AwaitSecret a bundle me, s1)))
      | AwaitSecret a bundle me \<Rightarrow>
          (case initiatePqxdh c me bundle of
             Rejected \<Rightarrow> (attemptFailed (flightMax f) a, s)
           | Done (secretHex, m) \<Rightarrow>
               (AwaitKey a bundle secretHex m (getCanonicalContextId (flightConv f) (currentUserId s) (flightPeer f)), s))
      | AwaitKey a bundle secretHex m contextId \<Rightarrow>
          (let ses = \<lparr>sessionKey = deriveKeyFromSecret c secretHex contextId, sharedSecretHex = secretHex,
                      peerIdentityKeyHex = identityKeyHex bundle, pendingInitMessage = Some m\<rparr>
           in (Landed (Some (ses, m)), saveSession env (flightPeer f) (currentUserId s) (flightConv f) ses s))
      | AwaitPause a \<Rightarrow> (nextAttempt (flightMax f) a s, s)
      | Landed r \<Rightarrow> (Landed r, s))"

definition resumeFlight :: "e2eeCrypto \<Rightarrow> e2eeEnv \<Rightarrow> nat \<Rightarrow> wireBundle option http \<Rightarrow> flightState \<Rightarrow> flightState" where
  "resumeFlight c env i answer s =
     (if i < length (flights s)
      then (case continueFlight c env answer (flights s ! i) (service s) of
              (st, svc) \<Rightarrow> s\<lparr>service := svc, flights := (flights s)[i := (flights s ! i)\<lparr>flightAt := st\<rparr>]\<rparr>)
      else s)"

text \<open>A caller whose flight has landed returns; the one that started it removes it from the table first.\<close>

definition returnCaller :: "nat \<Rightarrow> flightState \<Rightarrow> flightState" where
  "returnCaller k s =
     (if k < length (callers s)
      then (case callers s ! k of
              (peer, Started i) \<Rightarrow>
                (case flightAt (flights s ! i) of
                   Landed r \<Rightarrow> s\<lparr>inFlightOf := jsDelete peer (inFlightOf s), callers := (callers s)[k := (peer, Got i r)]\<rparr>
                 | _ \<Rightarrow> s)
            | (peer, Joined i) \<Rightarrow>
                (case flightAt (flights s ! i) of
                   Landed r \<Rightarrow> s\<lparr>callers := (callers s)[k := (peer, Got i r)]\<rparr>
                 | _ \<Rightarrow> s)
            | _ \<Rightarrow> s)
      else s)"

text \<open>\<open>Elsewhere f\<close> is any change that the other operations of the service make between two suspensions.\<close>

datatype flightEvent =
    Call string string nat | Resume nat "wireBundle option http" | Return nat | Elsewhere "e2eeState \<Rightarrow> e2eeState"

fun flightStep :: "e2eeCrypto \<Rightarrow> e2eeEnv \<Rightarrow> flightEvent \<Rightarrow> flightState \<Rightarrow> flightState" where
  "flightStep c env (Call peer conv n) s = callHandshake peer conv n s"
| "flightStep c env (Resume i answer) s = resumeFlight c env i answer s"
| "flightStep c env (Return k) s = returnCaller k s"
| "flightStep c env (Elsewhere f) s = s\<lparr>service := f (service s)\<rparr>"

section \<open>One handshake for all who ask at the same time\<close>

text \<open>
  The table holds exactly the flights whose starter has not returned; callers wait for, or got the value of, a flight
  to their own peer.
\<close>

definition waitsFor :: "caller \<Rightarrow> nat option" where
  "waitsFor x = (case x of Started i \<Rightarrow> Some i | Joined i \<Rightarrow> Some i | Got i r \<Rightarrow> Some i | Refused \<Rightarrow> None)"

definition callerOk :: "flightState \<Rightarrow> string \<times> caller \<Rightarrow> bool" where
  "callerOk s pc =
     (case waitsFor (snd pc) of
        None \<Rightarrow> True
      | Some i \<Rightarrow> i < length (flights s) \<and> flightPeer (flights s ! i) = fst pc
          \<and> (case snd pc of Got j r \<Rightarrow> flightAt (flights s ! i) = Landed r | _ \<Rightarrow> True))"

definition flightsOk :: "flightState \<Rightarrow> bool" where
  "flightsOk s \<longleftrightarrow>
     list_all (callerOk s) (callers s)
     \<and> (\<forall>p i. jsGet (inFlightOf s) p = Some i \<longleftrightarrow> (p, Started i) \<in> set (callers s))
     \<and> (\<forall>i < length (flights s). (\<exists>r. flightAt (flights s ! i) = Landed r) \<or> jsGet (inFlightOf s) (flightPeer (flights s ! i)) = Some i)
     \<and> (\<forall>k < length (callers s). \<forall>k' < length (callers s). \<forall>p i.
          callers s ! k = (p, Started i) \<and> callers s ! k' = (p, Started i) \<longrightarrow> k = k')"

lemma callerOk_simps [simp]:
  "callerOk s (p, Refused)"
  "callerOk s (p, Started i) \<longleftrightarrow> i < length (flights s) \<and> flightPeer (flights s ! i) = p"
  "callerOk s (p, Joined i) \<longleftrightarrow> i < length (flights s) \<and> flightPeer (flights s ! i) = p"
  "callerOk s (p, Got i r) \<longleftrightarrow> i < length (flights s) \<and> flightPeer (flights s ! i) = p \<and> flightAt (flights s ! i) = Landed r"
  by (simp_all add: callerOk_def waitsFor_def)

lemma flightsOk_new: "flightsOk (noFlights s)"
  by (simp add: flightsOk_def noFlights_def)

lemma callerOk_cong: "flights s' = flights s \<Longrightarrow> callerOk s' x = callerOk s x"
  by (simp only: callerOk_def)

lemma flightsOk_caller: "flightsOk s \<Longrightarrow> x \<in> set (callers s) \<Longrightarrow> callerOk s x"
  by (simp add: flightsOk_def list_all_iff)

lemma flightsOk_table: "flightsOk s \<Longrightarrow> jsGet (inFlightOf s) p = Some i \<longleftrightarrow> (p, Started i) \<in> set (callers s)"
  by (simp add: flightsOk_def)

lemma flightsOk_flight:
  "flightsOk s \<Longrightarrow> i < length (flights s) \<Longrightarrow>
     (\<exists>r. flightAt (flights s ! i) = Landed r) \<or> jsGet (inFlightOf s) (flightPeer (flights s ! i)) = Some i"
  unfolding flightsOk_def by blast

lemma flightsOk_starter:
  "flightsOk s \<Longrightarrow> k < length (callers s) \<Longrightarrow> k' < length (callers s) \<Longrightarrow> callers s ! k = (p, Started i) \<Longrightarrow>
     callers s ! k' = (p, Started i) \<Longrightarrow> k = k'"
  by (simp add: flightsOk_def)

lemma flightsOk_intro:
  assumes "\<And>x. x \<in> set (callers s) \<Longrightarrow> callerOk s x"
    and "\<And>p i. jsGet (inFlightOf s) p = Some i \<longleftrightarrow> (p, Started i) \<in> set (callers s)"
    and "\<And>i. i < length (flights s) \<Longrightarrow> (\<exists>r. flightAt (flights s ! i) = Landed r) \<or> jsGet (inFlightOf s) (flightPeer (flights s ! i)) = Some i"
    and "\<And>k k' p i. k < length (callers s) \<Longrightarrow> k' < length (callers s) \<Longrightarrow> callers s ! k = (p, Started i) \<Longrightarrow>
       callers s ! k' = (p, Started i) \<Longrightarrow> k = k'"
  shows "flightsOk s"
  using assms unfolding flightsOk_def list_all_iff by blast

text \<open>A new caller, with its flight if it starts one\<close>

lemma callerOk_more:
  "callerOk s x \<Longrightarrow> callerOk (s\<lparr>flights := flights s @ fs, inFlightOf := t, callers := cs\<rparr>) x"
  by (cases x; cases "snd x") (auto simp: nth_append)

lemma flightsOk_call:
  assumes "flightsOk s"
  shows "flightsOk (callHandshake peer conv n s)"
proof -
  have quiet: "flightsOk (s\<lparr>callers := callers s @ [(peer, x)]\<rparr>)"
    if "callerOk s (peer, x)" "\<And>i. x \<noteq> Started i" for x
  proof (rule flightsOk_intro)
    have "callerOk (s\<lparr>callers := callers s @ [(peer, x)]\<rparr>) y = callerOk s y" for y by (rule callerOk_cong) simp
    then show "y \<in> set (callers (s\<lparr>callers := callers s @ [(peer, x)]\<rparr>)) \<Longrightarrow> callerOk (s\<lparr>callers := callers s @ [(peer, x)]\<rparr>) y" for y
      using that(1) flightsOk_caller [OF assms] by (cases y) auto
  qed (use that(2) flightsOk_table [OF assms] flightsOk_flight [OF assms] flightsOk_starter [OF assms]
       in \<open>auto simp: nth_append less_Suc_eq split: if_splits\<close>)
  show ?thesis
  proof (cases "identityBundle (service s) = None")
    case True
    then show ?thesis using quiet [of Refused] by (simp add: callHandshake_def)
  next
    case id: False
    show ?thesis
    proof (cases "jsGet (inFlightOf s) peer")
      case (Some i)
      then have "callerOk s (peer, Started i)" using flightsOk_caller [OF assms] flightsOk_table [OF assms] by blast
      then have "flightsOk (s\<lparr>callers := callers s @ [(peer, Joined i)]\<rparr>)" using quiet [of "Joined i"] by simp
      moreover have "callHandshake peer conv n s = s\<lparr>callers := callers s @ [(peer, Joined i)]\<rparr>"
        using id Some by (auto simp: callHandshake_def)
      ultimately show ?thesis by simp
    next
      case None
      let ?f = "\<lparr>flightPeer = peer, flightConv = conv, flightMax = n, flightAt = nextAttempt n 0 (service s)\<rparr>"
      let ?s = "s\<lparr>flights := flights s @ [?f], inFlightOf := jsSet peer (length (flights s)) (inFlightOf s),
                 callers := callers s @ [(peer, Started (length (flights s)))]\<rparr>"
      have none: "(peer, Started i) \<notin> set (callers s)" for i using None flightsOk_table [OF assms, of peer i] by auto
      have old: "i < length (flights s)" if "(p, Started i) \<in> set (callers s)" for p i
        using flightsOk_caller [OF assms that] by simp
      have "flightsOk ?s"
      proof (rule flightsOk_intro)
        show "x \<in> set (callers ?s) \<Longrightarrow> callerOk ?s x" for x
          using flightsOk_caller [OF assms, of x] callerOk_more [of s x] by (cases x) auto
        show "jsGet (inFlightOf ?s) p = Some i \<longleftrightarrow> (p, Started i) \<in> set (callers ?s)" for p i
          using flightsOk_table [OF assms, of p i] none by auto
        show "i < length (flights ?s) \<Longrightarrow>
            (\<exists>r. flightAt (flights ?s ! i) = Landed r) \<or> jsGet (inFlightOf ?s) (flightPeer (flights ?s ! i)) = Some i" for i
          using flightsOk_flight [OF assms, of i] None by (auto simp: nth_append less_Suc_eq)
        show "k < length (callers ?s) \<Longrightarrow> k' < length (callers ?s) \<Longrightarrow> callers ?s ! k = (p, Started i) \<Longrightarrow>
            callers ?s ! k' = (p, Started i) \<Longrightarrow> k = k'" for k k' p i
          using flightsOk_starter [OF assms, of k k' p i] old none by (auto simp: nth_append less_Suc_eq set_conv_nth split: if_splits)
      qed
      moreover have "callHandshake peer conv n s = ?s" using id None by (auto simp: callHandshake_def)
      ultimately show ?thesis by (simp only:)
    qed
  qed
qed

lemma continueFlight_landed: "flightAt f = Landed r \<Longrightarrow> continueFlight c env answer f s = (Landed r, s)"
  by (simp add: continueFlight_def)

lemma flightsOk_resume:
  assumes "flightsOk s"
  shows "flightsOk (resumeFlight c env i answer s)"
proof (cases "i < length (flights s)")
  case True
  obtain st svc where q: "continueFlight c env answer (flights s ! i) (service s) = (st, svc)" by fastforce
  let ?s = "s\<lparr>service := svc, flights := (flights s)[i := (flights s ! i)\<lparr>flightAt := st\<rparr>]\<rparr>"
  have keep: "flightAt (flights ?s ! j) = Landed r" if "flightAt (flights s ! j) = Landed r" for j r
    using that q continueFlight_landed [of "flights s ! i" r] True by (cases "j = i") auto
  have peer: "flightPeer (flights ?s ! j) = flightPeer (flights s ! j)" for j
    using True by (cases "j = i") auto
  have "flightsOk ?s"
  proof (rule flightsOk_intro)
    show "callerOk ?s x" if "x \<in> set (callers ?s)" for x
      using flightsOk_caller [OF assms, of x] that peer keep by (cases x; cases "snd x") auto
    show "(\<exists>r. flightAt (flights ?s ! j) = Landed r) \<or> jsGet (inFlightOf ?s) (flightPeer (flights ?s ! j)) = Some j"
      if "j < length (flights ?s)" for j
      using flightsOk_flight [OF assms, of j] that keep unfolding peer by auto
  qed (use flightsOk_table [OF assms] flightsOk_starter [OF assms] in auto)
  then show ?thesis using True q by (simp add: resumeFlight_def)
qed (simp add: resumeFlight_def assms)

lemma stillStarted:
  "n < length cs \<Longrightarrow> cs[k := (peer, Got i r)] ! n = (p, Started j) \<Longrightarrow> cs ! n = (p, Started j)"
  "n < length cs \<Longrightarrow> cs[k := (peer, Got i r)] ! n = (p, Started j) \<Longrightarrow> n \<noteq> k"
  by (cases "n = k"; simp)+

lemma flightsOk_return:
  assumes "flightsOk s"
  shows "flightsOk (returnCaller k s)"
proof -
  have quiet: "flightsOk (s\<lparr>callers := (callers s)[k := (peer, Got i r)]\<rparr>)"
    if k: "k < length (callers s)" "callers s ! k = (peer, Joined i)" and r: "flightAt (flights s ! i) = Landed r" for peer i r
  proof (rule flightsOk_intro)
    let ?s = "s\<lparr>callers := (callers s)[k := (peer, Got i r)]\<rparr>"
    have "callerOk s (callers s ! k)" using flightsOk_caller [OF assms] nth_mem [OF k(1)] by blast
    then have "callerOk s (peer, Joined i)" unfolding k(2) .
    then have g: "callerOk s (peer, Got i r)" using r by simp
    have c: "callerOk ?s x = callerOk s x" for x by (rule callerOk_cong) simp
    show "x \<in> set (callers ?s) \<Longrightarrow> callerOk ?s x" for x
      unfolding c using g flightsOk_caller [OF assms, of x] set_update_subset_insert [of "callers s" k "(peer, Got i r)"] by auto
    have started: "(p, Started j) \<in> set (callers ?s) \<longleftrightarrow> (p, Started j) \<in> set (callers s)" for p j
      using k by (auto simp: in_set_conv_nth nth_list_update split: if_splits) (metis caller.distinct(7) prod.inject)
    show "jsGet (inFlightOf ?s) p = Some j \<longleftrightarrow> (p, Started j) \<in> set (callers ?s)" for p j
      unfolding started using flightsOk_table [OF assms, of p j] by simp
    show "k1 < length (callers ?s) \<Longrightarrow> k2 < length (callers ?s) \<Longrightarrow> callers ?s ! k1 = (p, Started j) \<Longrightarrow>
        callers ?s ! k2 = (p, Started j) \<Longrightarrow> k1 = k2" for k1 k2 p j
      using flightsOk_starter [OF assms, of k1 k2 p j] stillStarted [of _ "callers s" k peer i r] by simp
  qed (use flightsOk_flight [OF assms] in simp)
  have starter: "flightsOk (s\<lparr>inFlightOf := jsDelete peer (inFlightOf s), callers := (callers s)[k := (peer, Got i r)]\<rparr>)"
    if k: "k < length (callers s)" "callers s ! k = (peer, Started i)" and r: "flightAt (flights s ! i) = Landed r" for peer i r
  proof (rule flightsOk_intro)
    let ?s = "s\<lparr>inFlightOf := jsDelete peer (inFlightOf s), callers := (callers s)[k := (peer, Got i r)]\<rparr>"
    have m: "(peer, Started i) \<in> set (callers s)" using k by (metis nth_mem)
    have g: "callerOk s (peer, Got i r)" using flightsOk_caller [OF assms m] r by simp
    have t: "jsGet (inFlightOf s) peer = Some i" using flightsOk_table [OF assms] m by blast
    have c: "callerOk ?s x = callerOk s x" for x by (rule callerOk_cong) simp
    show "x \<in> set (callers ?s) \<Longrightarrow> callerOk ?s x" for x
      unfolding c using g flightsOk_caller [OF assms, of x] set_update_subset_insert [of "callers s" k "(peer, Got i r)"] by auto
    have started: "(p, Started j) \<in> set (callers ?s) \<longleftrightarrow> p \<noteq> peer \<and> (p, Started j) \<in> set (callers s)" for p j
    proof
      assume "(p, Started j) \<in> set (callers ?s)"
      then obtain n where n: "n < length (callers s)" "n \<noteq> k" "callers s ! n = (p, Started j)"
        using stillStarted [of _ "callers s" k peer i r p j] by (auto simp: in_set_conv_nth)
      then have "(p, Started j) \<in> set (callers s)" by (metis nth_mem)
      moreover have "p \<noteq> peer"
      proof
        assume p: "p = peer"
        then have "j = i" using t flightsOk_table [OF assms, of p j] \<open>(p, Started j) \<in> set (callers s)\<close> by simp
        with flightsOk_starter [OF assms n(1) k(1)] n(2,3) k(2) p show False by simp
      qed
      ultimately show "p \<noteq> peer \<and> (p, Started j) \<in> set (callers s)" by blast
    next
      assume a: "p \<noteq> peer \<and> (p, Started j) \<in> set (callers s)"
      then obtain n where n: "n < length (callers s)" "callers s ! n = (p, Started j)" by (auto simp: in_set_conv_nth)
      then have "n \<noteq> k" using a k by auto
      then have "callers ?s ! n = (p, Started j)" "n < length (callers ?s)" using n by simp_all
      then show "(p, Started j) \<in> set (callers ?s)" by (metis nth_mem)
    qed
    show "jsGet (inFlightOf ?s) p = Some j \<longleftrightarrow> (p, Started j) \<in> set (callers ?s)" for p j
      unfolding started using flightsOk_table [OF assms, of p j] by auto
    show "(\<exists>r. flightAt (flights ?s ! j) = Landed r) \<or> jsGet (inFlightOf ?s) (flightPeer (flights ?s ! j)) = Some j"
      if "j < length (flights ?s)" for j
      using flightsOk_flight [OF assms, of j] that t r by auto
    show "k1 < length (callers ?s) \<Longrightarrow> k2 < length (callers ?s) \<Longrightarrow> callers ?s ! k1 = (p, Started j) \<Longrightarrow>
        callers ?s ! k2 = (p, Started j) \<Longrightarrow> k1 = k2" for k1 k2 p j
      using flightsOk_starter [OF assms, of k1 k2 p j] stillStarted [of _ "callers s" k peer i r] by simp
  qed
  show ?thesis
    using assms quiet starter by (auto simp: returnCaller_def split: prod.split caller.split flightStage.split)
qed

lemma flightsOk_step: "flightsOk s \<Longrightarrow> flightsOk (flightStep c env ev s)"
proof (cases ev)
  case (Elsewhere f)
  assume ok: "flightsOk s"
  have c: "callerOk (s\<lparr>service := f (service s)\<rparr>) x = callerOk s x" for x by (rule callerOk_cong) simp
  have "flightsOk (s\<lparr>service := f (service s)\<rparr>)"
    by (rule flightsOk_intro)
      (use flightsOk_caller [OF ok] flightsOk_table [OF ok] flightsOk_flight [OF ok] flightsOk_starter [OF ok] c in auto)
  then show ?thesis unfolding Elsewhere by simp
qed (simp_all add: flightsOk_call flightsOk_resume flightsOk_return)

lemma flightsOk_run: "flightsOk s \<Longrightarrow> flightsOk (fold (flightStep c env) es s)"
  by (induction es arbitrary: s) (simp_all add: flightsOk_step)

text \<open>
  C32. Handshakes to one peer are shared by everybody who asks at the same time, however the callers, the answers, the
  pauses and the other operations of the service interleave: of the handshakes to a peer at most one has not landed; a
  call made while it is under way starts no other; all who were waiting for it get the same value, its own, and none
  gets the value of a handshake to another peer; and when nobody waits any more, every handshake has landed and the
  table of handshakes in flight is empty.
\<close>

theorem one_handshake_per_peer:
  assumes "s = fold (flightStep c env) es (noFlights svc)"
  shows "(\<forall>i < length (flights s). \<forall>j < length (flights s). i \<noteq> j \<and> flightPeer (flights s ! i) = flightPeer (flights s ! j)
        \<longrightarrow> (\<exists>r. flightAt (flights s ! i) = Landed r) \<or> (\<exists>r. flightAt (flights s ! j) = Landed r))
    \<and> (\<forall>i < length (flights s). (\<exists>r. flightAt (flights s ! i) = Landed r)
        \<or> flights (callHandshake (flightPeer (flights s ! i)) conv n s) = flights s)
    \<and> (\<forall>p i r. (p, Got i r) \<in> set (callers s)
        \<longrightarrow> i < length (flights s) \<and> flightPeer (flights s ! i) = p \<and> flightAt (flights s ! i) = Landed r)
    \<and> ((\<forall>p i. (p, Started i) \<notin> set (callers s) \<and> (p, Joined i) \<notin> set (callers s))
        \<longrightarrow> (\<forall>p. jsGet (inFlightOf s) p = None) \<and> (\<forall>i < length (flights s). \<exists>r. flightAt (flights s ! i) = Landed r))"
proof -
  have ok: "flightsOk s" unfolding assms by (rule flightsOk_run) (rule flightsOk_new)
  note f = flightsOk_flight [OF ok]
  have "(\<exists>r. flightAt (flights s ! i) = Landed r) \<or> (\<exists>r. flightAt (flights s ! j) = Landed r)"
    if "i < length (flights s)" "j < length (flights s)" "i \<noteq> j" "flightPeer (flights s ! i) = flightPeer (flights s ! j)" for i j
    using f [OF that(1)] f [OF that(2)] that(3,4) by auto
  moreover have "(\<exists>r. flightAt (flights s ! i) = Landed r) \<or> flights (callHandshake (flightPeer (flights s ! i)) conv n s) = flights s"
    if "i < length (flights s)" for i
    using f [OF that] by (auto simp: callHandshake_def)
  moreover have "i < length (flights s) \<and> flightPeer (flights s ! i) = p \<and> flightAt (flights s ! i) = Landed r"
    if "(p, Got i r) \<in> set (callers s)" for p i r
    using flightsOk_caller [OF ok that] by simp
  moreover have "(\<forall>p. jsGet (inFlightOf s) p = None) \<and> (\<forall>i < length (flights s). \<exists>r. flightAt (flights s ! i) = Landed r)"
    if "\<forall>p i. (p, Started i) \<notin> set (callers s) \<and> (p, Joined i) \<notin> set (callers s)"
  proof -
    have none: "jsGet (inFlightOf s) p = None" for p
      using that flightsOk_table [OF ok, of p] by (cases "jsGet (inFlightOf s) p") auto
    then show ?thesis using f by auto
  qed
  ultimately show ?thesis by blast
qed

section \<open>Every handshake lands\<close>

text \<open>How often the loop is resumed at most before it ends\<close>

definition stagesLeft :: "flight \<Rightarrow> nat" where
  "stagesLeft f =
     (case flightAt f of
        AwaitBundle a tok \<Rightarrow> 4 * (flightMax f - a) + 3
      | AwaitSecret a bundle me \<Rightarrow> 4 * (flightMax f - a) + 2
      | AwaitKey a bundle secretHex m contextId \<Rightarrow> 4 * (flightMax f - a) + 1
      | AwaitPause a \<Rightarrow> 4 * (flightMax f - a) + (if a < flightMax f then 0 else 1)
      | Landed r \<Rightarrow> 0)"

lemma continueFlight_progress:
  assumes "continueFlight c env answer f s = (st, s')"
  shows "stagesLeft (f\<lparr>flightAt := st\<rparr>) \<le> stagesLeft f - 1"
proof (cases "flightAt f")
  case (Landed r)
  then have "st = Landed r" using assms by (simp add: continueFlight_def)
  then show ?thesis by (simp add: stagesLeft_def)
qed (use assms in \<open>auto simp: continueFlight_def stagesLeft_def attemptFailed_def nextAttempt_def Let_def
      split: prod.splits option.splits outcome.splits\<close>)

lemma stagesLeft_0: "stagesLeft f = 0 \<longleftrightarrow> (\<exists>r. flightAt f = Landed r)"
  by (cases "flightAt f") (auto simp: stagesLeft_def split: if_splits)

definition resumesOf :: "nat \<Rightarrow> flightEvent list \<Rightarrow> nat" where
  "resumesOf i es = length (filter (\<lambda>ev. case ev of Resume j answer \<Rightarrow> j = i | _ \<Rightarrow> False) es)"

lemma flight_frames:
  "length (flights s) \<le> length (flights (callHandshake p conv n s))"
  "i < length (flights s) \<Longrightarrow> flights (callHandshake p conv n s) ! i = flights s ! i"
  "flights (returnCaller k s) = flights s"
  by (auto simp: callHandshake_def returnCaller_def nth_append split: option.split prod.split caller.split flightStage.split)

lemma step_progress:
  assumes "i < length (flights s)"
  shows "i < length (flights (flightStep c env ev s))
    \<and> stagesLeft (flights (flightStep c env ev s) ! i) \<le> stagesLeft (flights s ! i) - resumesOf i [ev]"
proof (cases ev)
  case (Resume j answer)
  obtain st svc where q: "continueFlight c env answer (flights s ! j) (service s) = (st, svc)" by fastforce
  have "flightStep c env ev s = (if j < length (flights s)
      then s\<lparr>service := svc, flights := (flights s)[j := (flights s ! j)\<lparr>flightAt := st\<rparr>]\<rparr> else s)"
    by (simp add: Resume resumeFlight_def q)
  with continueFlight_progress [OF q] show ?thesis
    using assms by (cases "j = i") (auto simp: Resume resumesOf_def)
qed (use assms flight_frames in \<open>auto simp: resumesOf_def intro: less_le_trans\<close>)

lemma run_progress:
  assumes "i < length (flights s)"
  shows "i < length (flights (fold (flightStep c env) es s))
    \<and> stagesLeft (flights (fold (flightStep c env) es s) ! i) \<le> stagesLeft (flights s ! i) - resumesOf i es"
  using assms
proof (induction es arbitrary: s)
  case (Cons ev es)
  note st = step_progress [OF Cons.prems, of c env ev]
  have r: "resumesOf i (ev # es) = resumesOf i [ev] + resumesOf i es" by (simp add: resumesOf_def)
  show ?case using Cons.IH [OF conjunct1 [OF st]] st unfolding r by (simp add: le_diff_conv) linarith
qed (simp add: resumesOf_def)

text \<open>A handshake that is resumed four times for every attempt that it may make has landed, whatever happens in between.\<close>

lemma handshake_lands:
  assumes "identityBundle (service s) \<noteq> None" "jsGet (inFlightOf s) peer = None"
    and "4 * n \<le> resumesOf (length (flights s)) es"
  shows "\<exists>r. flightAt (flights (fold (flightStep c env) es (callHandshake peer conv n s)) ! length (flights s)) = Landed r"
proof -
  let ?s = "callHandshake peer conv n s" and ?i = "length (flights s)"
  have i: "?i < length (flights ?s)" "stagesLeft (flights ?s ! ?i) \<le> 4 * n"
    using assms(1,2) by (auto simp: callHandshake_def nextAttempt_def stagesLeft_def)
  from run_progress [OF i(1), of c env es] i(2) assms(3) show ?thesis by (simp add: stagesLeft_0 [symmetric])
qed

section \<open>A caller that is alone\<close>

text \<open>The only handshake is resumed again and again, with the answers that the server has for its attempts.\<close>

definition awaitedAnswer :: "e2eeEnv \<Rightarrow> flight \<Rightarrow> wireBundle option http" where
  "awaitedAnswer env f = (case flightAt f of AwaitBundle a tok \<Rightarrow> bundleOf env (flightPeer f) a | _ \<Rightarrow> HttpError 0)"

definition rideOnce :: "e2eeCrypto \<Rightarrow> e2eeEnv \<Rightarrow> flight \<times> e2eeState \<Rightarrow> flight \<times> e2eeState" where
  "rideOnce c env fz =
     (case continueFlight c env (awaitedAnswer env (fst fz)) (fst fz) (snd fz) of (st, z) \<Rightarrow> ((fst fz)\<lparr>flightAt := st\<rparr>, z))"

lemma ride_bundle:
  assumes "flightAt f = AwaitBundle a (authToken z)"
  shows "rideOnce c env (f, z) =
    (case fetchPreKeyBundle (bundleOf env (flightPeer f) a) (flightPeer f) (authToken z) z of
       (None, z1) \<Rightarrow> (f\<lparr>flightAt := attemptFailed (flightMax f) a\<rparr>, z1)
     | (Some bundle, z1) \<Rightarrow>
         (case identityBundle z1 of
            None \<Rightarrow> (f\<lparr>flightAt := attemptFailed (flightMax f) a\<rparr>, z1)
          | Some me \<Rightarrow> (f\<lparr>flightAt := AwaitSecret a bundle me\<rparr>, z1)))"
proof -
  have "(if authToken z = [] then (None, z) else fetchPreKeyBundle ans p (authToken z) z) = fetchPreKeyBundle ans p (authToken z) z" for ans p
    by (simp add: fetchPreKeyBundle_def)
  then show ?thesis
    using assms by (simp add: rideOnce_def continueFlight_def awaitedAnswer_def split: prod.split option.split)
qed

text \<open>One attempt takes at most three steps.\<close>

lemma ride_attempt:
  assumes "attemptHandshake c env (flightPeer f) (flightConv f) a z = (r, z')" "flightAt f = AwaitBundle a (authToken z)"
  shows "\<exists>k \<le> 3. (rideOnce c env ^^ k) (f, z)
    = (f\<lparr>flightAt := (case r of None \<Rightarrow> attemptFailed (flightMax f) a | Some x \<Rightarrow> Landed (Some x))\<rparr>, z')"
proof -
  obtain b z1 where b: "fetchPreKeyBundle (bundleOf env (flightPeer f) a) (flightPeer f) (authToken z) z = (b, z1)" by fastforce
  note one = ride_bundle [OF assms(2), of c env, unfolded b]
  show ?thesis
  proof (cases "b = None \<or> identityBundle z1 = None")
    case True
    then have "r = None" "z' = z1" using assms(1) by (auto simp: attemptHandshake_def b split: option.splits)
    with True one show ?thesis by (intro exI [of _ 1]) (auto split: option.splits)
  next
    case False
    then obtain bd me where bm: "b = Some bd" "identityBundle z1 = Some me" by auto
    define f1 where "f1 = f\<lparr>flightAt := AwaitSecret a bd me\<rparr>"
    have s1: "rideOnce c env (f, z) = (f1, z1)" using one by (simp add: bm f1_def)
    show ?thesis
    proof (cases "initiatePqxdh c me bd")
      case Rejected
      then have "r = None" "z' = z1" using assms(1) by (simp_all add: attemptHandshake_def b bm)
      moreover have "rideOnce c env (f1, z1) = (f\<lparr>flightAt := attemptFailed (flightMax f) a\<rparr>, z1)"
        by (simp add: rideOnce_def continueFlight_def f1_def Rejected)
      ultimately show ?thesis using s1 by (intro exI [of _ 2]) (simp add: numeral_2_eq_2)
    next
      case (Done x)
      obtain secretHex m where x: "x = (secretHex, m)" by (cases x)
      define f2 where "f2 = f\<lparr>flightAt := AwaitKey a bd secretHex m (getCanonicalContextId (flightConv f) (currentUserId z1) (flightPeer f))\<rparr>"
      have s2: "rideOnce c env (f1, z1) = (f2, z1)"
        by (simp add: rideOnce_def continueFlight_def f1_def f2_def Done x)
      have rz: "r = Some (initiatedSession c (flightConv f) (currentUserId z1) (flightPeer f) bd secretHex m, m)"
        "z' = saveSession env (flightPeer f) (currentUserId z1) (flightConv f)
           (initiatedSession c (flightConv f) (currentUserId z1) (flightPeer f) bd secretHex m) z1"
        using assms(1) by (simp_all add: attemptHandshake_def b bm Done x Let_def)
      have s3: "rideOnce c env (f2, z1) = (f\<lparr>flightAt := Landed r\<rparr>, z')"
        by (simp add: rideOnce_def continueFlight_def f2_def rz initiatedSession_def Let_def)
      show ?thesis using s1 s2 s3 by (intro exI [of _ 3]) (simp add: numeral_3_eq_3 rz(1))
    qed
  qed
qed

lemma ride_landed: "flightAt f = Landed r \<Longrightarrow> (rideOnce c env ^^ k) (f, z) = (f, z)"
proof (induction k)
  case (Suc k)
  then have "f\<lparr>flightAt := Landed r\<rparr> = f" by simp
  with Suc show ?case by (simp add: rideOnce_def continueFlight_landed)
qed simp

lemma ride_loop:
  "handshakeLoop c env (flightPeer f) (flightConv f) (flightMax f) a z = (r, z') \<Longrightarrow> flightAt f = nextAttempt (flightMax f) a z \<Longrightarrow>
   \<exists>k \<le> 4 * (flightMax f - a). (rideOnce c env ^^ k) (f, z) = (f\<lparr>flightAt := Landed r\<rparr>, z')"
proof (induction "flightMax f - a" arbitrary: a f z)
  case 0
  then have "r = None" "z' = z" "flightAt f = Landed None"
    by (simp_all add: handshakeLoop.simps [of c env "flightPeer f" "flightConv f" "flightMax f" a z] nextAttempt_def)
  then show ?case by (intro exI [of _ 0]) simp
next
  case (Suc d)
  then have a: "a < flightMax f" by simp
  obtain q z1 where q: "attemptHandshake c env (flightPeer f) (flightConv f) (Suc a) z = (q, z1)" by fastforce
  have fa: "flightAt f = AwaitBundle (Suc a) (authToken z)" using Suc(4) a by (simp add: nextAttempt_def)
  obtain k where k: "k \<le> 3" "(rideOnce c env ^^ k) (f, z)
      = (f\<lparr>flightAt := (case q of None \<Rightarrow> attemptFailed (flightMax f) (Suc a) | Some x \<Rightarrow> Landed (Some x))\<rparr>, z1)"
    using ride_attempt [OF q fa] by blast
  show ?case
  proof (cases q)
    case (Some x)
    with Suc(3) q a have "r = Some x" "z' = z1"
      by (simp_all add: handshakeLoop.simps [of c env "flightPeer f" "flightConv f" "flightMax f" a z])
    with k Some a show ?thesis by (intro exI [of _ k]) simp
  next
    case None
    with Suc(3) q a have l: "handshakeLoop c env (flightPeer f) (flightConv f) (flightMax f) (Suc a) z1 = (r, z')"
      by (simp add: handshakeLoop.simps [of c env "flightPeer f" "flightConv f" "flightMax f" a z])
    show ?thesis
    proof (cases "Suc a < flightMax f")
      case False
      then have "r = None" "z' = z1"
        using l by (simp_all add: handshakeLoop.simps [of c env "flightPeer f" "flightConv f" "flightMax f" "Suc a" z1])
      with k None False a show ?thesis by (intro exI [of _ k]) (simp add: attemptFailed_def)
    next
      case True
      let ?p = "f\<lparr>flightAt := AwaitPause (Suc a)\<rparr>" and ?n = "f\<lparr>flightAt := nextAttempt (flightMax f) (Suc a) z1\<rparr>"
      have p: "(rideOnce c env ^^ k) (f, z) = (?p, z1)" using k(2) None True by (simp add: attemptFailed_def)
      have n: "rideOnce c env (?p, z1) = (?n, z1)" by (simp add: rideOnce_def continueFlight_def)
      have "\<exists>j \<le> 4 * (flightMax ?n - Suc a). (rideOnce c env ^^ j) (?n, z1) = (?n\<lparr>flightAt := Landed r\<rparr>, z')"
        by (rule Suc(1)) (use Suc(2) l in simp_all)
      then obtain j where j: "j \<le> 4 * (flightMax f - Suc a)" "(rideOnce c env ^^ j) (?n, z1) = (f\<lparr>flightAt := Landed r\<rparr>, z')"
        by auto
      have "(rideOnce c env ^^ (j + Suc k)) (f, z) = (f\<lparr>flightAt := Landed r\<rparr>, z')"
        by (simp only: funpow_add funpow.simps(2) comp_apply p n j(2))
      moreover have "j + Suc k \<le> 4 * (flightMax f - a)" using j(1) k(1) a by linarith
      ultimately show ?thesis by blast
    qed
  qed
qed

lemma ride_run:
  assumes "i < length (flights s)"
  shows "((\<lambda>s. resumeFlight c env i (awaitedAnswer env (flights s ! i)) s) ^^ k) s =
    (case (rideOnce c env ^^ k) (flights s ! i, service s) of (f, z) \<Rightarrow> s\<lparr>service := z, flights := (flights s)[i := f]\<rparr>)"
proof (induction k)
  case (Suc k)
  obtain f z where fz: "(rideOnce c env ^^ k) (flights s ! i, service s) = (f, z)" by fastforce
  obtain st z' where q: "continueFlight c env (awaitedAnswer env f) f z = (st, z')" by fastforce
  have "rideOnce c env (f, z) = (f\<lparr>flightAt := st\<rparr>, z')" by (simp add: rideOnce_def q)
  then show ?case using Suc assms by (simp add: fz resumeFlight_def q)
qed simp

text \<open>
  The caller that starts a handshake and that nobody joins: four resumptions for every attempt are enough, and it gets
  the result, and leaves the state, that \<open>establishSessionWithRetry\<close> gives in one step.
\<close>

theorem alone_as_one_step:
  assumes "identityBundle (service s) \<noteq> None" "jsGet (inFlightOf s) peer = None" "jsGet (pendingHandshakes (service s)) peer = None"
    and "i = length (flights s)" "k = length (callers s)"
    and "s' = returnCaller k (((\<lambda>s. resumeFlight c env i (awaitedAnswer env (flights s ! i)) s) ^^ (4 * n)) (callHandshake peer conv n s))"
    and "establishSessionWithRetry c env peer conv n (service s) = (r, z)"
  shows "callers s' ! k = (peer, Got i r) \<and> jsGet (inFlightOf s') peer = None
    \<and> (service s')\<lparr>pendingHandshakes := jsDelete peer (jsSet peer r (pendingHandshakes (service s')))\<rparr> = z"
proof -
  let ?f = "\<lparr>flightPeer = peer, flightConv = conv, flightMax = n, flightAt = nextAttempt n 0 (service s)\<rparr>"
  define s1 where "s1 = callHandshake peer conv n s"
  have s1: "s1 = s\<lparr>flights := flights s @ [?f], inFlightOf := jsSet peer i (inFlightOf s), callers := callers s @ [(peer, Started i)]\<rparr>"
    using assms(1,2,4) by (auto simp: s1_def callHandshake_def)
  obtain r' z1 where l: "handshakeLoop c env peer conv n 0 (service s) = (r', z1)" by fastforce
  with assms(1,3,7) have rz: "r = r'" "z = z1\<lparr>pendingHandshakes := jsDelete peer (jsSet peer r (pendingHandshakes z1))\<rparr>"
    by (auto simp: establishSessionWithRetry_def)
  obtain j where j: "j \<le> 4 * n" "(rideOnce c env ^^ j) (?f, service s) = (?f\<lparr>flightAt := Landed r\<rparr>, z1)"
    using ride_loop [of c env ?f 0 "service s" r z1] l rz(1) by auto
  have "(rideOnce c env ^^ (4 * n - j + j)) (?f, service s) = (?f\<lparr>flightAt := Landed r\<rparr>, z1)"
    by (simp only: funpow_add comp_apply j(2)) (rule ride_landed [where r = r], simp)
  then have "(rideOnce c env ^^ (4 * n)) (?f, service s) = (?f\<lparr>flightAt := Landed r\<rparr>, z1)" using j(1) by simp
  then have "((\<lambda>s. resumeFlight c env i (awaitedAnswer env (flights s ! i)) s) ^^ (4 * n)) s1
      = s1\<lparr>service := z1, flights := flights s @ [?f\<lparr>flightAt := Landed r\<rparr>]\<rparr>"
    using ride_run [where i = i and s = s1 and c = c and env = env and k = "4 * n"] by (simp add: s1 assms(4))
  then have "s' = s1\<lparr>service := z1, flights := flights s @ [?f\<lparr>flightAt := Landed r\<rparr>],
      inFlightOf := jsDelete peer (jsSet peer i (inFlightOf s)), callers := callers s @ [(peer, Got i r)]\<rparr>"
    by (simp add: assms(4-6) s1_def [symmetric] returnCaller_def) (simp add: s1 assms(4))
  then show ?thesis by (simp add: s1 assms(5) rz(2))
qed

section \<open>The statements at concrete inputs\<close>

theorem one_handshake_per_peer_witness:
  "callers (fold (flightStep demoCrypto demoEnv) [Call ''bob'' ''x'' 1, Call ''bob'' ''y'' 1, Resume 0 (HttpError 500), Return 0, Return 1]
       (noFlights (demoUser ''alice''))) = [(''bob'', Got 0 None), (''bob'', Got 0 None)]
   \<and> jsGet (inFlightOf (fold (flightStep demoCrypto demoEnv) [Call ''bob'' ''x'' 1, Call ''bob'' ''y'' 1, Resume 0 (HttpError 500), Return 0, Return 1]
       (noFlights (demoUser ''alice'')))) ''carol'' = None"
proof -
  let ?s = "fold (flightStep demoCrypto demoEnv) [Call ''bob'' ''x'' 1, Call ''bob'' ''y'' 1, Resume 0 (HttpError 500), Return 0, Return 1]
       (noFlights (demoUser ''alice''))"
  have c: "callers ?s = [(''bob'', Got 0 None), (''bob'', Got 0 None)]"
    by (simp add: noFlights_def callHandshake_def demoUser_def resumeFlight_def continueFlight_def fetchPreKeyBundle_def nextAttempt_def
        attemptFailed_def returnCaller_def)
  from one_handshake_per_peer [OF refl, where c = demoCrypto and env = demoEnv and svc = "demoUser ''alice''" and es = "[Call ''bob'' ''x'' 1, Call ''bob'' ''y'' 1, Resume 0 (HttpError 500), Return 0, Return 1]"] c
  show ?thesis by simp
qed

theorem alone_as_one_step_witness:
  "callers (returnCaller 0 (((\<lambda>s. resumeFlight demoCrypto demoEnv 0 (awaitedAnswer demoEnv (flights s ! 0)) s) ^^ 12)
      (callHandshake ''bob'' ''bob'' 3 (noFlights (demoUser ''alice''))))) ! 0
   = (''bob'', Got 0 (fst (establishSessionWithRetry demoCrypto demoEnv ''bob'' ''bob'' 3 (demoUser ''alice''))))"
  using alone_as_one_step [of "noFlights (demoUser ''alice'')" "''bob''" 0 0, OF _ _ _ _ _ refl prod.collapse [symmetric],
    where c = demoCrypto and env = demoEnv and n = 3 and conv = "''bob''"]
  by (simp add: noFlights_def) (simp add: demoUser_def)

end
