(* ===== verification/Event_Loop.thy ===== *)
theory Event_Loop
  imports Kv_Store Complex_Main
begin

text \<open>
  What the network components share: the browser's sockets, timers and promises as explicit state,
  and the interface of a component that reacts to one event at a time (the locale
  \<open>history_system\<close>: an invariant that relates the state to the observations made so far).
\<close>

section \<open>Components that react to events\<close>

locale history_system =
  fixes step :: "'e \<Rightarrow> 's \<Rightarrow> 's"
    and obs :: "'e \<Rightarrow> 'h list"
    and ok :: "'h list \<Rightarrow> bool"
    and inv :: "'h list \<Rightarrow> 's \<Rightarrow> bool"
  assumes ok_prefix: "ok (h @ h') \<Longrightarrow> ok h"
    and inv_step: "ok (h @ obs e) \<Longrightarrow> inv h s \<Longrightarrow> inv (h @ obs e) (step e s)"
begin

lemma inv_run_from: "inv h s \<Longrightarrow> ok (h @ concat (map obs es)) \<Longrightarrow> inv (h @ concat (map obs es)) (fold step es s)"
proof (induction es arbitrary: h s)
  case (Cons e es)
  have "ok (h @ obs e)" using Cons.prems(2) ok_prefix [of "h @ obs e" "concat (map obs es)"] by simp
  with Cons.prems(1) have "inv (h @ obs e) (step e s)" by (rule inv_step [rotated])
  with Cons.IH [of "h @ obs e" "step e s"] Cons.prems(2) show ?case by simp
qed simp

lemma inv_run: "inv [] s \<Longrightarrow> ok (concat (map obs es)) \<Longrightarrow> inv (concat (map obs es)) (fold step es s)"
  using inv_run_from [of "[]" s es] by simp

end

section \<open>Sockets\<close>

text \<open>
  Every \<open>new WebSocket(url)\<close> appends a socket; what is sent on any of them is logged in the order
  of the calls, with the number of the socket.
\<close>

datatype readyState = CONNECTING | OPEN | CLOSING | CLOSED

record 'f network =
  socks :: "(string \<times> readyState) list"
  wire :: "(nat \<times> 'f) list"

definition stateOf :: "nat \<Rightarrow> ('f, 'x) network_scheme \<Rightarrow> readyState" where
  "stateOf i n = (if i < length (socks n) then snd (socks n ! i) else CLOSED)"

definition setState :: "nat \<Rightarrow> readyState \<Rightarrow> ('f, 'x) network_scheme \<Rightarrow> ('f, 'x) network_scheme" where
  "setState i st n = n\<lparr>socks := (socks n)[i := (fst (socks n ! i), st)]\<rparr>"

definition newSocket :: "string \<Rightarrow> ('f, 'x) network_scheme \<Rightarrow> ('f, 'x) network_scheme" where
  "newSocket url n = n\<lparr>socks := socks n @ [(url, CONNECTING)]\<rparr>"

definition transmit :: "nat \<Rightarrow> 'f \<Rightarrow> ('f, 'x) network_scheme \<Rightarrow> ('f, 'x) network_scheme" where
  "transmit i f n = n\<lparr>wire := wire n @ [(i, f)]\<rparr>"

definition isOpen :: "nat option \<Rightarrow> ('f, 'x) network_scheme \<Rightarrow> bool" where
  "isOpen w n = (case w of Some i \<Rightarrow> stateOf i n = OPEN | None \<Rightarrow> False)"

definition closeSocket :: "nat option \<Rightarrow> ('f, 'x) network_scheme \<Rightarrow> ('f, 'x) network_scheme" where
  "closeSocket w n =
     (case w of
        None \<Rightarrow> n
      | Some i \<Rightarrow> if stateOf i n = CONNECTING \<or> stateOf i n = OPEN then setState i CLOSING n else n)"

lemma stateOf_setState [simp]:
  "stateOf j (setState i st n) = (if i = j \<and> i < length (socks n) then st else stateOf j n)"
  by (auto simp: stateOf_def setState_def)

lemma stateOf_newSocket [simp]:
  "stateOf j (newSocket url n) = (if j = length (socks n) then CONNECTING else stateOf j n)"
  by (auto simp: stateOf_def newSocket_def nth_append)

lemma stateOf_transmit [simp]: "stateOf j (transmit i f n) = stateOf j n"
  by (simp add: stateOf_def transmit_def)

lemma socks_simps [simp]:
  "length (socks (setState i st n)) = length (socks n)" "length (socks (newSocket url n)) = Suc (length (socks n))"
  "socks (transmit i f n) = socks n" "length (socks (closeSocket w n)) = length (socks n)"
  by (simp_all add: setState_def newSocket_def transmit_def closeSocket_def split: option.splits)

lemma wire_simps [simp]:
  "wire (setState i st n) = wire n" "wire (newSocket url n) = wire n" "wire (transmit i f n) = wire n @ [(i, f)]"
  "wire (closeSocket w n) = wire n"
  by (simp_all add: setState_def newSocket_def transmit_def closeSocket_def split: option.splits)

lemma stateOf_not_CLOSED: "stateOf i n \<noteq> CLOSED \<Longrightarrow> i < length (socks n)"
  by (auto simp: stateOf_def split: if_splits)

section \<open>Reconnection delays\<close>

text \<open>\<open>Math.round\<close>: to the nearest integer, halves upwards.\<close>

definition mathRound :: "rat \<Rightarrow> int" where
  "mathRound x = \<lfloor>x + 1 / 2\<rfloor>"

text \<open>
  A delay of an exponential back-off with jitter: \<open>u\<close> is the result of \<open>Math.random()\<close>, the
  back-off before the jitter an argument.
\<close>

definition jittered :: "int \<Rightarrow> rat \<Rightarrow> rat \<Rightarrow> int" where
  "jittered least expBackoff u = max least (mathRound (expBackoff * (1 / 2 + u * (1 / 2))))"

lemma jittered_bounds:
  assumes "0 \<le> u" "u < 1" "0 \<le> b"
  shows "least \<le> jittered least b u" "of_int (jittered least b u) \<le> max (of_int least) (b + 1 / 2)"
    "b / 2 - 1 / 2 < of_int (jittered least b u)"
proof -
  have lo: "b * (1 / 2) \<le> b * (1 / 2 + u * (1 / 2))" using assms by (intro mult_left_mono) simp_all
  have hi: "b * (1 / 2 + u * (1 / 2)) \<le> b * 1" using assms by (intro mult_left_mono) simp_all
  have r: "of_int (mathRound x) \<le> x + 1 / 2" "x - 1 / 2 < of_int (mathRound x)" for x
    unfolding mathRound_def by linarith+
  show "least \<le> jittered least b u" by (simp add: jittered_def)
  show "of_int (jittered least b u) \<le> max (of_int least) (b + 1 / 2)"
    using r(1) [of "b * (1 / 2 + u * (1 / 2))"] hi by (auto simp: jittered_def max_def)
  show "b / 2 - 1 / 2 < of_int (jittered least b u)"
    using r(2) [of "b * (1 / 2 + u * (1 / 2))"] lo by (auto simp: jittered_def max_def)
qed

end
