(* ===== verification/Ws_Transport.thy ===== *)
theory Ws_Transport
  imports Event_Loop Safety_Numbers
begin

text \<open>
  \<open>WsTransport\<close> of \<open>packages/client-web/src/lib/ws-transport.ts\<close>: the authenticated socket with
  its send queue, its table of awaited acknowledgements, its heartbeat and its reconnection. The
  browser's part (when a socket opens, closes or delivers, when a timer fires, what
  \<open>Math.random()\<close> returns) comes in as events; the calls of the rest of the client are events too.
\<close>

section \<open>State\<close>

record GatewayAck =
  ackClientMsgId :: string
  ackMessageId :: string
  ackSequenceNum :: int

datatype inboundFrame = AckFrame GatewayAck | EvictedFrame | OtherFrame string string

record payload =
  payloadMsgId :: "string option"
  payloadBody :: string

datatype wireFrame = PayloadFrame payload | PingFrame

datatype timer = Reconnect | Heartbeat | AckTimeout "string option" nat

datatype settlement = Resolved GatewayAck | TimedOut

record wsState = "wireFrame network" +
  wsCurrent :: "nat option"
  wsToken :: string
  reconnectAttempts :: nat
  reconnectTimer :: "nat option"
  heartbeatTimer :: "nat option"
  pendingAcks :: "nat jsmap"
  sendQueue :: "payload list"
  inboundHandlers :: "nat list"
  wsDestroyed :: bool
  wsTimers :: "(nat \<times> timer) list"
  nextTimer :: nat
  lastDelay :: int
  nextPromise :: nat
  settled :: "(nat \<times> settlement) list"
  notified :: "(nat \<times> inboundFrame) list"

definition wsInitial :: wsState where
  "wsInitial = \<lparr>socks = [], wire = [], wsCurrent = None, wsToken = [], reconnectAttempts = 0, reconnectTimer = None,
     heartbeatTimer = None, pendingAcks = [], sendQueue = [], inboundHandlers = [], wsDestroyed = False, wsTimers = [],
     nextTimer = 0, lastDelay = 0, nextPromise = 0, settled = [], notified = []\<rparr>"

section \<open>Timers\<close>

definition setTimer :: "timer \<Rightarrow> wsState \<Rightarrow> wsState" where
  "setTimer t s = s\<lparr>wsTimers := wsTimers s @ [(nextTimer s, t)], nextTimer := nextTimer s + 1\<rparr>"

definition clearTimer :: "nat option \<Rightarrow> wsState \<Rightarrow> wsState" where
  "clearTimer k s = (case k of None \<Rightarrow> s | Some i \<Rightarrow> s\<lparr>wsTimers := filter (\<lambda>t. fst t \<noteq> i) (wsTimers s)\<rparr>)"

definition clearHeartbeat :: "wsState \<Rightarrow> wsState" where
  "clearHeartbeat s = (clearTimer (heartbeatTimer s) s)\<lparr>heartbeatTimer := None\<rparr>"

definition clearTimers :: "wsState \<Rightarrow> wsState" where
  "clearTimers s = (let s1 = clearHeartbeat s in (clearTimer (reconnectTimer s1) s1)\<lparr>reconnectTimer := None\<rparr>)"

definition startHeartbeat :: "wsState \<Rightarrow> wsState" where
  "startHeartbeat s = (let s1 = clearHeartbeat s in (setTimer Heartbeat s1)\<lparr>heartbeatTimer := Some (nextTimer s1)\<rparr>)"

definition reconnectBackoff :: "nat \<Rightarrow> rat \<Rightarrow> int" where
  "reconnectBackoff attempts u = jittered 250 (min (1000 * 2 ^ attempts) 30000) u"

definition scheduleReconnect :: "rat \<Rightarrow> wsState \<Rightarrow> wsState" where
  "scheduleReconnect u s =
     (let backoff = reconnectBackoff (reconnectAttempts s) u;
          s1 = s\<lparr>reconnectAttempts := reconnectAttempts s + 1, lastDelay := backoff\<rparr>
      in (setTimer Reconnect s1)\<lparr>reconnectTimer := Some (nextTimer s1)\<rparr>)"

section \<open>Operations\<close>

definition openConnection :: "string \<Rightarrow> wsState \<Rightarrow> wsState" where
  "openConnection base s =
     (if wsDestroyed s then s
      else (newSocket (base @ ''/ws?token='' @ encodeURIComponent (wsToken s)) s)\<lparr>wsCurrent := Some (length (socks s))\<rparr>)"

definition wsConnect :: "string \<Rightarrow> string \<Rightarrow> wsState \<Rightarrow> wsState" where
  "wsConnect base token s = openConnection base (s\<lparr>wsToken := token, wsDestroyed := False\<rparr>)"

definition wsDisconnect :: "wsState \<Rightarrow> wsState" where
  "wsDisconnect s =
     (let s1 = clearTimers (s\<lparr>wsDestroyed := True\<rparr>)
      in (closeSocket (wsCurrent s1) s1)\<lparr>wsCurrent := None\<rparr>)"

definition wsOnMessage :: "nat \<Rightarrow> wsState \<Rightarrow> wsState" where
  "wsOnMessage h s =
     (if h \<in> set (inboundHandlers s) then s else s\<lparr>inboundHandlers := inboundHandlers s @ [h]\<rparr>)"

definition wsUnsubscribe :: "nat \<Rightarrow> wsState \<Rightarrow> wsState" where
  "wsUnsubscribe h s = s\<lparr>inboundHandlers := filter (\<lambda>x. x \<noteq> h) (inboundHandlers s)\<rparr>"

text \<open>An identifier is registered if it is present and not the empty string.\<close>

definition awaitedId :: "payload \<Rightarrow> string option" where
  "awaitedId p = (case payloadMsgId p of Some x \<Rightarrow> if x \<noteq> [] then Some x else None | None \<Rightarrow> None)"

text \<open>The promise of the \<open>n\<close>-th call of \<open>send\<close> has the number \<open>n\<close>.\<close>

definition wsSend :: "payload \<Rightarrow> wsState \<Rightarrow> wsState" where
  "wsSend p s =
     (let s1 = (case awaitedId p of
                  Some x \<Rightarrow> s\<lparr>pendingAcks := jsSet x (nextPromise s) (pendingAcks s)\<rparr>
                | None \<Rightarrow> s);
          s2 = (if isOpen (wsCurrent s1) s1 then transmit (the (wsCurrent s1)) (PayloadFrame p) s1
                else s1\<lparr>sendQueue := sendQueue s1 @ [p]\<rparr>)
      in (setTimer (AckTimeout (payloadMsgId p) (nextPromise s2)) s2)\<lparr>nextPromise := nextPromise s2 + 1\<rparr>)"

section \<open>Events of the browser\<close>

text \<open>\<open>while (this.sendQueue.length > 0) ws.send(this.sendQueue.shift())\<close>\<close>

function flushQueue :: "nat \<Rightarrow> wsState \<Rightarrow> wsState" where
  "flushQueue i s =
     (case sendQueue s of
        [] \<Rightarrow> s
      | p # q \<Rightarrow> flushQueue i (transmit i (PayloadFrame p) (s\<lparr>sendQueue := q\<rparr>)))"
  by pat_completeness auto
termination
  by (relation "measure (\<lambda>(i, s). length (sendQueue s))") (auto simp: transmit_def)

declare flushQueue.simps [simp del]

definition wsOpened :: "nat \<Rightarrow> wsState \<Rightarrow> wsState" where
  "wsOpened i s =
     (if stateOf i s = CONNECTING
      then flushQueue i (startHeartbeat ((setState i OPEN s)\<lparr>reconnectAttempts := 0\<rparr>))
      else s)"

definition settle :: "nat \<Rightarrow> settlement \<Rightarrow> wsState \<Rightarrow> wsState" where
  "settle p r s = s\<lparr>settled := settled s @ [(p, r)]\<rparr>"

definition resolveAck :: "GatewayAck \<Rightarrow> wsState \<Rightarrow> wsState" where
  "resolveAck ack s =
     (case jsGet (pendingAcks s) (ackClientMsgId ack) of
        None \<Rightarrow> s
      | Some p \<Rightarrow> settle p (Resolved ack) (s\<lparr>pendingAcks := jsDelete (ackClientMsgId ack) (pendingAcks s)\<rparr>))"

definition notifyHandlers :: "inboundFrame \<Rightarrow> wsState \<Rightarrow> wsState" where
  "notifyHandlers f s = s\<lparr>notified := notified s @ map (\<lambda>h. (h, f)) (inboundHandlers s)\<rparr>"

text \<open>A socket delivers while it is open or closing; a frame that does not parse is dropped.\<close>

definition wsReceived :: "nat \<Rightarrow> inboundFrame blob \<Rightarrow> wsState \<Rightarrow> wsState" where
  "wsReceived i raw s =
     (if stateOf i s = OPEN \<or> stateOf i s = CLOSING
      then (case raw of
              Garbage _ \<Rightarrow> s
            | Blob f \<Rightarrow>
                let s1 = (case f of AckFrame ack \<Rightarrow> resolveAck ack s | _ \<Rightarrow> s);
                    s2 = (case f of EvictedFrame \<Rightarrow> clearTimers (s1\<lparr>wsDestroyed := True\<rparr>) | _ \<Rightarrow> s1)
                in notifyHandlers f s2)
      else s)"

definition wsClosed :: "nat \<Rightarrow> int \<Rightarrow> rat \<Rightarrow> wsState \<Rightarrow> wsState" where
  "wsClosed i code u s =
     (if stateOf i s \<noteq> CLOSED
      then (let s1 = clearTimers (setState i CLOSED s)
            in if \<not> wsDestroyed s1 \<and> code \<noteq> 1000 then scheduleReconnect u s1 else s1)
      else s)"

definition ackTimeout :: "string option \<Rightarrow> nat \<Rightarrow> wsState \<Rightarrow> wsState" where
  "ackTimeout x p s =
     (case x of
        Some y \<Rightarrow>
          if jsGet (pendingAcks s) y \<noteq> None
          then settle p TimedOut (s\<lparr>pendingAcks := jsDelete y (pendingAcks s)\<rparr>) else s
      | None \<Rightarrow> s)"

text \<open>A timeout fires once and is gone, the heartbeat is an interval and stays.\<close>

definition wsFire :: "string \<Rightarrow> nat \<Rightarrow> wsState \<Rightarrow> wsState" where
  "wsFire base k s =
     (case map_of (wsTimers s) k of
        None \<Rightarrow> s
      | Some Heartbeat \<Rightarrow> if isOpen (wsCurrent s) s then transmit (the (wsCurrent s)) PingFrame s else s
      | Some Reconnect \<Rightarrow> openConnection base (clearTimer (Some k) s)
      | Some (AckTimeout x p) \<Rightarrow> ackTimeout x p (clearTimer (Some k) s))"

datatype wsEvent =
  Connect string string | Disconnect | OnMessage nat | Unsubscribe nat | Send payload
| Opened nat | Received nat "inboundFrame blob" | Closed nat int rat | Fire string nat

fun wsStep :: "wsEvent \<Rightarrow> wsState \<Rightarrow> wsState" where
  "wsStep (Connect base token) s = wsConnect base token s"
| "wsStep Disconnect s = wsDisconnect s"
| "wsStep (OnMessage h) s = wsOnMessage h s"
| "wsStep (Unsubscribe h) s = wsUnsubscribe h s"
| "wsStep (Send p) s = wsSend p s"
| "wsStep (Opened i) s = wsOpened i s"
| "wsStep (Received i raw) s = wsReceived i raw s"
| "wsStep (Closed i code u) s = wsClosed i code u s"
| "wsStep (Fire base k) s = wsFire base k s"

definition wsRun :: "wsEvent list \<Rightarrow> wsState" where
  "wsRun es = fold wsStep es wsInitial"

section \<open>What is sent\<close>

fun sendOf :: "wsEvent \<Rightarrow> payload list" where
  "sendOf (Send p) = [p]"
| "sendOf _ = []"

text \<open>The payloads handed to \<open>send\<close>, and the ones that have gone out, in their order.\<close>

definition sends :: "wsEvent list \<Rightarrow> payload list" where
  "sends es = concat (map sendOf es)"

fun payloadOf :: "wireFrame \<Rightarrow> payload list" where
  "payloadOf (PayloadFrame p) = [p]"
| "payloadOf PingFrame = []"

definition payloadsOut :: "wsState \<Rightarrow> payload list" where
  "payloadsOut s = concat (map (payloadOf \<circ> snd) (wire s))"

lemmas ws_frame_defs = setTimer_def clearTimer_def clearHeartbeat_def clearTimers_def startHeartbeat_def
  scheduleReconnect_def Let_def settle_def notifyHandlers_def

text \<open>Timers, settlements and notifications touch neither the sockets nor the queue.\<close>

lemma ws_frame [simp]:
  "socks (setTimer t s) = socks s" "wire (setTimer t s) = wire s" "sendQueue (setTimer t s) = sendQueue s"
  "wsCurrent (setTimer t s) = wsCurrent s"
  "socks (clearTimers s) = socks s" "wire (clearTimers s) = wire s" "sendQueue (clearTimers s) = sendQueue s"
  "wsCurrent (clearTimers s) = wsCurrent s" "wsDestroyed (clearTimers s) = wsDestroyed s"
  "socks (startHeartbeat s) = socks s" "wire (startHeartbeat s) = wire s" "sendQueue (startHeartbeat s) = sendQueue s"
  "wsCurrent (startHeartbeat s) = wsCurrent s" "wsDestroyed (startHeartbeat s) = wsDestroyed s"
  "socks (scheduleReconnect u s) = socks s" "wire (scheduleReconnect u s) = wire s"
  "sendQueue (scheduleReconnect u s) = sendQueue s" "wsCurrent (scheduleReconnect u s) = wsCurrent s"
  "socks (clearTimer k s) = socks s" "wire (clearTimer k s) = wire s" "sendQueue (clearTimer k s) = sendQueue s"
  "wsCurrent (clearTimer k s) = wsCurrent s" "wsDestroyed (clearTimer k s) = wsDestroyed s"
  by (simp_all add: ws_frame_defs split: option.splits)

lemma ws_frame_acks [simp]:
  "socks (resolveAck a s) = socks s" "wire (resolveAck a s) = wire s" "sendQueue (resolveAck a s) = sendQueue s"
  "wsCurrent (resolveAck a s) = wsCurrent s"
  "socks (ackTimeout x p s) = socks s" "wire (ackTimeout x p s) = wire s" "sendQueue (ackTimeout x p s) = sendQueue s"
  "wsCurrent (ackTimeout x p s) = wsCurrent s"
  "socks (notifyHandlers f s) = socks s" "wire (notifyHandlers f s) = wire s"
  "sendQueue (notifyHandlers f s) = sendQueue s" "wsCurrent (notifyHandlers f s) = wsCurrent s"
  by (simp_all add: resolveAck_def ackTimeout_def settle_def notifyHandlers_def split: option.splits)

lemma net_frame [simp]:
  "sendQueue (setState i st s) = sendQueue s" "wsCurrent (setState i st s) = wsCurrent s"
  "sendQueue (transmit i f s) = sendQueue s" "wsCurrent (transmit i f s) = wsCurrent s"
  "sendQueue (newSocket url s) = sendQueue s"
  "sendQueue (closeSocket w s) = sendQueue s"
  by (simp_all add: setState_def transmit_def newSocket_def closeSocket_def split: option.splits)

lemma flushQueue_result:
  "wire (flushQueue i s) = wire s @ map (\<lambda>p. (i, PayloadFrame p)) (sendQueue s)"
  "sendQueue (flushQueue i s) = []" "socks (flushQueue i s) = socks s" "wsCurrent (flushQueue i s) = wsCurrent s"
proof (induction i s rule: flushQueue.induct)
  case (1 i s)
  { case 1 from "1.IH"(1) show ?case by (cases "sendQueue s") (simp_all add: flushQueue.simps [of i s]) }
  { case 2 from "1.IH"(2) show ?case by (cases "sendQueue s") (simp_all add: flushQueue.simps [of i s]) }
  { case 3 from "1.IH"(3) show ?case by (cases "sendQueue s") (simp_all add: flushQueue.simps [of i s]) }
  { case 4 from "1.IH"(4) show ?case by (cases "sendQueue s") (simp_all add: flushQueue.simps [of i s]) }
qed

text \<open>
  The invariant: everything handed to \<open>send\<close> has gone out or is queued, in order; and while the
  current socket is open, nothing is queued.
\<close>

definition fifoInv :: "payload list \<Rightarrow> wsState \<Rightarrow> bool" where
  "fifoInv h s \<longleftrightarrow> payloadsOut s @ sendQueue s = h \<and> (isOpen (wsCurrent s) s \<longrightarrow> sendQueue s = [])"

lemma fifoInv_cong:
  "wire s' = wire s \<Longrightarrow> sendQueue s' = sendQueue s \<Longrightarrow> (isOpen (wsCurrent s') s' \<Longrightarrow> isOpen (wsCurrent s) s)
    \<Longrightarrow> fifoInv h s \<Longrightarrow> fifoInv h s'"
  by (simp add: fifoInv_def payloadsOut_def)

lemma payloadsOut_flush: "concat (map (payloadOf \<circ> snd \<circ> (\<lambda>p. (i, PayloadFrame p))) q) = q"
  by (induction q) simp_all

lemma fifoInv_step: "fifoInv h s \<Longrightarrow> fifoInv (h @ sendOf e) (wsStep e s)"
proof (cases e)
  case (Send p)
  assume "fifoInv h s"
  then show ?thesis
    by (auto simp: Send wsSend_def Let_def fifoInv_def payloadsOut_def isOpen_def stateOf_def transmit_def
        split: option.splits)
next
  case (Opened i)
  assume "fifoInv h s"
  then show ?thesis
    by (auto simp: Opened wsOpened_def fifoInv_def payloadsOut_def flushQueue_result payloadsOut_flush)
next
  case (Fire base k)
  assume "fifoInv h s"
  then show ?thesis
    by (auto simp: Fire wsFire_def openConnection_def fifoInv_def payloadsOut_def isOpen_def stateOf_def newSocket_def
        nth_append split: option.splits timer.splits)
next
  case (Closed i code u)
  assume "fifoInv h s"
  then show ?thesis
    by (auto simp: Closed wsClosed_def Let_def fifoInv_def payloadsOut_def isOpen_def stateOf_def setState_def
        nth_list_update split: option.splits if_splits)
next
  case (Received i raw)
  assume "fifoInv h s"
  then show ?thesis
    by (auto simp: Received wsReceived_def Let_def fifoInv_def payloadsOut_def isOpen_def stateOf_def
        split: option.splits blob.splits inboundFrame.splits)
qed (auto simp: wsConnect_def openConnection_def wsDisconnect_def wsOnMessage_def wsUnsubscribe_def Let_def
      fifoInv_def payloadsOut_def isOpen_def stateOf_def newSocket_def nth_append split: option.splits)

interpretation ws_fifo: history_system wsStep sendOf "\<lambda>h. True" fifoInv
  by unfold_locales (simp_all add: fifoInv_step)

text \<open>
  C10. Nothing is lost, duplicated or reordered: after any sequence of calls and browser events, the
  payloads that have gone out on the sockets followed by the queue are exactly the payloads handed
  to \<open>send\<close>, in that order; and nothing waits in the queue while the current socket is open.
\<close>

theorem ws_send_fifo:
  "payloadsOut (wsRun es) @ sendQueue (wsRun es) = sends es
    \<and> (isOpen (wsCurrent (wsRun es)) (wsRun es) \<longrightarrow> sendQueue (wsRun es) = [])"
proof -
  have "fifoInv [] wsInitial" by (simp add: fifoInv_def payloadsOut_def wsInitial_def isOpen_def)
  from ws_fifo.inv_run [OF this, of es] show ?thesis by (simp add: fifoInv_def wsRun_def sends_def)
qed

theorem ws_send_fifo_witness:
  "isOpen (wsCurrent (wsRun [Send \<lparr>payloadMsgId = None, payloadBody = ''a''\<rparr>, Connect [] [], Opened 0]))
     (wsRun [Send \<lparr>payloadMsgId = None, payloadBody = ''a''\<rparr>, Connect [] [], Opened 0])
   \<and> payloadsOut (wsRun [Send \<lparr>payloadMsgId = None, payloadBody = ''a''\<rparr>, Connect [] [], Opened 0])
     = [\<lparr>payloadMsgId = None, payloadBody = ''a''\<rparr>]"
  (is "isOpen (wsCurrent (wsRun ?es)) (wsRun ?es) \<and> _")
proof -
  have o: "isOpen (wsCurrent (wsRun ?es)) (wsRun ?es)"
    by (simp add: wsRun_def wsInitial_def wsSend_def awaitedId_def setTimer_def wsConnect_def openConnection_def
        newSocket_def wsOpened_def stateOf_def setState_def startHeartbeat_def clearHeartbeat_def clearTimer_def
        flushQueue_result isOpen_def Let_def)
  have f: "payloadsOut (wsRun ?es) @ sendQueue (wsRun ?es) = sends ?es" "sendQueue (wsRun ?es) = []"
    using ws_send_fifo [of ?es] o by blast+
  have "sends ?es = [\<lparr>payloadMsgId = None, payloadBody = ''a''\<rparr>]" by (simp add: sends_def)
  with f o show ?thesis by (metis append_Nil2)
qed

section \<open>Acknowledgements\<close>

text \<open>No two payloads handed to \<open>send\<close> carry the same identifier.\<close>

definition freshIds :: "payload list \<Rightarrow> bool" where
  "freshIds h \<longleftrightarrow> (\<forall>p < length h. \<forall>q < length h. awaitedId (h ! p) \<noteq> None \<longrightarrow> awaitedId (h ! p) = awaitedId (h ! q) \<longrightarrow> p = q)"

lemma freshIds_prefix: "freshIds (h @ h') \<Longrightarrow> freshIds h"
  unfolding freshIds_def by (metis length_append nth_append trans_less_add1)

lemma freshIds_unique:
  "freshIds h \<Longrightarrow> p < length h \<Longrightarrow> q < length h \<Longrightarrow> awaitedId (h ! p) = Some x \<Longrightarrow> awaitedId (h ! q) = Some x \<Longrightarrow> p = q"
  unfolding freshIds_def by (metis option.distinct(1))

definition armed :: "wsState \<Rightarrow> string option \<Rightarrow> nat \<Rightarrow> bool" where
  "armed s x p \<longleftrightarrow> (\<exists>k. (k, AckTimeout x p) \<in> set (wsTimers s))"

text \<open>Timer numbers are unique, and the two remembered numbers never name a timeout of \<open>send\<close>.\<close>

definition timersOk :: "wsState \<Rightarrow> bool" where
  "timersOk s \<longleftrightarrow> distinct (map fst (wsTimers s)) \<and> (\<forall>k t. (k, t) \<in> set (wsTimers s) \<longrightarrow> k < nextTimer s)
     \<and> (\<forall>k t. heartbeatTimer s = Some k \<longrightarrow> k < nextTimer s \<and> ((k, t) \<in> set (wsTimers s) \<longrightarrow> t = Heartbeat))
     \<and> (\<forall>k t. reconnectTimer s = Some k \<longrightarrow> k < nextTimer s \<and> ((k, t) \<in> set (wsTimers s) \<longrightarrow> t = Reconnect))"

text \<open>
  A promise that waits is registered and has its timeout; a promise that was settled was settled
  once, and if by an acknowledgement then by one for its identifier.
\<close>

definition waiting :: "payload list \<Rightarrow> wsState \<Rightarrow> nat \<Rightarrow> string \<Rightarrow> bool" where
  "waiting h s p x \<longleftrightarrow> jsGet (pendingAcks s) x = Some p \<and> armed s (payloadMsgId (h ! p)) p
     \<and> filter (\<lambda>q. fst q = p) (settled s) = []"

definition settledOnce :: "wsState \<Rightarrow> nat \<Rightarrow> string \<Rightarrow> bool" where
  "settledOnce s p x \<longleftrightarrow> jsGet (pendingAcks s) x \<noteq> Some p
     \<and> (\<exists>r. filter (\<lambda>q. fst q = p) (settled s) = [(p, r)] \<and> (\<forall>a. r = Resolved a \<longrightarrow> ackClientMsgId a = x))"

definition promisesOk :: "payload list \<Rightarrow> wsState \<Rightarrow> bool" where
  "promisesOk h s \<longleftrightarrow> nextPromise s = length h
     \<and> (\<forall>x p. jsGet (pendingAcks s) x = Some p \<longrightarrow> p < length h \<and> awaitedId (h ! p) = Some x)
     \<and> (\<forall>x p. armed s x p \<longrightarrow> p < length h \<and> payloadMsgId (h ! p) = x)
     \<and> (\<forall>p r. (p, r) \<in> set (settled s) \<longrightarrow> p < length h)
     \<and> (\<forall>p < length h. \<forall>x. awaitedId (h ! p) = Some x \<longrightarrow> waiting h s p x \<or> settledOnce s p x)"

definition ackInv :: "payload list \<Rightarrow> wsState \<Rightarrow> bool" where
  "ackInv h s \<longleftrightarrow> timersOk s \<and> promisesOk h s"

lemmas ackInv_defs = ackInv_def promisesOk_def timersOk_def waiting_def settledOnce_def armed_def

lemma ackInv_cong:
  "pendingAcks s' = pendingAcks s \<Longrightarrow> settled s' = settled s \<Longrightarrow> nextPromise s' = nextPromise s
    \<Longrightarrow> wsTimers s' = wsTimers s \<Longrightarrow> nextTimer s' = nextTimer s \<Longrightarrow> heartbeatTimer s' = heartbeatTimer s
    \<Longrightarrow> reconnectTimer s' = reconnectTimer s \<Longrightarrow> ackInv h s \<Longrightarrow> ackInv h s'"
  by (simp add: ackInv_defs)

text \<open>Timers that are no timeouts of \<open>send\<close> come and go freely.\<close>

lemma promisesOk_cong:
  "pendingAcks s' = pendingAcks s \<Longrightarrow> settled s' = settled s \<Longrightarrow> nextPromise s' = nextPromise s
    \<Longrightarrow> (\<And>x p. armed s' x p \<longleftrightarrow> armed s x p) \<Longrightarrow> promisesOk h s \<Longrightarrow> promisesOk h s'"
  by (simp add: promisesOk_def waiting_def settledOnce_def)

lemma timersOk_subset:
  assumes "timersOk s" "set (wsTimers s') \<subseteq> set (wsTimers s)" "distinct (map fst (wsTimers s'))" "nextTimer s' = nextTimer s"
    and "heartbeatTimer s' = heartbeatTimer s \<or> heartbeatTimer s' = None"
    and "reconnectTimer s' = reconnectTimer s \<or> reconnectTimer s' = None"
  shows "timersOk s'"
proof -
  have sub: "(k, t) \<in> set (wsTimers s') \<Longrightarrow> (k, t) \<in> set (wsTimers s)" for k t using assms(2) by blast
  have hb: "heartbeatTimer s' = Some k \<Longrightarrow> heartbeatTimer s = Some k" for k using assms(5) by auto
  have rc: "reconnectTimer s' = Some k \<Longrightarrow> reconnectTimer s = Some k" for k using assms(6) by auto
  show ?thesis
    using assms(1) unfolding timersOk_def assms(4) by (intro conjI assms(3)) (blast dest: sub hb rc)+
qed

lemma timersOk_timer:
  "timersOk s \<Longrightarrow> heartbeatTimer s = Some k \<Longrightarrow> (k, t) \<in> set (wsTimers s) \<Longrightarrow> t = Heartbeat"
  "timersOk s \<Longrightarrow> reconnectTimer s = Some k \<Longrightarrow> (k, t) \<in> set (wsTimers s) \<Longrightarrow> t = Reconnect"
  unfolding timersOk_def by blast+

lemma timersOk_distinct: "timersOk s \<Longrightarrow> distinct (map fst (wsTimers s))"
  by (simp add: timersOk_def)

lemma ackInv_clearTimer:
  assumes "ackInv h s" "\<And>t. (k, t) \<in> set (wsTimers s) \<Longrightarrow> t = Heartbeat \<or> t = Reconnect"
  shows "ackInv h (clearTimer (Some k) s)"
proof -
  have t: "timersOk s" and p: "promisesOk h s" using assms(1) by (simp_all add: ackInv_def)
  have "armed (clearTimer (Some k) s) x p \<longleftrightarrow> armed s x p" for x p
    using assms(2) by (auto simp: armed_def clearTimer_def)
  then have "promisesOk h (clearTimer (Some k) s)"
    by (intro promisesOk_cong [OF _ _ _ _ p]) (simp_all add: clearTimer_def)
  moreover have "timersOk (clearTimer (Some k) s)"
    by (rule timersOk_subset [OF t]) (auto simp: clearTimer_def timersOk_distinct [OF t] intro!: distinct_map_filter)
  ultimately show ?thesis by (simp add: ackInv_def)
qed

lemma ackInv_forget:
  "ackInv h s \<Longrightarrow> ackInv h (s\<lparr>heartbeatTimer := None\<rparr>)" "ackInv h s \<Longrightarrow> ackInv h (s\<lparr>reconnectTimer := None\<rparr>)"
  unfolding ackInv_def
  by (auto intro!: timersOk_subset [of s] promisesOk_cong [of _ s] simp: timersOk_distinct armed_def)

lemma ackInv_clearHeartbeat:
  assumes "ackInv h s"
  shows "ackInv h (clearHeartbeat s)"
proof (cases "heartbeatTimer s")
  case None
  with assms show ?thesis by (simp add: clearHeartbeat_def clearTimer_def ackInv_forget)
next
  case (Some k)
  have t: "timersOk s" using assms by (simp add: ackInv_def)
  have "ackInv h (clearTimer (Some k) s)"
    by (rule ackInv_clearTimer [OF assms]) (use timersOk_timer(1) [OF t Some] in blast)
  then show ?thesis by (simp add: clearHeartbeat_def Some ackInv_forget)
qed

lemma ackInv_clearTimers:
  assumes "ackInv h s"
  shows "ackInv h (clearTimers s)"
proof -
  let ?s = "clearHeartbeat s"
  have inv: "ackInv h ?s" by (rule ackInv_clearHeartbeat [OF assms])
  show ?thesis
  proof (cases "reconnectTimer ?s")
    case None
    with inv show ?thesis by (simp add: clearTimers_def Let_def clearTimer_def ackInv_forget)
  next
    case (Some k)
    have t: "timersOk ?s" using inv by (simp add: ackInv_def)
    have "ackInv h (clearTimer (Some k) ?s)"
      by (rule ackInv_clearTimer [OF inv]) (use timersOk_timer(2) [OF t Some] in blast)
    then show ?thesis by (simp add: clearTimers_def Let_def Some ackInv_forget)
  qed
qed

lemma ackInv_setTimer:
  assumes "ackInv h s"
  shows "ackInv h ((setTimer Heartbeat s)\<lparr>heartbeatTimer := Some (nextTimer s)\<rparr>)"
    "ackInv h ((setTimer Reconnect s)\<lparr>reconnectTimer := Some (nextTimer s)\<rparr>)"
proof -
  have p: "promisesOk h s" and d: "distinct (map fst (wsTimers s))"
    and lt: "\<And>k t. (k, t) \<in> set (wsTimers s) \<Longrightarrow> k < nextTimer s"
    and hb: "\<And>k. heartbeatTimer s = Some k \<Longrightarrow> k < nextTimer s" "\<And>k t. heartbeatTimer s = Some k \<Longrightarrow> (k, t) \<in> set (wsTimers s) \<Longrightarrow> t = Heartbeat"
    and rc: "\<And>k. reconnectTimer s = Some k \<Longrightarrow> k < nextTimer s" "\<And>k t. reconnectTimer s = Some k \<Longrightarrow> (k, t) \<in> set (wsTimers s) \<Longrightarrow> t = Reconnect"
    using assms unfolding ackInv_def timersOk_def by blast+
  have d': "distinct (map fst (wsTimers s @ [(nextTimer s, u)]))" for u using d lt by fastforce
  have arm: "armed s' x q \<longleftrightarrow> armed s x q"
    if "wsTimers s' = wsTimers s @ [(nextTimer s, u)]" "u = Heartbeat \<or> u = Reconnect" for s' u x q
    using that by (auto simp: armed_def)
  show "ackInv h ((setTimer Heartbeat s)\<lparr>heartbeatTimer := Some (nextTimer s)\<rparr>)"
    unfolding ackInv_def timersOk_def setTimer_def
    using d' by (auto intro!: promisesOk_cong [OF _ _ _ _ p] arm less_SucI dest: lt hb rc)
  show "ackInv h ((setTimer Reconnect s)\<lparr>reconnectTimer := Some (nextTimer s)\<rparr>)"
    unfolding ackInv_def timersOk_def setTimer_def
    using d' by (auto intro!: promisesOk_cong [OF _ _ _ _ p] arm less_SucI dest: lt hb rc)
qed

lemma ackInv_settle:
  assumes "freshIds h" "ackInv h s" "jsGet (pendingAcks s) x = Some p"
    and "\<And>a. r = Resolved a \<Longrightarrow> ackClientMsgId a = x"
  shows "ackInv h (settle p r (s\<lparr>pendingAcks := jsDelete x (pendingAcks s)\<rparr>))"
proof -
  let ?s = "settle p r (s\<lparr>pendingAcks := jsDelete x (pendingAcks s)\<rparr>)"
  have t: "timersOk s" and n: "nextPromise s = length h"
    and pend: "\<And>y q. jsGet (pendingAcks s) y = Some q \<Longrightarrow> q < length h \<and> awaitedId (h ! q) = Some y"
    and arm: "\<And>y q. armed s y q \<Longrightarrow> q < length h \<and> payloadMsgId (h ! q) = y"
    and set: "\<And>q r. (q, r) \<in> set (settled s) \<Longrightarrow> q < length h"
    and each: "\<And>q y. q < length h \<Longrightarrow> awaitedId (h ! q) = Some y \<Longrightarrow> waiting h s q y \<or> settledOnce s q y"
    using assms(2) unfolding ackInv_def promisesOk_def by blast+
  have p: "p < length h" "awaitedId (h ! p) = Some x" using pend [OF assms(3)] by simp_all
  have armed: "armed ?s = armed s" by (simp add: armed_def settle_def fun_eq_iff)
  have "waiting h ?s q y \<or> settledOnce ?s q y" if q: "q < length h" "awaitedId (h ! q) = Some y" for q y
  proof (cases "q = p")
    case True
    then have y: "y = x" using p q by simp
    have "waiting h s p x" using each [OF p] assms(3) by (simp add: settledOnce_def)
    then have "settledOnce ?s p x" using assms(4) by (simp add: settledOnce_def waiting_def settle_def)
    then show ?thesis using True y by simp
  next
    case False
    then have "y \<noteq> x" using freshIds_unique [OF assms(1) p(1) q(1) p(2)] q(2) by blast
    with False each [OF q] show ?thesis
      by (simp add: waiting_def settledOnce_def armed) (simp add: settle_def)
  qed
  with n pend arm set p have "promisesOk h ?s"
    unfolding promisesOk_def armed by (auto simp: settle_def split: if_splits)
  moreover have "timersOk ?s"
    by (rule timersOk_subset [OF t]) (simp_all add: settle_def timersOk_distinct [OF t])
  ultimately show ?thesis by (simp add: ackInv_def)
qed

lemma ackInv_resolveAck: "freshIds h \<Longrightarrow> ackInv h s \<Longrightarrow> ackInv h (resolveAck a s)"
  by (auto simp: resolveAck_def intro: ackInv_settle split: option.splits)

text \<open>A promise that no longer waits can lose its timeout.\<close>

lemma promisesOk_disarm:
  assumes "promisesOk h s" "pendingAcks s' = pendingAcks s" "settled s' = settled s" "nextPromise s' = nextPromise s"
    and "\<And>y q. armed s' y q \<Longrightarrow> armed s y q" "\<And>y q. q \<noteq> p \<Longrightarrow> armed s y q \<Longrightarrow> armed s' y q"
    and "\<And>y. awaitedId (h ! p) = Some y \<Longrightarrow> \<not> waiting h s p y"
  shows "promisesOk h s'"
proof -
  have n: "nextPromise s = length h"
    and pend: "\<And>y q. jsGet (pendingAcks s) y = Some q \<Longrightarrow> q < length h \<and> awaitedId (h ! q) = Some y"
    and arm: "\<And>y q. armed s y q \<Longrightarrow> q < length h \<and> payloadMsgId (h ! q) = y"
    and set: "\<And>q r. (q, r) \<in> set (settled s) \<Longrightarrow> q < length h"
    and each: "\<And>q y. q < length h \<Longrightarrow> awaitedId (h ! q) = Some y \<Longrightarrow> waiting h s q y \<or> settledOnce s q y"
    using assms(1) unfolding promisesOk_def by blast+
  have "waiting h s' q y \<or> settledOnce s' q y" if "q < length h" "awaitedId (h ! q) = Some y" for q y
    using each [OF that] assms(6,7) that
    by (cases "q = p") (auto simp: waiting_def settledOnce_def assms(2,3))
  then show ?thesis
    using n pend arm set assms(5) unfolding promisesOk_def assms(2-4) by blast
qed

text \<open>When a timeout of \<open>send\<close> fires, its own promise is settled or already was.\<close>

lemma ackInv_ackTimeout:
  assumes "freshIds h" "ackInv h s" "(k, AckTimeout x p) \<in> set (wsTimers s)"
  shows "ackInv h (ackTimeout x p (clearTimer (Some k) s))"
proof -
  let ?c = "clearTimer (Some k) s"
  have t: "timersOk s" and pr: "promisesOk h s" using assms(2) by (simp_all add: ackInv_def)
  have xp: "p < length h" "payloadMsgId (h ! p) = x" using pr assms(3) unfolding promisesOk_def armed_def by blast+
  have uniq: "(k, t') \<in> set (wsTimers s) \<Longrightarrow> t' = AckTimeout x p" for t'
    using eq_key_imp_eq_value [OF timersOk_distinct [OF t] assms(3)] by blast
  have armc: "q \<noteq> p \<Longrightarrow> armed s y q \<Longrightarrow> armed ?c y q" "armed ?c y q \<Longrightarrow> armed s y q" for y q
    using uniq by (auto simp: armed_def clearTimer_def)
  have tc: "timersOk ?c"
    by (rule timersOk_subset [OF t]) (auto simp: clearTimer_def timersOk_distinct [OF t] intro!: distinct_map_filter)
  show ?thesis
  proof (cases "\<exists>y. x = Some y \<and> jsGet (pendingAcks s) y \<noteq> None")
    case True
    then obtain y q where y: "x = Some y" "jsGet (pendingAcks s) y = Some q" by blast
    have q: "q < length h" "awaitedId (h ! q) = Some y" using pr y(2) unfolding promisesOk_def by blast+
    then have "awaitedId (h ! p) = Some y" using xp y(1) by (auto simp: awaitedId_def split: option.splits if_splits)
    then have qp: "q = p" using freshIds_unique [OF assms(1) q(1) xp(1) q(2)] by blast
    let ?t = "settle p TimedOut (s\<lparr>pendingAcks := jsDelete y (pendingAcks s)\<rparr>)"
    let ?u = "settle p TimedOut (?c\<lparr>pendingAcks := jsDelete y (pendingAcks ?c)\<rparr>)"
    have "ackInv h ?t" by (rule ackInv_settle [OF assms(1,2) y(2) [unfolded qp]]) simp
    then have i: "promisesOk h ?t" by (simp add: ackInv_def)
    have arm: "armed ?u = armed ?c" "armed ?t = armed s" by (simp_all add: armed_def settle_def clearTimer_def fun_eq_iff)
    have "promisesOk h ?u"
      by (rule promisesOk_disarm [OF i, where p = p])
        (simp_all add: arm armc, simp_all add: settle_def clearTimer_def waiting_def)
    moreover have "timersOk ?u"
      by (rule timersOk_subset [OF tc]) (simp_all add: settle_def timersOk_distinct [OF tc])
    moreover have "ackTimeout x p ?c = ?u" using y by (simp add: ackTimeout_def clearTimer_def)
    ultimately show ?thesis by (simp add: ackInv_def)
  next
    case False
    then have e: "ackTimeout x p ?c = ?c" by (auto simp: ackTimeout_def clearTimer_def split: option.splits)
    have w: "\<not> waiting h s p y" if "awaitedId (h ! p) = Some y" for y
      using that False xp by (auto simp: waiting_def awaitedId_def split: option.splits if_splits)
    have "promisesOk h ?c"
      by (rule promisesOk_disarm [OF pr, where p = p]) (simp_all add: armc w, simp_all add: clearTimer_def)
    then show ?thesis using tc e by (simp add: ackInv_def)
  qed
qed

text \<open>A new call of \<open>send\<close> with a fresh identifier starts to wait and disturbs no other promise.\<close>

lemma ackInv_send:
  assumes "freshIds (h @ [m])" "ackInv h s"
  shows "ackInv (h @ [m]) (wsSend m s)"
proof -
  let ?s = "wsSend m s"
  have t: "timersOk s" and n: "nextPromise s = length h"
    and pend: "\<And>y q. jsGet (pendingAcks s) y = Some q \<Longrightarrow> q < length h \<and> awaitedId (h ! q) = Some y"
    and arm: "\<And>y q. armed s y q \<Longrightarrow> q < length h \<and> payloadMsgId (h ! q) = y"
    and set: "\<And>q r. (q, r) \<in> set (settled s) \<Longrightarrow> q < length h"
    and each: "\<And>q y. q < length h \<Longrightarrow> awaitedId (h ! q) = Some y \<Longrightarrow> waiting h s q y \<or> settledOnce s q y"
    using assms(2) unfolding ackInv_def promisesOk_def by blast+
  have fields: "settled ?s = settled s" "nextPromise ?s = Suc (length h)" "heartbeatTimer ?s = heartbeatTimer s"
    "reconnectTimer ?s = reconnectTimer s" "nextTimer ?s = Suc (nextTimer s)"
    "wsTimers ?s = wsTimers s @ [(nextTimer s, AckTimeout (payloadMsgId m) (length h))]"
    "pendingAcks ?s = (case awaitedId m of Some x \<Rightarrow> jsSet x (length h) (pendingAcks s) | None \<Rightarrow> pendingAcks s)"
    by (simp_all add: wsSend_def setTimer_def transmit_def Let_def n split: option.splits)
  have armed: "armed ?s y q \<longleftrightarrow> armed s y q \<or> (y = payloadMsgId m \<and> q = length h)" for y q
    by (auto simp: armed_def fields)
  have get: "jsGet (pendingAcks ?s) y = (if awaitedId m = Some y then Some (length h) else jsGet (pendingAcks s) y)" for y
    by (auto simp: fields split: option.splits)
  have none: "filter (\<lambda>q. fst q = length h) (settled s) = []"
    using set by (fastforce simp: filter_empty_conv)
  have old: "awaitedId m \<noteq> Some y" if "q < length h" "awaitedId (h ! q) = Some y" for q y
    using freshIds_unique [OF assms(1), of q "length h" y] that by (auto simp: nth_append)
  have "waiting (h @ [m]) ?s q y \<or> settledOnce ?s q y"
    if q: "q < length (h @ [m])" "awaitedId ((h @ [m]) ! q) = Some y" for q y
  proof (cases "q < length h")
    case True
    with q each [of q y] old [of q y] show ?thesis
      by (auto simp: nth_append waiting_def settledOnce_def armed get fields(1))
  next
    case False
    with q have "q = length h" "awaitedId m = Some y" by (auto simp: nth_append less_Suc_eq)
    then show ?thesis using none by (simp add: waiting_def armed get fields(1))
  qed
  moreover have "jsGet (pendingAcks ?s) y = Some q \<Longrightarrow> q < length (h @ [m]) \<and> awaitedId ((h @ [m]) ! q) = Some y" for y q
    using pend [of y q] by (auto simp: get nth_append split: if_splits)
  moreover have "armed ?s y q \<Longrightarrow> q < length (h @ [m]) \<and> payloadMsgId ((h @ [m]) ! q) = y" for y q
    using arm [of y q] by (auto simp: armed nth_append)
  moreover have "(q, r) \<in> set (settled ?s) \<Longrightarrow> q < length (h @ [m])" for q r
    using set [of q r] by (auto simp: fields)
  ultimately have "promisesOk (h @ [m]) ?s"
    unfolding promisesOk_def by (simp only: fields(2) length_append list.size add_0_right add_Suc_right) blast
  moreover have "timersOk ?s"
    using t unfolding timersOk_def fields by (fastforce simp: less_Suc_eq)
  ultimately show ?thesis by (simp add: ackInv_def)
qed

lemma ackInv_flushQueue: "ackInv h s \<Longrightarrow> ackInv h (flushQueue i s)"
proof (induction i s rule: flushQueue.induct)
  case (1 i s)
  have "ackInv h (transmit i (PayloadFrame p) (s\<lparr>sendQueue := q\<rparr>))" for p q
    by (rule ackInv_cong [OF _ _ _ _ _ _ _ "1.prems"]) (simp_all add: transmit_def)
  with 1 show ?case by (cases "sendQueue s") (simp_all add: flushQueue.simps [of i s])
qed

lemma ackInv_network:
  assumes "ackInv h s"
  shows "ackInv h (setState i st s)" "ackInv h (transmit i f s)" "ackInv h (newSocket url s)"
    "ackInv h (closeSocket w s)" "ackInv h (s\<lparr>wsCurrent := c\<rparr>)" "ackInv h (s\<lparr>wsDestroyed := b\<rparr>)"
    "ackInv h (s\<lparr>wsToken := tok\<rparr>)" "ackInv h (s\<lparr>reconnectAttempts := n\<rparr>)" "ackInv h (s\<lparr>lastDelay := d\<rparr>)"
    "ackInv h (s\<lparr>inboundHandlers := hs\<rparr>)" "ackInv h (s\<lparr>notified := ns\<rparr>)"
  by (rule ackInv_cong [OF _ _ _ _ _ _ _ assms];
      simp add: setState_def transmit_def newSocket_def closeSocket_def split: option.splits)+

lemma ackInv_timers:
  assumes "ackInv h s"
  shows "ackInv h (startHeartbeat s)" "ackInv h (scheduleReconnect u s)"
  using ackInv_setTimer(1) [OF ackInv_clearHeartbeat [OF assms]]
    ackInv_setTimer(2) [OF ackInv_network(9) [OF ackInv_network(8) [OF assms]]]
  by (simp_all add: startHeartbeat_def scheduleReconnect_def Let_def)

lemma ackInv_openConnection: "ackInv h s \<Longrightarrow> ackInv h (openConnection base s)"
  by (simp add: openConnection_def ackInv_network)

lemma ackInv_fire:
  assumes "freshIds h" "ackInv h s"
  shows "ackInv h (wsFire base k s)"
proof (cases "map_of (wsTimers s) k")
  case None
  with assms show ?thesis by (simp add: wsFire_def)
next
  case (Some t)
  then have m: "(k, t) \<in> set (wsTimers s)" by (rule map_of_SomeD)
  show ?thesis
  proof (cases t)
    case Reconnect
    have d: "distinct (map fst (wsTimers s))" using assms(2) by (simp add: ackInv_def timersOk_def)
    have "ackInv h (clearTimer (Some k) s)"
      by (rule ackInv_clearTimer [OF assms(2)]) (use eq_key_imp_eq_value [OF d m] Reconnect in blast)
    with Some Reconnect show ?thesis by (simp add: wsFire_def ackInv_openConnection)
  next
    case Heartbeat
    with Some assms show ?thesis by (simp add: wsFire_def ackInv_network)
  next
    case (AckTimeout x p)
    with Some assms m show ?thesis by (simp add: wsFire_def ackInv_ackTimeout)
  qed
qed

lemma ackInv_step: "freshIds (h @ sendOf e) \<Longrightarrow> ackInv h s \<Longrightarrow> ackInv (h @ sendOf e) (wsStep e s)"
proof (cases e)
  case (Send m)
  assume "freshIds (h @ sendOf e)" "ackInv h s"
  then show ?thesis using Send by (simp add: ackInv_send)
next
  case (Received i raw)
  assume "freshIds (h @ sendOf e)" "ackInv h s"
  then show ?thesis
    by (auto simp: Received wsReceived_def notifyHandlers_def Let_def ackInv_network ackInv_resolveAck ackInv_clearTimers
        split: blob.splits inboundFrame.splits)
next
  case (Fire base k)
  assume "freshIds (h @ sendOf e)" "ackInv h s"
  then show ?thesis using Fire by (simp add: ackInv_fire)
qed (auto simp: wsConnect_def wsDisconnect_def wsOnMessage_def wsUnsubscribe_def wsOpened_def wsClosed_def Let_def
      ackInv_network ackInv_openConnection ackInv_clearTimers ackInv_flushQueue ackInv_timers)

interpretation ws_acks: history_system wsStep sendOf freshIds ackInv
  by unfold_locales (blast intro: freshIds_prefix, rule ackInv_step)

text \<open>
  Every promise of \<open>send\<close> has a future: if no identifier is used twice, then after any sequence
  of events the promise of a payload with an identifier either still waits, registered and with its
  timeout running, or was settled exactly once, and if it was resolved then by an acknowledgement
  that carries its own identifier.
\<close>

theorem ws_ack_promises:
  assumes "freshIds (sends es)" "p < length (sends es)" "awaitedId (sends es ! p) = Some x"
  shows "(jsGet (pendingAcks (wsRun es)) x = Some p
      \<and> (\<exists>k. (k, AckTimeout (Some x) p) \<in> set (wsTimers (wsRun es)))
      \<and> filter (\<lambda>q. fst q = p) (settled (wsRun es)) = [])
    \<or> (\<exists>r. filter (\<lambda>q. fst q = p) (settled (wsRun es)) = [(p, r)] \<and> (\<forall>a. r = Resolved a \<longrightarrow> ackClientMsgId a = x))"
proof -
  have "ackInv [] wsInitial" by (simp add: ackInv_defs wsInitial_def)
  from ws_acks.inv_run [OF this, of es] assms(1) have inv: "ackInv (sends es) (wsRun es)"
    by (simp add: wsRun_def sends_def)
  have x: "payloadMsgId (sends es ! p) = Some x" using assms(3) by (auto simp: awaitedId_def split: option.splits if_splits)
  have "waiting (sends es) (wsRun es) p x \<or> settledOnce (wsRun es) p x"
    using inv assms(2,3) unfolding ackInv_def promisesOk_def by blast
  then show ?thesis unfolding waiting_def settledOnce_def armed_def x by blast
qed

section \<open>A promise that is never settled\<close>

text \<open>What leaves the promises alone: the tables stay and no timeout is armed.\<close>

definition calm :: "wsState \<Rightarrow> wsState \<Rightarrow> bool" where
  "calm s s' \<longleftrightarrow> pendingAcks s' = pendingAcks s \<and> settled s' = settled s \<and> nextPromise s' = nextPromise s
     \<and> (\<forall>y q. armed s' y q \<longrightarrow> armed s y q)"

lemma calm_timers:
  "calm s (clearTimer k s)" "calm s (clearTimers s)" "calm s (startHeartbeat s)" "calm s (scheduleReconnect u s)"
  by (auto simp: calm_def ws_frame_defs armed_def split: option.splits)

lemma calm_network:
  "calm s (setState i st s)" "calm s (transmit i f s)" "calm s (openConnection base s)" "calm s (closeSocket w s)"
  "calm s (s\<lparr>wsCurrent := c\<rparr>)" "calm s (s\<lparr>wsDestroyed := b\<rparr>)" "calm s (s\<lparr>wsToken := tok, wsDestroyed := b\<rparr>)"
  "calm s (s\<lparr>reconnectAttempts := n\<rparr>)" "calm s (s\<lparr>inboundHandlers := hs\<rparr>)" "calm s (notifyHandlers g s)"
  by (auto simp: calm_def armed_def setState_def transmit_def openConnection_def newSocket_def closeSocket_def
      notifyHandlers_def split: option.splits)

lemma calm_flushQueue: "calm s (flushQueue i s)"
proof (induction i s rule: flushQueue.induct)
  case (1 i s)
  then show ?case
    by (cases "sendQueue s") (auto simp: flushQueue.simps [of i s] calm_def armed_def transmit_def)
qed

text \<open>The promise is not settled, no table names it, and its timeout looks for an absent identifier.\<close>

definition lost :: "string \<Rightarrow> nat \<Rightarrow> wsState \<Rightarrow> bool" where
  "lost x p s \<longleftrightarrow> (\<forall>y. jsGet (pendingAcks s) y \<noteq> Some p) \<and> jsGet (pendingAcks s) x = None
     \<and> (\<forall>y. armed s y p \<longrightarrow> y = Some x) \<and> p < nextPromise s \<and> p \<notin> fst ` set (settled s)"

lemma lost_calm: "calm s s' \<Longrightarrow> lost x p s \<Longrightarrow> lost x p s'"
  by (auto simp: calm_def lost_def)

lemmas lost_simps = lost_calm [OF calm_timers(1)] lost_calm [OF calm_timers(2)] lost_calm [OF calm_timers(3)]
  lost_calm [OF calm_timers(4)] lost_calm [OF calm_network(1)] lost_calm [OF calm_network(2)]
  lost_calm [OF calm_network(3)] lost_calm [OF calm_network(4)] lost_calm [OF calm_network(5)]
  lost_calm [OF calm_network(6)] lost_calm [OF calm_network(7)] lost_calm [OF calm_network(8)]
  lost_calm [OF calm_network(9)] lost_calm [OF calm_network(10)] lost_calm [OF calm_flushQueue]

lemma lost_settle: "lost x p s \<Longrightarrow> q \<noteq> p \<Longrightarrow> lost x p (settle q r (s\<lparr>pendingAcks := jsDelete y (pendingAcks s)\<rparr>))"
  by (auto simp: lost_def settle_def armed_def split: if_splits)

lemma lost_resolveAck:
  assumes "lost x p s"
  shows "lost x p (resolveAck a s)"
proof (cases "jsGet (pendingAcks s) (ackClientMsgId a)")
  case (Some q)
  then have "q \<noteq> p" using assms by (auto simp: lost_def)
  with Some lost_settle [OF assms] show ?thesis by (simp add: resolveAck_def)
qed (use assms in \<open>simp add: resolveAck_def\<close>)

lemma lost_fire:
  assumes "lost x p s"
  shows "lost x p (wsFire base k s)"
proof (cases "map_of (wsTimers s) k")
  case (Some t)
  show ?thesis
  proof (cases t)
    case (AckTimeout y q)
    then have a: "armed s y q" using Some map_of_SomeD by (fastforce simp: armed_def)
    let ?c = "clearTimer (Some k) s"
    have c: "lost x p ?c" by (rule lost_simps(1) [OF assms])
    have "q = p \<Longrightarrow> y = Some x" using a assms by (auto simp: lost_def)
    then have "lost x p (ackTimeout y q ?c)"
      using c lost_settle [OF c, of q TimedOut "the y"]
      by (cases "q = p") (auto simp: ackTimeout_def lost_def split: option.splits)
    with Some AckTimeout show ?thesis by (simp add: wsFire_def)
  qed (use Some assms lost_simps in \<open>simp_all add: wsFire_def\<close>)
qed (use assms in \<open>simp add: wsFire_def\<close>)

lemma lost_send:
  assumes "lost x p s" "awaitedId m \<noteq> Some x"
  shows "lost x p (wsSend m s)"
proof -
  let ?s = "wsSend m s"
  have fields: "settled ?s = settled s" "nextPromise ?s = Suc (nextPromise s)"
    "wsTimers ?s = wsTimers s @ [(nextTimer s, AckTimeout (payloadMsgId m) (nextPromise s))]"
    "pendingAcks ?s = (case awaitedId m of Some x \<Rightarrow> jsSet x (nextPromise s) (pendingAcks s) | None \<Rightarrow> pendingAcks s)"
    by (simp_all add: wsSend_def setTimer_def transmit_def Let_def split: option.splits)
  show ?thesis
    using assms by (auto simp: lost_def armed_def fields split: option.splits if_splits)
qed

lemma lost_step:
  assumes "\<forall>m \<in> set (sendOf e). awaitedId m \<noteq> Some x" "lost x p s"
  shows "lost x p (wsStep e s)"
proof (cases e)
  case (Send m)
  with assms show ?thesis by (simp add: lost_send)
next
  case (Fire base k)
  with assms show ?thesis by (simp add: lost_fire)
next
  case (Received i raw)
  with assms show ?thesis
    by (auto simp: wsReceived_def Let_def lost_simps lost_resolveAck split: blob.splits inboundFrame.splits)
qed (use assms in \<open>auto simp: wsConnect_def wsDisconnect_def wsOnMessage_def wsUnsubscribe_def wsOpened_def wsClosed_def
      Let_def lost_simps\<close>)

interpretation ws_lost: history_system wsStep sendOf "\<lambda>h. \<forall>m \<in> set h. awaitedId m \<noteq> Some x" "\<lambda>h. lost x p" for x p
  by unfold_locales (auto intro: lost_step)

text \<open>The same payload sent again after its acknowledgement, within the timeout of the first call.\<close>

definition resendRun :: "string \<Rightarrow> string \<Rightarrow> payload \<Rightarrow> GatewayAck \<Rightarrow> wsEvent list" where
  "resendRun base token m ack =
     [Connect base token, Opened 0, Send m, Received 0 (Blob (AckFrame ack)), Send m, Fire base 1]"

lemma resend_loses: 
  assumes "payloadMsgId m = Some x" "x \<noteq> []" "ackClientMsgId ack = x"
  shows "lost x 1 (wsRun (resendRun base token m ack))"
  using assms
  by (simp add: wsRun_def resendRun_def wsInitial_def wsConnect_def openConnection_def newSocket_def wsOpened_def
      stateOf_def setState_def startHeartbeat_def clearHeartbeat_def clearTimer_def setTimer_def flushQueue.simps wsSend_def
      awaitedId_def isOpen_def transmit_def wsReceived_def resolveAck_def settle_def notifyHandlers_def wsFire_def
      ackTimeout_def Let_def lost_def armed_def jsSet_def jsDelete_def jsGet_def)

text \<open>
  Sending an acknowledged identifier again loses the second promise: the timeout of the first
  call, still running after its acknowledgement, removes the entry of the second call, and from
  then on no event (its acknowledgement and its own timeout included) settles the second promise,
  as long as the identifier is not sent a third time.
\<close>

theorem ws_resend_never_settles:
  assumes "payloadMsgId m = Some x" "x \<noteq> []" "ackClientMsgId ack = x"
    and "\<forall>m \<in> set (sends es). awaitedId m \<noteq> Some x"
  shows "1 \<notin> fst ` set (settled (wsRun (resendRun base token m ack @ es)))"
proof -
  have "lost x 1 (fold wsStep es (wsRun (resendRun base token m ack)))"
    using ws_lost.inv_run [OF resend_loses [OF assms(1-3)]] assms(4) by (simp add: sends_def)
  then show ?thesis by (simp add: lost_def wsRun_def)
qed

theorem ws_resend_never_settles_witness:
  "1 \<notin> fst ` set (settled (wsRun (resendRun [] [] \<lparr>payloadMsgId = Some ''m1'', payloadBody = []\<rparr>
       \<lparr>ackClientMsgId = ''m1'', ackMessageId = [], ackSequenceNum = 1\<rparr> @ [Fire [] 2])))"
  by (rule ws_resend_never_settles [where x = "''m1''"]) (simp_all add: sends_def)

theorem ws_ack_promises_witness:
  "\<exists>r. filter (\<lambda>q. fst q = 0) (settled (wsRun
      [Connect [] [], Opened 0, Send \<lparr>payloadMsgId = Some ''m1'', payloadBody = []\<rparr>,
       Received 0 (Blob (AckFrame \<lparr>ackClientMsgId = ''m1'', ackMessageId = [], ackSequenceNum = 1\<rparr>))])) = [(0, r)]"
  (is "\<exists>r. filter _ (settled (wsRun ?es)) = _")
proof -
  have s: "sends ?es = [\<lparr>payloadMsgId = Some ''m1'', payloadBody = []\<rparr>]" by (simp add: sends_def)
  have "jsGet (pendingAcks (wsRun ?es)) ''m1'' = None"
    by (simp add: wsRun_def wsInitial_def wsConnect_def openConnection_def newSocket_def wsOpened_def
      stateOf_def setState_def startHeartbeat_def clearHeartbeat_def clearTimer_def setTimer_def flushQueue.simps wsSend_def
      awaitedId_def isOpen_def transmit_def wsReceived_def resolveAck_def settle_def notifyHandlers_def Let_def
      jsSet_def jsDelete_def jsGet_def)
  moreover have "freshIds (sends ?es)" "0 < length (sends ?es)" "awaitedId (sends ?es ! 0) = Some ''m1''"
    by (simp_all add: s freshIds_def awaitedId_def)
  ultimately show ?thesis using ws_ack_promises [of ?es 0 "''m1''"] by fastforce
qed

section \<open>No connection after the end\<close>

lemma openConnection_destroyed: "wsDestroyed s \<Longrightarrow> openConnection base s = s"
  by (simp add: openConnection_def)

lemma wsDestroyed_network [simp]:
  "wsDestroyed (closeSocket w s) = wsDestroyed s" "wsDestroyed (setState i st s) = wsDestroyed s"
  "wsDestroyed (transmit i f s) = wsDestroyed s"
  by (simp_all add: closeSocket_def setState_def transmit_def split: option.splits)

lemma flushQueue_destroyed: "wsDestroyed (flushQueue i s) = wsDestroyed s"
proof (induction i s rule: flushQueue.induct)
  case (1 i s)
  then show ?case by (cases "sendQueue s") (simp_all add: flushQueue.simps [of i s] transmit_def)
qed

lemma destroyed_step:
  assumes "wsDestroyed s" "\<forall>b t. e \<noteq> Connect b t"
  shows "wsDestroyed (wsStep e s) \<and> length (socks (wsStep e s)) = length (socks s)"
proof (cases e)
  case (Send m)
  with assms show ?thesis by (simp add: wsSend_def setTimer_def transmit_def Let_def split: option.splits)
next
  case (Received i raw)
  with assms show ?thesis
    by (auto simp: wsReceived_def notifyHandlers_def resolveAck_def settle_def Let_def
        split: blob.splits inboundFrame.splits option.splits)
next
  case (Fire base k)
  with assms show ?thesis
    by (auto simp: wsFire_def openConnection_destroyed ackTimeout_def settle_def split: option.splits timer.splits)
next
  case (Opened i)
  with assms Opened show ?thesis
    by (simp add: wsOpened_def flushQueue_result(3) flushQueue_destroyed)
next
  case (Closed i code u)
  with assms Closed show ?thesis by (simp add: wsClosed_def Let_def)
next
  case Disconnect
  with assms show ?thesis by (simp add: wsDisconnect_def Let_def)
qed (use assms in \<open>simp_all add: wsOnMessage_def wsUnsubscribe_def\<close>)

lemma destroyed_run:
  "wsDestroyed s \<Longrightarrow> \<forall>b t. Connect b t \<notin> set es \<Longrightarrow> length (socks (fold wsStep es s)) = length (socks s)"
proof (induction es arbitrary: s)
  case (Cons e es)
  then have "\<forall>b t. e \<noteq> Connect b t" by auto
  from destroyed_step [OF Cons.prems(1) this] Cons show ?case by simp
qed simp

text \<open>
  After \<open>disconnect\<close>, or after the server has evicted the session, no further connection is
  opened (whatever sockets close and timers fire) until the client calls \<open>connect\<close> again.
\<close>

theorem ws_no_reconnect_after_end:
  assumes "e = Disconnect \<or> (\<exists>i. e = Received i (Blob EvictedFrame) \<and> stateOf i (wsRun es) = OPEN)"
    and "\<forall>b t. Connect b t \<notin> set es'"
  shows "length (socks (wsRun (es @ e # es'))) = length (socks (wsRun es))"
proof -
  let ?s = "wsStep e (wsRun es)"
  have "wsDestroyed ?s \<and> length (socks ?s) = length (socks (wsRun es))"
    using assms(1)
  proof
    assume e: "e = Disconnect"
    then show ?thesis by (simp add: wsDisconnect_def Let_def)
  next
    assume "\<exists>i. e = Received i (Blob EvictedFrame) \<and> stateOf i (wsRun es) = OPEN"
    then show ?thesis by (auto simp: wsReceived_def notifyHandlers_def Let_def)
  qed
  with destroyed_run [of ?s es'] assms(2) show ?thesis by (simp add: wsRun_def)
qed

theorem ws_no_reconnect_after_end_witness:
  "length (socks (wsRun ([Connect [] [], Opened 0] @ Disconnect # [Closed 0 1006 0, Fire [] 0]))) = 1"
  using ws_no_reconnect_after_end [of Disconnect "[Connect [] [], Opened 0]" "[Closed 0 1006 0, Fire [] 0]"]
  by (simp add: wsRun_def wsInitial_def wsConnect_def openConnection_def newSocket_def wsOpened_def
      stateOf_def flushQueue_result)

text \<open>The delay before a reconnection lies between half a second and thirty seconds.\<close>

lemma reconnectBackoff_bounds:
  assumes "0 \<le> u" "u < 1"
  shows "500 \<le> reconnectBackoff n u \<and> reconnectBackoff n u \<le> 30000"
proof -
  define b :: rat where "b = min (1000 * 2 ^ n) 30000"
  have b: "1000 \<le> b" "b \<le> 30000" by (simp_all add: b_def min_def)
  have r: "reconnectBackoff n u = jittered 250 b u" by (simp add: reconnectBackoff_def b_def)
  have "b / 2 - 1 / 2 < rat_of_int (jittered 250 b u)" "rat_of_int (jittered 250 b u) \<le> max 250 (b + 1 / 2)"
    using jittered_bounds(2,3) [OF assms, of b 250] b by simp_all
  then have "499 < rat_of_int (jittered 250 b u)" "rat_of_int (jittered 250 b u) < 30001"
    using b by (linarith, simp add: max_def split: if_splits)
  then show ?thesis unfolding r by linarith
qed

end
