(* ===== verification/Json_Text.thy ===== *)
theory Json_Text
  imports Codec Kv_Store
begin

text \<open>
  JSON values, their text as \<open>JSON.stringify\<close> writes it and its reader \<open>JSON.parse\<close>, on Latin-1
  texts. Integers are read as integers; a number with a fraction or an exponent is kept as its text.
  A repeated member keeps its first place and its last value.
\<close>

section \<open>Values\<close>

datatype json = JNull | JBool bool | JNum int | JDec string | JStr string | JArr "json list" | JObj "(string \<times> json) list"

definition member :: "json \<Rightarrow> string \<Rightarrow> json option" where
  "member j f = (case j of JObj m \<Rightarrow> map_of m f | _ \<Rightarrow> None)"

fun jsonTruthy :: "json option \<Rightarrow> bool" where
  "jsonTruthy None = False"
| "jsonTruthy (Some JNull) = False"
| "jsonTruthy (Some (JBool b)) = b"
| "jsonTruthy (Some (JNum n)) = (n \<noteq> 0)"
| "jsonTruthy (Some (JDec t)) = (\<exists>c \<in> set (takeWhile (\<lambda>c. c \<notin> set ''eE'') t). c \<in> set ''123456789'')"
| "jsonTruthy (Some (JStr s)) = (s \<noteq> [])"
| "jsonTruthy (Some _) = True"

text \<open>\<open>a || b\<close> and \<open>a ?? b\<close>\<close>

definition jsonOr :: "json option \<Rightarrow> json option \<Rightarrow> json option" where
  "jsonOr a b = (if jsonTruthy a then a else b)"

definition coalesce :: "json option \<Rightarrow> json option \<Rightarrow> json option" where
  "coalesce a b = (if a = None \<or> a = Some JNull then b else a)"

text \<open>An object literal given to \<open>JSON.stringify\<close>: members that are undefined are left out.\<close>

definition jobj :: "(string \<times> json option) list \<Rightarrow> json" where
  "jobj fs = JObj (List.map_filter (\<lambda>(f, v). map_option (Pair f) v) fs)"

section \<open>Writing\<close>

definition escapeChar :: "char \<Rightarrow> string" where
  "escapeChar c =
     (let n = (of_char c :: nat)
      in if n = 34 \<or> n = 92 then [CHR 0x5C, c]
         else if n = 8 then [CHR 0x5C, CHR ''b''] else if n = 9 then [CHR 0x5C, CHR ''t'']
         else if n = 10 then [CHR 0x5C, CHR ''n''] else if n = 12 then [CHR 0x5C, CHR ''f'']
         else if n = 13 then [CHR 0x5C, CHR ''r'']
         else if n < 32 then [CHR 0x5C, CHR ''u'', CHR ''0'', CHR ''0'', digitChar (n div 16), digitChar (n mod 16)]
         else [c])"

definition printStr :: "string \<Rightarrow> string" where
  "printStr s = CHR 0x22 # concat (map escapeChar s) @ [CHR 0x22]"

fun printJson :: "json \<Rightarrow> string" where
  "printJson JNull = ''null''"
| "printJson (JBool b) = (if b then ''true'' else ''false'')"
| "printJson (JNum n) = numString n"
| "printJson (JDec t) = t"
| "printJson (JStr s) = printStr s"
| "printJson (JArr xs) = CHR ''['' # join '','' (map printJson xs) @ '']''"
| "printJson (JObj fs) = CHR ''{'' # join '','' (map (\<lambda>(k, v). printStr k @ CHR '':'' # printJson v) fs) @ ''}''"

section \<open>Reading\<close>

definition jsonSpace :: "char \<Rightarrow> bool" where
  "jsonSpace c \<longleftrightarrow> (of_char c :: nat) \<in> {9, 10, 13, 32}"

definition skipWs :: "string \<Rightarrow> string" where
  "skipWs s = dropWhile jsonSpace s"

definition unescapeChar :: "char \<Rightarrow> char option" where
  "unescapeChar c =
     (if c \<in> set [CHR 0x22, CHR 0x5C, CHR ''/''] then Some c
      else if c = CHR ''b'' then Some (char_of (8 :: nat)) else if c = CHR ''t'' then Some (char_of (9 :: nat))
      else if c = CHR ''n'' then Some (char_of (10 :: nat)) else if c = CHR ''f'' then Some (char_of (12 :: nat))
      else if c = CHR ''r'' then Some (char_of (13 :: nat)) else None)"

text \<open>The rest of a string after its opening quote. An escape above \<open>00FF\<close> is outside Latin-1.\<close>

definition unicodeChar :: "string \<Rightarrow> char option" where
  "unicodeChar ds =
     (if length ds = 4 \<and> list_all isHexDigit ds \<and> take 2 ds = ''00''
      then Some (char_of (hexVal (ds ! 2) * 16 + hexVal (ds ! 3))) else None)"

function readString :: "string \<Rightarrow> (string \<times> string) option" where
  "readString s =
     (case s of
        [] \<Rightarrow> None
      | c # r \<Rightarrow>
          if c = CHR 0x22 then Some ([], r)
          else if (of_char c :: nat) < 32 then None
          else if c \<noteq> CHR 0x5C then map_option (apfst ((#) c)) (readString r)
          else (case r of
                  [] \<Rightarrow> None
                | e # r' \<Rightarrow>
                    if e = CHR ''u''
                    then (case unicodeChar (take 4 r') of
                            None \<Rightarrow> None
                          | Some x \<Rightarrow> map_option (apfst ((#) x)) (readString (drop 4 r')))
                    else (case unescapeChar e of
                            None \<Rightarrow> None
                          | Some x \<Rightarrow> map_option (apfst ((#) x)) (readString r'))))"
  by pat_completeness auto
termination by (relation "measure length") auto

declare readString.simps [simp del]

text \<open>A number, with its sign, without leading zeros, and what of it is a fraction or an exponent.\<close>

definition fracPart :: "string \<Rightarrow> (string \<times> string) option" where
  "fracPart s =
     (case s of
        c # r \<Rightarrow>
          if c = CHR ''.''
          then (let ds = takeWhile isDigit r in if ds = [] then None else Some (c # ds, drop (length ds) r))
          else Some ([], s)
      | [] \<Rightarrow> Some ([], []))"

definition signOf :: "string \<Rightarrow> string" where
  "signOf r = (if r \<noteq> [] \<and> hd r \<in> set ''+-'' then [hd r] else [])"

definition expPart :: "string \<Rightarrow> (string \<times> string) option" where
  "expPart s =
     (case s of
        c # r \<Rightarrow>
          if c \<in> set ''eE''
          then (let ds = takeWhile isDigit (drop (length (signOf r)) r)
                in if ds = [] then None else Some (c # signOf r @ ds, drop (length (signOf r) + length ds) r))
          else Some ([], s)
      | [] \<Rightarrow> Some ([], []))"

definition numberFrom :: "bool \<Rightarrow> string \<Rightarrow> (json \<times> string) option" where
  "numberFrom neg u =
     (let ds = takeWhile isDigit u
      in if ds = [] \<or> (hd ds = CHR ''0'' \<and> length ds > 1) then None
         else case fracPart (drop (length ds) u) of
                None \<Rightarrow> None
              | Some (f, r1) \<Rightarrow>
                  (case expPart r1 of
                     None \<Rightarrow> None
                   | Some (e, r2) \<Rightarrow>
                       Some (if f = [] \<and> e = [] then JNum (if neg then - int (digitsVal ds) else int (digitsVal ds))
                             else JDec ((if neg then ''-'' else []) @ ds @ f @ e), r2)))"

definition readNumber :: "string \<Rightarrow> (json \<times> string) option" where
  "readNumber s =
     (if s \<noteq> [] \<and> hd s = CHR ''-'' then numberFrom True (tl s) else numberFrom False s)"

definition readWord :: "string \<Rightarrow> json \<Rightarrow> string \<Rightarrow> (json \<times> string) option" where
  "readWord w v s = (if startsWith s w then Some (v, drop (length w) s) else None)"

definition objectOf :: "(string \<times> json) list \<Rightarrow> json" where
  "objectOf ms = JObj (fold (\<lambda>(k, v). jsSet k v) ms [])"

fun parseVal :: "nat \<Rightarrow> string \<Rightarrow> (json \<times> string) option"
  and parseElems :: "nat \<Rightarrow> string \<Rightarrow> (json list \<times> string) option"
  and parseMembers :: "nat \<Rightarrow> string \<Rightarrow> ((string \<times> json) list \<times> string) option" where
  "parseVal 0 s = None"
| "parseVal (Suc n) s =
     (case skipWs s of
        [] \<Rightarrow> None
      | c # r \<Rightarrow>
          if c = CHR 0x22 then map_option (apfst JStr) (readString r)
          else if c = CHR ''['' then
            (case skipWs r of
               d # r' \<Rightarrow> if d = CHR '']'' then Some (JArr [], r') else map_option (apfst JArr) (parseElems n r)
             | [] \<Rightarrow> None)
          else if c = CHR ''{'' then
            (case skipWs r of
               d # r' \<Rightarrow> if d = CHR ''}'' then Some (JObj [], r') else map_option (apfst objectOf) (parseMembers n r)
             | [] \<Rightarrow> None)
          else if c = CHR ''n'' then readWord ''null'' JNull (c # r)
          else if c = CHR ''t'' then readWord ''true'' (JBool True) (c # r)
          else if c = CHR ''f'' then readWord ''false'' (JBool False) (c # r)
          else readNumber (c # r))"
| "parseElems 0 s = None"
| "parseElems (Suc n) s =
     (case parseVal n s of
        None \<Rightarrow> None
      | Some (v, r) \<Rightarrow>
          (case skipWs r of
             [] \<Rightarrow> None
           | d # r' \<Rightarrow>
               if d = CHR '','' then map_option (apfst ((#) v)) (parseElems n r')
               else if d = CHR '']'' then Some ([v], r') else None))"
| "parseMembers 0 s = None"
| "parseMembers (Suc n) s =
     (case skipWs s of
        [] \<Rightarrow> None
      | c # r \<Rightarrow>
          if c \<noteq> CHR 0x22 then None
          else (case readString r of
                  None \<Rightarrow> None
                | Some (k, r1) \<Rightarrow>
                    (case skipWs r1 of
                       [] \<Rightarrow> None
                     | d # r2 \<Rightarrow>
                         if d \<noteq> CHR '':'' then None
                         else (case parseVal n r2 of
                                 None \<Rightarrow> None
                               | Some (v, r3) \<Rightarrow>
                                   (case skipWs r3 of
                                      [] \<Rightarrow> None
                                    | d' # r4 \<Rightarrow>
                                        if d' = CHR '','' then map_option (apfst ((#) (k, v))) (parseMembers n r4)
                                        else if d' = CHR ''}'' then Some ([(k, v)], r4) else None)))))"

text \<open>\<open>JSON.parse(s)\<close>; \<^const>\<open>None\<close> is the exception. The fuel is enough for every text.\<close>

definition parseJson :: "string \<Rightarrow> json option" where
  "parseJson s =
     (case parseVal (2 * length s + 2) s of
        Some (j, r) \<Rightarrow> if skipWs r = [] then Some j else None
      | None \<Rightarrow> None)"

section \<open>Writing and reading again\<close>

lemma escapeChar_unicode:
  assumes "(of_char c :: nat) < 32"
  shows "unicodeChar [CHR ''0'', CHR ''0'', digitChar (of_char c div 16), digitChar (of_char c mod 16)] = Some c"
proof -
  have z: "isHexDigit CHR ''0''" by code_simp
  have "char_of ((of_char c div 16) * 16 + of_char c mod 16 :: nat) = c"
    by (simp only: div_mult_mod_eq char_of_char)
  with z show ?thesis using hexDigit_ok [of "of_char c div 16"] hexDigit_ok [of "of_char c mod 16"] assms
    by (simp add: unicodeChar_def)
qed

lemma char_code:
  "c = CHR 0x22 \<longleftrightarrow> (of_char c :: nat) = 34" "c = CHR 0x5C \<longleftrightarrow> (of_char c :: nat) = 92"
  using of_char_eq_iff [of c "CHR 0x22", where ?'a = nat] of_char_eq_iff [of c "CHR 0x5C", where ?'a = nat]
  by (simp_all del: of_char_eq_iff)

lemma readString_backslash:
  "readString (CHR 0x5C # e # t) =
     (if e = CHR ''u''
      then (case unicodeChar (take 4 t) of None \<Rightarrow> None | Some x \<Rightarrow> map_option (apfst ((#) x)) (readString (drop 4 t)))
      else (case unescapeChar e of None \<Rightarrow> None | Some x \<Rightarrow> map_option (apfst ((#) x)) (readString t)))"
  by (simp add: readString.simps [of "CHR 0x5C # e # t"])

lemma unescapeChar_simps:
  "unescapeChar (CHR ''b'') = Some (char_of (8 :: nat))" "unescapeChar (CHR ''t'') = Some (char_of (9 :: nat))"
  "unescapeChar (CHR ''n'') = Some (char_of (10 :: nat))" "unescapeChar (CHR ''f'') = Some (char_of (12 :: nat))"
  "unescapeChar (CHR ''r'') = Some (char_of (13 :: nat))" "unescapeChar (CHR 0x22) = Some (CHR 0x22)"
  "unescapeChar (CHR 0x5C) = Some (CHR 0x5C)"
  by (simp_all add: unescapeChar_def)

lemma readString_escape: "readString (escapeChar c @ t) = map_option (apfst ((#) c)) (readString t)"
proof -
  define n where "n = (of_char c :: nat)"
  have c: "char_of n = c" by (simp add: n_def)
  consider "n = 34" | "n = 92" | "n = 8" | "n = 9" | "n = 10" | "n = 12" | "n = 13"
    | "n < 32" "n \<noteq> 8" "n \<noteq> 9" "n \<noteq> 10" "n \<noteq> 12" "n \<noteq> 13" | "32 \<le> n" "n \<noteq> 34" "n \<noteq> 92" by linarith
  then show ?thesis
  proof cases
    case 1
    then have "c = CHR 0x22" using char_code(1) [of c] by (simp add: n_def)
    then show ?thesis by (simp add: escapeChar_def readString_backslash unescapeChar_simps)
  next
    case 2
    then have "c = CHR 0x5C" using char_code(2) [of c] by (simp add: n_def)
    then show ?thesis by (simp add: escapeChar_def readString_backslash unescapeChar_simps)
  next
    case 8
    then show ?thesis using escapeChar_unicode [of c]
      by (simp add: escapeChar_def Let_def n_def [symmetric] readString_backslash)
  next
    case 9
    then show ?thesis
      by (simp add: escapeChar_def Let_def n_def [symmetric] readString.simps [of "c # t"] char_code)
  qed (use c in \<open>simp_all add: escapeChar_def Let_def n_def [symmetric] readString_backslash unescapeChar_simps char_code\<close>)
qed

lemma readString_print: "readString (concat (map escapeChar s) @ CHR 0x22 # rest) = Some (s, rest)"
  by (induction s) (simp_all add: readString_escape readString.simps [of "CHR 0x22 # rest"])

text \<open>What may follow a value: nothing, or a separator.\<close>

definition ends :: "string \<Rightarrow> bool" where
  "ends s \<longleftrightarrow> s = [] \<or> hd s \<in> set '',]}''"

lemma decimal_digits: "\<forall>c \<in> set (decimal k). isDigit c"
  using set_toString_10 [of k] unfolding isDigit_def by blast

lemma decimal_ne: "decimal k \<noteq> []"
  by (subst toString.simps) simp

lemma hd_decimal: "hd (decimal n) = CHR ''0'' \<Longrightarrow> n = 0"
proof (induction n rule: less_induct)
  case (less n)
  show ?case
  proof (cases "n < 10")
    case True
    then have "digitChar n = CHR ''0''" using less.prems by (simp add: toString.simps [of 10 n])
    then have "(of_char (digitChar n) :: nat) = 48" by simp
    with True show ?thesis by (simp add: digitChar_def)
  next
    case False
    then have "hd (decimal (n div 10)) = CHR ''0''"
      using less.prems by (simp add: toString.simps [of 10 n] hd_append decimal_ne)
    then have "n div 10 = 0" using False by (intro less.IH) simp_all
    with False show ?thesis by simp
  qed
qed

lemma takeWhile_ends: "ends rest \<Longrightarrow> takeWhile isDigit (u @ rest) = takeWhile isDigit u"
  by (induction u) (cases rest; auto simp: ends_def isDigit_def)+

lemma drop_digits: "drop (length (takeWhile P u)) (u @ rest) = drop (length (takeWhile P u)) u @ rest"
  using length_takeWhile_le [of P u] by simp

lemma takeWhile_diff [simp]: "length (takeWhile P u) - length u = 0"
  by (simp add: length_takeWhile_le)

lemma fracPart_append:
  "ends rest \<Longrightarrow> fracPart u = Some (f, r) \<Longrightarrow> fracPart (u @ rest) = Some (f, r @ rest)"
proof (cases u)
  case Nil
  assume "ends rest" "fracPart u = Some (f, r)"
  with Nil show ?thesis by (cases rest) (auto simp: fracPart_def ends_def)
qed (auto simp: fracPart_def Let_def takeWhile_ends drop_digits split: if_splits)

lemma expPart_append:
  "ends rest \<Longrightarrow> expPart u = Some (f, r) \<Longrightarrow> expPart (u @ rest) = Some (f, r @ rest)"
proof (cases u)
  case Nil
  assume "ends rest" "expPart u = Some (f, r)"
  with Nil show ?thesis by (cases rest) (auto simp: expPart_def ends_def)
next
  case (Cons c v)
  assume e: "ends rest" and p: "expPart u = Some (f, r)"
  show ?thesis
  proof (cases "c \<in> set ''eE''")
    case True
    define ds where "ds = takeWhile isDigit (drop (length (signOf v)) v)"
    have l: "length (signOf v) \<le> length v" by (cases v) (simp_all add: signOf_def)
    have ne: "v \<noteq> []" using p True Cons by (auto simp: expPart_def Let_def)
    then have s: "signOf (v @ rest) = signOf v" by (simp add: signOf_def)
    have d: "drop (length (signOf v)) (v @ rest) = drop (length (signOf v)) v @ rest" using l by simp
    have len: "length (signOf v) + length ds \<le> length v"
      using l length_takeWhile_le [of isDigit "drop (length (signOf v)) v"] by (simp add: ds_def)
    from p True Cons have "ds \<noteq> []" "f = c # signOf v @ ds" "r = drop (length (signOf v) + length ds) v"
      unfolding Cons expPart_def Let_def ds_def by (simp_all split: if_splits)
    then show ?thesis using True len
      unfolding Cons expPart_def Let_def
      by (simp add: s d takeWhile_ends [OF e] ds_def [symmetric])
  qed (use p Cons in \<open>auto simp: expPart_def\<close>)
qed

lemma numberFrom_append:
  assumes e: "ends rest" and p: "numberFrom neg w = Some (v, r)"
  shows "numberFrom neg (w @ rest) = Some (v, r @ rest)"
proof -
  define ds where "ds = takeWhile isDigit w"
  from p obtain f r1 x r2 where a: "\<not> (ds = [] \<or> (hd ds = CHR ''0'' \<and> length ds > 1))"
    "fracPart (drop (length ds) w) = Some (f, r1)" "expPart r1 = Some (x, r)"
    "v = (if f = [] \<and> x = [] then JNum (if neg then - int (digitsVal ds) else int (digitsVal ds))
          else JDec ((if neg then ''-'' else []) @ ds @ f @ x))"
    unfolding numberFrom_def Let_def ds_def [symmetric]
    by (simp split: option.splits if_splits prod.splits)
  have d: "drop (length ds) (w @ rest) = drop (length ds) w @ rest" unfolding ds_def by (rule drop_digits)
  show ?thesis
    unfolding numberFrom_def Let_def takeWhile_ends [OF e] ds_def [symmetric] d
    using a(1) fracPart_append [OF e a(2)] expPart_append [OF e a(3)] a(4) by simp
qed

lemma readNumber_append: "ends rest \<Longrightarrow> readNumber u = Some (v, r) \<Longrightarrow> readNumber (u @ rest) = Some (v, r @ rest)"
  by (cases u) (auto simp: readNumber_def numberFrom_append [where w = "_ # _", simplified] numberFrom_def [of _ "[]"]
      dest: numberFrom_append split: if_splits)

lemma numberFrom_decimal:
  "numberFrom neg (decimal k) = Some (JNum (if neg then - int k else int k), [])"
proof -
  have tw: "takeWhile isDigit (decimal k) = decimal k" using decimal_digits by (simp add: takeWhile_eq_all_conv)
  have z: "\<not> (decimal k = [] \<or> (hd (decimal k) = CHR ''0'' \<and> 1 < length (decimal k)))"
    using hd_decimal [of k] by (auto simp: toString.simps [of 10 0] decimal_ne)
  show ?thesis
    unfolding numberFrom_def Let_def tw if_not_P [OF z]
    by (simp add: fracPart_def expPart_def digitsVal_decimal)
qed

lemma readNumber_numString: "readNumber (numString n) = Some (JNum n, [])"
proof -
  have "hd (decimal k) \<noteq> CHR ''-''" for k
    using decimal_digits [of k] hd_in_set [OF decimal_ne [of k]] by (force simp: isDigit_def)
  then show ?thesis by (simp add: readNumber_def numString_def numberFrom_decimal decimal_ne)
qed

text \<open>
  The values that come back: numbers with a fraction or an exponent are texts of such numbers, and
  the members of an object have distinct names.
\<close>

fun wfJson :: "json \<Rightarrow> bool" where
  "wfJson (JDec t) \<longleftrightarrow> readNumber t = Some (JDec t, [])"
| "wfJson (JArr xs) \<longleftrightarrow> (\<forall>x \<in> set xs. wfJson x)"
| "wfJson (JObj fs) \<longleftrightarrow> distinct (map fst fs) \<and> (\<forall>f \<in> set fs. wfJson (snd f))"
| "wfJson _ \<longleftrightarrow> True"

fun fuelFor :: "json \<Rightarrow> nat" where
  "fuelFor (JArr xs) = Suc (sum_list (map (\<lambda>x. Suc (fuelFor x)) xs))"
| "fuelFor (JObj fs) = Suc (sum_list (map (\<lambda>f. Suc (fuelFor (snd f))) fs))"
| "fuelFor _ = 1"

lemma jsSet_absent: "k \<notin> fst ` set m \<Longrightarrow> jsSet k v m = m @ [(k, v)]"
  unfolding jsSet_def by (induction m) auto

lemma objectOf_distinct: "distinct (map fst ms) \<Longrightarrow> objectOf ms = JObj ms"
proof -
  have "distinct (map fst (acc @ ms)) \<Longrightarrow> fold (\<lambda>(k, v). jsSet k v) ms acc = acc @ ms" for acc :: "json jsmap"
  proof (induction ms arbitrary: acc)
    case (Cons m ms)
    then have "jsSet (fst m) (snd m) acc = acc @ [m]"
      by (subst jsSet_absent) auto
    with Cons show ?case by (cases m) simp
  qed simp
  from this [of "[]"] show "distinct (map fst ms) \<Longrightarrow> objectOf ms = JObj ms" by (simp add: objectOf_def)
qed

definition goodVal :: "json \<Rightarrow> bool" where
  "goodVal x \<longleftrightarrow> (\<forall>n rest. fuelFor x \<le> n \<longrightarrow> ends rest \<longrightarrow> parseVal n (printJson x @ rest) = Some (x, rest))"

lemma skipWs_stop [simp]:
  "skipWs (CHR '','' # r) = CHR '','' # r" "skipWs (CHR '']'' # r) = CHR '']'' # r"
  "skipWs (CHR ''}'' # r) = CHR ''}'' # r" "skipWs (CHR '':'' # r) = CHR '':'' # r"
  "skipWs (CHR 0x22 # r) = CHR 0x22 # r" "skipWs (CHR ''['' # r) = CHR ''['' # r"
  "skipWs (CHR ''{'' # r) = CHR ''{'' # r"
  by (simp_all add: skipWs_def jsonSpace_def)

lemma ends_stop [simp]: "ends (CHR '','' # r)" "ends (CHR '']'' # r)" "ends (CHR ''}'' # r)"
  by (simp_all add: ends_def)

lemma parseElems_join:
  "xs \<noteq> [] \<Longrightarrow> (\<And>x. x \<in> set xs \<Longrightarrow> goodVal x) \<Longrightarrow> sum_list (map (\<lambda>x. Suc (fuelFor x)) xs) \<le> m \<Longrightarrow>
   parseElems m (join '','' (map printJson xs) @ CHR '']'' # rest) = Some (xs, rest)"
proof (induction xs arbitrary: m rule: induct_list012)
  case (2 x)
  then obtain n where "m = Suc n" "fuelFor x \<le> n" by (cases m) auto
  moreover have "goodVal x" using 2 by simp
  ultimately show ?case by (simp add: goodVal_def)
next
  case (3 x y zs)
  from "3.prems"(3) obtain n where n: "m = Suc n" "fuelFor x \<le> n" by (cases m) auto
  have g: "goodVal x" using "3.prems"(2) by simp
  have "parseElems n (join '','' (map printJson (y # zs)) @ CHR '']'' # rest) = Some (y # zs, rest)"
    using "3.prems" n by (intro "3.IH") auto
  with n g show ?case by (simp add: goodVal_def)
qed simp

definition printField :: "string \<times> json \<Rightarrow> string" where
  "printField f = printStr (fst f) @ CHR '':'' # printJson (snd f)"

lemma printJson_object: "printJson (JObj fs) = CHR ''{'' # join '','' (map printField fs) @ ''}''"
proof -
  have "(\<lambda>(k, v). printStr k @ CHR '':'' # printJson v) = printField" by (auto simp: printField_def)
  then show ?thesis by simp
qed

lemma parseMembers_step:
  assumes "goodVal (snd f)" "fuelFor (snd f) \<le> n" "ends rest"
  shows "parseMembers (Suc n) (printField f @ rest) =
     (case skipWs rest of
        [] \<Rightarrow> None
      | d' # r4 \<Rightarrow>
          if d' = CHR '','' then map_option (apfst ((#) f)) (parseMembers n r4)
          else if d' = CHR ''}'' then Some ([f], r4) else None)"
  using assms by (cases f; clarsimp simp: printField_def printStr_def readString_print goodVal_def)

lemma parseMembers_join:
  "fs \<noteq> [] \<Longrightarrow> (\<And>f. f \<in> set fs \<Longrightarrow> goodVal (snd f)) \<Longrightarrow> sum_list (map (\<lambda>f. Suc (fuelFor (snd f))) fs) \<le> m \<Longrightarrow>
   parseMembers m (join '','' (map printField fs) @ CHR ''}'' # rest) = Some (fs, rest)"
proof (induction fs arbitrary: m rule: induct_list012)
  case (2 f)
  then obtain n where "m = Suc n" "fuelFor (snd f) \<le> n" by (cases m) auto
  moreover have "goodVal (snd f)" using 2 by simp
  ultimately show ?case by (simp add: parseMembers_step del: parseMembers.simps)
next
  case (3 f g fs)
  from "3.prems"(3) obtain n where n: "m = Suc n" "fuelFor (snd f) \<le> n" by (cases m) auto
  have v: "goodVal (snd f)" using "3.prems"(2) by simp
  have "parseMembers n (join '','' (map printField (g # fs)) @ CHR ''}'' # rest) = Some (g # fs, rest)"
    using "3.prems" n by (intro "3.IH") auto
  with n v show ?case by (simp add: parseMembers_step del: parseMembers.simps)
qed simp

lemma no_space_head: "x \<noteq> [] \<Longrightarrow> \<not> jsonSpace (hd x) \<Longrightarrow> skipWs (x @ rest) = x @ rest"
  by (cases x) (simp_all add: skipWs_def)

lemma goodVal_number:
  assumes "readNumber t = Some (x, [])" and p: "printJson x = t" "fuelFor x = 1"
  shows "goodVal x"
  unfolding goodVal_def
proof (intro allI impI)
  fix n :: nat and rest
  assume n: "fuelFor x \<le> n" and e: "ends rest"
  obtain m where m: "n = Suc m" using n p by (cases n) auto
  have r: "readNumber (t @ rest) = Some (x, rest)" using readNumber_append [OF e assms(1)] by simp
  have "t \<noteq> []" using assms(1) by (auto simp: readNumber_def numberFrom_def Let_def)
  then obtain c u where t: "t = c # u" by (cases t) auto
  have c: "c = CHR ''-'' \<or> isDigit c" using assms(1)
    by (auto simp: t readNumber_def numberFrom_def Let_def split: if_splits)
  then have "\<not> jsonSpace c" "c \<noteq> CHR 0x22" "c \<noteq> CHR ''[''" "c \<noteq> CHR ''{''" "c \<noteq> CHR ''n''" "c \<noteq> CHR ''t''" "c \<noteq> CHR ''f''"
    by (auto simp: isDigit_def jsonSpace_def)
  then show "parseVal n (printJson x @ rest) = Some (x, rest)" using r by (simp add: m p t skipWs_def)
qed

lemma join_ne: "xs \<noteq> [] \<Longrightarrow> (\<And>x. x \<in> set xs \<Longrightarrow> x \<noteq> []) \<Longrightarrow> \<exists>y ys. join s xs = y # ys \<and> y = hd (hd xs)"
proof (cases xs)
  case (Cons x zs)
  assume "\<And>x. x \<in> set xs \<Longrightarrow> x \<noteq> []"
  then obtain y ys where "x = y # ys" using Cons by (cases x) auto
  then show ?thesis using Cons by (cases zs) auto
qed simp

lemma hd_printJson: "wfJson x \<Longrightarrow> printJson x \<noteq> [] \<and> \<not> jsonSpace (hd (printJson x)) \<and> hd (printJson x) \<noteq> CHR '']''"
proof (cases x)
  case (JDec t)
  assume "wfJson x"
  then have r: "readNumber t = Some (JDec t, [])" using JDec by simp
  then obtain c u where t: "t = c # u" by (cases t) (auto simp: readNumber_def numberFrom_def Let_def)
  have "c = CHR ''-'' \<or> isDigit c" using r
    by (auto simp: t readNumber_def numberFrom_def Let_def split: if_splits)
  then show ?thesis using JDec t by (auto simp: isDigit_def jsonSpace_def)
next
  case (JNum n)
  obtain c u where d: "decimal (nat n) = c # u" using decimal_ne [of "nat n"] by (cases "decimal (nat n)") auto
  have "isDigit c" using decimal_digits [of "nat n"] d by simp
  then show ?thesis using JNum d by (auto simp: numString_def isDigit_def jsonSpace_def)
qed (auto simp: jsonSpace_def printStr_def)

lemma goodVal_JNum: "goodVal (JNum n)"
  by (rule goodVal_number [OF readNumber_numString]) simp_all

theorem goodVal_wf: "wfJson x \<Longrightarrow> goodVal x"
proof (induction x rule: wfJson.induct)
  case (1 t)
  then show ?case by (intro goodVal_number) auto
next
  case (2 xs)
  show ?case
    unfolding goodVal_def
  proof (intro allI impI)
    fix n rest assume n: "fuelFor (JArr xs) \<le> n"
    then obtain m where m: "n = Suc m" by (cases n) auto
    show "parseVal n (printJson (JArr xs) @ rest) = Some (JArr xs, rest)"
    proof (cases "xs = []")
      case False
      have g: "\<forall>x \<in> set xs. goodVal x \<and> wfJson x" using 2 by simp
      have "\<And>t. t \<in> set (map printJson xs) \<Longrightarrow> t \<noteq> []" using g hd_printJson by auto
      then obtain y ys where j: "join '','' (map printJson xs) = y # ys" "y = hd (printJson (hd xs))"
        using join_ne [of "map printJson xs" "'',''"] False by (auto simp: hd_map)
      have y: "\<not> jsonSpace y" "y \<noteq> CHR '']''" using g hd_printJson [of "hd xs"] False j by auto
      have "parseElems m (join '','' (map printJson xs) @ CHR '']'' # rest) = Some (xs, rest)"
        using n m g False by (intro parseElems_join) auto
      then show ?thesis using y by (simp add: m j(1) skipWs_def jsonSpace_def)
    qed (simp add: m)
  qed
next
  case (3 fs)
  show ?case
    unfolding goodVal_def
  proof (intro allI impI)
    fix n rest assume n: "fuelFor (JObj fs) \<le> n"
    then obtain m where m: "n = Suc m" by (cases n) auto
    show "parseVal n (printJson (JObj fs) @ rest) = Some (JObj fs, rest)"
    proof (cases "fs = []")
      case False
      have g: "\<forall>f \<in> set fs. goodVal (snd f)" using 3 by simp
      obtain ys where j: "join '','' (map printField fs) = CHR 0x22 # ys"
        using join_ne [of "map printField fs" "'',''"] False by (auto simp: printField_def printStr_def hd_map)
      have "parseMembers m (join '','' (map printField fs) @ CHR ''}'' # rest) = Some (fs, rest)"
        using n m g False by (intro parseMembers_join) auto
      then show ?thesis using 3 objectOf_distinct [of fs]
        by (simp add: m j printJson_object skipWs_def jsonSpace_def del: printJson.simps)
    qed (simp add: m)
  qed
qed (auto simp: goodVal_JNum, auto simp: goodVal_def readWord_def startsWith_def printStr_def readString_print skipWs_def jsonSpace_def Suc_le_eq gr0_conv_Suc)

lemma length_join: "sum_list (map (\<lambda>x. 2 * Suc (length x)) xs) \<le> 2 * length (join [c] xs) + 2"
  by (induction xs rule: induct_list012) auto

lemma fuelFor_le: "wfJson x \<Longrightarrow> fuelFor x \<le> 2 * length (printJson x)"
proof (induction x rule: wfJson.induct)
  case (2 xs)
  have "sum_list (map (\<lambda>x. Suc (fuelFor x)) xs) \<le> sum_list (map (\<lambda>x. 2 * Suc (length x)) (map printJson xs))"
    unfolding map_map using 2 by (intro sum_list_mono) force
  with length_join [of "map printJson xs" "CHR '',''"] show ?case by simp
next
  case (3 fs)
  have "Suc (fuelFor (snd f)) \<le> 2 * Suc (length (printField f))" if "f \<in> set fs" for f
    using 3 that by (cases f) (force simp: printField_def)
  then have "sum_list (map (\<lambda>f. Suc (fuelFor (snd f))) fs) \<le> sum_list (map (\<lambda>x. 2 * Suc (length x)) (map printField fs))"
    unfolding map_map by (intro sum_list_mono) simp
  with length_join [of "map printField fs" "CHR '',''"] show ?case
    by (simp add: printJson_object del: printJson.simps)
next
  case (1 t)
  then have "t \<noteq> []" by (auto simp: readNumber_def numberFrom_def Let_def)
  then show ?case by (cases t) auto
qed (auto simp: printStr_def numString_def decimal_ne Suc_le_eq)

theorem parse_print: "wfJson x \<Longrightarrow> parseJson (printJson x) = Some x"
proof -
  assume w: "wfJson x"
  have "fuelFor x \<le> 2 * length (printJson x) + 2" "ends []" using fuelFor_le [OF w] by (simp_all add: ends_def)
  with goodVal_wf [OF w] have "parseVal (2 * length (printJson x) + 2) (printJson x @ []) = Some (x, [])"
    unfolding goodVal_def by blast
  then show ?thesis unfolding parseJson_def append_Nil2 by (simp add: skipWs_def del: parseVal.simps)
qed

section \<open>The fuel\<close>

lemma readString_shorter: "readString s = Some (t, r) \<Longrightarrow> length r < length s"
proof (induction "length s" arbitrary: s t rule: less_induct)
  case less
  obtain c u where s: "s = c # u" using less.prems by (cases s) (auto simp: readString.simps [of "[]"])
  have rec: "length r < length s" if "map_option (apfst ((#) x)) (readString v) = Some (t, r)" "length v < length s" for x v
    using that less.hyps [of v] by fastforce
  show ?case
  proof (cases "c = CHR 0x5C")
    case True
    obtain e v where u: "u = e # v" using less.prems True s by (cases u) (auto simp: readString.simps [of "[CHR 0x5C]"])
    have "length v < length s" "length (drop 4 v) < length s" by (simp_all add: s u)
    then show ?thesis using less.prems rec
      unfolding s u True readString_backslash by (simp split: option.splits if_splits)
  next
    case False
    then show ?thesis using less.prems rec [of c u] by (simp add: s readString.simps [of "c # u"] split: if_splits)
  qed
qed

lemma skipWs_le: "length (skipWs s) \<le> length s"
  by (simp add: skipWs_def length_dropWhile_le)

lemma fracPart_le: "fracPart s = Some (f, r) \<Longrightarrow> length r \<le> length s"
  by (cases s) (auto simp: fracPart_def Let_def split: if_splits)

lemma expPart_le: "expPart s = Some (f, r) \<Longrightarrow> length r \<le> length s"
  by (cases s) (auto simp: expPart_def Let_def split: if_splits)

lemma numberFrom_shorter: "numberFrom neg s = Some (v, r) \<Longrightarrow> length r < length s"
proof -
  assume p: "numberFrom neg s = Some (v, r)"
  define ds where "ds = takeWhile isDigit s"
  from p obtain f r1 x where a: "ds \<noteq> []" "fracPart (drop (length ds) s) = Some (f, r1)" "expPart r1 = Some (x, r)"
    unfolding numberFrom_def Let_def ds_def [symmetric] by (simp split: option.splits if_splits prod.splits)
  have "length ds \<le> length s" unfolding ds_def by (rule length_takeWhile_le)
  then show ?thesis using a fracPart_le [OF a(2)] expPart_le [OF a(3)] by (cases ds) auto
qed

lemma readNumber_shorter: "readNumber s = Some (v, r) \<Longrightarrow> length r < length s"
  by (cases s) (auto simp: readNumber_def dest!: numberFrom_shorter split: if_splits)

lemma readWord_shorter: "w \<noteq> [] \<Longrightarrow> readWord w v s = Some (x, r) \<Longrightarrow> length r < length s"
  by (cases s) (auto simp: readWord_def startsWith_def split: if_splits)

lemma skipWs_Cons: "skipWs s = c # r \<Longrightarrow> length r < length s"
  using skipWs_le [of s] by simp

lemma parse_shorter:
  "(\<forall>s v r. parseVal n s = Some (v, r) \<longrightarrow> length r < length s)
   \<and> (\<forall>s vs r. parseElems n s = Some (vs, r) \<longrightarrow> length r < length s)
   \<and> (\<forall>s ms r. parseMembers n s = Some (ms, r) \<longrightarrow> length r < length s)"
proof (induction n)
  case (Suc n)
  have val: "length r < length s" if "parseVal (Suc n) s = Some (v, r)" for s v r
  proof (cases "skipWs s")
    case (Cons c u)
    note l = skipWs_Cons [OF Cons]
    have rec: "length q < length s" if "skipWs u = d # w" "length q < length u \<or> q = w" for d w q
      using that l skipWs_Cons [OF that(1)] by auto
    show ?thesis using that Cons l rec Suc.IH skipWs_le [of s]
      by (auto simp: dest!: readString_shorter readWord_shorter [rotated] readNumber_shorter split: if_splits list.splits)
  qed (use that in simp)
  have elems: "length r < length s" if "parseElems (Suc n) s = Some (vs, r)" for s vs r
  proof -
    from that obtain v q where v: "parseVal n s = Some (v, q)" by (auto split: option.splits)
    with that obtain d w where w: "skipWs q = d # w" by (auto split: list.splits)
    have "length q < length s" "length w < length q" using Suc.IH v skipWs_Cons [OF w] by auto
    then show ?thesis using that v w Suc.IH by (force split: if_splits)
  qed
  have mems: "length r < length s" if "parseMembers (Suc n) s = Some (ms, r)" for s ms r
  proof -
    from that obtain c u where u: "skipWs s = c # u" by (auto split: list.splits)
    with that obtain k q where k: "readString u = Some (k, q)" by (auto split: if_splits option.splits)
    with that u obtain d w where w: "skipWs q = d # w" by (auto split: if_splits list.splits)
    with that u k obtain v x where v: "parseVal n w = Some (v, x)" by (auto split: if_splits option.splits)
    with that u k w obtain e y where y: "skipWs x = e # y" by (auto split: if_splits list.splits)
    have "length y < length s"
      using skipWs_Cons [OF u] readString_shorter [OF k] skipWs_Cons [OF w] Suc.IH v skipWs_Cons [OF y] by fastforce
    then show ?thesis using that u k w v y Suc.IH by (force split: if_splits)
  qed
  show ?case using val elems mems by blast
qed simp

lemmas parseVal_shorter = parse_shorter [THEN conjunct1, rule_format]

lemma parse_fuel:
  "(\<forall>n m. 2 * length s < n \<longrightarrow> 2 * length s < m \<longrightarrow> parseVal n s = parseVal m s)
   \<and> (\<forall>n m. 2 * length s + 1 < n \<longrightarrow> 2 * length s + 1 < m \<longrightarrow> parseElems n s = parseElems m s)
   \<and> (\<forall>n m. 2 * length s + 1 < n \<longrightarrow> 2 * length s + 1 < m \<longrightarrow> parseMembers n s = parseMembers m s)"
proof (induction "length s" arbitrary: s rule: less_induct)
  case less
  note IH = less.hyps [THEN conjunct1, rule_format] less.hyps [THEN conjunct2, THEN conjunct1, rule_format]
    less.hyps [THEN conjunct2, THEN conjunct2, rule_format]
  have val: "parseVal n s = parseVal m s" if "2 * length s < n" "2 * length s < m" for n m
  proof -
    have "0 < n" "0 < m" using that by linarith+
    then obtain n' m' where nm: "n = Suc n'" "m = Suc m'" by (auto simp: gr0_conv_Suc)
    show ?thesis
    proof (cases "skipWs s")
      case (Cons c r)
      have l: "length r < length s" by (rule skipWs_Cons [OF Cons])
      then have "parseElems n' r = parseElems m' r" "parseMembers n' r = parseMembers m' r"
        using that nm by (auto intro!: IH)
      then show ?thesis using Cons by (simp add: nm split: list.split)
    qed (simp add: nm)
  qed
  have elems: "parseElems n s = parseElems m s" if "2 * length s + 1 < n" "2 * length s + 1 < m" for n m
  proof -
    have "0 < n" "0 < m" using that by linarith+
    then obtain n' m' where nm: "n = Suc n'" "m = Suc m'" by (auto simp: gr0_conv_Suc)
    have v: "parseVal n' s = parseVal m' s" using that nm by (intro val) auto
    have "parseElems n' w = parseElems m' w" if "parseVal m' s = Some (x, q)" "skipWs q = d # w" for x q d w
      using parseVal_shorter [OF that(1)] skipWs_Cons [OF that(2)] \<open>2 * length s + 1 < n\<close> \<open>2 * length s + 1 < m\<close> nm
      by (intro IH) auto
    then show ?thesis by (auto simp: nm v split: option.splits list.splits)
  qed
  have mems: "parseMembers n s = parseMembers m s" if "2 * length s + 1 < n" "2 * length s + 1 < m" for n m
  proof -
    have "0 < n" "0 < m" using that by linarith+
    then obtain n' m' where nm: "n = Suc n'" "m = Suc m'" by (auto simp: gr0_conv_Suc)
    show ?thesis
    proof (cases "\<exists>c u k q d w. skipWs s = c # u \<and> readString u = Some (k, q) \<and> skipWs q = d # w")
      case True
      then obtain c u k q d w where u: "skipWs s = c # u" "readString u = Some (k, q)" "skipWs q = d # w" by blast
      have l: "length w < length s"
        using skipWs_Cons [OF u(1)] readString_shorter [OF u(2)] skipWs_Cons [OF u(3)] by simp
      then have v: "parseVal n' w = parseVal m' w" using that nm by (intro IH) auto
      have "parseMembers n' y = parseMembers m' y" if "parseVal m' w = Some (x, q)" "skipWs q = d # y" for x q d y
        using parseVal_shorter [OF that(1)] skipWs_Cons [OF that(2)] l \<open>2 * length s + 1 < n\<close> \<open>2 * length s + 1 < m\<close> nm
        by (intro IH) auto
      then show ?thesis using u by (auto simp: nm v split: option.splits list.splits)
    next
      case False
      then show ?thesis by (auto simp: nm split: option.splits list.splits)
    qed
  qed
  show ?case using val elems mems by blast
qed

lemma parseJson_fuel:
  "2 * length s < n \<Longrightarrow>
   parseJson s = (case parseVal n s of Some (j, r) \<Rightarrow> if skipWs r = [] then Some j else None | None \<Rightarrow> None)"
  using parse_fuel [THEN conjunct1, rule_format, of s n "2 * length s + 2"] unfolding parseJson_def by simp

end
