(* ===== verification/Gateway_Client.thy ===== *)
theory Gateway_Client
  imports Event_Loop Safety_Numbers Json_Text
begin

text \<open>
  \<open>GatewayClient\<close> of \<open>packages/client-web/src/lib/gateway-client.ts\<close>: the socket of the chat
  page, the frames it sends and the dispatch of the frames it receives, the table of awaited
  acknowledgements, the heartbeat and the reconnection. Calls of the client and events of the
  browser are steps of the state.
\<close>

section \<open>Text in base64\<close>

text \<open>
  \<open>btoa(unescape(encodeURIComponent(s)))\<close>: the UTF-8 encoding of the text in base64. Decoding is
  \<open>decodeURIComponent(escape(atob(b64)))\<close>, with the binary string itself if it is no valid UTF-8
  and the input itself if it is no base64. A text with a code unit above 255 is represented by its
  bytes.
\<close>

datatype decoded = Narrow string | Wide bytes

definition isCont :: "byte \<Rightarrow> bool" where
  "isCont b \<longleftrightarrow> 128 \<le> unat b \<and> unat b \<le> 191"

fun utf8Valid :: "bytes \<Rightarrow> bool" where
  "utf8Valid [] = True"
| "utf8Valid (b # bs) =
     (let n = unat b
      in if n < 128 then utf8Valid bs
         else case bs of
                c # r1 \<Rightarrow>
                  if 194 \<le> n \<and> n \<le> 223 then isCont c \<and> utf8Valid r1
                  else (case r1 of
                          d # r2 \<Rightarrow>
                            if 224 \<le> n \<and> n \<le> 239
                            then isCont c \<and> isCont d \<and> (n = 224 \<longrightarrow> 160 \<le> unat c) \<and> (n = 237 \<longrightarrow> unat c \<le> 159) \<and> utf8Valid r2
                            else (case r2 of
                                    e # r3 \<Rightarrow> 240 \<le> n \<and> n \<le> 244 \<and> isCont c \<and> isCont d \<and> isCont e
                                      \<and> (n = 240 \<longrightarrow> 144 \<le> unat c) \<and> (n = 244 \<longrightarrow> unat c \<le> 143) \<and> utf8Valid r3
                                  | [] \<Rightarrow> False)
                        | [] \<Rightarrow> False)
              | [] \<Rightarrow> False)"

definition safeBase64Decode :: "string \<Rightarrow> decoded" where
  "safeBase64Decode b64 =
     (if b64 = [] then Narrow []
      else case atob b64 of
             None \<Rightarrow> Narrow b64
           | Some binary \<Rightarrow>
               (case utf8Decode (strToBytes binary) of
                  Some t \<Rightarrow> Narrow t
                | None \<Rightarrow> if utf8Valid (strToBytes binary) then Wide (strToBytes binary) else Narrow binary))"

definition encodePayload :: "string \<Rightarrow> string" where
  "encodePayload s = btoa (bytesToStr (textEncode s))"

section \<open>State\<close>

datatype gwKind = KMessage | KStatus | KTyping | KReceipt | KEphemeral | KReaction | KCall | KDelete | KEdit | KPin

text \<open>A value handed to a handler: a member of the frame, the result of \<open>Number(\<dots>)\<close> on one, or a decoded text.\<close>

datatype gwValue = Val "json option" | NumberOf json | DecodedText decoded

type_synonym notice = "gwKind \<times> (string \<times> gwValue) list"

datatype gwTimer = GwPing | GwReconnect | GwDrain | GwAckTimeout string nat

datatype gwResult = AckSeq json | NotOpen | AckTimedOut

record gwState = "json network" +
  gwCurrent :: "nat option"
  gwAttempts :: nat
  gwHandlers :: "(gwKind \<times> nat) list"
  gwAcks :: "(nat \<times> nat) jsmap"
  pingTimer :: "nat option"
  isExplicitDisconnect :: bool
  gwTimers :: "(nat \<times> gwTimer) list"
  gwNextTimer :: nat
  gwLastDelay :: int
  gwPromises :: nat
  gwSettled :: "(nat \<times> gwResult) list"
  gwLog :: "(nat \<times> notice) list"

definition gwInitial :: gwState where
  "gwInitial = \<lparr>socks = [], wire = [], gwCurrent = None, gwAttempts = 0, gwHandlers = [], gwAcks = [], pingTimer = None,
     isExplicitDisconnect = False, gwTimers = [], gwNextTimer = 0, gwLastDelay = 0, gwPromises = 0, gwSettled = [], gwLog = []\<rparr>"

text \<open>What the environment decides when a connection is tried: the token, whether the socket can be
  created, and the random number of a reconnection delay.\<close>

record gwChance =
  authTokenNow :: "string option"
  socketCreated :: bool
  random :: rat

section \<open>Handlers\<close>

definition dispatch :: "gwKind \<Rightarrow> (string \<times> gwValue) list \<Rightarrow> gwState \<Rightarrow> gwState" where
  "dispatch k fs s =
     s\<lparr>gwLog := gwLog s @ map (\<lambda>h. (snd h, k, fs)) (filter (\<lambda>h. fst h = k) (gwHandlers s))\<rparr>"

definition setStatus :: "bool \<Rightarrow> gwState \<Rightarrow> gwState" where
  "setStatus b s = dispatch KStatus [(''connected'', Val (Some (JBool b)))] s"

definition isConnected :: "gwState \<Rightarrow> bool" where
  "isConnected s = isOpen (gwCurrent s) s"

definition gwOn :: "gwKind \<Rightarrow> nat \<Rightarrow> gwState \<Rightarrow> gwState" where
  "gwOn k h s =
     (let s1 = (if (k, h) \<in> set (gwHandlers s) then s else s\<lparr>gwHandlers := gwHandlers s @ [(k, h)]\<rparr>)
      in if k = KStatus
         then s1\<lparr>gwLog := gwLog s1 @ [(h, KStatus, [(''connected'', Val (Some (JBool (isConnected s1))))])]\<rparr>
         else s1)"

definition gwOff :: "gwKind \<Rightarrow> nat \<Rightarrow> gwState \<Rightarrow> gwState" where
  "gwOff k h s = s\<lparr>gwHandlers := filter (\<lambda>x. x \<noteq> (k, h)) (gwHandlers s)\<rparr>"

section \<open>Timers and connections\<close>

definition gwSetTimer :: "gwTimer \<Rightarrow> gwState \<Rightarrow> gwState" where
  "gwSetTimer t s = s\<lparr>gwTimers := gwTimers s @ [(gwNextTimer s, t)], gwNextTimer := gwNextTimer s + 1\<rparr>"

definition gwClearTimer :: "nat \<Rightarrow> gwState \<Rightarrow> gwState" where
  "gwClearTimer k s = s\<lparr>gwTimers := filter (\<lambda>t. fst t \<noteq> k) (gwTimers s)\<rparr>"

definition stopHeartbeat :: "gwState \<Rightarrow> gwState" where
  "stopHeartbeat s =
     (case pingTimer s of None \<Rightarrow> s | Some k \<Rightarrow> (gwClearTimer k s)\<lparr>pingTimer := None\<rparr>)"

definition gwStartHeartbeat :: "gwState \<Rightarrow> gwState" where
  "gwStartHeartbeat s = (let s1 = stopHeartbeat s in (gwSetTimer GwPing s1)\<lparr>pingTimer := Some (gwNextTimer s1)\<rparr>)"

definition gwDelay :: "nat \<Rightarrow> rat \<Rightarrow> int" where
  "gwDelay attempts u = jittered 500 (min (2000 * (3 / 2) ^ (attempts - 1)) 30000) u"

definition gwScheduleReconnect :: "rat \<Rightarrow> gwState \<Rightarrow> gwState" where
  "gwScheduleReconnect u s =
     (if gwAttempts s < 10
      then gwSetTimer GwReconnect (s\<lparr>gwAttempts := gwAttempts s + 1, gwLastDelay := gwDelay (gwAttempts s + 1) u\<rparr>)
      else s)"

definition gwConnect :: "string \<Rightarrow> gwChance \<Rightarrow> gwState \<Rightarrow> gwState" where
  "gwConnect gatewayUrl c s =
     (let s1 = s\<lparr>isExplicitDisconnect := False\<rparr>
      in case authTokenNow c of
           None \<Rightarrow> setStatus False s1
         | Some token \<Rightarrow>
             if token = [] then setStatus False s1
             else if socketCreated c
             then (newSocket (gatewayUrl @ ''?token='' @ encodeURIComponent token) s1)\<lparr>gwCurrent := Some (length (socks s1))\<rparr>
             else gwScheduleReconnect (random c) s1)"

definition gwDisconnect :: "gwState \<Rightarrow> gwState" where
  "gwDisconnect s =
     (let s1 = stopHeartbeat (s\<lparr>isExplicitDisconnect := True\<rparr>);
          s2 = (case gwCurrent s1 of None \<Rightarrow> s1 | Some i \<Rightarrow> (closeSocket (Some i) s1)\<lparr>gwCurrent := None\<rparr>)
      in setStatus False s2)"

definition gwOpened :: "nat \<Rightarrow> gwState \<Rightarrow> gwState" where
  "gwOpened i s =
     (if stateOf i s = CONNECTING
      then gwStartHeartbeat (setStatus True ((setState i OPEN s)\<lparr>gwAttempts := 0\<rparr>)) else s)"

definition gwClosed :: "nat \<Rightarrow> rat \<Rightarrow> gwState \<Rightarrow> gwState" where
  "gwClosed i u s =
     (if stateOf i s \<noteq> CLOSED
      then (let s1 = stopHeartbeat (setStatus False (setState i CLOSED s))
            in if \<not> isExplicitDisconnect s1 then gwScheduleReconnect u s1 else s1)
      else s)"

definition gwError :: "gwState \<Rightarrow> gwState" where
  "gwError s = setStatus False s"

section \<open>Sending\<close>

text \<open>Every sender but \<open>sendEnvelope\<close> drops its frame when the socket is not open.\<close>

definition sendRaw :: "json \<Rightarrow> gwState \<Rightarrow> gwState" where
  "sendRaw frame s = (if isConnected s then transmit (the (gwCurrent s)) frame s else s)"

definition sendGroupCommit :: "string \<Rightarrow> int \<Rightarrow> string \<Rightarrow> gwState \<Rightarrow> gwState" where
  "sendGroupCommit channelId epoch commitDataBase64 s =
     sendRaw (jobj [(''action'', Some (JStr ''group_commit'')), (''channel_id'', Some (JStr channelId)),
       (''epoch'', Some (JNum epoch)), (''commit_data'', Some (JStr commitDataBase64))]) s"

definition fetchHistory :: "string \<Rightarrow> int \<Rightarrow> gwState \<Rightarrow> gwState" where
  "fetchHistory channelId limit s =
     sendRaw (jobj [(''action'', Some (JStr ''fetch_history'')), (''channel_id'', Some (JStr channelId)),
       (''limit'', Some (JNum limit))]) s"

definition sendReaction :: "string \<Rightarrow> string \<Rightarrow> string \<Rightarrow> string \<Rightarrow> gwState \<Rightarrow> gwState" where
  "sendReaction channelId targetId emoji rop s =
     sendRaw (jobj [(''action'', Some (JStr ''reaction'')), (''channel_id'', Some (JStr channelId)),
       (''target_id'', Some (JStr targetId)), (''emoji'', Some (JStr emoji)), (''op'', Some (JStr rop))]) s"

definition sendDeleteMessage :: "string \<Rightarrow> string \<Rightarrow> string \<Rightarrow> gwState \<Rightarrow> gwState" where
  "sendDeleteMessage channelId messageId scope s =
     sendRaw (jobj [(''action'', Some (JStr ''delete_message'')), (''channel_id'', Some (JStr channelId)),
       (''message_id'', Some (JStr messageId)), (''delete_scope'', Some (JStr scope))]) s"

definition sendEditMessage :: "string \<Rightarrow> string \<Rightarrow> string \<Rightarrow> gwState \<Rightarrow> gwState" where
  "sendEditMessage channelId messageId ciphertextB64 s =
     sendRaw (jobj [(''action'', Some (JStr ''edit_message'')), (''channel_id'', Some (JStr channelId)),
       (''message_id'', Some (JStr messageId)), (''ciphertext_base64'', Some (JStr ciphertextB64))]) s"

definition sendPinMessage :: "string \<Rightarrow> string \<Rightarrow> string \<Rightarrow> gwState \<Rightarrow> gwState" where
  "sendPinMessage channelId messageId pop s =
     sendRaw (jobj [(''action'', Some (JStr ''pin_message'')), (''channel_id'', Some (JStr channelId)),
       (''message_id'', Some (JStr messageId)), (''op'', Some (JStr pop))]) s"

definition sendTyping :: "string \<Rightarrow> bool \<Rightarrow> gwState \<Rightarrow> gwState" where
  "sendTyping channelId isTyping s =
     sendRaw (jobj [(''action'', Some (JStr ''typing'')), (''channel_id'', Some (JStr channelId)),
       (''is_typing'', Some (JBool isTyping))]) s"

definition sendReadReceipt :: "string \<Rightarrow> string \<Rightarrow> int \<Rightarrow> gwState \<Rightarrow> gwState" where
  "sendReadReceipt channelId serverId seqNum s =
     sendRaw (jobj [(''action'', Some (JStr ''read_receipt'')), (''channel_id'', Some (JStr channelId)),
       (''server_id'', Some (JStr serverId)), (''sequence_num'', Some (JNum seqNum))]) s"

definition sendDeliveryReceipt :: "string \<Rightarrow> string \<Rightarrow> int \<Rightarrow> gwState \<Rightarrow> gwState" where
  "sendDeliveryReceipt channelId serverId seqNum s =
     sendRaw (jobj [(''action'', Some (JStr ''ack_receipt'')), (''receipt_type'', Some (JStr ''delivered'')),
       (''channel_id'', Some (JStr channelId)), (''server_id'', Some (JStr serverId)),
       (''message_id'', Some (JStr serverId)), (''sequence_num'', Some (JNum seqNum))]) s"

definition sendEphemeralSetting :: "string \<Rightarrow> int \<Rightarrow> gwState \<Rightarrow> gwState" where
  "sendEphemeralSetting channelId ttl s =
     sendRaw (jobj [(''action'', Some (JStr ''ephemeral_setting'')), (''channel_id'', Some (JStr channelId)),
       (''ephemeral_ttl_sec'', Some (JNum ttl))]) s"

record CallSignalEvent =
  signalType :: string
  callId :: string
  signalChannelId :: "string option"
  targetUserId :: "string option"
  callType :: "string option"
  sdp :: "string option"
  candidate :: "json option"

definition sendCallSignal :: "CallSignalEvent \<Rightarrow> gwState \<Rightarrow> gwState" where
  "sendCallSignal ev s =
     sendRaw (jobj [(''action'', Some (JStr ''call_signal'')), (''signal_type'', Some (JStr (signalType ev))),
       (''call_id'', Some (JStr (callId ev))), (''channel_id'', map_option JStr (signalChannelId ev)),
       (''target_user_id'', map_option JStr (targetUserId ev)),
       (''call_type'', jsonOr (map_option JStr (callType ev)) (Some (JStr ''video''))),
       (''sdp'', map_option JStr (sdp ev)), (''candidate'', candidate ev)]) s"

record outEnvelope =
  envChannelId :: "string option"
  envClientMsgId :: "string option"
  envMessageType :: "int option"
  envCiphertext :: "string option"
  envTtl :: "int option"
  envReplyTo :: "string option"

text \<open>\<open>generated\<close> is the identifier made of the clock and a random number.\<close>

definition envelopeMsgId :: "outEnvelope \<Rightarrow> string \<Rightarrow> string" where
  "envelopeMsgId e generated = (case envClientMsgId e of Some x \<Rightarrow> if x \<noteq> [] then x else generated | None \<Rightarrow> generated)"

definition envelopeFrame :: "outEnvelope \<Rightarrow> string \<Rightarrow> json" where
  "envelopeFrame e clientMsgId =
     jobj [(''action'', Some (JStr ''send_message'')), (''channel_id'', map_option JStr (envChannelId e)),
       (''client_msg_id'', Some (JStr clientMsgId)),
       (''ciphertext_base64'', Some (JStr (encodePayload (case envCiphertext e of Some t \<Rightarrow> t | None \<Rightarrow> [])))),
       (''message_type'', jsonOr (map_option JNum (envMessageType e)) (Some (JNum 1))),
       (''ephemeral_ttl_sec'', if jsonTruthy (map_option JNum (envTtl e)) then map_option JNum (envTtl e) else None),
       (''reply_to_message_id'', if jsonTruthy (map_option JStr (envReplyTo e)) then map_option JStr (envReplyTo e) else None)]"

text \<open>The promise of the \<open>n\<close>-th call has the number \<open>n\<close>; a resolver knows its timeout and its promise.\<close>

definition sendEnvelope :: "outEnvelope \<Rightarrow> string \<Rightarrow> gwState \<Rightarrow> gwState" where
  "sendEnvelope e generated s =
     (let p = gwPromises s; s0 = s\<lparr>gwPromises := p + 1\<rparr>
      in if \<not> isConnected s0 then s0\<lparr>gwSettled := gwSettled s0 @ [(p, NotOpen)]\<rparr>
         else let clientMsgId = envelopeMsgId e generated;
                  k = gwNextTimer s0;
                  s1 = gwSetTimer (GwAckTimeout clientMsgId p) s0;
                  s2 = s1\<lparr>gwAcks := jsSet clientMsgId (k, p) (gwAcks s1)\<rparr>
              in transmit (the (gwCurrent s2)) (envelopeFrame e clientMsgId) s2)"

section \<open>Receiving\<close>

text \<open>An acknowledgement: the resolver clears its timeout and resolves, then the entry goes.\<close>

definition gwAck :: "json \<Rightarrow> gwState \<Rightarrow> gwState" where
  "gwAck raw s =
     (case jsonOr (member raw ''client_msg_id'') (member raw ''clientMsgId'') of
        Some (JStr x) \<Rightarrow>
          if x = [] then s
          else (case jsGet (gwAcks s) x of
                  None \<Rightarrow> s
                | Some (k, p) \<Rightarrow>
                    let q = (case coalesce (coalesce (member raw ''sequence_num'') (member raw ''sequenceNum'')) (Some (JNum 0)) of
                               Some v \<Rightarrow> v | None \<Rightarrow> JNull);
                        s1 = gwClearTimer k s;
                        s2 = s1\<lparr>gwSettled := gwSettled s1 @ [(p, AckSeq q)]\<rparr>
                    in s2\<lparr>gwAcks := jsDelete x (gwAcks s2)\<rparr>)
      | _ \<Rightarrow> s)"

definition fieldOf :: "json \<Rightarrow> string \<Rightarrow> string \<Rightarrow> json option" where
  "fieldOf raw snake camel = jsonOr (member raw snake) (member raw camel)"

definition decodedField :: "json \<Rightarrow> gwValue" where
  "decodedField m =
     (case member m ''ciphertext_base64'' of
        Some (JStr b64) \<Rightarrow> DecodedText (safeBase64Decode b64)
      | v \<Rightarrow> if jsonTruthy v then Val v else DecodedText (Narrow []))"

definition numberUnlessNull :: "json option \<Rightarrow> gwValue" where
  "numberUnlessNull v = (case v of None \<Rightarrow> Val None | Some JNull \<Rightarrow> Val None | Some j \<Rightarrow> NumberOf j)"

definition serverTime :: "json \<Rightarrow> int \<Rightarrow> json option" where
  "serverTime raw now = jsonOr (fieldOf raw ''server_time'' ''serverTime'') (Some (JNum now))"

text \<open>The frames of one kind each, by their type; \<open>now\<close> is \<open>Date.now()\<close>.\<close>

definition typeIs :: "json \<Rightarrow> string \<Rightarrow> bool" where
  "typeIs raw t \<longleftrightarrow> member raw ''type'' = Some (JStr t)"

definition typingNotice :: "json \<Rightarrow> (string \<times> gwValue) list" where
  "typingNotice raw = [(''channelId'', Val (member raw ''channel_id'')), (''userId'', Val (member raw ''user_id'')),
     (''isTyping'', Val (Some (JBool (jsonTruthy (member raw ''is_typing'')))))]"

definition receiptNotice :: "json \<Rightarrow> (string \<times> gwValue) list" where
  "receiptNotice raw = [(''channelId'', Val (member raw ''channel_id'')), (''userId'', Val (member raw ''user_id'')),
     (''serverId'', Val (jsonOr (member raw ''server_id'') (member raw ''message_id''))),
     (''sequenceNum'', Val (coalesce (member raw ''sequence_num'') (Some (JNum 0)))),
     (''receiptType'', Val (jsonOr (member raw ''receipt_type'')
        (Some (JStr (if typeIs raw ''read_receipt'' then ''read'' else ''delivered'')))))]"

definition callNotice :: "json \<Rightarrow> (string \<times> gwValue) list" where
  "callNotice raw = [(''signalType'', Val (member raw ''signal_type'')), (''callId'', Val (member raw ''call_id'')),
     (''channelId'', Val (member raw ''channel_id'')), (''senderId'', Val (member raw ''sender_id'')),
     (''targetUserId'', Val (member raw ''target_user_id'')),
     (''callType'', Val (jsonOr (member raw ''call_type'') (Some (JStr ''video'')))),
     (''sdp'', Val (member raw ''sdp'')), (''candidate'', Val (member raw ''candidate'')),
     (''serverTime'', Val (member raw ''server_time''))]"

definition ephemeralNotice :: "json \<Rightarrow> int \<Rightarrow> (string \<times> gwValue) list" where
  "ephemeralNotice raw now = [(''channelId'', Val (fieldOf raw ''channel_id'' ''channelId'')),
     (''ephemeralTtlSec'', NumberOf (case coalesce (coalesce (member raw ''ephemeral_ttl_sec'') (member raw ''ephemeralTtlSec''))
        (Some (JNum 0)) of Some v \<Rightarrow> v | None \<Rightarrow> JNum 0)),
     (''updatedBy'', Val (fieldOf raw ''updated_by'' ''updatedBy'')),
     (''updatedAt'', Val (jsonOr (fieldOf raw ''updated_at'' ''updatedAt'') (Some (JNum now))))]"

definition reactionNotice :: "json \<Rightarrow> int \<Rightarrow> (string \<times> gwValue) list" where
  "reactionNotice raw now = [(''channelId'', Val (fieldOf raw ''channel_id'' ''channelId'')),
     (''targetId'', Val (fieldOf raw ''target_id'' ''targetId'')), (''senderId'', Val (fieldOf raw ''sender_id'' ''senderId'')),
     (''emoji'', Val (member raw ''emoji'')), (''op'', Val (jsonOr (member raw ''op'') (Some (JStr ''add'')))),
     (''serverTime'', Val (serverTime raw now))]"

definition deleteNotice :: "json \<Rightarrow> int \<Rightarrow> (string \<times> gwValue) list" where
  "deleteNotice raw now = [(''channelId'', Val (fieldOf raw ''channel_id'' ''channelId'')),
     (''messageId'', Val (fieldOf raw ''message_id'' ''messageId'')), (''senderId'', Val (fieldOf raw ''sender_id'' ''senderId'')),
     (''deleteScope'', Val (jsonOr (fieldOf raw ''delete_scope'' ''deleteScope'') (Some (JStr ''everyone'')))),
     (''serverTime'', Val (serverTime raw now))]"

definition editNotice :: "json \<Rightarrow> int \<Rightarrow> (string \<times> gwValue) list" where
  "editNotice raw now = [(''channelId'', Val (fieldOf raw ''channel_id'' ''channelId'')),
     (''messageId'', Val (fieldOf raw ''message_id'' ''messageId'')), (''senderId'', Val (fieldOf raw ''sender_id'' ''senderId'')),
     (''ciphertext'', Val (jsonOr (fieldOf raw ''ciphertext_base64'' ''ciphertext'') (Some (JStr [])))),
     (''serverTime'', Val (serverTime raw now))]"

definition pinNotice :: "json \<Rightarrow> int \<Rightarrow> (string \<times> gwValue) list" where
  "pinNotice raw now = [(''channelId'', Val (fieldOf raw ''channel_id'' ''channelId'')),
     (''messageId'', Val (fieldOf raw ''message_id'' ''messageId'')), (''senderId'', Val (fieldOf raw ''sender_id'' ''senderId'')),
     (''op'', Val (jsonOr (member raw ''op'') (Some (JStr ''pin'')))), (''serverTime'', Val (serverTime raw now))]"

definition commitNotice :: "json \<Rightarrow> (string \<times> gwValue) list" where
  "commitNotice raw = [(''type'', Val (Some (JStr ''group_commit''))), (''channelId'', Val (fieldOf raw ''channel_id'' ''channelId'')),
     (''senderId'', Val (fieldOf raw ''sender_id'' ''senderId'')), (''sequenceNum'', Val (member raw ''epoch'')),
     (''ciphertext'', Val (fieldOf raw ''commit_data'' ''commitData''))]"

definition historyNotice :: "json \<Rightarrow> json \<Rightarrow> (string \<times> gwValue) list" where
  "historyNotice raw m = [(''type'', Val (Some (JStr ''message''))), (''channelId'', Val (member raw ''channel_id'')),
     (''senderId'', Val (member m ''sender_id'')), (''clientMsgId'', Val (fieldOf m ''client_msg_id'' ''server_id'')),
     (''sequenceNum'', Val (member m ''sequence_num'')), (''ciphertext'', decodedField m),
     (''ephemeralTtlSec'', numberUnlessNull (member m ''ephemeral_ttl_sec'')),
     (''replyToMessageId'', Val (fieldOf m ''reply_to_message_id'' ''replyToMessageId''))]"

definition pushNotice :: "json \<Rightarrow> (string \<times> gwValue) list" where
  "pushNotice raw = [(''type'', Val (Some (JStr ''message''))), (''channelId'', Val (member raw ''channel_id'')),
     (''senderId'', Val (member raw ''sender_id'')),
     (''clientMsgId'', Val (jsonOr (fieldOf raw ''client_msg_id'' ''clientMsgId'') (member raw ''server_id''))),
     (''sequenceNum'', Val (member raw ''server_time'')), (''messageType'', Val (member raw ''message_type'')),
     (''ciphertext'', decodedField raw), (''ephemeralTtlSec'', numberUnlessNull (member raw ''ephemeral_ttl_sec'')),
     (''replyToMessageId'', Val (fieldOf raw ''reply_to_message_id'' ''replyToMessageId''))]"

definition otherNotice :: "json \<Rightarrow> (string \<times> gwValue) list" where
  "otherNotice raw = [(''type'', Val (jsonOr (member raw ''type'') (Some (JStr ''message'')))),
     (''channelId'', Val (fieldOf raw ''channel_id'' ''channelId'')), (''senderId'', Val (fieldOf raw ''sender_id'' ''senderId'')),
     (''clientMsgId'', Val (jsonOr (fieldOf raw ''client_msg_id'' ''clientMsgId'') (member raw ''server_id''))),
     (''sequenceNum'', Val (coalesce (member raw ''sequence_num'') (member raw ''sequenceNum''))),
     (''messageType'', Val (coalesce (member raw ''message_type'') (member raw ''messageType''))),
     (''ciphertext'', Val (fieldOf raw ''ciphertext_base64'' ''ciphertext'')),
     (''ephemeralTtlSec'', numberUnlessNull (member raw ''ephemeral_ttl_sec'')),
     (''replyToMessageId'', Val (fieldOf raw ''reply_to_message_id'' ''replyToMessageId''))]"

text \<open>The messages of a history, oldest first; an element that is null throws and ends the loop.\<close>

fun historyLoop :: "json \<Rightarrow> json list \<Rightarrow> gwState \<Rightarrow> gwState" where
  "historyLoop raw [] s = s"
| "historyLoop raw (m # ms) s =
     (if m = JNull then s else historyLoop raw ms (dispatch KMessage (historyNotice raw m) s))"

definition gwFrame :: "json \<Rightarrow> int \<Rightarrow> gwState \<Rightarrow> gwState" where
  "gwFrame raw now s =
     (let s1 = (if typeIs raw ''ack'' then gwAck raw s else s)
      in if typeIs raw ''typing'' then dispatch KTyping (typingNotice raw) s1
         else if typeIs raw ''read_receipt'' \<or> typeIs raw ''receipt'' then dispatch KReceipt (receiptNotice raw) s1
         else if typeIs raw ''reconnect'' then gwSetTimer GwDrain s1
         else if typeIs raw ''error'' then s1
         else if typeIs raw ''call_signal'' then dispatch KCall (callNotice raw) s1
         else if typeIs raw ''ephemeral_setting'' then dispatch KEphemeral (ephemeralNotice raw now) s1
         else if typeIs raw ''reaction'' then dispatch KReaction (reactionNotice raw now) s1
         else if typeIs raw ''message_deleted'' then dispatch KDelete (deleteNotice raw now) s1
         else if typeIs raw ''message_edited'' then dispatch KEdit (editNotice raw now) s1
         else if typeIs raw ''message_pinned'' then dispatch KPin (pinNotice raw now) s1
         else if typeIs raw ''group_commit'' then dispatch KMessage (commitNotice raw) s1
         else case (typeIs raw ''history'', member raw ''messages'') of
                (True, Some (JArr ms)) \<Rightarrow> historyLoop raw (rev ms) s1
              | _ \<Rightarrow> dispatch KMessage (if typeIs raw ''push'' then pushNotice raw else otherNotice raw) s1)"

text \<open>A frame that is no JSON text, or the value null, throws and is dropped.\<close>

definition gwReceived :: "nat \<Rightarrow> json blob \<Rightarrow> int \<Rightarrow> gwState \<Rightarrow> gwState" where
  "gwReceived i raw now s =
     (if stateOf i s = OPEN \<or> stateOf i s = CLOSING
      then (case raw of Blob j \<Rightarrow> if j = JNull then s else gwFrame j now s | Garbage _ \<Rightarrow> s)
      else s)"

text \<open>A timer fires: the ping is an interval and stays, the others are gone.\<close>

definition gwFire :: "string \<Rightarrow> gwChance \<Rightarrow> nat \<Rightarrow> gwState \<Rightarrow> gwState" where
  "gwFire gatewayUrl c k s =
     (case map_of (gwTimers s) k of
        None \<Rightarrow> s
      | Some GwPing \<Rightarrow> sendRaw (jobj [(''action'', Some (JStr ''ping''))]) s
      | Some GwReconnect \<Rightarrow> gwConnect gatewayUrl c (gwClearTimer k s)
      | Some GwDrain \<Rightarrow> let s1 = gwClearTimer k s in gwScheduleReconnect (random c) (closeSocket (gwCurrent s1) s1)
      | Some (GwAckTimeout x p) \<Rightarrow>
          let s1 = gwClearTimer k s
          in s1\<lparr>gwAcks := jsDelete x (gwAcks s1), gwSettled := gwSettled s1 @ [(p, AckTimedOut)]\<rparr>)"

datatype gwEvent =
  GwConnect gwChance | GwDisconnect | GwOn gwKind nat | GwOff gwKind nat | GwSendEnvelope outEnvelope string | GwSendRaw json
| GwOpened nat | GwReceived nat "json blob" int | GwClosed nat rat | GwError | GwFire gwChance nat

fun gwStep :: "string \<Rightarrow> gwEvent \<Rightarrow> gwState \<Rightarrow> gwState" where
  "gwStep url (GwConnect c) s = gwConnect url c s"
| "gwStep url GwDisconnect s = gwDisconnect s"
| "gwStep url (GwOn k h) s = gwOn k h s"
| "gwStep url (GwOff k h) s = gwOff k h s"
| "gwStep url (GwSendEnvelope e g) s = sendEnvelope e g s"
| "gwStep url (GwSendRaw j) s = sendRaw j s"
| "gwStep url (GwOpened i) s = gwOpened i s"
| "gwStep url (GwReceived i raw now) s = gwReceived i raw now s"
| "gwStep url (GwClosed i u) s = gwClosed i u s"
| "gwStep url GwError s = gwError s"
| "gwStep url (GwFire c k) s = gwFire url c k s"

definition gwRun :: "string \<Rightarrow> gwEvent list \<Rightarrow> gwState" where
  "gwRun url es = fold (gwStep url) es gwInitial"

section \<open>Promises\<close>

text \<open>What the promises depend on, and the steps that leave it alone.\<close>

definition gwCalm :: "gwState \<Rightarrow> gwState \<Rightarrow> bool" where
  "gwCalm s s' \<longleftrightarrow> gwAcks s' = gwAcks s \<and> gwSettled s' = gwSettled s \<and> gwPromises s' = gwPromises s
     \<and> gwTimers s' = gwTimers s \<and> gwNextTimer s' = gwNextTimer s \<and> pingTimer s' = pingTimer s"

lemma gwCalm_refl [simp]: "gwCalm s s"
  by (simp add: gwCalm_def)

lemma gwCalm_trans: "gwCalm s s' \<Longrightarrow> gwCalm s' s'' \<Longrightarrow> gwCalm s s''"
  by (simp add: gwCalm_def)

lemma gwCalm_simps [simp]:
  "gwCalm s (dispatch k fs s)" "gwCalm s (setStatus b s)" "gwCalm s (gwOn k h s)" "gwCalm s (gwOff k h s)"
  "gwCalm s (sendRaw j s)" "gwCalm s (setState i st s)" "gwCalm s (closeSocket w s)" "gwCalm s (newSocket url s)"
  "gwCalm s (s\<lparr>gwCurrent := cur\<rparr>)" "gwCalm s (s\<lparr>isExplicitDisconnect := b\<rparr>)" "gwCalm s (s\<lparr>gwAttempts := n\<rparr>)"
  "gwCalm s (s\<lparr>gwAttempts := n, gwLastDelay := d\<rparr>)"
  by (simp_all add: gwCalm_def dispatch_def setStatus_def gwOn_def gwOff_def sendRaw_def transmit_def setState_def
      closeSocket_def newSocket_def Let_def split: option.splits)

lemma gwCalm_historyLoop [simp]: "gwCalm s (historyLoop raw ms s)"
proof (induction ms arbitrary: s)
  case (Cons m ms)
  then show ?case
    using gwCalm_trans [OF gwCalm_simps(1) Cons.IH [of "dispatch KMessage (historyNotice raw m) s"]] by simp
qed simp

definition gwTimersOk :: "gwState \<Rightarrow> bool" where
  "gwTimersOk s \<longleftrightarrow> distinct (map fst (gwTimers s)) \<and> (\<forall>k t. (k, t) \<in> set (gwTimers s) \<longrightarrow> k < gwNextTimer s)
     \<and> (\<forall>k t. pingTimer s = Some k \<longrightarrow> k < gwNextTimer s \<and> ((k, t) \<in> set (gwTimers s) \<longrightarrow> t = GwPing))"

text \<open>
  An entry belongs to a running timeout; a running timeout belongs to an unsettled promise, and to
  no other timeout's promise; every promise has a running timeout or was settled once.
\<close>

definition gwPromisesOk :: "gwState \<Rightarrow> bool" where
  "gwPromisesOk s \<longleftrightarrow>
     (\<forall>x k p. jsGet (gwAcks s) x = Some (k, p) \<longrightarrow> (k, GwAckTimeout x p) \<in> set (gwTimers s))
     \<and> (\<forall>k x p. (k, GwAckTimeout x p) \<in> set (gwTimers s) \<longrightarrow> p < gwPromises s \<and> filter (\<lambda>q. fst q = p) (gwSettled s) = [])
     \<and> (\<forall>k x p k' x'. (k, GwAckTimeout x p) \<in> set (gwTimers s) \<longrightarrow> (k', GwAckTimeout x' p) \<in> set (gwTimers s) \<longrightarrow> k = k')
     \<and> (\<forall>p r. (p, r) \<in> set (gwSettled s) \<longrightarrow> p < gwPromises s)
     \<and> (\<forall>p < gwPromises s. (\<exists>k x. (k, GwAckTimeout x p) \<in> set (gwTimers s))
          \<or> (\<exists>r. filter (\<lambda>q. fst q = p) (gwSettled s) = [(p, r)]))"

definition gwInv :: "gwState \<Rightarrow> bool" where
  "gwInv s \<longleftrightarrow> gwTimersOk s \<and> gwPromisesOk s"

lemma gwInv_calm: "gwCalm s s' \<Longrightarrow> gwInv s \<Longrightarrow> gwInv s'"
  unfolding gwCalm_def gwInv_def gwTimersOk_def gwPromisesOk_def by (elim conjE) (simp only: simp_thms)

text \<open>Timers that are no timeouts of \<open>sendEnvelope\<close>.\<close>

lemma gwPromisesOk_timers:
  assumes "gwPromisesOk s" "gwAcks s' = gwAcks s" "gwSettled s' = gwSettled s" "gwPromises s' = gwPromises s"
    and "\<And>k x p. (k, GwAckTimeout x p) \<in> set (gwTimers s') \<longleftrightarrow> (k, GwAckTimeout x p) \<in> set (gwTimers s)"
  shows "gwPromisesOk s'"
  using assms(1) unfolding gwPromisesOk_def assms(2-5) .

lemma gwInv_setTimer:
  assumes "gwInv s" "\<And>x p. t \<noteq> GwAckTimeout x p"
  shows "gwInv (gwSetTimer t s)" "t = GwPing \<Longrightarrow> gwInv ((gwSetTimer t s)\<lparr>pingTimer := Some (gwNextTimer s)\<rparr>)"
proof -
  have t: "distinct (map fst (gwTimers s))" "\<And>k t. (k, t) \<in> set (gwTimers s) \<Longrightarrow> k < gwNextTimer s"
    "\<And>k t. pingTimer s = Some k \<Longrightarrow> (k, t) \<in> set (gwTimers s) \<Longrightarrow> t = GwPing"
    "\<And>k. pingTimer s = Some k \<Longrightarrow> k < gwNextTimer s"
    and p: "gwPromisesOk s"
    using assms(1) unfolding gwInv_def gwTimersOk_def by blast+
  have ne: "GwAckTimeout x q \<noteq> t" for x q using assms(2) by metis
  have d: "distinct (map fst (gwTimers s @ [(gwNextTimer s, t)]))" using t(1,2) by fastforce
  have pr: "gwPromisesOk (gwSetTimer t s)" "gwPromisesOk ((gwSetTimer t s)\<lparr>pingTimer := Some (gwNextTimer s)\<rparr>)"
    by (auto intro!: gwPromisesOk_timers [OF p] simp: gwSetTimer_def ne)
  show "gwInv (gwSetTimer t s)"
    using d pr t unfolding gwInv_def gwTimersOk_def by (auto simp: gwSetTimer_def less_Suc_eq)
  show "gwInv ((gwSetTimer t s)\<lparr>pingTimer := Some (gwNextTimer s)\<rparr>)" if "t = GwPing"
    using d pr t(2) that unfolding gwInv_def gwTimersOk_def by (auto simp: gwSetTimer_def less_Suc_eq)
qed

lemma gwTimersOk_filter:
  "gwTimersOk s \<Longrightarrow> gwTimersOk (gwClearTimer k s)" "gwTimersOk s \<Longrightarrow> gwTimersOk ((gwClearTimer k s)\<lparr>pingTimer := None\<rparr>)"
  unfolding gwTimersOk_def gwClearTimer_def by (auto simp: distinct_map_filter)

lemma gwTimersOk_key:
  "gwTimersOk s \<Longrightarrow> (k, t) \<in> set (gwTimers s) \<Longrightarrow> (k, t') \<in> set (gwTimers s) \<Longrightarrow> t = t'"
  unfolding gwTimersOk_def by (blast dest: eq_key_imp_eq_value)

lemma gwInv_stopHeartbeat: "gwInv s \<Longrightarrow> gwInv (stopHeartbeat s)"
proof (cases "pingTimer s")
  case (Some k)
  assume "gwInv s"
  then have t: "gwTimersOk s" and p: "gwPromisesOk s" by (simp_all add: gwInv_def)
  have "(k, u) \<in> set (gwTimers s) \<Longrightarrow> u = GwPing" for u using t Some unfolding gwTimersOk_def by blast
  then have "gwPromisesOk ((gwClearTimer k s)\<lparr>pingTimer := None\<rparr>)"
    by (intro gwPromisesOk_timers [OF p]) (auto simp: gwClearTimer_def)
  with Some t show ?thesis by (simp add: stopHeartbeat_def gwInv_def gwTimersOk_filter)
qed (simp add: stopHeartbeat_def)

lemma gwInv_clearOther:
  assumes "gwInv s" "(k, t) \<in> set (gwTimers s)" "\<And>x p. t \<noteq> GwAckTimeout x p"
  shows "gwInv (gwClearTimer k s)"
proof -
  have t: "gwTimersOk s" and p: "gwPromisesOk s" using assms(1) by (simp_all add: gwInv_def)
  have "gwPromisesOk (gwClearTimer k s)"
    using gwTimersOk_key [OF t assms(2)] assms(3)
    by (intro gwPromisesOk_timers [OF p]) (auto simp: gwClearTimer_def)
  with t show ?thesis by (simp add: gwInv_def gwTimersOk_filter)
qed

lemma gwInv_scheduleReconnect: "gwInv s \<Longrightarrow> gwInv (gwScheduleReconnect u s)"
  unfolding gwScheduleReconnect_def
  by (auto intro!: gwInv_setTimer(1) elim: gwInv_calm [OF gwCalm_simps(12)])

lemma gwInv_startHeartbeat: "gwInv s \<Longrightarrow> gwInv (gwStartHeartbeat s)"
  unfolding gwStartHeartbeat_def Let_def by (intro gwInv_setTimer(2) gwInv_stopHeartbeat) simp_all

text \<open>A timeout ends together with its promise: by an acknowledgement or by firing.\<close>

lemma gwInv_settle:
  assumes "gwInv s" "(k, GwAckTimeout x p) \<in> set (gwTimers s)"
  shows "gwInv ((gwClearTimer k s)\<lparr>gwAcks := jsDelete x (gwAcks s), gwSettled := gwSettled s @ [(p, r)]\<rparr>)"
proof -
  let ?s = "(gwClearTimer k s)\<lparr>gwAcks := jsDelete x (gwAcks s), gwSettled := gwSettled s @ [(p, r)]\<rparr>"
  have t: "gwTimersOk s"
    and acks: "\<And>x k p. jsGet (gwAcks s) x = Some (k, p) \<Longrightarrow> (k, GwAckTimeout x p) \<in> set (gwTimers s)"
    and arm: "\<And>k x p. (k, GwAckTimeout x p) \<in> set (gwTimers s) \<Longrightarrow> p < gwPromises s \<and> filter (\<lambda>q. fst q = p) (gwSettled s) = []"
    and one: "\<And>k x p k' x'. (k, GwAckTimeout x p) \<in> set (gwTimers s) \<Longrightarrow> (k', GwAckTimeout x' p) \<in> set (gwTimers s) \<Longrightarrow> k = k'"
    and set: "\<And>p r. (p, r) \<in> set (gwSettled s) \<Longrightarrow> p < gwPromises s"
    and each: "\<And>p. p < gwPromises s \<Longrightarrow> (\<exists>k x. (k, GwAckTimeout x p) \<in> set (gwTimers s))
          \<or> (\<exists>r. filter (\<lambda>q. fst q = p) (gwSettled s) = [(p, r)])"
    using assms(1) unfolding gwInv_def gwPromisesOk_def by blast+
  have timers: "(j, u) \<in> set (gwTimers ?s) \<longleftrightarrow> (j, u) \<in> set (gwTimers s) \<and> j \<noteq> k" for j u
    by (auto simp: gwClearTimer_def)
  have key: "(k, u) \<in> set (gwTimers s) \<Longrightarrow> u = GwAckTimeout x p" for u
    using gwTimersOk_key [OF t assms(2)] by blast
  have st: "gwSettled ?s = gwSettled s @ [(p, r)]" "gwPromises ?s = gwPromises s" "gwAcks ?s = jsDelete x (gwAcks s)"
    by (simp_all add: gwClearTimer_def)
  have "gwPromisesOk ?s"
    unfolding gwPromisesOk_def timers st
  proof (intro conjI allI impI)
    fix y j q assume "jsGet (jsDelete x (gwAcks s)) y = Some (j, q)"
    then show "(j, GwAckTimeout y q) \<in> set (gwTimers s)" "j \<noteq> k"
      using acks [of y j q] key [of "GwAckTimeout y q"] by (auto split: if_splits)
  next
    fix j y q assume "(j, GwAckTimeout y q) \<in> set (gwTimers s) \<and> j \<noteq> k"
    then show "q < gwPromises s" "filter (\<lambda>z. fst z = q) (gwSettled s @ [(p, r)]) = []"
      using arm [of j y q] one [of j y q k x] assms(2) by auto
  next
    fix q assume q: "q < gwPromises s"
    show "(\<exists>j y. (j, GwAckTimeout y q) \<in> set (gwTimers s) \<and> j \<noteq> k)
        \<or> (\<exists>ra. filter (\<lambda>z. fst z = q) (gwSettled s @ [(p, r)]) = [(q, ra)])"
    proof (cases "q = p")
      case True
      then show ?thesis using arm [OF assms(2)] by simp
    next
      case False
      then show ?thesis using each [OF q] key by fastforce
    qed
  qed (use one set arm [OF assms(2)] in auto)
  moreover have "gwTimersOk ?s"
    using gwTimersOk_filter(1) [OF t, of k] unfolding gwTimersOk_def by simp
  ultimately show ?thesis by (simp add: gwInv_def)
qed

lemma gwInv_ack:
  assumes "gwInv s"
  shows "gwInv (gwAck raw s)"
proof -
  have "gwInv (let s1 = gwClearTimer k s; s2 = s1\<lparr>gwSettled := gwSettled s1 @ [(p, AckSeq q)]\<rparr>
      in s2\<lparr>gwAcks := jsDelete x (gwAcks s2)\<rparr>)" if "jsGet (gwAcks s) x = Some (k, p)" for x k p q
  proof -
    have "(k, GwAckTimeout x p) \<in> set (gwTimers s)" using assms that unfolding gwInv_def gwPromisesOk_def by blast
    from gwInv_calm [OF _ gwInv_settle [OF assms this, of "AckSeq q"]] show ?thesis
      by (simp add: Let_def gwClearTimer_def gwCalm_def)
  qed
  with assms show ?thesis by (auto simp: gwAck_def Let_def split: option.splits json.splits)
qed

lemma gwInv_frame:
  assumes "gwInv s"
  shows "gwInv (gwFrame raw now s)"
proof -
  define s1 where "s1 = (if typeIs raw ''ack'' then gwAck raw s else s)"
  have s1: "gwInv s1" using assms by (simp add: s1_def gwInv_ack)
  have d: "gwInv (dispatch k fs s1)" for k fs by (rule gwInv_calm [OF gwCalm_simps(1) s1])
  have h: "gwInv (historyLoop raw ms s1)" for ms by (rule gwInv_calm [OF gwCalm_historyLoop s1])
  have g: "gwInv (gwSetTimer GwDrain s1)" by (rule gwInv_setTimer(1) [OF s1]) simp
  show ?thesis
    unfolding gwFrame_def Let_def s1_def [symmetric]
    by (simp add: d h g s1 split: bool.split option.split json.split)
qed

lemma isConnected_gwPromises [simp]: "isConnected (s\<lparr>gwPromises := n\<rparr>) = isConnected s"
  by (simp add: isConnected_def isOpen_def stateOf_def split: option.split)

lemma gwInv_sendEnvelope:
  assumes "gwInv s"
  shows "gwInv (sendEnvelope e g s)"
proof -
  let ?p = "gwPromises s" and ?x = "envelopeMsgId e g" and ?k = "gwNextTimer s"
  have t: "distinct (map fst (gwTimers s))" "\<And>k t. (k, t) \<in> set (gwTimers s) \<Longrightarrow> k < ?k"
      "\<And>k t. pingTimer s = Some k \<Longrightarrow> (k, t) \<in> set (gwTimers s) \<Longrightarrow> t = GwPing" "\<And>k. pingTimer s = Some k \<Longrightarrow> k < ?k"
    and acks: "\<And>x k p. jsGet (gwAcks s) x = Some (k, p) \<Longrightarrow> (k, GwAckTimeout x p) \<in> set (gwTimers s)"
    and arm: "\<And>k x p. (k, GwAckTimeout x p) \<in> set (gwTimers s) \<Longrightarrow> p < ?p"
      "\<And>k x p. (k, GwAckTimeout x p) \<in> set (gwTimers s) \<Longrightarrow> filter (\<lambda>q. fst q = p) (gwSettled s) = []"
    and one: "\<And>k x p k' x'. (k, GwAckTimeout x p) \<in> set (gwTimers s) \<Longrightarrow> (k', GwAckTimeout x' p) \<in> set (gwTimers s) \<Longrightarrow> k = k'"
    and set: "\<And>p r. (p, r) \<in> set (gwSettled s) \<Longrightarrow> p < ?p"
    and each: "\<And>p. p < ?p \<Longrightarrow> (\<exists>k x. (k, GwAckTimeout x p) \<in> set (gwTimers s))
          \<or> (\<exists>r. filter (\<lambda>q. fst q = p) (gwSettled s) = [(p, r)])"
    using assms unfolding gwInv_def gwTimersOk_def gwPromisesOk_def by blast+
  have none: "filter (\<lambda>q. fst q = ?p) (gwSettled s) = []" using set by (fastforce simp: filter_empty_conv)
  show ?thesis
  proof (cases "isConnected s")
    case False
    let ?s = "s\<lparr>gwPromises := ?p + 1, gwSettled := gwSettled s @ [(?p, NotOpen)]\<rparr>"
    have "gwPromisesOk ?s"
      unfolding gwPromisesOk_def
    proof (intro conjI allI impI)
      fix q assume "q < gwPromises ?s"
      then show "(\<exists>k x. (k, GwAckTimeout x q) \<in> set (gwTimers ?s)) \<or> (\<exists>r. filter (\<lambda>z. fst z = q) (gwSettled ?s) = [(q, r)])"
        using each [of q] none by (cases "q = ?p") (auto simp: less_Suc_eq)
    next
      fix k x p assume "(k, GwAckTimeout x p) \<in> set (gwTimers ?s)"
      then show "p < gwPromises ?s" "filter (\<lambda>q. fst q = p) (gwSettled ?s) = []"
        using arm [of k x p] by auto
    qed (use acks one set in \<open>auto simp: less_Suc_eq\<close>)
    moreover have "gwTimersOk ?s" using t unfolding gwTimersOk_def by simp
    moreover have "sendEnvelope e g s = ?s"
      using False by (simp add: sendEnvelope_def Let_def)
    ultimately show ?thesis by (simp add: gwInv_def)
  next
    case True
    let ?s = "s\<lparr>gwPromises := ?p + 1, gwTimers := gwTimers s @ [(?k, GwAckTimeout ?x ?p)], gwNextTimer := ?k + 1,
      gwAcks := jsSet ?x (?k, ?p) (gwAcks s)\<rparr>"
    have timers: "(k, u) \<in> set (gwTimers ?s) \<longleftrightarrow> (k, u) \<in> set (gwTimers s) \<or> (k = ?k \<and> u = GwAckTimeout ?x ?p)" for k u
      by auto
    have "gwPromisesOk ?s"
      unfolding gwPromisesOk_def timers
    proof (intro conjI allI impI)
      fix q assume "q < gwPromises ?s"
      then show "(\<exists>k x. (k, GwAckTimeout x q) \<in> set (gwTimers s) \<or> (k = ?k \<and> GwAckTimeout x q = GwAckTimeout ?x ?p))
          \<or> (\<exists>r. filter (\<lambda>z. fst z = q) (gwSettled ?s) = [(q, r)])"
        using each [of q] by (cases "q = ?p") (auto simp: less_Suc_eq)
    next
      fix k x p assume "(k, GwAckTimeout x p) \<in> set (gwTimers s) \<or> (k = ?k \<and> GwAckTimeout x p = GwAckTimeout ?x ?p)"
      then show "p < gwPromises ?s" "filter (\<lambda>q. fst q = p) (gwSettled ?s) = []"
        using arm [of k x p] none by auto
    next
      fix k x p k' x'
      assume "(k, GwAckTimeout x p) \<in> set (gwTimers s) \<or> (k = ?k \<and> GwAckTimeout x p = GwAckTimeout ?x ?p)"
        "(k', GwAckTimeout x' p) \<in> set (gwTimers s) \<or> (k' = ?k \<and> GwAckTimeout x' p = GwAckTimeout ?x ?p)"
      then show "k = k'" using arm(1) [of k x p] arm(1) [of k' x' p] one by auto
    qed (use acks set in \<open>auto simp: less_Suc_eq split: if_splits\<close>)
    moreover have "gwTimersOk ?s"
      using t unfolding gwTimersOk_def timers by (fastforce simp: less_Suc_eq)
    ultimately have "gwInv ?s" by (simp add: gwInv_def)
    moreover have "gwCalm ?s (sendEnvelope e g s)"
      using True by (simp add: sendEnvelope_def Let_def gwSetTimer_def transmit_def gwCalm_def)
    ultimately show ?thesis by (rule gwInv_calm [rotated])
  qed
qed

lemma gwInv_connect:
  assumes "gwInv s"
  shows "gwInv (gwConnect url c s)"
proof -
  have s: "gwInv (s\<lparr>isExplicitDisconnect := False\<rparr>)" by (rule gwInv_calm [OF gwCalm_simps(10) assms])
  show ?thesis
    using s by (auto simp: gwConnect_def Let_def gwInv_scheduleReconnect
        elim!: gwInv_calm [rotated] split: option.splits) (simp_all add: gwCalm_def newSocket_def)
qed

lemma gwInv_fire:
  assumes "gwInv s"
  shows "gwInv (gwFire url c k s)"
proof (cases "map_of (gwTimers s) k")
  case (Some t)
  then have m: "(k, t) \<in> set (gwTimers s)" by (rule map_of_SomeD)
  show ?thesis
  proof (cases t)
    case GwPing
    with Some gwInv_calm [OF gwCalm_simps(5) assms] show ?thesis by (simp add: gwFire_def)
  next
    case GwReconnect
    with Some gwInv_clearOther [OF assms m] show ?thesis by (simp add: gwFire_def gwInv_connect)
  next
    case GwDrain
    with Some gwInv_clearOther [OF assms m] show ?thesis
      by (simp add: gwFire_def Let_def gwInv_scheduleReconnect gwInv_calm [OF gwCalm_simps(7)])
  next
    case (GwAckTimeout x p)
    with Some gwInv_settle [OF assms m [unfolded GwAckTimeout], of AckTimedOut] show ?thesis
      by (simp add: gwFire_def Let_def gwClearTimer_def)
  qed
qed (use assms in \<open>simp add: gwFire_def\<close>)

lemma gwInv_step:
  assumes "gwInv s"
  shows "gwInv (gwStep url e s)"
proof (cases e)
  case GwDisconnect
  have s: "gwInv (stopHeartbeat (s\<lparr>isExplicitDisconnect := True\<rparr>))"
    by (rule gwInv_stopHeartbeat [OF gwInv_calm [OF gwCalm_simps(10) assms]])
  show ?thesis
    unfolding GwDisconnect gwStep.simps gwDisconnect_def Let_def
    by (rule gwInv_calm [OF _ s])
      (auto simp: gwCalm_def setStatus_def dispatch_def closeSocket_def setState_def split: option.splits)
next
  case (GwOpened i)
  have "gwInv (setStatus True ((setState i OPEN s)\<lparr>gwAttempts := 0\<rparr>))"
    by (rule gwInv_calm [OF _ assms]) (simp add: gwCalm_def setStatus_def dispatch_def setState_def)
  with GwOpened assms show ?thesis by (simp add: gwOpened_def gwInv_startHeartbeat)
next
  case (GwClosed i u)
  have "gwInv (setStatus False (setState i CLOSED s))"
    by (rule gwInv_calm [OF _ assms]) (simp add: gwCalm_def setStatus_def dispatch_def setState_def)
  with GwClosed assms show ?thesis by (simp add: gwClosed_def Let_def gwInv_stopHeartbeat gwInv_scheduleReconnect)
next
  case (GwReceived i raw now)
  with assms show ?thesis by (simp add: gwReceived_def gwInv_frame split: blob.splits)
qed (use assms in \<open>simp_all add: gwInv_connect gwInv_fire gwInv_sendEnvelope gwError_def gwInv_calm [OF gwCalm_simps(2)]
      gwInv_calm [OF gwCalm_simps(3)] gwInv_calm [OF gwCalm_simps(4)] gwInv_calm [OF gwCalm_simps(5)]\<close>)

interpretation gw_promises: history_system "gwStep url" "\<lambda>e. []" "\<lambda>h. True" "\<lambda>h. gwInv" for url
  by unfold_locales (simp_all add: gwInv_step)

text \<open>
  C11. Every promise of \<open>sendEnvelope\<close> is settled exactly once or will be: after any sequence of
  calls and browser events, also when identifiers are used again, a promise was settled once or has
  a running timeout, and when that timeout fires the promise is rejected.
\<close>

theorem gateway_promises_settle:
  assumes "p < gwPromises (gwRun url es)"
  shows "(\<exists>r. filter (\<lambda>q. fst q = p) (gwSettled (gwRun url es)) = [(p, r)])
    \<or> (filter (\<lambda>q. fst q = p) (gwSettled (gwRun url es)) = []
        \<and> (\<exists>k. \<forall>c. (p, AckTimedOut) \<in> set (gwSettled (gwStep url (GwFire c k) (gwRun url es)))))"
proof -
  have "gwInv gwInitial" by (simp add: gwInv_def gwTimersOk_def gwPromisesOk_def gwInitial_def)
  then have inv: "gwInv (gwRun url es)" using gw_promises.inv_run [of gwInitial url es] by (simp add: gwRun_def)
  have "(p, AckTimedOut) \<in> set (gwSettled (gwStep url (GwFire c k) (gwRun url es)))"
    if m: "(k, GwAckTimeout x p) \<in> set (gwTimers (gwRun url es))" for k x c
  proof -
    have "map_of (gwTimers (gwRun url es)) k = Some (GwAckTimeout x p)"
      using inv m unfolding gwInv_def gwTimersOk_def by (simp add: map_of_is_SomeI)
    then show ?thesis by (simp add: gwFire_def Let_def)
  qed
  with assms inv show ?thesis unfolding gwInv_def gwPromisesOk_def by blast
qed

section \<open>What a message carries\<close>

lemma safeBase64Decode_encodePayload [codec_simps]: "safeBase64Decode (encodePayload t) = Narrow t"
proof (cases "encodePayload t = []")
  case True
  then have "textEncode t = []" by (simp add: encodePayload_def bytesToStr_def)
  then have "t = []" using utf8Decode_textEncode [of t] by simp
  with True show ?thesis by (simp add: safeBase64Decode_def)
next
  case False
  then show ?thesis by (simp add: safeBase64Decode_def) (simp add: encodePayload_def)
qed

lemma member_envelopeFrame:
  "member (envelopeFrame e x) ''ciphertext_base64'' =
    Some (JStr (encodePayload (case envCiphertext e of Some t \<Rightarrow> t | None \<Rightarrow> [])))"
  by (cases "envChannelId e") (simp_all add: member_def envelopeFrame_def jobj_def List.map_filter_simps)

lemma dispatch_reaches: "(k, h) \<in> set (gwHandlers s) \<Longrightarrow> (h, k, fs) \<in> set (gwLog (dispatch k fs s))"
  by (force simp: dispatch_def)

lemma typeIs_unique: "typeIs raw t \<Longrightarrow> typeIs raw t' \<longleftrightarrow> t = t'"
  by (auto simp: typeIs_def)

lemma gwFrame_push: "typeIs raw ''push'' \<Longrightarrow> gwFrame raw now s = dispatch KMessage (pushNotice raw) s"
  by (simp add: gwFrame_def typeIs_unique Let_def split: option.split json.split)

text \<open>
  A text survives the gateway: if a push frame carries the \<open>ciphertext_base64\<close> of the frame that
  \<open>sendEnvelope\<close> put on the wire, then every message handler is given the very text of the envelope.
\<close>

theorem gateway_payload_roundtrip:
  assumes "envCiphertext e = Some t" "typeIs raw ''push''"
    and "member raw ''ciphertext_base64'' = member (envelopeFrame e x) ''ciphertext_base64''"
    and "stateOf i s = OPEN" "(KMessage, h) \<in> set (gwHandlers s)"
  shows "\<exists>fs. (h, KMessage, fs) \<in> set (gwLog (gwReceived i (Blob raw) now s))
    \<and> map_of fs ''ciphertext'' = Some (DecodedText (Narrow t))"
proof (intro exI conjI)
  have "raw \<noteq> JNull" using assms(2) by (auto simp: typeIs_def member_def)
  with assms show "(h, KMessage, pushNotice raw) \<in> set (gwLog (gwReceived i (Blob raw) now s))"
    by (simp add: gwReceived_def gwFrame_push dispatch_reaches)
  show "map_of (pushNotice raw) ''ciphertext'' = Some (DecodedText (Narrow t))"
    using assms(1,3) by (simp add: pushNotice_def decodedField_def member_envelopeFrame safeBase64Decode_encodePayload)
qed

text \<open>A history reaches a message handler oldest first: the server sends it newest first.\<close>

lemma historyLoop_log:
  "JNull \<notin> set ms \<Longrightarrow> gwHandlers s = [(KMessage, h)] \<Longrightarrow>
    gwLog (historyLoop raw ms s) = gwLog s @ map (\<lambda>m. (h, KMessage, historyNotice raw m)) ms"
proof (induction ms arbitrary: s)
  case (Cons m ms)
  have "gwHandlers (dispatch k fs s) = gwHandlers s" for k fs by (simp add: dispatch_def)
  with Cons show ?case by (auto simp: dispatch_def)
qed simp

section \<open>Connections\<close>

text \<open>
  A disconnection during the back-off does not last: the reconnection timer that is running
  survives \<open>disconnect\<close>, and when it fires with a token at hand the client clears the mark of the
  explicit disconnection and opens a socket.
\<close>

theorem gateway_disconnect_undone:
  assumes "map_of (gwTimers s) k = Some GwReconnect" "pingTimer s = None"
    and "authTokenNow c = Some token" "token \<noteq> []" "socketCreated c"
  shows "length (socks (gwFire url c k (gwDisconnect s))) = Suc (length (socks s))
    \<and> \<not> isExplicitDisconnect (gwFire url c k (gwDisconnect s))
    \<and> gwCurrent (gwFire url c k (gwDisconnect s)) = Some (length (socks s))"
proof -
  let ?d = "gwDisconnect s"
  have d: "gwTimers ?d = gwTimers s" "length (socks ?d) = length (socks s)"
    using assms(2)
    by (auto simp: gwDisconnect_def stopHeartbeat_def setStatus_def dispatch_def closeSocket_def setState_def Let_def
        split: option.splits)
  show ?thesis
    using assms d by (simp add: gwFire_def gwConnect_def Let_def newSocket_def gwClearTimer_def)
qed

text \<open>Asked to drain, the client reconnects twice: once for the request and once for the closed socket.\<close>

definition drainRun :: "gwChance \<Rightarrow> gwEvent list" where
  "drainRun c = [GwConnect c, GwOpened 0, GwReceived 0 (Blob (JObj [(''type'', JStr ''reconnect'')])) 0,
     GwFire c 1, GwClosed 0 0, GwFire c 2, GwFire c 3]"

lemma drain_connects_twice:
  assumes "authTokenNow c = Some token" "token \<noteq> []" "socketCreated c"
  shows "map snd (socks (gwRun url (drainRun c))) = [CLOSED, CONNECTING, CONNECTING]"
proof -
  have t: "typeIs (JObj [(''type'', JStr ''reconnect'')]) x \<longleftrightarrow> x = ''reconnect''" for x
    by (auto simp: typeIs_def member_def)
  show ?thesis
    using assms
    by (simp add: gwRun_def drainRun_def gwInitial_def gwConnect_def newSocket_def gwOpened_def stateOf_def setState_def
        setStatus_def dispatch_def gwStartHeartbeat_def stopHeartbeat_def gwSetTimer_def gwReceived_def gwFrame_def t
        gwFire_def gwClearTimer_def closeSocket_def gwScheduleReconnect_def gwClosed_def Let_def)
qed

text \<open>The delay before a reconnection lies between one and thirty seconds.\<close>

lemma gwDelay_bounds:
  assumes "0 \<le> u" "u < 1"
  shows "1000 \<le> gwDelay n u \<and> gwDelay n u \<le> 30000"
proof -
  define b :: rat where "b = min (2000 * (3 / 2) ^ (n - 1)) 30000"
  have "(1 :: rat) \<le> (3 / 2) ^ (n - 1)" by (rule one_le_power) simp
  then have b: "2000 \<le> b" "b \<le> 30000" by (simp_all add: b_def min_def)
  have r: "gwDelay n u = jittered 500 b u" by (simp add: gwDelay_def b_def)
  have "b / 2 - 1 / 2 < rat_of_int (jittered 500 b u)" "rat_of_int (jittered 500 b u) \<le> max 500 (b + 1 / 2)"
    using jittered_bounds(2,3) [OF assms, of b 500] b by simp_all
  then have "999 < rat_of_int (jittered 500 b u)" "rat_of_int (jittered 500 b u) < 30001"
    using b by (linarith, simp add: max_def split: if_splits)
  then show ?thesis unfolding r by linarith
qed

text \<open>At most ten reconnections are scheduled between two successful connections.\<close>

lemma gwAttempts_bounded: "gwAttempts s \<le> 10 \<Longrightarrow> gwAttempts (gwScheduleReconnect u s) \<le> 10"
  by (simp add: gwScheduleReconnect_def gwSetTimer_def)

section \<open>Instances\<close>

definition demoChance :: gwChance where
  "demoChance = \<lparr>authTokenNow = Some ''t'', socketCreated = True, random = 0\<rparr>"

definition demoEnvelope :: outEnvelope where
  "demoEnvelope = \<lparr>envChannelId = Some ''c'', envClientMsgId = Some ''m1'', envMessageType = None, envCiphertext = Some ''hi'',
     envTtl = None, envReplyTo = None\<rparr>"

definition demoOpen :: gwState where
  "demoOpen = gwInitial\<lparr>socks := [(''u'', OPEN)], gwCurrent := Some 0, gwHandlers := [(KMessage, 7)]\<rparr>"

theorem gateway_promises_settle_witness:
  "\<exists>r. filter (\<lambda>q. fst q = 0) (gwSettled (gwRun [] [GwSendEnvelope demoEnvelope []])) = [(0, r)]"
proof -
  have "0 < gwPromises (gwRun [] [GwSendEnvelope demoEnvelope []])"
    by (simp add: gwRun_def gwInitial_def sendEnvelope_def isConnected_def isOpen_def Let_def)
  from gateway_promises_settle [OF this] show ?thesis
    by (simp add: gwRun_def gwInitial_def sendEnvelope_def isConnected_def isOpen_def Let_def)
qed

theorem gateway_payload_roundtrip_witness:
  "\<exists>fs. (7, KMessage, fs) \<in> set (gwLog (gwReceived 0 (Blob (JObj [(''type'', JStr ''push''),
      (''ciphertext_base64'', JStr (encodePayload ''hi''))])) 0 demoOpen))
    \<and> map_of fs ''ciphertext'' = Some (DecodedText (Narrow ''hi''))"
  by (rule gateway_payload_roundtrip [where e = demoEnvelope and x = "''m1''"])
    (simp_all add: demoEnvelope_def typeIs_def member_def [of "JObj [(''type'', JStr ''push''), (''ciphertext_base64'', JStr (encodePayload ''hi''))]"]
      member_envelopeFrame demoOpen_def gwInitial_def stateOf_def)

theorem gateway_disconnect_undone_witness:
  "length (socks (gwFire [] demoChance 0 (gwDisconnect (gwInitial\<lparr>gwTimers := [(0, GwReconnect)]\<rparr>)))) = 1"
  using gateway_disconnect_undone [of "gwInitial\<lparr>gwTimers := [(0, GwReconnect)]\<rparr>" 0 demoChance "''t''" "[]"]
  by (simp add: gwInitial_def demoChance_def)

end
