(* ===== verification/Key_Transfer.thy ===== *)
theory Key_Transfer
  imports Crypto_Api Safety_Numbers
begin

text \<open>
  Moving keys: the encrypted backup of \<open>key-backup.ts\<close>, the linking of a second device of
  \<open>device-linking.ts\<close> and the key generation of \<open>key-ceremony.ts\<close>, all in
  \<open>packages/client-web/src/lib/\<close>. PBKDF2, ECDH, AES-GCM, the JSON text of a value (as UTF-8
  bytes) and the answers of the server are parameters; random bytes are arguments.
\<close>

section \<open>A ciphertext with its vector in front\<close>

definition sealCombined :: "aead \<Rightarrow> key \<Rightarrow> bytes \<Rightarrow> bytes \<Rightarrow> string" where
  "sealCombined a k iv plaintext = bufferToBase64 (iv @ seal a k iv [] plaintext)"

datatype transferError = BadEncoding | TooShort | CannotDecrypt | BadJson | BadKey | NoBundle | ServerError nat | NetworkError

definition openCombined :: "aead \<Rightarrow> key \<Rightarrow> bytes \<Rightarrow> transferError + bytes" where
  "openCombined a k combined =
     (if length combined < 13 then Inl TooShort
      else case unseal a k (take 12 combined) [] (drop 12 combined) of
             None \<Rightarrow> Inl CannotDecrypt
           | Some p \<Rightarrow> Inr p)"

definition parseResult :: "(bytes \<Rightarrow> 'a option) \<Rightarrow> transferError + bytes \<Rightarrow> transferError + 'a" where
  "parseResult parse r =
     (case r of Inl e \<Rightarrow> Inl e | Inr p \<Rightarrow> (case parse p of Some x \<Rightarrow> Inr x | None \<Rightarrow> Inl BadJson))"

section \<open>Backups\<close>

record BackupPayload =
  backup_ciphertext :: string
  kdf_salt :: string
  kdf_algorithm :: string
  kdf_iterations :: "nat option"
  kdf_hash :: string
  kdf_keyLength :: nat
  bundle_version :: nat

definition deriveKeyFromPassphrase :: "(bytes \<Rightarrow> bytes \<Rightarrow> nat \<Rightarrow> key) \<Rightarrow> string \<Rightarrow> bytes \<Rightarrow> nat \<Rightarrow> key" where
  "deriveKeyFromPassphrase pbkdf2 passphrase salt iterations = pbkdf2 (textEncode passphrase) salt iterations"

definition createEncryptedBackup ::
  "(bytes \<Rightarrow> bytes \<Rightarrow> nat \<Rightarrow> key) \<Rightarrow> aead \<Rightarrow> ('a \<Rightarrow> bytes) \<Rightarrow> bytes \<Rightarrow> bytes \<Rightarrow> 'a \<Rightarrow> string \<Rightarrow> BackupPayload" where
  "createEncryptedBackup pbkdf2 a stringify salt iv content passphrase =
     \<lparr>backup_ciphertext = sealCombined a (deriveKeyFromPassphrase pbkdf2 passphrase salt 600000) iv (stringify content),
      kdf_salt = bufferToBase64 salt, kdf_algorithm = ''pbkdf2_aes256gcm'', kdf_iterations = Some 600000,
      kdf_hash = ''SHA-256'', kdf_keyLength = 256, bundle_version = 1\<rparr>"

definition backupIterations :: "BackupPayload \<Rightarrow> nat" where
  "backupIterations payload =
     (case kdf_iterations payload of Some n \<Rightarrow> if n \<noteq> 0 then n else 600000 | None \<Rightarrow> 600000)"

definition restoreEncryptedBackup ::
  "(bytes \<Rightarrow> bytes \<Rightarrow> nat \<Rightarrow> key) \<Rightarrow> aead \<Rightarrow> (bytes \<Rightarrow> 'a option) \<Rightarrow> BackupPayload \<Rightarrow> string \<Rightarrow> transferError + 'a" where
  "restoreEncryptedBackup pbkdf2 a parse payload passphrase =
     (case (base64ToBuffer (kdf_salt payload), base64ToBuffer (backup_ciphertext payload)) of
        (Some salt, Some combined) \<Rightarrow>
          parseResult parse
            (openCombined a (deriveKeyFromPassphrase pbkdf2 passphrase salt (backupIterations payload)) combined)
      | _ \<Rightarrow> Inl BadEncoding)"

definition uploadKeyBackup :: "unit http \<Rightarrow> transferError + unit" where
  "uploadKeyBackup answer =
     (case answer of NetFail \<Rightarrow> Inl NetworkError | HttpError st \<Rightarrow> Inl (ServerError st) | HttpOk _ \<Rightarrow> Inr ())"

definition fetchKeyBackup :: "BackupPayload http \<Rightarrow> transferError + BackupPayload option" where
  "fetchKeyBackup answer =
     (case answer of
        NetFail \<Rightarrow> Inl NetworkError
      | HttpError st \<Rightarrow> if st = 404 then Inr None else Inl (ServerError st)
      | HttpOk p \<Rightarrow> Inr (Some p))"

definition deleteKeyBackup :: "unit http \<Rightarrow> transferError + unit" where
  "deleteKeyBackup answer =
     (case answer of NetFail \<Rightarrow> Inl NetworkError | HttpError st \<Rightarrow> Inl (ServerError st) | HttpOk _ \<Rightarrow> Inr ())"

section \<open>Linking a device\<close>

record linkCrypto =
  importPublic :: "bytes \<Rightarrow> bytes option"
  ecdhKey :: "bytes \<Rightarrow> bytes \<Rightarrow> key"
  codeDigest :: "bytes \<Rightarrow> bytes"
  linkGcm :: aead

record DeviceLinkingInitResult =
  linkSessionId :: string
  confirmationCode :: string
  ephemeralPrivateKey :: bytes
  ephemeralPublicKeyHex :: string
  qrUri :: string

record linkInitiateRequest =
  ephemeral_pubkey :: string
  auth_code_hash :: string

definition linkingCode :: "byte \<Rightarrow> byte \<Rightarrow> byte \<Rightarrow> byte \<Rightarrow> string" where
  "linkingCode b0 b1 b2 b3 =
     (let num = (push_bit 24 (ucast b0) OR push_bit 16 (ucast b1) OR push_bit 8 (ucast b2) OR ucast b3) :: 32 word
      in decimal (unat num mod 900000 + 100000))"

definition initiateRequest :: "linkCrypto \<Rightarrow> bytes \<Rightarrow> string \<Rightarrow> linkInitiateRequest" where
  "initiateRequest c rawPub code =
     \<lparr>ephemeral_pubkey = bufferToBase64 rawPub, auth_code_hash = bufferToBase64 (codeDigest c (textEncode code))\<rparr>"

text \<open>The server answers the request with the identifier of the session.\<close>

definition initiateDeviceLinking ::
  "linkCrypto \<Rightarrow> (linkInitiateRequest \<Rightarrow> string http) \<Rightarrow> bytes \<Rightarrow> bytes \<Rightarrow> string \<Rightarrow> transferError + DeviceLinkingInitResult" where
  "initiateDeviceLinking c server priv rawPub code =
     (case server (initiateRequest c rawPub code) of
        NetFail \<Rightarrow> Inl NetworkError
      | HttpError st \<Rightarrow> Inl (ServerError st)
      | HttpOk sessionId \<Rightarrow>
          Inr \<lparr>linkSessionId = sessionId, confirmationCode = code, ephemeralPrivateKey = priv,
               ephemeralPublicKeyHex = bufferToHex rawPub,
               qrUri = ''genchat://link-device?session_id='' @ sessionId @ ''&pub='' @ bufferToHex rawPub @ ''&code='' @ code\<rparr>)"

record LinkingSessionStatus =
  session_id :: string
  linkStatus :: string
  primary_user_id :: string
  primary_device_id :: string
  expires_at :: string
  has_bundle :: bool

definition checkDeviceLinkingStatus :: "LinkingSessionStatus http \<Rightarrow> transferError + LinkingSessionStatus" where
  "checkDeviceLinkingStatus answer =
     (case answer of NetFail \<Rightarrow> Inl NetworkError | HttpError st \<Rightarrow> Inl (ServerError st) | HttpOk d \<Rightarrow> Inr d)"

record approveRequest =
  approveSessionId :: string
  new_device_id :: string
  encrypted_bundle :: string
  approveAuthCode :: string

definition sharedLinkKey :: "linkCrypto \<Rightarrow> bytes \<Rightarrow> string \<Rightarrow> key option" where
  "sharedLinkKey c priv pubHex = map_option (ecdhKey c priv) (importPublic c (hexToBuffer pubHex))"

definition approveDeviceLinking ::
  "linkCrypto \<Rightarrow> (approveRequest \<Rightarrow> unit http) \<Rightarrow> ('a \<Rightarrow> bytes) \<Rightarrow> bytes \<Rightarrow> string \<Rightarrow> bytes \<Rightarrow> string \<Rightarrow> 'a \<Rightarrow> string \<Rightarrow> string
    \<Rightarrow> transferError + approveRequest" where
  "approveDeviceLinking c server stringify iv sessionId primaryPriv secondaryPubHex secrets newDeviceId authCode =
     (case sharedLinkKey c primaryPriv secondaryPubHex of
        None \<Rightarrow> Inl BadKey
      | Some k \<Rightarrow>
          let req = \<lparr>approveSessionId = sessionId, new_device_id = newDeviceId,
                     encrypted_bundle = sealCombined (linkGcm c) k iv (stringify secrets), approveAuthCode = authCode\<rparr>
          in case server req of
               NetFail \<Rightarrow> Inl NetworkError
             | HttpError st \<Rightarrow> Inl (ServerError st)
             | HttpOk _ \<Rightarrow> Inr req)"

text \<open>The answer carries the bundle; an absent or empty one is an error.\<close>

definition completeDeviceLinking ::
  "linkCrypto \<Rightarrow> string option http \<Rightarrow> (bytes \<Rightarrow> 'a option) \<Rightarrow> bytes \<Rightarrow> string \<Rightarrow> transferError + 'a" where
  "completeDeviceLinking c answer parse secondaryPriv primaryPubHex =
     (case answer of
        NetFail \<Rightarrow> Inl NetworkError
      | HttpError st \<Rightarrow> Inl (ServerError st)
      | HttpOk None \<Rightarrow> Inl NoBundle
      | HttpOk (Some b64) \<Rightarrow>
          if b64 = [] then Inl NoBundle
          else (case sharedLinkKey c secondaryPriv primaryPubHex of
                  None \<Rightarrow> Inl BadKey
                | Some k \<Rightarrow>
                    (case base64ToBuffer b64 of
                       None \<Rightarrow> Inl BadEncoding
                     | Some combined \<Rightarrow> parseResult parse (openCombined (linkGcm c) k combined))))"

section \<open>The key ceremony\<close>

record ('i, 'p) KeyCeremonyResult =
  identityKeyBytes :: bytes
  ceremonyPublic :: 'p
  ceremonyIdentity :: 'i

text \<open>Keys are generated, the identity is stored (which may fail), and the public key decoded.\<close>

definition performKeyCeremony ::
  "(nat \<Rightarrow> 'i \<times> 'p) \<Rightarrow> ('i \<Rightarrow> string) \<Rightarrow> ('i \<Rightarrow> bool) \<Rightarrow> nat \<Rightarrow> ('i, 'p) KeyCeremonyResult outcome" where
  "performKeyCeremony generate pubHex store oneTimeKeysCount =
     (case generate oneTimeKeysCount of
        (identity, public) \<Rightarrow>
          if store identity
          then Done \<lparr>identityKeyBytes = hexToBytes (pubHex identity), ceremonyPublic = public, ceremonyIdentity = identity\<rparr>
          else Rejected)"

section \<open>Round trips\<close>

lemma bufferToBase64_eq_Nil: "bufferToBase64 bs = [] \<longleftrightarrow> bs = []"
  by (simp add: bufferToBase64_def bytesToStr_def)

lemma openCombined_sealed:
  assumes "aeadCorrect a" "aeadTagged a" "length iv = 12"
  shows "openCombined a k (iv @ seal a k iv [] p) = Inr p"
proof -
  have "iv \<noteq> []" using assms(3) by auto
  then have "seal a k iv [] p \<noteq> []" using assms(2) by (simp add: aeadTagged_def)
  then have "0 < length (seal a k iv [] p)" by simp
  then have "13 \<le> length (iv @ seal a k iv [] p)" using assms(3) by (simp add: Suc_le_eq)
  then have "\<not> length (iv @ seal a k iv [] p) < 13" by linarith
  with assms show ?thesis by (simp only: openCombined_def if_False) simp
qed

lemma openCombined_authentic:
  assumes "aeadAuthentic a" "openCombined a k combined = Inr p"
  shows "combined = take 12 combined @ seal a k (take 12 combined) [] p"
proof -
  have "unseal a k (take 12 combined) [] (drop 12 combined) = Some p"
    using assms(2) by (auto simp: openCombined_def split: if_splits option.splits)
  then have "drop 12 combined = seal a k (take 12 combined) [] p" using assms(1) by (auto simp: aeadAuthentic_def)
  then show ?thesis by (metis append_take_drop_id)
qed

text \<open>
  C14. A backup can be restored with its passphrase, and nothing else is ever restored: the payload
  made for a passphrase gives back the keys, and whatever payload and passphrase are accepted, the
  ciphertext is an encryption, under the key derived from that very passphrase and the payload's
  salt, of a text that parses to the result.
\<close>

theorem backup_roundtrip:
  assumes "aeadCorrect a" "aeadTagged a" "aeadAuthentic a" "codec stringify parse" "length iv = 12"
  shows "restoreEncryptedBackup pbkdf2 a parse (createEncryptedBackup pbkdf2 a stringify salt iv content pass) pass = Inr content
    \<and> (restoreEncryptedBackup pbkdf2 a parse payload pass' = Inr restored \<longrightarrow>
        (\<exists>salt' iv' p. base64ToBuffer (kdf_salt payload) = Some salt' \<and> parse p = Some restored
          \<and> base64ToBuffer (backup_ciphertext payload)
              = Some (iv' @ seal a (deriveKeyFromPassphrase pbkdf2 pass' salt' (backupIterations payload)) iv' [] p)))"
proof (intro conjI impI)
  have "parse (stringify content) = Some content" using codec.dec_enc [OF assms(4)] .
  then show "restoreEncryptedBackup pbkdf2 a parse (createEncryptedBackup pbkdf2 a stringify salt iv content pass) pass = Inr content"
    using openCombined_sealed [OF assms(1,2,5)]
    by (simp add: restoreEncryptedBackup_def createEncryptedBackup_def sealCombined_def backupIterations_def parseResult_def
        base64ToBuffer_bufferToBase64)
next
  assume r: "restoreEncryptedBackup pbkdf2 a parse payload pass' = Inr restored"
  obtain salt' combined where s: "base64ToBuffer (kdf_salt payload) = Some salt'"
    and c: "base64ToBuffer (backup_ciphertext payload) = Some combined"
    using r by (auto simp: restoreEncryptedBackup_def split: option.splits)
  let ?k = "deriveKeyFromPassphrase pbkdf2 pass' salt' (backupIterations payload)"
  obtain p where p: "openCombined a ?k combined = Inr p" "parse p = Some restored"
    using r by (auto simp: restoreEncryptedBackup_def s c parseResult_def split: sum.splits option.splits)
  from openCombined_authentic [OF assms(3) p(1)] s c p(2)
  show "\<exists>salt' iv' p. base64ToBuffer (kdf_salt payload) = Some salt' \<and> parse p = Some restored
        \<and> base64ToBuffer (backup_ciphertext payload)
            = Some (iv' @ seal a (deriveKeyFromPassphrase pbkdf2 pass' salt' (backupIterations payload)) iv' [] p)"
    by (intro exI [of _ salt'] exI [of _ "take 12 combined"] exI [of _ p]) simp
qed

theorem backup_roundtrip_witness:
  "restoreEncryptedBackup (\<lambda>p s n. p @ s) tagAead Some
     (createEncryptedBackup (\<lambda>p s n. p @ s) tagAead (\<lambda>x. x) [9] (replicate 12 7) [1, 2] ''pin'') ''pin'' = Inr [1, 2]"
  by (rule backup_roundtrip [THEN conjunct1]) (simp_all add: tagAead_ok tagAead_tagged codec_def)

lemma length_toString_ge: "2 \<le> b \<Longrightarrow> b ^ k \<le> n \<Longrightarrow> k < length (toString b n)"
proof (induction k arbitrary: n)
  case 0
  then show ?case by (subst toString.simps) simp
next
  case (Suc k)
  then have "b ^ k \<le> n div b" by (simp add: less_eq_div_iff_mult_less_eq mult.commute)
  with Suc have "k < length (toString b (n div b))" by simp
  moreover have "b \<le> n" using Suc.prems self_le_power [of b "Suc k"]
    by (meson le_trans one_le_numeral zero_less_Suc)
  ultimately show ?case using Suc.prems by (subst toString.simps) simp
qed

lemma linkingCode_six_digits:
  "length (linkingCode b0 b1 b2 b3) = 6" "set (linkingCode b0 b1 b2 b3) \<subseteq> set ''0123456789''"
proof -
  define n where "n = unat ((push_bit 24 (ucast b0) OR push_bit 16 (ucast b1) OR push_bit 8 (ucast b2) OR ucast b3) :: 32 word)
    mod 900000 + 100000"
  have n: "linkingCode b0 b1 b2 b3 = decimal n" "100000 \<le> n" "n < 1000000"
    by (simp_all add: linkingCode_def n_def)
  have "length (decimal n) \<le> 6" using length_toString_le [of 10 6 n] n by simp
  moreover have "5 < length (decimal n)" using length_toString_ge [of 10 5 n] n by simp
  ultimately show "length (linkingCode b0 b1 b2 b3) = 6" unfolding n(1) by simp
  show "set (linkingCode b0 b1 b2 b3) \<subseteq> set ''0123456789''" unfolding n(1) by (rule set_toString_10)
qed

text \<open>
  Linking: with keys that agree, what the first device approves is what the second device obtains
  from the bundle the server hands on.
\<close>

lemma device_link_roundtrip:
  assumes "aeadCorrect (linkGcm c)" "aeadTagged (linkGcm c)" "codec stringify parse" "length iv = 12"
    and "importPublic c pubB = Some kB" "importPublic c pubA = Some kA" "ecdhKey c privA kB = ecdhKey c privB kA"
    and "approveDeviceLinking c server stringify iv sid privA (bufferToHex pubB) secrets dev code = Inr req"
  shows "completeDeviceLinking c (HttpOk (Some (encrypted_bundle req))) parse privB (bufferToHex pubA) = Inr secrets"
proof -
  have "parse (stringify secrets) = Some secrets" using codec.dec_enc [OF assms(3)] .
  moreover have "encrypted_bundle req = sealCombined (linkGcm c) (ecdhKey c privA kB) iv (stringify secrets)"
    using assms(5,8)
    by (auto simp: approveDeviceLinking_def sharedLinkKey_def bufferToHex_eq hexToBuffer_bytesToHex Let_def split: http.splits)
  moreover have "iv \<noteq> []" using assms(4) by auto
  ultimately show ?thesis
    using assms(6,7) openCombined_sealed [OF assms(1,2,4)]
    by (simp add: completeDeviceLinking_def sharedLinkKey_def bufferToHex_eq hexToBuffer_bytesToHex sealCombined_def
        bufferToBase64_eq_Nil base64ToBuffer_bufferToBase64 parseResult_def)
qed

end
