(* ===== verification/Client_Db.thy ===== *)
theory Client_Db
  imports Event_Loop Local_Store
begin

text \<open>
  The package \<open>packages/client-db\<close>: the model classes and their decorators (\<open>models/*.ts\<close>), the
  in-memory collections (\<open>database.ts\<close>), the outbox (\<open>sync/outbox.ts\<close>), the batching of inbound
  messages (\<open>sync/reconciler.ts\<close>) and the search (\<open>search/search.ts\<close>), with the operations that
  \<open>packages/client-web/src/lib/database-context.tsx\<close> builds on them.

  Records are objects that the collections and the callers share, so they live in a heap and a
  collection maps identifiers to addresses. Of the base class of WatermelonDB the code uses that
  the constructor keeps the raw record it is given and that \<open>id\<close> reads it there.
\<close>

section \<open>Model objects\<close>

text \<open>A string with a code unit above 255 is represented by its UTF-8 bytes (\<open>VWide\<close>).\<close>

datatype jsValue = VNull | VStr string | VWide bytes | VNum int | VDate int

record modelObj =
  raw :: "jsValue jsmap"
  own :: "jsValue jsmap"

text \<open>
  The decorators define accessors on the prototype. When the compiler emits the declared fields of
  a class (\<open>useDefineForClassFields\<close>, the default for the target ES2022 that the packages
  set), every object has own properties that shadow these accessors.
\<close>

datatype fieldMode = Accessors | OwnFields

datatype fieldKind = PlainField | DateField

record column =
  propertyKey :: string
  columnName :: string
  fieldKind :: fieldKind

definition nullish :: "jsValue option \<Rightarrow> jsValue option \<Rightarrow> jsValue option" where
  "nullish a b = (if a = None \<or> a = Some VNull then b else a)"

definition getField :: "fieldMode \<Rightarrow> column \<Rightarrow> modelObj \<Rightarrow> jsValue option" where
  "getField mode f x =
     (case mode of
        OwnFields \<Rightarrow> jsGet (own x) (propertyKey f)
      | Accessors \<Rightarrow>
          let v = nullish (jsGet (own x) (CHR ''_'' # propertyKey f)) (jsGet (raw x) (columnName f))
          in (case fieldKind f of
                PlainField \<Rightarrow> v
              | DateField \<Rightarrow> (case v of
                    Some (VNum n) \<Rightarrow> if n \<noteq> 0 then Some (VDate n) else Some VNull
                  | Some (VDate t) \<Rightarrow> Some (VDate t)
                  | _ \<Rightarrow> Some VNull)))"

text \<open>The trap of the proxy writes the raw record under the name of the property, then the accessor or the own property.\<close>

definition setField :: "fieldMode \<Rightarrow> column \<Rightarrow> jsValue \<Rightarrow> modelObj \<Rightarrow> modelObj" where
  "setField mode f v x =
     (let x1 = x\<lparr>raw := jsSet (propertyKey f) v (raw x)\<rparr>
      in case mode of
           OwnFields \<Rightarrow> x1\<lparr>own := jsSet (propertyKey f) v (own x1)\<rparr>
         | Accessors \<Rightarrow>
             let w = (case (fieldKind f, v) of (DateField, VDate t) \<Rightarrow> VNum t | _ \<Rightarrow> v)
             in x1\<lparr>own := jsSet (CHR ''_'' # propertyKey f) w (own x1), raw := jsSet (columnName f) w (raw x1)\<rparr>)"

definition setId :: "string \<Rightarrow> modelObj \<Rightarrow> modelObj" where
  "setId i x = x\<lparr>raw := jsSet ''id'' (VStr i) (raw x)\<rparr>"

definition getId :: "modelObj \<Rightarrow> string" where
  "getId x = (case jsGet (raw x) ''id'' of Some (VStr i) \<Rightarrow> i | _ \<Rightarrow> [])"

text \<open>The fields of \<open>Message\<close> and \<open>Channel\<close>\<close>

definition fChannelId :: column where
  "fChannelId = \<lparr>propertyKey = ''channelId'', columnName = ''channel_id'', fieldKind = PlainField\<rparr>"

definition fSenderId :: column where
  "fSenderId = \<lparr>propertyKey = ''senderId'', columnName = ''sender_id'', fieldKind = PlainField\<rparr>"

definition fClientMsgId :: column where
  "fClientMsgId = \<lparr>propertyKey = ''clientMsgId'', columnName = ''client_msg_id'', fieldKind = PlainField\<rparr>"

definition fSequenceNum :: column where
  "fSequenceNum = \<lparr>propertyKey = ''sequenceNum'', columnName = ''sequence_num'', fieldKind = PlainField\<rparr>"

definition fText :: column where
  "fText = \<lparr>propertyKey = ''text'', columnName = ''text'', fieldKind = PlainField\<rparr>"

definition fStatus :: column where
  "fStatus = \<lparr>propertyKey = ''status'', columnName = ''status'', fieldKind = PlainField\<rparr>"

definition fMessageType :: column where
  "fMessageType = \<lparr>propertyKey = ''messageType'', columnName = ''message_type'', fieldKind = PlainField\<rparr>"

definition fMediaId :: column where
  "fMediaId = \<lparr>propertyKey = ''mediaId'', columnName = ''media_id'', fieldKind = PlainField\<rparr>"

definition fCreatedAt :: column where
  "fCreatedAt = \<lparr>propertyKey = ''createdAt'', columnName = ''created_at'', fieldKind = DateField\<rparr>"

definition fName :: column where
  "fName = \<lparr>propertyKey = ''name'', columnName = ''name'', fieldKind = PlainField\<rparr>"

definition fChannelType :: column where
  "fChannelType = \<lparr>propertyKey = ''channelType'', columnName = ''channel_type'', fieldKind = PlainField\<rparr>"

definition fLastMessageAt :: column where
  "fLastMessageAt = \<lparr>propertyKey = ''lastMessageAt'', columnName = ''last_message_at'', fieldKind = DateField\<rparr>"

definition fUnreadCount :: column where
  "fUnreadCount = \<lparr>propertyKey = ''unreadCount'', columnName = ''unread_count'', fieldKind = PlainField\<rparr>"

definition fUpdatedAt :: column where
  "fUpdatedAt = \<lparr>propertyKey = ''updatedAt'', columnName = ''updated_at'', fieldKind = DateField\<rparr>"

lemmas column_defs = fChannelId_def fSenderId_def fClientMsgId_def fSequenceNum_def fText_def fStatus_def
  fMessageType_def fMediaId_def fCreatedAt_def fName_def fChannelType_def fLastMessageAt_def fUnreadCount_def
  fUpdatedAt_def

section \<open>Collections\<close>

datatype table = Channels | Messages | MediaTable

record localDb =
  heap :: "modelObj list"
  items :: "table \<Rightarrow> nat jsmap"

definition emptyDb :: localDb where
  "emptyDb = \<lparr>heap = [], items = (\<lambda>t. [])\<rparr>"

definition collFind :: "table \<Rightarrow> string \<Rightarrow> localDb \<Rightarrow> nat option" where
  "collFind t i db = jsGet (items db t) i"

definition collAll :: "table \<Rightarrow> localDb \<Rightarrow> nat list" where
  "collAll t db = map snd (items db t)"

definition collQuery :: "table \<Rightarrow> (string \<times> jsValue) list \<Rightarrow> localDb \<Rightarrow> nat list" where
  "collQuery t flt db =
     filter (\<lambda>a. list_all (\<lambda>(k, v). jsGet (raw (heap db ! a)) k = Some v) flt) (collAll t db)"

definition collCreate :: "table \<Rightarrow> string \<Rightarrow> (modelObj \<Rightarrow> modelObj) \<Rightarrow> localDb \<Rightarrow> nat \<times> localDb" where
  "collCreate t defaultId recordBuilder db =
     (let x = recordBuilder \<lparr>raw = [], own = []\<rparr>;
          finalId = (if getId x \<noteq> [] then getId x else defaultId);
          a = length (heap db)
      in (a, db\<lparr>heap := heap db @ [setId finalId x], items := (items db)(t := jsSet finalId a (items db t))\<rparr>))"

definition collPut :: "table \<Rightarrow> nat \<Rightarrow> localDb \<Rightarrow> localDb" where
  "collPut t a db = db\<lparr>items := (items db)(t := jsSet (getId (heap db ! a)) a (items db t))\<rparr>"

text \<open>\<open>record.update(f)\<close>, and an assignment to a field of a record\<close>

definition updateObj :: "(modelObj \<Rightarrow> modelObj) \<Rightarrow> nat \<Rightarrow> localDb \<Rightarrow> localDb" where
  "updateObj f a db = db\<lparr>heap := (heap db)[a := f (heap db ! a)]\<rparr>"

section \<open>The outbox\<close>

record OutboxAck =
  ackClientMsgId :: string
  ackMessageId :: string
  ackSequenceNum :: int

record wirePayload =
  wireChannelId :: "jsValue option"
  wireClientMsgId :: "jsValue option"
  wireCiphertext :: string
  wireMessageType :: int

text \<open>
  The calls of the transport that are not yet answered, each with the record of its continuation,
  and the payloads handed to the transport.
\<close>

record outbox =
  obDb :: localDb
  awaiting :: "(nat \<times> nat) list"
  payloads :: "wirePayload list"

definition sentRecord :: "fieldMode \<Rightarrow> OutboxAck \<Rightarrow> modelObj \<Rightarrow> modelObj" where
  "sentRecord mode ack x = setField mode fSequenceNum (VNum (ackSequenceNum ack)) (setField mode fStatus (VStr ''sent'') x)"

definition failedRecord :: "fieldMode \<Rightarrow> modelObj \<Rightarrow> modelObj" where
  "failedRecord mode x = setField mode fStatus (VStr ''failed'') x"

text \<open>The encryption is an argument, \<^const>\<open>None\<close> when it throws; it runs before the first await.\<close>

definition dispatchInBackground ::
  "fieldMode \<Rightarrow> (string \<Rightarrow> string \<Rightarrow> string \<Rightarrow> (int \<times> string) option) \<Rightarrow> nat \<Rightarrow> string \<Rightarrow> string \<Rightarrow> string \<Rightarrow> outbox \<Rightarrow> outbox" where
  "dispatchInBackground mode encryptMessage a plaintext sessionPickle pickleKeyHex s =
     (case encryptMessage sessionPickle pickleKeyHex plaintext of
        None \<Rightarrow> s\<lparr>obDb := updateObj (failedRecord mode) a (obDb s)\<rparr>
      | Some (ty, ct) \<Rightarrow>
          let x = heap (obDb s) ! a
          in s\<lparr>awaiting := awaiting s @ [(length (payloads s), a)],
               payloads := payloads s @ [\<lparr>wireChannelId = getField mode fChannelId x,
                 wireClientMsgId = getField mode fClientMsgId x, wireCiphertext = ct, wireMessageType = ty\<rparr>]\<rparr>)"

definition pendingRecord :: "fieldMode \<Rightarrow> int \<Rightarrow> string \<Rightarrow> string \<Rightarrow> string \<Rightarrow> string \<Rightarrow> modelObj \<Rightarrow> modelObj" where
  "pendingRecord mode now newId channel sender plaintext x =
     setField mode fCreatedAt (VDate now)
       (setField mode fMessageType (VStr ''text'')
       (setField mode fStatus (VStr ''pending'')
       (setField mode fText (VStr plaintext)
       (setField mode fClientMsgId (VStr newId)
       (setField mode fSenderId (VStr sender)
       (setField mode fChannelId (VStr channel) (setId newId x)))))))"

text \<open>\<open>unique\<close> is the random part of the identifier with the time.\<close>

definition outboxSend ::
  "fieldMode \<Rightarrow> (string \<Rightarrow> string \<Rightarrow> string \<Rightarrow> (int \<times> string) option) \<Rightarrow> int \<Rightarrow> string \<Rightarrow> string \<Rightarrow>
    string \<Rightarrow> string \<Rightarrow> string \<Rightarrow> string \<Rightarrow> string \<Rightarrow> outbox \<Rightarrow> nat \<times> outbox" where
  "outboxSend mode encryptMessage now unique defaultId channel sender plaintext sessionPickle pickleKeyHex s =
     (let newId = ''msg_'' @ unique
      in case collCreate Messages defaultId (pendingRecord mode now newId channel sender plaintext) (obDb s) of
           (a, db1) \<Rightarrow> (a, dispatchInBackground mode encryptMessage a plaintext sessionPickle pickleKeyHex (s\<lparr>obDb := db1\<rparr>)))"

text \<open>The promise of the \<open>k\<close>-th call of the transport is resolved with an acknowledgement or rejected.\<close>

definition outboxAnswered :: "fieldMode \<Rightarrow> nat \<Rightarrow> OutboxAck option \<Rightarrow> outbox \<Rightarrow> outbox" where
  "outboxAnswered mode k answer s =
     (case map_of (awaiting s) k of
        None \<Rightarrow> s
      | Some a \<Rightarrow>
          s\<lparr>awaiting := filter (\<lambda>e. fst e \<noteq> k) (awaiting s),
            obDb := updateObj (case answer of Some ack \<Rightarrow> sentRecord mode ack | None \<Rightarrow> failedRecord mode) a (obDb s)\<rparr>)"

definition reconcileAck :: "fieldMode \<Rightarrow> OutboxAck \<Rightarrow> localDb \<Rightarrow> localDb" where
  "reconcileAck mode ack db =
     (case collQuery Messages [(''client_msg_id'', VStr (ackClientMsgId ack))] db of
        [] \<Rightarrow> db
      | a # _ \<Rightarrow> updateObj (sentRecord mode ack) a db)"

section \<open>Inbound messages\<close>

record InboundEncryptedPayload =
  inChannelId :: string
  inSenderId :: string
  inMessageId :: string
  inSequenceNum :: int
  inCiphertext :: string
  inMessageType :: int
  inSessionPickle :: string
  inPickleKeyHex :: string
  inTimestamp :: "int option"

type_synonym decryptor = "string \<Rightarrow> string \<Rightarrow> int \<Rightarrow> string \<Rightarrow> bytes option"

definition plaintextOf :: "decryptor \<Rightarrow> InboundEncryptedPayload \<Rightarrow> jsValue" where
  "plaintextOf decryptMessage p =
     (case decryptMessage (inSessionPickle p) (inPickleKeyHex p) (inMessageType p) (inCiphertext p) of
        None \<Rightarrow> VStr ''[Decryption Failed]''
      | Some bs \<Rightarrow> (case textDecode bs of Some t \<Rightarrow> VStr t | None \<Rightarrow> VWide bs))"

definition inboundTime :: "int \<Rightarrow> int option \<Rightarrow> int" where
  "inboundTime now stamp = (case stamp of Some t \<Rightarrow> if t \<noteq> 0 then t else now | None \<Rightarrow> now)"

definition inboundRecord :: "fieldMode \<Rightarrow> int \<Rightarrow> InboundEncryptedPayload \<Rightarrow> jsValue \<Rightarrow> modelObj \<Rightarrow> modelObj" where
  "inboundRecord mode now p txt x =
     setField mode fCreatedAt (VDate (inboundTime now (inTimestamp p)))
       (setField mode fMessageType (VStr ''text'')
       (setField mode fStatus (VStr ''delivered'')
       (setField mode fText txt
       (setField mode fSequenceNum (VNum (inSequenceNum p))
       (setField mode fClientMsgId (VStr (inMessageId p))
       (setField mode fSenderId (VStr (inSenderId p))
       (setField mode fChannelId (VStr (inChannelId p)) (setId (inMessageId p) x))))))))"

definition unreadOf :: "fieldMode \<Rightarrow> modelObj \<Rightarrow> int" where
  "unreadOf mode x = (case getField mode fUnreadCount x of Some (VNum n) \<Rightarrow> n | _ \<Rightarrow> 0)"

definition noteActivity :: "fieldMode \<Rightarrow> int \<Rightarrow> modelObj \<Rightarrow> modelObj" where
  "noteActivity mode now x =
     (let x1 = setField mode fLastMessageAt (VDate now) x
      in setField mode fUnreadCount (VNum (unreadOf mode x1 + 1)) x1)"

text \<open>The body of the loop over a batch, with the clock and the identifier \<open>create\<close> draws\<close>

definition inboundItem :: "fieldMode \<Rightarrow> decryptor \<Rightarrow> InboundEncryptedPayload \<times> int \<times> string \<Rightarrow> localDb \<Rightarrow> localDb" where
  "inboundItem mode decryptMessage e db =
     (case e of (p, now, defaultId) \<Rightarrow>
        let db1 = snd (collCreate Messages defaultId (inboundRecord mode now p (plaintextOf decryptMessage p)) db)
        in case collFind Channels (inChannelId p) db1 of
             None \<Rightarrow> db1
           | Some a \<Rightarrow> updateObj (noteActivity mode now) a db1)"

text \<open>\<open>batch\<close> is the rest of the batch of a running \<open>flushQueue\<close>, \<^const>\<open>None\<close> while none runs.\<close>

record inbound =
  rdb :: localDb
  queue :: "InboundEncryptedPayload list"
  batch :: "InboundEncryptedPayload list option"
  batchTimer :: bool

definition newInbound :: "localDb \<Rightarrow> inbound" where
  "newInbound db = \<lparr>rdb = db, queue = [], batch = None, batchTimer = False\<rparr>"

definition scheduleBatch :: "inbound \<Rightarrow> inbound" where
  "scheduleBatch s = (if batchTimer s \<or> batch s \<noteq> None then s else s\<lparr>batchTimer := True\<rparr>)"

definition enqueue :: "InboundEncryptedPayload \<Rightarrow> inbound \<Rightarrow> inbound" where
  "enqueue p s = scheduleBatch (s\<lparr>queue := queue s @ [p]\<rparr>)"

definition flushInbound :: "inbound \<Rightarrow> inbound" where
  "flushInbound s = (if queue s = [] \<or> batch s \<noteq> None then s else s\<lparr>batch := Some (queue s), queue := []\<rparr>)"

definition batchStep :: "fieldMode \<Rightarrow> decryptor \<Rightarrow> int \<Rightarrow> string \<Rightarrow> inbound \<Rightarrow> inbound" where
  "batchStep mode decryptMessage now defaultId s =
     (case batch s of
        Some (p # ps) \<Rightarrow> s\<lparr>rdb := inboundItem mode decryptMessage (p, now, defaultId) (rdb s), batch := Some ps\<rparr>
      | _ \<Rightarrow> s)"

text \<open>The \<open>finally\<close> block\<close>

definition batchEnd :: "inbound \<Rightarrow> inbound" where
  "batchEnd s =
     (if batch s = Some []
      then let s1 = s\<lparr>batch := None\<rparr> in if queue s1 \<noteq> [] then scheduleBatch s1 else s1
      else s)"

definition batchFired :: "inbound \<Rightarrow> inbound" where
  "batchFired s = (if batchTimer s then flushInbound (s\<lparr>batchTimer := False\<rparr>) else s)"

datatype inboundEvent = Enqueue InboundEncryptedPayload | Flush | Fired | Item int string | EndBatch

fun inboundStep :: "fieldMode \<Rightarrow> decryptor \<Rightarrow> inboundEvent \<Rightarrow> inbound \<Rightarrow> inbound" where
  "inboundStep mode d (Enqueue p) s = enqueue p s"
| "inboundStep mode d Flush s = flushInbound s"
| "inboundStep mode d Fired s = batchFired s"
| "inboundStep mode d (Item now i) s = batchStep mode d now i s"
| "inboundStep mode d EndBatch s = batchEnd s"

section \<open>The operations of the database context\<close>

record inboundMessage =
  imId :: string
  imChannelId :: string
  imSenderId :: string
  imText :: jsValue
  imSequenceNum :: "int option"
  imStatus :: "string option"
  imMediaId :: "string option"
  imCreatedAt :: "int option"

definition setOptional :: "fieldMode \<Rightarrow> column \<Rightarrow> jsValue option \<Rightarrow> modelObj \<Rightarrow> modelObj" where
  "setOptional mode f v x = (case v of Some w \<Rightarrow> setField mode f w x | None \<Rightarrow> x)"

definition givenString :: "string option \<Rightarrow> string option" where
  "givenString v = (case v of Some x \<Rightarrow> if x \<noteq> [] then Some x else None | None \<Rightarrow> None)"

definition noteLastMessage :: "fieldMode \<Rightarrow> string \<Rightarrow> int \<Rightarrow> localDb \<Rightarrow> localDb" where
  "noteLastMessage mode channel time db =
     (case collFind Channels channel db of
        None \<Rightarrow> db
      | Some c \<Rightarrow> collPut Channels c (updateObj (setField mode fLastMessageAt (VDate time)) c db))"

definition persistInboundMessage :: "fieldMode \<Rightarrow> int \<Rightarrow> string \<Rightarrow> inboundMessage \<Rightarrow> localDb \<Rightarrow> nat \<times> localDb" where
  "persistInboundMessage mode now defaultId m db =
     (case collFind Messages (imId m) db of
        Some a \<Rightarrow>
          (a, collPut Messages a
                (updateObj (\<lambda>x. setOptional mode fSequenceNum (map_option VNum (imSequenceNum m))
                                 (setOptional mode fStatus (map_option VStr (givenString (imStatus m)))
                                 (setField mode fText (imText m) x))) a db))
      | None \<Rightarrow>
          (case collCreate Messages defaultId
                  (\<lambda>x. setField mode fCreatedAt (VDate (case imCreatedAt m of Some t \<Rightarrow> t | None \<Rightarrow> now))
                     (setOptional mode fMediaId (map_option VStr (givenString (imMediaId m)))
                     (setField mode fMessageType (VStr (if givenString (imMediaId m) \<noteq> None then ''media'' else ''text''))
                     (setField mode fStatus (VStr (case givenString (imStatus m) of Some st \<Rightarrow> st | None \<Rightarrow> ''delivered''))
                     (setField mode fText (imText m)
                     (setOptional mode fSequenceNum (map_option VNum (imSequenceNum m))
                     (setField mode fClientMsgId (VStr (imId m))
                     (setField mode fSenderId (VStr (imSenderId m))
                     (setField mode fChannelId (VStr (imChannelId m)) (setId (imId m) x)))))))))) db
           of (a, db1) \<Rightarrow>
             (a, noteLastMessage mode (imChannelId m) (case imCreatedAt m of Some t \<Rightarrow> t | None \<Rightarrow> now) db1)))"

definition persistOutboundMessage ::
  "fieldMode \<Rightarrow> int \<Rightarrow> string \<Rightarrow> string \<Rightarrow> string \<Rightarrow> string \<Rightarrow> jsValue \<Rightarrow> string \<Rightarrow> string option \<Rightarrow> localDb \<Rightarrow> nat \<times> localDb" where
  "persistOutboundMessage mode now defaultId i channel sender txt clientId st db =
     (case collCreate Messages defaultId
             (\<lambda>x. setField mode fCreatedAt (VDate now)
                (setField mode fMessageType (VStr ''text'')
                (setField mode fStatus (VStr (case givenString st of Some w \<Rightarrow> w | None \<Rightarrow> ''sent''))
                (setField mode fText txt
                (setField mode fClientMsgId (VStr clientId)
                (setField mode fSenderId (VStr sender)
                (setField mode fChannelId (VStr channel) (setId i x)))))))) db
      of (a, db1) \<Rightarrow> (a, noteLastMessage mode channel now db1))"

definition createdTime :: "fieldMode \<Rightarrow> modelObj \<Rightarrow> int" where
  "createdTime mode x = (case getField mode fCreatedAt x of Some (VDate t) \<Rightarrow> t | _ \<Rightarrow> 0)"

definition getLocalMessages :: "fieldMode \<Rightarrow> string \<Rightarrow> localDb \<Rightarrow> nat list" where
  "getLocalMessages mode channel db =
     sort_key (\<lambda>a. createdTime mode (heap db ! a)) (collQuery Messages [(''channel_id'', VStr channel)] db)"

definition upsertChannel ::
  "fieldMode \<Rightarrow> int \<Rightarrow> string \<Rightarrow> string \<Rightarrow> string \<Rightarrow> string \<Rightarrow> int option \<Rightarrow> localDb \<Rightarrow> nat \<times> localDb" where
  "upsertChannel mode now defaultId channel chanName kind lastAt db =
     (case collFind Channels channel db of
        Some a \<Rightarrow>
          (a, collPut Channels a
                (updateObj (\<lambda>x. setOptional mode fLastMessageAt (map_option VDate lastAt)
                                 (setField mode fChannelType (VStr kind) (setField mode fName (VStr chanName) x))) a db))
      | None \<Rightarrow>
          collCreate Channels defaultId
            (\<lambda>x. setField mode fLastMessageAt (case lastAt of Some t \<Rightarrow> VDate t | None \<Rightarrow> VNull)
               (setField mode fUpdatedAt (VDate now)
               (setField mode fCreatedAt (VDate now)
               (setField mode fUnreadCount (VNum 0)
               (setField mode fChannelType (VStr kind)
               (setField mode fName (VStr chanName) (setId channel x))))))) db)"

section \<open>Search\<close>

text \<open>The terms, the stripping of a star and the test for a word boundary are those of the offline store.\<close>

fun zkScore :: "string \<Rightarrow> string list \<Rightarrow> nat \<Rightarrow> string list \<Rightarrow> (nat \<times> string list) option" where
  "zkScore txt [] sc sn = Some (sc, sn)"
| "zkScore txt (t # ts) sc sn =
     (case indexOf (toLowerCase txt) (cleanTerm t) of
        None \<Rightarrow> None
      | Some idx \<Rightarrow>
          zkScore txt ts (sc + (if boundaryBefore (toLowerCase txt) idx then 10 else 5))
            (sn @ [''...'' @ substring (idx - 20) (min (length txt) (idx + length (cleanTerm t) + 20)) txt @ ''...'']))"

record SearchOptions =
  optChannelId :: string
  optLimit :: nat
  optOffset :: nat

record SearchResult =
  srMessage :: nat
  srScore :: nat
  srSnippets :: "string list"

text \<open>A text with a code unit above 255 is not searched by the model.\<close>

definition zkText :: "fieldMode \<Rightarrow> modelObj \<Rightarrow> string option" where
  "zkText mode x =
     (case getField mode fText x of Some (VStr t) \<Rightarrow> Some t | Some (VWide bs) \<Rightarrow> None | _ \<Rightarrow> Some [])"

definition zkMatch :: "fieldMode \<Rightarrow> localDb \<Rightarrow> string list \<Rightarrow> nat \<Rightarrow> SearchResult option" where
  "zkMatch mode db terms a =
     Option.bind (zkText mode (heap db ! a)) (\<lambda>txt.
       map_option (\<lambda>(sc, sn). \<lparr>srMessage = a, srScore = sc, srSnippets = sn\<rparr>) (zkScore txt terms 0 []))"

definition zkSearch :: "fieldMode \<Rightarrow> string \<Rightarrow> SearchOptions \<Rightarrow> localDb \<Rightarrow> SearchResult list" where
  "zkSearch mode query opts db =
     (let terms = searchTerms query
      in if terms = [] then []
         else let pool = (if optChannelId opts \<noteq> []
                          then filter (\<lambda>a. getField mode fChannelId (heap db ! a) = Some (VStr (optChannelId opts)))
                                 (collAll Messages db)
                          else collAll Messages db);
                  results = sort_key (\<lambda>r. (- int (srScore r), - createdTime mode (heap db ! srMessage r)))
                              (List.map_filter (zkMatch mode db terms) pool)
              in take (if optLimit opts = 0 then 50 else optLimit opts) (drop (optOffset opts) results))"

section \<open>Fields\<close>

text \<open>Two fields that share neither a property nor a column.\<close>

definition apart :: "column \<Rightarrow> column \<Rightarrow> bool" where
  "apart f g \<longleftrightarrow> propertyKey f \<noteq> propertyKey g \<and> columnName f \<noteq> columnName g
     \<and> propertyKey g \<noteq> columnName f \<and> columnName g \<noteq> propertyKey f"

lemma getField_setField_apart [simp]: "apart f g \<Longrightarrow> getField mode f (setField mode g v x) = getField mode f x"
  by (cases mode; cases "fieldKind f") (auto simp: getField_def setField_def apart_def Let_def)

lemma getField_setField_plain [simp]:
  "fieldKind f = PlainField \<Longrightarrow> getField mode f (setField mode f v x) = Some v"
  by (cases mode; cases "fieldKind f") (auto simp: getField_def setField_def nullish_def Let_def)

lemma getField_setField_date [simp]:
  "fieldKind f = DateField \<Longrightarrow> t \<noteq> 0 \<Longrightarrow> getField mode f (setField mode f (VDate t) x) = Some (VDate t)"
  by (cases mode; cases "fieldKind f") (auto simp: getField_def setField_def nullish_def Let_def)

lemma getField_setId [simp]: "columnName f \<noteq> ''id'' \<Longrightarrow> getField mode f (setId i x) = getField mode f x"
  by (cases mode; cases "fieldKind f") (auto simp: getField_def setId_def Let_def)

lemma getId_setId [simp]: "getId (setId i x) = i"
  by (simp add: getId_def setId_def)

lemma getId_setField [simp]: "propertyKey f \<noteq> ''id'' \<Longrightarrow> columnName f \<noteq> ''id'' \<Longrightarrow> getId (setField mode f v x) = getId x"
  by (cases mode) (auto simp: getId_def setField_def Let_def)

lemma column_facts [simp]:
  "fieldKind fChannelId = PlainField" "fieldKind fSenderId = PlainField" "fieldKind fClientMsgId = PlainField"
  "fieldKind fSequenceNum = PlainField" "fieldKind fText = PlainField" "fieldKind fStatus = PlainField"
  "fieldKind fMessageType = PlainField" "fieldKind fMediaId = PlainField" "fieldKind fCreatedAt = DateField"
  "fieldKind fUnreadCount = PlainField" "fieldKind fLastMessageAt = DateField"
  by (simp_all add: column_defs)

lemma apart_facts [simp]:
  "apart fText fCreatedAt" "apart fText fMessageType" "apart fText fStatus" "apart fText fMediaId" "apart fText fSequenceNum"
  "apart fStatus fCreatedAt" "apart fStatus fMessageType" "apart fStatus fMediaId" "apart fStatus fSequenceNum"
  "apart fSequenceNum fCreatedAt" "apart fSequenceNum fMessageType" "apart fSequenceNum fMediaId"
  "apart fSequenceNum fText" "apart fSequenceNum fStatus"
  "apart fSenderId fCreatedAt" "apart fSenderId fMessageType" "apart fSenderId fStatus" "apart fSenderId fText"
  "apart fSenderId fSequenceNum" "apart fSenderId fClientMsgId"
  "apart fChannelId fCreatedAt" "apart fChannelId fMessageType" "apart fChannelId fStatus" "apart fChannelId fText"
  "apart fChannelId fSequenceNum" "apart fChannelId fClientMsgId" "apart fChannelId fSenderId"
  "apart fClientMsgId fCreatedAt" "apart fClientMsgId fMessageType" "apart fClientMsgId fStatus" "apart fClientMsgId fText"
  "apart fClientMsgId fSequenceNum" "apart fUnreadCount fLastMessageAt"
  by (simp_all add: apart_def column_defs)

lemma column_not_id [simp]:
  "propertyKey fChannelId \<noteq> ''id''" "propertyKey fSenderId \<noteq> ''id''" "propertyKey fClientMsgId \<noteq> ''id''"
  "propertyKey fSequenceNum \<noteq> ''id''" "propertyKey fText \<noteq> ''id''" "propertyKey fStatus \<noteq> ''id''"
  "propertyKey fMessageType \<noteq> ''id''" "propertyKey fMediaId \<noteq> ''id''" "propertyKey fCreatedAt \<noteq> ''id''"
  "propertyKey fLastMessageAt \<noteq> ''id''" "propertyKey fUnreadCount \<noteq> ''id''" "propertyKey fName \<noteq> ''id''"
  "propertyKey fChannelType \<noteq> ''id''" "propertyKey fUpdatedAt \<noteq> ''id''"
  "columnName fChannelId \<noteq> ''id''" "columnName fSenderId \<noteq> ''id''" "columnName fClientMsgId \<noteq> ''id''"
  "columnName fSequenceNum \<noteq> ''id''" "columnName fText \<noteq> ''id''" "columnName fStatus \<noteq> ''id''"
  "columnName fMessageType \<noteq> ''id''" "columnName fMediaId \<noteq> ''id''" "columnName fCreatedAt \<noteq> ''id''"
  "columnName fLastMessageAt \<noteq> ''id''" "columnName fUnreadCount \<noteq> ''id''" "columnName fName \<noteq> ''id''"
  "columnName fChannelType \<noteq> ''id''" "columnName fUpdatedAt \<noteq> ''id''"
  by (simp_all add: column_defs)

section \<open>Well-formed databases\<close>

text \<open>Every entry of a collection points to an object with its identifier, and no object is in two collections.\<close>

definition wfDb :: "localDb \<Rightarrow> bool" where
  "wfDb db \<longleftrightarrow> (\<forall>t. wfMap (items db t))
     \<and> (\<forall>t i a. collFind t i db = Some a \<longrightarrow> a < length (heap db) \<and> getId (heap db ! a) = i)
     \<and> (\<forall>t t' i j a. collFind t i db = Some a \<longrightarrow> collFind t' j db = Some a \<longrightarrow> t = t')"

lemma wfDb_empty [simp]: "wfDb emptyDb"
  by (simp add: wfDb_def emptyDb_def collFind_def)

lemma collFind_bound: "wfDb db \<Longrightarrow> collFind t i db = Some a \<Longrightarrow> a < length (heap db) \<and> getId (heap db ! a) = i"
  by (simp add: wfDb_def)

lemma collFind_tables: "wfDb db \<Longrightarrow> collFind t i db = Some a \<Longrightarrow> collFind t' j db = Some a \<Longrightarrow> t = t'"
  unfolding wfDb_def by blast

lemma collFind_collAll: "wfDb db \<Longrightarrow> a \<in> set (collAll t db) \<longleftrightarrow> (\<exists>i. collFind t i db = Some a)"
proof -
  assume "wfDb db"
  then have "wfMap (items db t)" by (simp add: wfDb_def)
  then have "collFind t i db = Some a \<longleftrightarrow> (i, a) \<in> set (items db t)" for i by (simp add: collFind_def jsGet_mem)
  then show ?thesis by (force simp: collAll_def)
qed

text \<open>The effect of a creation on every collection and every older object\<close>

lemma collCreate_effect:
  fixes f d x i
  defines "x \<equiv> f \<lparr>raw = [], own = []\<rparr>"
  defines "i \<equiv> (if getId x \<noteq> [] then getId x else d)"
  shows "fst (collCreate t d f db) = length (heap db)"
    "heap (snd (collCreate t d f db)) = heap db @ [setId i x]"
    "collFind t' j (snd (collCreate t d f db)) = (if t' = t \<and> j = i then Some (length (heap db)) else collFind t' j db)"
  by (auto simp: collCreate_def Let_def x_def i_def collFind_def)

lemma wfDb_collCreate: "wfDb db \<Longrightarrow> wfDb (snd (collCreate t d f db))"
proof -
  assume ok: "wfDb db"
  let ?n = "length (heap db)" and ?db = "snd (collCreate t d f db)"
  have old: "a < ?n" "getId (heap db ! a) = i" if "collFind t' i db = Some a" for t' i a
    using collFind_bound [OF ok that] by simp_all
  have wf: "wfMap (items ?db t')" for t' using ok by (simp add: collCreate_def Let_def wfDb_def)
  have bound: "a < length (heap ?db) \<and> getId (heap ?db ! a) = i" if "collFind t' i ?db = Some a" for t' i a
    using that old [of t' i a] unfolding collCreate_effect by (cases "a = ?n") (simp_all add: nth_append split: if_splits)
  have disj: "t1 = t2" if "collFind t1 i ?db = Some a" "collFind t2 j ?db = Some a" for t1 t2 i j a
  proof (cases "a = ?n")
    case True
    with that old [of t1 i a] old [of t2 j a] show ?thesis unfolding collCreate_effect by (simp split: if_splits)
  next
    case False
    with that have "collFind t1 i db = Some a" "collFind t2 j db = Some a" unfolding collCreate_effect by (simp_all split: if_splits)
    then show ?thesis by (rule collFind_tables [OF ok])
  qed
  show ?thesis unfolding wfDb_def using wf bound disj by blast
qed

lemma collFind_updateObj [simp]: "collFind t i (updateObj f a db) = collFind t i db"
  by (simp add: collFind_def updateObj_def)

lemma heap_updateObj: "b < length (heap db) \<Longrightarrow> heap (updateObj f a db) ! b = (if a = b then f (heap db ! b) else heap db ! b)"
  by (simp add: updateObj_def nth_list_update)

lemma length_heap_updateObj [simp]: "length (heap (updateObj f a db)) = length (heap db)"
  by (simp add: updateObj_def)

lemma wfDb_updateObj: "(\<And>x. getId (f x) = getId x) \<Longrightarrow> wfDb db \<Longrightarrow> wfDb (updateObj f a db)"
  unfolding wfDb_def by (simp add: heap_updateObj) (simp add: updateObj_def)

lemma update_same: "map_of m k = Some v \<Longrightarrow> AList.update k v m = m"
  by (induction m) auto

lemma collPut_same: "wfDb db \<Longrightarrow> collFind t i db = Some a \<Longrightarrow> collPut t a db = db"
  using collFind_bound [of db t i a]
  by (auto simp: collPut_def collFind_def jsSet_def jsGet_def update_same intro!: localDb.equality ext)

section \<open>Batches of inbound messages\<close>

text \<open>The object stored under an identifier, and the unread counter of a channel.\<close>

definition messageAt :: "string \<Rightarrow> localDb \<Rightarrow> modelObj option" where
  "messageAt i db = map_option (\<lambda>a. heap db ! a) (collFind Messages i db)"

definition unreadAt :: "fieldMode \<Rightarrow> string \<Rightarrow> localDb \<Rightarrow> int option" where
  "unreadAt mode c db = map_option (\<lambda>a. unreadOf mode (heap db ! a)) (collFind Channels c db)"

lemma getId_inboundRecord [simp]: "getId (inboundRecord mode now p txt x) = inMessageId p"
  by (simp add: inboundRecord_def)

lemma inboundRecord_fields [simp]:
  "getField mode fText (setId i (inboundRecord mode now p txt x)) = Some txt"
  "getField mode fStatus (setId i (inboundRecord mode now p txt x)) = Some (VStr ''delivered'')"
  "getField mode fChannelId (setId i (inboundRecord mode now p txt x)) = Some (VStr (inChannelId p))"
  "getField mode fSenderId (setId i (inboundRecord mode now p txt x)) = Some (VStr (inSenderId p))"
  "getField mode fSequenceNum (setId i (inboundRecord mode now p txt x)) = Some (VNum (inSequenceNum p))"
  by (simp_all add: inboundRecord_def)

lemma unreadOf_noteActivity [simp]: "unreadOf mode (noteActivity mode now x) = unreadOf mode x + 1"
  by (simp add: unreadOf_def noteActivity_def Let_def)

lemma getId_noteActivity [simp]: "getId (noteActivity mode now x) = getId x"
  by (simp add: noteActivity_def Let_def)

definition inboundStored :: "fieldMode \<Rightarrow> decryptor \<Rightarrow> InboundEncryptedPayload \<Rightarrow> modelObj \<Rightarrow> bool" where
  "inboundStored mode d p x \<longleftrightarrow> getField mode fText x = Some (plaintextOf d p) \<and> getField mode fStatus x = Some (VStr ''delivered'')
     \<and> getField mode fChannelId x = Some (VStr (inChannelId p)) \<and> getField mode fSenderId x = Some (VStr (inSenderId p))
     \<and> getField mode fSequenceNum x = Some (VNum (inSequenceNum p))"

text \<open>One iteration of the loop: the channels and the other messages keep their identity.\<close>

lemma inboundItem_effect:
  fixes mode d now i c j
  assumes ok: "wfDb db" and ne: "inMessageId p \<noteq> []"
  defines "db' \<equiv> inboundItem mode d (p, now, i) db"
  shows "wfDb db'"
    "\<exists>x. messageAt (inMessageId p) db' = Some x \<and> inboundStored mode d p x"
    "j \<noteq> inMessageId p \<Longrightarrow> messageAt j db' = messageAt j db"
    "unreadAt mode c db' = map_option (\<lambda>n. if c = inChannelId p then n + 1 else n) (unreadAt mode c db)"
proof -
  define f where "f = inboundRecord mode now p (plaintextOf d p)"
  define db1 where "db1 = snd (collCreate Messages i f db)"
  have ok1: "wfDb db1" unfolding db1_def using ok by (rule wfDb_collCreate)
  have find1: "collFind t' k db1 = (if t' = Messages \<and> k = inMessageId p then Some (length (heap db)) else collFind t' k db)" for t' k
    using ne unfolding db1_def collCreate_effect by (simp add: f_def)
  have heap1: "heap db1 = heap db @ [setId (inMessageId p) (f \<lparr>raw = [], own = []\<rparr>)]"
    using ne unfolding db1_def collCreate_effect by (simp add: f_def)
  have db': "db' = (case collFind Channels (inChannelId p) db of None \<Rightarrow> db1 | Some a \<Rightarrow> updateObj (noteActivity mode now) a db1)"
    using find1 [of Channels "inChannelId p"] unfolding db1_def f_def by (simp add: db'_def inboundItem_def Let_def)
  then show "wfDb db'" using ok1 by (simp add: wfDb_updateObj split: option.splits)
  have find': "collFind t' k db' = collFind t' k db1" for t' k by (simp add: db' split: option.splits)
  have heap': "heap db' ! a = (if collFind Channels (inChannelId p) db = Some a then noteActivity mode now (heap db1 ! a) else heap db1 ! a)"
    if "a < length (heap db1)" for a using that by (auto simp: db' heap_updateObj split: option.splits)
  have old: "a < length (heap db)" if "collFind t' k db = Some a" for t' k a using collFind_bound [OF ok that] by simp
  have new: "collFind Channels (inChannelId p) db \<noteq> Some (length (heap db))" using old by blast
  show "\<exists>x. messageAt (inMessageId p) db' = Some x \<and> inboundStored mode d p x"
    using heap' [of "length (heap db)"] new by (simp add: messageAt_def find' find1 heap1 f_def inboundStored_def)
  have msg: "collFind Channels (inChannelId p) db \<noteq> Some a" if "collFind Messages k db = Some a" for k a
    using collFind_tables [OF ok that] by auto
  show "messageAt j db' = messageAt j db" if "j \<noteq> inMessageId p"
  proof (cases "collFind Messages j db")
    case (Some a)
    with that old [OF Some] heap' [of a] msg [OF Some] show ?thesis by (simp add: messageAt_def find' find1 heap1 nth_append)
  qed (use that in \<open>simp add: messageAt_def find' find1\<close>)
  have chan: "c = inChannelId p" if "collFind Channels c db = Some a" "collFind Channels (inChannelId p) db = Some a" for a
    using collFind_bound [OF ok that(1)] collFind_bound [OF ok that(2)] by simp
  show "unreadAt mode c db' = map_option (\<lambda>n. if c = inChannelId p then n + 1 else n) (unreadAt mode c db)"
  proof (cases "collFind Channels c db")
    case (Some a)
    then have a: "a < length (heap db)" by (rule old)
    with Some have "heap db' ! a = (if c = inChannelId p then noteActivity mode now (heap db ! a) else heap db ! a)"
      using heap' [of a] chan by (auto simp: heap1 nth_append)
    with Some show ?thesis by (simp add: unreadAt_def find' find1)
  qed (simp add: unreadAt_def find' find1)
qed

text \<open>The messages after a sequence of iterations: the last payload with an identifier decides.\<close>

lemma wfDb_inboundItems:
  "wfDb db0 \<Longrightarrow> \<forall>e \<in> set es. inMessageId (fst e) \<noteq> [] \<Longrightarrow> wfDb (fold (inboundItem mode d) es db0)"
proof (induction es rule: rev_induct)
  case (snoc e es)
  obtain p now k where e: "e = (p, now, k)" by (cases e)
  from snoc show ?case by (simp add: e inboundItem_effect(1))
qed simp

lemma messageAt_inboundItems:
  assumes "wfDb db0" "\<forall>e \<in> set es. inMessageId (fst e) \<noteq> []" "filter (\<lambda>e. inMessageId (fst e) = i) es \<noteq> []"
  shows "\<exists>x. messageAt i (fold (inboundItem mode d) es db0) = Some x
    \<and> inboundStored mode d (fst (last (filter (\<lambda>e. inMessageId (fst e) = i) es))) x"
  using assms
proof (induction es rule: rev_induct)
  case (snoc e es)
  obtain p now k where e: "e = (p, now, k)" by (cases e)
  from snoc.prems(2) have ne: "inMessageId p \<noteq> []" "\<forall>e \<in> set es. inMessageId (fst e) \<noteq> []" by (auto simp: e)
  have ok: "wfDb (fold (inboundItem mode d) es db0)" using snoc.prems(1) ne(2) by (rule wfDb_inboundItems)
  show ?case
  proof (cases "i = inMessageId p")
    case True
    then show ?thesis using inboundItem_effect(2) [OF ok ne(1), of mode d now k] by (simp add: e)
  next
    case False
    then have "messageAt i (fold (inboundItem mode d) (es @ [e]) db0) = messageAt i (fold (inboundItem mode d) es db0)"
      using inboundItem_effect(3) [OF ok ne(1) False] by (simp add: e)
    then show ?thesis using False snoc.prems ne snoc.IH by (simp add: e)
  qed
qed simp

lemma unreadAt_inboundItems:
  assumes "wfDb db0" "\<forall>e \<in> set es. inMessageId (fst e) \<noteq> []"
  shows "unreadAt mode c (fold (inboundItem mode d) es db0)
    = map_option (\<lambda>n. n + int (length (filter (\<lambda>e. inChannelId (fst e) = c) es))) (unreadAt mode c db0)"
  using assms
proof (induction es rule: rev_induct)
  case (snoc e es)
  obtain p now k where e: "e = (p, now, k)" by (cases e)
  from snoc.prems(2) have ne: "inMessageId p \<noteq> []" "\<forall>e \<in> set es. inMessageId (fst e) \<noteq> []" by (auto simp: e)
  have ok: "wfDb (fold (inboundItem mode d) es db0)" using snoc.prems(1) ne(2) by (rule wfDb_inboundItems)
  show ?case
    using inboundItem_effect(4) [OF ok ne(1), of mode c d now k] snoc.prems(1) ne snoc.IH
    by (cases "unreadAt mode c db0") (auto simp: e)
qed (simp add: option.map_ident)

text \<open>Nothing is lost between arrival and the database, and a waiting queue has a timer or a running batch.\<close>

fun enqueued :: "inboundEvent \<Rightarrow> InboundEncryptedPayload list" where
  "enqueued (Enqueue p) = [p]"
| "enqueued _ = []"

definition unfinished :: "inbound \<Rightarrow> InboundEncryptedPayload list" where
  "unfinished s = (case batch s of Some ps \<Rightarrow> ps | None \<Rightarrow> []) @ queue s"

definition inboundInv :: "fieldMode \<Rightarrow> decryptor \<Rightarrow> localDb \<Rightarrow> InboundEncryptedPayload list \<Rightarrow> inbound \<Rightarrow> bool" where
  "inboundInv mode d db0 h s \<longleftrightarrow>
     (\<exists>es. h = map fst es @ unfinished s \<and> rdb s = fold (inboundItem mode d) es db0)
     \<and> (queue s \<noteq> [] \<longrightarrow> batchTimer s \<or> batch s \<noteq> None)"

lemma inboundInv_batchStep:
  assumes "inboundInv mode d db0 h s"
  shows "inboundInv mode d db0 h (batchStep mode d now i s)"
proof (cases "\<exists>p ps. batch s = Some (p # ps)")
  case True
  then obtain p ps where b: "batch s = Some (p # ps)" by blast
  from assms obtain es where es: "h = map fst es @ unfinished s" "rdb s = fold (inboundItem mode d) es db0"
    by (auto simp: inboundInv_def)
  have "h = map fst (es @ [(p, now, i)]) @ unfinished (batchStep mode d now i s)
      \<and> rdb (batchStep mode d now i s) = fold (inboundItem mode d) (es @ [(p, now, i)]) db0"
    using es b by (simp add: batchStep_def unfinished_def)
  moreover have "batch (batchStep mode d now i s) \<noteq> None" using b by (simp add: batchStep_def)
  ultimately show ?thesis unfolding inboundInv_def by blast
next
  case False
  then have "batchStep mode d now i s = s" by (auto simp: batchStep_def split: option.splits list.splits)
  with assms show ?thesis by simp
qed

lemma inboundInv_cong:
  "inboundInv mode d db0 h s \<Longrightarrow> rdb s' = rdb s \<Longrightarrow> unfinished s' = unfinished s @ ps
    \<Longrightarrow> (queue s' \<noteq> [] \<longrightarrow> batchTimer s' \<or> batch s' \<noteq> None) \<Longrightarrow> inboundInv mode d db0 (h @ ps) s'"
  unfolding inboundInv_def by (metis append.assoc)

lemmas inbound_defs = enqueue_def scheduleBatch_def flushInbound_def batchEnd_def batchFired_def unfinished_def

interpretation inbound: history_system "inboundStep mode d" enqueued "\<lambda>_. True" "inboundInv mode d db0" for mode d db0
proof unfold_locales
  fix h e s
  assume inv: "inboundInv mode d db0 h s"
  then have q: "queue s \<noteq> [] \<longrightarrow> batchTimer s \<or> batch s \<noteq> None" by (simp add: inboundInv_def)
  let ?s = "inboundStep mode d e s"
  show "inboundInv mode d db0 (h @ enqueued e) ?s"
  proof (cases "\<exists>now i. e = Item now i")
    case True
    with inv show ?thesis by (auto simp: inboundInv_batchStep)
  next
    case False
    then have "rdb ?s = rdb s" "unfinished ?s = unfinished s @ enqueued e" "queue ?s \<noteq> [] \<longrightarrow> batchTimer ?s \<or> batch ?s \<noteq> None"
      using q by (cases e; auto simp: inbound_defs Let_def split: option.splits)+
    then show ?thesis by (rule inboundInv_cong [OF inv])
  qed
qed simp

text \<open>The timer and the running batch alone bring every message into the database.\<close>

lemma finish_batch:
  "batch s = Some ps \<Longrightarrow>
    \<exists>s'. fold (inboundStep mode d) (replicate (length ps) (Item now i) @ [EndBatch]) s = s'
      \<and> batch s' = None \<and> queue s' = queue s \<and> (queue s \<noteq> [] \<longrightarrow> batchTimer s')"
proof (induction ps arbitrary: s)
  case Nil
  then show ?case by (simp add: batchEnd_def scheduleBatch_def Let_def)
next
  case (Cons p ps)
  then have "batch (batchStep mode d now i s) = Some ps" "queue (batchStep mode d now i s) = queue s"
    by (simp_all add: batchStep_def)
  with Cons.IH show ?case by simp
qed

lemma inbound_drains:
  assumes "queue s \<noteq> [] \<longrightarrow> batchTimer s \<or> batch s \<noteq> None"
  shows "\<exists>more. set more \<subseteq> {Fired, Item now i, EndBatch} \<and> unfinished (fold (inboundStep mode d) more s) = []"
proof -
  define m1 where "m1 = (case batch s of Some ps \<Rightarrow> replicate (length ps) (Item now i) @ [EndBatch] | None \<Rightarrow> [])"
  define s1 where "s1 = fold (inboundStep mode d) m1 s"
  have s1: "batch s1 = None" "queue s1 \<noteq> [] \<longrightarrow> batchTimer s1"
    using assms finish_batch [of s _ mode d now i] by (auto simp: s1_def m1_def split: option.splits)
  define s2 where "s2 = batchFired s1"
  define m2 where "m2 = (case batch s2 of Some ps \<Rightarrow> replicate (length ps) (Item now i) @ [EndBatch] | None \<Rightarrow> [])"
  have s2: "queue s2 = []" using s1 by (auto simp: s2_def batchFired_def flushInbound_def)
  then have "unfinished (fold (inboundStep mode d) m2 s2) = []"
    using finish_batch [of s2 _ mode d now i] by (auto simp: m2_def unfinished_def split: option.splits)
  then have "unfinished (fold (inboundStep mode d) (m1 @ [Fired] @ m2) s) = []" by (simp add: s1_def s2_def)
  moreover have "set (m1 @ [Fired] @ m2) \<subseteq> {Fired, Item now i, EndBatch}"
    by (auto simp: m1_def m2_def split: option.splits)
  ultimately show ?thesis by blast
qed

text \<open>
  C15. The inbound queue loses and repeats nothing. After any sequence of arrivals, timers, explicit
  flushes and steps of a batch, the payloads that arrived are, in order, those handled, the rest of
  the running batch and the queue; a queue that is not empty has its timer set or a batch running,
  and these alone empty it. For every identifier that was handled, the database holds the message of the
  last payload with it, decrypted or marked as undecryptable, and the unread counter of every known
  channel has grown by the number of payloads handled for it.
\<close>
theorem inbound_exactly_once:
  assumes "wfDb db0" "\<forall>p \<in> set (concat (map enqueued events)). inMessageId p \<noteq> []"
    and "s = fold (inboundStep mode d) events (newInbound db0)"
  shows "\<exists>handled. concat (map enqueued events) = handled @ unfinished s
    \<and> (queue s \<noteq> [] \<longrightarrow> batchTimer s \<or> batch s \<noteq> None)
    \<and> (\<exists>more. set more \<subseteq> {Fired, Item now i, EndBatch} \<and> unfinished (fold (inboundStep mode d) more s) = [])
    \<and> (\<forall>k. filter (\<lambda>p. inMessageId p = k) handled \<noteq> [] \<longrightarrow>
          (\<exists>x. messageAt k (rdb s) = Some x \<and> inboundStored mode d (last (filter (\<lambda>p. inMessageId p = k) handled)) x))
    \<and> (\<forall>c. unreadAt mode c (rdb s)
          = map_option (\<lambda>n. n + int (length (filter (\<lambda>p. inChannelId p = c) handled))) (unreadAt mode c db0))"
proof -
  have "inboundInv mode d db0 [] (newInbound db0)"
    unfolding inboundInv_def newInbound_def by (auto simp: unfinished_def intro: exI [of _ "[]"])
  then have "inboundInv mode d db0 (concat (map enqueued events)) s" unfolding assms(3) by (rule inbound.inv_run) simp
  then obtain es where es: "concat (map enqueued events) = map fst es @ unfinished s" "rdb s = fold (inboundItem mode d) es db0"
      and q: "queue s \<noteq> [] \<longrightarrow> batchTimer s \<or> batch s \<noteq> None"
    unfolding inboundInv_def by blast
  have "\<forall>p \<in> set (map fst es). inMessageId p \<noteq> []" using assms(2) unfolding es(1) by simp
  then have ne: "\<forall>e \<in> set es. inMessageId (fst e) \<noteq> []" by simp
  have f: "filter P (map fst es) = map fst (filter (\<lambda>e. P (fst e)) es)" for P by (induction es) simp_all
  show ?thesis
  proof (intro exI [of _ "map fst es"] conjI allI impI)
    fix k assume "filter (\<lambda>p. inMessageId p = k) (map fst es) \<noteq> []"
    then show "\<exists>x. messageAt k (rdb s) = Some x \<and> inboundStored mode d (last (filter (\<lambda>p. inMessageId p = k) (map fst es))) x"
      using messageAt_inboundItems [OF assms(1) ne, of k mode d] by (simp add: f es(2) last_map)
  next
    fix c
    show "unreadAt mode c (rdb s)
        = map_option (\<lambda>n. n + int (length (filter (\<lambda>p. inChannelId p = c) (map fst es)))) (unreadAt mode c db0)"
      unfolding es(2) f length_map by (rule unreadAt_inboundItems [OF assms(1) ne])
  qed (use es q inbound_drains [OF q] in blast)+
qed

definition examplePayload :: InboundEncryptedPayload where
  "examplePayload = \<lparr>inChannelId = ''c'', inSenderId = ''bob'', inMessageId = ''m1'', inSequenceNum = 4, inCiphertext = ''YQ=='',
     inMessageType = 1, inSessionPickle = ''s'', inPickleKeyHex = ''k'', inTimestamp = None\<rparr>"

theorem inbound_exactly_once_witness:
  "\<exists>x. messageAt ''m1'' (rdb (fold (inboundStep OwnFields (\<lambda>_ _ _ _. Some [97]))
        [Enqueue examplePayload, Fired, Item 5 ''x''] (newInbound emptyDb))) = Some x
    \<and> inboundStored OwnFields (\<lambda>_ _ _ _. Some [97]) examplePayload x"
proof -
  let ?d = "\<lambda>_ _ _ _. Some [97]" and ?es = "[Enqueue examplePayload, Fired, Item 5 ''x'']"
  let ?s = "fold (inboundStep OwnFields ?d) ?es (newInbound emptyDb)"
  have ne: "\<forall>p \<in> set (concat (map enqueued ?es)). inMessageId p \<noteq> []" and i: "inMessageId examplePayload = ''m1''"
    by (simp_all add: examplePayload_def)
  have u: "unfinished ?s = []"
    by (simp add: newInbound_def inbound_defs batchStep_def Let_def)
  from inbound_exactly_once [OF wfDb_empty ne refl, of OwnFields ?d] u obtain handled where h: "concat (map enqueued ?es) = handled"
      "\<forall>k. filter (\<lambda>p. inMessageId p = k) handled \<noteq> [] \<longrightarrow>
        (\<exists>x. messageAt k (rdb ?s) = Some x \<and> inboundStored OwnFields ?d (last (filter (\<lambda>p. inMessageId p = k) handled)) x)"
    by auto
  then have "handled = [examplePayload]" by simp
  with h(2) [rule_format, of "''m1''"] i show ?thesis by simp
qed

section \<open>Queries by column\<close>

text \<open>
  The column by which the messages of a channel are queried mirrors the property only if the
  accessors are reached.
\<close>

definition mirrors :: "fieldMode \<Rightarrow> column \<Rightarrow> modelObj \<Rightarrow> bool" where
  "mirrors mode f x \<longleftrightarrow>
     jsGet (raw x) (columnName f)
       = (case mode of Accessors \<Rightarrow> jsGet (own x) (CHR ''_'' # propertyKey f) | OwnFields \<Rightarrow> None)"

abbreviation mirrored :: "fieldMode \<Rightarrow> modelObj \<Rightarrow> bool" where
  "mirrored mode x \<equiv> mirrors mode fChannelId x \<and> mirrors mode fClientMsgId x"

lemma mirrors_query: "mirrors Accessors f x \<Longrightarrow> fieldKind f = PlainField \<Longrightarrow> jsGet (raw x) (columnName f) = getField Accessors f x"
  by (auto simp: mirrors_def getField_def nullish_def Let_def)

lemma mirrors_new [simp]: "mirrors mode f \<lparr>raw = [], own = []\<rparr>"
  by (simp add: mirrors_def split: fieldMode.splits)

lemma mirrors_setId [simp]: "columnName f \<noteq> ''id'' \<Longrightarrow> mirrors mode f (setId i x) = mirrors mode f x"
  by (cases mode) (auto simp: mirrors_def setId_def)

lemma mirrors_setField:
  "mirrors mode f x \<Longrightarrow> apart f g \<or> f = g \<and> propertyKey f \<noteq> columnName f \<and> fieldKind f = PlainField \<Longrightarrow> mirrors mode f (setField mode g v x)"
  by (cases mode) (auto simp: mirrors_def setField_def apart_def Let_def)

lemma mirrored_setField [simp]:
  "mirrored mode x \<Longrightarrow> apart fChannelId g \<or> g = fChannelId \<Longrightarrow> apart fClientMsgId g \<or> g = fClientMsgId
    \<Longrightarrow> mirrored mode (setField mode g v x)"
  by (intro conjI mirrors_setField) (auto simp: column_defs)

lemma apart_mirrored [simp]:
  "apart fChannelId fMediaId" "apart fChannelId fName" "apart fChannelId fChannelType" "apart fChannelId fLastMessageAt"
  "apart fChannelId fUnreadCount" "apart fChannelId fUpdatedAt"
  "apart fClientMsgId fChannelId" "apart fClientMsgId fSenderId" "apart fClientMsgId fMediaId" "apart fClientMsgId fName"
  "apart fClientMsgId fChannelType" "apart fClientMsgId fLastMessageAt" "apart fClientMsgId fUnreadCount" "apart fClientMsgId fUpdatedAt"
  by (simp_all add: apart_def column_defs)

lemma mirrored_setOptional [simp]:
  "mirrored mode x \<Longrightarrow> apart fChannelId g \<Longrightarrow> apart fClientMsgId g \<Longrightarrow> mirrored mode (setOptional mode g v x)"
  by (cases v) (simp_all add: setOptional_def)

definition dbMirrored :: "fieldMode \<Rightarrow> localDb \<Rightarrow> bool" where
  "dbMirrored mode db \<longleftrightarrow> (\<forall>x \<in> set (heap db). mirrored mode x)"

lemma dbMirrored_create:
  "dbMirrored mode db \<Longrightarrow> mirrored mode (f \<lparr>raw = [], own = []\<rparr>) \<Longrightarrow> dbMirrored mode (snd (collCreate t d f db))"
  by (auto simp: dbMirrored_def collCreate_effect)

lemma dbMirrored_update:
  assumes "dbMirrored mode db" "\<And>x. mirrored mode x \<Longrightarrow> mirrored mode (f x)"
  shows "dbMirrored mode (updateObj f a db)"
proof (cases "a < length (heap db)")
  case True
  with assms have "mirrored mode (f (heap db ! a))" by (simp add: dbMirrored_def)
  with assms(1) show ?thesis unfolding dbMirrored_def updateObj_def by (auto dest!: set_update_subset_insert [THEN subsetD])
next
  case False
  with assms(1) show ?thesis by (simp add: dbMirrored_def updateObj_def list_update_beyond)
qed

lemma dbMirrored_put [simp]: "dbMirrored mode (collPut t a db) = dbMirrored mode db"
  by (simp add: dbMirrored_def collPut_def)

text \<open>The operations on a database\<close>

datatype localOp =
  PersistInbound int string inboundMessage
| PersistOutbound int string string string string jsValue string "string option"
| UpsertChannel int string string string string "int option"
| HandleInbound "InboundEncryptedPayload \<times> int \<times> string"
| OutboxCreate int string string string string string
| OutboxUpdate "OutboxAck option" nat
| ReconcileAck OutboxAck

fun localStep :: "fieldMode \<Rightarrow> decryptor \<Rightarrow> localOp \<Rightarrow> localDb \<Rightarrow> localDb" where
  "localStep mode d (PersistInbound now i m) db = snd (persistInboundMessage mode now i m db)"
| "localStep mode d (PersistOutbound now i k c sender txt ci st) db = snd (persistOutboundMessage mode now i k c sender txt ci st db)"
| "localStep mode d (UpsertChannel now i c n k l) db = snd (upsertChannel mode now i c n k l db)"
| "localStep mode d (HandleInbound e) db = inboundItem mode d e db"
| "localStep mode d (OutboxCreate now u i c sender txt) db =
     snd (collCreate Messages i (pendingRecord mode now (''msg_'' @ u) c sender txt) db)"
| "localStep mode d (OutboxUpdate answer a) db =
     updateObj (case answer of Some ack \<Rightarrow> sentRecord mode ack | None \<Rightarrow> failedRecord mode) a db"
| "localStep mode d (ReconcileAck ack) db = reconcileAck mode ack db"

lemma dbMirrored_noteLast: "dbMirrored mode db \<Longrightarrow> dbMirrored mode (noteLastMessage mode c t db)"
  by (auto simp: noteLastMessage_def intro!: dbMirrored_update split: option.splits)

lemma mirrored_sent: "mirrored mode x \<Longrightarrow> mirrored mode (sentRecord mode ack x)"
  by (simp add: sentRecord_def)

lemma dbMirrored_persistInbound: "dbMirrored mode db \<Longrightarrow> dbMirrored mode (snd (persistInboundMessage mode now i m db))"
  by (auto simp: persistInboundMessage_def split_beta split: option.split
      intro!: dbMirrored_noteLast dbMirrored_update dbMirrored_create)

lemma dbMirrored_persistOutbound:
  "dbMirrored mode db \<Longrightarrow> dbMirrored mode (snd (persistOutboundMessage mode now i k c sender txt ci st db))"
  by (simp add: persistOutboundMessage_def split_beta dbMirrored_noteLast dbMirrored_create)

lemma dbMirrored_upsert: "dbMirrored mode db \<Longrightarrow> dbMirrored mode (snd (upsertChannel mode now i c n k l db))"
  by (auto simp: upsertChannel_def split: option.split intro!: dbMirrored_update dbMirrored_create)

lemma dbMirrored_inboundItem: "dbMirrored mode db \<Longrightarrow> dbMirrored mode (inboundItem mode d e db)"
  by (cases e) (auto simp: inboundItem_def Let_def inboundRecord_def noteActivity_def
      intro!: dbMirrored_create dbMirrored_update split: option.split)

lemma dbMirrored_outbox:
  "dbMirrored mode db \<Longrightarrow> dbMirrored mode (snd (collCreate Messages i (pendingRecord mode now u c sender txt) db))"
  "dbMirrored mode db \<Longrightarrow> dbMirrored mode (updateObj (sentRecord mode ack) a db)"
  "dbMirrored mode db \<Longrightarrow> dbMirrored mode (updateObj (failedRecord mode) a db)"
  by (simp_all add: pendingRecord_def failedRecord_def dbMirrored_create dbMirrored_update mirrored_sent)

lemma dbMirrored_step: "dbMirrored mode db \<Longrightarrow> dbMirrored mode (localStep mode d op db)"
  by (cases op) (simp_all add: dbMirrored_persistInbound dbMirrored_persistOutbound dbMirrored_upsert dbMirrored_inboundItem
      dbMirrored_outbox reconcileAck_def split: option.split list.split)

lemma getId_setOptional [simp]:
  "propertyKey f \<noteq> ''id'' \<Longrightarrow> columnName f \<noteq> ''id'' \<Longrightarrow> getId (setOptional mode f v x) = getId x"
  by (simp add: setOptional_def split: option.split)

lemma wfDb_put: "wfDb db \<Longrightarrow> collFind t i db = Some a \<Longrightarrow> (\<And>x. getId (f x) = getId x) \<Longrightarrow> wfDb (collPut t a (updateObj f a db))"
  by (simp add: collPut_same wfDb_updateObj)

lemma wfDb_noteLast: "wfDb db \<Longrightarrow> wfDb (noteLastMessage mode c t db)"
  by (auto simp: noteLastMessage_def intro!: wfDb_put split: option.split)

lemma wfDb_inboundItem: "wfDb db \<Longrightarrow> wfDb (inboundItem mode d e db)"
  by (cases e) (simp add: inboundItem_def Let_def wfDb_collCreate wfDb_updateObj split: option.split)

lemma wfDb_step: "wfDb db \<Longrightarrow> wfDb (localStep mode d op db)"
  by (cases op) (auto simp: persistInboundMessage_def persistOutboundMessage_def upsertChannel_def reconcileAck_def
      sentRecord_def failedRecord_def split_beta wfDb_collCreate
      intro!: wfDb_noteLast wfDb_put wfDb_updateObj wfDb_inboundItem split: option.split list.split)

definition dbRun :: "fieldMode \<Rightarrow> decryptor \<Rightarrow> localOp list \<Rightarrow> localDb" where
  "dbRun mode d ops = fold (localStep mode d) ops emptyDb"

lemma dbRun_ok: "wfDb (dbRun mode d ops)" "dbMirrored mode (dbRun mode d ops)"
proof -
  have "dbMirrored mode emptyDb" by (simp add: dbMirrored_def emptyDb_def)
  then show "wfDb (dbRun mode d ops)" "dbMirrored mode (dbRun mode d ops)" unfolding dbRun_def
    by (induction ops rule: rev_induct) (simp_all add: wfDb_step dbMirrored_step)
qed

text \<open>
  Reading the messages of a channel from the local database, after any sequence of operations on
  it. If the field decorators are reached, the result is exactly the stored messages whose channel
  is the one asked for, by creation time. If the compiler emits the declared fields, as
  for the ES2022 target the packages set, the columns are never written: every channel reads as
  empty, and an acknowledgement of an outbox message finds no message.
\<close>
theorem local_messages_by_column:
  "getLocalMessages Accessors c (dbRun Accessors d ops)
      = sort_key (\<lambda>a. createdTime Accessors (heap (dbRun Accessors d ops) ! a))
          (filter (\<lambda>a. getField Accessors fChannelId (heap (dbRun Accessors d ops) ! a) = Some (VStr c)) (collAll Messages (dbRun Accessors d ops)))
    \<and> getLocalMessages OwnFields c (dbRun OwnFields d ops) = []
    \<and> reconcileAck OwnFields ack (dbRun OwnFields d ops) = dbRun OwnFields d ops"
proof -
  define db where "db = (\<lambda>mode. dbRun mode d ops)"
  have run: "wfDb (db mode)" "dbMirrored mode (db mode)" for mode by (simp_all add: db_def dbRun_ok)
  have mir: "mirrored mode (heap (db mode) ! a)" if "a \<in> set (collAll Messages (db mode))" for mode a
  proof -
    from that obtain i where "collFind Messages i (db mode) = Some a" using collFind_collAll [OF run(1)] by blast
    from collFind_bound [OF run(1) this] run(2) [of mode] show ?thesis by (simp add: dbMirrored_def)
  qed
  have "jsGet (raw (heap (db Accessors) ! a)) ''channel_id'' = getField Accessors fChannelId (heap (db Accessors) ! a)"
    if "a \<in> set (collAll Messages (db Accessors))" for a
    using mir [OF that] mirrors_query [of fChannelId] by (simp add: fChannelId_def)
  then have "collQuery Messages [(''channel_id'', VStr c)] (db Accessors)
      = filter (\<lambda>a. getField Accessors fChannelId (heap (db Accessors) ! a) = Some (VStr c)) (collAll Messages (db Accessors))"
    unfolding collQuery_def by (intro filter_cong) simp_all
  moreover have "collQuery Messages [(''channel_id'', VStr c)] (db OwnFields) = []"
      "collQuery Messages [(''client_msg_id'', VStr (ackClientMsgId ack))] (db OwnFields) = []"
    unfolding collQuery_def using mir [of _ OwnFields] by (auto simp: filter_empty_conv mirrors_def column_defs)
  ultimately show ?thesis by (simp add: getLocalMessages_def reconcileAck_def db_def)
qed

section \<open>The status of outgoing messages\<close>

datatype outboxEvent =
  OutboxSend int string string string string string string string
| OutboxAnswered nat "OutboxAck option"

fun outboxStep :: "fieldMode \<Rightarrow> (string \<Rightarrow> string \<Rightarrow> string \<Rightarrow> (int \<times> string) option) \<Rightarrow> outboxEvent \<Rightarrow> outbox \<Rightarrow> outbox" where
  "outboxStep mode enc (OutboxSend now u i c sender txt ses k) s = snd (outboxSend mode enc now u i c sender txt ses k s)"
| "outboxStep mode enc (OutboxAnswered k answer) s = outboxAnswered mode k answer s"

definition newOutbox :: outbox where
  "newOutbox = \<lparr>obDb = emptyDb, awaiting = [], payloads = []\<rparr>"

definition outboxInv :: "fieldMode \<Rightarrow> outbox \<Rightarrow> bool" where
  "outboxInv mode s \<longleftrightarrow>
     distinct (map fst (awaiting s)) \<and> distinct (map snd (awaiting s))
     \<and> (\<forall>(k, a) \<in> set (awaiting s). k < length (payloads s) \<and> a < length (heap (obDb s))
          \<and> wireClientMsgId (payloads s ! k) = getField mode fClientMsgId (heap (obDb s) ! a)
          \<and> wireChannelId (payloads s ! k) = getField mode fChannelId (heap (obDb s) ! a))
     \<and> (\<forall>a < length (heap (obDb s)).
          getField mode fStatus (heap (obDb s) ! a) = Some (VStr ''pending'') \<and> a \<in> snd ` set (awaiting s)
        \<or> getField mode fStatus (heap (obDb s) ! a) \<in> {Some (VStr ''sent''), Some (VStr ''failed'')} \<and> a \<notin> snd ` set (awaiting s))"

lemma outbox_record_fields [simp]:
  "getField mode fStatus (sentRecord mode ack x) = Some (VStr ''sent'')"
  "getField mode fSequenceNum (sentRecord mode ack x) = Some (VNum (ackSequenceNum ack))"
  "getField mode fClientMsgId (sentRecord mode ack x) = getField mode fClientMsgId x"
  "getField mode fChannelId (sentRecord mode ack x) = getField mode fChannelId x"
  "getField mode fStatus (failedRecord mode x) = Some (VStr ''failed'')"
  "getField mode fClientMsgId (failedRecord mode x) = getField mode fClientMsgId x"
  "getField mode fChannelId (failedRecord mode x) = getField mode fChannelId x"
  "getField mode fStatus (setId j (pendingRecord mode now u c sender txt x)) = Some (VStr ''pending'')"
  by (simp_all add: sentRecord_def failedRecord_def pendingRecord_def)

lemma outboxInv_send: "outboxInv mode s \<Longrightarrow> outboxInv mode (snd (outboxSend mode enc now u i c sender txt ses k s))"
proof -
  assume inv: "outboxInv mode s"
  let ?n = "length (heap (obDb s))"
  have n: "?n \<notin> snd ` set (awaiting s)" "length (payloads s) \<notin> fst ` set (awaiting s)" using inv by (auto simp: outboxInv_def)
  define x where "x = setId (''msg_'' @ u) (pendingRecord mode now (''msg_'' @ u) c sender txt \<lparr>raw = [], own = []\<rparr>)"
  have st: "getField mode fStatus x = Some (VStr ''pending'')" by (simp add: x_def)
  have h: "heap (snd (collCreate Messages i (pendingRecord mode now (''msg_'' @ u) c sender txt) (obDb s))) = heap (obDb s) @ [x]"
    by (simp add: collCreate_effect x_def pendingRecord_def)
  show ?thesis
  proof (cases "enc ses k txt")
    case None
    then show ?thesis using inv n h
      by (auto simp: outboxInv_def outboxSend_def dispatchInBackground_def split_beta Let_def collCreate_effect(1) updateObj_def
          nth_append less_Suc_eq list_update_append)
  next
    case (Some r)
    then show ?thesis using inv n h st
      by (cases r) (auto simp: outboxInv_def outboxSend_def dispatchInBackground_def split_beta Let_def collCreate_effect(1)
          nth_append less_Suc_eq)
  qed
qed

lemma distinct_snd_map_of:
  "distinct (map snd m) \<Longrightarrow> map_of m k = Some a \<Longrightarrow> distinct (map fst m)
    \<Longrightarrow> snd ` set (filter (\<lambda>e. fst e \<noteq> k) m) = snd ` set m - {a}"
proof (induction m)
  case (Cons e m)
  show ?case
  proof (cases "fst e = k")
    case True
    with Cons.prems have "filter (\<lambda>e. fst e \<noteq> k) m = m" by (auto simp: filter_id_conv image_iff)
    with True Cons.prems show ?thesis by simp
  next
    case False
    with Cons have "snd e \<noteq> a" by (auto dest: map_of_SomeD simp: image_iff)
    with False Cons show ?thesis by auto
  qed
qed simp

lemma outboxInv_answered:
  assumes inv: "outboxInv mode s"
  shows "outboxInv mode (outboxAnswered mode k answer s)"
proof (cases "map_of (awaiting s) k")
  case (Some a)
  define f where "f = (case answer of Some ack \<Rightarrow> sentRecord mode ack | None \<Rightarrow> failedRecord mode)"
  have f: "getField mode fStatus (f x) \<in> {Some (VStr ''sent''), Some (VStr ''failed'')}"
      "getField mode fClientMsgId (f x) = getField mode fClientMsgId x" "getField mode fChannelId (f x) = getField mode fChannelId x" for x
    by (simp_all add: f_def split: option.split)
  define aw where "aw = filter (\<lambda>e. fst e \<noteq> k) (awaiting s)"
  have d: "distinct (map fst (awaiting s))" "distinct (map snd (awaiting s))" using inv by (simp_all add: outboxInv_def)
  have aw: "distinct (map fst aw)" "distinct (map snd aw)" "set aw \<subseteq> set (awaiting s)" "snd ` set aw = snd ` set (awaiting s) - {a}"
    using d distinct_snd_map_of [OF d(2) Some d(1)] by (auto simp: aw_def distinct_map_filter)
  have eq: "outboxAnswered mode k answer s = s\<lparr>awaiting := aw, obDb := updateObj f a (obDb s)\<rparr>"
    using Some by (simp add: outboxAnswered_def f_def aw_def)
  have calls: "k' < length (payloads s) \<and> b < length (heap (obDb s))
      \<and> wireClientMsgId (payloads s ! k') = getField mode fClientMsgId (heap (updateObj f a (obDb s)) ! b)
      \<and> wireChannelId (payloads s ! k') = getField mode fChannelId (heap (updateObj f a (obDb s)) ! b)" if "(k', b) \<in> set aw" for k' b
  proof -
    from that aw(3) have "(k', b) \<in> set (awaiting s)" by blast
    with inv have *: "k' < length (payloads s)" "b < length (heap (obDb s))"
        "wireClientMsgId (payloads s ! k') = getField mode fClientMsgId (heap (obDb s) ! b)"
        "wireChannelId (payloads s ! k') = getField mode fChannelId (heap (obDb s) ! b)" by (auto simp: outboxInv_def)
    then show ?thesis unfolding heap_updateObj [OF *(2)] by (simp add: f)
  qed
  have "a \<in> snd ` set (awaiting s)" using map_of_SomeD [OF Some] by force
  then have "getField mode fStatus (heap (updateObj f a (obDb s)) ! b) = Some (VStr ''pending'') \<and> b \<in> snd ` set aw
      \<or> getField mode fStatus (heap (updateObj f a (obDb s)) ! b) \<in> {Some (VStr ''sent''), Some (VStr ''failed'')} \<and> b \<notin> snd ` set aw"
    if "b < length (heap (obDb s))" for b
    using inv that f(1) [of "heap (obDb s) ! b"] unfolding aw(4) outboxInv_def heap_updateObj [OF that] by auto
  with aw(1,2) calls show ?thesis unfolding eq outboxInv_def by auto
qed (use inv in \<open>simp add: outboxAnswered_def\<close>)

lemma outboxInv_run: "outboxInv mode (fold (outboxStep mode enc) events newOutbox)"
proof (induction events rule: rev_induct)
  case Nil
  then show ?case by (simp add: outboxInv_def newOutbox_def emptyDb_def)
next
  case (snoc e es)
  then show ?case by (cases e) (simp_all add: outboxInv_send outboxInv_answered)
qed

text \<open>
  After any sequence of sends and answers of the transport, a message of the outbox is pending
  exactly while its call of the transport is open, and sent or failed otherwise; an
  open call carries the identifier and the channel of its message. When the call is answered, that
  message alone becomes sent with the sequence number of the answer, or failed.
\<close>
theorem outbox_status:
  assumes "s = fold (outboxStep mode enc) events newOutbox" "a < length (heap (obDb s))"
  shows "(getField mode fStatus (heap (obDb s) ! a) = Some (VStr ''pending'') \<longleftrightarrow> a \<in> snd ` set (awaiting s))
    \<and> getField mode fStatus (heap (obDb s) ! a) \<in> {Some (VStr ''pending''), Some (VStr ''sent''), Some (VStr ''failed'')}
    \<and> (\<forall>k. map_of (awaiting s) k = Some a \<longrightarrow>
          wireClientMsgId (payloads s ! k) = getField mode fClientMsgId (heap (obDb s) ! a)
        \<and> wireChannelId (payloads s ! k) = getField mode fChannelId (heap (obDb s) ! a)
        \<and> heap (obDb (outboxAnswered mode k answer s))
            = (heap (obDb s))[a := (case answer of Some ack \<Rightarrow> sentRecord mode ack | None \<Rightarrow> failedRecord mode) (heap (obDb s) ! a)])"
proof -
  have inv: "outboxInv mode s" unfolding assms(1) by (rule outboxInv_run)
  with assms(2) have "getField mode fStatus (heap (obDb s) ! a) = Some (VStr ''pending'') \<longleftrightarrow> a \<in> snd ` set (awaiting s)"
      "getField mode fStatus (heap (obDb s) ! a) \<in> {Some (VStr ''pending''), Some (VStr ''sent''), Some (VStr ''failed'')}"
    unfolding outboxInv_def by auto
  moreover have "wireClientMsgId (payloads s ! k) = getField mode fClientMsgId (heap (obDb s) ! a)"
      "wireChannelId (payloads s ! k) = getField mode fChannelId (heap (obDb s) ! a)" if "map_of (awaiting s) k = Some a" for k
    using inv map_of_SomeD [OF that] by (auto simp: outboxInv_def)
  moreover have "heap (obDb (outboxAnswered mode k answer s))
      = (heap (obDb s))[a := (case answer of Some ack \<Rightarrow> sentRecord mode ack | None \<Rightarrow> failedRecord mode) (heap (obDb s) ! a)]"
    if "map_of (awaiting s) k = Some a" for k
    using that by (simp add: outboxAnswered_def updateObj_def)
  ultimately show ?thesis by blast
qed

theorem outbox_status_witness:
  "heap (obDb (outboxAnswered OwnFields 0 None
      (snd (outboxSend OwnFields (\<lambda>_ _ t. Some (1, t)) 5 ''u'' ''i'' ''c'' ''me'' ''hi'' ''s'' ''k'' newOutbox))))
    = [failedRecord OwnFields (heap (obDb
        (snd (outboxSend OwnFields (\<lambda>_ _ t. Some (1, t)) 5 ''u'' ''i'' ''c'' ''me'' ''hi'' ''s'' ''k'' newOutbox))) ! 0)]"
proof -
  let ?s = "snd (outboxSend OwnFields (\<lambda>_ _ t. Some (1, t)) 5 ''u'' ''i'' ''c'' ''me'' ''hi'' ''s'' ''k'' newOutbox)"
  have s: "?s = fold (outboxStep OwnFields (\<lambda>_ _ t. Some (1, t))) [OutboxSend 5 ''u'' ''i'' ''c'' ''me'' ''hi'' ''s'' ''k''] newOutbox"
    by simp
  have l: "length (heap (obDb ?s)) = 1" "map_of (awaiting ?s) 0 = Some 0"
    by (simp_all add: outboxSend_def dispatchInBackground_def split_beta Let_def collCreate_effect newOutbox_def emptyDb_def)
  then have "(heap (obDb ?s))[0 := x] = [x]" for x by (cases "heap (obDb ?s)") simp_all
  with outbox_status [OF s, of 0 None] l show ?thesis by simp
qed

section \<open>What a search returns\<close>

lemma zkScore_None: "zkScore txt ts sc sn = None \<longleftrightarrow> \<not> list_all (\<lambda>t. sublist (cleanTerm t) (toLowerCase txt)) ts"
  by (induction ts arbitrary: sc sn) (auto simp: indexOf_sublist [symmetric] split: option.splits)

lemma zkScore_bounds:
  "zkScore txt ts sc sn = Some (sc', sn') \<Longrightarrow> sc + 5 * length ts \<le> sc' \<and> sc' \<le> sc + 10 * length ts \<and> length sn' = length sn + length ts"
proof (induction ts arbitrary: sc sn)
  case (Cons t ts)
  then obtain idx where i: "indexOf (toLowerCase txt) (cleanTerm t) = Some idx" by (auto split: option.splits)
  from Cons.IH Cons.prems i show ?case by (fastforce split: if_splits)
qed simp

lemma zkSearch_hit:
  assumes "r \<in> set (zkSearch mode q opts db)"
  shows "srMessage r \<in> set (collAll Messages db)"
    "\<exists>body. zkText mode (heap db ! srMessage r) = Some body \<and> list_all (\<lambda>t. sublist (cleanTerm t) (toLowerCase body)) (searchTerms q)"
    "optChannelId opts \<noteq> [] \<Longrightarrow> getField mode fChannelId (heap db ! srMessage r) = Some (VStr (optChannelId opts))"
    "5 * length (searchTerms q) \<le> srScore r \<and> srScore r \<le> 10 * length (searchTerms q)"
proof -
  define pool where "pool = (if optChannelId opts \<noteq> []
    then filter (\<lambda>a. getField mode fChannelId (heap db ! a) = Some (VStr (optChannelId opts))) (collAll Messages db)
    else collAll Messages db)"
  have "r \<in> set (List.map_filter (zkMatch mode db (searchTerms q)) pool)"
    using assms by (auto simp: zkSearch_def Let_def pool_def split: if_splits dest!: in_set_takeD in_set_dropD)
  then obtain a where a: "a \<in> set pool" "zkMatch mode db (searchTerms q) a = Some r"
    by (auto simp: List.map_filter_def)
  then obtain body sc sn where t: "zkText mode (heap db ! a) = Some body" "zkScore body (searchTerms q) 0 [] = Some (sc, sn)"
      "r = \<lparr>srMessage = a, srScore = sc, srSnippets = sn\<rparr>"
    by (auto simp: zkMatch_def split: bind_splits)
  show "srMessage r \<in> set (collAll Messages db)" using a t by (simp add: pool_def split: if_splits)
  show "\<exists>body. zkText mode (heap db ! srMessage r) = Some body \<and> list_all (\<lambda>t. sublist (cleanTerm t) (toLowerCase body)) (searchTerms q)"
    using t zkScore_None [of body "searchTerms q" 0 "[]"] by simp
  show "getField mode fChannelId (heap db ! srMessage r) = Some (VStr (optChannelId opts))" if "optChannelId opts \<noteq> []"
    using a t that by (simp add: pool_def)
  show "5 * length (searchTerms q) \<le> srScore r \<and> srScore r \<le> 10 * length (searchTerms q)"
    using zkScore_bounds [OF t(2)] t(3) by simp
qed

end
