(* ===== verification/Webrtc_Call.thy ===== *)
theory Webrtc_Call
  imports Event_Loop "HOL-Library.Multiset"
begin

text \<open>
  Calls between two users, \<open>packages/client-web/src/lib/webrtc-manager.ts\<close>: the choice of ICE
  servers, the editing of session descriptions, and \<open>WebRtcManager\<close> with its local media, the
  offer and answer exchange and the queue of ICE candidates.

  The tracks and peer connections of the browser are explicit state. An operation that awaits the
  browser is suspended as a task; the browser resumes it with a result. As the WebRTC
  specification prescribes, a task of a closed connection is never resumed.
\<close>

section \<open>ICE servers\<close>

text \<open>An ICE server is represented by its URL. The cache is module state.\<close>

record iceCache =
  cachedIceServers :: "string list option"
  cachedIceServersExpiresAt :: int

definition defaultIceServers :: "string list" where
  "defaultIceServers = [''stun:stun.l.google.com:19302'', ''stun:stun1.l.google.com:19302'', ''stun:stun2.l.google.com:19302'']"

text \<open>The body of a successful answer: the member \<open>iceServers\<close> if it is an array, and \<open>ttl\<close>.\<close>

record iceAnswer =
  ansServers :: "string list option"
  ansTtl :: "int option"

definition iceTtlMs :: "iceAnswer \<Rightarrow> int" where
  "iceTtlMs r = (case ansTtl r of Some t \<Rightarrow> if t \<noteq> 0 then t else 3600 | None \<Rightarrow> 3600) * 1000"

definition requestIceServers :: "int \<Rightarrow> iceAnswer http \<Rightarrow> iceCache \<Rightarrow> string list \<times> iceCache" where
  "requestIceServers now answer c =
     (case answer of
        HttpOk r \<Rightarrow>
          (case ansServers r of
             Some servers \<Rightarrow>
               if servers \<noteq> []
               then (servers, \<lparr>cachedIceServers = Some servers, cachedIceServersExpiresAt = now + iceTtlMs r\<rparr>)
               else (defaultIceServers, c)
           | None \<Rightarrow> (defaultIceServers, c))
      | _ \<Rightarrow> (defaultIceServers, c))"

definition fetchDynamicIceServers ::
  "int \<Rightarrow> string option \<Rightarrow> string option \<Rightarrow> iceAnswer http \<Rightarrow> iceCache \<Rightarrow> string list \<times> iceCache" where
  "fetchDynamicIceServers now accessToken sessionToken answer c =
     (if cachedIceServers c \<noteq> None \<and> cachedIceServersExpiresAt c > now + 60000 then (the (cachedIceServers c), c)
      else let token = (case accessToken of
                          Some t \<Rightarrow> if t \<noteq> [] then accessToken else sessionToken
                        | None \<Rightarrow> sessionToken)
           in if token = None \<or> token = Some [] then (defaultIceServers, c) else requestIceServers now answer c)"

text \<open>\<open>envServers\<close> is the build-time setting: absent, a list, or a text that does not parse.\<close>

definition getIceConfiguration :: "string list option \<Rightarrow> string list blob option \<Rightarrow> iceCache \<Rightarrow> string list" where
  "getIceConfiguration customServers envServers c =
     (case customServers of
        Some (x # xs) \<Rightarrow> x # xs
      | _ \<Rightarrow> (case cachedIceServers c of
                 Some (x # xs) \<Rightarrow> x # xs
               | _ \<Rightarrow> (case Option.bind envServers parseBlob of Some servers \<Rightarrow> servers | None \<Rightarrow> defaultIceServers)))"

section \<open>Session descriptions\<close>

definition CR :: char where "CR = CHR 0x0D"
definition LF :: char where "LF = CHR 0x0A"

text \<open>\<open>s.split('\r\n')\<close> and \<open>lines.join('\r\n')\<close>\<close>

fun splitCrlf :: "string \<Rightarrow> string list" where
  "splitCrlf [] = [[]]"
| "splitCrlf [c] = [[c]]"
| "splitCrlf (c # d # cs) =
     (if c = CR \<and> d = LF then [] # splitCrlf cs
      else case splitCrlf (d # cs) of [] \<Rightarrow> [[c]] | l # ls \<Rightarrow> (c # l) # ls)"

definition joinCrlf :: "string list \<Rightarrow> string" where
  "joinCrlf ls = join [CR, LF] ls"

definition sdpDigit :: "char \<Rightarrow> bool" where
  "sdpDigit c \<longleftrightarrow> c \<in> set ''0123456789''"

text \<open>\<open>line.match(/^a=rtpmap:(\d+)\s+opus\/48000/i)\<close>, with the captured digits\<close>

definition opusRtpmap :: "string \<Rightarrow> string option" where
  "opusRtpmap line =
     (if startsWith (toLowerCase line) ''a=rtpmap:''
      then let r = drop 9 line; pt = takeWhile sdpDigit r; r1 = dropWhile sdpDigit r; r2 = dropWhile isSpace r1
           in if pt \<noteq> [] \<and> r2 \<noteq> r1 \<and> startsWith (toLowerCase r2) ''opus/48000'' then Some pt else None
      else None)"

fun findOpus :: "string list \<Rightarrow> string option" where
  "findOpus [] = None"
| "findOpus (l # ls) = (case opusRtpmap l of Some pt \<Rightarrow> Some pt | None \<Rightarrow> findOpus ls)"

definition addParam :: "string \<Rightarrow> string \<Rightarrow> string \<Rightarrow> string" where
  "addParam mark addition params = (if strIncludes params mark then params else params @ addition)"

definition fmtpPrefix :: "string \<Rightarrow> string" where
  "fmtpPrefix pt = ''a=fmtp:'' @ pt @ '' ''"

definition enhanceParams :: "string \<Rightarrow> string" where
  "enhanceParams params =
     addParam ''minptime='' '';minptime=10;maxptime=20''
       (addParam ''cbr='' '';cbr=1''
       (addParam ''stereo='' '';stereo=0;sprop-stereo=0''
       (addParam ''maxaveragebitrate='' '';maxaveragebitrate=64000''
       (addParam ''usedtx='' '';usedtx=1''
       (addParam ''useinbandfec='' '';useinbandfec=1'' params)))))"

definition enhanceLine :: "string \<Rightarrow> string \<Rightarrow> string" where
  "enhanceLine pt line =
     (if startsWith line (fmtpPrefix pt) then fmtpPrefix pt @ enhanceParams (drop (length (fmtpPrefix pt)) line) else line)"

definition enhancedParams :: string where
  "enhancedParams = ''minptime=10;maxptime=20;useinbandfec=1;usedtx=1;maxaveragebitrate=64000;stereo=0;sprop-stereo=0;cbr=1''"

fun insertFmtp :: "string \<Rightarrow> string list \<Rightarrow> string list" where
  "insertFmtp pt [] = []"
| "insertFmtp pt (l # ls) =
     (if startsWith l (''a=rtpmap:'' @ pt @ '' '') then l # (fmtpPrefix pt @ enhancedParams) # ls else l # insertFmtp pt ls)"

definition optimizeAudioSdp :: "string \<Rightarrow> string" where
  "optimizeAudioSdp sdp =
     (if sdp = [] then sdp
      else let ls = splitCrlf sdp
           in case findOpus ls of
                None \<Rightarrow> sdp
              | Some pt \<Rightarrow>
                  let newLines = map (enhanceLine pt) ls
                  in joinCrlf (if list_ex (\<lambda>l. startsWith l (fmtpPrefix pt)) ls then newLines else insertFmtp pt newLines))"

section \<open>Editing a description twice\<close>

abbreviation crlfFree :: "string \<Rightarrow> bool" where
  "crlfFree l \<equiv> \<not> sublist [CR, LF] l"

lemma crlfFree_Cons: "crlfFree (c # l) \<longleftrightarrow> crlfFree l \<and> \<not> (c = CR \<and> l \<noteq> [] \<and> hd l = LF)"
  by (cases l) (auto simp: sublist_Cons_right)

lemma splitCrlf_not_Nil [simp]: "splitCrlf s \<noteq> []"
  by (induction s rule: splitCrlf.induct) (auto split: list.splits)

lemma splitCrlf_hd: "\<not> (c = CR \<and> s \<noteq> [] \<and> hd s = LF) \<Longrightarrow> splitCrlf (c # s) = (c # hd (splitCrlf s)) # tl (splitCrlf s)"
  by (cases s) (auto split: list.splits)

lemma splitCrlf_free: "l \<in> set (splitCrlf s) \<Longrightarrow> crlfFree l"
proof (induction s arbitrary: l rule: splitCrlf.induct)
  case (3 c d cs)
  show ?case
  proof (cases "c = CR \<and> d = LF")
    case True
    with 3 show ?thesis by auto
  next
    case False
    obtain m ms where m: "splitCrlf (d # cs) = m # ms" by (cases "splitCrlf (d # cs)") simp_all
    have hd: "m \<noteq> [] \<Longrightarrow> hd m = d" using m by (cases cs) (auto split: if_splits list.splits)
    from False 3 m show ?thesis
      using crlfFree_Cons [of c m] hd by (auto split: if_splits)
  qed
qed (simp_all add: crlfFree_Cons)

lemma splitCrlf_single: "crlfFree l \<Longrightarrow> splitCrlf l = [l]"
  by (induction l rule: splitCrlf.induct) (auto simp: crlfFree_Cons)

lemma splitCrlf_append: "crlfFree l \<Longrightarrow> splitCrlf (l @ CR # LF # r) = l # splitCrlf r"
proof (induction l)
  case (Cons c l)
  then have l: "crlfFree l" "\<not> (c = CR \<and> l \<noteq> [] \<and> hd l = LF)" by (simp_all add: crlfFree_Cons)
  have "CR \<noteq> LF" by (simp add: CR_def LF_def)
  with l have "\<not> (c = CR \<and> l @ CR # LF # r \<noteq> [] \<and> hd (l @ CR # LF # r) = LF)" by (cases l) simp_all
  then have "splitCrlf (c # (l @ CR # LF # r)) = (c # hd (splitCrlf (l @ CR # LF # r))) # tl (splitCrlf (l @ CR # LF # r))"
    by (rule splitCrlf_hd)
  with Cons.IH [OF l(1)] show ?case by simp
qed simp

lemma splitCrlf_joinCrlf: "ls \<noteq> [] \<Longrightarrow> \<forall>l \<in> set ls. crlfFree l \<Longrightarrow> splitCrlf (joinCrlf ls) = ls"
  unfolding joinCrlf_def
  by (induction ls rule: induct_list012) (simp_all add: splitCrlf_single splitCrlf_append)

lemma crlfFree_append: "crlfFree l \<Longrightarrow> LF \<notin> set e \<Longrightarrow> crlfFree (l @ e)"
proof (induction l)
  case Nil
  then show ?case by (auto dest: set_mono_sublist)
next
  case (Cons c l)
  then have "crlfFree (l @ e)" by (simp add: crlfFree_Cons)
  moreover have "\<not> (c = CR \<and> l @ e \<noteq> [] \<and> hd (l @ e) = LF)" using Cons.prems by (cases l; cases e) (auto simp: crlfFree_Cons)
  ultimately show ?case by (simp add: crlfFree_Cons)
qed

lemma strIncludes_append: "strIncludes p m \<Longrightarrow> strIncludes (p @ e) m"
  by (auto simp: strIncludes_def sublist_append)

text \<open>The parameters that every description of the Opus codec gets.\<close>

definition opusMarks :: "string list" where
  "opusMarks = [''useinbandfec='', ''usedtx='', ''maxaveragebitrate='', ''stereo='', ''cbr='', ''minptime='']"

lemma addParam_extends:
  "\<exists>e. p = p0 @ e \<and> LF \<notin> set e \<Longrightarrow> LF \<notin> set a \<Longrightarrow> \<exists>e. addParam m a p = p0 @ e \<and> LF \<notin> set e"
  by (auto simp: addParam_def)

lemma addParam_keeps: "strIncludes p k \<Longrightarrow> strIncludes (addParam m a p) k"
  by (simp add: addParam_def strIncludes_append)

lemma addParam_has: "strIncludes a m \<Longrightarrow> strIncludes (addParam m a p) m"
  by (auto simp: addParam_def strIncludes_def sublist_append)

lemma enhanceParams_extends: "\<exists>e. enhanceParams p = p @ e \<and> LF \<notin> set e"
  unfolding enhanceParams_def by (intro addParam_extends) (simp_all add: LF_def)

lemma enhanceParams_marks: "m \<in> set opusMarks \<Longrightarrow> strIncludes (enhanceParams p) m"
proof -
  have "strIncludes '';useinbandfec=1'' ''useinbandfec=''" "strIncludes '';usedtx=1'' ''usedtx=''"
    "strIncludes '';maxaveragebitrate=64000'' ''maxaveragebitrate=''" "strIncludes '';stereo=0;sprop-stereo=0'' ''stereo=''"
    "strIncludes '';cbr=1'' ''cbr=''" "strIncludes '';minptime=10;maxptime=20'' ''minptime=''"
    by (simp_all add: strIncludes_def sublist_code)
  then show "m \<in> set opusMarks \<Longrightarrow> ?thesis"
    by (auto simp: opusMarks_def enhanceParams_def intro!: addParam_has) (auto intro!: addParam_keeps addParam_has)
qed

lemma enhanceParams_id: "\<forall>m \<in> set opusMarks. strIncludes p m \<Longrightarrow> enhanceParams p = p"
  by (simp add: opusMarks_def enhanceParams_def addParam_def)

lemma startsWith_append [simp]: "startsWith (p @ r) p"
  by (simp add: startsWith_def)

lemma startsWith_extends: "startsWith l p \<Longrightarrow> startsWith (l @ e) p"
  by (simp add: startsWith_def)

lemma enhanceLine_extends: "\<exists>e. enhanceLine pt l = l @ e \<and> LF \<notin> set e"
proof (cases "startsWith l (fmtpPrefix pt)")
  case True
  then obtain r where l: "l = fmtpPrefix pt @ r" by (auto simp: startsWith_def prefix_def)
  with enhanceParams_extends [of r] show ?thesis by (auto simp: enhanceLine_def)
qed (simp add: enhanceLine_def)

lemma enhanceLine_idem: "enhanceLine pt (enhanceLine pt l) = enhanceLine pt l"
  using enhanceParams_id [OF ballI, of "enhanceParams (drop (length (fmtpPrefix pt)) l)"] enhanceParams_marks
  by (simp add: enhanceLine_def)

lemma enhanceLine_prefix [simp]: "startsWith (enhanceLine pt l) (fmtpPrefix pt) = startsWith l (fmtpPrefix pt)"
  by (simp add: enhanceLine_def)

lemma enhancedParams_marks: "\<forall>m \<in> set opusMarks. strIncludes enhancedParams m"
  by (simp add: opusMarks_def enhancedParams_def strIncludes_def sublist_code)

lemma opusRtpmap_fmtp: "startsWith l (fmtpPrefix pt) \<Longrightarrow> opusRtpmap l = None"
  by (auto simp: startsWith_def fmtpPrefix_def opusRtpmap_def prefix_def toLowerCase_def lowerChar_def)

lemma opusRtpmap_enhanceLine [simp]: "opusRtpmap (enhanceLine pt l) = opusRtpmap l"
proof (cases "startsWith l (fmtpPrefix pt)")
  case True
  then show ?thesis using opusRtpmap_fmtp [of l pt] opusRtpmap_fmtp [of "enhanceLine pt l" pt] by simp
qed (simp add: enhanceLine_def)

lemma findOpus_enhance [simp]: "findOpus (map (enhanceLine pt) ls) = findOpus ls"
  by (induction ls) (simp_all split: option.split)

lemma findOpus_insertFmtp [simp]: "findOpus (insertFmtp pt ls) = findOpus ls"
  by (induction ls) (simp_all add: opusRtpmap_fmtp [OF startsWith_append] split: option.split)

lemma findOpus_digits: "findOpus ls = Some pt \<Longrightarrow> LF \<notin> set pt"
proof (induction ls)
  case (Cons l ls)
  have "LF \<notin> set q" if "opusRtpmap l = Some q" for q
  proof -
    from that have "q = takeWhile sdpDigit (drop 9 l)" unfolding opusRtpmap_def Let_def by (metis option.inject option.distinct(1))
    then have "\<forall>c \<in> set q. sdpDigit c" by (auto dest: set_takeWhileD)
    moreover have "\<not> sdpDigit LF" by (simp add: sdpDigit_def LF_def)
    ultimately show ?thesis by blast
  qed
  with Cons show ?case by (auto split: option.splits)
qed simp

lemma insertFmtp_lines:
  "insertFmtp pt ls = ls \<or> (\<exists>a b. ls = a @ b \<and> insertFmtp pt ls = a @ (fmtpPrefix pt @ enhancedParams) # b)"
proof (induction ls)
  case (Cons l ls)
  show ?case
  proof (cases "startsWith l (''a=rtpmap:'' @ pt @ '' '')")
    case True
    then have "l # ls = [l] @ ls \<and> insertFmtp pt (l # ls) = [l] @ (fmtpPrefix pt @ enhancedParams) # ls" by simp
    then show ?thesis by blast
  next
    case False
    have "\<exists>a' b'. l # ls = a' @ b' \<and> l # insertFmtp pt ls = a' @ (fmtpPrefix pt @ enhancedParams) # b'"
      if "ls = a @ b" "insertFmtp pt ls = a @ (fmtpPrefix pt @ enhancedParams) # b" for a b
      using that by (intro exI [of _ "l # a"] exI [of _ b]) simp
    with Cons False show ?thesis by auto
  qed
qed simp

text \<open>The lines of an edited description, and what a second edit does to them.\<close>

definition editLines :: "string \<Rightarrow> string list \<Rightarrow> string list" where
  "editLines pt ls = (if list_ex (\<lambda>l. startsWith l (fmtpPrefix pt)) ls then map (enhanceLine pt) ls
     else insertFmtp pt (map (enhanceLine pt) ls))"

lemma map_enhance_none: "\<not> list_ex (\<lambda>l. startsWith l (fmtpPrefix pt)) ls \<Longrightarrow> map (enhanceLine pt) ls = ls"
  by (induction ls) (simp_all add: enhanceLine_def)

lemma editLines_idem: "editLines pt (editLines pt ls) = editLines pt ls"
proof (cases "list_ex (\<lambda>l. startsWith l (fmtpPrefix pt)) ls")
  case True
  then have "list_ex (\<lambda>l. startsWith l (fmtpPrefix pt)) (map (enhanceLine pt) ls)" by (simp add: list_ex_iff)
  then have "editLines pt (map (enhanceLine pt) ls) = map (enhanceLine pt) (map (enhanceLine pt) ls)" by (simp only: editLines_def if_True)
  also have "\<dots> = map (enhanceLine pt) ls" by (simp add: enhanceLine_idem)
  moreover have "editLines pt ls = map (enhanceLine pt) ls" using True by (simp only: editLines_def if_True)
  ultimately show ?thesis by simp
next
  case False
  note id = map_enhance_none [OF False]
  have e: "editLines pt ls = insertFmtp pt ls" using False id by (simp add: editLines_def)
  from insertFmtp_lines [of pt ls] show ?thesis
  proof
    assume "insertFmtp pt ls = ls"
    with e show ?thesis by simp
  next
    assume "\<exists>a b. ls = a @ b \<and> insertFmtp pt ls = a @ (fmtpPrefix pt @ enhancedParams) # b"
    then obtain a b where ab: "ls = a @ b" "insertFmtp pt ls = a @ (fmtpPrefix pt @ enhancedParams) # b" by blast
    have "enhanceLine pt (fmtpPrefix pt @ enhancedParams) = fmtpPrefix pt @ enhancedParams"
      using enhanceParams_id [OF enhancedParams_marks] by (simp add: enhanceLine_def)
    moreover have "map (enhanceLine pt) a = a" "map (enhanceLine pt) b = b" using id ab(1) by (simp_all add: append_eq_append_conv)
    moreover have "editLines pt (a @ (fmtpPrefix pt @ enhancedParams) # b) = map (enhanceLine pt) (a @ (fmtpPrefix pt @ enhancedParams) # b)"
      by (simp add: editLines_def)
    ultimately show ?thesis by (simp add: e ab(2))
  qed
qed

lemma editLines_free: "\<forall>l \<in> set ls. crlfFree l \<Longrightarrow> LF \<notin> set pt \<Longrightarrow> \<forall>l \<in> set (editLines pt ls). crlfFree l"
proof -
  assume ls: "\<forall>l \<in> set ls. crlfFree l" and pt: "LF \<notin> set pt"
  have line: "crlfFree (enhanceLine pt l)" if "l \<in> set ls" for l
    using enhanceLine_extends [of pt l] crlfFree_append ls that by fastforce
  have new: "crlfFree (fmtpPrefix pt @ enhancedParams)"
    using crlfFree_append [of "[]" "fmtpPrefix pt @ enhancedParams"] pt by (auto simp: fmtpPrefix_def enhancedParams_def LF_def)
  let ?m = "map (enhanceLine pt) ls"
  from insertFmtp_lines [of pt ?m] have "set (insertFmtp pt ?m) \<subseteq> insert (fmtpPrefix pt @ enhancedParams) (set ?m)"
  proof
    assume "\<exists>a b. ?m = a @ b \<and> insertFmtp pt ?m = a @ (fmtpPrefix pt @ enhancedParams) # b"
    then show ?thesis by (metis (no_types, lifting) Un_insert_right list.simps(15) order_refl set_append)
  qed auto
  then have "set (editLines pt ls) \<subseteq> insert (fmtpPrefix pt @ enhancedParams) (set ?m)"
    unfolding editLines_def by (simp only: split: if_split) blast
  moreover have "\<forall>l \<in> set ?m. crlfFree l" using line by simp
  ultimately show ?thesis using new by blast
qed

lemma optimizeAudioSdp_edit:
  assumes "findOpus (splitCrlf sdp) = Some pt"
  shows "optimizeAudioSdp sdp = joinCrlf (editLines pt (splitCrlf sdp))"
    "splitCrlf (optimizeAudioSdp sdp) = editLines pt (splitCrlf sdp)"
proof -
  have "sdp \<noteq> []" using assms by (auto simp: opusRtpmap_def startsWith_def toLowerCase_def)
  with assms show eq: "optimizeAudioSdp sdp = joinCrlf (editLines pt (splitCrlf sdp))"
    by (simp add: optimizeAudioSdp_def editLines_def)
  have "editLines pt (splitCrlf sdp) \<noteq> []"
    using insertFmtp_lines [of pt "map (enhanceLine pt) (splitCrlf sdp)"] by (auto simp: editLines_def)
  moreover have "\<forall>l \<in> set (editLines pt (splitCrlf sdp)). crlfFree l"
    using splitCrlf_free findOpus_digits [OF assms] by (intro editLines_free ballI)
  ultimately show "splitCrlf (optimizeAudioSdp sdp) = editLines pt (splitCrlf sdp)"
    unfolding eq by (rule splitCrlf_joinCrlf)
qed

lemma findOpus_editLines [simp]: "findOpus (editLines pt ls) = findOpus ls"
  by (simp add: editLines_def)

lemma editLines_marks:
  assumes "l \<in> set (editLines pt ls)" "startsWith l (fmtpPrefix pt)" "m \<in> set opusMarks"
  shows "strIncludes (drop (length (fmtpPrefix pt)) l) m"
proof (cases "list_ex (\<lambda>l. startsWith l (fmtpPrefix pt)) ls")
  case True
  with assms obtain k where "l = enhanceLine pt k" by (auto simp: editLines_def)
  with assms show ?thesis by (simp add: enhanceLine_def enhanceParams_marks split: if_splits)
next
  case False
  then have "l \<in> set (insertFmtp pt ls)" using assms(1) by (simp add: editLines_def map_enhance_none)
  then have "l \<in> set ls \<or> l = fmtpPrefix pt @ enhancedParams" using insertFmtp_lines [of pt ls] by auto
  with False assms(2,3) enhancedParams_marks show ?thesis by (auto simp: list_ex_iff)
qed

lemma editLines_others:
  "filter (\<lambda>l. \<not> startsWith l (fmtpPrefix pt)) (editLines pt ls) = filter (\<lambda>l. \<not> startsWith l (fmtpPrefix pt)) ls"
proof -
  have m: "filter (\<lambda>l. \<not> startsWith l (fmtpPrefix pt)) (map (enhanceLine pt) ls) = filter (\<lambda>l. \<not> startsWith l (fmtpPrefix pt)) ls"
    by (induction ls) (simp_all add: enhanceLine_def)
  have "filter (\<lambda>l. \<not> startsWith l (fmtpPrefix pt)) (insertFmtp pt ks) = filter (\<lambda>l. \<not> startsWith l (fmtpPrefix pt)) ks" for ks
    using insertFmtp_lines [of pt ks] by auto
  with m show ?thesis by (simp add: editLines_def)
qed

text \<open>
  Editing a session description is idempotent: both ends edit every description they send
  and receive, and a second edit changes nothing. If the description names an Opus
  payload type, all other lines keep their order and contents, and every format line of the codec
  carries all the voice parameters.
\<close>
theorem optimizeAudioSdp_stable:
  "optimizeAudioSdp (optimizeAudioSdp sdp) = optimizeAudioSdp sdp
  \<and> (\<forall>pt. findOpus (splitCrlf sdp) = Some pt \<longrightarrow>
        filter (\<lambda>l. \<not> startsWith l (fmtpPrefix pt)) (splitCrlf (optimizeAudioSdp sdp))
          = filter (\<lambda>l. \<not> startsWith l (fmtpPrefix pt)) (splitCrlf sdp)
      \<and> (\<forall>l \<in> set (splitCrlf (optimizeAudioSdp sdp)). startsWith l (fmtpPrefix pt) \<longrightarrow>
            (\<forall>m \<in> set opusMarks. strIncludes (drop (length (fmtpPrefix pt)) l) m)))"
proof (cases "findOpus (splitCrlf sdp)")
  case None
  then show ?thesis by (simp add: optimizeAudioSdp_def)
next
  case (Some pt)
  note edit = optimizeAudioSdp_edit [OF Some]
  have "findOpus (splitCrlf (optimizeAudioSdp sdp)) = Some pt" using Some edit by simp
  from optimizeAudioSdp_edit(1) [OF this] have "optimizeAudioSdp (optimizeAudioSdp sdp) = optimizeAudioSdp sdp"
    using edit by (simp add: editLines_idem)
  with Some show ?thesis by (simp add: edit(2) editLines_others editLines_marks)
qed

theorem optimizeAudioSdp_stable_witness:
  "findOpus (splitCrlf ''a=rtpmap:111 opus/48000/2'') = Some ''111''
  \<and> filter (\<lambda>l. \<not> startsWith l (fmtpPrefix ''111'')) (splitCrlf (optimizeAudioSdp ''a=rtpmap:111 opus/48000/2''))
      = filter (\<lambda>l. \<not> startsWith l (fmtpPrefix ''111'')) (splitCrlf ''a=rtpmap:111 opus/48000/2'')"
proof -
  have "findOpus (splitCrlf ''a=rtpmap:111 opus/48000/2'') = Some ''111''" by code_simp
  then show ?thesis using optimizeAudioSdp_stable [of "''a=rtpmap:111 opus/48000/2''"] by blast
qed

section \<open>Tracks and connections\<close>

datatype trackKind = Audio | Video

record mediaTrack =
  trackKind :: trackKind
  trackLive :: bool
  trackEnabled :: bool

record rtcSender =
  senderTrack :: nat
  senderTuned :: bool

datatype sdpType = SdpOffer | SdpAnswer

record peerConn =
  pcOpen :: bool
  pcServers :: "string list"
  pcSenders :: "rtcSender list"
  pcLocal :: "(sdpType \<times> string) option"
  pcRemote :: "(sdpType \<times> string) option"
  pcCandidates :: "string list"

text \<open>
  Where a suspended operation continues: after \<open>createOffer\<close>, \<open>setLocalDescription\<close>,
  \<open>setRemoteDescription\<close>, \<open>addIceCandidate\<close> in the loop over the queue (of an offer or an
  answer), or \<open>createAnswer\<close>.
\<close>

datatype rtcTask =
  OfferCreated | OfferLocal string | RemoteSet sdpType string | Draining sdpType | AnswerCreated | AnswerLocal string

datatype rtcNotice =
  NLocalStream "nat list" | NRemoteStream "nat list" | NIceCandidate string | NState string | NError
| NReturned sdpType string | NThrown

record rtcState =
  rtcTracks :: "mediaTrack list"
  rtcConns :: "peerConn list"
  rtcTasks :: "(nat \<times> nat \<times> rtcTask) list"
  nextTask :: nat
  pc :: "nat option"
  localStream :: "nat list option"
  remoteStream :: "nat list option"
  pendingCandidates :: "string list"
  isRemoteDescriptionSet :: bool
  isAudioMuted :: bool
  isVideoDisabled :: bool
  notices :: "rtcNotice list"

definition newManager :: rtcState where
  "newManager = \<lparr>rtcTracks = [], rtcConns = [], rtcTasks = [], nextTask = 0, pc = None, localStream = None, remoteStream = None,
     pendingCandidates = [], isRemoteDescriptionSet = False, isAudioMuted = False, isVideoDisabled = False, notices = []\<rparr>"

definition rtcNotify :: "rtcNotice \<Rightarrow> rtcState \<Rightarrow> rtcState" where
  "rtcNotify n s = s\<lparr>notices := notices s @ [n]\<rparr>"

text \<open>New tracks of the given kinds, enabled and running, with their numbers\<close>

definition acquire :: "trackKind list \<Rightarrow> rtcState \<Rightarrow> nat list \<times> rtcState" where
  "acquire ks s =
     ([length (rtcTracks s)..<length (rtcTracks s) + length ks],
      s\<lparr>rtcTracks := rtcTracks s @ map (\<lambda>k. \<lparr>trackKind = k, trackLive = True, trackEnabled = True\<rparr>) ks\<rparr>)"

definition firstTrack :: "trackKind \<Rightarrow> nat list \<Rightarrow> rtcState \<Rightarrow> nat option" where
  "firstTrack k ids s = find (\<lambda>i. trackKind (rtcTracks s ! i) = k) ids"

definition stopTracks :: "nat list \<Rightarrow> rtcState \<Rightarrow> rtcState" where
  "stopTracks ids s = s\<lparr>rtcTracks := map (\<lambda>(i, t). if i \<in> set ids then t\<lparr>trackLive := False\<rparr> else t) (enumerate 0 (rtcTracks s))\<rparr>"

section \<open>Local media\<close>

datatype mediaError = MicrophoneFailed | CameraFailed | NoStream

text \<open>
  What the browser answers: the kinds of the tracks of a granted request, \<^const>\<open>None\<close> for a refused
  one; whether a silent track can be made.
\<close>

record mediaAnswers =
  primaryMedia :: "trackKind list option"
  audioOnlyMedia :: "trackKind list option"
  silentAudio :: bool

definition useTracks :: "nat option \<Rightarrow> nat option \<Rightarrow> rtcState \<Rightarrow> (mediaError + nat list) \<times> rtcState" where
  "useTracks audio video s =
     (let ids = (case audio of Some a \<Rightarrow> [a] | None \<Rightarrow> []) @ (case video of Some v \<Rightarrow> [v] | None \<Rightarrow> [])
      in if ids = [] then (Inl NoStream, rtcNotify NError s)
         else (Inr ids, rtcNotify (NLocalStream ids) (s\<lparr>localStream := Some ids\<rparr>)))"

text \<open>The fallbacks after a refused request: the stream of the second request is not used.\<close>

definition fallbackAudio :: "bool \<Rightarrow> mediaAnswers \<Rightarrow> rtcState \<Rightarrow> (mediaError + nat option) \<times> rtcState" where
  "fallbackAudio allowFallback m s =
     (case audioOnlyMedia m of
        Some ks \<Rightarrow> (Inr None, snd (acquire ks s))
      | None \<Rightarrow>
          if \<not> allowFallback then (Inl MicrophoneFailed, s)
          else if silentAudio m then (case acquire [Audio] s of (ids, s1) \<Rightarrow> (Inr (firstTrack Audio ids s1), s1))
          else (Inr None, s))"

definition startLocalStream :: "bool \<Rightarrow> bool \<Rightarrow> mediaAnswers \<Rightarrow> rtcState \<Rightarrow> (mediaError + nat list) \<times> rtcState" where
  "startLocalStream videoCall allowFallback m s =
     (case localStream s of
        Some ids \<Rightarrow> (Inr ids, s)
      | None \<Rightarrow>
          (case primaryMedia m of
             Some ks \<Rightarrow>
               (case acquire ks s of (ids, s1) \<Rightarrow>
                  useTracks (firstTrack Audio ids s1) (if videoCall then firstTrack Video ids s1 else None) s1)
           | None \<Rightarrow>
               (case fallbackAudio allowFallback m s of
                  (Inl e, s1) \<Rightarrow> (Inl e, s1)
                | (Inr audio, s1) \<Rightarrow>
                    if videoCall
                    then (if allowFallback
                          then (case acquire [Video] s1 of (ids, s2) \<Rightarrow> useTracks audio (firstTrack Video ids s2) s2)
                          else (Inl CameraFailed, s1))
                    else useTracks audio None s1)))"

section \<open>The connection\<close>

definition updConn :: "nat \<Rightarrow> (peerConn \<Rightarrow> peerConn) \<Rightarrow> rtcState \<Rightarrow> rtcState" where
  "updConn i f s = s\<lparr>rtcConns := (rtcConns s)[i := f (rtcConns s ! i)]\<rparr>"

definition initPeerConnection :: "string list \<Rightarrow> rtcState \<Rightarrow> nat \<times> rtcState" where
  "initPeerConnection servers s =
     (case pc s of
        Some i \<Rightarrow> (i, s)
      | None \<Rightarrow>
          let i = length (rtcConns s);
              senders = (case localStream s of
                           Some ids \<Rightarrow> map (\<lambda>t. \<lparr>senderTrack = t, senderTuned = False\<rparr>) ids
                         | None \<Rightarrow> []);
              c = \<lparr>pcOpen = True, pcServers = servers, pcSenders = senders, pcLocal = None, pcRemote = None, pcCandidates = []\<rparr>
          in (i, rtcNotify (NRemoteStream []) (s\<lparr>rtcConns := rtcConns s @ [c], pc := Some i, remoteStream := Some []\<rparr>)))"

text \<open>\<open>encodings\<close> tells whether the browser offers encoding parameters.\<close>

definition configureSenders :: "bool \<Rightarrow> rtcState \<Rightarrow> rtcState" where
  "configureSenders encodings s =
     (case pc s of
        None \<Rightarrow> s
      | Some i \<Rightarrow>
          updConn i (\<lambda>c. c\<lparr>pcSenders := map (\<lambda>x. if trackKind (rtcTracks s ! senderTrack x) = Audio \<and> encodings
                                                  then x\<lparr>senderTuned := True\<rparr> else x) (pcSenders c)\<rparr>) s)"

definition suspend :: "nat \<Rightarrow> rtcTask \<Rightarrow> rtcState \<Rightarrow> rtcState" where
  "suspend i t s = s\<lparr>rtcTasks := rtcTasks s @ [(nextTask s, i, t)], nextTask := nextTask s + 1\<rparr>"

definition createOffer :: "string list \<Rightarrow> rtcState \<Rightarrow> rtcState" where
  "createOffer servers s = (case initPeerConnection servers s of (i, s1) \<Rightarrow> suspend i OfferCreated s1)"

definition handleOffer :: "string list \<Rightarrow> string \<Rightarrow> rtcState \<Rightarrow> rtcState" where
  "handleOffer servers sdp s =
     (case initPeerConnection servers s of (i, s1) \<Rightarrow> suspend i (RemoteSet SdpOffer (optimizeAudioSdp sdp)) s1)"

definition handleAnswer :: "string \<Rightarrow> rtcState \<Rightarrow> rtcState" where
  "handleAnswer sdp s =
     (case pc s of None \<Rightarrow> s | Some i \<Rightarrow> suspend i (RemoteSet SdpAnswer (optimizeAudioSdp sdp)) s)"

definition handCandidate :: "nat \<Rightarrow> string \<Rightarrow> rtcState \<Rightarrow> rtcState" where
  "handCandidate i c s = updConn i (\<lambda>x. x\<lparr>pcCandidates := pcCandidates x @ [c]\<rparr>) s"

definition addIceCandidate :: "string \<Rightarrow> rtcState \<Rightarrow> rtcState" where
  "addIceCandidate c s =
     (case pc s of
        Some i \<Rightarrow> if isRemoteDescriptionSet s then handCandidate i c s
                  else s\<lparr>pendingCandidates := pendingCandidates s @ [c]\<rparr>
      | None \<Rightarrow> s\<lparr>pendingCandidates := pendingCandidates s @ [c]\<rparr>)"

text \<open>
  The loop over the queue up to its next await, then the rest of the operation. \<open>drainPendingCandidates\<close>
  returns at once without a connection or a remote description.
\<close>

definition afterDrain :: "bool \<Rightarrow> nat \<Rightarrow> sdpType \<Rightarrow> rtcState \<Rightarrow> rtcState" where
  "afterDrain encodings i k s =
     (case k of SdpOffer \<Rightarrow> suspend i AnswerCreated s | SdpAnswer \<Rightarrow> configureSenders encodings s)"

definition drainStep :: "bool \<Rightarrow> nat \<Rightarrow> sdpType \<Rightarrow> rtcState \<Rightarrow> rtcState" where
  "drainStep encodings i k s =
     (case (pc s, pendingCandidates s) of
        (Some j, c # cs) \<Rightarrow>
          if isRemoteDescriptionSet s
          then suspend i (Draining k) (handCandidate j c (s\<lparr>pendingCandidates := cs\<rparr>))
          else afterDrain encodings i k s
      | _ \<Rightarrow> afterDrain encodings i k s)"

text \<open>What the browser answers to a suspended operation\<close>

datatype rtcAnswer = RtcOk | RtcSdp string | RtcRejected

definition continueTask :: "bool \<Rightarrow> nat \<Rightarrow> rtcTask \<Rightarrow> rtcAnswer \<Rightarrow> rtcState \<Rightarrow> rtcState" where
  "continueTask encodings i t answer s =
     (case (t, answer) of
        (Draining k, _) \<Rightarrow> drainStep encodings i k s
      | (_, RtcRejected) \<Rightarrow> rtcNotify NThrown s
      | (OfferCreated, RtcSdp sdp) \<Rightarrow> suspend i (OfferLocal (optimizeAudioSdp sdp)) s
      | (AnswerCreated, RtcSdp sdp) \<Rightarrow> suspend i (AnswerLocal (optimizeAudioSdp sdp)) s
      | (OfferLocal d, RtcOk) \<Rightarrow>
          rtcNotify (NReturned SdpOffer d) (configureSenders encodings (updConn i (\<lambda>c. c\<lparr>pcLocal := Some (SdpOffer, d)\<rparr>) s))
      | (AnswerLocal d, RtcOk) \<Rightarrow>
          rtcNotify (NReturned SdpAnswer d) (configureSenders encodings (updConn i (\<lambda>c. c\<lparr>pcLocal := Some (SdpAnswer, d)\<rparr>) s))
      | (RemoteSet k d, RtcOk) \<Rightarrow>
          drainStep encodings i k ((updConn i (\<lambda>c. c\<lparr>pcRemote := Some (k, d)\<rparr>) s)\<lparr>isRemoteDescriptionSet := True\<rparr>)
      | _ \<Rightarrow> s)"

definition resumeTask :: "bool \<Rightarrow> nat \<Rightarrow> rtcAnswer \<Rightarrow> rtcState \<Rightarrow> rtcState" where
  "resumeTask encodings n answer s =
     (case map_of (rtcTasks s) n of
        None \<Rightarrow> s
      | Some (i, t) \<Rightarrow>
          if pcOpen (rtcConns s ! i)
          then continueTask encodings i t answer (s\<lparr>rtcTasks := filter (\<lambda>e. fst e \<noteq> n) (rtcTasks s)\<rparr>)
          else s)"

definition toggleAudio :: "bool option \<Rightarrow> rtcState \<Rightarrow> bool \<times> rtcState" where
  "toggleAudio muted s =
     (case Option.bind (localStream s) (\<lambda>ids. firstTrack Audio ids s) of
        None \<Rightarrow> (False, s)
      | Some a \<Rightarrow>
          let m = (case muted of Some b \<Rightarrow> b | None \<Rightarrow> \<not> isAudioMuted s)
          in (m, s\<lparr>isAudioMuted := m, rtcTracks := (rtcTracks s)[a := (rtcTracks s ! a)\<lparr>trackEnabled := \<not> m\<rparr>]\<rparr>))"

definition toggleVideo :: "bool option \<Rightarrow> rtcState \<Rightarrow> bool \<times> rtcState" where
  "toggleVideo disabled s =
     (case Option.bind (localStream s) (\<lambda>ids. firstTrack Video ids s) of
        None \<Rightarrow> (False, s)
      | Some v \<Rightarrow>
          let d = (case disabled of Some b \<Rightarrow> b | None \<Rightarrow> \<not> isVideoDisabled s)
          in (d, s\<lparr>isVideoDisabled := d, rtcTracks := (rtcTracks s)[v := (rtcTracks s ! v)\<lparr>trackEnabled := \<not> d\<rparr>]\<rparr>))"

definition hangup :: "rtcState \<Rightarrow> rtcState" where
  "hangup s =
     (let s1 = (case localStream s of Some ids \<Rightarrow> (stopTracks ids s)\<lparr>localStream := None\<rparr> | None \<Rightarrow> s);
          s2 = (case remoteStream s1 of Some ids \<Rightarrow> (stopTracks ids s1)\<lparr>remoteStream := None\<rparr> | None \<Rightarrow> s1);
          s3 = (case pc s2 of Some i \<Rightarrow> (updConn i (\<lambda>c. c\<lparr>pcOpen := False\<rparr>) s2)\<lparr>pc := None\<rparr> | None \<Rightarrow> s2)
      in s3\<lparr>pendingCandidates := [], isRemoteDescriptionSet := False, isAudioMuted := False, isVideoDisabled := False\<rparr>)"

text \<open>
  Events of an open connection: a remote track (with the tracks received before that are in its
  stream, if it has a stream), a local candidate, a new state
\<close>

definition onTrack :: "trackKind \<Rightarrow> nat list option \<Rightarrow> nat \<Rightarrow> rtcState \<Rightarrow> rtcState" where
  "onTrack k others i s =
     (if i < length (rtcConns s) \<and> pcOpen (rtcConns s ! i)
      then (case acquire [k] s of (ids, s1) \<Rightarrow>
              let stream = (case others of
                              Some js \<Rightarrow> js @ ids
                            | None \<Rightarrow> (case remoteStream s1 of Some old \<Rightarrow> old @ ids | None \<Rightarrow> ids))
              in rtcNotify (NRemoteStream stream) (s1\<lparr>remoteStream := Some stream\<rparr>))
      else s)"

definition onIceCandidate :: "string option \<Rightarrow> nat \<Rightarrow> rtcState \<Rightarrow> rtcState" where
  "onIceCandidate c i s =
     (if i < length (rtcConns s) \<and> pcOpen (rtcConns s ! i)
      then (case c of Some x \<Rightarrow> rtcNotify (NIceCandidate x) s | None \<Rightarrow> s) else s)"

definition onConnectionStateChange :: "string \<Rightarrow> rtcState \<Rightarrow> rtcState" where
  "onConnectionStateChange st s = (if pc s = None then s else rtcNotify (NState st) s)"

datatype callEvent =
  StartMedia bool bool mediaAnswers | CreateOffer "string list" | OfferArrives "string list" string | AnswerArrives string
| CandidateArrives string | Resume bool nat rtcAnswer | ToggleAudio "bool option" | ToggleVideo "bool option" | Hangup
| TrackArrives trackKind "nat list option" nat | CandidateFound "string option" nat | StateChanged string

fun callStep :: "callEvent \<Rightarrow> rtcState \<Rightarrow> rtcState" where
  "callStep (StartMedia v f m) s = snd (startLocalStream v f m s)"
| "callStep (CreateOffer servers) s = createOffer servers s"
| "callStep (OfferArrives servers sdp) s = handleOffer servers sdp s"
| "callStep (AnswerArrives sdp) s = handleAnswer sdp s"
| "callStep (CandidateArrives c) s = addIceCandidate c s"
| "callStep (Resume e n a) s = resumeTask e n a s"
| "callStep (ToggleAudio b) s = snd (toggleAudio b s)"
| "callStep (ToggleVideo b) s = snd (toggleVideo b s)"
| "callStep Hangup s = hangup s"
| "callStep (TrackArrives k others i) s = onTrack k others i s"
| "callStep (CandidateFound c i) s = onIceCandidate c i s"
| "callStep (StateChanged st) s = onConnectionStateChange st s"

section \<open>The queue of candidates\<close>

text \<open>The candidates that arrived and the ends of calls, in order; the candidates of the current call\<close>

fun arrivals :: "callEvent \<Rightarrow> string option list" where
  "arrivals (CandidateArrives c) = [Some c]"
| "arrivals Hangup = [None]"
| "arrivals _ = []"

definition thisCall :: "string option list \<Rightarrow> string list" where
  "thisCall h = map the (rev (takeWhile (\<lambda>x. x \<noteq> None) (rev h)))"

lemma thisCall_simps [simp]: "thisCall [] = []" "thisCall (h @ [Some c]) = thisCall h @ [c]" "thisCall (h @ [None]) = []"
  by (simp_all add: thisCall_def)

text \<open>What the queue depends on\<close>

record iceView =
  vPc :: "nat option"
  vConns :: "(bool \<times> string list) list"
  vPending :: "string list"
  vRemote :: bool
  vTasks :: "(nat \<times> nat \<times> rtcTask) list"
  vNext :: nat

definition view :: "rtcState \<Rightarrow> iceView" where
  "view s = \<lparr>vPc = pc s, vConns = map (\<lambda>c. (pcOpen c, pcCandidates c)) (rtcConns s), vPending = pendingCandidates s,
     vRemote = isRemoteDescriptionSet s, vTasks = rtcTasks s, vNext = nextTask s\<rparr>"

definition handed :: "iceView \<Rightarrow> string list" where
  "handed v = (case vPc v of Some i \<Rightarrow> snd (vConns v ! i) | None \<Rightarrow> [])"

definition iceBase :: "string option list \<Rightarrow> iceView \<Rightarrow> bool" where
  "iceBase h v \<longleftrightarrow>
     (\<forall>i < length (vConns v). fst (vConns v ! i) \<longleftrightarrow> vPc v = Some i)
     \<and> (\<forall>i. vPc v = Some i \<longrightarrow> i < length (vConns v))
     \<and> (vRemote v \<longrightarrow> vPc v \<noteq> None)
     \<and> mset (thisCall h) = mset (vPending v) + mset (handed v)
     \<and> (\<forall>(n, i, t) \<in> set (vTasks v). n < vNext v \<and> i < length (vConns v)) \<and> distinct (map fst (vTasks v))"

definition draining :: "iceView \<Rightarrow> bool" where
  "draining v \<longleftrightarrow> (\<exists>n i k. (n, i, Draining k) \<in> set (vTasks v) \<and> vPc v = Some i)"

definition iceOk :: "string option list \<Rightarrow> iceView \<Rightarrow> bool" where
  "iceOk h v \<longleftrightarrow> iceBase h v \<and> (vRemote v \<longrightarrow> vPending v \<noteq> [] \<longrightarrow> draining v)"

abbreviation callOk :: "string option list \<Rightarrow> rtcState \<Rightarrow> bool" where
  "callOk h s \<equiv> iceOk h (view s)"

text \<open>Steps that leave the queue alone\<close>

lemma view_notice [simp]: "view (rtcNotify n s) = view s"
  by (simp add: view_def rtcNotify_def)

lemma view_fields [simp]:
  "view (s\<lparr>rtcTracks := ts\<rparr>) = view s" "view (s\<lparr>localStream := l\<rparr>) = view s" "view (s\<lparr>remoteStream := l\<rparr>) = view s"
  "view (s\<lparr>isAudioMuted := b\<rparr>) = view s" "view (s\<lparr>isVideoDisabled := b\<rparr>) = view s"
  by (simp_all add: view_def)

lemma view_acquire [simp]: "view (snd (acquire ks s)) = view s"
  by (simp add: acquire_def)

lemma view_useTracks [simp]: "view (snd (useTracks a v s)) = view s"
  by (simp add: useTracks_def Let_def)

lemma view_fallbackAudio [simp]: "view (snd (fallbackAudio f m s)) = view s"
  by (simp add: fallbackAudio_def split_beta split: option.split)

lemma view_startLocalStream [simp]: "view (snd (startLocalStream v f m s)) = view s"
proof (cases "fallbackAudio f m s")
  case (Pair r s1)
  have "view s1 = view s" using view_fallbackAudio [of f m s] by (simp add: Pair)
  then show ?thesis
    by (simp add: startLocalStream_def Pair split_beta split: option.split sum.split)
qed

lemma view_toggles [simp]: "view (snd (toggleAudio b s)) = view s" "view (snd (toggleVideo b s)) = view s"
  by (simp_all add: toggleAudio_def toggleVideo_def Let_def view_def split: option.split)

lemma view_events [simp]:
  "view (onTrack k o' i s) = view s" "view (onIceCandidate c i s) = view s" "view (onConnectionStateChange st s) = view s"
  by (simp_all add: onTrack_def onIceCandidate_def onConnectionStateChange_def split_beta Let_def split: option.split)

lemma view_updConn:
  "(\<And>c. pcOpen (f c) = pcOpen c \<and> pcCandidates (f c) = pcCandidates c) \<Longrightarrow> view (updConn i f s) = view s"
  by (cases "i < length (rtcConns s)")
    (auto simp: view_def updConn_def list_update_beyond intro!: nth_equalityI simp: nth_list_update)

lemma view_configureSenders [simp]: "view (configureSenders e s) = view s"
  by (simp add: configureSenders_def view_updConn split: option.split)

text \<open>Steps of the queue\<close>

definition vSuspend :: "nat \<Rightarrow> rtcTask \<Rightarrow> iceView \<Rightarrow> iceView" where
  "vSuspend i t v = v\<lparr>vTasks := vTasks v @ [(vNext v, i, t)], vNext := vNext v + 1\<rparr>"

lemma view_suspend [simp]: "view (suspend i t s) = vSuspend i t (view s)"
  by (simp add: view_def suspend_def vSuspend_def)

lemma vSuspend_fields [simp]:
  "vPc (vSuspend i t v) = vPc v" "vConns (vSuspend i t v) = vConns v" "vPending (vSuspend i t v) = vPending v"
  "vRemote (vSuspend i t v) = vRemote v" "handed (vSuspend i t v) = handed v"
  by (simp_all add: vSuspend_def handed_def split: option.split)

lemma iceBase_suspend:
  assumes "iceBase h v" "i < length (vConns v)"
  shows "iceBase h (vSuspend i t v)"
proof -
  have b: "\<forall>(n, j, u) \<in> set (vTasks v). n < vNext v \<and> j < length (vConns v)" "distinct (map fst (vTasks v))"
    using assms(1) by (simp_all add: iceBase_def)
  then have "vNext v \<notin> fst ` set (vTasks v)" by fastforce
  with b assms(2) have "\<forall>(n, j, u) \<in> set (vTasks (vSuspend i t v)). n < vNext (vSuspend i t v) \<and> j < length (vConns v)"
      "distinct (map fst (vTasks (vSuspend i t v)))"
    by (auto simp: vSuspend_def)
  with assms(1) show ?thesis by (simp add: iceBase_def)
qed

lemma draining_suspend: "draining v \<Longrightarrow> draining (vSuspend i t v)"
  by (auto simp: draining_def vSuspend_def)

lemma iceOk_suspend: "iceOk h v \<Longrightarrow> i < length (vConns v) \<Longrightarrow> iceOk h (vSuspend i t v)"
  by (auto simp: iceOk_def iceBase_suspend draining_suspend)

lemma view_pc: "vPc (view s) = pc s" "length (vConns (view s)) = length (rtcConns s)"
  "vPending (view s) = pendingCandidates s" "vRemote (view s) = isRemoteDescriptionSet s" "vTasks (view s) = rtcTasks s"
  by (simp_all add: view_def)

lemma iceBase_hand:
  assumes "iceBase h (view s)" "pc s = Some j" "mset (thisCall h') = mset (thisCall h) + {#c#}"
  shows "iceBase h' (view (handCandidate j c s))"
proof -
  have j: "j < length (rtcConns s)" using assms(1,2) by (simp add: iceBase_def view_pc)
  then have c: "vConns (view (handCandidate j c s))
      = (vConns (view s))[j := (fst (vConns (view s) ! j), snd (vConns (view s) ! j) @ [c])]"
    by (auto simp: view_def handCandidate_def updConn_def map_update)
  have rest: "vPc (view (handCandidate j c s)) = pc s" "vPending (view (handCandidate j c s)) = pendingCandidates s"
      "vRemote (view (handCandidate j c s)) = isRemoteDescriptionSet s" "vTasks (view (handCandidate j c s)) = rtcTasks s"
      "vNext (view (handCandidate j c s)) = vNext (view s)"
    by (simp_all add: view_def handCandidate_def updConn_def)
  show ?thesis using assms j unfolding iceBase_def handed_def c rest by (auto simp: view_pc nth_list_update)
qed

lemma pending_hand [simp]:
  "pendingCandidates (handCandidate j c s) = pendingCandidates s" "isRemoteDescriptionSet (handCandidate j c s) = isRemoteDescriptionSet s"
  "pc (handCandidate j c s) = pc s" "rtcTasks (handCandidate j c s) = rtcTasks s" "length (rtcConns (handCandidate j c s)) = length (rtcConns s)"
  by (simp_all add: handCandidate_def updConn_def)

lemma iceBase_pending:
  "iceBase h (view s) \<Longrightarrow> mset (thisCall h') + mset (pendingCandidates s) = mset (thisCall h) + mset cs
    \<Longrightarrow> iceBase h' (view (s\<lparr>pendingCandidates := cs\<rparr>))"
  by (auto simp: iceBase_def view_def handed_def split: option.splits)

lemma callOk_addIceCandidate:
  assumes "callOk h s"
  shows "callOk (h @ [Some c]) (addIceCandidate c s)"
proof (cases "pc s \<noteq> None \<and> isRemoteDescriptionSet s")
  case True
  then obtain j where j: "pc s = Some j" by blast
  have "iceBase (h @ [Some c]) (view (handCandidate j c s))"
    by (rule iceBase_hand [OF _ j]) (use assms in \<open>simp_all add: iceOk_def\<close>)
  then show ?thesis using assms True j
    by (simp add: addIceCandidate_def iceOk_def view_pc draining_def)
next
  case False
  then have eq: "addIceCandidate c s = s\<lparr>pendingCandidates := pendingCandidates s @ [c]\<rparr>"
    by (auto simp: addIceCandidate_def split: option.split)
  have "iceBase (h @ [Some c]) (view (s\<lparr>pendingCandidates := pendingCandidates s @ [c]\<rparr>))"
    by (rule iceBase_pending) (use assms in \<open>simp_all add: iceOk_def\<close>)
  moreover have "\<not> isRemoteDescriptionSet s" using False assms by (auto simp: iceOk_def iceBase_def view_pc)
  ultimately show ?thesis by (simp add: eq iceOk_def view_pc)
qed

lemma iceBase_current: "iceBase h (view s) \<Longrightarrow> pc s = Some i \<Longrightarrow> i < length (rtcConns s)"
  by (simp add: iceBase_def view_pc)

lemma thisCall_map_Some [simp]: "thisCall (map Some xs) = xs"
  by (induction xs rule: rev_induct) simp_all

lemma callOk_drainStep:
  assumes "iceBase h (view s)" "pc s = Some i"
  shows "callOk h (drainStep e i k s)"
proof (cases "isRemoteDescriptionSet s \<and> pendingCandidates s \<noteq> []")
  case True
  then obtain c cs where c: "pendingCandidates s = c # cs" by (cases "pendingCandidates s") simp_all
  define s1 where "s1 = s\<lparr>pendingCandidates := cs\<rparr>"
  define s2 where "s2 = handCandidate i c s1"
  have "iceBase h (view s2) \<and> pc s2 = Some i"
  proof -
    from assms(1) have "mset (thisCall h) = mset (pendingCandidates s) + mset (handed (view s))" by (simp add: iceBase_def view_pc)
    then have m: "mset (thisCall h) = mset cs + mset (handed (view s)) + {#c#}" by (simp add: c)
    define h0 where "h0 = map Some (cs @ handed (view s))"
    have h0: "mset (thisCall h0) = mset cs + mset (handed (view s))" unfolding h0_def thisCall_map_Some by simp
    have "iceBase h0 (view s1)" unfolding s1_def
      by (rule iceBase_pending [OF assms(1)]) (use h0 m c in simp)
    then have "iceBase h (view s2)" unfolding s2_def
      by (rule iceBase_hand) (use assms(2) h0 m in \<open>simp_all add: s1_def\<close>)
    then show ?thesis using assms(2) by (simp add: s2_def s1_def)
  qed
  moreover have "drainStep e i k s = suspend i (Draining k) s2"
    using True assms(2) by (simp add: drainStep_def c s1_def s2_def)
  moreover have "draining (vSuspend i (Draining k) (view s2))" if "pc s2 = Some i"
    using that by (auto simp: draining_def vSuspend_def view_pc)
  ultimately show ?thesis using iceBase_suspend [of h "view s2" i "Draining k"] iceBase_current [of h s2 i]
    by (simp add: iceOk_def view_pc)
next
  case False
  then have "drainStep e i k s = afterDrain e i k s" using assms(2) by (auto simp: drainStep_def split: list.split)
  moreover have "callOk h s" using assms(1) False by (auto simp: iceOk_def view_pc)
  ultimately show ?thesis
    by (cases k) (simp_all add: afterDrain_def iceOk_suspend view_pc iceBase_current [OF assms])
qed

lemma iceBase_drop:
  "iceBase h (view s) \<Longrightarrow> iceBase h (view (s\<lparr>rtcTasks := filter P (rtcTasks s)\<rparr>))"
  by (auto simp: iceBase_def view_def handed_def distinct_map_filter split: option.splits)

lemma draining_drop:
  "draining (view s) \<Longrightarrow> (\<And>k. t \<noteq> Draining k) \<Longrightarrow> map_of (rtcTasks s) n = Some (i, t) \<Longrightarrow> distinct (map fst (rtcTasks s))
    \<Longrightarrow> draining (view (s\<lparr>rtcTasks := filter (\<lambda>e. fst e \<noteq> n) (rtcTasks s)\<rparr>))"
proof -
  assume a: "draining (view s)" "\<And>k. t \<noteq> Draining k" "map_of (rtcTasks s) n = Some (i, t)" "distinct (map fst (rtcTasks s))"
  then obtain m j k where m: "(m, j, Draining k) \<in> set (rtcTasks s)" "pc s = Some j" by (auto simp: draining_def view_pc)
  with a(4) have "map_of (rtcTasks s) m = Some (j, Draining k)" by simp
  with a(2) [of k] a(3) have "m \<noteq> n" by auto
  with m show ?thesis unfolding draining_def view_pc by auto
qed

lemma callOk_resumeTask:
  assumes ok: "callOk h s"
  shows "callOk h (resumeTask e n a s)"
proof (cases "map_of (rtcTasks s) n")
  case (Some it)
  obtain i t where it: "map_of (rtcTasks s) n = Some (i, t)" using Some by (cases it) simp
  show ?thesis
  proof (cases "pcOpen (rtcConns s ! i)")
    case True
    define s1 where "s1 = s\<lparr>rtcTasks := filter (\<lambda>x. fst x \<noteq> n) (rtcTasks s)\<rparr>"
    have base: "iceBase h (view s)" using ok by (simp add: iceOk_def)
    then have d: "distinct (map fst (rtcTasks s))" and i: "i < length (rtcConns s)"
      using map_of_SomeD [OF it] by (auto simp: iceBase_def view_pc)
    with base True have p: "pc s1 = Some i" by (simp add: iceBase_def view_pc s1_def) (simp add: view_def)
    have b1: "iceBase h (view s1)" unfolding s1_def using base by (rule iceBase_drop)
    have eq: "resumeTask e n a s = continueTask e i t a s1" using it True by (simp add: resumeTask_def s1_def)
    have r1: "i < length (rtcConns s1)" using i by (simp add: s1_def)
    show ?thesis
    proof (cases "\<exists>k. t = Draining k")
      case True
      then show ?thesis using callOk_drainStep [OF b1 p] by (auto simp: eq continueTask_def)
    next
      case False
      then have ok1: "callOk h s1" using ok b1 draining_drop [OF _ _ it d] by (auto simp: iceOk_def s1_def view_pc)
      show ?thesis
      proof (cases "\<exists>k d. t = RemoteSet k d \<and> a = RtcOk")
        case True
        then obtain k d' where t: "t = RemoteSet k d'" "a = RtcOk" by blast
        define s2 where "s2 = (updConn i (\<lambda>c. c\<lparr>pcRemote := Some (k, d')\<rparr>) s1)\<lparr>isRemoteDescriptionSet := True\<rparr>"
        have "view s2 = (view s1)\<lparr>vRemote := True\<rparr>"
          using view_updConn [of "\<lambda>c. c\<lparr>pcRemote := Some (k, d')\<rparr>" i s1] by (simp add: s2_def view_def)
        moreover have "pc s2 = Some i" using p by (simp add: s2_def updConn_def)
        ultimately have "iceBase h (view s2)" using b1 p by (simp add: iceBase_def handed_def view_pc)
        with \<open>pc s2 = Some i\<close> have "callOk h (drainStep e i k s2)" by (rule callOk_drainStep [rotated])
        then show ?thesis unfolding eq unfolding t by (simp add: continueTask_def s2_def)
      next
        case False
        with \<open>\<not> (\<exists>k. t = Draining k)\<close> ok1 r1 show ?thesis unfolding eq
          by (cases t; cases a) (simp_all add: continueTask_def iceOk_suspend view_pc view_updConn)
      qed
    qed
  qed (use ok it in \<open>simp add: resumeTask_def\<close>)
qed (use ok in \<open>simp add: resumeTask_def\<close>)

lemma callOk_init:
  assumes "callOk h s"
  shows "callOk h (snd (initPeerConnection servers s)) \<and> fst (initPeerConnection servers s) < length (rtcConns (snd (initPeerConnection servers s)))"
proof (cases "pc s")
  case None
  let ?s = "snd (initPeerConnection servers s)"
  have v: "vPc (view ?s) = Some (length (rtcConns s))" "vConns (view ?s) = vConns (view s) @ [(True, [])]"
      "vPending (view ?s) = pendingCandidates s" "vRemote (view ?s) = isRemoteDescriptionSet s" "vTasks (view ?s) = rtcTasks s"
      "vNext (view ?s) = vNext (view s)"
    using None by (simp_all add: initPeerConnection_def view_def Let_def rtcNotify_def)
  have base: "iceBase h (view s)" using assms by (simp add: iceOk_def)
  then have r: "\<not> isRemoteDescriptionSet s" using None by (auto simp: iceBase_def view_pc)
  have "iceBase h (view ?s)"
    using base None unfolding iceBase_def handed_def v by (auto simp: view_pc nth_append less_Suc_eq)
  with r have "callOk h ?s" by (simp add: iceOk_def v)
  then show ?thesis using None by (simp add: initPeerConnection_def Let_def rtcNotify_def)
next
  case (Some i)
  with assms iceBase_current [of h s i] show ?thesis by (simp add: initPeerConnection_def iceOk_def)
qed

lemma callOk_hangup:
  assumes "callOk h s"
  shows "callOk (h @ [None]) (hangup s)"
proof -
  have v: "view (hangup s) = (view s)\<lparr>vPc := None, vPending := [], vRemote := False,
      vConns := (case pc s of Some i \<Rightarrow> (vConns (view s))[i := (False, snd (vConns (view s) ! i))] | None \<Rightarrow> vConns (view s))\<rparr>"
    using assms
    by (auto simp: hangup_def view_def stopTracks_def updConn_def Let_def map_update iceOk_def iceBase_def split: option.splits)
  show ?thesis
    using assms unfolding v iceOk_def iceBase_def handed_def
    by (auto simp: view_pc nth_list_update split: option.splits)
qed

interpretation call_queue: history_system callStep arrivals "\<lambda>_. True" callOk
proof unfold_locales
  fix h e s
  assume ok: "callOk h s"
  have init: "callOk h (case initPeerConnection servers s of (i, s1) \<Rightarrow> suspend i t s1)" for servers t
    using callOk_init [OF ok, of servers] by (simp add: split_beta iceOk_suspend view_pc)
  have "i < length (vConns (view s))" if "pc s = Some i" for i
    using ok that iceBase_current [of h s i] by (simp add: iceOk_def view_pc)
  with ok have "callOk h (handleAnswer sdp s)" for sdp
    by (simp add: handleAnswer_def iceOk_suspend split: option.split)
  with ok init show "callOk (h @ arrivals e) (callStep e s)"
    by (cases e) (simp_all add: createOffer_def handleOffer_def callOk_addIceCandidate callOk_resumeTask callOk_hangup)
qed simp

text \<open>A running loop over the queue empties it, one candidate for every answer of the browser.\<close>

lemma drain_empties:
  assumes "callOk h s" "isRemoteDescriptionSet s"
  shows "\<exists>more. (\<forall>e \<in> set more. \<exists>n. e = Resume enc n RtcOk) \<and> pendingCandidates (fold callStep more s) = []"
  using assms
proof (induction "length (pendingCandidates s)" arbitrary: s)
  case 0
  then show ?case by (intro exI [of _ "[]"]) simp
next
  case (Suc x)
  then obtain c cs where c: "pendingCandidates s = c # cs" by (cases "pendingCandidates s") simp_all
  have base: "iceBase h (view s)" using Suc.prems(1) by (simp add: iceOk_def)
  from Suc.prems c have "draining (view s)" by (simp add: iceOk_def view_pc)
  then obtain n i k where t: "(n, i, Draining k) \<in> set (rtcTasks s)" "pc s = Some i" by (auto simp: draining_def view_pc)
  have "distinct (map fst (rtcTasks s))" using base by (simp add: iceBase_def view_pc)
  with t(1) have m: "map_of (rtcTasks s) n = Some (i, Draining k)" by simp
  have "pcOpen (rtcConns s ! i)" using base t(2) iceBase_current [OF base t(2)] by (simp add: iceBase_def view_pc) (simp add: view_def)
  with m have "resumeTask enc n RtcOk s = drainStep enc i k (s\<lparr>rtcTasks := filter (\<lambda>e. fst e \<noteq> n) (rtcTasks s)\<rparr>)"
    by (simp add: resumeTask_def continueTask_def)
  also have "pendingCandidates \<dots> = cs \<and> isRemoteDescriptionSet \<dots>"
    using Suc.prems(2) t(2) c by (simp add: drainStep_def suspend_def handCandidate_def updConn_def)
  finally have s1: "pendingCandidates (resumeTask enc n RtcOk s) = cs" "isRemoteDescriptionSet (resumeTask enc n RtcOk s)" by simp_all
  have "x = length (pendingCandidates (resumeTask enc n RtcOk s))" using s1(1) c Suc.hyps(2) by simp
  from Suc.hyps(1) [OF this callOk_resumeTask [OF Suc.prems(1)] s1(2)]
  obtain more where "\<forall>e \<in> set more. \<exists>n. e = Resume enc n RtcOk" "pendingCandidates (fold callStep more (resumeTask enc n RtcOk s)) = []"
    by blast
  then show ?case by (intro exI [of _ "Resume enc n RtcOk # more"]) simp
qed

lemma callOk_new: "callOk [] newManager"
  by (simp add: newManager_def view_def iceOk_def iceBase_def handed_def)

text \<open>
  C26. No ICE candidate of a call is lost or given twice. After any interleaving of arriving
  candidates, offers and answers, suspended operations and hang-ups, the candidates that arrived since
  the last hang-up are exactly those in the queue and those given to the current connection; once
  the remote description is set, the answers of the browser alone give every queued candidate to
  the connection. At most the current connection is open.
\<close>
theorem ice_candidates_delivered:
  assumes "s = fold callStep events newManager"
  shows "mset (thisCall (concat (map arrivals events)))
      = mset (pendingCandidates s) + mset (case pc s of Some i \<Rightarrow> pcCandidates (rtcConns s ! i) | None \<Rightarrow> [])
    \<and> (isRemoteDescriptionSet s \<longrightarrow>
         (\<exists>more. (\<forall>e \<in> set more. \<exists>n. e = Resume enc n RtcOk) \<and> pendingCandidates (fold callStep more s) = []))
    \<and> (\<forall>i < length (rtcConns s). pcOpen (rtcConns s ! i) \<longleftrightarrow> pc s = Some i)"
proof -
  have ok: "callOk (concat (map arrivals events)) s"
    unfolding assms by (rule call_queue.inv_run [OF callOk_new]) simp
  then have base: "iceBase (concat (map arrivals events)) (view s)" by (simp add: iceOk_def)
  have "handed (view s) = (case pc s of Some i \<Rightarrow> pcCandidates (rtcConns s ! i) | None \<Rightarrow> [])"
    using iceBase_current [OF base] by (simp add: handed_def view_def split: option.split)
  moreover have "\<forall>i < length (rtcConns s). pcOpen (rtcConns s ! i) \<longleftrightarrow> pc s = Some i"
    using base by (simp add: iceBase_def view_def)
  ultimately show ?thesis using base drain_empties [OF ok] by (simp add: iceBase_def view_pc)
qed

theorem ice_candidates_delivered_witness:
  "{#''c1'', ''c2''#} = mset (pendingCandidates (fold callStep
        [CandidateArrives ''c1'', OfferArrives [] ''v=0'', CandidateArrives ''c2'', Resume True 0 RtcOk] newManager))
    + mset (case pc (fold callStep
        [CandidateArrives ''c1'', OfferArrives [] ''v=0'', CandidateArrives ''c2'', Resume True 0 RtcOk] newManager) of
          Some i \<Rightarrow> pcCandidates (rtcConns (fold callStep
            [CandidateArrives ''c1'', OfferArrives [] ''v=0'', CandidateArrives ''c2'', Resume True 0 RtcOk] newManager) ! i)
        | None \<Rightarrow> [])"
proof -
  let ?es = "[CandidateArrives ''c1'', OfferArrives [] ''v=0'', CandidateArrives ''c2'', Resume True 0 RtcOk]"
  have "mset (thisCall (concat (map arrivals ?es))) = {#''c1'', ''c2''#}"
    using thisCall_map_Some [of "[''c1'', ''c2'']"] by simp
  with ice_candidates_delivered [OF refl, of ?es] show ?thesis by (metis (no_types, lifting))
qed

section \<open>Media of a call\<close>

text \<open>
  The mute flags describe the tracks that are sent: the first audio track of the local stream is
  enabled exactly if the call is not muted, and likewise for video.
\<close>

definition flagOk :: "trackKind \<Rightarrow> bool \<Rightarrow> rtcState \<Rightarrow> bool" where
  "flagOk k off s \<longleftrightarrow>
     (case localStream s of
        None \<Rightarrow> \<not> off
      | Some ids \<Rightarrow> (\<forall>i \<in> set ids. i < length (rtcTracks s))
          \<and> (case firstTrack k ids s of Some a \<Rightarrow> trackEnabled (rtcTracks s ! a) \<longleftrightarrow> \<not> off | None \<Rightarrow> \<not> off))"

definition mediaOk :: "rtcState \<Rightarrow> bool" where
  "mediaOk s \<longleftrightarrow> flagOk Audio (isAudioMuted s) s \<and> flagOk Video (isVideoDisabled s) s"

text \<open>What the flags depend on\<close>

definition mediaView :: "rtcState \<Rightarrow> mediaTrack list \<times> nat list option \<times> bool \<times> bool" where
  "mediaView s = (rtcTracks s, localStream s, isAudioMuted s, isVideoDisabled s)"

lemma mediaOk_cong: "mediaView s = mediaView s' \<Longrightarrow> mediaOk s = mediaOk s'"
  by (simp add: mediaView_def mediaOk_def flagOk_def firstTrack_def split: option.split)

lemma mediaView_simps [simp]:
  "mediaView (rtcNotify n s) = mediaView s" "mediaView (s\<lparr>remoteStream := r\<rparr>) = mediaView s" "mediaView (updConn i f s) = mediaView s"
  "mediaView (suspend i t s) = mediaView s" "mediaView (s\<lparr>pendingCandidates := cs\<rparr>) = mediaView s"
  "mediaView (s\<lparr>isRemoteDescriptionSet := b\<rparr>) = mediaView s" "mediaView (s\<lparr>rtcTasks := ts\<rparr>) = mediaView s"
  "mediaView (s\<lparr>pc := p\<rparr>) = mediaView s" "mediaView (handCandidate i c s) = mediaView s"
  by (simp_all add: mediaView_def rtcNotify_def updConn_def suspend_def handCandidate_def)

lemma mediaView_init [simp]: "mediaView (snd (initPeerConnection servers s)) = mediaView s"
  by (simp add: initPeerConnection_def Let_def rtcNotify_def mediaView_def split: option.split)

lemma mediaView_configure [simp]: "mediaView (configureSenders e s) = mediaView s"
  by (simp add: configureSenders_def split: option.split)

lemma mediaView_after [simp]: "mediaView (afterDrain e i k s) = mediaView s"
  by (cases k) (simp_all add: afterDrain_def)

lemma mediaView_drain [simp]: "mediaView (drainStep e i k s) = mediaView s"
  by (simp add: drainStep_def split: option.split list.split)

lemma mediaView_resume [simp]: "mediaView (resumeTask e n a s) = mediaView s"
  by (simp add: resumeTask_def continueTask_def split: option.split rtcTask.split rtcAnswer.split)

lemma find_cong_set: "(\<And>x. x \<in> set xs \<Longrightarrow> P x = Q x) \<Longrightarrow> find P xs = find Q xs"
  by (induction xs) auto

lemma firstTrack_acquire:
  "\<forall>i \<in> set ids. i < length (rtcTracks s) \<Longrightarrow> firstTrack k ids (snd (acquire ks s)) = firstTrack k ids s"
  unfolding firstTrack_def acquire_def by (rule find_cong_set) (simp add: nth_append)

lemma firstTrack_mem: "firstTrack k ids s = Some a \<Longrightarrow> a \<in> set ids"
  unfolding firstTrack_def by (auto simp: find_Some_iff)

lemma acquire_fields [simp]:
  "localStream (snd (acquire ks s)) = localStream s" "isAudioMuted (snd (acquire ks s)) = isAudioMuted s"
  "isVideoDisabled (snd (acquire ks s)) = isVideoDisabled s"
  by (simp_all add: acquire_def)

lemma flagOk_acquire:
  assumes "flagOk k off s"
  shows "flagOk k off (snd (acquire ks s))"
proof (cases "localStream s")
  case (Some ids)
  with assms have b: "\<forall>i \<in> set ids. i < length (rtcTracks s)" by (simp add: flagOk_def)
  have t: "rtcTracks (snd (acquire ks s)) ! a = rtcTracks s ! a \<and> a < length (rtcTracks (snd (acquire ks s)))" if "a \<in> set ids" for a
    using b that by (auto simp: acquire_def nth_append)
  show ?thesis
    using assms Some t firstTrack_mem [of k ids s] by (auto simp: flagOk_def firstTrack_acquire [OF b] split: option.splits)
qed (use assms in \<open>simp add: flagOk_def\<close>)

lemma mediaOk_acquire: "mediaOk s \<Longrightarrow> mediaOk (snd (acquire ks s))"
  by (simp add: mediaOk_def flagOk_acquire)

text \<open>New tracks are enabled.\<close>

definition enabledIds :: "nat option \<Rightarrow> rtcState \<Rightarrow> bool" where
  "enabledIds a s \<longleftrightarrow> (case a of Some i \<Rightarrow> i < length (rtcTracks s) \<and> trackEnabled (rtcTracks s ! i) | None \<Rightarrow> True)"

lemma enabledIds_acquire: "enabledIds (firstTrack k (fst (acquire ks s)) (snd (acquire ks s))) (snd (acquire ks s))"
proof (cases "firstTrack k (fst (acquire ks s)) (snd (acquire ks s))")
  case (Some i)
  from firstTrack_mem [OF this] have "length (rtcTracks s) \<le> i" "i < length (rtcTracks s) + length ks"
    by (simp_all add: acquire_def)
  with Some show ?thesis by (simp add: enabledIds_def acquire_def nth_append)
qed (simp add: enabledIds_def)

lemma enabledIds_later: "enabledIds a s \<Longrightarrow> enabledIds a (snd (acquire ks s))"
  by (auto simp: enabledIds_def acquire_def nth_append split: option.splits)

lemma mediaOk_useTracks:
  assumes "localStream s = None" "mediaOk s" "enabledIds a s" "enabledIds v s"
  shows "mediaOk (snd (useTracks a v s))"
proof -
  have off: "\<not> isAudioMuted s" "\<not> isVideoDisabled s" using assms(1,2) by (simp_all add: mediaOk_def flagOk_def)
  define ids where "ids = (case a of Some a \<Rightarrow> [a] | None \<Rightarrow> []) @ (case v of Some v \<Rightarrow> [v] | None \<Rightarrow> [])"
  have ids: "i < length (rtcTracks s) \<and> trackEnabled (rtcTracks s ! i)" if "i \<in> set ids" for i
    using assms(3,4) that by (auto simp: ids_def enabledIds_def split: option.splits)
  have "mediaOk (s\<lparr>localStream := Some ids\<rparr>)"
    using off ids firstTrack_mem [of _ ids "s\<lparr>localStream := Some ids\<rparr>"]
    by (auto simp: mediaOk_def flagOk_def split: option.splits)
  then have "mediaOk (rtcNotify (NLocalStream ids) (s\<lparr>localStream := Some ids\<rparr>))" by (simp add: mediaOk_cong [of "rtcNotify n t" t for n t])
  moreover have "mediaOk (rtcNotify NError s)" using assms(2) by (simp add: mediaOk_cong [of "rtcNotify n t" t for n t])
  ultimately show ?thesis by (simp add: useTracks_def ids_def [symmetric])
qed

lemma fallbackAudio_media:
  assumes "mediaOk s" "fallbackAudio f m s = (r, s1)"
  shows "mediaOk s1" "localStream s1 = localStream s" "r = Inr a \<Longrightarrow> enabledIds a s1"
  using assms enabledIds_acquire [of Audio "[Audio]" s]
  by (auto simp: fallbackAudio_def split_beta mediaOk_acquire enabledIds_def split: option.splits if_splits)

lemma mediaOk_start:
  assumes "mediaOk s"
  shows "mediaOk (snd (startLocalStream v f m s))"
proof (cases "localStream s")
  case None
  show ?thesis
  proof (cases "primaryMedia m")
    case (Some ks)
    have "mediaOk (snd (useTracks (firstTrack Audio (fst (acquire ks s)) (snd (acquire ks s)))
        (if v then firstTrack Video (fst (acquire ks s)) (snd (acquire ks s)) else None) (snd (acquire ks s))))"
      using None assms enabledIds_acquire [of _ ks s]
      by (intro mediaOk_useTracks) (simp_all add: mediaOk_acquire, simp add: enabledIds_def)
    with None Some show ?thesis by (simp add: startLocalStream_def split_beta)
  next
    case n: None
    obtain r s1 where r: "fallbackAudio f m s = (r, s1)" by (cases "fallbackAudio f m s")
    note fb = fallbackAudio_media [OF assms r]
    have "mediaOk (snd (useTracks a None s1))" if "r = Inr a" for a
      using fb that None by (intro mediaOk_useTracks) (simp_all add: enabledIds_def)
    moreover have "mediaOk (snd (useTracks a (firstTrack Video (fst (acquire [Video] s1)) (snd (acquire [Video] s1))) (snd (acquire [Video] s1))))"
      if "r = Inr a" for a
      using fb that None enabledIds_acquire [of Video "[Video]" s1]
      by (intro mediaOk_useTracks) (simp_all add: mediaOk_acquire enabledIds_later)
    ultimately show ?thesis using None n r fb(1)
      by (cases r) (simp_all add: startLocalStream_def split_beta)
  qed
qed (use assms in \<open>simp add: startLocalStream_def\<close>)

lemma firstTrack_update:
  "(\<And>i. i \<in> set ids \<Longrightarrow> trackKind (ts' ! i) = trackKind (rtcTracks s ! i)) \<Longrightarrow> firstTrack k ids (s\<lparr>rtcTracks := ts'\<rparr>) = firstTrack k ids s"
  unfolding firstTrack_def by (rule find_cong_set) simp

lemma firstTrack_kind: "firstTrack k ids s = Some a \<Longrightarrow> trackKind (rtcTracks s ! a) = k"
  unfolding firstTrack_def by (auto simp: find_Some_iff)

text \<open>Switching a track on or off with its flag keeps the flag of the other kind.\<close>

lemma flagOk_toggle:
  assumes "flagOk k' off s" "localStream s = Some ids" "firstTrack k ids s = Some a" "a < length (rtcTracks s)"
  shows "flagOk k' (if k' = k then b else off) (s\<lparr>rtcTracks := (rtcTracks s)[a := (rtcTracks s ! a)\<lparr>trackEnabled := \<not> b\<rparr>]\<rparr>)"
proof -
  let ?ts = "(rtcTracks s)[a := (rtcTracks s ! a)\<lparr>trackEnabled := \<not> b\<rparr>]"
  have f: "firstTrack q ids (s\<lparr>rtcTracks := ?ts\<rparr>) = firstTrack q ids s" for q
    by (rule firstTrack_update) (simp add: nth_list_update assms(4))
  have "c \<noteq> a" if "k' \<noteq> k" "firstTrack k' ids s = Some c" for c
    using firstTrack_kind [OF that(2)] firstTrack_kind [OF assms(3)] that(1) by auto
  then show ?thesis
    using assms firstTrack_mem [of k' ids s] by (auto simp: flagOk_def f nth_list_update split: option.splits)
qed

lemma flagOk_cong: "rtcTracks s = rtcTracks s' \<Longrightarrow> localStream s = localStream s' \<Longrightarrow> flagOk k b s = flagOk k b s'"
  by (simp add: flagOk_def firstTrack_def cong: option.case_cong)

lemma mediaOk_toggleAudio: "mediaOk s \<Longrightarrow> mediaOk (snd (toggleAudio b s))"
proof (cases "Option.bind (localStream s) (\<lambda>ids. firstTrack Audio ids s)")
  case (Some a)
  assume ok: "mediaOk s"
  from Some obtain ids where ids: "localStream s = Some ids" "firstTrack Audio ids s = Some a" by (auto split: bind_splits)
  with ok have a: "a < length (rtcTracks s)" using firstTrack_mem by (auto simp: mediaOk_def flagOk_def)
  define m where "m = (case b of Some b \<Rightarrow> b | None \<Rightarrow> \<not> isAudioMuted s)"
  define s' where "s' = s\<lparr>rtcTracks := (rtcTracks s)[a := (rtcTracks s ! a)\<lparr>trackEnabled := \<not> m\<rparr>]\<rparr>"
  have "flagOk Audio (if Audio = Audio then m else isAudioMuted s) s'" "flagOk Video (if Audio = Video then m else isVideoDisabled s) s'"
    using ok flagOk_toggle [OF _ ids a, of Audio _ m] flagOk_toggle [OF _ ids a, of Video _ m] by (auto simp: mediaOk_def s'_def)
  moreover have "snd (toggleAudio b s) = s'\<lparr>isAudioMuted := m\<rparr>"
    using Some by (simp add: toggleAudio_def Let_def m_def [symmetric] s'_def)
  moreover have "flagOk k f (s'\<lparr>isAudioMuted := m\<rparr>) = flagOk k f s'" for k f by (rule flagOk_cong) simp_all
  moreover have "isVideoDisabled s' = isVideoDisabled s" by (simp add: s'_def)
  ultimately show ?thesis by (simp add: mediaOk_def)
qed (simp add: toggleAudio_def)

lemma mediaOk_toggleVideo: "mediaOk s \<Longrightarrow> mediaOk (snd (toggleVideo b s))"
proof (cases "Option.bind (localStream s) (\<lambda>ids. firstTrack Video ids s)")
  case (Some a)
  assume ok: "mediaOk s"
  from Some obtain ids where ids: "localStream s = Some ids" "firstTrack Video ids s = Some a" by (auto split: bind_splits)
  with ok have a: "a < length (rtcTracks s)" using firstTrack_mem by (auto simp: mediaOk_def flagOk_def)
  define m where "m = (case b of Some b \<Rightarrow> b | None \<Rightarrow> \<not> isVideoDisabled s)"
  define s' where "s' = s\<lparr>rtcTracks := (rtcTracks s)[a := (rtcTracks s ! a)\<lparr>trackEnabled := \<not> m\<rparr>]\<rparr>"
  have "flagOk Audio (if Video = Audio then m else isAudioMuted s) s'" "flagOk Video (if Video = Video then m else isVideoDisabled s) s'"
    using ok flagOk_toggle [OF _ ids a, of Audio _ m] flagOk_toggle [OF _ ids a, of Video _ m] by (auto simp: mediaOk_def s'_def)
  moreover have "snd (toggleVideo b s) = s'\<lparr>isVideoDisabled := m\<rparr>"
    using Some by (simp add: toggleVideo_def Let_def m_def [symmetric] s'_def)
  moreover have "flagOk k f (s'\<lparr>isVideoDisabled := m\<rparr>) = flagOk k f s'" for k f by (rule flagOk_cong) simp_all
  moreover have "isAudioMuted s' = isAudioMuted s" by (simp add: s'_def)
  ultimately show ?thesis by (simp add: mediaOk_def)
qed (simp add: toggleVideo_def)

lemma hangup_fields [simp]:
  "localStream (hangup s) = None" "remoteStream (hangup s) = None" "pc (hangup s) = None" "pendingCandidates (hangup s) = []"
  "\<not> isAudioMuted (hangup s)" "\<not> isVideoDisabled (hangup s)" "\<not> isRemoteDescriptionSet (hangup s)"
  by (simp_all add: hangup_def Let_def stopTracks_def updConn_def split: option.split)

lemma length_stopTracks [simp]: "length (rtcTracks (stopTracks ids s)) = length (rtcTracks s)"
  by (simp add: stopTracks_def)

lemma stopTracks_nth:
  "i < length (rtcTracks s) \<Longrightarrow>
    rtcTracks (stopTracks ids s) ! i = (if i \<in> set ids then (rtcTracks s ! i)\<lparr>trackLive := False\<rparr> else rtcTracks s ! i)"
  by (simp add: stopTracks_def nth_enumerate_eq)

text \<open>A hang-up stops the tracks of both streams and no other.\<close>

definition streamTracks :: "rtcState \<Rightarrow> nat set" where
  "streamTracks s = (case localStream s of Some ids \<Rightarrow> set ids | None \<Rightarrow> {}) \<union> (case remoteStream s of Some ids \<Rightarrow> set ids | None \<Rightarrow> {})"

lemma hangup_tracks:
  "i < length (rtcTracks s) \<Longrightarrow>
    trackLive (rtcTracks (hangup s) ! i) \<longleftrightarrow> trackLive (rtcTracks s ! i) \<and> i \<notin> streamTracks s"
proof -
  assume i: "i < length (rtcTracks s)"
  have "rtcTracks (hangup s)
      = rtcTracks (case remoteStream s of Some ids \<Rightarrow> stopTracks ids (case localStream s of Some js \<Rightarrow> stopTracks js s | None \<Rightarrow> s)
          | None \<Rightarrow> (case localStream s of Some js \<Rightarrow> stopTracks js s | None \<Rightarrow> s))"
    by (simp add: hangup_def Let_def updConn_def stopTracks_def split: option.split)
  then show ?thesis using i by (auto simp: stopTracks_nth streamTracks_def split: option.splits)
qed

lemma hangup_closes:
  "pc s = Some j \<Longrightarrow> j < length (rtcConns s) \<Longrightarrow> \<not> pcOpen (rtcConns (hangup s) ! j)"
  by (auto simp: hangup_def Let_def updConn_def stopTracks_def split: option.split)

lemma mediaOk_step: "mediaOk s \<Longrightarrow> mediaOk (callStep e s)"
proof (cases e)
  case (TrackArrives k others i)
  assume ok: "mediaOk s"
  have "mediaOk (rtcNotify n (t\<lparr>remoteStream := r\<rparr>)) = mediaOk t" for n r t by (rule mediaOk_cong) simp
  then show ?thesis using ok TrackArrives by (simp add: onTrack_def split_beta Let_def mediaOk_acquire)
next
  case Hangup
  then show ?thesis by (simp add: mediaOk_def flagOk_def)
next
  case (CandidateArrives c)
  assume "mediaOk s"
  moreover have "mediaView (addIceCandidate c s) = mediaView s" by (simp add: addIceCandidate_def split: option.split)
  ultimately show ?thesis using CandidateArrives by (simp add: mediaOk_cong [of "addIceCandidate c s" s])
next
  case (StateChanged st)
  assume "mediaOk s"
  then show ?thesis using StateChanged mediaOk_cong [of "rtcNotify (NState st) s" s] by (simp add: onConnectionStateChange_def)
next
  case (CandidateFound c i)
  assume "mediaOk s"
  then show ?thesis using CandidateFound mediaOk_cong [of "rtcNotify n s" s for n]
    by (simp add: onIceCandidate_def split: option.split)
next
  case (CreateOffer servers)
  assume "mediaOk s"
  moreover have "mediaView (createOffer servers s) = mediaView s" by (simp add: createOffer_def split_beta)
  ultimately show ?thesis using CreateOffer by (simp add: mediaOk_cong [of "createOffer servers s" s])
next
  case (OfferArrives servers sdp)
  assume "mediaOk s"
  moreover have "mediaView (handleOffer servers sdp s) = mediaView s" by (simp add: handleOffer_def split_beta)
  ultimately show ?thesis using OfferArrives by (simp add: mediaOk_cong [of "handleOffer servers sdp s" s])
next
  case (AnswerArrives sdp)
  assume "mediaOk s"
  moreover have "mediaView (handleAnswer sdp s) = mediaView s" by (simp add: handleAnswer_def split: option.split)
  ultimately show ?thesis using AnswerArrives by (simp add: mediaOk_cong [of "handleAnswer sdp s" s])
next
  case (Resume enc n a)
  assume "mediaOk s"
  then show ?thesis using Resume by (simp add: mediaOk_cong [of "resumeTask enc n a s" s])
qed (simp_all add: mediaOk_start mediaOk_toggleAudio mediaOk_toggleVideo)

text \<open>
  The media of a call, after any sequence of steps. The mute flag is the opposite of the enabled
  state of the audio track that is sent, and the camera flag that of the video track. A
  hang-up leaves no stream and no connection, clears both flags and stops exactly the tracks of the
  local and the remote stream.
\<close>
theorem call_media:
  assumes "s = fold callStep events newManager"
  shows "(\<forall>ids a. localStream s = Some ids \<longrightarrow> firstTrack Audio ids s = Some a \<longrightarrow>
        (trackEnabled (rtcTracks s ! a) \<longleftrightarrow> \<not> isAudioMuted s))
    \<and> (\<forall>ids v. localStream s = Some ids \<longrightarrow> firstTrack Video ids s = Some v \<longrightarrow>
        (trackEnabled (rtcTracks s ! v) \<longleftrightarrow> \<not> isVideoDisabled s))
    \<and> localStream (hangup s) = None \<and> remoteStream (hangup s) = None \<and> pc (hangup s) = None
    \<and> \<not> isAudioMuted (hangup s) \<and> \<not> isVideoDisabled (hangup s)
    \<and> (\<forall>i < length (rtcTracks s). trackLive (rtcTracks (hangup s) ! i) \<longleftrightarrow> trackLive (rtcTracks s ! i) \<and> i \<notin> streamTracks s)"
proof -
  have "mediaOk newManager" by (simp add: mediaOk_def flagOk_def newManager_def)
  then have "mediaOk s" unfolding assms by (induction events rule: rev_induct) (simp_all add: mediaOk_step)
  then show ?thesis by (auto simp: mediaOk_def flagOk_def hangup_tracks)
qed

theorem call_media_witness:
  "\<not> trackEnabled (rtcTracks (fold callStep
        [StartMedia True False \<lparr>primaryMedia = Some [Audio, Video], audioOnlyMedia = None, silentAudio = False\<rparr>, ToggleAudio None] newManager) ! 0)"
proof -
  let ?s = "fold callStep
        [StartMedia True False \<lparr>primaryMedia = Some [Audio, Video], audioOnlyMedia = None, silentAudio = False\<rparr>, ToggleAudio None] newManager"
  have "localStream ?s = Some [0, 1]" "isAudioMuted ?s" "firstTrack Audio [0, 1] ?s = Some 0"
    by (simp_all add: startLocalStream_def newManager_def acquire_def useTracks_def firstTrack_def rtcNotify_def toggleAudio_def upt_rec Let_def)
  with call_media [OF refl, of "[StartMedia True False \<lparr>primaryMedia = Some [Audio, Video], audioOnlyMedia = None, silentAudio = False\<rparr>, ToggleAudio None]"]
  show ?thesis by blast
qed

text \<open>
  The fallback of an audio call. When the first request for the microphone is refused and the
  second is granted, the granted track is not used: the call fails for want of a stream, and
  the microphone stays in use after a hang-up.
\<close>
theorem fallback_microphone_lost:
  assumes "localStream s = None" "primaryMedia m = None" "audioOnlyMedia m = Some (Audio # ks)"
    and "\<forall>i \<in> streamTracks s. i < length (rtcTracks s)"
  shows "fst (startLocalStream False allowFallback m s) = Inl NoStream
    \<and> localStream (snd (startLocalStream False allowFallback m s)) = None
    \<and> trackKind (rtcTracks (hangup (snd (startLocalStream False allowFallback m s))) ! length (rtcTracks s)) = Audio
    \<and> trackLive (rtcTracks (hangup (snd (startLocalStream False allowFallback m s))) ! length (rtcTracks s))"
proof -
  let ?n = "length (rtcTracks s)"
  have eq: "startLocalStream False allowFallback m s = (Inl NoStream, rtcNotify NError (snd (acquire (Audio # ks) s)))"
    using assms(1-3) by (simp add: startLocalStream_def fallbackAudio_def useTracks_def)
  let ?s = "rtcNotify NError (snd (acquire (Audio # ks) s))"
  have s: "?n < length (rtcTracks ?s)" "rtcTracks ?s ! ?n = \<lparr>trackKind = Audio, trackLive = True, trackEnabled = True\<rparr>"
      "streamTracks ?s = streamTracks s" "localStream ?s = None"
    using assms(1) by (simp_all add: rtcNotify_def acquire_def nth_append streamTracks_def)
  have "trackLive (rtcTracks (hangup ?s) ! ?n)" using hangup_tracks [OF s(1)] s assms(4) by auto
  moreover have "trackKind (rtcTracks (hangup ?s) ! ?n) = Audio"
  proof -
    have "trackKind (rtcTracks (stopTracks ids t) ! i) = trackKind (rtcTracks t ! i)" if "i < length (rtcTracks t)" for ids t i
      using that by (simp add: stopTracks_nth)
    then show ?thesis using s by (simp add: hangup_def Let_def updConn_def split: option.split)
  qed
  ultimately show ?thesis using s(4) by (simp add: eq)
qed

theorem fallback_microphone_lost_witness:
  "fst (startLocalStream False True \<lparr>primaryMedia = None, audioOnlyMedia = Some [Audio], silentAudio = True\<rparr> newManager) = Inl NoStream
  \<and> trackLive (rtcTracks (hangup (snd (startLocalStream False True
      \<lparr>primaryMedia = None, audioOnlyMedia = Some [Audio], silentAudio = True\<rparr> newManager))) ! 0)"
  using fallback_microphone_lost [of newManager "\<lparr>primaryMedia = None, audioOnlyMedia = Some [Audio], silentAudio = True\<rparr>" "[]" True]
  by (simp add: newManager_def streamTracks_def)

section \<open>ICE servers\<close>

text \<open>The servers in use are never an empty list, and a cached list is used only until a minute before it expires.\<close>

lemma fetchDynamicIceServers_fresh:
  assumes "fetchDynamicIceServers now token stored answer c = (servers, c')" "cachedIceServers c \<noteq> Some []"
  shows "servers \<noteq> []" "cachedIceServers c' \<noteq> Some []"
    "servers = defaultIceServers \<or> (cachedIceServers c' = Some servers \<and> (c' = c \<longrightarrow> now + 60000 < cachedIceServersExpiresAt c \<or> (\<exists>r. answer = HttpOk r)))"
  using assms
  by (auto simp: fetchDynamicIceServers_def requestIceServers_def defaultIceServers_def Let_def split: if_splits option.splits http.splits)

end
