(* ===== verification/Group_Call.thy ===== *)
theory Group_Call
  imports Webrtc_Call
begin

text \<open>
  Group calls, \<open>packages/client-web/src/lib/group-webrtc-manager.ts\<close>: the mesh of peer connections of
  \<open>GroupWebRtcManager\<close> with the offer and answer exchange of every peer, the shared local media,
  screen sharing and the detection of the active speaker. As in \<open>Webrtc_Call\<close> the browser's tracks and
  connections are explicit state, and an operation that awaits the browser is suspended as a task.
\<close>

section \<open>State\<close>

record groupPeer =
  peerConnNo :: nat
  peerStream :: "nat list"
  peerPending :: "string list"
  peerRemoteSet :: bool

datatype signal = OfferSignal string | AnswerSignal string | CandidateSignal string

datatype groupNotice =
  GLocalStream "nat list" | GPeerStream string "nat list" | GPeerLeft string | GActiveSpeaker "string option"
| GSignal string signal | GError

text \<open>
  The operations of a peer that wait for the browser: \<open>createOffer\<close>, \<open>setLocalDescription\<close>,
  \<open>setRemoteDescription\<close>, \<open>addIceCandidate\<close> in the loop over the queue (with the candidates that
  follow), \<open>createAnswer\<close>.
\<close>

datatype groupTask =
  GOfferCreated | GOfferLocal string | GRemoteSet sdpType string | GDraining sdpType "string list" | GAnswerCreated | GAnswerLocal string

text \<open>A running task: its number, the peer it was started for and the peer's object.\<close>

record groupState =
  gTracks :: "mediaTrack list"
  gConns :: "peerConn list"
  peerItems :: "groupPeer list"
  peers :: "nat jsmap"
  gTasks :: "(nat \<times> string \<times> nat \<times> groupTask) list"
  gNextTask :: nat
  gLocalStream :: "nat list option"
  screenStream :: "nat list option"
  cameraVideoTrack :: "nat option"
  sframeKeys :: "(string \<times> string) jsmap"
  gAudioMuted :: bool
  gVideoDisabled :: bool
  isScreenSharing :: bool
  audioContext :: bool
  localAnalyser :: bool
  peerAnalysers :: "unit jsmap"
  speakerTimer :: bool
  currentActiveSpeakerId :: "string option"
  gNotices :: "groupNotice list"

definition newGroup :: groupState where
  "newGroup = \<lparr>gTracks = [], gConns = [], peerItems = [], peers = [], gTasks = [], gNextTask = 0, gLocalStream = None, screenStream = None,
     cameraVideoTrack = None, sframeKeys = [], gAudioMuted = False, gVideoDisabled = False, isScreenSharing = False,
     audioContext = False, localAnalyser = False, peerAnalysers = [], speakerTimer = False, currentActiveSpeakerId = None, gNotices = []\<rparr>"

definition gNotice :: "groupNotice \<Rightarrow> groupState \<Rightarrow> groupState" where
  "gNotice n s = s\<lparr>gNotices := gNotices s @ [n]\<rparr>"

definition gAcquire :: "trackKind list \<Rightarrow> groupState \<Rightarrow> nat list \<times> groupState" where
  "gAcquire ks s =
     ([length (gTracks s)..<length (gTracks s) + length ks],
      s\<lparr>gTracks := gTracks s @ map (\<lambda>k. \<lparr>trackKind = k, trackLive = True, trackEnabled = True\<rparr>) ks\<rparr>)"

definition gFirst :: "trackKind \<Rightarrow> nat list \<Rightarrow> groupState \<Rightarrow> nat option" where
  "gFirst k ids s = find (\<lambda>i. trackKind (gTracks s ! i) = k) ids"

definition gStop :: "nat list \<Rightarrow> groupState \<Rightarrow> groupState" where
  "gStop ids s = s\<lparr>gTracks := map (\<lambda>(i, t). if i \<in> set ids then t\<lparr>trackLive := False\<rparr> else t) (enumerate 0 (gTracks s))\<rparr>"

definition gUpdConn :: "nat \<Rightarrow> (peerConn \<Rightarrow> peerConn) \<Rightarrow> groupState \<Rightarrow> groupState" where
  "gUpdConn i f s = s\<lparr>gConns := (gConns s)[i := f (gConns s ! i)]\<rparr>"

definition gUpdPeer :: "nat \<Rightarrow> (groupPeer \<Rightarrow> groupPeer) \<Rightarrow> groupState \<Rightarrow> groupState" where
  "gUpdPeer j f s = s\<lparr>peerItems := (peerItems s)[j := f (peerItems s ! j)]\<rparr>"

definition gSuspend :: "string \<Rightarrow> nat \<Rightarrow> groupTask \<Rightarrow> groupState \<Rightarrow> groupState" where
  "gSuspend p j t s = s\<lparr>gTasks := gTasks s @ [(gNextTask s, p, j, t)], gNextTask := gNextTask s + 1\<rparr>"

section \<open>Local media\<close>

text \<open>
  The stream of a granted request, or the fallback stream with the tracks that could be made. Whether
  an audio context can be created is an argument.
\<close>

definition setupActiveSpeakerDetection :: "bool \<Rightarrow> groupState \<Rightarrow> groupState" where
  "setupActiveSpeakerDetection webAudio s =
     (if \<not> webAudio then s
      else let hasAudio = (case gLocalStream s of Some ids \<Rightarrow> list_ex (\<lambda>i. trackKind (gTracks s ! i) = Audio) ids | None \<Rightarrow> False)
           in s\<lparr>audioContext := True, localAnalyser := (localAnalyser s \<or> hasAudio), speakerTimer := True\<rparr>)"

definition groupStartLocalStream :: "trackKind list option \<Rightarrow> trackKind list \<Rightarrow> bool \<Rightarrow> groupState \<Rightarrow> nat list \<times> groupState" where
  "groupStartLocalStream granted fallback webAudio s =
     (case gAcquire (case granted of Some ks \<Rightarrow> ks | None \<Rightarrow> fallback) s of
        (ids, s1) \<Rightarrow>
          let s2 = s1\<lparr>gLocalStream := Some ids\<rparr>;
              s3 = (case gFirst Video ids s2 of Some v \<Rightarrow> s2\<lparr>cameraVideoTrack := Some v\<rparr> | None \<Rightarrow> s2)
          in (ids, setupActiveSpeakerDetection webAudio (gNotice (GLocalStream ids) s3)))"

definition groupToggleAudio :: "groupState \<Rightarrow> bool \<times> groupState" where
  "groupToggleAudio s =
     (case gLocalStream s of
        None \<Rightarrow> (False, s)
      | Some ids \<Rightarrow>
          let s1 = (case gFirst Audio ids s of
                      Some a \<Rightarrow> let e = \<not> trackEnabled (gTracks s ! a)
                                in s\<lparr>gTracks := (gTracks s)[a := (gTracks s ! a)\<lparr>trackEnabled := e\<rparr>], gAudioMuted := \<not> e\<rparr>
                    | None \<Rightarrow> s)
          in (gAudioMuted s1, s1))"

definition groupToggleVideo :: "groupState \<Rightarrow> bool \<times> groupState" where
  "groupToggleVideo s =
     (case gLocalStream s of
        None \<Rightarrow> (False, s)
      | Some ids \<Rightarrow>
          let s1 = (case gFirst Video ids s of
                      Some v \<Rightarrow> let e = \<not> trackEnabled (gTracks s ! v)
                                in s\<lparr>gTracks := (gTracks s)[v := (gTracks s ! v)\<lparr>trackEnabled := e\<rparr>], gVideoDisabled := \<not> e\<rparr>
                    | None \<Rightarrow> s)
          in (gVideoDisabled s1, s1))"

section \<open>Peers\<close>

definition addPeer :: "string list \<Rightarrow> string \<Rightarrow> bool \<Rightarrow> groupState \<Rightarrow> groupState" where
  "addPeer iceConfig peer isInitiator s =
     (if jsGet (peers s) peer \<noteq> None then s
      else let i = length (gConns s); j = length (peerItems s);
               senders = (case gLocalStream s of
                            Some ids \<Rightarrow> map (\<lambda>t. \<lparr>senderTrack = t, senderTuned = False\<rparr>) ids
                          | None \<Rightarrow> []);
               c = \<lparr>pcOpen = True, pcServers = iceConfig, pcSenders = senders, pcLocal = None, pcRemote = None, pcCandidates = []\<rparr>;
               x = \<lparr>peerConnNo = i, peerStream = [], peerPending = [], peerRemoteSet = False\<rparr>;
               s1 = s\<lparr>gConns := gConns s @ [c], peerItems := peerItems s @ [x], peers := jsSet peer j (peers s)\<rparr>
           in if isInitiator then gSuspend peer j GOfferCreated s1 else s1)"

text \<open>The media key of a peer arrives later, or not at all.\<close>

definition sframeKeyDerived :: "string \<Rightarrow> string \<times> string \<Rightarrow> groupState \<Rightarrow> groupState" where
  "sframeKeyDerived peer k s = s\<lparr>sframeKeys := jsSet peer k (sframeKeys s)\<rparr>"

definition getPeerSframeKey :: "string \<Rightarrow> groupState \<Rightarrow> (string \<times> string) option" where
  "getPeerSframeKey peer s = jsGet (sframeKeys s) peer"

definition isSframeSecured :: "string \<Rightarrow> groupState \<Rightarrow> bool" where
  "isSframeSecured peer s \<longleftrightarrow> jsGet (sframeKeys s) peer \<noteq> None"

definition groupHandleOffer :: "string list \<Rightarrow> string \<Rightarrow> string \<Rightarrow> groupState \<Rightarrow> groupState" where
  "groupHandleOffer iceConfig peer sdp s =
     (let s1 = addPeer iceConfig peer False s
      in gSuspend peer (the (jsGet (peers s1) peer)) (GRemoteSet SdpOffer sdp) s1)"

definition groupHandleAnswer :: "string \<Rightarrow> string \<Rightarrow> groupState \<Rightarrow> groupState" where
  "groupHandleAnswer peer sdp s =
     (case jsGet (peers s) peer of None \<Rightarrow> s | Some j \<Rightarrow> gSuspend peer j (GRemoteSet SdpAnswer sdp) s)"

definition giveCandidate :: "nat \<Rightarrow> string \<Rightarrow> groupState \<Rightarrow> groupState" where
  "giveCandidate i c s = gUpdConn i (\<lambda>x. x\<lparr>pcCandidates := pcCandidates x @ [c]\<rparr>) s"

definition handleIceCandidate :: "string \<Rightarrow> string \<Rightarrow> groupState \<Rightarrow> groupState" where
  "handleIceCandidate peer c s =
     (case jsGet (peers s) peer of
        None \<Rightarrow> s
      | Some j \<Rightarrow>
          let x = peerItems s ! j
          in if peerRemoteSet x \<and> pcRemote (gConns s ! peerConnNo x) \<noteq> None
             then giveCandidate (peerConnNo x) c s
             else gUpdPeer j (\<lambda>x. x\<lparr>peerPending := peerPending x @ [c]\<rparr>) s)"

text \<open>The loop over the queue up to its next await; after it the queue is emptied.\<close>

fun groupDrain :: "string \<Rightarrow> nat \<Rightarrow> sdpType \<Rightarrow> string list \<Rightarrow> groupState \<Rightarrow> groupState" where
  "groupDrain p j k (c # cs) s = gSuspend p j (GDraining k cs) (giveCandidate (peerConnNo (peerItems s ! j)) c s)"
| "groupDrain p j k [] s =
     (let s1 = gUpdPeer j (\<lambda>x. x\<lparr>peerPending := []\<rparr>) s
      in case k of SdpOffer \<Rightarrow> gSuspend p j GAnswerCreated s1 | SdpAnswer \<Rightarrow> s1)"

definition groupContinue :: "string \<Rightarrow> nat \<Rightarrow> groupTask \<Rightarrow> rtcAnswer \<Rightarrow> groupState \<Rightarrow> groupState" where
  "groupContinue p j t answer s =
     (let i = peerConnNo (peerItems s ! j)
      in case (t, answer) of
           (_, RtcRejected) \<Rightarrow> gNotice GError s
         | (GOfferCreated, RtcSdp sdp) \<Rightarrow> gSuspend p j (GOfferLocal (optimizeAudioSdp sdp)) s
         | (GOfferLocal d, RtcOk) \<Rightarrow>
             gNotice (GSignal p (OfferSignal d)) (gUpdConn i (\<lambda>c. c\<lparr>pcLocal := Some (SdpOffer, d)\<rparr>) s)
         | (GRemoteSet k d, RtcOk) \<Rightarrow>
             let s1 = gUpdPeer j (\<lambda>x. x\<lparr>peerRemoteSet := True\<rparr>) (gUpdConn i (\<lambda>c. c\<lparr>pcRemote := Some (k, d)\<rparr>) s)
             in groupDrain p j k (peerPending (peerItems s1 ! j)) s1
         | (GDraining k cs, RtcOk) \<Rightarrow> groupDrain p j k cs s
         | (GAnswerCreated, RtcSdp sdp) \<Rightarrow> gSuspend p j (GAnswerLocal (optimizeAudioSdp sdp)) s
         | (GAnswerLocal d, RtcOk) \<Rightarrow>
             gNotice (GSignal p (AnswerSignal d)) (gUpdConn i (\<lambda>c. c\<lparr>pcLocal := Some (SdpAnswer, d)\<rparr>) s)
         | _ \<Rightarrow> s)"

definition groupResume :: "nat \<Rightarrow> rtcAnswer \<Rightarrow> groupState \<Rightarrow> groupState" where
  "groupResume n answer s =
     (case map_of (gTasks s) n of
        None \<Rightarrow> s
      | Some (p, j, t) \<Rightarrow>
          if pcOpen (gConns s ! peerConnNo (peerItems s ! j))
          then groupContinue p j t answer (s\<lparr>gTasks := filter (\<lambda>e. fst e \<noteq> n) (gTasks s)\<rparr>)
          else s)"

definition removePeer :: "string \<Rightarrow> groupState \<Rightarrow> groupState" where
  "removePeer peer s =
     (case jsGet (peers s) peer of
        None \<Rightarrow> s
      | Some j \<Rightarrow>
          let s1 = gUpdConn (peerConnNo (peerItems s ! j)) (\<lambda>c. c\<lparr>pcOpen := False\<rparr>) s;
              s2 = gNotice (GPeerLeft peer) (s1\<lparr>peers := jsDelete peer (peers s1), peerAnalysers := jsDelete peer (peerAnalysers s1)\<rparr>)
          in if currentActiveSpeakerId s2 = Some peer
             then gNotice (GActiveSpeaker None) (s2\<lparr>currentActiveSpeakerId := None\<rparr>) else s2)"

definition getConnectedPeerIds :: "groupState \<Rightarrow> string list" where
  "getConnectedPeerIds s = map fst (peers s)"

text \<open>Events of the connection of a peer\<close>

definition attachPeerAudioAnalyser :: "string \<Rightarrow> groupState \<Rightarrow> groupState" where
  "attachPeerAudioAnalyser peer s =
     (if audioContext s then s\<lparr>peerAnalysers := jsSet peer () (peerAnalysers s)\<rparr> else s)"

definition groupOnTrack :: "trackKind \<Rightarrow> string \<Rightarrow> nat \<Rightarrow> groupState \<Rightarrow> groupState" where
  "groupOnTrack k peer j s =
     (if j < length (peerItems s) \<and> pcOpen (gConns s ! peerConnNo (peerItems s ! j))
      then (case gAcquire [k] s of (ids, s1) \<Rightarrow>
              let s2 = gUpdPeer j (\<lambda>x. x\<lparr>peerStream := peerStream x @ ids\<rparr>) s1;
                  s3 = gNotice (GPeerStream peer (peerStream (peerItems s2 ! j))) s2
              in if k = Audio then attachPeerAudioAnalyser peer s3 else s3)
      else s)"

definition groupOnIceCandidate :: "string option \<Rightarrow> string \<Rightarrow> groupState \<Rightarrow> groupState" where
  "groupOnIceCandidate c peer s =
     (case c of Some x \<Rightarrow> gNotice (GSignal peer (CandidateSignal x)) s | None \<Rightarrow> s)"

definition groupOnState :: "string \<Rightarrow> string \<Rightarrow> groupState \<Rightarrow> groupState" where
  "groupOnState st peer s = (if st = ''failed'' \<or> st = ''closed'' then removePeer peer s else s)"

section \<open>Screen sharing\<close>

text \<open>
  \<open>sender.replaceTrack\<close> on the first video sender of each peer in turn; \<open>refuses\<close> tells at
  which peers the browser rejects it, which ends the loop.
\<close>

definition videoSender :: "groupState \<Rightarrow> rtcSender list \<Rightarrow> nat option" where
  "videoSender s xs = find (\<lambda>n. trackKind (gTracks s ! senderTrack (xs ! n)) = Video) [0..<length xs]"

definition replaceVideo :: "nat \<Rightarrow> nat \<Rightarrow> groupState \<Rightarrow> groupState" where
  "replaceVideo t j s =
     (let i = peerConnNo (peerItems s ! j)
      in case videoSender s (pcSenders (gConns s ! i)) of
           None \<Rightarrow> s
         | Some n \<Rightarrow> gUpdConn i (\<lambda>c. c\<lparr>pcSenders := (pcSenders c)[n := (pcSenders c ! n)\<lparr>senderTrack := t\<rparr>]\<rparr>) s)"

fun replaceAll :: "(string \<Rightarrow> bool) \<Rightarrow> nat \<Rightarrow> (string \<times> nat) list \<Rightarrow> groupState \<Rightarrow> bool \<times> groupState" where
  "replaceAll refuses t [] s = (True, s)"
| "replaceAll refuses t ((p, j) # ps) s =
     (if refuses p \<and> videoSender s (pcSenders (gConns s ! peerConnNo (peerItems s ! j))) \<noteq> None then (False, s)
      else replaceAll refuses t ps (replaceVideo t j s))"

datatype shareResult = Shared "nat list" | NotShared | Unsupported

definition startScreenShare :: "bool \<Rightarrow> trackKind list option \<Rightarrow> (string \<Rightarrow> bool) \<Rightarrow> groupState \<Rightarrow> shareResult \<times> groupState" where
  "startScreenShare supported granted refuses s =
     (if \<not> supported then (Unsupported, s)
      else case granted of
             None \<Rightarrow> (NotShared, s)
           | Some ks \<Rightarrow>
               (case gAcquire ks s of
                  (ids, s1) \<Rightarrow>
                    (case gFirst Video ids s1 of
                       None \<Rightarrow> (NotShared, s1)
                     | Some t \<Rightarrow>
                         (case replaceAll refuses t (peers s1) (s1\<lparr>screenStream := Some ids, isScreenSharing := True\<rparr>) of
                            (ok, s2) \<Rightarrow> (if ok then Shared ids else NotShared, s2)))))"

text \<open>The result tells whether the promise is fulfilled.\<close>

definition stopScreenShare :: "(string \<Rightarrow> bool) \<Rightarrow> groupState \<Rightarrow> bool \<times> groupState" where
  "stopScreenShare refuses s =
     (if \<not> isScreenSharing s then (True, s)
      else let s1 = (case screenStream s of Some ids \<Rightarrow> (gStop ids s)\<lparr>screenStream := None\<rparr> | None \<Rightarrow> s);
               s2 = s1\<lparr>isScreenSharing := False\<rparr>
           in case cameraVideoTrack s2 of Some t \<Rightarrow> replaceAll refuses t (peers s2) s2 | None \<Rightarrow> (True, s2))"

section \<open>The active speaker\<close>

text \<open>
  The volume is the root of the mean square of the samples. The comparisons are made on the squares,
  which have the same order.
\<close>

definition meanSquare :: "bytes \<Rightarrow> rat" where
  "meanSquare samples = sum_list (map (\<lambda>b. ((of_nat (unat b) - 128) / 128) * ((of_nat (unat b) - 128) / 128)) samples) / of_nat (length samples)"

definition speechThreshold :: rat where
  "speechThreshold = (8 / 100) * (8 / 100)"

definition louder :: "string \<times> rat \<Rightarrow> string option \<times> rat \<Rightarrow> string option \<times> rat" where
  "louder e best = (if snd e > speechThreshold \<and> snd e > snd best then (Some (fst e), snd e) else best)"

definition loudestSpeaker :: "(string \<times> rat) list \<Rightarrow> string option" where
  "loudestSpeaker volumes = fst (fold louder volumes (None, 0))"

definition pollActiveSpeaker :: "bytes \<Rightarrow> (string \<Rightarrow> bytes) \<Rightarrow> groupState \<Rightarrow> groupState" where
  "pollActiveSpeaker localSamples peerSamples s =
     (let own = (if localAnalyser s \<and> \<not> gAudioMuted s then [(''local'', meanSquare localSamples)] else []);
          loudest = loudestSpeaker (own @ map (\<lambda>e. (fst e, meanSquare (peerSamples (fst e)))) (peerAnalysers s))
      in if loudest \<noteq> currentActiveSpeakerId s
         then gNotice (GActiveSpeaker loudest) (s\<lparr>currentActiveSpeakerId := loudest\<rparr>) else s)"

section \<open>Leaving\<close>

definition closeAll :: "nat list \<Rightarrow> groupState \<Rightarrow> groupState" where
  "closeAll js s = fold (\<lambda>j. gUpdConn (peerConnNo (peerItems s ! j)) (\<lambda>c. c\<lparr>pcOpen := False\<rparr>)) js s"

definition leaveCall :: "groupState \<Rightarrow> groupState" where
  "leaveCall s =
     (let s1 = s\<lparr>speakerTimer := False, audioContext := False, localAnalyser := False, peerAnalysers := []\<rparr>;
          s2 = (case gLocalStream s1 of Some ids \<Rightarrow> (gStop ids s1)\<lparr>gLocalStream := None\<rparr> | None \<Rightarrow> s1);
          s3 = (case screenStream s2 of Some ids \<Rightarrow> (gStop ids s2)\<lparr>screenStream := None\<rparr> | None \<Rightarrow> s2)
      in (closeAll (map snd (peers s3)) s3)\<lparr>peers := []\<rparr>)"

datatype groupEvent =
  GStartMedia "trackKind list option" "trackKind list" bool | GAddPeer "string list" string bool | GKey string "string \<times> string"
| GOfferArrives "string list" string string | GAnswerArrives string string | GCandidateArrives string string
| GResume nat rtcAnswer | GRemovePeer string | GToggleAudio | GToggleVideo | GShare bool "trackKind list option" "string \<Rightarrow> bool"
| GUnshare "string \<Rightarrow> bool" | GTrack trackKind string nat | GCandidateFound "string option" string | GStateChange string string
| GPoll bytes "string \<Rightarrow> bytes" | GLeave

fun groupStep :: "groupEvent \<Rightarrow> groupState \<Rightarrow> groupState" where
  "groupStep (GStartMedia g f w) s = snd (groupStartLocalStream g f w s)"
| "groupStep (GAddPeer ice p b) s = addPeer ice p b s"
| "groupStep (GKey p k) s = sframeKeyDerived p k s"
| "groupStep (GOfferArrives ice p sdp) s = groupHandleOffer ice p sdp s"
| "groupStep (GAnswerArrives p sdp) s = groupHandleAnswer p sdp s"
| "groupStep (GCandidateArrives p c) s = handleIceCandidate p c s"
| "groupStep (GResume n a) s = groupResume n a s"
| "groupStep (GRemovePeer p) s = removePeer p s"
| "groupStep GToggleAudio s = snd (groupToggleAudio s)"
| "groupStep GToggleVideo s = snd (groupToggleVideo s)"
| "groupStep (GShare b g r) s = snd (startScreenShare b g r s)"
| "groupStep (GUnshare r) s = snd (stopScreenShare r s)"
| "groupStep (GTrack k p j) s = groupOnTrack k p j s"
| "groupStep (GCandidateFound c p) s = groupOnIceCandidate c p s"
| "groupStep (GStateChange st p) s = groupOnState st p s"
| "groupStep (GPoll l f) s = pollActiveSpeaker l f s"
| "groupStep GLeave s = leaveCall s"

section \<open>The mesh\<close>

text \<open>What the mesh depends on: the open connections, the connection of every peer object, the peers\<close>

definition meshView :: "groupState \<Rightarrow> bool list \<times> nat list \<times> nat jsmap" where
  "meshView s = (map pcOpen (gConns s), map peerConnNo (peerItems s), peers s)"

definition meshOk :: "groupState \<Rightarrow> bool" where
  "meshOk s \<longleftrightarrow> wfMap (peers s) \<and> length (gConns s) = length (peerItems s)
     \<and> (\<forall>j < length (peerItems s). peerConnNo (peerItems s ! j) = j)
     \<and> (\<forall>p j. jsGet (peers s) p = Some j \<longrightarrow> j < length (peerItems s))
     \<and> (\<forall>p q j. jsGet (peers s) p = Some j \<longrightarrow> jsGet (peers s) q = Some j \<longrightarrow> p = q)
     \<and> (\<forall>j < length (gConns s). pcOpen (gConns s ! j) \<longleftrightarrow> (\<exists>p. jsGet (peers s) p = Some j))"

lemma meshOk_cong: "meshView s = meshView s' \<Longrightarrow> meshOk s \<Longrightarrow> meshOk s'"
proof -
  assume v: "meshView s = meshView s'"
  then have o: "map pcOpen (gConns s) = map pcOpen (gConns s')" and c: "map peerConnNo (peerItems s) = map peerConnNo (peerItems s')"
    and p: "peers s = peers s'" by (simp_all add: meshView_def)
  from o c have l: "length (gConns s) = length (gConns s')" "length (peerItems s) = length (peerItems s')"
    by (auto dest: map_eq_imp_length_eq)
  have n: "j < length (gConns s') \<Longrightarrow> pcOpen (gConns s ! j) = pcOpen (gConns s' ! j)"
    "j < length (peerItems s') \<Longrightarrow> peerConnNo (peerItems s ! j) = peerConnNo (peerItems s' ! j)" for j
    using arg_cong [OF o, of "\<lambda>xs. xs ! j"] arg_cong [OF c, of "\<lambda>xs. xs ! j"] l by simp_all
  assume "meshOk s"
  then show ?thesis unfolding meshOk_def using l n p by simp
qed

lemma map_update_same: "(\<And>c. g (f c) = g c) \<Longrightarrow> map g (xs[i := f (xs ! i)]) = map g xs"
proof (cases "i < length xs")
  case True
  assume "\<And>c. g (f c) = g c"
  with True show ?thesis by (simp add: map_update list_update_same_conv)
qed (simp add: list_update_beyond)

lemma meshView_upd:
  "(\<And>c. pcOpen (f c) = pcOpen c) \<Longrightarrow> meshView (gUpdConn i f s) = meshView s"
  "(\<And>x. peerConnNo (g x) = peerConnNo x) \<Longrightarrow> meshView (gUpdPeer j g s) = meshView s"
  by (simp_all add: meshView_def gUpdConn_def gUpdPeer_def map_update_same)

lemma meshView_simps [simp]:
  "meshView (gNotice n s) = meshView s" "meshView (gSuspend p j t s) = meshView s" "meshView (snd (gAcquire ks s)) = meshView s"
  "meshView (gStop ids s) = meshView s" "meshView (giveCandidate i c s) = meshView s"
  "meshView (s\<lparr>gTracks := ts\<rparr>) = meshView s" "meshView (s\<lparr>gLocalStream := l\<rparr>) = meshView s"
  "meshView (s\<lparr>screenStream := l\<rparr>) = meshView s" "meshView (s\<lparr>cameraVideoTrack := v\<rparr>) = meshView s"
  "meshView (s\<lparr>sframeKeys := k\<rparr>) = meshView s" "meshView (s\<lparr>gAudioMuted := b\<rparr>) = meshView s"
  "meshView (s\<lparr>gVideoDisabled := b\<rparr>) = meshView s" "meshView (s\<lparr>isScreenSharing := b\<rparr>) = meshView s"
  "meshView (s\<lparr>audioContext := b\<rparr>) = meshView s" "meshView (s\<lparr>localAnalyser := b\<rparr>) = meshView s"
  "meshView (s\<lparr>peerAnalysers := a\<rparr>) = meshView s" "meshView (s\<lparr>speakerTimer := b\<rparr>) = meshView s"
  "meshView (s\<lparr>currentActiveSpeakerId := x\<rparr>) = meshView s" "meshView (s\<lparr>gTasks := ts'\<rparr>) = meshView s"
  by (simp_all add: giveCandidate_def meshView_upd) (simp_all add: meshView_def gNotice_def gSuspend_def gAcquire_def gStop_def)

lemma meshView_drain [simp]: "meshView (groupDrain p j k cs s) = meshView s"
  by (induction p j k cs s rule: groupDrain.induct) (simp_all add: Let_def meshView_upd split: sdpType.split)

lemma meshView_resume [simp]: "meshView (groupResume n a s) = meshView s"
  by (simp add: groupResume_def groupContinue_def Let_def meshView_upd split: option.split groupTask.split rtcAnswer.split)

lemma meshView_replaceVideo [simp]: "meshView (replaceVideo t j s) = meshView s"
  by (simp add: replaceVideo_def Let_def meshView_upd split: option.split)

lemma meshView_replaceAll [simp]: "meshView (snd (replaceAll r t ps s)) = meshView s"
  by (induction r t ps s rule: replaceAll.induct) simp_all

lemma meshView_media [simp]:
  "meshView (setupActiveSpeakerDetection w s) = meshView s" "meshView (snd (groupStartLocalStream g f w s)) = meshView s"
  "meshView (snd (groupToggleAudio s)) = meshView s" "meshView (snd (groupToggleVideo s)) = meshView s"
  "meshView (sframeKeyDerived p k' s) = meshView s" "meshView (handleIceCandidate p c s) = meshView s"
  "meshView (groupOnTrack k p j s) = meshView s" "meshView (groupOnIceCandidate c' p s) = meshView s"
  "meshView (pollActiveSpeaker l h s) = meshView s"
  by (simp_all add: setupActiveSpeakerDetection_def groupStartLocalStream_def groupToggleAudio_def groupToggleVideo_def
      sframeKeyDerived_def handleIceCandidate_def groupOnTrack_def groupOnIceCandidate_def pollActiveSpeaker_def
      attachPeerAudioAnalyser_def split_beta Let_def meshView_upd split: option.split)

lemma meshView_share [simp]: "meshView (snd (startScreenShare b g r s)) = meshView s"
  by (simp add: startScreenShare_def split_beta split: option.split)

lemma meshView_unshare [simp]: "meshView (snd (stopScreenShare r s)) = meshView s"
  by (simp add: stopScreenShare_def Let_def split: option.split)

lemma meshOk_addPeer: "meshOk s \<Longrightarrow> meshOk (addPeer ice p b s)"
proof (cases "jsGet (peers s) p")
  case None
  assume ok: "meshOk s"
  define n where "n = length (peerItems s)"
  define c where "c = \<lparr>pcOpen = True, pcServers = ice, pcSenders = (case gLocalStream s of Some ids \<Rightarrow> map (\<lambda>t. \<lparr>senderTrack = t, senderTuned = False\<rparr>) ids | None \<Rightarrow> []),
    pcLocal = None, pcRemote = None, pcCandidates = []\<rparr>"
  define x where "x = \<lparr>peerConnNo = n, peerStream = [], peerPending = [], peerRemoteSet = False\<rparr>"
  define s1 where "s1 = s\<lparr>gConns := gConns s @ [c], peerItems := peerItems s @ [x], peers := jsSet p n (peers s)\<rparr>"
  have l: "length (gConns s) = n" using ok by (simp add: meshOk_def n_def)
  have "jsGet (peers s) q \<noteq> Some n" for q using ok by (auto simp: meshOk_def n_def)
  moreover have "pcOpen (gConns s1 ! j) \<longleftrightarrow> (\<exists>q. jsGet (peers s1) q = Some j)" if "j < Suc n" for j
  proof (cases "j = n")
    case False
    with that ok have "pcOpen (gConns s ! j) \<longleftrightarrow> (\<exists>q. jsGet (peers s) q = Some j)" by (simp add: meshOk_def l)
    moreover have "(\<exists>q. jsGet (peers s1) q = Some j) \<longleftrightarrow> (\<exists>q. jsGet (peers s) q = Some j)"
      using False None by (simp add: s1_def) (metis option.distinct(1))
    ultimately show ?thesis using False that l by (simp add: s1_def nth_append)
  qed (use l in \<open>auto simp: s1_def c_def nth_append\<close>)
  ultimately have "meshOk s1"
    using ok l by (auto simp: meshOk_def s1_def x_def nth_append n_def [symmetric] less_Suc_eq)
  moreover have "addPeer ice p b s = (if b then gSuspend p n GOfferCreated s1 else s1)"
    using None l by (simp add: addPeer_def Let_def s1_def c_def x_def n_def)
  ultimately show ?thesis by (auto intro: meshOk_cong [rotated])
qed (simp add: addPeer_def)

lemma meshOk_removePeer: "meshOk s \<Longrightarrow> meshOk (removePeer p s)"
proof (cases "jsGet (peers s) p")
  case (Some j)
  assume ok: "meshOk s"
  define s1 where "s1 = (gUpdConn j (\<lambda>c. c\<lparr>pcOpen := False\<rparr>) s)\<lparr>peers := jsDelete p (peers s)\<rparr>"
  have j: "j < length (gConns s)" "peerConnNo (peerItems s ! j) = j" "j < length (peerItems s)" using ok Some by (auto simp: meshOk_def)
  have "pcOpen (gConns s1 ! i) \<longleftrightarrow> (\<exists>q. jsGet (peers s1) q = Some i)" if "i < length (gConns s)" for i
  proof (cases "i = j")
    case True
    moreover have "jsGet (peers s1) q \<noteq> Some j" for q using ok Some by (auto simp: s1_def meshOk_def)
    ultimately show ?thesis using j by (simp add: s1_def gUpdConn_def)
  next
    case False
    with that ok have "pcOpen (gConns s ! i) \<longleftrightarrow> (\<exists>q. jsGet (peers s) q = Some i)" by (simp add: meshOk_def)
    also have "\<dots> \<longleftrightarrow> (\<exists>q. jsGet (peers s1) q = Some i)" using False Some by (simp add: s1_def) (metis option.inject)
    finally show ?thesis using False that by (simp add: s1_def gUpdConn_def)
  qed
  then have "meshOk s1"
    using ok unfolding meshOk_def by (auto simp: s1_def gUpdConn_def split: if_splits)
  moreover have "meshView s1 = meshView (removePeer p s)"
    using Some j by (simp add: removePeer_def Let_def s1_def meshView_def gNotice_def gUpdConn_def)
  ultimately show ?thesis by (rule meshOk_cong [rotated])
qed (simp add: removePeer_def)

lemma closeAll_open:
  assumes "length (gConns s) = length (peerItems s)" "\<forall>j < length (peerItems s). peerConnNo (peerItems s ! j) = j"
    and "\<forall>j \<in> set js. j < length (peerItems s)"
  shows "length (gConns (closeAll js s)) = length (gConns s) \<and> peerItems (closeAll js s) = peerItems s \<and> peers (closeAll js s) = peers s
    \<and> (\<forall>i < length (gConns s). pcOpen (gConns (closeAll js s) ! i) \<longleftrightarrow> pcOpen (gConns s ! i) \<and> i \<notin> set js)"
  using assms unfolding closeAll_def
proof (induction js rule: rev_induct)
  case (snoc j js)
  then have "peerConnNo (peerItems s ! j) = j" "j < length (gConns s)" by simp_all
  with snoc show ?case by (auto simp: gUpdConn_def nth_list_update)
qed simp

lemma leaveCall_mesh:
  assumes ok: "meshOk s"
  shows "peers (leaveCall s) = [] \<and> length (gConns (leaveCall s)) = length (gConns s) \<and> peerItems (leaveCall s) = peerItems s
    \<and> (\<forall>i < length (gConns s). \<not> pcOpen (gConns (leaveCall s) ! i))"
proof -
  define s1 where "s1 = s\<lparr>speakerTimer := False, audioContext := False, localAnalyser := False, peerAnalysers := []\<rparr>"
  define s2 where "s2 = (case gLocalStream s1 of Some ids \<Rightarrow> (gStop ids s1)\<lparr>gLocalStream := None\<rparr> | None \<Rightarrow> s1)"
  define s3 where "s3 = (case screenStream s2 of Some ids \<Rightarrow> (gStop ids s2)\<lparr>screenStream := None\<rparr> | None \<Rightarrow> s2)"
  have f: "gConns s3 = gConns s" "peerItems s3 = peerItems s" "peers s3 = peers s"
    by (simp_all add: s1_def s2_def s3_def gStop_def split: option.split)
  have "leaveCall s = (closeAll (map snd (peers s3)) s3)\<lparr>peers := []\<rparr>"
    unfolding leaveCall_def Let_def s3_def s2_def s1_def by (rule refl)
  then have eq: "leaveCall s = (closeAll (map snd (peers s)) s3)\<lparr>peers := []\<rparr>" unfolding f .
  have wf: "wfMap (peers s)" using ok by (simp add: meshOk_def)
  have js: "j \<in> set (map snd (peers s)) \<longleftrightarrow> (\<exists>p. jsGet (peers s) p = Some j)" for j
    by (force simp: jsGet_mem [OF wf, symmetric])
  have "length (gConns (closeAll (map snd (peers s)) s3)) = length (gConns s3) \<and> peerItems (closeAll (map snd (peers s)) s3) = peerItems s3
      \<and> peers (closeAll (map snd (peers s)) s3) = peers s3
      \<and> (\<forall>i < length (gConns s3). pcOpen (gConns (closeAll (map snd (peers s)) s3) ! i) \<longleftrightarrow> pcOpen (gConns s3 ! i) \<and> i \<notin> set (map snd (peers s)))"
    using ok js by (intro closeAll_open) (auto simp: f meshOk_def)
  then show ?thesis using ok js unfolding eq by (auto simp: f meshOk_def)
qed

lemma meshOk_step: "meshOk s \<Longrightarrow> meshOk (groupStep e s)"
proof -
  assume ok: "meshOk s"
  have same: "meshView t = meshView s \<Longrightarrow> meshOk t" for t by (rule meshOk_cong [OF _ ok]) simp
  show ?thesis
  proof (cases e)
    case (GOfferArrives ice p sdp)
    have "meshOk (addPeer ice p False s)" using ok by (rule meshOk_addPeer)
    then show ?thesis using GOfferArrives by (auto simp: groupHandleOffer_def Let_def intro: meshOk_cong [rotated])
  next
    case GLeave
    with ok leaveCall_mesh [OF ok] show ?thesis by (simp add: meshOk_def)
  next
    case (GStateChange st p)
    with ok show ?thesis by (simp add: groupOnState_def meshOk_removePeer)
  next
    case (GAnswerArrives p sdp)
    then show ?thesis by (simp add: groupHandleAnswer_def same ok split: option.split)
  qed (simp_all add: ok meshOk_addPeer meshOk_removePeer same)
qed

text \<open>
  C27. The mesh of a group call. After any interleaving of joins, offers, answers, candidates, suspended
  operations, departures and media changes, every peer has one connection of its own,
  the open connections are exactly those of the current peers, and leaving the call closes
  them all.
\<close>
theorem group_mesh:
  assumes "s = fold groupStep events newGroup"
  shows "distinct (getConnectedPeerIds s)
    \<and> (\<forall>p q j. jsGet (peers s) p = Some j \<longrightarrow> jsGet (peers s) q = Some j \<longrightarrow> p = q)
    \<and> (\<forall>i < length (gConns s). pcOpen (gConns s ! i) \<longleftrightarrow> (\<exists>p j. jsGet (peers s) p = Some j \<and> peerConnNo (peerItems s ! j) = i))
    \<and> getConnectedPeerIds (leaveCall s) = [] \<and> (\<forall>i < length (gConns s). \<not> pcOpen (gConns (leaveCall s) ! i))"
proof -
  have "meshOk newGroup" by (simp add: meshOk_def newGroup_def)
  then have ok: "meshOk s" unfolding assms by (induction events rule: rev_induct) (simp_all add: meshOk_step)
  then have "pcOpen (gConns s ! i) \<longleftrightarrow> (\<exists>p j. jsGet (peers s) p = Some j \<and> peerConnNo (peerItems s ! j) = i)" if "i < length (gConns s)" for i
    using that unfolding meshOk_def by metis
  with ok leaveCall_mesh [OF ok] show ?thesis
    by (simp add: meshOk_def getConnectedPeerIds_def wfMap_def)
qed

theorem group_mesh_witness:
  "getConnectedPeerIds (fold groupStep [GAddPeer [] ''bob'' True, GAddPeer [] ''eve'' False, GRemovePeer ''bob''] newGroup) = [''eve'']
  \<and> \<not> pcOpen (gConns (fold groupStep [GAddPeer [] ''bob'' True, GAddPeer [] ''eve'' False, GRemovePeer ''bob''] newGroup) ! 0)"
proof -
  define s where "s = fold groupStep [GAddPeer [] ''bob'' True, GAddPeer [] ''eve'' False, GRemovePeer ''bob''] newGroup"
  have e: "peers s = [(''eve'', 1)]" "length (gConns s) = 2" "peerConnNo (peerItems s ! 1) = 1"
    by (simp_all add: s_def addPeer_def removePeer_def newGroup_def gSuspend_def gNotice_def gUpdConn_def Let_def jsGet_def jsSet_def jsDelete_def)
  have "pcOpen (gConns s ! 0) \<longleftrightarrow> (\<exists>p j. jsGet (peers s) p = Some j \<and> peerConnNo (peerItems s ! j) = 0)"
    using group_mesh [OF s_def] e(2) by simp
  also have "\<dots> \<longleftrightarrow> False" using e(1,3) by (auto simp: jsGet_def split: if_splits)
  finally show ?thesis unfolding s_def [symmetric] using e(1) by (simp add: getConnectedPeerIds_def)
qed

section \<open>Offers that are never answered\<close>

text \<open>The answers sent to a peer, and whether an operation is running that will answer it.\<close>

definition answersTo :: "string \<Rightarrow> groupState \<Rightarrow> groupNotice list" where
  "answersTo p s = filter (\<lambda>n. \<exists>d. n = GSignal p (AnswerSignal d)) (gNotices s)"

fun answers :: "groupTask \<Rightarrow> bool" where
  "answers (GRemoteSet k d) = (k = SdpOffer)"
| "answers (GDraining k cs) = (k = SdpOffer)"
| "answers GAnswerCreated = True"
| "answers (GAnswerLocal d) = True"
| "answers _ = False"

definition silent :: "string \<Rightarrow> groupState \<Rightarrow> bool" where
  "silent p s \<longleftrightarrow> (\<forall>(n, q, j, t) \<in> set (gTasks s). q = p \<longrightarrow> \<not> answers t)"

definition answerView :: "string \<Rightarrow> groupState \<Rightarrow> (nat \<times> string \<times> nat \<times> groupTask) list \<times> groupNotice list" where
  "answerView p s = (gTasks s, answersTo p s)"

lemma answerView_simps [simp]:
  "answerView p (snd (gAcquire ks s)) = answerView p s" "answerView p (gUpdConn i f s) = answerView p s"
  "answerView p (gUpdPeer j g s) = answerView p s" "answerView p (gStop ids s) = answerView p s"
  "answerView p (giveCandidate i c s) = answerView p s"
  "answerView p (s\<lparr>gTracks := ts\<rparr>) = answerView p s" "answerView p (s\<lparr>gLocalStream := l\<rparr>) = answerView p s"
  "answerView p (s\<lparr>screenStream := l\<rparr>) = answerView p s" "answerView p (s\<lparr>cameraVideoTrack := v\<rparr>) = answerView p s"
  "answerView p (s\<lparr>sframeKeys := sk\<rparr>) = answerView p s" "answerView p (s\<lparr>gAudioMuted := b\<rparr>) = answerView p s"
  "answerView p (s\<lparr>gVideoDisabled := b\<rparr>) = answerView p s" "answerView p (s\<lparr>isScreenSharing := b\<rparr>) = answerView p s"
  "answerView p (s\<lparr>audioContext := b\<rparr>) = answerView p s" "answerView p (s\<lparr>localAnalyser := b\<rparr>) = answerView p s"
  "answerView p (s\<lparr>peerAnalysers := a\<rparr>) = answerView p s" "answerView p (s\<lparr>speakerTimer := b\<rparr>) = answerView p s"
  "answerView p (s\<lparr>currentActiveSpeakerId := x\<rparr>) = answerView p s" "answerView p (s\<lparr>peers := ps\<rparr>) = answerView p s"
  by (simp_all add: answerView_def answersTo_def gAcquire_def gUpdConn_def gUpdPeer_def gStop_def giveCandidate_def)

lemma answerView_notice [simp]:
  "(\<And>d. n \<noteq> GSignal p (AnswerSignal d)) \<Longrightarrow> answerView p (gNotice n s) = answerView p s"
  by (simp add: answerView_def answersTo_def gNotice_def)

lemma answerView_replaceVideo [simp]: "answerView p (replaceVideo t j s) = answerView p s"
  by (simp add: replaceVideo_def Let_def split: option.split)

lemma answerView_replaceAll [simp]: "answerView p (snd (replaceAll r t ps s)) = answerView p s"
  by (induction r t ps s rule: replaceAll.induct) simp_all

lemma answerView_closeAll [simp]: "answerView p (closeAll js s) = answerView p s"
  unfolding closeAll_def by (induction js rule: rev_induct) simp_all

lemma answerView_media [simp]:
  "answerView p (setupActiveSpeakerDetection w s) = answerView p s" "answerView p (snd (groupStartLocalStream g f w s)) = answerView p s"
  "answerView p (snd (groupToggleAudio s)) = answerView p s" "answerView p (snd (groupToggleVideo s)) = answerView p s"
  "answerView p (sframeKeyDerived q sk s) = answerView p s" "answerView p (handleIceCandidate q c s) = answerView p s"
  "answerView p (groupOnTrack k q j s) = answerView p s" "answerView p (groupOnIceCandidate c' q s) = answerView p s"
  "answerView p (pollActiveSpeaker l h s) = answerView p s" "answerView p (removePeer q s) = answerView p s"
  "answerView p (groupOnState st q s) = answerView p s"
  by (simp_all add: setupActiveSpeakerDetection_def groupStartLocalStream_def groupToggleAudio_def groupToggleVideo_def
      sframeKeyDerived_def handleIceCandidate_def groupOnTrack_def groupOnIceCandidate_def pollActiveSpeaker_def
      attachPeerAudioAnalyser_def removePeer_def groupOnState_def split_beta Let_def split: option.split)

lemma answerView_share [simp]:
  "answerView p (snd (startScreenShare b g r s)) = answerView p s" "answerView p (snd (stopScreenShare r s)) = answerView p s"
  "answerView p (leaveCall s) = answerView p s"
  by (simp_all add: startScreenShare_def stopScreenShare_def leaveCall_def split_beta Let_def split: option.split)

text \<open>Steps that neither answer the peer nor start an operation that will\<close>

definition quiet :: "string \<Rightarrow> groupState \<Rightarrow> groupState \<Rightarrow> bool" where
  "quiet p s s' \<longleftrightarrow> silent p s' \<and> answersTo p s' = answersTo p s"

lemma quiet_view: "answerView p s' = answerView p s \<Longrightarrow> silent p s \<Longrightarrow> quiet p s s'"
  by (simp add: quiet_def answerView_def silent_def)

lemma quiet_suspend: "quiet p s s' \<Longrightarrow> q = p \<longrightarrow> \<not> answers t \<Longrightarrow> quiet p s (gSuspend q j t s')"
  by (auto simp: quiet_def silent_def answersTo_def gSuspend_def)

lemma quiet_addPeer: "silent p s \<Longrightarrow> quiet p s (addPeer ice q b s)"
  by (auto simp: addPeer_def Let_def quiet_def silent_def answersTo_def gSuspend_def)

lemma quiet_drain: "quiet p s s' \<Longrightarrow> q = p \<longrightarrow> k \<noteq> SdpOffer \<Longrightarrow> quiet p s (groupDrain q j k cs s')"
proof (cases cs)
  case Nil
  assume "quiet p s s'" "q = p \<longrightarrow> k \<noteq> SdpOffer"
  then show ?thesis using Nil
    by (cases k) (auto simp: Let_def quiet_def silent_def answersTo_def gSuspend_def gUpdPeer_def)
next
  case (Cons c cs')
  assume "quiet p s s'" "q = p \<longrightarrow> k \<noteq> SdpOffer"
  then show ?thesis using Cons
    by (auto simp: quiet_def silent_def answersTo_def gSuspend_def giveCandidate_def gUpdConn_def)
qed

lemma quiet_same [simp]:
  "quiet p s (gUpdConn i f s') = quiet p s s'" "quiet p s (gUpdPeer j g s') = quiet p s s'"
  by (simp_all add: quiet_def silent_def answersTo_def gUpdConn_def gUpdPeer_def)

lemma quiet_notice: "quiet p s s' \<Longrightarrow> (\<And>d. n \<noteq> GSignal p (AnswerSignal d)) \<Longrightarrow> quiet p s (gNotice n s')"
  by (simp add: quiet_def silent_def answersTo_def gNotice_def)

lemma quiet_continue:
  assumes "quiet p s s'" "q = p \<longrightarrow> \<not> answers t"
  shows "quiet p s (groupContinue q j t a s')"
proof (cases "a = RtcRejected")
  case True
  with assms(1) show ?thesis by (cases t) (simp_all add: groupContinue_def Let_def quiet_notice)
next
  case False
  with assms show ?thesis
    by (cases t; cases a) (auto simp: groupContinue_def Let_def intro!: quiet_notice quiet_suspend quiet_drain)
qed

lemma quiet_resume: "silent p s \<Longrightarrow> quiet p s (groupResume n a s)"
proof (cases "map_of (gTasks s) n")
  case (Some e)
  assume silent: "silent p s"
  obtain q j t where e: "e = (q, j, t)" by (cases e)
  from map_of_SomeD [OF Some] silent have "q = p \<longrightarrow> \<not> answers t" by (auto simp: silent_def e)
  moreover have "quiet p s (s\<lparr>gTasks := filter (\<lambda>x. fst x \<noteq> n) (gTasks s)\<rparr>)"
    using silent by (auto simp: quiet_def silent_def answersTo_def)
  moreover have "quiet p s s" using silent by (simp add: quiet_def)
  ultimately show ?thesis using Some by (simp add: groupResume_def e quiet_continue)
qed (simp add: groupResume_def quiet_def)

lemma quiet_step: "silent p s \<Longrightarrow> (\<And>ice sdp. e \<noteq> GOfferArrives ice p sdp) \<Longrightarrow> quiet p s (groupStep e s)"
proof (cases e)
  case (GOfferArrives ice q sdp)
  assume "silent p s" "\<And>ice sdp. e \<noteq> GOfferArrives ice p sdp"
  then show ?thesis using GOfferArrives
    by (auto simp: groupHandleOffer_def Let_def intro!: quiet_suspend quiet_addPeer)
next
  case (GAnswerArrives q sdp)
  assume "silent p s"
  moreover from this have "quiet p s s" by (simp add: quiet_def)
  ultimately show ?thesis using GAnswerArrives
    by (auto simp: groupHandleAnswer_def intro!: quiet_suspend split: option.split)
qed (simp_all add: quiet_view quiet_addPeer quiet_resume)

lemma quiet_run:
  assumes "silent p s" "\<forall>e \<in> set events. \<forall>ice sdp. e \<noteq> GOfferArrives ice p sdp"
  shows "quiet p s (fold groupStep events s)"
  using assms
proof (induction events arbitrary: s)
  case (Cons e es)
  have q: "quiet p s (groupStep e s)" by (rule quiet_step) (use Cons.prems in auto)
  then have "quiet p (groupStep e s) (fold groupStep es (groupStep e s))"
    by (intro Cons.IH) (use Cons.prems in \<open>simp_all add: quiet_def\<close>)
  with q show ?case by (simp add: quiet_def)
qed (simp add: quiet_def)

text \<open>
  One ICE candidate that the browser refuses while the queue is given to the connection ends the
  handling of the offer for good: the peer gets no answer in any later state, whatever
  happens, until it offers again. (In a call between two users such a candidate is skipped.)
\<close>
theorem refused_candidate_ends_offer:
  assumes "map_of (gTasks s) n = Some (p, j, GDraining SdpOffer cs)" "pcOpen (gConns s ! peerConnNo (peerItems s ! j))"
    and "\<forall>(m, q, i, t) \<in> set (gTasks s). m \<noteq> n \<longrightarrow> q = p \<longrightarrow> \<not> answers t"
    and "\<forall>e \<in> set events. \<forall>ice sdp. e \<noteq> GOfferArrives ice p sdp"
  shows "answersTo p (fold groupStep events (groupResume n RtcRejected s)) = answersTo p s"
proof -
  let ?s = "groupResume n RtcRejected s"
  have eq: "?s = gNotice GError (s\<lparr>gTasks := filter (\<lambda>e. fst e \<noteq> n) (gTasks s)\<rparr>)"
    using assms(1,2) by (simp add: groupResume_def groupContinue_def Let_def)
  have "silent p ?s" using assms(3) unfolding eq by (auto simp: silent_def gNotice_def)
  from quiet_run [OF this assms(4)] show ?thesis by (simp add: quiet_def) (simp add: eq answersTo_def gNotice_def)
qed

theorem refused_candidate_ends_offer_witness:
  "answersTo ''bob'' (fold groupStep [GResume 1 RtcOk, GResume 2 RtcOk, GResume 3 RtcOk] (groupResume 1 RtcRejected (fold groupStep
      [GAddPeer [] ''bob'' False, GCandidateArrives ''bob'' ''c'', GOfferArrives [] ''bob'' ''v=0'', GResume 0 RtcOk] newGroup))) = []"
proof -
  let ?s = "fold groupStep [GAddPeer [] ''bob'' False, GCandidateArrives ''bob'' ''c'', GOfferArrives [] ''bob'' ''v=0'', GResume 0 RtcOk] newGroup"
  have t: "gTasks ?s = [(1, ''bob'', 0, GDraining SdpOffer [])]" "pcOpen (gConns ?s ! peerConnNo (peerItems ?s ! 0))" "gNotices ?s = []"
    by (simp_all add: addPeer_def newGroup_def handleIceCandidate_def groupHandleOffer_def groupResume_def groupContinue_def
        gSuspend_def gUpdPeer_def gUpdConn_def giveCandidate_def Let_def)
  have m: "map_of (gTasks ?s) 1 = Some (''bob'', 0, GDraining SdpOffer [])" using t(1) by simp
  have o: "\<forall>(m, q, i, u) \<in> set (gTasks ?s). m \<noteq> 1 \<longrightarrow> q = ''bob'' \<longrightarrow> \<not> answers u" using t(1) by simp
  have a: "answersTo ''bob'' ?s = []" using t(3) by (simp add: answersTo_def)
  show ?thesis
    by (rule trans [OF refused_candidate_ends_offer [OF m t(2) o] a]) simp
qed

text \<open>
  A peer that joins while the screen is shared is sent the camera: its video sender carries a track
  of the local stream, whatever track the other peers receive.
\<close>
lemma late_peer_sees_camera:
  assumes "jsGet (peers s) p = None" "gLocalStream s = Some ids"
  shows "map senderTrack (pcSenders (last (gConns (addPeer ice p b s)))) = ids
    \<and> isScreenSharing (addPeer ice p b s) = isScreenSharing s \<and> screenStream (addPeer ice p b s) = screenStream s"
  using assms by (simp add: addPeer_def Let_def gSuspend_def comp_def)

section \<open>The loudest speaker\<close>

lemma louder_fold:
  assumes "sp0 = None \<and> v0 = 0 \<or> (\<exists>q. sp0 = Some q \<and> v0 > speechThreshold)" "fold louder vs (sp0, v0) = (sp, v)"
  shows "v0 \<le> v \<and> (\<forall>e \<in> set vs. snd e \<le> speechThreshold \<or> snd e \<le> v)
    \<and> (sp = None \<and> v = 0 \<or> (\<exists>q. sp = Some q \<and> v > speechThreshold \<and> ((q, v) \<in> set vs \<or> sp0 = sp \<and> v0 = v)))"
  using assms
proof (induction vs arbitrary: sp0 v0)
  case (Cons e vs)
  have t: "0 \<le> speechThreshold" by (simp add: speechThreshold_def)
  obtain sp1 v1 where l: "louder e (sp0, v0) = (sp1, v1)" by (cases "louder e (sp0, v0)")
  have one: "sp1 = None \<and> v1 = 0 \<or> (\<exists>q. sp1 = Some q \<and> v1 > speechThreshold)" "v0 \<le> v1"
      "snd e \<le> speechThreshold \<or> snd e \<le> v1" "(sp1, v1) = (sp0, v0) \<or> e = (the sp1, v1)"
    using l Cons.prems(1) by (auto simp: louder_def split: if_splits)
  from Cons.IH [OF one(1)] Cons.prems(2) l one show ?case
    by (cases e) (auto simp: l)
qed auto

text \<open>
  The active speaker is heard above the threshold and at least as loud as everyone else; without one
  nobody is above the threshold.
\<close>

lemma loudestSpeaker_max:
  "case loudestSpeaker vs of
     None \<Rightarrow> \<forall>e \<in> set vs. snd e \<le> speechThreshold
   | Some q \<Rightarrow> \<exists>v. (q, v) \<in> set vs \<and> v > speechThreshold \<and> (\<forall>e \<in> set vs. snd e \<le> v)"
proof -
  obtain sp v where f: "fold louder vs (None, 0) = (sp, v)" by (cases "fold louder vs (None, 0)")
  have t: "0 \<le> speechThreshold" by (simp add: speechThreshold_def)
  from louder_fold [OF _ f] t show ?thesis
    by (fastforce simp: loudestSpeaker_def f split: option.splits)
qed

end
