(* ===== verification/Chat_Page.thy ===== *)
theory Chat_Page
  imports Local_Cache Json_Text
begin

text \<open>
  The state and the handlers of \<open>packages/client-web/src/pages/ChatPage.tsx\<close>: the list of messages
  with the events of the gateway and the actions of the user that change it, the sending of
  messages, conversations, timers and what is displayed. Calls of other components are recorded
  in the state; what they answer (an encryption, an upload, a decryption) is an argument. The
  gateway object exists while the page is mounted.

  A text with a code unit above 255 is represented by its UTF-8 bytes; of the texts the page writes
  itself these are the notices that start with a padlock or an hourglass.
\<close>

section \<open>Messages\<close>

text \<open>
  A \<open>MessageItem\<close> is stored as it is, all its members included, so both are one record. An optional
  flag that is absent is false. The member \<open>createdAt\<close> is set when a message is stored and never read
  by the page.
\<close>

type_synonym MessageItem = StoredMessage

record ConversationItem =
  chatId :: string
  chatName :: string
  chatDirect :: bool
  chatAvatar :: "string option"

definition lockMark :: string where
  "lockMark = map char_of [240, 159, 148, 146 :: nat]"

definition pendingNotice :: string where
  "pendingNotice = lockMark @ '' [Encrypted Message '' @ map char_of [226, 128, 148 :: nat] @ '' Session synchronization pending]''"

definition hourglass :: string where
  "hourglass = map char_of [226, 143, 179 :: nat]"

text \<open>A text that is not readable: a cipher text of the protocols, or a notice.\<close>

definition masked :: "string \<Rightarrow> bool" where
  "masked t \<longleftrightarrow> startsWith t (''{'' @ printStr ''protocol'' @ '':'' @ CHR 0x22 # ''genchat-'') \<or> startsWith t lockMark"

text \<open>\<open>m.clientMsgId || m.id\<close>\<close>

definition msgKey :: "'x StoredMessage_scheme \<Rightarrow> string" where
  "msgKey m = (if clientMsgId m \<noteq> [] then clientMsgId m else msgId m)"

definition hasKey :: "string \<Rightarrow> 'x StoredMessage_scheme \<Rightarrow> bool" where
  "hasKey k m \<longleftrightarrow> msgKey m = k \<or> msgId m = k"

definition updateWhere :: "('m \<Rightarrow> bool) \<Rightarrow> ('m \<Rightarrow> 'm) \<Rightarrow> 'm list \<Rightarrow> 'm list" where
  "updateWhere p f ms = map (\<lambda>m. if p m then f m else m) ms"

section \<open>State\<close>

text \<open>What the page asks the gateway and the second message store to do.\<close>

datatype pageCall =
  SendMessage string string string "int option" "string option"
| SendReadReceipt string string int
| SendDeliveryReceipt string string int
| SendTyping string bool
| SendReaction string string string bool
| SendDelete string string deleteScope
| SendEdit string string string
| SendPin string string bool
| SendEphemeral string int
| FetchHistory string
| PersistInbound string string string string "int option"
| PersistOutbound string string string string string
| ApplyCommit string string int

record pageState =
  items :: "MessageItem list"
  chats :: "ConversationItem list"
  activeChannelId :: string
  myUserId :: string
  pageCache :: cacheState
  conversationTtls :: "int jsmap"
  storedTtls :: "int jsmap"
  ttlsWritable :: bool
  unreadCounts :: "int jsmap"
  conversationWarnings :: "string jsmap"
  incomingToast :: "(string \<times> string \<times> string) option"
  peerTypingUser :: "string option"
  inputText :: string
  replyingTo :: "QuotedReply option"
  editingMessage :: "MessageItem option"
  lastTypingSent :: int
  typingTimer :: "string option"
  stagedFile :: bool
  inFlight :: "(string \<times> bool) list"
  retryTimers :: "string list"
  retrySnapshots :: "MessageItem list list"
  pageCalls :: "pageCall list"

text \<open>
  What a handler meets: the clock and its text, the random suffixes of new identifiers, the answers
  of \<open>decryptGroupMessage\<close>, \<open>E2eeService.decrypt\<close> and of the download of an attachment, the two
  encryptions, and the primitives of the cache.
\<close>

record openedText =
  openedBody :: string
  openedEncrypted :: bool
  openedFallback :: bool
  openedWarning :: "string option"
  openedFingerprint :: "string option"

record pageEnv =
  nowMs :: int
  clockText :: string
  randomIds :: "string \<times> string"
  groupOpen :: "string \<Rightarrow> string \<Rightarrow> string"
  directOpen :: "string \<Rightarrow> string \<Rightarrow> string \<Rightarrow> openedText outcome"
  fetchAttachment :: "json \<Rightarrow> string option"
  groupSeal :: "string \<Rightarrow> string \<Rightarrow> string \<Rightarrow> string outcome"
  directSeal :: "string \<Rightarrow> string \<Rightarrow> string \<Rightarrow> bool \<Rightarrow> string outcome"
  atRest :: aead
  newKey :: key
  newIv :: bytes

definition say :: "pageCall \<Rightarrow> pageState \<Rightarrow> pageState" where
  "say c s = s\<lparr>pageCalls := pageCalls s @ [c]\<rparr>"

text \<open>A rejected promise of the stores that nobody awaits leaves the stores as they were.\<close>

definition onDb :: "(dbState \<Rightarrow> dbState) \<Rightarrow> pageState \<Rightarrow> pageState" where
  "onDb f s = s\<lparr>pageCache := (pageCache s)\<lparr>cacheDb := f (cacheDb (pageCache s))\<rparr>\<rparr>"

definition storedCopy :: "int \<Rightarrow> MessageItem \<Rightarrow> StoredMessage" where
  "storedCopy now m = m\<lparr>createdAt := now\<rparr>"

definition saveLocally :: "int \<Rightarrow> MessageItem \<Rightarrow> pageState \<Rightarrow> pageState" where
  "saveLocally now m s = onDb (dbStep (now, SaveMessage (storedCopy now m))) s"

section \<open>Events of the gateway that change messages\<close>

definition onReadReceipt :: "string \<Rightarrow> bool \<Rightarrow> pageState \<Rightarrow> pageState" where
  "onReadReceipt serverId delivered s =
     (let st = (if delivered then StDelivered else StRead)
      in onDb (updateMessageStatus serverId st)
           (s\<lparr>items := updateWhere (\<lambda>m. matches serverId m \<and> status m \<noteq> StRead) (\<lambda>m. m\<lparr>status := st\<rparr>) (items s)\<rparr>))"

text \<open>\<open>new Set(users)\<close> keeps the first occurrence of each user.\<close>

definition setOf :: "string list \<Rightarrow> string list" where
  "setOf us = fold (\<lambda>u acc. if u \<in> set acc then acc else acc @ [u]) us []"

definition reactWith :: "string \<Rightarrow> string \<Rightarrow> bool \<Rightarrow> MessageItem \<Rightarrow> MessageItem" where
  "reactWith emoji who add m =
     (let rs = (case reactions m of None \<Rightarrow> [] | Some r \<Rightarrow> r);
          us = setOf (case jsGet rs emoji of None \<Rightarrow> [] | Some us \<Rightarrow> us);
          us' = (if add then (if who \<in> set us then us else us @ [who]) else removeAll who us)
      in m\<lparr>reactions := Some (if us' = [] then jsDelete emoji rs else jsSet emoji us' rs)\<rparr>)"

text \<open>Every changed message is stored with the time of the change.\<close>

definition applyReaction :: "int \<Rightarrow> string \<Rightarrow> string \<Rightarrow> string \<Rightarrow> bool \<Rightarrow> pageState \<Rightarrow> pageState" where
  "applyReaction now target emoji who add s =
     (let ms = updateWhere (matches target) (reactWith emoji who add) (items s)
      in fold (saveLocally now) (filter (matches target) ms) (s\<lparr>items := ms\<rparr>))"

definition onReaction :: "int \<Rightarrow> string \<Rightarrow> string \<Rightarrow> string \<Rightarrow> bool \<Rightarrow> pageState \<Rightarrow> pageState" where
  "onReaction now target emoji sender remove s = applyReaction now target emoji sender (\<not> remove) s"

text \<open>\<open>ev.serverTime ? ev.serverTime * 1000 : Date.now()\<close>\<close>

definition eventTime :: "int \<Rightarrow> int \<Rightarrow> int" where
  "eventTime now serverTime = (if serverTime \<noteq> 0 then serverTime * 1000 else now)"

definition onDeleteMessage :: "int \<Rightarrow> int \<Rightarrow> string \<Rightarrow> string \<Rightarrow> string \<Rightarrow> deleteScope \<Rightarrow> pageState \<Rightarrow> pageState" where
  "onDeleteMessage now serverTime k channel sender scope s =
     (if scope \<noteq> Everyone then s
      else onDb (markMessageDeleted now k channel sender Everyone)
             (s\<lparr>items := updateWhere (hasKey k) (tombstone (eventTime now serverTime) sender) (items s)\<rparr>))"

text \<open>The conversation whose session decrypts an edit.\<close>

definition editPeer :: "string \<Rightarrow> string \<Rightarrow> string \<Rightarrow> string" where
  "editPeer channel sender me =
     (if startsWith channel ''dm_''
      then (let x = replaceFirst (replaceFirst (replaceFirst channel ''dm_'' []) me []) ''_'' []
            in if x \<noteq> [] then x else sender)
      else if sender \<noteq> [] \<and> sender \<noteq> me then sender else channel)"

definition isMlsText :: "string \<Rightarrow> string \<Rightarrow> bool" where
  "isMlsText ct channel \<longleftrightarrow>
     strIncludes ct (printStr ''protocol'' @ '':'' @ printStr ''genchat-mls-v1'') \<or> startsWith channel ''chan_''"

definition onEditMessage :: "pageEnv \<Rightarrow> int \<Rightarrow> string \<Rightarrow> string \<Rightarrow> string \<Rightarrow> string \<Rightarrow> pageState \<Rightarrow> pageState" where
  "onEditMessage env serverTime k channel sender ct s =
     (let plaintext =
            (if isMlsText ct channel then groupOpen env channel ct
             else (case directOpen env ct (editPeer channel sender (myUserId s)) (myUserId s) of
                     Done r \<Rightarrow> openedBody r
                   | Rejected \<Rightarrow> ct));
          at = eventTime (nowMs env) serverTime
      in onDb (updateMessageText k channel plaintext at)
           (s\<lparr>items := updateWhere (hasKey k) (edited plaintext at) (items s)\<rparr>))"

definition onPinMessage :: "int \<Rightarrow> int \<Rightarrow> string \<Rightarrow> string \<Rightarrow> string \<Rightarrow> bool \<Rightarrow> pageState \<Rightarrow> pageState" where
  "onPinMessage now serverTime k channel sender pin s =
     (let at = eventTime now serverTime
      in onDb (updateMessagePinned now k channel pin (Some sender) (Some at))
           (s\<lparr>items := updateWhere (hasKey k) (pinned pin (Some sender) at) (items s)\<rparr>))"

section \<open>Received messages\<close>

text \<open>A missing string member is empty; the handler only tests whether it is truthy.\<close>

record envelopeIn =
  inChannelId :: string
  inSenderId :: string
  inClientMsgId :: string
  inSequenceNum :: "int option"
  inCiphertext :: "string option"
  inTtl :: int

definition isDirectForMe :: "string \<Rightarrow> string \<Rightarrow> bool" where
  "isDirectForMe me channel \<longleftrightarrow>
     me \<noteq> [] \<and> channel \<noteq> [] \<and> (channel = me \<or> toLowerCase channel = toLowerCase me)"

definition effectiveChannel :: "string \<Rightarrow> envelopeIn \<Rightarrow> string" where
  "effectiveChannel me e =
     (if isDirectForMe me (inChannelId e) \<and> inSenderId e \<noteq> [] then inSenderId e else inChannelId e)"

definition addSender :: "string \<Rightarrow> string \<Rightarrow> ConversationItem list \<Rightarrow> ConversationItem list" where
  "addSender me sender cs =
     (if sender \<noteq> [] \<and> sender \<noteq> me \<and> sender \<notin> chatId ` set cs
      then cs @ [\<lparr>chatId = sender, chatName = sender, chatDirect = True, chatAvatar = None\<rparr>] else cs)"

text \<open>The plaintext of a message may itself be an object: an attachment, or a text with a quote.\<close>

record shownText =
  shText :: "string option"
  shReply :: "QuotedReply option"
  shAttachment :: "string option"

definition strOr :: "string option \<Rightarrow> string option \<Rightarrow> string option" where
  "strOr a b = (case a of Some x \<Rightarrow> if x \<noteq> [] then a else b | None \<Rightarrow> b)"

definition strMember :: "json \<Rightarrow> string \<Rightarrow> string" where
  "strMember j f = (case member j f of Some (JStr t) \<Rightarrow> t | _ \<Rightarrow> [])"

definition quotedOf :: "json \<Rightarrow> QuotedReply" where
  "quotedOf j = \<lparr>qMessageId = strMember j ''messageId'', qSenderId = strMember j ''senderId'',
     qSenderName = (case member j ''senderName'' of Some (JStr t) \<Rightarrow> Some t | _ \<Rightarrow> None),
     qSnippet = strMember j ''snippet''\<rparr>"

definition withUrl :: "json \<Rightarrow> string option \<Rightarrow> string" where
  "withUrl j url =
     (case (j, url) of
        (JObj fs, Some u) \<Rightarrow> printJson (JObj (jsSet ''decryptedUrl'' (JStr u) fs))
      | (JObj fs, None) \<Rightarrow> printJson (JObj (jsDelete ''decryptedUrl'' fs))
      | _ \<Rightarrow> printJson j)"

text \<open>
  The result is \<^const>\<open>None\<close> if the member \<open>text\<close> or \<open>caption\<close> that is shown is truthy and no string;
  \<open>oddInner\<close> then gives the value.
\<close>

definition isAttachment :: "json \<Rightarrow> bool" where
  "isAttachment j \<longleftrightarrow> jsonTruthy (member j ''downloadUrl'') \<and> jsonTruthy (member j ''encryptionKeyHex'')
     \<and> jsonTruthy (member j ''ivHex'')"

definition isProtocolJson :: "json \<Rightarrow> bool" where
  "isProtocolJson j \<longleftrightarrow> member j ''protocol'' \<in> {Some (JStr ''genchat-pq-v1''), Some (JStr ''genchat-fallback-v1'')}"

definition textMember :: "json option \<Rightarrow> string option option" where
  "textMember v = (case v of Some (JStr t) \<Rightarrow> Some (Some t) | _ \<Rightarrow> if jsonTruthy v then None else Some None)"

definition readInner :: "(json \<Rightarrow> string option) \<Rightarrow> string \<Rightarrow> shownText option" where
  "readInner fetch t =
     (let plain = \<lparr>shText = Some t, shReply = None, shAttachment = None\<rparr>
      in if \<not> startsWith t ''{'' then Some plain
         else case parseJson t of
                None \<Rightarrow> Some plain
              | Some j \<Rightarrow>
                  let reply = (if jsonTruthy (member j ''replyTo'') then map_option quotedOf (member j ''replyTo'') else None)
                  in if isAttachment j
                     then map_option (\<lambda>c. \<lparr>shText = strOr c None, shReply = reply, shAttachment = Some (withUrl j (fetch j))\<rparr>)
                            (textMember (member j ''caption''))
                     else if member j ''text'' \<noteq> None
                     then map_option (\<lambda>x. \<lparr>shText = x, shReply = reply, shAttachment = None\<rparr>) (textMember (member j ''text''))
                     else Some \<lparr>shText = Some (if isProtocolJson j then pendingNotice else t), shReply = reply, shAttachment = None\<rparr>)"

text \<open>\<open>String(value)\<close>, by which such a value is represented where the page keeps or encrypts it as a text\<close>

fun jsString :: "json \<Rightarrow> string" where
  "jsString JNull = ''null''"
| "jsString (JBool b) = (if b then ''true'' else ''false'')"
| "jsString (JNum n) = numString n"
| "jsString (JDec t) = t"
| "jsString (JStr t) = t"
| "jsString (JArr xs) = join '','' (map (\<lambda>x. if x = JNull then [] else jsString x) xs)"
| "jsString (JObj fs) = ''[object Object]''"

definition oddInner :: "(json \<Rightarrow> string option) \<Rightarrow> string \<Rightarrow> json \<times> shownText" where
  "oddInner fetch t =
     (let j = (case parseJson t of Some j \<Rightarrow> j | None \<Rightarrow> JNull);
          v = (case member j (if isAttachment j then ''caption'' else ''text'') of Some v \<Rightarrow> v | None \<Rightarrow> JNull)
      in (v, \<lparr>shText = Some (jsString v),
              shReply = (if jsonTruthy (member j ''replyTo'') then map_option quotedOf (member j ''replyTo'') else None),
              shAttachment = (if isAttachment j then Some (withUrl j (fetch j)) else None)\<rparr>))"

definition openCiphertext :: "pageEnv \<Rightarrow> string \<Rightarrow> string \<Rightarrow> string \<Rightarrow> openedText outcome" where
  "openCiphertext env me channel ct =
     (if isMlsText ct channel
      then Done \<lparr>openedBody = groupOpen env channel ct, openedEncrypted = True, openedFallback = False,
                 openedWarning = None, openedFingerprint = None\<rparr>
      else directOpen env ct channel me)"

definition fallbackWarning :: string where
  "fallbackWarning = ''Warning: Insecure fallback encryption was used on recent message(s). Conversation is not protected by Post-Quantum keys.''"

definition setWarning :: "string \<Rightarrow> bool \<Rightarrow> pageState \<Rightarrow> pageState" where
  "setWarning channel insecure s =
     s\<lparr>conversationWarnings :=
        (if insecure then jsSet channel fallbackWarning (conversationWarnings s)
         else jsDelete channel (conversationWarnings s))\<rparr>"

text \<open>\<open>env.ephemeralTtlSec || ttls[channel] || 0\<close>\<close>

definition effectiveTtl :: "int \<Rightarrow> string \<Rightarrow> int jsmap \<Rightarrow> int" where
  "effectiveTtl ttl channel ttls =
     (if ttl \<noteq> 0 then ttl else case jsGet ttls channel of Some t \<Rightarrow> t | None \<Rightarrow> 0)"

definition deadline :: "int \<Rightarrow> int \<Rightarrow> int option" where
  "deadline now ttl = (if ttl > 0 then Some (now + ttl * 1000) else None)"

text \<open>The message built from an envelope whose cipher text, if any, was opened and read.\<close>

definition receivedItem ::
  "pageEnv \<Rightarrow> string \<Rightarrow> int \<Rightarrow> envelopeIn \<Rightarrow> openedText option \<Rightarrow> shownText \<Rightarrow> MessageItem" where
  "receivedItem env channel ttl e opened shown =
     \<lparr>msgId = (if inClientMsgId e \<noteq> [] then inClientMsgId e else ''srv_'' @ numString (nowMs env)),
      clientMsgId = inClientMsgId e, channelId = channel,
      senderId = (if inSenderId e \<noteq> [] then inSenderId e else ''peer''),
      msgText = shText shown, attachment = shAttachment shown, status = StDelivered, timestamp = clockText env,
      createdAt = 0, ephemeralTtlSec = (if ttl > 0 then Some ttl else None), expiresAt = deadline (nowMs env) ttl,
      replyTo = shReply shown, reactions = Some [], isDeleted = False, deletedAt = None, deletedBy = None,
      scopeOfDelete = None, isEdited = False, editedAt = None, isPinned = False, pinnedAt = None, pinnedBy = None,
      rawCiphertext = inCiphertext e,
      itemEncrypted = (case opened of None \<Rightarrow> False | Some r \<Rightarrow> openedEncrypted r),
      itemFallback = (case opened of None \<Rightarrow> False | Some r \<Rightarrow> openedFallback r),
      securityWarning = Option.bind opened openedWarning, itemFingerprint = Option.bind opened openedFingerprint\<rparr>"

text \<open>
  A message that is already listed takes over every member of the new one, except that a readable
  text is not replaced by an unreadable or empty one and a read message stays read. The members of
  deletions, edits and pins are not in the new message and stay.
\<close>

definition sameMessage :: "MessageItem \<Rightarrow> MessageItem \<Rightarrow> bool" where
  "sameMessage n m \<longleftrightarrow> (clientMsgId n \<noteq> [] \<and> clientMsgId m = clientMsgId n) \<or> msgId m = msgId n"

definition readable :: "string option \<Rightarrow> bool" where
  "readable t \<longleftrightarrow> (case t of Some x \<Rightarrow> x \<noteq> [] \<and> \<not> masked x | None \<Rightarrow> False)"

definition unreadable :: "string option \<Rightarrow> bool" where
  "unreadable t \<longleftrightarrow> (case t of Some x \<Rightarrow> x \<noteq> [] \<and> masked x | None \<Rightarrow> False)"

definition mergeItem :: "MessageItem \<Rightarrow> MessageItem \<Rightarrow> MessageItem" where
  "mergeItem n m =
     n\<lparr>msgText := (if readable (msgText m) \<and> unreadable (msgText n) then msgText m else strOr (msgText n) (msgText m)),
       rawCiphertext := strOr (rawCiphertext n) (rawCiphertext m),
       status := (if status m = StRead then StRead else status n),
       createdAt := createdAt m, isDeleted := isDeleted m, deletedAt := deletedAt m, deletedBy := deletedBy m,
       scopeOfDelete := scopeOfDelete m, isEdited := isEdited m, editedAt := editedAt m, isPinned := isPinned m,
       pinnedAt := pinnedAt m, pinnedBy := pinnedBy m\<rparr>"

definition upsertItem :: "MessageItem \<Rightarrow> MessageItem list \<Rightarrow> MessageItem list" where
  "upsertItem n ms = (if list_ex (sameMessage n) ms then updateWhere (sameMessage n) (mergeItem n) ms else ms @ [n])"

text \<open>The receipt, and for a conversation that is not shown the unread count and the toast.\<close>

definition announce :: "string \<Rightarrow> string \<Rightarrow> int \<Rightarrow> string \<Rightarrow> string option \<Rightarrow> pageState \<Rightarrow> pageState" where
  "announce channel k seq sender txt s =
     (if sender = [] \<or> sender = myUserId s then s
      else if channel = activeChannelId s \<or> toLowerCase channel = toLowerCase (activeChannelId s)
      then say (SendReadReceipt channel k seq) s
      else (say (SendDeliveryReceipt channel k seq) s)
             \<lparr>unreadCounts := jsSet channel ((case jsGet (unreadCounts s) channel of Some c \<Rightarrow> c | None \<Rightarrow> 0) + 1) (unreadCounts s),
              incomingToast := Some (sender, channel, take 50 (case strOr txt None of Some t \<Rightarrow> t | None \<Rightarrow> ''Sent an attachment''))\<rparr>)"

definition seqOf :: "envelopeIn \<Rightarrow> int" where
  "seqOf e = (case inSequenceNum e of Some n \<Rightarrow> n | None \<Rightarrow> 0)"

definition saveReceived :: "pageEnv \<Rightarrow> MessageItem \<Rightarrow> pageState \<Rightarrow> pageState" where
  "saveReceived env m s =
     (case cacheSaveMessage (atRest env) (nowMs env) (newKey env) (newIv env) (storedCopy (nowMs env) m) (pageCache s) of
        Done c \<Rightarrow> s\<lparr>pageCache := c\<rparr>
      | Rejected \<Rightarrow> s)"

definition storeReceived :: "pageEnv \<Rightarrow> string \<Rightarrow> envelopeIn \<Rightarrow> MessageItem \<Rightarrow> pageState \<Rightarrow> pageState" where
  "storeReceived env channel e m s =
     (let s1 = saveReceived env m s;
          s2 = (if seqOf e \<noteq> 0 then s1\<lparr>pageCache := setLastReadSeq channel (seqOf e) (pageCache s1)\<rparr> else s1);
          s3 = announce channel (msgId m) (seqOf e) (inSenderId e) (msgText m) s2;
          s4 = say (PersistInbound (msgId m) channel (senderId m) (case msgText m of Some t \<Rightarrow> t | None \<Rightarrow> []) (inSequenceNum e)) s3
      in s4\<lparr>items := upsertItem m (items s4)\<rparr>)"

text \<open>
  A value that is no string: the message is stored and answered; for a conversation that is not shown
  the preview calls \<open>slice\<close>, which only arrays have, and the handler throws there. A message that is
  listed already is not replaced, because the update of the list calls \<open>startsWith\<close> and throws.
\<close>

definition storeOdd :: "pageEnv \<Rightarrow> string \<Rightarrow> envelopeIn \<Rightarrow> json \<Rightarrow> MessageItem \<Rightarrow> pageState \<Rightarrow> pageState" where
  "storeOdd env channel e v m s =
     (let s1 = saveReceived env m s;
          s2 = (if seqOf e \<noteq> 0 then s1\<lparr>pageCache := setLastReadSeq channel (seqOf e) (pageCache s1)\<rparr> else s1);
          s3 = (announce channel (msgId m) (seqOf e) (inSenderId e) None s2)\<lparr>incomingToast := incomingToast s\<rparr>;
          quiet = (inSenderId e = [] \<or> inSenderId e = myUserId s \<or> channel = activeChannelId s
                   \<or> toLowerCase channel = toLowerCase (activeChannelId s));
          goOn = (\<lambda>s4. let s5 = say (PersistInbound (msgId m) channel (senderId m)
                                   (case msgText m of Some t \<Rightarrow> t | None \<Rightarrow> []) (inSequenceNum e)) s4
                       in if list_ex (sameMessage m) (items s5) then s5 else s5\<lparr>items := items s5 @ [m]\<rparr>)
      in if quiet then goOn s3
         else case v of
                JArr xs \<Rightarrow> goOn (s3\<lparr>incomingToast := Some (inSenderId e, channel, jsString (JArr (take 50 xs)))\<rparr>)
              | _ \<Rightarrow> s3)"

text \<open>The whole handler of a message. When \<open>decrypt\<close> rejects its promise the handler ends there.\<close>

definition onMessage :: "pageEnv \<Rightarrow> envelopeIn \<Rightarrow> pageState \<Rightarrow> pageState" where
  "onMessage env e s =
     (if inChannelId e = [] then s
      else
        let me = myUserId s; channel = effectiveChannel me e;
            s1 = s\<lparr>chats := addSender me (inSenderId e) (chats s)\<rparr>;
            ttl = effectiveTtl (inTtl e) channel (conversationTtls s)
        in case inCiphertext e of
             Some ct \<Rightarrow>
               if ct = [] then storeReceived env channel e (receivedItem env channel ttl e None
                                 \<lparr>shText = Some [], shReply = None, shAttachment = None\<rparr>) s1
               else (case openCiphertext env me channel ct of
                       Rejected \<Rightarrow> s1
                     | Done r \<Rightarrow>
                         let s2 = (if isMlsText ct channel then s1 else setWarning channel (openedFallback r) s1)
                         in case readInner (fetchAttachment env) (openedBody r) of
                              None \<Rightarrow>
                                (case oddInner (fetchAttachment env) (openedBody r) of
                                   (v, shown) \<Rightarrow> storeOdd env channel e v (receivedItem env channel ttl e (Some r) shown) s2)
                            | Some shown \<Rightarrow> storeReceived env channel e (receivedItem env channel ttl e (Some r) shown) s2)
           | None \<Rightarrow> storeReceived env channel e (receivedItem env channel ttl e None
                       \<lparr>shText = None, shReply = None, shAttachment = None\<rparr>) s1)"

definition onGroupCommit :: "envelopeIn \<Rightarrow> pageState \<Rightarrow> pageState" where
  "onGroupCommit e s =
     (case inCiphertext e of
        Some ct \<Rightarrow>
          if ct \<noteq> [] \<and> seqOf e \<noteq> 0 \<and> inChannelId e \<noteq> []
          then say (ApplyCommit (inChannelId e) ct (seqOf e)) s else s
      | None \<Rightarrow> s)"

section \<open>Other events\<close>

definition onTyping :: "string \<Rightarrow> string \<Rightarrow> bool \<Rightarrow> pageState \<Rightarrow> pageState" where
  "onTyping channel user typing s =
     (if activeChannelId s \<noteq> []
         \<and> (channel = activeChannelId s \<or> toLowerCase channel = toLowerCase (activeChannelId s))
         \<and> user \<noteq> myUserId s
      then s\<lparr>peerTypingUser := (if typing then Some user else None)\<rparr> else s)"

definition formatTtlLabel :: "int \<Rightarrow> string" where
  "formatTtlLabel sec =
     (if sec \<le> 0 then ''Off'' else if sec = 30 then ''30s'' else if sec = 300 then ''5m''
      else if sec = 3600 then ''1h'' else if sec = 86400 then ''24h'' else if sec = 604800 then ''7d''
      else if sec < 60 then numString sec @ ''s'' else if sec < 3600 then numString (sec div 60) @ ''m''
      else if sec < 86400 then numString (sec div 3600) @ ''h'' else numString (sec div 86400) @ ''d'')"

definition ttlNotice :: "string \<Rightarrow> int \<Rightarrow> string" where
  "ttlNotice actor ttl =
     (if ttl > 0 then hourglass @ '' '' @ actor @ '' set disappearing messages to '' @ formatTtlLabel ttl @ ''.''
      else hourglass @ '' '' @ actor @ '' turned off disappearing messages.'')"

definition noticeItem :: "pageEnv \<Rightarrow> string \<Rightarrow> string \<Rightarrow> MessageItem" where
  "noticeItem env channel txt =
     \<lparr>msgId = ''notice_'' @ numString (nowMs env) @ ''_'' @ fst (randomIds env),
      clientMsgId = ''notice_'' @ numString (nowMs env) @ ''_'' @ snd (randomIds env),
      channelId = channel, senderId = ''system'', msgText = Some txt, attachment = None, status = StRead,
      timestamp = clockText env, createdAt = 0, ephemeralTtlSec = None, expiresAt = None, replyTo = None,
      reactions = None, isDeleted = False, deletedAt = None, deletedBy = None, scopeOfDelete = None,
      isEdited = False, editedAt = None, isPinned = False, pinnedAt = None, pinnedBy = None,
      rawCiphertext = None, itemEncrypted = False, itemFallback = False, securityWarning = None, itemFingerprint = None\<rparr>"

definition setTtl :: "string \<Rightarrow> int \<Rightarrow> pageState \<Rightarrow> pageState" where
  "setTtl channel ttl s =
     (let updated = jsSet channel ttl (conversationTtls s)
      in s\<lparr>conversationTtls := updated, storedTtls := (if ttlsWritable s then updated else storedTtls s)\<rparr>)"

definition addNotice :: "pageEnv \<Rightarrow> string \<Rightarrow> string \<Rightarrow> pageState \<Rightarrow> pageState" where
  "addNotice env channel txt s = s\<lparr>items := items s @ [noticeItem env channel txt]\<rparr>"

definition onEphemeralSetting :: "pageEnv \<Rightarrow> string \<Rightarrow> int \<Rightarrow> string \<Rightarrow> pageState \<Rightarrow> pageState" where
  "onEphemeralSetting env channel ttl who s =
     addNotice env channel (ttlNotice (if who = myUserId s then ''You'' else who) ttl) (setTtl channel ttl s)"

definition handleSaveEphemeralTtl :: "pageEnv \<Rightarrow> int \<Rightarrow> pageState \<Rightarrow> pageState" where
  "handleSaveEphemeralTtl env ttl s =
     (if activeChannelId s = [] then s
      else addNotice env (activeChannelId s) (ttlNotice ''You'' ttl)
             (say (SendEphemeral (activeChannelId s) ttl) (setTtl (activeChannelId s) ttl s)))"

text \<open>The timer that runs every second; the purge of the store is independent of the list.\<close>

definition purgeTick :: "int \<Rightarrow> pageState \<Rightarrow> pageState" where
  "purgeTick now s = onDb (dbStep (now, Purge)) (s\<lparr>items := filter (\<lambda>m. \<not> expiredAt now m) (items s)\<rparr>)"

section \<open>Actions of the user\<close>

definition handleToggleReaction :: "int \<Rightarrow> MessageItem \<Rightarrow> string \<Rightarrow> pageState \<Rightarrow> pageState" where
  "handleToggleReaction now target emoji s =
     (let k = (if msgId target \<noteq> [] then msgId target else clientMsgId target);
          existing = (case Option.bind (reactions target) (\<lambda>r. jsGet r emoji) of Some us \<Rightarrow> us | None \<Rightarrow> []);
          add = (myUserId s \<notin> set existing)
      in say (SendReaction (activeChannelId s) k emoji add) (applyReaction now k emoji (myUserId s) add s))"

definition handleTogglePin :: "int \<Rightarrow> MessageItem \<Rightarrow> pageState \<Rightarrow> pageState" where
  "handleTogglePin now m s =
     (if activeChannelId s = [] then s
      else
        let k = msgKey m; on = (\<not> isPinned m);
            who = (if on then Some (myUserId s) else None)
        in say (SendPin (activeChannelId s) k on)
             (onDb (updateMessagePinned now k (activeChannelId s) on who (if on then Some now else None))
               (s\<lparr>items := updateWhere (\<lambda>x. msgKey x = k) (pinned on who now) (items s)\<rparr>)))"

definition deleteTarget :: "string \<Rightarrow> MessageItem \<Rightarrow> bool" where
  "deleteTarget k m \<longleftrightarrow> (clientMsgId m \<noteq> [] \<and> clientMsgId m = k) \<or> msgId m = k"

definition handleConfirmDelete :: "int \<Rightarrow> MessageItem \<Rightarrow> deleteScope \<Rightarrow> pageState \<Rightarrow> pageState" where
  "handleConfirmDelete now target scope s =
     (if activeChannelId s = [] then s
      else
        let k = msgKey target; c = activeChannelId s
        in say (SendDelete c k scope)
             (if scope = Everyone
              then onDb (markMessageDeleted now k c (myUserId s) Everyone)
                     (s\<lparr>items := updateWhere (deleteTarget k) (tombstone now (myUserId s)) (items s)\<rparr>)
              else onDb (deleteMessage k c) (s\<lparr>items := filter (\<lambda>m. \<not> deleteTarget k m) (items s)\<rparr>)))"

text \<open>Typing: a signal at most every two seconds, and a stop after a pause of one and a half.\<close>

definition handleInputChange :: "int \<Rightarrow> string \<Rightarrow> pageState \<Rightarrow> pageState" where
  "handleInputChange now txt s =
     (let s1 = s\<lparr>inputText := txt\<rparr>
      in if activeChannelId s = [] then s1
         else (if now - lastTypingSent s > 2000
               then say (SendTyping (activeChannelId s) True) (s1\<lparr>lastTypingSent := now\<rparr>) else s1)
                \<lparr>typingTimer := Some (activeChannelId s)\<rparr>)"

definition fireTyping :: "pageState \<Rightarrow> pageState" where
  "fireTyping s =
     (case typingTimer s of
        None \<Rightarrow> s
      | Some c \<Rightarrow> (say (SendTyping c False) s)\<lparr>lastTypingSent := 0, typingTimer := None\<rparr>)"

section \<open>Sending\<close>

definition stopTyping :: "pageState \<Rightarrow> pageState" where
  "stopTyping s = (say (SendTyping (activeChannelId s) False) s)\<lparr>typingTimer := None, lastTypingSent := 0\<rparr>"

definition isGroupChannel :: "string \<Rightarrow> bool" where
  "isGroupChannel c \<longleftrightarrow> startsWith c ''chan_''"

text \<open>An edit: one encryption without the fallback; if it throws, the new text itself is sent.\<close>

definition editWire :: "pageEnv \<Rightarrow> string \<Rightarrow> string \<Rightarrow> string \<Rightarrow> string" where
  "editWire env channel me txt =
     (case (if isGroupChannel channel then groupSeal env channel me txt else directSeal env txt channel me False) of
        Done c \<Rightarrow> c
      | Rejected \<Rightarrow> txt)"

definition sendEdit :: "pageEnv \<Rightarrow> MessageItem \<Rightarrow> pageState \<Rightarrow> pageState" where
  "sendEdit env m s =
     (let newText = trim (inputText s); c = activeChannelId s; k = msgKey m; now = nowMs env;
          s1 = s\<lparr>editingMessage := None, inputText := []\<rparr>
      in if newText = [] then s1
         else say (SendEdit c k (editWire env c (myUserId s) newText))
                (onDb (updateMessageText k c newText now)
                  (s1\<lparr>items := updateWhere (\<lambda>x. msgKey x = k) (edited newText now) (items s1)\<rparr>)))"

definition replyJson :: "QuotedReply \<Rightarrow> json" where
  "replyJson r = jobj [(''messageId'', Some (JStr (qMessageId r))), (''senderId'', Some (JStr (qSenderId r))),
     (''senderName'', map_option JStr (qSenderName r)), (''snippet'', Some (JStr (qSnippet r)))]"

definition newClientId :: "pageEnv \<Rightarrow> string" where
  "newClientId env = ''cli_'' @ numString (nowMs env) @ ''_'' @ fst (randomIds env)"

definition currentTtl :: "pageState \<Rightarrow> int" where
  "currentTtl s = (case jsGet (conversationTtls s) (activeChannelId s) of Some t \<Rightarrow> t | None \<Rightarrow> 0)"

definition ownItem :: "pageEnv \<Rightarrow> string option \<Rightarrow> string option \<Rightarrow> QuotedReply option \<Rightarrow> pageState \<Rightarrow> MessageItem" where
  "ownItem env txt att reply s =
     \<lparr>msgId = newClientId env, clientMsgId = newClientId env, channelId = activeChannelId s, senderId = myUserId s,
      msgText = txt, attachment = att, status = StPending, timestamp = clockText env, createdAt = 0,
      ephemeralTtlSec = (if currentTtl s > 0 then Some (currentTtl s) else None),
      expiresAt = deadline (nowMs env) (currentTtl s), replyTo = reply, reactions = Some [], isDeleted = False,
      deletedAt = None, deletedBy = None, scopeOfDelete = None, isEdited = False, editedAt = None, isPinned = False,
      pinnedAt = None, pinnedBy = None, rawCiphertext = None, itemEncrypted = True, itemFallback = False,
      securityWarning = None, itemFingerprint = None\<rparr>"

definition addOwn :: "pageEnv \<Rightarrow> MessageItem \<Rightarrow> pageState \<Rightarrow> pageState" where
  "addOwn env m s = saveLocally (nowMs env) m (s\<lparr>items := items s @ [m]\<rparr>)"

text \<open>
  Handing an envelope to the gateway: the promise is in flight under the client identifier until
  \<open>sendSettled\<close>; the flag says whether a failure is retried by marking the message as sent.
\<close>

definition dispatchMessage :: "pageEnv \<Rightarrow> string \<Rightarrow> QuotedReply option \<Rightarrow> bool \<Rightarrow> pageState \<Rightarrow> pageState" where
  "dispatchMessage env wire reply marks s =
     (say (SendMessage (activeChannelId s) (newClientId env) wire
             (if currentTtl s > 0 then Some (currentTtl s) else None) (map_option qMessageId reply)) s)
       \<lparr>inFlight := inFlight s @ [(newClientId env, marks)]\<rparr>"

definition persistOut :: "pageEnv \<Rightarrow> string \<Rightarrow> pageState \<Rightarrow> pageState" where
  "persistOut env txt s =
     say (PersistOutbound (newClientId env) (activeChannelId s) (myUserId s) txt (newClientId env)) s"

text \<open>Direct messages are first encrypted without the insecure fallback and, if that throws, with it.\<close>

definition sealDirect :: "pageEnv \<Rightarrow> string \<Rightarrow> string \<Rightarrow> string \<Rightarrow> string outcome" where
  "sealDirect env payload channel me =
     (case directSeal env payload channel me False of
        Done c \<Rightarrow> Done c
      | Rejected \<Rightarrow> directSeal env payload channel me True)"

definition sealPayload :: "pageEnv \<Rightarrow> string \<Rightarrow> string \<Rightarrow> string \<Rightarrow> string outcome" where
  "sealPayload env payload channel me =
     (if isGroupChannel channel then groupSeal env channel me payload else sealDirect env payload channel me)"

text \<open>The metadata of an attachment with the quote: the spread of an object, then one member.\<close>

definition withReply :: "json \<Rightarrow> QuotedReply option \<Rightarrow> json" where
  "withReply j reply =
     (case j of
        JObj fs \<Rightarrow> JObj (case reply of Some r \<Rightarrow> jsSet ''replyTo'' (replyJson r) fs | None \<Rightarrow> jsDelete ''replyTo'' fs)
      | _ \<Rightarrow> j)"

text \<open>An attachment that was uploaded. When its encryption throws, the message stays pending and nothing is sent.\<close>

definition sendAttachment :: "pageEnv \<Rightarrow> json outcome \<Rightarrow> string \<Rightarrow> pageState \<Rightarrow> pageState" where
  "sendAttachment env upload preview s =
     (let reply = replyingTo s; caption = trim (inputText s); s1 = s\<lparr>replyingTo := None\<rparr>
      in case upload of
           Rejected \<Rightarrow> s1
         | Done meta \<Rightarrow>
             let txt = (if caption = [] then None else Some caption);
                 m = ownItem env txt (Some (withUrl meta (Some preview))) reply s1;
                 s2 = (persistOut env (case txt of Some t \<Rightarrow> t | None \<Rightarrow> ''[Attachment]'') (addOwn env m s1))
                        \<lparr>stagedFile := False, inputText := []\<rparr>
             in case sealPayload env (printJson (withReply meta reply)) (activeChannelId s) (myUserId s) of
                  Rejected \<Rightarrow> s2
                | Done wire \<Rightarrow> dispatchMessage env wire reply False s2)"

text \<open>A text. When every encryption throws, the payload itself is sent.\<close>

definition isWireFallback :: "string \<Rightarrow> bool" where
  "isWireFallback w \<longleftrightarrow> strIncludes w (printStr ''protocol'' @ '':'' @ printStr ''genchat-fallback-v1'')
     \<or> strIncludes w (printStr ''insecureFallback'' @ '':true'')"

definition textPayload :: "string \<Rightarrow> QuotedReply option \<Rightarrow> string" where
  "textPayload txt reply =
     (case reply of
        None \<Rightarrow> txt
      | Some r \<Rightarrow> printJson (JObj [(''text'', JStr txt), (''replyTo'', replyJson r)]))"

definition textWire :: "pageEnv \<Rightarrow> string \<Rightarrow> string \<Rightarrow> string \<Rightarrow> string" where
  "textWire env payload channel me =
     (case sealPayload env payload channel me of Done c \<Rightarrow> c | Rejected \<Rightarrow> payload)"

definition ownWarning :: string where
  "ownWarning = ''Insecure fallback encryption used without PQXDH.''"

definition sendText :: "pageEnv \<Rightarrow> pageState \<Rightarrow> pageState" where
  "sendText env s =
     (let reply = replyingTo s; txt = trim (inputText s); c = activeChannelId s;
          s1 = s\<lparr>replyingTo := None, inputText := []\<rparr>;
          wire = textWire env (textPayload txt reply) c (myUserId s);
          insecure = isWireFallback wire;
          m = (ownItem env (Some txt) None reply s1)
                \<lparr>rawCiphertext := Some wire, itemEncrypted := \<not> insecure, itemFallback := insecure,
                 securityWarning := (if insecure then Some ownWarning else None)\<rparr>
      in dispatchMessage env wire reply True (persistOut env txt (addOwn env m (setWarning c insecure s1))))"

definition handleSendMessage :: "pageEnv \<Rightarrow> json outcome \<Rightarrow> string \<Rightarrow> pageState \<Rightarrow> pageState" where
  "handleSendMessage env upload preview s =
     (if trim (inputText s) = [] \<and> \<not> stagedFile s then s
      else let s1 = stopTyping s
           in case editingMessage s1 of
                Some m \<Rightarrow> sendEdit env m s1
              | None \<Rightarrow> if stagedFile s1 then sendAttachment env upload preview s1 else sendText env s1)"

text \<open>A voice note: one encryption without the fallback; when it throws, the message stays pending.\<close>

definition voiceMembers :: "json \<Rightarrow> json \<Rightarrow> json \<Rightarrow> json" where
  "voiceMembers meta durationSec waveform =
     (case meta of
        JObj fs \<Rightarrow> JObj (jsSet ''waveform'' waveform (jsSet ''durationSec'' durationSec (jsSet ''isVoiceNote'' (JBool True) fs)))
      | _ \<Rightarrow> meta)"

definition handleSendVoiceNote :: "pageEnv \<Rightarrow> json outcome \<Rightarrow> json \<Rightarrow> json \<Rightarrow> string \<Rightarrow> pageState \<Rightarrow> pageState" where
  "handleSendVoiceNote env upload durationSec waveform preview s =
     (let reply = replyingTo s; s1 = s\<lparr>replyingTo := None\<rparr>
      in case upload of
           Rejected \<Rightarrow> s1
         | Done meta \<Rightarrow>
             let full = voiceMembers meta durationSec waveform;
                 s2 = addOwn env (ownItem env None (Some (withUrl full (Some preview))) reply s1) s1
             in case (if isGroupChannel (activeChannelId s)
                      then groupSeal env (activeChannelId s) (myUserId s) (printJson (withReply full reply))
                      else directSeal env (printJson (withReply full reply)) (activeChannelId s) (myUserId s) False) of
                  Rejected \<Rightarrow> s2
                | Done wire \<Rightarrow> dispatchMessage env wire reply False s2)"

definition markSent :: "string \<Rightarrow> pageState \<Rightarrow> pageState" where
  "markSent k s = onDb (updateMessageStatus k StSent)
     (s\<lparr>items := updateWhere (\<lambda>m. clientMsgId m = k) (\<lambda>m. m\<lparr>status := StSent\<rparr>) (items s)\<rparr>)"

definition sendSettled :: "bool \<Rightarrow> string \<times> bool \<Rightarrow> pageState \<Rightarrow> pageState" where
  "sendSettled ok p s =
     (if p \<notin> set (inFlight s) then s
      else let s1 = s\<lparr>inFlight := remove1 p (inFlight s)\<rparr>
           in if ok then markSent (fst p) s1
              else if snd p then s1\<lparr>retryTimers := retryTimers s1 @ [fst p]\<rparr> else s1)"

text \<open>The timer of 300 ms after a failed send: the offline fallback.\<close>

definition fireRetry :: "string \<Rightarrow> pageState \<Rightarrow> pageState" where
  "fireRetry k s = (if k \<in> set (retryTimers s) then markSent k (s\<lparr>retryTimers := remove1 k (retryTimers s)\<rparr>) else s)"

section \<open>Conversations\<close>

definition openConversation :: "string \<Rightarrow> pageState \<Rightarrow> pageState" where
  "openConversation c s = s\<lparr>activeChannelId := c, unreadCounts := jsSet c 0 (unreadCounts s), incomingToast := None\<rparr>"

text \<open>The effect of a connection and of a change of the conversation.\<close>

definition conversationShown :: "bool \<Rightarrow> pageState \<Rightarrow> pageState" where
  "conversationShown connected s =
     (if connected \<and> activeChannelId s \<noteq> [] then say (FetchHistory (activeChannelId s)) s else s)\<lparr>peerTypingUser := None\<rparr>"

definition handleSelectUser :: "string \<Rightarrow> string option \<Rightarrow> pageState \<Rightarrow> pageState" where
  "handleSelectUser targetUserId displayName s =
     (let target = trim targetUserId
      in if target = [] then s
         else s\<lparr>chats := (if target \<in> chatId ` set (chats s) then chats s
                       else chats s @ [\<lparr>chatId = target,
                              chatName = (case strOr displayName None of Some n \<Rightarrow> n | None \<Rightarrow> target),
                              chatDirect = True, chatAvatar = None\<rparr>]),
                activeChannelId := target\<rparr>)"

definition retiredChannels :: "string list" where
  "retiredChannels = [''general'', ''announcements'', ''chan_general'', ''chan_announcements'']"

definition loadConversations :: "ConversationItem list \<Rightarrow> pageState \<Rightarrow> pageState" where
  "loadConversations cached s =
     (if cached = [] then s
      else let clean = filter (\<lambda>c. chatId c \<notin> set retiredChannels) cached
           in s\<lparr>chats := clean,
                activeChannelId := (if clean \<noteq> [] \<and> activeChannelId s = [] then chatId (hd clean) else activeChannelId s)\<rparr>)"

definition groupChat :: "string \<Rightarrow> string \<Rightarrow> ConversationItem" where
  "groupChat c name = \<lparr>chatId = c, chatName = name, chatDirect = False, chatAvatar = None\<rparr>"

text \<open>A \<open>Map\<close> from identifiers to conversations, filled from the list and then from the answer.\<close>

definition syncChannels :: "(string \<times> string) list http \<Rightarrow> pageState \<Rightarrow> pageState" where
  "syncChannels answer s =
     (case answer of
        HttpOk channels \<Rightarrow>
          let m = fold (\<lambda>c. jsSet (chatId c) c) (chats s) [];
              m' = fold (\<lambda>(i, name). jsSet (''chan_'' @ i) (groupChat (''chan_'' @ i) (if name \<noteq> [] then name else ''Group Chat''))) channels m
          in s\<lparr>chats := map snd m'\<rparr>
      | _ \<Rightarrow> s)"

text \<open>
  Creating a group: with the group manager when the user is signed in, else with a request, and when
  both fail only in the list. The manager's promise may be rejected, which skips the request.
\<close>

definition localChannelName :: "string \<Rightarrow> string" where
  "localChannelName name =
     filter (\<lambda>c. c \<in> set ''abcdefghijklmnopqrstuvwxyz0123456789_-'') (toLowerCase name)"

definition openNew :: "string \<Rightarrow> string \<Rightarrow> pageState \<Rightarrow> pageState" where
  "openNew c name s = s\<lparr>chats := chats s @ [groupChat c name], activeChannelId := c\<rparr>"

definition handleCreateChannel ::
  "string \<Rightarrow> bool \<Rightarrow> string option outcome \<Rightarrow> (string \<times> string) http \<Rightarrow> pageState \<Rightarrow> pageState" where
  "handleCreateChannel newName signedIn mls answer s =
     (let name = trim newName; raw = localChannelName name; c = ''chan_'' @ raw;
          offline = (if c \<in> chatId ` set (chats s) then s\<lparr>activeChannelId := c\<rparr> else openNew c raw s);
          request = (case answer of
                       HttpOk (i, given) \<Rightarrow> openNew (''chan_'' @ i) (if given \<noteq> [] then given else name) s
                     | _ \<Rightarrow> offline)
      in if name = [] then s
         else if signedIn
              then (case mls of Rejected \<Rightarrow> offline | Done (Some chan) \<Rightarrow> openNew chan name s | Done None \<Rightarrow> request)
              else request)"

section \<open>Loading a conversation, and opening messages again\<close>

text \<open>
  One message of the cache: a text or a stored cipher text of the protocols is decrypted with the
  session of the conversation; what stays unreadable is shown as a notice.
\<close>

definition protocolPrefix :: string where
  "protocolPrefix = ''{'' @ printStr ''protocol'' @ '':'' @ CHR 0x22 # ''genchat-''"

definition opensClear :: "openedText \<Rightarrow> bool" where
  "opensClear r \<longleftrightarrow> openedEncrypted r \<and> openedBody r \<noteq> [] \<and> \<not> startsWith (openedBody r) protocolPrefix"

definition reopenItem :: "pageEnv \<Rightarrow> string \<Rightarrow> string \<Rightarrow> MessageItem \<Rightarrow> MessageItem outcome" where
  "reopenItem env channel me m =
     (case strOr (rawCiphertext m) (msgText m) of
        Some ct \<Rightarrow>
          if startsWith ct protocolPrefix
          then (case directOpen env ct channel me of
                  Rejected \<Rightarrow> Rejected
                | Done r \<Rightarrow>
                    Done (if opensClear r
                          then m\<lparr>msgText := Some (openedBody r), rawCiphertext := Some ct, itemEncrypted := True\<rparr>
                          else m\<lparr>msgText := Some pendingNotice, rawCiphertext := Some ct, itemEncrypted := False\<rparr>))
          else Done m
      | None \<Rightarrow> Done m)"

text \<open>\<open>Promise.all\<close>: rejected as soon as one of the promises is.\<close>

fun allDone :: "'a outcome list \<Rightarrow> 'a list outcome" where
  "allDone [] = Done []"
| "allDone (Rejected # rs) = Rejected"
| "allDone (Done x # rs) = (case allDone rs of Done xs \<Rightarrow> Done (x # xs) | Rejected \<Rightarrow> Rejected)"

definition joinCached :: "MessageItem list \<Rightarrow> MessageItem list \<Rightarrow> MessageItem list" where
  "joinCached cached extra = cached @ filter (\<lambda>m. msgId m \<notin> msgId ` set cached) extra"

definition loadMessagesInto :: "pageEnv \<Rightarrow> MessageItem list \<Rightarrow> MessageItem list \<Rightarrow> pageState \<Rightarrow> pageState" where
  "loadMessagesInto env cached extra s =
     (let s1 = s\<lparr>replyingTo := None, editingMessage := None\<rparr>;
          valid = filter (\<lambda>m. \<not> expiredAt (nowMs env) m) (joinCached cached extra)
      in if activeChannelId s = [] then s
         else if joinCached cached extra = [] then s1
         else case allDone (map (reopenItem env (activeChannelId s) (myUserId s)) valid) of
                Rejected \<Rightarrow> s1
              | Done ms \<Rightarrow>
                  s1\<lparr>items := ms @ filter (\<lambda>m. \<not> expiredAt (nowMs env) m \<and> msgId m \<notin> msgId ` set ms) (items s1)\<rparr>)"

text \<open>
  When a session becomes ready, the messages that are not readable are decrypted again: the list is
  copied, and when all decryptions are done the copy replaces the list.
\<close>

definition needsRetry :: "MessageItem \<Rightarrow> bool" where
  "needsRetry m \<longleftrightarrow> strOr (rawCiphertext m) None \<noteq> None \<and> (case msgText m of Some t \<Rightarrow> masked t | None \<Rightarrow> False)"

definition retryItem :: "pageEnv \<Rightarrow> string \<Rightarrow> string \<Rightarrow> MessageItem \<Rightarrow> MessageItem outcome" where
  "retryItem env active me m =
     (case rawCiphertext m of
        Some ct \<Rightarrow>
          if needsRetry m
          then (case directOpen env ct (if channelId m \<noteq> [] then channelId m else active) me of
                  Rejected \<Rightarrow> Rejected
                | Done r \<Rightarrow>
                    Done (if opensClear r
                          then m\<lparr>msgText := Some (openedBody r), itemEncrypted := True, itemFallback := openedFallback r,
                                 securityWarning := openedWarning r, itemFingerprint := openedFingerprint r\<rparr>
                          else m))
          else Done m
      | None \<Rightarrow> Done m)"

definition sessionReady :: "pageState \<Rightarrow> pageState" where
  "sessionReady s =
     (if myUserId s \<noteq> [] \<and> list_ex needsRetry (items s) then s\<lparr>retrySnapshots := retrySnapshots s @ [items s]\<rparr> else s)"

definition retryDone :: "pageEnv \<Rightarrow> nat \<Rightarrow> pageState \<Rightarrow> pageState" where
  "retryDone env i s =
     (if i < length (retrySnapshots s)
      then let s1 = s\<lparr>retrySnapshots := take i (retrySnapshots s) @ drop (Suc i) (retrySnapshots s)\<rparr>
           in case allDone (map (retryItem env (activeChannelId s) (myUserId s)) (retrySnapshots s ! i)) of
                Done ms \<Rightarrow> s1\<lparr>items := ms\<rparr>
              | Rejected \<Rightarrow> s1
      else s)"

section \<open>What is displayed\<close>

definition activeConversation :: "pageState \<Rightarrow> ConversationItem option" where
  "activeConversation s = find (\<lambda>c. chatId c = activeChannelId s) (chats s)"

definition belongsTo :: "pageState \<Rightarrow> MessageItem \<Rightarrow> bool" where
  "belongsTo s m \<longleftrightarrow>
     (let active = toLowerCase (activeChannelId s); chan = toLowerCase (channelId m); me = toLowerCase (myUserId s);
          sender = toLowerCase (senderId m);
          direct = ((case activeConversation s of Some c \<Rightarrow> chatDirect c | None \<Rightarrow> False)
                    \<or> \<not> isGroupChannel (activeChannelId s))
      in chan = active
         \<or> (direct \<and> ((sender = active \<and> (chan = me \<or> chan = ''peer'')) \<or> (sender = me \<and> chan = active))))"

definition currentMessages :: "int \<Rightarrow> pageState \<Rightarrow> MessageItem list" where
  "currentMessages now s = filter (\<lambda>m. \<not> expiredAt now m \<and> belongsTo s m) (items s)"

definition pinnedMessages :: "pageState \<Rightarrow> MessageItem list" where
  "pinnedMessages s =
     sort_key (\<lambda>m. - (case pinnedAt m of None \<Rightarrow> 0 | Some t \<Rightarrow> t)) (filter (\<lambda>m. isPinned m \<and> \<not> isDeleted m) (items s))"

definition lastIncomingMessage :: "int \<Rightarrow> pageState \<Rightarrow> string" where
  "lastIncomingMessage now s =
     (case find (\<lambda>m. senderId m \<noteq> myUserId s \<and> senderId m \<noteq> ''system'' \<and> strOr (msgText m) None \<noteq> None)
             (rev (currentMessages now s)) of
        Some m \<Rightarrow> (case msgText m of Some t \<Rightarrow> t | None \<Rightarrow> [])
      | None \<Rightarrow> [])"

section \<open>The page as a state machine\<close>

datatype pageEvent =
  EReceipt string bool | EReaction int string string string bool | EDelete int int string string string deleteScope
| EEdit pageEnv int string string string string | EPin int int string string string bool
| EMessage pageEnv envelopeIn | ECommit envelopeIn | ETyping string string bool | EEphemeral pageEnv string int string
| ESaveTtl pageEnv int | EPurge int | EToggleReaction int MessageItem string | ETogglePin int MessageItem
| EConfirmDelete int MessageItem deleteScope | EInput int string | ETypingTimer
| ESend pageEnv "json outcome" string | EVoice pageEnv "json outcome" json json string
| ESettled bool "string \<times> bool" | ERetryTimer string | EOpen string | EShown bool
| ESelectUser string "string option" | ELoadConversations "ConversationItem list"
| ESyncChannels "(string \<times> string) list http" | ECreateChannel string bool "string option outcome" "(string \<times> string) http"
| ELoad pageEnv "MessageItem list" "MessageItem list" | ESessionReady | ERetryDone pageEnv nat
| EReply "QuotedReply option" | EStartEdit "MessageItem option" | EStage bool

fun pageStep :: "pageEvent \<Rightarrow> pageState \<Rightarrow> pageState" where
  "pageStep (EReceipt k d) s = onReadReceipt k d s"
| "pageStep (EReaction now k e u rm) s = onReaction now k e u rm s"
| "pageStep (EDelete now t k c u sc) s = onDeleteMessage now t k c u sc s"
| "pageStep (EEdit env t k c u ct) s = onEditMessage env t k c u ct s"
| "pageStep (EPin now t k c u p) s = onPinMessage now t k c u p s"
| "pageStep (EMessage env e) s = onMessage env e s"
| "pageStep (ECommit e) s = onGroupCommit e s"
| "pageStep (ETyping c u b) s = onTyping c u b s"
| "pageStep (EEphemeral env c t u) s = onEphemeralSetting env c t u s"
| "pageStep (ESaveTtl env t) s = handleSaveEphemeralTtl env t s"
| "pageStep (EPurge now) s = purgeTick now s"
| "pageStep (EToggleReaction now m e) s = handleToggleReaction now m e s"
| "pageStep (ETogglePin now m) s = handleTogglePin now m s"
| "pageStep (EConfirmDelete now m sc) s = handleConfirmDelete now m sc s"
| "pageStep (EInput now t) s = handleInputChange now t s"
| "pageStep ETypingTimer s = fireTyping s"
| "pageStep (ESend env up pre) s = handleSendMessage env up pre s"
| "pageStep (EVoice env up d w pre) s = handleSendVoiceNote env up d w pre s"
| "pageStep (ESettled ok p) s = sendSettled ok p s"
| "pageStep (ERetryTimer k) s = fireRetry k s"
| "pageStep (EOpen c) s = openConversation c s"
| "pageStep (EShown b) s = conversationShown b s"
| "pageStep (ESelectUser u n) s = handleSelectUser u n s"
| "pageStep (ELoadConversations cs) s = loadConversations cs s"
| "pageStep (ESyncChannels a) s = syncChannels a s"
| "pageStep (ECreateChannel n b m a) s = handleCreateChannel n b m a s"
| "pageStep (ELoad env c x) s = loadMessagesInto env c x s"
| "pageStep ESessionReady s = sessionReady s"
| "pageStep (ERetryDone env i) s = retryDone env i s"
| "pageStep (EReply r) s = s\<lparr>replyingTo := r\<rparr>"
| "pageStep (EStartEdit m) s = s\<lparr>editingMessage := m\<rparr>"
| "pageStep (EStage b) s = s\<lparr>stagedFile := b\<rparr>"

section \<open>Frame lemmas\<close>

lemma say_frame [simp]:
  "items (say c s) = items s" "retrySnapshots (say c s) = retrySnapshots s" "activeChannelId (say c s) = activeChannelId s"
  "myUserId (say c s) = myUserId s" "pageCache (say c s) = pageCache s" "inFlight (say c s) = inFlight s"
  "retryTimers (say c s) = retryTimers s" "pageCalls (say c s) = pageCalls s @ [c]" "replyingTo (say c s) = replyingTo s"
  "inputText (say c s) = inputText s" "editingMessage (say c s) = editingMessage s" "stagedFile (say c s) = stagedFile s"
  "conversationTtls (say c s) = conversationTtls s" "conversationWarnings (say c s) = conversationWarnings s"
  "lastTypingSent (say c s) = lastTypingSent s"
  by (simp_all add: say_def)

lemma onDb_frame [simp]:
  "items (onDb f s) = items s" "retrySnapshots (onDb f s) = retrySnapshots s" "activeChannelId (onDb f s) = activeChannelId s"
  "myUserId (onDb f s) = myUserId s" "pageCalls (onDb f s) = pageCalls s" "inFlight (onDb f s) = inFlight s"
  "retryTimers (onDb f s) = retryTimers s" "cacheDb (pageCache (onDb f s)) = f (cacheDb (pageCache s))"
  "conversationTtls (onDb f s) = conversationTtls s" "conversationWarnings (onDb f s) = conversationWarnings s"
  "replyingTo (onDb f s) = replyingTo s" "inputText (onDb f s) = inputText s"
  "editingMessage (onDb f s) = editingMessage s" "stagedFile (onDb f s) = stagedFile s"
  by (simp_all add: onDb_def)

lemma saveLocally_frame [simp]:
  "items (saveLocally now m s) = items s" "retrySnapshots (saveLocally now m s) = retrySnapshots s"
  "activeChannelId (saveLocally now m s) = activeChannelId s" "myUserId (saveLocally now m s) = myUserId s"
  "pageCalls (saveLocally now m s) = pageCalls s" "inFlight (saveLocally now m s) = inFlight s"
  "retryTimers (saveLocally now m s) = retryTimers s" "conversationTtls (saveLocally now m s) = conversationTtls s"
  "conversationWarnings (saveLocally now m s) = conversationWarnings s"
  by (simp_all add: saveLocally_def)

lemma fold_saveLocally_frame [simp]:
  "items (fold (saveLocally now) ms s) = items s" "retrySnapshots (fold (saveLocally now) ms s) = retrySnapshots s"
  "myUserId (fold (saveLocally now) ms s) = myUserId s" "activeChannelId (fold (saveLocally now) ms s) = activeChannelId s"
  "pageCalls (fold (saveLocally now) ms s) = pageCalls s"
  by (induction ms arbitrary: s) simp_all

lemma applyReaction_frame [simp]:
  "items (applyReaction now k e u add s) = updateWhere (matches k) (reactWith e u add) (items s)"
  "retrySnapshots (applyReaction now k e u add s) = retrySnapshots s"
  "myUserId (applyReaction now k e u add s) = myUserId s" "pageCalls (applyReaction now k e u add s) = pageCalls s"
  "activeChannelId (applyReaction now k e u add s) = activeChannelId s"
  by (simp_all add: applyReaction_def Let_def)

lemma setWarning_frame [simp]:
  "items (setWarning c b s) = items s" "retrySnapshots (setWarning c b s) = retrySnapshots s"
  "myUserId (setWarning c b s) = myUserId s" "activeChannelId (setWarning c b s) = activeChannelId s"
  "pageCalls (setWarning c b s) = pageCalls s" "pageCache (setWarning c b s) = pageCache s"
  "conversationTtls (setWarning c b s) = conversationTtls s" "inFlight (setWarning c b s) = inFlight s"
  "retryTimers (setWarning c b s) = retryTimers s"
  by (simp_all add: setWarning_def)

lemma saveReceived_frame [simp]:
  "items (saveReceived env m s) = items s" "retrySnapshots (saveReceived env m s) = retrySnapshots s"
  "myUserId (saveReceived env m s) = myUserId s" "activeChannelId (saveReceived env m s) = activeChannelId s"
  "pageCalls (saveReceived env m s) = pageCalls s" "unreadCounts (saveReceived env m s) = unreadCounts s"
  by (simp_all add: saveReceived_def split: outcome.splits)

lemma announce_frame [simp]:
  "items (announce c k n u t s) = items s" "retrySnapshots (announce c k n u t s) = retrySnapshots s"
  "myUserId (announce c k n u t s) = myUserId s" "activeChannelId (announce c k n u t s) = activeChannelId s"
  "pageCache (announce c k n u t s) = pageCache s"
  by (simp_all add: announce_def)

lemma storeReceived_frame [simp]:
  "items (storeReceived env c e m s) = upsertItem m (items s)"
  "retrySnapshots (storeReceived env c e m s) = retrySnapshots s"
  "myUserId (storeReceived env c e m s) = myUserId s" "activeChannelId (storeReceived env c e m s) = activeChannelId s"
  by (simp_all add: storeReceived_def Let_def)

lemma addNotice_frame [simp]:
  "items (addNotice env c t s) = items s @ [noticeItem env c t]" "retrySnapshots (addNotice env c t s) = retrySnapshots s"
  by (simp_all add: addNotice_def)

lemma setTtl_frame [simp]: "items (setTtl c t s) = items s" "retrySnapshots (setTtl c t s) = retrySnapshots s"
  by (simp_all add: setTtl_def Let_def)

lemma stopTyping_frame [simp]:
  "items (stopTyping s) = items s" "retrySnapshots (stopTyping s) = retrySnapshots s" "myUserId (stopTyping s) = myUserId s"
  "activeChannelId (stopTyping s) = activeChannelId s" "inputText (stopTyping s) = inputText s"
  "editingMessage (stopTyping s) = editingMessage s" "stagedFile (stopTyping s) = stagedFile s"
  "replyingTo (stopTyping s) = replyingTo s" "conversationTtls (stopTyping s) = conversationTtls s"
  "conversationWarnings (stopTyping s) = conversationWarnings s" "inFlight (stopTyping s) = inFlight s"
  "pageCalls (stopTyping s) = pageCalls s @ [SendTyping (activeChannelId s) False]"
  by (simp_all add: stopTyping_def)

lemma markSent_frame [simp]:
  "items (markSent k s) = updateWhere (\<lambda>m. clientMsgId m = k) (\<lambda>m. m\<lparr>status := StSent\<rparr>) (items s)"
  "retrySnapshots (markSent k s) = retrySnapshots s" "pageCalls (markSent k s) = pageCalls s"
  by (simp_all add: markSent_def)

lemma sending_frame [simp]:
  "items (dispatchMessage env w r b s) = items s" "retrySnapshots (dispatchMessage env w r b s) = retrySnapshots s"
  "items (persistOut env t s) = items s" "retrySnapshots (persistOut env t s) = retrySnapshots s"
  "items (addOwn env m s) = items s @ [m]" "retrySnapshots (addOwn env m s) = retrySnapshots s"
  "myUserId (addOwn env m s) = myUserId s" "activeChannelId (addOwn env m s) = activeChannelId s"
  "myUserId (persistOut env t s) = myUserId s" "activeChannelId (persistOut env t s) = activeChannelId s"
  by (simp_all add: dispatchMessage_def persistOut_def addOwn_def)

lemma set_updateWhere: "x \<in> set (updateWhere p f ms) \<longleftrightarrow> (\<exists>m \<in> set ms. x = (if p m then f m else m))"
  by (auto simp: updateWhere_def)

lemma map_updateWhere: "(\<And>m. g (f m) = g m) \<Longrightarrow> map g (updateWhere p f ms) = map g ms"
  by (simp add: updateWhere_def)

section \<open>The list of messages in every state\<close>

definition reactionsOk :: "(string \<times> string list) list \<Rightarrow> bool" where
  "reactionsOk rs \<longleftrightarrow> wfMap rs \<and> list_all (\<lambda>(e, us). us \<noteq> [] \<and> distinct us) rs"

definition itemOk :: "MessageItem \<Rightarrow> bool" where
  "itemOk m \<longleftrightarrow> (case reactions m of None \<Rightarrow> True | Some rs \<Rightarrow> reactionsOk rs)
     \<and> (clientMsgId m = [] \<or> clientMsgId m = msgId m
          \<or> (startsWith (clientMsgId m) ''notice_'' \<and> startsWith (msgId m) ''notice_''))"

definition itemsOk :: "MessageItem list \<Rightarrow> bool" where
  "itemsOk ms \<longleftrightarrow> distinct (map msgId ms) \<and> list_all itemOk ms"

definition pageOk :: "pageState \<Rightarrow> bool" where
  "pageOk s \<longleftrightarrow> itemsOk (items s) \<and> list_all itemsOk (retrySnapshots s)"

text \<open>
  What the environment guarantees: new identifiers are new, a message of the network does not take
  the identifier of a notice, and the stores return each message once.
\<close>

definition eventOk :: "pageState \<Rightarrow> pageEvent \<Rightarrow> bool" where
  "eventOk s ev =
     (case ev of
        EMessage env e \<Rightarrow> \<not> startsWith (inClientMsgId e) ''notice_''
      | EEphemeral env c t u \<Rightarrow> msgId (noticeItem env c []) \<notin> msgId ` set (items s)
      | ESaveTtl env t \<Rightarrow> msgId (noticeItem env [] []) \<notin> msgId ` set (items s)
      | ESend env up pre \<Rightarrow> newClientId env \<notin> msgId ` set (items s)
      | EVoice env up d w pre \<Rightarrow> newClientId env \<notin> msgId ` set (items s)
      | ELoad env cached extra \<Rightarrow> itemsOk (joinCached cached extra)
      | _ \<Rightarrow> True)"

fun okRun :: "pageState \<Rightarrow> pageEvent list \<Rightarrow> bool" where
  "okRun s [] \<longleftrightarrow> True"
| "okRun s (ev # evs) \<longleftrightarrow> eventOk s ev \<and> okRun (pageStep ev s) evs"

lemma setOf_fold: "distinct acc \<Longrightarrow> distinct (fold (\<lambda>u acc. if u \<in> set acc then acc else acc @ [u]) us acc)
  \<and> set (fold (\<lambda>u acc. if u \<in> set acc then acc else acc @ [u]) us acc) = set acc \<union> set us"
  by (induction us arbitrary: acc) (auto simp: insert_absorb)

lemma setOf_props: "distinct (setOf us)" "set (setOf us) = set us"
  using setOf_fold [of "[]" us] by (simp_all add: setOf_def)

lemma list_all_jsSet: "list_all P m \<Longrightarrow> P (k, v) \<Longrightarrow> list_all P (jsSet k v m)"
  unfolding jsSet_def by (induction m) auto

lemma list_all_jsDelete: "list_all P m \<Longrightarrow> list_all P (jsDelete k m)"
  unfolding jsDelete_def by (auto simp: list_all_iff AList.delete_eq)

lemma reactionsOk_step:
  "reactionsOk rs \<Longrightarrow> reactionsOk (if us = [] then jsDelete e rs else jsSet e us rs)" if "distinct us"
  using that by (auto simp: reactionsOk_def intro!: list_all_jsSet list_all_jsDelete)

lemma reactWith_ok: "itemOk m \<Longrightarrow> itemOk (reactWith e u add m)"
proof -
  assume m: "itemOk m"
  define rs where "rs = (case reactions m of None \<Rightarrow> [] | Some r \<Rightarrow> r)"
  define us where "us = setOf (case jsGet rs e of None \<Rightarrow> [] | Some us \<Rightarrow> us)"
  define us' where "us' = (if add then (if u \<in> set us then us else us @ [u]) else removeAll u us)"
  have "reactionsOk rs" using m by (auto simp: itemOk_def rs_def reactionsOk_def split: option.splits)
  moreover have "distinct us'" using setOf_props by (simp add: us'_def us_def distinct_removeAll)
  ultimately have "reactionsOk (if us' = [] then jsDelete e rs else jsSet e us' rs)" by (rule reactionsOk_step [rotated])
  moreover have "reactWith e u add m = m\<lparr>reactions := Some (if us' = [] then jsDelete e rs else jsSet e us' rs)\<rparr>"
    by (simp only: reactWith_def Let_def rs_def us_def us'_def)
  ultimately show ?thesis using m by (simp add: itemOk_def)
qed

lemma reactWith_id [simp]: "msgId (reactWith e u add m) = msgId m"
  by (simp add: reactWith_def Let_def)

lemma itemsOk_update:
  assumes "itemsOk ms" "\<And>m. m \<in> set ms \<Longrightarrow> p m \<Longrightarrow> itemOk m \<Longrightarrow> itemOk (f m) \<and> msgId (f m) = msgId m"
  shows "itemsOk (updateWhere p f ms)"
proof -
  have "map msgId (updateWhere p f ms) = map msgId ms"
    using assms by (auto simp: updateWhere_def itemsOk_def list_all_iff)
  moreover have "list_all itemOk (updateWhere p f ms)"
    using assms by (auto simp: itemsOk_def list_all_iff set_updateWhere)
  ultimately show ?thesis using assms(1) by (simp add: itemsOk_def)
qed

lemma itemsOk_filter: "itemsOk ms \<Longrightarrow> itemsOk (filter p ms)"
  by (auto simp: itemsOk_def list_all_iff distinct_map_filter)

lemma itemsOk_append: "itemsOk ms \<Longrightarrow> itemOk m \<Longrightarrow> msgId m \<notin> msgId ` set ms \<Longrightarrow> itemsOk (ms @ [m])"
  by (simp add: itemsOk_def)

lemma itemOk_changes:
  "itemOk m \<Longrightarrow> itemOk (m\<lparr>status := st\<rparr>)" "itemOk m \<Longrightarrow> itemOk (tombstone t w m)"
  "itemOk m \<Longrightarrow> itemOk (edited x t m)" "itemOk m \<Longrightarrow> itemOk (pinned p q t m)"
  "msgId (tombstone t w m) = msgId m" "msgId (edited x t m) = msgId m" "msgId (pinned p q t m) = msgId m"
  by (simp_all add: itemOk_def tombstone_def edited_def pinned_def)

lemma itemOk_new:
  "itemOk (noticeItem env c t)" "itemOk (ownItem env txt att r s)" "msgId (ownItem env txt att r s) = newClientId env"
  "msgId (noticeItem env c t) = msgId (noticeItem env c' t')"
  by (simp_all add: itemOk_def noticeItem_def ownItem_def startsWith_def reactionsOk_def)

lemma itemOk_received: "itemOk (receivedItem env c ttl e r sh)"
  by (simp add: itemOk_def receivedItem_def reactionsOk_def)

lemma mergeItem_id [simp]: "msgId (mergeItem n m) = msgId n"
  by (simp add: mergeItem_def)

lemma mergeItem_ok: "itemOk n \<Longrightarrow> itemOk (mergeItem n m)"
  by (simp add: itemOk_def mergeItem_def)

lemma sameMessage_id:
  assumes "itemOk m" "itemOk n" "\<not> startsWith (clientMsgId n) ''notice_''" "sameMessage n m"
  shows "msgId m = msgId n"
  using assms by (auto simp: sameMessage_def itemOk_def)

lemma upsert_ok:
  assumes "itemsOk ms" "itemOk n" "\<not> startsWith (clientMsgId n) ''notice_''"
  shows "itemsOk (upsertItem n ms)"
proof (cases "list_ex (sameMessage n) ms")
  case True
  have "itemsOk (updateWhere (sameMessage n) (mergeItem n) ms)"
    using assms(1) by (rule itemsOk_update) (use assms sameMessage_id mergeItem_ok in auto)
  then show ?thesis using True by (simp add: upsertItem_def)
next
  case False
  then have "msgId n \<notin> msgId ` set ms" by (auto simp: list_ex_iff sameMessage_def)
  then show ?thesis using False assms by (simp add: upsertItem_def itemsOk_append)
qed

lemma allDone_all2: "allDone rs = Done ys \<Longrightarrow> list_all2 (\<lambda>r y. r = Done y) rs ys"
  by (induction rs arbitrary: ys rule: allDone.induct) (auto split: outcome.splits)

lemma allDone_ok:
  assumes "itemsOk ms" "allDone (map f ms) = Done ys"
    and "\<And>m y. f m = Done y \<Longrightarrow> itemOk m \<Longrightarrow> itemOk y \<and> msgId y = msgId m"
  shows "itemsOk ys \<and> map msgId ys = map msgId ms"
proof -
  have r: "list_all2 (\<lambda>m y. f m = Done y) ms ys"
    using allDone_all2 [OF assms(2)] by (simp add: list_all2_map1)
  have "list_all2 (\<lambda>m y. itemOk y \<and> msgId y = msgId m) ms ys"
    using list_all2_mono [OF r] assms(1,3) r unfolding itemsOk_def list_all_iff
    by (auto simp: list_all2_conv_all_nth)
  then have "map msgId ys = map msgId ms" "list_all itemOk ys"
    by (auto simp: list_all2_conv_all_nth list_all_length intro!: nth_equalityI)
  then show ?thesis using assms(1) by (simp add: itemsOk_def)
qed

lemma retryItem_ok: "retryItem env a me m = Done y \<Longrightarrow> itemOk m \<Longrightarrow> itemOk y \<and> msgId y = msgId m"
  by (auto simp: retryItem_def itemOk_def split: option.splits if_splits outcome.splits)

lemma reopenItem_ok: "reopenItem env a me m = Done y \<Longrightarrow> itemOk m \<Longrightarrow> itemOk y \<and> msgId y = msgId m"
  by (auto simp: reopenItem_def itemOk_def split: option.splits if_splits outcome.splits)

lemma itemsOk_append2:
  assumes "itemsOk ms" "itemsOk ns" "\<And>n. n \<in> set ns \<Longrightarrow> msgId n \<notin> msgId ` set ms"
  shows "itemsOk (ms @ ns)"
proof -
  have "set (map msgId ms) \<inter> set (map msgId ns) = {}" using assms(3) by (auto simp: disjoint_iff) (metis image_eqI)
  then show ?thesis using assms(1,2) by (simp add: itemsOk_def)
qed

lemma itemsOk_snapshots: "pageOk s \<Longrightarrow> items s' = ms \<Longrightarrow> itemsOk ms \<Longrightarrow> retrySnapshots s' = retrySnapshots s \<Longrightarrow> pageOk s'"
  by (simp add: pageOk_def)

lemma pageOk_items: "pageOk s \<Longrightarrow> itemsOk (items s)"
  by (simp add: pageOk_def)

lemma storeOdd_items:
  "retrySnapshots (storeOdd env c e v m s) = retrySnapshots s
   \<and> (items (storeOdd env c e v m s) = items s \<or> items (storeOdd env c e v m s) = upsertItem m (items s))"
  by (simp add: storeOdd_def Let_def upsertItem_def split: json.splits)

lemma onMessage_items:
  "retrySnapshots (onMessage env e s) = retrySnapshots s
   \<and> (items (onMessage env e s) = items s
      \<or> (\<exists>n. items (onMessage env e s) = upsertItem n (items s) \<and> itemOk n \<and> clientMsgId n = inClientMsgId e))"
proof -
  define P :: "pageState \<Rightarrow> bool" where "P y \<longleftrightarrow> retrySnapshots y = retrySnapshots s
    \<and> (items y = items s \<or> (\<exists>n. items y = upsertItem n (items s) \<and> itemOk n \<and> clientMsgId n = inClientMsgId e))" for y
  have n: "itemOk (receivedItem env c t e r sh) \<and> clientMsgId (receivedItem env c t e r sh) = inClientMsgId e" for c t r sh
    by (simp add: itemOk_received) (simp add: receivedItem_def)
  have p: "P (storeReceived env c e (receivedItem env c t e r sh) z)" "P (storeOdd env c e v (receivedItem env c t e r sh) z)" "P z"
    if "items z = items s" "retrySnapshots z = retrySnapshots s" for c t r sh z v
    using that n storeOdd_items [of env c e v "receivedItem env c t e r sh" z] unfolding P_def by auto
  have f: "items (setWarning c b z) = items z" "retrySnapshots (setWarning c b z) = retrySnapshots z" for c b z
    by (simp_all add: setWarning_def)
  have "P (onMessage env e s)"
    unfolding onMessage_def Let_def by (auto simp: f split: option.split outcome.split prod.split intro!: p(1,2) intro: p(3))
  then show ?thesis unfolding P_def .
qed

lemma sendAttachment_items:
  "retrySnapshots (sendAttachment env up pre s) = retrySnapshots s
   \<and> (items (sendAttachment env up pre s) = items s
      \<or> (\<exists>tx att r s'. items (sendAttachment env up pre s) = items s @ [ownItem env tx att r s']))"
  by (auto simp: sendAttachment_def Let_def split: outcome.splits)

lemma sendText_items:
  "retrySnapshots (sendText env s) = retrySnapshots s
   \<and> (\<exists>n. items (sendText env s) = items s @ [n] \<and> itemOk n \<and> msgId n = newClientId env)"
proof -
  have "itemOk ((ownItem env tx None r s')\<lparr>rawCiphertext := w, itemEncrypted := a, itemFallback := b, securityWarning := v\<rparr>)
    \<and> msgId ((ownItem env tx None r s')\<lparr>rawCiphertext := w, itemEncrypted := a, itemFallback := b, securityWarning := v\<rparr>)
      = newClientId env" for tx r s' w a b v
    using itemOk_new(2) [of env tx None r s'] itemOk_new(3) [of env tx None r s'] by (simp add: itemOk_def)
  then show ?thesis by (simp add: sendText_def Let_def)
qed

lemma handleSend_ok:
  assumes ok: "pageOk s" and fresh: "newClientId env \<notin> msgId ` set (items s)"
  shows "pageOk (handleSendMessage env up pre s)"
proof -
  have i: "itemsOk (items s)" using ok by (rule pageOk_items)
  have e: "itemsOk (items (sendEdit env m s'))" "retrySnapshots (sendEdit env m s') = retrySnapshots s"
    if "items s' = items s" "retrySnapshots s' = retrySnapshots s" for m s'
    using that i by (auto simp: sendEdit_def Let_def intro!: itemsOk_update simp: itemOk_changes)
  define s1 where "s1 = stopTyping s"
  have s1: "items s1 = items s" "retrySnapshots s1 = retrySnapshots s" by (simp_all add: s1_def)
  have a: "itemsOk (items (sendAttachment env up pre s1))"
  proof -
    have "itemsOk (items s @ [ownItem env tx att r s'])" for tx att r s'
      by (rule itemsOk_append [OF i itemOk_new(2)]) (use fresh in \<open>simp only: itemOk_new(3) not_False_eq_True\<close>)
    then show ?thesis using sendAttachment_items [of env up pre s1] i by (auto simp: s1)
  qed
  have t: "itemsOk (items (sendText env s1))"
  proof -
    obtain n where n: "items (sendText env s1) = items s @ [n]" "itemOk n" "msgId n = newClientId env"
      using sendText_items [of env s1] s1 by auto
    show ?thesis unfolding n(1) using i n(2) fresh by (intro itemsOk_append) (simp_all add: n(3))
  qed
  show ?thesis
    using ok e [OF s1] a t sendAttachment_items [of env up pre s1] sendText_items [of env s1]
    by (auto simp: handleSendMessage_def Let_def s1_def [symmetric] s1 pageOk_def split: option.splits)
qed

lemma voice_ok:
  assumes ok: "pageOk s" and fresh: "newClientId env \<notin> msgId ` set (items s)"
  shows "pageOk (handleSendVoiceNote env up d w pre s)"
proof -
  have n: "itemsOk (items s @ [ownItem env tx att r s'])" for tx att r s'
    by (rule itemsOk_append [OF pageOk_items [OF ok] itemOk_new(2)]) (use fresh in \<open>simp only: itemOk_new(3) not_False_eq_True\<close>)
  show ?thesis using ok n
    by (auto simp: handleSendVoiceNote_def Let_def pageOk_def split: outcome.splits)
qed

lemma load_ok:
  assumes ok: "pageOk s" and c: "itemsOk (joinCached cached extra)"
  shows "pageOk (loadMessagesInto env cached extra s)"
proof -
  define valid where "valid = filter (\<lambda>m. \<not> expiredAt (nowMs env) m) (joinCached cached extra)"
  have v: "itemsOk valid" using c by (simp add: valid_def itemsOk_filter)
  have "itemsOk (ms @ filter (\<lambda>m. \<not> expiredAt (nowMs env) m \<and> msgId m \<notin> msgId ` set ms) (items s))"
    if "allDone (map (reopenItem env (activeChannelId s) (myUserId s)) valid) = Done ms" for ms
  proof -
    have "itemsOk ms" using allDone_ok [OF v that] reopenItem_ok by blast
    then show ?thesis using pageOk_items [OF ok] by (rule itemsOk_append2 [OF _ itemsOk_filter]) simp
  qed
  then show ?thesis using ok
    by (auto simp: loadMessagesInto_def Let_def valid_def [symmetric] pageOk_def split: outcome.splits)
qed

lemma retry_ok: "pageOk s \<Longrightarrow> pageOk (retryDone env i s)"
proof -
  assume ok: "pageOk s"
  have "itemsOk ys" if "i < length (retrySnapshots s)"
    "allDone (map (retryItem env a me) (retrySnapshots s ! i)) = Done ys" for ys a me
  proof -
    have "itemsOk (retrySnapshots s ! i)" using ok that(1) by (simp add: pageOk_def list_all_length)
    then show ?thesis using allDone_ok [OF _ that(2)] retryItem_ok by blast
  qed
  then show ?thesis using ok
    by (auto simp: retryDone_def Let_def pageOk_def list_all_iff dest: in_set_takeD in_set_dropD split: outcome.splits)
qed

lemma pageOk_step: "pageOk s \<Longrightarrow> eventOk s ev \<Longrightarrow> pageOk (pageStep ev s)"
proof -
  assume ok: "pageOk s" and e: "eventOk s ev"
  note i = pageOk_items [OF ok]
  have upd: "pageOk s'" if "items s' = updateWhere p f (items s)" "retrySnapshots s' = retrySnapshots s"
    "\<And>m. itemOk m \<Longrightarrow> itemOk (f m) \<and> msgId (f m) = msgId m" for s' p f
    using that(1,2) ok itemsOk_update [OF i that(3)] by (simp add: pageOk_def)
  have same: "pageOk s'" if "items s' = items s" "retrySnapshots s' = retrySnapshots s" for s'
    using that ok by (simp add: pageOk_def)
  have ntc: "pageOk s'" if "items s' = items s @ [noticeItem env c t]" "retrySnapshots s' = retrySnapshots s"
    "msgId (noticeItem env c' t') \<notin> msgId ` set (items s)" for s' env c t c' t'
  proof -
    have "itemsOk (items s')" unfolding that(1)
      by (rule itemsOk_append [OF i itemOk_new(1)]) (use that(3) in \<open>simp only: itemOk_new(4) [of env c t c' t'] not_False_eq_True\<close>)
    then show ?thesis using ok that(2) by (simp add: pageOk_def)
  qed
  show ?thesis
  proof (cases ev)
    case (EReceipt k d)
    show ?thesis
      by (rule upd [where f = "\<lambda>m. m\<lparr>status := (if d then StDelivered else StRead)\<rparr>"])
        (simp_all add: EReceipt onReadReceipt_def Let_def itemOk_changes)
  next
    case (EReaction now k em u rm)
    show ?thesis by (rule upd [where f = "reactWith em u (\<not> rm)"]) (simp_all add: EReaction onReaction_def reactWith_ok)
  next
    case (EDelete now t k c u sc)
    show ?thesis
      by (cases "sc = Everyone", rule upd [where f = "tombstone (eventTime now t) u"])
        (simp_all add: EDelete onDeleteMessage_def itemOk_changes ok)
  next
    case (EEdit env t k c u ct)
    define plain where "plain = (if isMlsText ct c then groupOpen env c ct
      else (case directOpen env ct (editPeer c u (myUserId s)) (myUserId s) of Done r \<Rightarrow> openedBody r | Rejected \<Rightarrow> ct))"
    show ?thesis by (rule upd [where f = "edited plain (eventTime (nowMs env) t)"])
        (simp_all add: EEdit onEditMessage_def Let_def plain_def [symmetric] itemOk_changes)
  next
    case (EPin now t k c u p)
    show ?thesis by (rule upd [where f = "pinned p (Some u) (eventTime now t)"]) (simp_all add: EPin onPinMessage_def Let_def itemOk_changes)
  next
    case (EMessage env em)
    then show ?thesis using onMessage_items [of env em s] ok e i upsert_ok
      by (auto simp: pageOk_def eventOk_def)
  next
    case (EEphemeral env c t u)
    show ?thesis by (rule ntc) (use e in \<open>auto simp: EEphemeral onEphemeralSetting_def eventOk_def\<close>)
  next
    case (ESaveTtl env t)
    show ?thesis
      by (cases "activeChannelId s = []", simp add: ESaveTtl handleSaveEphemeralTtl_def ok, rule ntc)
        (use e in \<open>auto simp: ESaveTtl handleSaveEphemeralTtl_def eventOk_def\<close>)
  next
    case (EPurge now)
    then show ?thesis using ok by (simp add: purgeTick_def pageOk_def itemsOk_filter)
  next
    case (EToggleReaction now m em)
    show ?thesis by (rule upd [OF _ _ conjI [OF reactWith_ok reactWith_id]]) (simp_all add: EToggleReaction handleToggleReaction_def Let_def)
  next
    case (ETogglePin now m)
    show ?thesis
      by (cases "activeChannelId s = []", simp add: ETogglePin handleTogglePin_def ok,
          rule upd [OF _ _ conjI [OF itemOk_changes(4) itemOk_changes(7)]])
        (simp_all add: ETogglePin handleTogglePin_def Let_def)
  next
    case (EConfirmDelete now m sc)
    have "pageOk (say c (onDb f (s\<lparr>items := filter p (items s)\<rparr>)))" for c f p
      using ok by (simp add: pageOk_def itemsOk_filter)
    moreover have "pageOk (say c (onDb f (s\<lparr>items := updateWhere p (tombstone now (myUserId s)) (items s)\<rparr>)))" for c f p
      by (rule upd [OF _ _ conjI [OF itemOk_changes(2) itemOk_changes(5)]]) simp_all
    ultimately show ?thesis using ok by (auto simp: EConfirmDelete handleConfirmDelete_def Let_def)
  next
    case (ESend env up pre)
    then show ?thesis using handleSend_ok [OF ok] e by (simp add: eventOk_def)
  next
    case (EVoice env up d w pre)
    then show ?thesis using voice_ok [OF ok] e by (simp add: eventOk_def)
  next
    case (ESettled b p)
    have "pageOk (markSent k (s\<lparr>inFlight := x\<rparr>))" for k x
      by (rule upd [where f = "\<lambda>m. m\<lparr>status := StSent\<rparr>"]) (simp_all add: itemOk_changes)
    then show ?thesis using ok same by (auto simp: ESettled sendSettled_def Let_def)
  next
    case (ERetryTimer k)
    have "pageOk (markSent k (s\<lparr>retryTimers := x\<rparr>))" for x
      by (rule upd [where f = "\<lambda>m. m\<lparr>status := StSent\<rparr>"]) (simp_all add: itemOk_changes)
    then show ?thesis using ok by (auto simp: ERetryTimer fireRetry_def)
  next
    case (ELoad env c x)
    then show ?thesis using load_ok [OF ok] e by (simp add: eventOk_def)
  next
    case ESessionReady
    then show ?thesis using ok i by (simp add: sessionReady_def pageOk_def)
  next
    case (ERetryDone env i)
    then show ?thesis using retry_ok [OF ok] by simp
  qed (auto intro!: same simp: onGroupCommit_def onTyping_def handleInputChange_def Let_def fireTyping_def openConversation_def
      conversationShown_def handleSelectUser_def loadConversations_def syncChannels_def handleCreateChannel_def openNew_def
      split: option.splits outcome.splits http.splits)
qed

lemma pageOk_run: "pageOk s \<Longrightarrow> okRun s evs \<Longrightarrow> pageOk (fold pageStep evs s)"
  by (induction evs arbitrary: s) (simp_all add: pageOk_step)

end
