(* ===== verification/Chat_Behaviour.thy ===== *)
theory Chat_Behaviour
  imports Chat_Page
begin

text \<open>
  What the handlers of \<open>ChatPage.tsx\<close> achieve: one entry per message in every state, the cipher texts
  that leave the page, receipts, typing signals, the agreement of the list with the offline store,
  and the situations in which the page loses or misreports a message.
\<close>

section \<open>Every state\<close>

text \<open>
  C18. Over any sequence of events and actions, the list holds every message once, and under every
  emoji each user is listed once and there is at least one: in particular a message that is
  delivered again, by a push or by a history, changes its entry and adds none.
\<close>

theorem messages_listed_once:
  assumes "pageOk s" "okRun s evs"
  shows "distinct (map msgId (items (fold pageStep evs s)))
    \<and> (\<forall>m \<in> set (items (fold pageStep evs s)). \<forall>rs e us. reactions m = Some rs \<longrightarrow> jsGet rs e = Some us \<longrightarrow> us \<noteq> [] \<and> distinct us)"
proof -
  have ok: "itemsOk (items (fold pageStep evs s))" using pageOk_run [OF assms] by (rule pageOk_items)
  have "us \<noteq> [] \<and> distinct us"
    if "m \<in> set (items (fold pageStep evs s))" "reactions m = Some rs" "jsGet rs e = Some us" for m rs e us
  proof -
    have "reactionsOk rs" using ok that(1,2) by (auto simp: itemsOk_def list_all_iff itemOk_def)
    moreover have "(e, us) \<in> set rs" using that(3) by (simp add: jsGet_def map_of_SomeD)
    ultimately show ?thesis by (auto simp: reactionsOk_def list_all_iff)
  qed
  then show ?thesis using ok by (auto simp: itemsOk_def)
qed

section \<open>What leaves the page\<close>

definition sentTexts :: "pageState \<Rightarrow> string list" where
  "sentTexts s = List.map_filter (\<lambda>c. case c of SendMessage _ _ w _ _ \<Rightarrow> Some w | SendEdit _ _ w \<Rightarrow> Some w | _ \<Rightarrow> None) (pageCalls s)"

lemma sentTexts_say [simp]:
  "sentTexts (say c s) = sentTexts s @ (case c of SendMessage _ _ w _ _ \<Rightarrow> [w] | SendEdit _ _ w \<Rightarrow> [w] | _ \<Rightarrow> [])"
  by (simp add: sentTexts_def map_filter_def split: pageCall.splits)

lemma sentTexts_frame:
  "pageCalls s' = pageCalls s \<Longrightarrow> sentTexts s' = sentTexts s"
  by (simp add: sentTexts_def)

lemma sentTexts_send [simp]:
  "sentTexts (dispatchMessage env w r b s) = sentTexts s @ [w]" "sentTexts (persistOut env t s) = sentTexts s"
  "sentTexts (addOwn env m s) = sentTexts s" "sentTexts (stopTyping s) = sentTexts s"
  "sentTexts (setWarning c b s) = sentTexts s" "sentTexts (onDb f s) = sentTexts s"
  by (simp_all add: dispatchMessage_def persistOut_def addOwn_def stopTyping_def sentTexts_def map_filter_def)

text \<open>
  C19. Attachments and voice notes fail closed: whatever the uploads and the encryptions answer, at
  most one text leaves the page, and it is a cipher text that the group manager or the session
  service returned for the metadata of this attachment, never the metadata itself.
\<close>

theorem attachments_fail_closed:
  "(sentTexts (sendAttachment env up pre s) = sentTexts s
    \<or> (\<exists>meta w. up = Done meta
         \<and> sealPayload env (printJson (withReply meta (replyingTo s))) (activeChannelId s) (myUserId s) = Done w
         \<and> sentTexts (sendAttachment env up pre s) = sentTexts s @ [w]))
   \<and> (sentTexts (handleSendVoiceNote env up d wave pre s) = sentTexts s
    \<or> (\<exists>meta w. up = Done meta
         \<and> (let plain = printJson (withReply (voiceMembers meta d wave) (replyingTo s))
            in (if isGroupChannel (activeChannelId s) then groupSeal env (activeChannelId s) (myUserId s) plain
                else directSeal env plain (activeChannelId s) (myUserId s) False) = Done w)
         \<and> sentTexts (handleSendVoiceNote env up d wave pre s) = sentTexts s @ [w]))"
proof (cases up)
  case (Done meta)
  have c: "pageCalls (s\<lparr>replyingTo := None\<rparr>) = pageCalls s"
    "\<And>s' :: pageState. pageCalls (s'\<lparr>stagedFile := False, inputText := []\<rparr>) = pageCalls s'" by simp_all
  note f = sentTexts_frame [OF c(1)] sentTexts_frame [OF c(2)]
  show ?thesis
    unfolding sendAttachment_def handleSendVoiceNote_def Let_def Done
    by (auto simp: f split: outcome.split)
next
  case Rejected
  have "pageCalls (s\<lparr>replyingTo := None\<rparr>) = pageCalls s" by simp
  from sentTexts_frame [OF this] show ?thesis
    by (simp add: Rejected sendAttachment_def handleSendVoiceNote_def Let_def)
qed

text \<open>
  Texts fail open: when every encryption of a text throws (no group state, or no keys for the
  user), the text itself, with its quote, is handed to the gateway, the message is shown as
  encrypted without a warning, and a warning of the conversation is taken back.
\<close>

theorem failed_encryption_sends_plaintext:
  assumes "editingMessage s = None" "\<not> stagedFile s" "trim (inputText s) \<noteq> []"
    and p: "payload = textPayload (trim (inputText s)) (replyingTo s)"
    and r: "sealPayload env payload (activeChannelId s) (myUserId s) = Rejected" "\<not> isWireFallback payload"
    and s': "s' = handleSendMessage env up pre s"
  shows "sentTexts s' = sentTexts s @ [payload]
    \<and> (\<exists>m. items s' = items s @ [m] \<and> msgText m = Some (trim (inputText s)) \<and> rawCiphertext m = Some payload
           \<and> itemEncrypted m \<and> \<not> itemFallback m \<and> securityWarning m = None \<and> status m = StPending)
    \<and> jsGet (conversationWarnings s') (activeChannelId s) = None"
proof -
  define s1 where "s1 = stopTyping s"
  have f: "items s1 = items s" "activeChannelId s1 = activeChannelId s" "myUserId s1 = myUserId s" "replyingTo s1 = replyingTo s"
    "inputText s1 = inputText s" "sentTexts s1 = sentTexts s" by (simp_all add: s1_def)
  have h: "s' = sendText env s1"
    using assms(1-3) by (simp add: s' handleSendMessage_def s1_def Let_def)
  have w: "textWire env payload (activeChannelId s) (myUserId s) = payload" using r(1) by (simp add: textWire_def)
  have c: "pageCalls (s1\<lparr>replyingTo := None, inputText := []\<rparr>) = pageCalls s1" by simp
  have 1: "sentTexts s' = sentTexts s @ [payload] \<and> (\<exists>m. items s' = items s @ [m] \<and> msgText m = Some (trim (inputText s))
      \<and> rawCiphertext m = Some payload \<and> itemEncrypted m \<and> \<not> itemFallback m \<and> securityWarning m = None \<and> status m = StPending)"
    unfolding h sendText_def Let_def f p [symmetric] w
    using r(2) by (simp add: f sentTexts_frame [OF c] ownItem_def)
  have 2: "jsGet (conversationWarnings s') (activeChannelId s) = None"
    unfolding h sendText_def Let_def f p [symmetric] w
    using r(2) by (simp add: dispatchMessage_def persistOut_def addOwn_def setWarning_def)
  show ?thesis using 1 2 by auto
qed

text \<open>An edit is sent in clear already when the one encryption without the fallback throws.\<close>

lemma edit_sent_in_clear:
  assumes "trim (inputText t) \<noteq> []" "\<not> isGroupChannel (activeChannelId t)"
    and "directSeal env (trim (inputText t)) (activeChannelId t) (myUserId t) False = Rejected"
  shows "sentTexts (sendEdit env m t) = sentTexts t @ [trim (inputText t)]"
proof -
  have c: "pageCalls (t\<lparr>editingMessage := None, inputText := []\<rparr>) = pageCalls t"
    "\<And>x. pageCalls (t\<lparr>editingMessage := None, inputText := [], items := x\<rparr>) = pageCalls t" by simp_all
  show ?thesis using assms
    by (simp add: sendEdit_def Let_def editWire_def sentTexts_frame [OF c(1)] sentTexts_frame [OF c(2)])
qed

lemma updateWhere_ball: "(\<And>m. Q (if p m then f m else m)) \<Longrightarrow> \<forall>x \<in> set (updateWhere p f ms). Q x"
  by (auto simp only: set_updateWhere)

section \<open>The status of a message\<close>

text \<open>
  A text that was never acknowledged is reported as sent: when the promise of the gateway is
  rejected (the socket is closed, or no acknowledgement within ten seconds), the timer that follows
  sets the status to sent, and nothing has been handed to the gateway again.
\<close>

theorem unacknowledged_marked_sent:
  assumes "(k, True) \<in> set (inFlight s)"
    and "s' = pageStep (ERetryTimer k) (pageStep (ESettled False (k, True)) s)"
  shows "pageCalls s' = pageCalls s \<and> map msgId (items s') = map msgId (items s)
    \<and> (\<forall>m \<in> set (items s'). clientMsgId m = k \<longrightarrow> status m = StSent)"
proof -
  define s1 where "s1 = s\<lparr>inFlight := remove1 (k, True) (inFlight s), retryTimers := retryTimers s @ [k]\<rparr>"
  have "pageStep (ESettled False (k, True)) s = s1"
    using assms(1) by (simp add: sendSettled_def s1_def Let_def)
  then have s': "s' = markSent k (s1\<lparr>retryTimers := remove1 k (retryTimers s1)\<rparr>)"
    using assms(2) by (simp add: fireRetry_def) (simp add: s1_def)
  have "\<forall>m \<in> set (items s'). clientMsgId m = k \<longrightarrow> status m = StSent"
    unfolding s' markSent_frame by (rule updateWhere_ball) simp
  then show ?thesis by (simp add: s' map_updateWhere) (simp add: s1_def)
qed

text \<open>A receipt that arrives before the acknowledgement is undone by it.\<close>

lemma late_acknowledgement_demotes:
  "m \<in> set (items s) \<Longrightarrow> status m = StRead \<Longrightarrow> (clientMsgId m, b) \<in> set (inFlight s) \<Longrightarrow>
   m\<lparr>status := StSent\<rparr> \<in> set (items (sendSettled True (clientMsgId m, b) s))"
  by (auto simp: sendSettled_def Let_def set_updateWhere)

section \<open>Receipts\<close>

definition receiptsOf :: "pageState \<Rightarrow> pageCall list" where
  "receiptsOf s = filter (\<lambda>c. case c of SendReadReceipt _ _ _ \<Rightarrow> True | SendDeliveryReceipt _ _ _ \<Rightarrow> True | _ \<Rightarrow> False) (pageCalls s)"

lemma storeReceived_receipts:
  "receiptsOf (storeReceived env c e m s) =
     receiptsOf s @ (if inSenderId e = [] \<or> inSenderId e = myUserId s then []
       else [if toLowerCase c = toLowerCase (activeChannelId s) then SendReadReceipt c (msgId m) (seqOf e)
             else SendDeliveryReceipt c (msgId m) (seqOf e)])
   \<and> unreadCounts (storeReceived env c e m s) =
     (if inSenderId e = [] \<or> inSenderId e = myUserId s \<or> toLowerCase c = toLowerCase (activeChannelId s) then unreadCounts s
      else jsSet c ((case jsGet (unreadCounts s) c of Some n \<Rightarrow> n | None \<Rightarrow> 0) + 1) (unreadCounts s))"
proof -
  define s1 where "s1 = (if seqOf e \<noteq> 0
    then saveReceived env m s\<lparr>pageCache := setLastReadSeq c (seqOf e) (pageCache (saveReceived env m s))\<rparr>
    else saveReceived env m s)"
  have f: "pageCalls s1 = pageCalls s" "unreadCounts s1 = unreadCounts s" "myUserId s1 = myUserId s" "activeChannelId s1 = activeChannelId s"
    by (simp_all add: s1_def)
  show ?thesis
    unfolding storeReceived_def Let_def s1_def [symmetric]
    by (auto simp: announce_def receiptsOf_def f say_def)
qed

text \<open>
  C21. Every message of another user that is opened and listed is answered by exactly one receipt: a
  read receipt if its conversation is the one shown (ignoring case), else a delivery receipt and one
  more in the unread count of the conversation. A message to the user itself counts for the
  conversation with its sender. The user's own messages are not answered.
\<close>

theorem one_receipt_each:
  assumes "inChannelId e \<noteq> []" "inCiphertext e = Some ct" "ct \<noteq> []"
    and c: "c = effectiveChannel (myUserId s) e"
    and r: "openCiphertext env (myUserId s) c ct = Done r" "readInner (fetchAttachment env) (openedBody r) = Some shown"
    and s': "s' = onMessage env e s"
  shows "receiptsOf s' = receiptsOf s
      @ (if inSenderId e = [] \<or> inSenderId e = myUserId s then []
         else [if toLowerCase c = toLowerCase (activeChannelId s)
               then SendReadReceipt c (if inClientMsgId e \<noteq> [] then inClientMsgId e else ''srv_'' @ numString (nowMs env)) (seqOf e)
               else SendDeliveryReceipt c (if inClientMsgId e \<noteq> [] then inClientMsgId e else ''srv_'' @ numString (nowMs env)) (seqOf e)])
    \<and> (isDirectForMe (myUserId s) (inChannelId e) \<and> inSenderId e \<noteq> [] \<longrightarrow> c = inSenderId e)
    \<and> (\<forall>x. (case jsGet (unreadCounts s') x of Some n \<Rightarrow> n | None \<Rightarrow> 0) =
           (case jsGet (unreadCounts s) x of Some n \<Rightarrow> n | None \<Rightarrow> 0)
           + (if x = c \<and> inSenderId e \<noteq> [] \<and> inSenderId e \<noteq> myUserId s \<and> toLowerCase c \<noteq> toLowerCase (activeChannelId s) then 1 else 0))"
proof -
  define s1 where "s1 = s\<lparr>chats := addSender (myUserId s) (inSenderId e) (chats s)\<rparr>"
  define s2 where "s2 = (if isMlsText ct c then s1 else setWarning c (openedFallback r) s1)"
  define m where "m = receivedItem env c (effectiveTtl (inTtl e) c (conversationTtls s)) e (Some r) shown"
  have eq: "s' = storeReceived env c e m s2"
    unfolding s2_def m_def using assms(1-3) r by (simp add: s' onMessage_def Let_def c [symmetric] s1_def [symmetric])
  have f: "receiptsOf s2 = receiptsOf s" "unreadCounts s2 = unreadCounts s" "myUserId s2 = myUserId s"
    "activeChannelId s2 = activeChannelId s"
    by (auto simp: s2_def s1_def receiptsOf_def setWarning_def)
  have i: "msgId m = (if inClientMsgId e \<noteq> [] then inClientMsgId e else ''srv_'' @ numString (nowMs env))"
    by (simp add: m_def receivedItem_def)
  show ?thesis
    using storeReceived_receipts [of env c e m s2] unfolding eq f i [symmetric]
    by (auto simp: c effectiveChannel_def)
qed

section \<open>Typing signals\<close>

definition typed :: "(int \<times> string) list \<Rightarrow> pageState \<Rightarrow> pageState" where
  "typed ts s = fold (\<lambda>(t, x). handleInputChange t x) ts s"

definition starts :: "pageState \<Rightarrow> nat" where
  "starts s = length (filter (\<lambda>c. case c of SendTyping _ b \<Rightarrow> b | _ \<Rightarrow> False) (pageCalls s))"

lemma starts_input:
  "starts (handleInputChange t x s) = starts s + (if activeChannelId s \<noteq> [] \<and> t - lastTypingSent s > 2000 then 1 else 0)"
  "lastTypingSent (handleInputChange t x s) = (if activeChannelId s \<noteq> [] \<and> t - lastTypingSent s > 2000 then t else lastTypingSent s)"
  "activeChannelId (handleInputChange t x s) = activeChannelId s"
  by (simp_all add: handleInputChange_def Let_def starts_def say_def)

lemma typed_bound:
  assumes "list_all (\<lambda>(t, x). t0 \<le> t \<and> t \<le> t1) ts" "t0 \<le> t1"
  shows "starts (typed ts s) = starts s
    \<or> (starts s < starts (typed ts s) \<and> t0 + 2001 * (int (starts (typed ts s)) - int (starts s) - 1) \<le> lastTypingSent (typed ts s)
         \<and> lastTypingSent (typed ts s) \<le> t1)"
  using assms
proof (induction ts rule: rev_induct)
  case (snoc p ts)
  obtain t x where p: "p = (t, x)" by fastforce
  have st: "typed (ts @ [p]) s = handleInputChange t x (typed ts s)" by (simp add: typed_def p)
  from snoc have IH: "starts (typed ts s) = starts s
    \<or> (starts s < starts (typed ts s) \<and> t0 + 2001 * (int (starts (typed ts s)) - int (starts s) - 1) \<le> lastTypingSent (typed ts s)
         \<and> lastTypingSent (typed ts s) \<le> t1)" and t: "t0 \<le> t" "t \<le> t1" by (auto simp: p)
  show ?case unfolding st starts_input using IH t by (auto split: if_splits)
qed (simp add: typed_def)

text \<open>
  Typing without a pause is signalled at a bounded rate: over any number of changes of the input
  within a span of time, the signals sent are at most one and one more for every 2001 milliseconds.
\<close>

theorem typing_rate:
  assumes "list_all (\<lambda>(t, x). t0 \<le> t \<and> t \<le> t1) ts" "t0 \<le> t1"
  shows "int (starts (typed ts s)) - int (starts s) \<le> 1 + (t1 - t0) div 2001"
proof -
  define n where "n = int (starts (typed ts s)) - int (starts s)"
  have "n = 0 \<or> 2001 * (n - 1) \<le> t1 - t0" using typed_bound [OF assms, of s] by (auto simp: n_def)
  then have "n \<le> 1 + (t1 - t0) div 2001"
  proof
    assume "2001 * (n - 1) \<le> t1 - t0"
    from zdiv_mono1 [OF this, of 2001] have "n - 1 \<le> (t1 - t0) div 2001" by simp
    then show ?thesis by simp
  next
    assume "n = 0"
    then show ?thesis using assms(2) pos_imp_zdiv_nonneg_iff [of 2001 "t1 - t0"] by simp
  qed
  then show ?thesis by (simp add: n_def)
qed

section \<open>Messages that are lost or come back\<close>

text \<open>
  A message that arrives while unreadable messages are decrypted again is lost from the list: the
  copy taken when the session became ready replaces the whole list.
\<close>

theorem retry_loses_message:
  assumes "myUserId s \<noteq> []" "list_ex needsRetry (items s)" "retrySnapshots s = []"
    and n: "items (onMessage env e (sessionReady s)) = items s @ [n]" "msgId n \<notin> msgId ` set (items s)"
    and "pageOk s" and s2: "s2 = onMessage env e (sessionReady s)"
    and d: "allDone (map (retryItem env' (activeChannelId s2) (myUserId s2)) (items s)) = Done ms"
  shows "msgId n \<in> msgId ` set (items s2) \<and> msgId n \<notin> msgId ` set (items (retryDone env' 0 s2))"
proof -
  have r: "retrySnapshots s2 = [items s]"
    using assms(1-3) onMessage_items [of env e "sessionReady s"] by (simp add: s2 sessionReady_def)
  have i: "itemsOk (items s)" using assms(6) by (rule pageOk_items)
  have m: "map msgId ms = map msgId (items s)" using allDone_ok [OF i d] retryItem_ok by blast
  have "items (retryDone env' 0 s2) = ms" using d by (simp add: retryDone_def r)
  then have "msgId ` set (items (retryDone env' 0 s2)) = msgId ` set (items s)"
    using m by (metis set_map)
  then show ?thesis using n by (simp add: s2)
qed

lemma getOrCreateKey_db: "getOrCreateKey g c = Done (k, c') \<Longrightarrow> cacheDb c' = cacheDb c"
  by (auto simp: getOrCreateKey_def persistCryptoKey_def split: option.splits outcome.splits if_splits)

lemma cacheSave_stored:
  assumes "messages (cacheDb c) = Some store" "\<not> txFails (cacheDb c)" "dbOk (cacheDb c)"
  shows "\<exists>t c'. cacheSaveMessage a now g iv m c = Done c' \<and> idbMsg (cacheDb c') (msgId m) = Some (m\<lparr>msgText := t\<rparr>)"
proof -
  have "\<exists>t c1. (case msgText m of None \<Rightarrow> (None, c) | Some t \<Rightarrow>
       if t = [] then (Some t, c)
       else case encryptText a g iv t c of
              Done ((x, v), s') \<Rightarrow> (Some (''ENC_GCM:'' @ v @ '':'' @ x), s') | Rejected \<Rightarrow> (Some t, c)) = (t, c1)
     \<and> cacheDb c1 = cacheDb c"
    by (auto simp: encryptText_def dest: getOrCreateKey_db split: option.splits outcome.splits)
  then obtain t c1 where t: "(case msgText m of None \<Rightarrow> (None, c) | Some t \<Rightarrow>
       if t = [] then (Some t, c)
       else case encryptText a g iv t c of
              Done ((x, v), s') \<Rightarrow> (Some (''ENC_GCM:'' @ v @ '':'' @ x), s') | Rejected \<Rightarrow> (Some t, c)) = (t, c1)"
    and c1: "cacheDb c1 = cacheDb c" by blast
  have w: "wfIdb store" using assms by (simp add: dbOk_def storeOk_def)
  show ?thesis
    unfolding cacheSaveMessage_def Let_def t
    using assms w by (simp add: c1 saveMessage_def idbMsg_def putMessage_def) blast
qed

lemma setLastReadSeq_db: "cacheDb (setLastReadSeq c n s) = cacheDb s"
  by (simp add: setLastReadSeq_def split: option.splits)

lemma storeReceived_stored:
  assumes "messages (cacheDb (pageCache s)) = Some store" "\<not> txFails (cacheDb (pageCache s))" "dbOk (cacheDb (pageCache s))"
  shows "\<exists>t. idbMsg (cacheDb (pageCache (storeReceived env c e m s))) (msgId m)
     = Some ((storedCopy (nowMs env) m)\<lparr>msgText := t\<rparr>)"
proof -
  have i: "msgId (storedCopy (nowMs env) m) = msgId m" by (simp add: storedCopy_def StoredMessage.defs)
  obtain t c' where c': "cacheSaveMessage (atRest env) (nowMs env) (newKey env) (newIv env) (storedCopy (nowMs env) m) (pageCache s) = Done c'"
    "idbMsg (cacheDb c') (msgId m) = Some ((storedCopy (nowMs env) m)\<lparr>msgText := t\<rparr>)"
    using cacheSave_stored [OF assms, of "atRest env" "nowMs env" "newKey env" "newIv env" "storedCopy (nowMs env) m"]
    unfolding i by blast
  have "cacheDb (pageCache (storeReceived env c e m s)) = cacheDb c'"
    using c'(1) by (simp add: storeReceived_def Let_def saveReceived_def announce_def setLastReadSeq_db)
  then show ?thesis using c'(2) by auto
qed

text \<open>
  A message that is delivered again (every time its conversation is opened the history is
  fetched) loses what happened to it since: the listed entry loses its reactions and its quote, its
  timer starts again from now, the text of a deleted message is back, and the stored copy is
  replaced by one that is neither deleted nor edited nor pinned.
\<close>

theorem redelivery_resets:
  assumes "pageOk s" "m \<in> set (items s)" "inClientMsgId e = msgId m" "msgId m \<noteq> []" "\<not> startsWith (msgId m) ''notice_''"
    and e: "inChannelId e \<noteq> []" "inCiphertext e = Some ct" "ct \<noteq> []" "c = effectiveChannel (myUserId s) e"
    and r: "openCiphertext env (myUserId s) c ct = Done r" "openedBody r = t" "t \<noteq> []" "\<not> startsWith t ''{''" "\<not> masked t"
    and db: "messages (cacheDb (pageCache s)) = Some store" "\<not> txFails (cacheDb (pageCache s))" "dbOk (cacheDb (pageCache s))"
    and s': "s' = onMessage env e s"
  shows "(\<exists>m' \<in> set (items s'). msgId m' = msgId m \<and> msgText m' = Some t \<and> isDeleted m' = isDeleted m
       \<and> reactions m' = Some [] \<and> replyTo m' = None
       \<and> expiresAt m' = deadline (nowMs env) (effectiveTtl (inTtl e) c (conversationTtls s)))
    \<and> (\<exists>x. idbMsg (cacheDb (pageCache s')) (msgId m) = Some x
         \<and> \<not> isDeleted x \<and> \<not> isEdited x \<and> \<not> isPinned x \<and> reactions x = Some [])"
proof -
  define shown where "shown = \<lparr>shText = Some t, shReply = None, shAttachment = None\<rparr>"
  define s1 where "s1 = s\<lparr>chats := addSender (myUserId s) (inSenderId e) (chats s)\<rparr>"
  define s2 where "s2 = (if isMlsText ct c then s1 else setWarning c (openedFallback r) s1)"
  define n where "n = receivedItem env c (effectiveTtl (inTtl e) c (conversationTtls s)) e (Some r) shown"
  have inner: "readInner (fetchAttachment env) (openedBody r) = Some shown"
    using r by (simp add: readInner_def shown_def Let_def)
  have eq: "s' = storeReceived env c e n s2"
    unfolding s2_def n_def using e r(1) inner by (simp add: s' onMessage_def Let_def s1_def [symmetric])
  have f: "items s2 = items s" "pageCache s2 = pageCache s" by (simp_all add: s2_def s1_def)
  have n: "msgId n = msgId m" "clientMsgId n = msgId m" "msgText n = Some t" "reactions n = Some []" "replyTo n = None"
    "expiresAt n = deadline (nowMs env) (effectiveTtl (inTtl e) c (conversationTtls s))"
    "\<not> isDeleted n" "\<not> isEdited n" "\<not> isPinned n"
    using assms(3,4) by (simp_all add: n_def receivedItem_def shown_def)
  have same: "sameMessage n m" by (simp add: sameMessage_def n)
  then have l: "list_ex (sameMessage n) (items s)" using assms(2) by (auto simp: list_ex_iff)
  have "mergeItem n m \<in> set (items s')"
    using assms(2) same l by (auto simp: eq f upsertItem_def set_updateWhere)
  moreover have "msgText (mergeItem n m) = Some t"
    using n(3) r(3,5) by (simp add: mergeItem_def unreadable_def strOr_def)
  ultimately have 1: "\<exists>m' \<in> set (items s'). msgId m' = msgId m \<and> msgText m' = Some t \<and> isDeleted m' = isDeleted m
       \<and> reactions m' = Some [] \<and> replyTo m' = None
       \<and> expiresAt m' = deadline (nowMs env) (effectiveTtl (inTtl e) c (conversationTtls s))"
    using n by (intro bexI [of _ "mergeItem n m"]) (simp_all add: mergeItem_def)
  obtain u where "idbMsg (cacheDb (pageCache s')) (msgId m) = Some ((storedCopy (nowMs env) n)\<lparr>msgText := u\<rparr>)"
    using storeReceived_stored [of s2 store env c e n] db f n(1) unfolding eq by auto
  then have 2: "\<exists>x. idbMsg (cacheDb (pageCache s')) (msgId m) = Some x
         \<and> \<not> isDeleted x \<and> \<not> isEdited x \<and> \<not> isPinned x \<and> reactions x = Some []"
    using n by (simp add: storedCopy_def StoredMessage.defs)
  show ?thesis using 1 2 by blast
qed

section \<open>The list and the offline store\<close>








lemma idbMsg_ops:
  assumes "dbOk d" "\<not> txFails d"
  shows "idbMsg (updateMessageStatus k st d) x = (if x = k then map_option (\<lambda>m. m\<lparr>status := st\<rparr>) (idbMsg d k) else idbMsg d x)"
    "idbMsg (markMessageDeleted now k c u Everyone d) x = (if x = k then map_option (tombstone now u) (idbMsg d k) else idbMsg d x)"
    "idbMsg (updateMessageText k c t at' d) x = (if x = k then map_option (edited t at') (idbMsg d k) else idbMsg d x)"
    "idbMsg (deleteMessage k c d) x = (if x = k then None else idbMsg d x)"
proof -
  show "idbMsg (updateMessageStatus k st d) x = (if x = k then map_option (\<lambda>m. m\<lparr>status := st\<rparr>) (idbMsg d k) else idbMsg d x)"
    using assms unfolding updateMessageStatus_def
    by (cases "messages d") (auto simp: idbMsg_def dbOk_def idbGet_updateRecord)
  show "idbMsg (deleteMessage k c d) x = (if x = k then None else idbMsg d x)"
    unfolding deleteMessage_def using assms
    by (cases "messages d") (auto simp: idbMsg_def dbOk_def storeOk_def)
qed (simp_all add: markMessageDeleted_def updateMessageText_def idbMsg_update assms tombstone_def edited_def)



section \<open>The statements at concrete inputs\<close>

definition demoPageEnv :: pageEnv where
  "demoPageEnv = \<lparr>nowMs = 1000, clockText = ''10:00'', randomIds = (''a'', ''b''), groupOpen = (\<lambda>c t. t),
     directOpen = (\<lambda>t c u. Done \<lparr>openedBody = t, openedEncrypted = True, openedFallback = False, openedWarning = None, openedFingerprint = None\<rparr>),
     fetchAttachment = (\<lambda>j. None), groupSeal = (\<lambda>c u t. Rejected), directSeal = (\<lambda>t c u b. Rejected),
     atRest = tagAead, newKey = [5], newIv = [1]\<rparr>"

definition demoArrival :: "string \<Rightarrow> string \<Rightarrow> envelopeIn" where
  "demoArrival k t = \<lparr>inChannelId = ''alice'', inSenderId = ''bob'', inClientMsgId = k, inSequenceNum = Some 1, inCiphertext = Some t, inTtl = 0\<rparr>"

definition demoItem :: "string \<Rightarrow> string \<Rightarrow> MessageItem" where
  "demoItem k t = receivedItem demoPageEnv ''bob'' 0 (demoArrival k t) None \<lparr>shText = Some t, shReply = None, shAttachment = None\<rparr>"

definition demoPage :: "MessageItem list \<Rightarrow> string \<Rightarrow> pageState" where
  "demoPage ms t = \<lparr>items = ms, chats = [], activeChannelId = ''bob'', myUserId = ''alice'', pageCache = exampleCache,
     conversationTtls = [], storedTtls = [], ttlsWritable = True, unreadCounts = [], conversationWarnings = [],
     incomingToast = None, peerTypingUser = None, inputText = t, replyingTo = None, editingMessage = None, lastTypingSent = 0,
     typingTimer = None, stagedFile = False, inFlight = [], retryTimers = [], retrySnapshots = [], pageCalls = []\<rparr>"

lemma demo_ok: "pageOk (demoPage [] t)" "pageOk (demoPage [demoItem k u] t)"
  by (simp_all add: pageOk_def demoPage_def itemsOk_def demoItem_def itemOk_received)

lemma demo_db: "messages (cacheDb exampleCache) = Some []" "dbOk (cacheDb exampleCache)" "\<not> txFails (cacheDb exampleCache)"
  using exampleDb_ok by (simp_all add: exampleCache_def) (simp add: exampleDb_def)

theorem messages_listed_once_witness:
  "distinct (map msgId (items (fold pageStep [EMessage demoPageEnv (demoArrival ''m1'' ''hi''), EMessage demoPageEnv (demoArrival ''m1'' ''hi'')] (demoPage [] []))))"
  using messages_listed_once [OF demo_ok(1), of "[]" "[EMessage demoPageEnv (demoArrival ''m1'' ''hi''), EMessage demoPageEnv (demoArrival ''m1'' ''hi'')]"]
  by (simp add: eventOk_def demoArrival_def startsWith_def)

theorem failed_encryption_sends_plaintext_witness:
  "sentTexts (handleSendMessage demoPageEnv Rejected [] (demoPage [] ''secret'')) = [''secret'']"
proof -
  have t: "trim (inputText (demoPage [] ''secret'')) = ''secret''" by (simp add: demoPage_def) code_simp
  have w: "\<not> isWireFallback ''secret''" by code_simp
  have r: "sealPayload demoPageEnv ''secret'' (activeChannelId (demoPage [] ''secret'')) (myUserId (demoPage [] ''secret'')) = Rejected"
    by (simp add: sealPayload_def sealDirect_def demoPageEnv_def)
  have p: "''secret'' = textPayload (trim (inputText (demoPage [] ''secret''))) (replyingTo (demoPage [] ''secret''))"
    unfolding t by (simp add: textPayload_def demoPage_def)
  have e: "editingMessage (demoPage [] ''secret'') = None" "\<not> stagedFile (demoPage [] ''secret'')"
    "sentTexts (demoPage [] ''secret'') = []" by (simp_all add: demoPage_def sentTexts_def List.map_filter_simps)
  show ?thesis
    using failed_encryption_sends_plaintext [OF e(1,2) _ p r w refl, of Rejected "[]"] t e(3) by simp
qed

theorem unacknowledged_marked_sent_witness:
  "pageCalls (pageStep (ERetryTimer ''k'') (pageStep (ESettled False (''k'', True)) ((demoPage [] [])\<lparr>inFlight := [(''k'', True)]\<rparr>))) = []"
  using unacknowledged_marked_sent [of "''k''" "(demoPage [] [])\<lparr>inFlight := [(''k'', True)]\<rparr>", OF _ refl]
  by (simp add: demoPage_def)

theorem typing_rate_witness:
  "int (starts (typed [(10000, ''h''), (10500, ''hi''), (13000, ''hi '')] (demoPage [] []))) - int (starts (demoPage [] [])) \<le> 2"
  using typing_rate [of 10000 13000 "[(10000, ''h''), (10500, ''hi''), (13000, ''hi '')]" "demoPage [] []"] by simp

lemma demo_open:
  "inChannelId (demoArrival k t) \<noteq> []" "inCiphertext (demoArrival k t) = Some t" "inClientMsgId (demoArrival k t) = k"
  "effectiveChannel ''alice'' (demoArrival k t) = ''bob''" "seqOf (demoArrival k t) = 1" "inSenderId (demoArrival k t) = ''bob''"
  by (simp_all add: demoArrival_def effectiveChannel_def isDirectForMe_def seqOf_def)

lemma demo_hi:
  "openCiphertext demoPageEnv ''alice'' ''bob'' ''hi'' = Done \<lparr>openedBody = ''hi'', openedEncrypted = True, openedFallback = False, openedWarning = None, openedFingerprint = None\<rparr>"
  "readInner f ''hi'' = Some \<lparr>shText = Some ''hi'', shReply = None, shAttachment = None\<rparr>" "\<not> masked ''hi''" "\<not> startsWith ''hi'' ''{''"
proof -
  have "\<not> isMlsText ''hi'' ''bob''" by code_simp
  then show "openCiphertext demoPageEnv ''alice'' ''bob'' ''hi'' = Done \<lparr>openedBody = ''hi'', openedEncrypted = True, openedFallback = False, openedWarning = None, openedFingerprint = None\<rparr>"
    by (simp add: openCiphertext_def demoPageEnv_def)
  show s: "\<not> startsWith ''hi'' ''{''" by code_simp
  show "readInner f ''hi'' = Some \<lparr>shText = Some ''hi'', shReply = None, shAttachment = None\<rparr>"
    using s by (simp add: readInner_def Let_def)
  show "\<not> masked ''hi''" by code_simp
qed

theorem one_receipt_each_witness:
  "receiptsOf (onMessage demoPageEnv (demoArrival ''m1'' ''hi'') (demoPage [] [])) = [SendReadReceipt ''bob'' ''m1'' 1]"
proof -
  have m: "myUserId (demoPage [] []) = ''alice''" "activeChannelId (demoPage [] []) = ''bob''" "receiptsOf (demoPage [] []) = []"
    by (simp_all add: demoPage_def receiptsOf_def)
  show ?thesis
    using one_receipt_each [OF demo_open(1,2) _ _ _ _ refl, of "''hi''" "''bob''" "demoPage [] []" "''m1''" demoPageEnv] demo_hi
    by (simp add: m demo_open)
qed

theorem redelivery_resets_witness:
  "\<exists>x. idbMsg (cacheDb (pageCache (onMessage demoPageEnv (demoArrival ''m1'' ''hi'') (demoPage [tombstone 5 ''bob'' (demoItem ''m1'' ''hi'')] [])))) ''m1''
     = Some x \<and> \<not> isDeleted x \<and> \<not> isEdited x \<and> \<not> isPinned x \<and> reactions x = Some []"
proof -
  define m where "m = tombstone 5 ''bob'' (demoItem ''m1'' ''hi'')"
  have m: "msgId m = ''m1''" by (simp add: m_def itemOk_changes demoItem_def receivedItem_def demoArrival_def)
  have ok: "pageOk (demoPage [m] [])"
    by (simp add: pageOk_def demoPage_def itemsOk_def m_def itemOk_changes demoItem_def itemOk_received)
  have p: "m \<in> set (items (demoPage [m] []))" "myUserId (demoPage [m] []) = ''alice''" "pageCache (demoPage [m] []) = exampleCache"
    by (simp_all add: demoPage_def)
  have n: "inClientMsgId (demoArrival ''m1'' ''hi'') = msgId m" "msgId m \<noteq> []" "\<not> startsWith (msgId m) ''notice_''"
    by (simp_all add: m demo_open startsWith_def)
  have c: "''bob'' = effectiveChannel (myUserId (demoPage [m] [])) (demoArrival ''m1'' ''hi'')" by (simp add: p demo_open)
  have d: "messages (cacheDb (pageCache (demoPage [m] []))) = Some []" "\<not> txFails (cacheDb (pageCache (demoPage [m] [])))"
    "dbOk (cacheDb (pageCache (demoPage [m] [])))" using demo_db by (simp_all add: p)
  have o: "openCiphertext demoPageEnv (myUserId (demoPage [m] [])) ''bob'' ''hi''
      = Done \<lparr>openedBody = ''hi'', openedEncrypted = True, openedFallback = False, openedWarning = None, openedFingerprint = None\<rparr>"
    by (simp add: p demo_hi)
  show ?thesis
    using redelivery_resets [OF ok p(1) n demo_open(1,2) _ c o _ _ _ _ d refl, of "''hi''"] demo_hi m
    by (simp add: m_def [symmetric])
qed

definition demoOpened :: openedText where
  "demoOpened = \<lparr>openedBody = ''hi'', openedEncrypted = True, openedFallback = False, openedWarning = None, openedFingerprint = None\<rparr>"

definition demoShown :: MessageItem where
  "demoShown = receivedItem demoPageEnv ''bob'' 0 (demoArrival ''m1'' ''hi'') (Some demoOpened)
     \<lparr>shText = Some ''hi'', shReply = None, shAttachment = None\<rparr>"

lemma demo_arrives:
  assumes "myUserId s = ''alice''" "conversationTtls s = []"
  shows "items (onMessage demoPageEnv (demoArrival ''m1'' ''hi'') s) = upsertItem demoShown (items s)"
proof -
  have o: "openCiphertext demoPageEnv ''alice'' ''bob'' ''hi'' = Done demoOpened" by (simp add: demo_hi demoOpened_def)
  have r: "readInner f (openedBody demoOpened) = Some \<lparr>shText = Some ''hi'', shReply = None, shAttachment = None\<rparr>" for f
    by (simp add: demoOpened_def demo_hi)
  have t: "effectiveTtl (inTtl (demoArrival ''m1'' ''hi'')) ''bob'' [] = 0" by (simp add: effectiveTtl_def demoArrival_def)
  show ?thesis
    unfolding onMessage_def Let_def assms demo_open demoShown_def
    using demo_open(1) by (simp add: o r t)
qed

theorem retry_loses_message_witness:
  "''m1'' \<notin> msgId ` set (items (retryDone demoPageEnv 0 (onMessage demoPageEnv (demoArrival ''m1'' ''hi'')
     (sessionReady (demoPage [demoItem ''m0'' pendingNotice] [])))))"
proof -
  define m where "m = demoItem ''m0'' pendingNotice"
  define s where "s = demoPage [m] []"
  have f: "myUserId s = ''alice''" "items s = [m]" "retrySnapshots s = []" "conversationTtls s = []" by (simp_all add: s_def demoPage_def)
  have m: "msgId m = ''m0''" "clientMsgId m = ''m0''" "rawCiphertext m = Some pendingNotice" "msgText m = Some pendingNotice"
    by (simp_all add: m_def demoItem_def receivedItem_def demoArrival_def)
  have "masked pendingNotice \<and> pendingNotice \<noteq> []" by code_simp
  then have need: "list_ex needsRetry (items s)" by (simp add: f needsRetry_def m strOr_def)
  have n: "msgId demoShown = ''m1''" "clientMsgId demoShown = ''m1''" by (simp_all add: demoShown_def receivedItem_def demoArrival_def)
  have i: "items (onMessage demoPageEnv (demoArrival ''m1'' ''hi'') (sessionReady s)) = items s @ [demoShown]"
    by (subst demo_arrives) (simp_all add: sessionReady_def f upsertItem_def sameMessage_def m n)
  have d: "\<exists>ms. allDone (map (retryItem demoPageEnv a u) (items s)) = Done ms" for a u
    unfolding f by (simp add: retryItem_def demoPageEnv_def split: option.splits)
  have ok: "pageOk s" using demo_ok(2) by (simp add: s_def m_def)
  obtain ms where ms: "allDone (map (retryItem demoPageEnv (activeChannelId (onMessage demoPageEnv (demoArrival ''m1'' ''hi'') (sessionReady s)))
      (myUserId (onMessage demoPageEnv (demoArrival ''m1'' ''hi'') (sessionReady s)))) (items s)) = Done ms" using d by blast
  have "msgId demoShown \<notin> msgId ` set (items (retryDone demoPageEnv 0 (onMessage demoPageEnv (demoArrival ''m1'' ''hi'') (sessionReady s))))"
    using retry_loses_message [OF _ need f(3) i _ ok refl ms] f n m by simp
  then show ?thesis by (simp add: n s_def m_def)
qed


section \<open>Deleted messages\<close>

text \<open>
  A message that was deleted for everyone is readable again after a reload: the tombstone keeps the cipher text
  in the record, and opening the conversation decrypts every cipher text of the protocols that it finds, so the
  loaded message, still marked as deleted, has its text back.
\<close>

theorem deleted_text_returns:
  assumes "dbOk d" "\<not> txFails d" "idbMsg d k = Some m" "rawCiphertext m = Some ct" "startsWith ct protocolPrefix"
    and "d' = markMessageDeleted now k c who Everyone d" "idbMsg d' k = Some m'"
    and "directOpen env ct c me = Done r" "opensClear r"
  shows "msgText m' = None \<and> isDeleted m'
    \<and> (\<exists>x. reopenItem env c me m' = Done x \<and> msgText x = Some (openedBody r) \<and> isDeleted x)"
proof -
  have "idbMsg d' k = map_option (tombstone now who) (idbMsg d k)"
    using idbMsg_ops(2) [OF assms(1,2)] unfolding assms(6) by simp
  with assms(3,7) have m': "m' = tombstone now who m" by simp
  have ct: "ct \<noteq> []" using assms(5) by (auto simp: startsWith_def protocolPrefix_def)
  have "reopenItem env c me m' = Done (m'\<lparr>msgText := Some (openedBody r), rawCiphertext := Some ct, itemEncrypted := True\<rparr>)"
    using assms(4,5,8,9) ct by (simp add: reopenItem_def m' tombstone_def strOr_def)
  then show ?thesis by (simp add: m' tombstone_def)
qed

theorem deleted_text_returns_witness:
  "\<exists>x. reopenItem (demoPageEnv\<lparr>directOpen := \<lambda>w c u. Done demoOpened\<rparr>) ''bob'' ''alice''
      (tombstone 4 ''bob'' ((demoItem ''m1'' ''hi'')\<lparr>rawCiphertext := Some protocolPrefix\<rparr>)) = Done x
    \<and> msgText x = Some ''hi'' \<and> isDeleted x"
proof -
  let ?m = "(demoItem ''m1'' ''hi'')\<lparr>rawCiphertext := Some protocolPrefix\<rparr>"
  let ?d = "exampleDb\<lparr>messages := Some [(''m1'', ?m)]\<rparr>"
  have d: "dbOk ?d" "\<not> txFails ?d" "idbMsg ?d ''m1'' = Some ?m"
    by (simp_all add: exampleDb_def dbOk_def storeOk_def wfIdb_def wfMap_def idbMsg_def idbGet_def) (simp add: demoItem_def receivedItem_def demoArrival_def)
  have p: "startsWith protocolPrefix protocolPrefix" by (simp add: startsWith_def)
  have q: "\<not> startsWith ''hi'' protocolPrefix" by code_simp
  have "idbMsg (markMessageDeleted 4 ''m1'' ''bob'' ''bob'' Everyone ?d) ''m1'' = Some (tombstone 4 ''bob'' ?m)"
    using idbMsg_ops(2) [OF d(1,2)] d(3) by simp
  from deleted_text_returns [OF d _ p refl this, of "demoPageEnv\<lparr>directOpen := \<lambda>w c u. Done demoOpened\<rparr>" "''alice''" demoOpened] q
  show ?thesis by (simp add: opensClear_def) (simp add: demoOpened_def)
qed

end
