(* ===== verification/Chat_Calls.thy ===== *)
theory Chat_Calls
  imports Group_Call
begin

text \<open>
  The calls of the chat page, \<open>packages/client-web/src/pages/ChatPage.tsx\<close>: the state machine of a call
  with one user and of a group call, the call signals of other users, and the managers of
  \<open>Webrtc_Call\<close> and \<open>Group_Call\<close> that the handlers create, with the callbacks they are given.

  Every manager that was ever created is kept, \<open>webrtcRef\<close> and \<open>groupRtcRef\<close> hold the number of
  the current one: the callbacks of an earlier manager still reach the page. A handler that waits (for the
  ICE servers, for the camera) leaves a \<open>callTask\<close> behind, which ends later whatever happened in
  between. The refs that mirror a state variable are that variable. The socket object exists (the
  effect of the first render creates it).
\<close>

section \<open>State\<close>

datatype callPhase = CallIdle | CallIncoming | CallOutgoing | CallConnected

text \<open>\<open>CallSignalEvent\<close>; an absent text is the empty one\<close>

record callSignal =
  signalType :: string
  sigCallId :: string
  sigChannelId :: string
  sigSenderId :: string
  sigTarget :: string
  sigVideo :: "bool option"
  sigSdp :: string
  sigCandidate :: string

definition plainSignal :: "string \<Rightarrow> string \<Rightarrow> callSignal" where
  "plainSignal kind c = \<lparr>signalType = kind, sigCallId = c, sigChannelId = [], sigSenderId = [], sigTarget = [],
     sigVideo = None, sigSdp = [], sigCandidate = []\<rparr>"

text \<open>What the callbacks of a manager remember\<close>

record callOwner =
  ownCall :: string
  ownPeer :: string
  ownCaller :: bool
  ownVideo :: bool
  ownServers :: "string list"

record groupOwner =
  grpCall :: string
  grpChannel :: string
  grpVideo :: bool
  grpServers :: "string list"

text \<open>
  The suspended handlers: waiting for the ICE servers (of a start, or of an acceptance with the offer)
  or for the local media of a manager.
\<close>

datatype callTask =
  StartServers string string bool | AcceptServers string string string bool
| StartCamera nat | AcceptCamera nat string
| GroupServers string string bool bool | GroupCamera nat bool

record ongoingCall =
  ongoingCallId :: string
  ongoingVideo :: bool
  participantCount :: int
  startedBy :: string

record callPage =
  callState :: callPhase
  callVideo :: bool
  activeCallId :: string
  activeCallPeer :: string
  callMuted :: bool
  callVideoOff :: bool
  callMinimized :: bool
  localShown :: "(nat \<times> nat list) option"
  remoteShown :: "(nat \<times> nat list) option"
  webrtcRef :: "nat option"
  pendingOffer :: "(string \<times> bool) option"
  earlyCandidates :: "string list"
  managers :: "(callOwner \<times> rtcState) list"
  callTasks :: "(nat \<times> callTask) list"
  nextCallTask :: nat
  groupActive :: bool
  activeGroupCall :: "string option"
  groupChannel :: "string option"
  groupVideo :: bool
  groupMuted :: bool
  groupVideoOff :: bool
  groupSharing :: bool
  groupMinimized :: bool
  groupLocal :: "(nat \<times> nat list) option"
  groupRemote :: "(nat \<times> nat list) jsmap"
  groupSpeaker :: "string option"
  groupRtcRef :: "nat option"
  groupManagers :: "(groupOwner \<times> groupState) list"
  ongoingCalls :: "ongoingCall jsmap"
  sentSignals :: "callSignal list"
  alerts :: nat

definition sendSignal :: "callSignal \<Rightarrow> callPage \<Rightarrow> callPage" where
  "sendSignal g s = s\<lparr>sentSignals := sentSignals s @ [g]\<rparr>"

definition waitFor :: "callTask \<Rightarrow> callPage \<Rightarrow> callPage" where
  "waitFor t s = s\<lparr>callTasks := callTasks s @ [(nextCallTask s, t)], nextCallTask := nextCallTask s + 1\<rparr>"

definition alertUser :: "callPage \<Rightarrow> callPage" where
  "alertUser s = s\<lparr>alerts := alerts s + 1\<rparr>"

section \<open>Ending a call\<close>

definition hangupCurrent :: "callPage \<Rightarrow> callPage" where
  "hangupCurrent s =
     (case webrtcRef s of
        Some i \<Rightarrow> s\<lparr>managers := (managers s)[i := (fst (managers s ! i), hangup (snd (managers s ! i)))], webrtcRef := None\<rparr>
      | None \<Rightarrow> s)"

definition clearCall :: "callPage \<Rightarrow> callPage" where
  "clearCall s = s\<lparr>pendingOffer := None, earlyCandidates := [], callState := CallIdle, activeCallId := [], activeCallPeer := []\<rparr>"

definition dropCall :: "callPage \<Rightarrow> callPage" where
  "dropCall s = (clearCall (hangupCurrent s))\<lparr>localShown := None, remoteShown := None, callMinimized := False\<rparr>"

definition tellPeer :: "string \<Rightarrow> callPage \<Rightarrow> callPage" where
  "tellPeer kind s =
     (if activeCallPeer s \<noteq> [] \<and> activeCallId s \<noteq> []
      then sendSignal ((plainSignal kind (activeCallId s))\<lparr>sigTarget := activeCallPeer s\<rparr>) s else s)"

definition handleEndCall :: "callPage \<Rightarrow> callPage" where
  "handleEndCall s = dropCall (tellPeer ''hangup'' s)"

definition handleRejectCall :: "callPage \<Rightarrow> callPage" where
  "handleRejectCall s = clearCall (tellPeer ''reject'' s)"

text \<open>The timer of 45 seconds: it runs while the state is outgoing or incoming.\<close>

definition ringTimeout :: "callPage \<Rightarrow> callPage" where
  "ringTimeout s =
     (case callState s of
        CallOutgoing \<Rightarrow> alertUser (handleEndCall s)
      | CallIncoming \<Rightarrow> clearCall s
      | _ \<Rightarrow> s)"

section \<open>The callbacks of a manager\<close>

definition onNotice :: "nat \<Rightarrow> callOwner \<Rightarrow> rtcNotice \<Rightarrow> callPage \<Rightarrow> callPage" where
  "onNotice i o' n s =
     (let signal = plainSignal [] (ownCall o')
      in case n of
           NLocalStream ids \<Rightarrow> s\<lparr>localShown := Some (i, ids)\<rparr>
         | NRemoteStream ids \<Rightarrow> s\<lparr>remoteShown := Some (i, ids)\<rparr>
         | NIceCandidate c \<Rightarrow> sendSignal (signal\<lparr>signalType := ''ice_candidate'', sigTarget := ownPeer o', sigCandidate := c\<rparr>) s
         | NState st \<Rightarrow>
             if st = ''connected'' then s\<lparr>callState := CallConnected\<rparr>
             else if st = ''failed'' then handleEndCall s else s
         | NError \<Rightarrow> handleEndCall (if ownCaller o' then alertUser s else s)
         | NReturned SdpOffer d \<Rightarrow>
             sendSignal (signal\<lparr>signalType := ''offer'', sigTarget := ownPeer o', sigVideo := Some (ownVideo o'), sigSdp := d\<rparr>) s
         | NReturned SdpAnswer d \<Rightarrow> sendSignal (signal\<lparr>signalType := ''answer'', sigTarget := ownPeer o', sigSdp := d\<rparr>) s
         | NThrown \<Rightarrow> s)"

text \<open>An event of a manager, followed by the callbacks it makes\<close>

definition callbacks :: "nat \<Rightarrow> rtcState \<Rightarrow> callPage \<Rightarrow> callPage" where
  "callbacks i m' s =
     (let e = managers s ! i
      in fold (onNotice i (fst e)) (drop (length (notices (snd e))) (notices m')) (s\<lparr>managers := (managers s)[i := (fst e, m')]\<rparr>))"

definition atManager :: "nat \<Rightarrow> callEvent \<Rightarrow> callPage \<Rightarrow> callPage" where
  "atManager i ev s = callbacks i (callStep ev (snd (managers s ! i))) s"

fun answerTask :: "rtcTask \<Rightarrow> bool" where
  "answerTask (RemoteSet k d) = (k = SdpAnswer)"
| "answerTask (Draining k) = (k = SdpAnswer)"
| "answerTask _ = False"

text \<open>
  The browser resumes an operation of a manager. When the operation throws, the handler that started
  it ends the call, except the handler of an answer, which stops; when the handling of an answer
  ends, its handler sets the state.
\<close>

definition resumeManager :: "nat \<Rightarrow> bool \<Rightarrow> nat \<Rightarrow> rtcAnswer \<Rightarrow> callPage \<Rightarrow> callPage" where
  "resumeManager i encodings n a s =
     (let m = snd (managers s ! i); m' = callStep (Resume encodings n a) m; s1 = callbacks i m' s;
          thrown = (NThrown \<in> set (drop (length (notices m)) (notices m')))
      in case map_of (rtcTasks m) n of
           None \<Rightarrow> s1
         | Some (j, t) \<Rightarrow>
             if \<not> pcOpen (rtcConns m ! j) then s1
             else if answerTask t
             then (if thrown \<or> nextTask m' \<noteq> nextTask m then s1 else s1\<lparr>callState := CallConnected\<rparr>)
             else if thrown then handleEndCall s1 else s1)"

fun browserEvent :: "callEvent \<Rightarrow> bool" where
  "browserEvent (TrackArrives k x i) = True"
| "browserEvent (CandidateFound c i) = True"
| "browserEvent (StateChanged st) = True"
| "browserEvent _ = False"

section \<open>Starting and accepting a call\<close>

text \<open>\<open>peer\<close> is the user of the conversation that is shown, if it is a direct one.\<close>

definition handleStartCall :: "string option \<Rightarrow> string \<Rightarrow> bool \<Rightarrow> callPage \<Rightarrow> callPage" where
  "handleStartCall peer callId video s =
     (case peer of
        None \<Rightarrow> s
      | Some p \<Rightarrow>
          waitFor (StartServers callId p video)
            (s\<lparr>activeCallId := callId, activeCallPeer := p, callVideo := video, callState := CallOutgoing, callMinimized := False,
               callMuted := False, callVideoOff := False\<rparr>))"

definition handleAcceptCall :: "callPage \<Rightarrow> callPage" where
  "handleAcceptCall s =
     (case pendingOffer s of
        None \<Rightarrow> s
      | Some (sdp, video) \<Rightarrow>
          waitFor (AcceptServers sdp (activeCallId s) (activeCallPeer s) video)
            (s\<lparr>callState := CallConnected, callVideo := video, callMuted := False, callVideoOff := False\<rparr>))"

definition addManager :: "callOwner \<Rightarrow> callPage \<Rightarrow> callPage" where
  "addManager o' s = s\<lparr>managers := managers s @ [(o', newManager)], webrtcRef := Some (length (managers s))\<rparr>"

text \<open>The early candidates go into the queue of the new manager.\<close>

definition drainEarly :: "nat \<Rightarrow> callPage \<Rightarrow> callPage" where
  "drainEarly i s =
     (fold (\<lambda>c. atManager i (CandidateArrives c)) (filter (\<lambda>c. c \<noteq> []) (earlyCandidates s)) s)\<lparr>earlyCandidates := []\<rparr>"

text \<open>
  The local media of a manager arrive, or not. A failure ends the call (once more after the
  callback, which ended it already).
\<close>

definition cameraReady :: "nat \<Rightarrow> bool \<Rightarrow> mediaAnswers \<Rightarrow> callEvent \<Rightarrow> callPage \<Rightarrow> callPage" where
  "cameraReady i fallback m next s =
     (let e = managers s ! i
      in case startLocalStream (ownVideo (fst e)) fallback m (snd e) of
           (Inl err, m') \<Rightarrow> handleEndCall (callbacks i m' s)
         | (Inr ids, m') \<Rightarrow> atManager i next (callbacks i m' s))"

section \<open>Group calls\<close>

definition ongoingStarted :: "string \<Rightarrow> ongoingCall \<Rightarrow> callPage \<Rightarrow> callPage" where
  "ongoingStarted c g s = s\<lparr>ongoingCalls := jsSet c g (ongoingCalls s)\<rparr>"

text \<open>\<open>handleStartGroupCall\<close> (with a new identifier) and \<open>handleJoinGroupCall\<close>\<close>

definition enterGroupCall :: "string \<Rightarrow> string \<Rightarrow> bool \<Rightarrow> bool \<Rightarrow> callPage \<Rightarrow> callPage" where
  "enterGroupCall channel callId video starts s =
     (if channel = [] then s
      else waitFor (GroupServers callId channel video starts)
             (s\<lparr>groupActive := True, activeGroupCall := Some callId, groupChannel := Some channel, groupVideo := video,
                groupMinimized := False, groupMuted := False, groupVideoOff := False, groupSharing := False, groupRemote := []\<rparr>))"

definition addGroupManager :: "groupOwner \<Rightarrow> callPage \<Rightarrow> callPage" where
  "addGroupManager o' s = s\<lparr>groupManagers := groupManagers s @ [(o', newGroup)], groupRtcRef := Some (length (groupManagers s))\<rparr>"

definition groupSignal :: "groupOwner \<Rightarrow> string \<Rightarrow> signal \<Rightarrow> callSignal" where
  "groupSignal o' peer g =
     (let b = (plainSignal [] (grpCall o'))\<lparr>sigChannelId := grpChannel o', sigTarget := peer, sigVideo := Some (grpVideo o')\<rparr>
      in case g of
           OfferSignal d \<Rightarrow> b\<lparr>signalType := ''offer'', sigSdp := d\<rparr>
         | AnswerSignal d \<Rightarrow> b\<lparr>signalType := ''answer'', sigSdp := d\<rparr>
         | CandidateSignal c \<Rightarrow> b\<lparr>signalType := ''ice_candidate'', sigCandidate := c\<rparr>)"

definition onGroupNotice :: "nat \<Rightarrow> groupOwner \<Rightarrow> groupNotice \<Rightarrow> callPage \<Rightarrow> callPage" where
  "onGroupNotice i o' n s =
     (case n of
        GLocalStream ids \<Rightarrow> s\<lparr>groupLocal := Some (i, ids)\<rparr>
      | GPeerStream p ids \<Rightarrow> s\<lparr>groupRemote := jsSet p (i, ids) (groupRemote s)\<rparr>
      | GPeerLeft p \<Rightarrow> s\<lparr>groupRemote := jsDelete p (groupRemote s)\<rparr>
      | GActiveSpeaker p \<Rightarrow> s\<lparr>groupSpeaker := p\<rparr>
      | GSignal p g \<Rightarrow> sendSignal (groupSignal o' p g) s
      | GError \<Rightarrow> s)"

definition groupCallbacks :: "nat \<Rightarrow> groupState \<Rightarrow> callPage \<Rightarrow> callPage" where
  "groupCallbacks i m' s =
     (let e = groupManagers s ! i
      in fold (onGroupNotice i (fst e)) (drop (length (gNotices (snd e))) (gNotices m'))
           (s\<lparr>groupManagers := (groupManagers s)[i := (fst e, m')]\<rparr>))"

definition atGroup :: "nat \<Rightarrow> groupEvent \<Rightarrow> callPage \<Rightarrow> callPage" where
  "atGroup i ev s = groupCallbacks i (groupStep ev (snd (groupManagers s ! i))) s"

text \<open>\<open>groupRtcRef.current?.\<dots>\<close>\<close>

definition atCurrentGroup :: "(string list \<Rightarrow> groupEvent) \<Rightarrow> callPage \<Rightarrow> callPage" where
  "atCurrentGroup ev s =
     (case groupRtcRef s of Some i \<Rightarrow> atGroup i (ev (grpServers (fst (groupManagers s ! i)))) s | None \<Rightarrow> s)"

definition handleLeaveGroupCall :: "callPage \<Rightarrow> callPage" where
  "handleLeaveGroupCall s =
     (let s1 = (case (activeGroupCall s, groupChannel s) of
                  (Some c, Some ch) \<Rightarrow>
                    if c \<noteq> [] \<and> ch \<noteq> [] then sendSignal ((plainSignal ''group_leave'' c)\<lparr>sigChannelId := ch\<rparr>) s else s
                | _ \<Rightarrow> s)
      in (atCurrentGroup (\<lambda>_. GLeave) s1)\<lparr>groupRtcRef := None, groupActive := False, activeGroupCall := None, groupChannel := None,
           groupMinimized := False, groupLocal := None, groupRemote := [], groupSpeaker := None\<rparr>)"

fun groupBrowserEvent :: "groupEvent \<Rightarrow> bool" where
  "groupBrowserEvent (GKey p k) = True"
| "groupBrowserEvent (GResume n a) = True"
| "groupBrowserEvent (GTrack k p j) = True"
| "groupBrowserEvent (GCandidateFound c p) = True"
| "groupBrowserEvent (GStateChange st p) = True"
| "groupBrowserEvent (GPoll l f) = True"
| "groupBrowserEvent _ = False"

text \<open>The controls of the running calls\<close>

definition handleToggleCallMute :: "callPage \<Rightarrow> callPage" where
  "handleToggleCallMute s =
     (case webrtcRef s of
        None \<Rightarrow> s
      | Some i \<Rightarrow> (case toggleAudio None (snd (managers s ! i)) of (b, m') \<Rightarrow> (callbacks i m' s)\<lparr>callMuted := b\<rparr>))"

definition handleToggleCallVideo :: "callPage \<Rightarrow> callPage" where
  "handleToggleCallVideo s =
     (case webrtcRef s of
        None \<Rightarrow> s
      | Some i \<Rightarrow> (case toggleVideo None (snd (managers s ! i)) of (b, m') \<Rightarrow> (callbacks i m' s)\<lparr>callVideoOff := b\<rparr>))"

definition handleToggleGroupMute :: "callPage \<Rightarrow> callPage" where
  "handleToggleGroupMute s =
     (case groupRtcRef s of
        None \<Rightarrow> s
      | Some i \<Rightarrow> (case groupToggleAudio (snd (groupManagers s ! i)) of (b, m') \<Rightarrow> (groupCallbacks i m' s)\<lparr>groupMuted := b\<rparr>))"

definition handleToggleGroupVideo :: "callPage \<Rightarrow> callPage" where
  "handleToggleGroupVideo s =
     (case groupRtcRef s of
        None \<Rightarrow> s
      | Some i \<Rightarrow> (case groupToggleVideo (snd (groupManagers s ! i)) of (b, m') \<Rightarrow> (groupCallbacks i m' s)\<lparr>groupVideoOff := b\<rparr>))"

definition handleToggleGroupScreenShare :: "bool \<Rightarrow> trackKind list option \<Rightarrow> (string \<Rightarrow> bool) \<Rightarrow> callPage \<Rightarrow> callPage" where
  "handleToggleGroupScreenShare supported granted refuses s =
     (case groupRtcRef s of
        None \<Rightarrow> s
      | Some i \<Rightarrow>
          if groupSharing s
          then (case stopScreenShare refuses (snd (groupManagers s ! i)) of
                  (ok, m') \<Rightarrow> let s1 = groupCallbacks i m' s in if ok then s1\<lparr>groupSharing := False\<rparr> else s1)
          else (case startScreenShare supported granted refuses (snd (groupManagers s ! i)) of
                  (Unsupported, m') \<Rightarrow> groupCallbacks i m' s
                | (Shared ids, m') \<Rightarrow> (groupCallbacks i m' s)\<lparr>groupSharing := True\<rparr>
                | (NotShared, m') \<Rightarrow> (groupCallbacks i m' s)\<lparr>groupSharing := False\<rparr>))"

section \<open>The suspended handlers go on\<close>

text \<open>
  What a handler was waiting for: the ICE servers, or the answers of the browser to the request for
  local media (for a group call, the tracks that were granted, those of the fallback, and whether
  there is an audio context).
\<close>

datatype callAnswer =
  Servers "string list" | Media bool mediaAnswers | GroupMedia "trackKind list option" "trackKind list" bool

definition groupReady :: "nat \<Rightarrow> bool \<Rightarrow> string \<Rightarrow> callPage \<Rightarrow> callPage" where
  "groupReady i starts me s =
     (let o' = fst (groupManagers s ! i);
          s1 = sendSignal ((plainSignal ''group_join'' (grpCall o'))\<lparr>sigChannelId := grpChannel o', sigVideo := Some (grpVideo o')\<rparr>) s
      in if starts
         then ongoingStarted (grpChannel o')
                \<lparr>ongoingCallId = grpCall o', ongoingVideo = grpVideo o', participantCount = 1, startedBy = me\<rparr> s1
         else s1)"

definition goOn :: "string \<Rightarrow> callTask \<Rightarrow> callAnswer \<Rightarrow> callPage \<Rightarrow> callPage" where
  "goOn me t a s =
     (case (t, a) of
        (StartServers c p v, Servers ice) \<Rightarrow>
          waitFor (StartCamera (length (managers s)))
            (addManager \<lparr>ownCall = c, ownPeer = p, ownCaller = True, ownVideo = v, ownServers = ice\<rparr> s)
      | (AcceptServers sdp c p v, Servers ice) \<Rightarrow>
          waitFor (AcceptCamera (length (managers s)) sdp)
            (drainEarly (length (managers s))
              (addManager \<lparr>ownCall = c, ownPeer = p, ownCaller = False, ownVideo = v, ownServers = ice\<rparr> s))
      | (StartCamera i, Media fallback m) \<Rightarrow>
          cameraReady i fallback m (CreateOffer (ownServers (fst (managers s ! i)))) s
      | (AcceptCamera i sdp, Media fallback m) \<Rightarrow>
          cameraReady i fallback m (OfferArrives (ownServers (fst (managers s ! i))) sdp) s
      | (GroupServers c ch v starts, Servers ice) \<Rightarrow>
          waitFor (GroupCamera (length (groupManagers s)) starts)
            (addGroupManager \<lparr>grpCall = c, grpChannel = ch, grpVideo = v, grpServers = ice\<rparr> s)
      | (GroupCamera i starts, GroupMedia granted fallback webAudio) \<Rightarrow>
          groupReady i starts me (atGroup i (GStartMedia granted fallback webAudio) s)
      | _ \<Rightarrow> s)"

fun answersTask :: "callTask \<Rightarrow> callAnswer \<Rightarrow> bool" where
  "answersTask (StartServers c p v) (Servers ice) = True"
| "answersTask (AcceptServers d c p v) (Servers ice) = True"
| "answersTask (GroupServers c ch v b) (Servers ice) = True"
| "answersTask (StartCamera i) (Media f m) = True"
| "answersTask (AcceptCamera i d) (Media f m) = True"
| "answersTask (GroupCamera i b) (GroupMedia g f w) = True"
| "answersTask _ _ = False"

definition resumeCall :: "string \<Rightarrow> nat \<Rightarrow> callAnswer \<Rightarrow> callPage \<Rightarrow> callPage" where
  "resumeCall me n a s =
     (case map_of (callTasks s) n of
        None \<Rightarrow> s
      | Some t \<Rightarrow> if answersTask t a then goOn me t a (s\<lparr>callTasks := filter (\<lambda>e. fst e \<noteq> n) (callTasks s)\<rparr>) else s)"

section \<open>The signals of other users\<close>

definition channelOf :: "callSignal \<Rightarrow> string" where
  "channelOf g = (if sigChannelId g \<noteq> [] then sigChannelId g else sigCallId g)"

definition videoOf :: "callSignal \<Rightarrow> bool" where
  "videoOf g = (case sigVideo g of Some v \<Rightarrow> v | None \<Rightarrow> True)"

definition countJoin :: "string \<Rightarrow> callSignal \<Rightarrow> ongoingCall jsmap \<Rightarrow> ongoingCall jsmap" where
  "countJoin me g calls =
     (let current = (case jsGet calls (channelOf g) of
                       Some x \<Rightarrow> x
                     | None \<Rightarrow> \<lparr>ongoingCallId = sigCallId g, ongoingVideo = videoOf g, participantCount = 1, startedBy = sigSenderId g\<rparr>);
          n = (if participantCount current = 0 then 1 else participantCount current)
      in jsSet (channelOf g) (current\<lparr>participantCount := max 1 (n + (if sigSenderId g \<noteq> me then 1 else 0))\<rparr>) calls)"

definition countLeave :: "callSignal \<Rightarrow> ongoingCall jsmap \<Rightarrow> ongoingCall jsmap" where
  "countLeave g calls =
     (case jsGet calls (channelOf g) of
        None \<Rightarrow> calls
      | Some x \<Rightarrow> let n = max 0 (participantCount x - 1)
                  in if n = 0 then jsDelete (channelOf g) calls else jsSet (channelOf g) (x\<lparr>participantCount := n\<rparr>) calls)"

definition onGroupJoin :: "string \<Rightarrow> callSignal \<Rightarrow> callPage \<Rightarrow> callPage" where
  "onGroupJoin me g s =
     (let s1 = s\<lparr>ongoingCalls := countJoin me g (ongoingCalls s)\<rparr>
      in if groupActive s \<and> activeGroupCall s = Some (sigCallId g) \<and> sigSenderId g \<noteq> [] \<and> sigSenderId g \<noteq> me
         then atCurrentGroup (\<lambda>ice. GAddPeer ice (sigSenderId g) True) s1 else s1)"

definition onGroupLeave :: "callSignal \<Rightarrow> callPage \<Rightarrow> callPage" where
  "onGroupLeave g s =
     (let s1 = (if sigSenderId g \<noteq> []
                then let s' = atCurrentGroup (\<lambda>_. GRemovePeer (sigSenderId g)) s
                     in s'\<lparr>groupRemote := jsDelete (sigSenderId g) (groupRemote s')\<rparr>
                else s)
      in s1\<lparr>ongoingCalls := countLeave g (ongoingCalls s1)\<rparr>)"

definition groupNegotiation :: "callSignal \<Rightarrow> callPage \<Rightarrow> callPage" where
  "groupNegotiation g s =
     (if signalType g = ''offer'' \<and> sigSdp g \<noteq> [] \<and> sigSenderId g \<noteq> []
      then atCurrentGroup (\<lambda>ice. GOfferArrives ice (sigSenderId g) (sigSdp g)) s
      else if signalType g = ''answer'' \<and> sigSdp g \<noteq> [] \<and> sigSenderId g \<noteq> []
      then atCurrentGroup (\<lambda>_. GAnswerArrives (sigSenderId g) (sigSdp g)) s
      else if signalType g = ''ice_candidate'' \<and> sigCandidate g \<noteq> [] \<and> sigSenderId g \<noteq> []
      then atCurrentGroup (\<lambda>_. GCandidateArrives (sigSenderId g) (sigCandidate g)) s
      else s)"

text \<open>An answer without a manager, or for a manager without a connection, is over at once.\<close>

definition answerCall :: "callSignal \<Rightarrow> callPage \<Rightarrow> callPage" where
  "answerCall g s =
     (case webrtcRef s of
        None \<Rightarrow> s\<lparr>callState := CallConnected\<rparr>
      | Some i \<Rightarrow> let s1 = atManager i (AnswerArrives (sigSdp g)) s
                  in if pc (snd (managers s ! i)) = None then s1\<lparr>callState := CallConnected\<rparr> else s1)"

definition directSignal :: "callSignal \<Rightarrow> callPage \<Rightarrow> callPage" where
  "directSignal g s =
     (if signalType g = ''offer'' \<and> sigSdp g \<noteq> []
      then s\<lparr>pendingOffer := Some (sigSdp g, videoOf g), activeCallId := sigCallId g,
             activeCallPeer := (if sigSenderId g \<noteq> [] then sigSenderId g else ''Unknown''), callVideo := videoOf g,
             callState := CallIncoming\<rparr>
      else if signalType g = ''answer'' \<and> sigSdp g \<noteq> [] then answerCall g s
      else if signalType g = ''ice_candidate'' \<and> sigCandidate g \<noteq> []
      then (case webrtcRef s of
              Some i \<Rightarrow> atManager i (CandidateArrives (sigCandidate g)) s
            | None \<Rightarrow> s\<lparr>earlyCandidates := earlyCandidates s @ [sigCandidate g]\<rparr>)
      else if signalType g \<in> {''hangup'', ''reject'', ''peer_offline''}
      then (if signalType g = ''hangup'' then dropCall s else alertUser (dropCall s))
      else s)"

definition onCallSignal :: "string \<Rightarrow> callSignal \<Rightarrow> callPage \<Rightarrow> callPage" where
  "onCallSignal me g s =
     (if signalType g = ''group_join'' then onGroupJoin me g s
      else if signalType g = ''group_leave'' then onGroupLeave g s
      else if groupActive s \<and> (sigChannelId g \<noteq> [] \<or> activeGroupCall s = Some (sigCallId g)) then groupNegotiation g s
      else directSignal g s)"

section \<open>The page\<close>

datatype callPageEvent =
  PSignal string callSignal | PStart "string option" string bool | PAccept | PReject | PEnd | PTimeout
| PMute | PVideo | PMinimize bool
| PEnterGroup string string bool bool | PLeaveGroup | PGroupMute | PGroupVideo
| PGroupShare bool "trackKind list option" "string \<Rightarrow> bool" | PGroupMinimize bool
| PGoOn string nat callAnswer | PResume nat bool nat rtcAnswer | PBrowser nat callEvent | PGroupBrowser nat groupEvent

fun callPageStep :: "callPageEvent \<Rightarrow> callPage \<Rightarrow> callPage" where
  "callPageStep (PSignal me g) s = onCallSignal me g s"
| "callPageStep (PStart p c v) s = handleStartCall p c v s"
| "callPageStep PAccept s = handleAcceptCall s"
| "callPageStep PReject s = handleRejectCall s"
| "callPageStep PEnd s = handleEndCall s"
| "callPageStep PTimeout s = ringTimeout s"
| "callPageStep PMute s = handleToggleCallMute s"
| "callPageStep PVideo s = handleToggleCallVideo s"
| "callPageStep (PMinimize b) s = s\<lparr>callMinimized := b\<rparr>"
| "callPageStep (PEnterGroup ch c v b) s = enterGroupCall ch c v b s"
| "callPageStep PLeaveGroup s = handleLeaveGroupCall s"
| "callPageStep PGroupMute s = handleToggleGroupMute s"
| "callPageStep PGroupVideo s = handleToggleGroupVideo s"
| "callPageStep (PGroupShare b g r) s = handleToggleGroupScreenShare b g r s"
| "callPageStep (PGroupMinimize b) s = s\<lparr>groupMinimized := b\<rparr>"
| "callPageStep (PGoOn me n a) s = resumeCall me n a s"
| "callPageStep (PResume i e n a) s = (if i < length (managers s) then resumeManager i e n a s else s)"
| "callPageStep (PBrowser i ev) s = (if i < length (managers s) \<and> browserEvent ev then atManager i ev s else s)"
| "callPageStep (PGroupBrowser i ev) s =
     (if i < length (groupManagers s) \<and> groupBrowserEvent ev then atGroup i ev s else s)"

end
