(* ===== verification/Call_Behaviour.thy ===== *)
theory Call_Behaviour
  imports Chat_Calls
begin

text \<open>
  What the call handlers of \<open>ChatPage.tsx\<close> achieve: the state of the page is consistent with its
  managers over any run, a call is set up between two pages, every exit leaves nothing of the call
  behind, no signal of another user starts the camera; and the interleavings in which a camera keeps
  running or an ended group call stays listed.
\<close>

section \<open>Consistency\<close>

text \<open>The states of a manager are those that its own steps reach.\<close>

inductive rtcReachable :: "rtcState \<Rightarrow> bool" where
  rtcNew: "rtcReachable newManager"
| rtcStep: "rtcReachable m \<Longrightarrow> rtcReachable (callStep ev m)"

inductive groupReachable :: "groupState \<Rightarrow> bool" where
  groupNew: "groupReachable newGroup"
| groupStep: "groupReachable m \<Longrightarrow> groupReachable (groupStep ev m)"

lemma rtcReachable_run: "rtcReachable m \<Longrightarrow> \<exists>evs. m = fold callStep evs newManager"
proof (induction rule: rtcReachable.induct)
  case rtcNew
  then show ?case by (intro exI [of _ "[]"]) simp
next
  case (rtcStep m ev)
  then obtain evs where "m = fold callStep evs newManager" by blast
  then show ?case by (intro exI [of _ "evs @ [ev]"]) simp
qed

lemma groupReachable_run: "groupReachable m \<Longrightarrow> \<exists>evs. m = fold groupStep evs newGroup"
proof (induction rule: groupReachable.induct)
  case groupNew
  then show ?case by (intro exI [of _ "[]"]) simp
next
  case (groupStep m ev)
  then obtain evs where "m = fold groupStep evs newGroup" by blast
  then show ?case by (intro exI [of _ "evs @ [ev]"]) simp
qed

definition newCallPage :: callPage where
  "newCallPage = \<lparr>callState = CallIdle, callVideo = True, activeCallId = [], activeCallPeer = [], callMuted = False,
     callVideoOff = False, callMinimized = False, localShown = None, remoteShown = None, webrtcRef = None,
     pendingOffer = None, earlyCandidates = [], managers = [], callTasks = [], nextCallTask = 0,
     groupActive = False, activeGroupCall = None, groupChannel = None, groupVideo = True, groupMuted = False,
     groupVideoOff = False, groupSharing = False, groupMinimized = False, groupLocal = None, groupRemote = [],
     groupSpeaker = None, groupRtcRef = None, groupManagers = [], ongoingCalls = [], sentSignals = [], alerts = 0\<rparr>"

text \<open>The managers a suspended handler refers to exist.\<close>

fun taskOk :: "nat \<Rightarrow> nat \<Rightarrow> callTask \<Rightarrow> bool" where
  "taskOk k g (StartCamera i) = (i < k)"
| "taskOk k g (AcceptCamera i d) = (i < k)"
| "taskOk k g (GroupCamera i b) = (i < g)"
| "taskOk k g _ = True"

definition groupOk :: "bool \<Rightarrow> string option \<Rightarrow> string option \<Rightarrow> bool" where
  "groupOk a c ch \<longleftrightarrow> (a \<longleftrightarrow> c \<noteq> None) \<and> (a \<longleftrightarrow> ch \<noteq> None)"

lemma groupOk_simps [simp]: "groupOk True (Some c) (Some ch)" "groupOk False None None"
  by (simp_all add: groupOk_def)

definition callPageOk :: "callPage \<Rightarrow> bool" where
  "callPageOk s \<longleftrightarrow>
     (callState s = CallIdle \<longrightarrow> activeCallId s = [] \<and> activeCallPeer s = [])
     \<and> (callState s = CallIncoming \<longrightarrow> pendingOffer s \<noteq> None)
     \<and> (\<forall>i. webrtcRef s = Some i \<longrightarrow> i < length (managers s))
     \<and> (\<forall>i. groupRtcRef s = Some i \<longrightarrow> i < length (groupManagers s))
     \<and> groupOk (groupActive s) (activeGroupCall s) (groupChannel s)
     \<and> list_all (\<lambda>(n, t). n < nextCallTask s \<and> taskOk (length (managers s)) (length (groupManagers s)) t) (callTasks s)
     \<and> distinct (map fst (callTasks s))
     \<and> list_all (\<lambda>e. rtcReachable (snd e)) (managers s) \<and> list_all (\<lambda>e. groupReachable (snd e)) (groupManagers s)"

named_theorems callPageOk_intros

lemma taskOk_mono: "taskOk k g t \<Longrightarrow> k \<le> k' \<Longrightarrow> g \<le> g' \<Longrightarrow> taskOk k' g' t"
  by (cases t) auto

lemma callPageOk_new: "callPageOk newCallPage"
  by (simp add: callPageOk_def newCallPage_def)

lemma ok_sendSignal [callPageOk_intros]: "callPageOk s \<Longrightarrow> callPageOk (sendSignal g s)"
  by (simp add: callPageOk_def sendSignal_def)

lemma ok_alertUser [callPageOk_intros]: "callPageOk s \<Longrightarrow> callPageOk (alertUser s)"
  by (simp add: callPageOk_def alertUser_def)

lemma ok_tellPeer [callPageOk_intros]: "callPageOk s \<Longrightarrow> callPageOk (tellPeer k s)"
  by (simp add: tellPeer_def ok_sendSignal)

lemma ok_waitFor [callPageOk_intros]:
  "callPageOk s \<Longrightarrow> taskOk (length (managers s)) (length (groupManagers s)) t \<Longrightarrow> callPageOk (waitFor t s)"
  by (auto simp: callPageOk_def waitFor_def list_all_iff)

lemma ok_clearCall [callPageOk_intros]: "callPageOk s \<Longrightarrow> callPageOk (clearCall s)"
  by (simp add: callPageOk_def clearCall_def)

lemma ok_manager:
  "callPageOk s \<Longrightarrow> i < length (managers s) \<Longrightarrow> rtcReachable m' \<Longrightarrow> callPageOk (s\<lparr>managers := (managers s)[i := (o', m')]\<rparr>)"
  by (auto simp: callPageOk_def list_all_length nth_list_update split: option.splits)

lemma ok_groupManager:
  "callPageOk s \<Longrightarrow> i < length (groupManagers s) \<Longrightarrow> groupReachable m' \<Longrightarrow>
   callPageOk (s\<lparr>groupManagers := (groupManagers s)[i := (o', m')]\<rparr>)"
  by (auto simp: callPageOk_def list_all_length nth_list_update split: option.splits)

lemma ok_reachable: "callPageOk s \<Longrightarrow> i < length (managers s) \<Longrightarrow> rtcReachable (snd (managers s ! i))"
  by (simp add: callPageOk_def list_all_length)

lemma ok_groupReachable: "callPageOk s \<Longrightarrow> i < length (groupManagers s) \<Longrightarrow> groupReachable (snd (groupManagers s ! i))"
  by (simp add: callPageOk_def list_all_length)

lemma ok_ref: "callPageOk s \<Longrightarrow> webrtcRef s = Some i \<Longrightarrow> i < length (managers s)"
  by (simp add: callPageOk_def)

lemma ok_groupRef: "callPageOk s \<Longrightarrow> groupRtcRef s = Some i \<Longrightarrow> i < length (groupManagers s)"
  by (simp add: callPageOk_def)

lemma ok_hangupCurrent [callPageOk_intros]: "callPageOk s \<Longrightarrow> callPageOk (hangupCurrent s)"
proof (cases "webrtcRef s")
  case (Some i)
  assume ok: "callPageOk s"
  have r: "rtcReachable (hangup (snd (managers s ! i)))"
    using rtcStep [OF ok_reachable [OF ok ok_ref [OF ok Some]], of Hangup] by simp
  have "callPageOk (s\<lparr>managers := (managers s)[i := (fst (managers s ! i), hangup (snd (managers s ! i)))]\<rparr>)"
    by (rule ok_manager [OF ok ok_ref [OF ok Some] r])
  then show ?thesis by (simp add: hangupCurrent_def Some callPageOk_def)
qed (simp add: hangupCurrent_def)

lemma ok_dropCall [callPageOk_intros]: "callPageOk s \<Longrightarrow> callPageOk (dropCall s)"
proof -
  assume "callPageOk s"
  then have "callPageOk (clearCall (hangupCurrent s))" by (intro callPageOk_intros)
  then show ?thesis by (simp add: dropCall_def callPageOk_def)
qed

lemma ok_handleEndCall [callPageOk_intros]: "callPageOk s \<Longrightarrow> callPageOk (handleEndCall s)"
  by (simp add: handleEndCall_def callPageOk_intros)

lemma managers_hangup [simp]:
  "length (managers (hangupCurrent s)) = length (managers s)" "groupManagers (hangupCurrent s) = groupManagers s"
  by (simp_all add: hangupCurrent_def split: option.split)

lemma managers_frame [simp]:
  "managers (sendSignal g s) = managers s" "managers (tellPeer k s) = managers s" "managers (alertUser s) = managers s"
  "managers (clearCall s) = managers s" "managers (waitFor t s) = managers s"
  "groupManagers (sendSignal g s) = groupManagers s" "groupManagers (tellPeer k s) = groupManagers s"
  "groupManagers (alertUser s) = groupManagers s" "groupManagers (clearCall s) = groupManagers s"
  "groupManagers (waitFor t s) = groupManagers s"
  by (simp_all add: sendSignal_def tellPeer_def alertUser_def clearCall_def waitFor_def)

lemma managers_end [simp]:
  "length (managers (dropCall s)) = length (managers s)" "length (managers (handleEndCall s)) = length (managers s)"
  "groupManagers (dropCall s) = groupManagers s" "groupManagers (handleEndCall s) = groupManagers s"
  by (simp_all add: dropCall_def handleEndCall_def)

lemma onNotice_ok: "callPageOk s \<Longrightarrow> callPageOk (onNotice i o' n s)"
proof -
  assume ok: "callPageOk s"
  then have "callPageOk (s\<lparr>localShown := x\<rparr>)" "callPageOk (s\<lparr>remoteShown := y\<rparr>)" "callPageOk (s\<lparr>callState := CallConnected\<rparr>)" for x y
    by (simp_all add: callPageOk_def)
  with ok show ?thesis
    by (cases n) (auto simp: onNotice_def Let_def intro!: callPageOk_intros split: sdpType.split)
qed

lemma onNotice_managers [simp]:
  "length (managers (onNotice i o' n s)) = length (managers s)" "groupManagers (onNotice i o' n s) = groupManagers s"
  by (auto simp: onNotice_def Let_def split: rtcNotice.split sdpType.split)

lemma fold_onNotice [simp]:
  "length (managers (fold (onNotice i o') ns s)) = length (managers s)"
  "groupManagers (fold (onNotice i o') ns s) = groupManagers s"
  "callPageOk s \<Longrightarrow> callPageOk (fold (onNotice i o') ns s)"
  by (induction ns arbitrary: s) (simp_all add: onNotice_ok)

lemma ok_callbacks:
  "callPageOk s \<Longrightarrow> i < length (managers s) \<Longrightarrow> rtcReachable m' \<Longrightarrow> callPageOk (callbacks i m' s)"
  by (simp add: callbacks_def Let_def ok_manager)

lemma callbacks_managers [simp]:
  "length (managers (callbacks i m' s)) = length (managers s)" "groupManagers (callbacks i m' s) = groupManagers s"
  "length (managers (atManager i ev s)) = length (managers s)" "groupManagers (atManager i ev s) = groupManagers s"
  by (simp_all add: callbacks_def atManager_def Let_def)

lemma ok_atManager: "callPageOk s \<Longrightarrow> i < length (managers s) \<Longrightarrow> callPageOk (atManager i ev s)"
  unfolding atManager_def by (rule ok_callbacks) (auto intro: rtcStep ok_reachable)

lemma onGroupNotice_ok: "callPageOk s \<Longrightarrow> callPageOk (onGroupNotice i o' n s)"
proof -
  assume ok: "callPageOk s"
  then have "callPageOk (s\<lparr>groupLocal := x\<rparr>)" "callPageOk (s\<lparr>groupRemote := y\<rparr>)" "callPageOk (s\<lparr>groupSpeaker := z\<rparr>)" for x y z
    by (simp_all add: callPageOk_def)
  with ok show ?thesis by (cases n) (simp_all add: onGroupNotice_def callPageOk_intros)
qed

lemma onGroupNotice_managers [simp]:
  "managers (onGroupNotice i o' n s) = managers s" "groupManagers (onGroupNotice i o' n s) = groupManagers s"
  by (simp_all add: onGroupNotice_def split: groupNotice.split)

lemma fold_onGroupNotice [simp]:
  "managers (fold (onGroupNotice i o') ns s) = managers s"
  "groupManagers (fold (onGroupNotice i o') ns s) = groupManagers s"
  "callPageOk s \<Longrightarrow> callPageOk (fold (onGroupNotice i o') ns s)"
  by (induction ns arbitrary: s) (simp_all add: onGroupNotice_ok)

lemma ok_groupCallbacks:
  "callPageOk s \<Longrightarrow> i < length (groupManagers s) \<Longrightarrow> groupReachable m' \<Longrightarrow> callPageOk (groupCallbacks i m' s)"
  by (simp add: groupCallbacks_def Let_def ok_groupManager)

lemma groupCallbacks_managers [simp]:
  "managers (groupCallbacks i m' s) = managers s" "length (groupManagers (groupCallbacks i m' s)) = length (groupManagers s)"
  "managers (atGroup i ev s) = managers s" "length (groupManagers (atGroup i ev s)) = length (groupManagers s)"
  by (simp_all add: groupCallbacks_def atGroup_def Let_def)

lemma ok_atGroup: "callPageOk s \<Longrightarrow> i < length (groupManagers s) \<Longrightarrow> callPageOk (atGroup i ev s)"
  unfolding atGroup_def by (rule ok_groupCallbacks) (auto intro: groupStep ok_groupReachable)

lemma ok_atCurrentGroup [callPageOk_intros]: "callPageOk s \<Longrightarrow> callPageOk (atCurrentGroup ev s)"
  by (auto simp: atCurrentGroup_def intro: ok_atGroup ok_groupRef split: option.split)

lemma ok_ongoing [callPageOk_intros]: "callPageOk s \<Longrightarrow> callPageOk (s\<lparr>ongoingCalls := x\<rparr>)" "callPageOk s \<Longrightarrow> callPageOk (ongoingStarted c g s)"
  "callPageOk s \<Longrightarrow> callPageOk (s\<lparr>groupRemote := y\<rparr>)" "callPageOk s \<Longrightarrow> callPageOk (s\<lparr>earlyCandidates := z\<rparr>)"
  "callPageOk s \<Longrightarrow> callPageOk (s\<lparr>callState := CallConnected\<rparr>)"
  by (simp_all add: callPageOk_def ongoingStarted_def)

lemma ok_resumeManager: "callPageOk s \<Longrightarrow> i < length (managers s) \<Longrightarrow> callPageOk (resumeManager i e n a s)"
proof -
  assume ok: "callPageOk s" "i < length (managers s)"
  define m' where "m' = callStep (Resume e n a) (snd (managers s ! i))"
  define s1 where "s1 = callbacks i m' s"
  have "callPageOk s1" unfolding s1_def m'_def by (rule ok_callbacks [OF ok rtcStep [OF ok_reachable [OF ok]]])
  moreover from this have "callPageOk (s1\<lparr>callState := CallConnected\<rparr>)" by (simp add: callPageOk_def)
  ultimately show ?thesis
    unfolding resumeManager_def Let_def m'_def [symmetric] s1_def [symmetric]
    by (auto simp: ok_handleEndCall split: option.split)
qed

lemma ok_drainEarly: "callPageOk s \<Longrightarrow> i < length (managers s) \<Longrightarrow> callPageOk (drainEarly i s) \<and> length (managers (drainEarly i s)) = length (managers s)"
proof -
  have "callPageOk (fold (\<lambda>c. atManager i (CandidateArrives c)) cs s) \<and> length (managers (fold (\<lambda>c. atManager i (CandidateArrives c)) cs s)) = length (managers s)"
    if "callPageOk s" "i < length (managers s)" for cs s using that
    by (induction cs arbitrary: s) (simp_all add: ok_atManager)
  from this [of s "filter (\<lambda>c. c \<noteq> []) (earlyCandidates s)"] show "callPageOk s \<Longrightarrow> i < length (managers s) \<Longrightarrow> ?thesis"
    by (simp add: drainEarly_def ok_ongoing)
qed

lemma groupManagers_drainEarly [simp]: "groupManagers (drainEarly i s) = groupManagers s"
proof -
  have "groupManagers (fold (\<lambda>c. atManager i (CandidateArrives c)) cs s) = groupManagers s" for cs s
    by (induction cs arbitrary: s) simp_all
  then show ?thesis by (simp add: drainEarly_def)
qed

lemma ok_addManager:
  "callPageOk s \<Longrightarrow> callPageOk (addManager o' s)" "callPageOk s \<Longrightarrow> callPageOk (addGroupManager g s)"
  by (auto simp: callPageOk_def addManager_def addGroupManager_def rtcNew groupNew list_all_iff elim!: taskOk_mono dest!: bspec)

lemma ok_cameraReady: "callPageOk s \<Longrightarrow> i < length (managers s) \<Longrightarrow> callPageOk (cameraReady i f m next' s)"
proof -
  assume ok: "callPageOk s" "i < length (managers s)"
  define e where "e = managers s ! i"
  obtain r m' where st: "startLocalStream (ownVideo (fst e)) f m (snd e) = (r, m')" by fastforce
  have "rtcReachable (callStep (StartMedia (ownVideo (fst e)) f m) (snd e))" unfolding e_def by (intro rtcStep ok_reachable ok)
  then have "rtcReachable m'" by (simp add: st)
  then have 1: "callPageOk (callbacks i m' s)" by (rule ok_callbacks [OF ok])
  then have "callPageOk (atManager i next' (callbacks i m' s))" by (rule ok_atManager) (simp add: ok)
  with 1 show ?thesis unfolding cameraReady_def Let_def e_def [symmetric] st by (simp add: ok_handleEndCall split: sum.split)
qed

lemma ok_groupReady: "callPageOk s \<Longrightarrow> callPageOk (groupReady i b me s)"
  by (simp add: groupReady_def Let_def callPageOk_intros)

lemma ok_goOn:
  assumes "callPageOk s" "taskOk (length (managers s)) (length (groupManagers s)) t"
  shows "callPageOk (goOn me t a s)"
proof (cases t)
  case (StartServers c p v)
  then show ?thesis using assms ok_addManager(1) [OF assms(1)]
    by (cases a) (auto simp: goOn_def addManager_def intro!: ok_waitFor)
next
  case (AcceptServers d c p v)
  have "callPageOk (drainEarly (length (managers s)) (addManager o' s)) \<and> length (managers (drainEarly (length (managers s)) (addManager o' s))) = Suc (length (managers s))" for o'
    using ok_drainEarly [OF ok_addManager(1) [OF assms(1)], of "length (managers s)" o'] by (simp add: addManager_def)
  then show ?thesis using assms(1) AcceptServers by (cases a) (auto simp: goOn_def intro!: ok_waitFor)
next
  case (GroupServers c ch v b)
  then show ?thesis using assms ok_addManager(2) [OF assms(1)]
    by (cases a) (auto simp: goOn_def addGroupManager_def intro!: ok_waitFor)
qed (use assms in \<open>cases a; simp add: goOn_def ok_cameraReady ok_groupReady ok_atGroup\<close>)+

lemma ok_resumeCall: "callPageOk s \<Longrightarrow> callPageOk (resumeCall me n a s)"
proof (cases "map_of (callTasks s) n")
  case (Some t)
  assume ok: "callPageOk s"
  have "taskOk (length (managers s)) (length (groupManagers s)) t"
    using ok map_of_SomeD [OF Some] by (auto simp: callPageOk_def list_all_iff)
  moreover have "callPageOk (s\<lparr>callTasks := filter (\<lambda>e. fst e \<noteq> n) (callTasks s)\<rparr>)"
    using ok by (auto simp: callPageOk_def list_all_iff distinct_map_filter)
  ultimately show ?thesis using ok ok_goOn by (simp add: resumeCall_def Some)
qed (simp add: resumeCall_def)

lemma ok_answerCall: "callPageOk s \<Longrightarrow> callPageOk (answerCall g s)"
  by (auto simp: answerCall_def Let_def intro!: callPageOk_intros ok_atManager ok_ref split: option.split)

lemma ok_onCallSignal: "callPageOk s \<Longrightarrow> callPageOk (onCallSignal me g s)"
proof -
  assume ok: "callPageOk s"
  have "callPageOk (onGroupJoin me g s)" using ok by (simp add: onGroupJoin_def Let_def callPageOk_intros)
  moreover have "callPageOk (onGroupLeave g s)" using ok by (simp add: onGroupLeave_def Let_def callPageOk_intros)
  moreover have "callPageOk (groupNegotiation g s)" using ok by (simp add: groupNegotiation_def callPageOk_intros)
  moreover have "callPageOk (directSignal g s)"
  proof -
    have "callPageOk (s\<lparr>pendingOffer := Some x, activeCallId := c, activeCallPeer := p, callVideo := v, callState := CallIncoming\<rparr>)" for x c p v
      using ok by (simp add: callPageOk_def)
    then show ?thesis using ok
      by (auto simp: directSignal_def ok_answerCall intro!: callPageOk_intros ok_atManager ok_ref split: option.split)
  qed
  ultimately show ?thesis by (simp add: onCallSignal_def)
qed

lemma ok_leave: "callPageOk s \<Longrightarrow> callPageOk (handleLeaveGroupCall s)"
proof -
  assume ok: "callPageOk s"
  define s1 where "s1 = (case (activeGroupCall s, groupChannel s) of
                  (Some c, Some ch) \<Rightarrow>
                    if c \<noteq> [] \<and> ch \<noteq> [] then sendSignal ((plainSignal ''group_leave'' c)\<lparr>sigChannelId := ch\<rparr>) s else s
                | _ \<Rightarrow> s)"
  have "callPageOk s1" using ok by (auto simp: s1_def intro: ok_sendSignal split: option.split)
  then have "callPageOk (atCurrentGroup (\<lambda>_. GLeave) s1)" by (rule ok_atCurrentGroup)
  then show ?thesis unfolding handleLeaveGroupCall_def Let_def s1_def [symmetric] by (simp add: callPageOk_def)
qed

lemma ok_toggles:
  assumes ok: "callPageOk s"
  shows "callPageOk (handleToggleCallMute s)" "callPageOk (handleToggleCallVideo s)"
    "callPageOk (handleToggleGroupMute s)" "callPageOk (handleToggleGroupVideo s)" "callPageOk (handleToggleGroupScreenShare b g r s)"
proof -
  have flag: "callPageOk (t\<lparr>callMuted := x\<rparr>)" "callPageOk (t\<lparr>callVideoOff := x\<rparr>)" "callPageOk (t\<lparr>groupMuted := x\<rparr>)"
    "callPageOk (t\<lparr>groupVideoOff := x\<rparr>)" "callPageOk (t\<lparr>groupSharing := x\<rparr>)" if "callPageOk t" for t x
    using that by (simp_all add: callPageOk_def)
  have r: "callPageOk (callbacks i (callStep ev (snd (managers s ! i))) s)" if "webrtcRef s = Some i" for i ev
    using ok_ref [OF ok that] by (intro ok_callbacks ok rtcStep ok_reachable) simp_all
  have g: "callPageOk (groupCallbacks i (groupStep ev (snd (groupManagers s ! i))) s)" if "groupRtcRef s = Some i" for i ev
    using ok_groupRef [OF ok that] by (intro ok_groupCallbacks ok groupReachable.groupStep ok_groupReachable) simp_all
  show "callPageOk (handleToggleCallMute s)" using ok r [of _ "ToggleAudio None"]
    by (auto simp: handleToggleCallMute_def split_beta intro: flag split: option.split)
  show "callPageOk (handleToggleCallVideo s)" using ok r [of _ "ToggleVideo None"]
    by (auto simp: handleToggleCallVideo_def split_beta intro: flag split: option.split)
  show "callPageOk (handleToggleGroupMute s)" using ok g [of _ GToggleAudio]
    by (auto simp: handleToggleGroupMute_def split_beta intro: flag split: option.split)
  show "callPageOk (handleToggleGroupVideo s)" using ok g [of _ GToggleVideo]
    by (auto simp: handleToggleGroupVideo_def split_beta intro: flag split: option.split)
  show "callPageOk (handleToggleGroupScreenShare b g r s)" using ok g [of _ "GShare b g r"] g [of _ "GUnshare r"]
    by (auto simp: handleToggleGroupScreenShare_def split_beta Let_def intro: flag split: option.split shareResult.split)
qed

lemma callPageOk_step: "callPageOk s \<Longrightarrow> callPageOk (callPageStep ev s)"
proof (cases ev)
  case (PStart p c v)
  assume "callPageOk s"
  moreover from this have "callPageOk (s\<lparr>activeCallId := x, activeCallPeer := q, callVideo := v, callState := CallOutgoing, callMinimized := False,
               callMuted := False, callVideoOff := False\<rparr>)" for x q by (simp add: callPageOk_def)
  ultimately show ?thesis using PStart by (auto simp: handleStartCall_def intro!: ok_waitFor split: option.split)
next
  case PAccept
  assume "callPageOk s"
  moreover from this have "callPageOk (s\<lparr>callState := CallConnected, callVideo := v, callMuted := False, callVideoOff := False\<rparr>)" for v
    by (simp add: callPageOk_def)
  ultimately show ?thesis using PAccept by (auto simp: handleAcceptCall_def intro!: ok_waitFor split: option.split)
next
  case (PEnterGroup ch c v b)
  assume "callPageOk s"
  moreover from this have "callPageOk (s\<lparr>groupActive := True, activeGroupCall := Some c, groupChannel := Some ch, groupVideo := v,
                groupMinimized := False, groupMuted := False, groupVideoOff := False, groupSharing := False, groupRemote := []\<rparr>)"
    by (simp add: callPageOk_def)
  ultimately show ?thesis using PEnterGroup by (auto simp: enterGroupCall_def intro!: ok_waitFor)
next
  case PTimeout
  assume "callPageOk s"
  then show ?thesis using PTimeout by (auto simp: ringTimeout_def intro!: callPageOk_intros split: callPhase.split)
qed (simp_all add: ok_onCallSignal handleRejectCall_def callPageOk_intros ok_leave ok_toggles ok_resumeCall ok_resumeManager ok_atManager ok_atGroup,
     simp_all add: callPageOk_def)

lemma callPageOk_run: "callPageOk s \<Longrightarrow> callPageOk (fold callPageStep evs s)"
  by (induction evs arbitrary: s) (simp_all add: callPageOk_step)

text \<open>
  C25. The page and its managers over any run: a page without a call has no identifier and no peer
  left, one that rings has an offer to accept, the refs name existing managers, at most one handler
  waits under every number, and every manager ever created, with all its callbacks, is in a state
  that its own steps reach, so that what holds of all runs of a manager holds of it.
\<close>

theorem call_page_consistent:
  assumes "s = fold callPageStep evs newCallPage"
  shows "(callState s = CallIdle \<longrightarrow> activeCallId s = [] \<and> activeCallPeer s = [])
    \<and> (callState s = CallIncoming \<longrightarrow> pendingOffer s \<noteq> None)
    \<and> (\<forall>i. webrtcRef s = Some i \<longrightarrow> i < length (managers s)) \<and> (\<forall>i. groupRtcRef s = Some i \<longrightarrow> i < length (groupManagers s))
    \<and> (groupActive s \<longleftrightarrow> activeGroupCall s \<noteq> None \<and> groupChannel s \<noteq> None) \<and> distinct (map fst (callTasks s))
    \<and> (\<forall>e \<in> set (managers s). \<exists>es. snd e = fold callStep es newManager)
    \<and> (\<forall>e \<in> set (groupManagers s). \<exists>es. snd e = fold Group_Call.groupStep es newGroup)"
proof -
  have "callPageOk s" unfolding assms by (rule callPageOk_run [OF callPageOk_new])
  then show ?thesis
    by (auto simp: callPageOk_def groupOk_def list_all_iff intro: rtcReachable_run groupReachable_run)
qed

section \<open>Ending a call\<close>

lemma hangup_released:
  "i < length (rtcTracks m) \<Longrightarrow> i \<in> streamTracks m \<Longrightarrow> \<not> trackLive (rtcTracks (hangup m) ! i)"
  by (simp add: hangup_tracks)

definition exits :: "callPageEvent \<Rightarrow> callPage \<Rightarrow> bool" where
  "exits ev s =
     (case ev of
        PEnd \<Rightarrow> True
      | PTimeout \<Rightarrow> callState s = CallOutgoing
      | PSignal me g \<Rightarrow> \<not> groupActive s \<and> signalType g \<in> {''hangup'', ''reject'', ''peer_offline''}
      | _ \<Rightarrow> False)"

lemma exit_drops:
  assumes "exits ev s"
  shows "\<exists>s0. managers s0 = managers s \<and> webrtcRef s0 = webrtcRef s \<and> callTasks s0 = callTasks s
     \<and> (callPageStep ev s = dropCall s0 \<or> callPageStep ev s = alertUser (dropCall s0))
     \<and> sentSignals s0 = sentSignals s
         @ (if (\<exists>me g. ev = PSignal me g) \<or> activeCallPeer s = [] \<or> activeCallId s = [] then []
            else [(plainSignal ''hangup'' (activeCallId s))\<lparr>sigTarget := activeCallPeer s\<rparr>])"
proof (cases ev)
  case (PSignal me g)
  with assms have g: "\<not> groupActive s" "signalType g = ''hangup'' \<or> signalType g = ''reject'' \<or> signalType g = ''peer_offline''"
    by (auto simp: exits_def)
  have "onCallSignal me g s = (if signalType g = ''hangup'' then dropCall s else alertUser (dropCall s))"
    using g by (auto simp: onCallSignal_def directSignal_def)
  then show ?thesis unfolding PSignal by (intro exI [of _ s]) simp
next
  case PEnd
  show ?thesis unfolding PEnd
    by (intro exI [of _ "tellPeer ''hangup'' s"]) (simp add: handleEndCall_def tellPeer_def sendSignal_def)
next
  case PTimeout
  with assms have "callState s = CallOutgoing" by (simp add: exits_def)
  then show ?thesis unfolding PTimeout
    by (intro exI [of _ "tellPeer ''hangup'' s"]) (simp add: handleEndCall_def tellPeer_def sendSignal_def ringTimeout_def)
qed (use assms in \<open>simp_all add: exits_def\<close>)

text \<open>
  C23. The ends of a call whose manager is there (the user ends it, nobody answers for 45 seconds, and, while no group
  call is active, the peer hangs up, rejects it or is offline): the page is idle without identifier, peer, offer,
  candidates or pictures, the microphone, the camera and the remote tracks of the manager are stopped, its connection
  is closed and given up, other managers are as they were, and the peer is told exactly when the end is not its own
  doing. A handler that is still waiting for the servers or the camera is not ended by this: it goes on in the idle page.
\<close>

theorem every_exit_releases:
  assumes "exits ev s" and i: "webrtcRef s = Some i" "i < length (managers s)" and s': "s' = callPageStep ev s"
  shows "callState s' = CallIdle \<and> activeCallId s' = [] \<and> activeCallPeer s' = [] \<and> pendingOffer s' = None
    \<and> earlyCandidates s' = [] \<and> webrtcRef s' = None \<and> localShown s' = None \<and> remoteShown s' = None
    \<and> localStream (snd (managers s' ! i)) = None \<and> pc (snd (managers s' ! i)) = None
    \<and> (\<forall>j < length (rtcConns (snd (managers s ! i))). pc (snd (managers s ! i)) = Some j \<longrightarrow>
         \<not> pcOpen (rtcConns (snd (managers s' ! i)) ! j))
    \<and> callTasks s' = callTasks s
    \<and> (\<forall>t < length (rtcTracks (snd (managers s ! i))). t \<in> streamTracks (snd (managers s ! i)) \<longrightarrow>
         \<not> trackLive (rtcTracks (snd (managers s' ! i)) ! t))
    \<and> (\<forall>j. j \<noteq> i \<longrightarrow> managers s' ! j = managers s ! j)
    \<and> sentSignals s' = sentSignals s
         @ (if (\<exists>me g. ev = PSignal me g) \<or> activeCallPeer s = [] \<or> activeCallId s = [] then []
            else [(plainSignal ''hangup'' (activeCallId s))\<lparr>sigTarget := activeCallPeer s\<rparr>])"
proof -
  obtain s0 where s0: "managers s0 = managers s" "webrtcRef s0 = webrtcRef s" "callTasks s0 = callTasks s"
    "s' = dropCall s0 \<or> s' = alertUser (dropCall s0)"
    "sentSignals s0 = sentSignals s
         @ (if (\<exists>me g. ev = PSignal me g) \<or> activeCallPeer s = [] \<or> activeCallId s = [] then []
            else [(plainSignal ''hangup'' (activeCallId s))\<lparr>sigTarget := activeCallPeer s\<rparr>])"
    using exit_drops [OF assms(1)] unfolding s' by blast
  have m: "managers s' = (managers s)[i := (fst (managers s ! i), hangup (snd (managers s ! i)))]"
    using s0 i by (auto simp: dropCall_def hangupCurrent_def clearCall_def alertUser_def)
  have "sentSignals s' = sentSignals s0" "callState s' = CallIdle" "activeCallId s' = []" "activeCallPeer s' = []" "pendingOffer s' = None"
    "earlyCandidates s' = []" "webrtcRef s' = None" "localShown s' = None" "remoteShown s' = None"
    using s0 i by (auto simp: dropCall_def hangupCurrent_def clearCall_def alertUser_def)
  moreover have "callTasks s' = callTasks s" using s0 i by (auto simp: dropCall_def hangupCurrent_def clearCall_def alertUser_def)
  ultimately show ?thesis using m i by (simp add: s0(5) hangup_tracks hangup_closes)
qed

section \<open>Signals of other users\<close>

lemma local_frames [simp]:
  "localStream (handleAnswer d m) = localStream m" "localStream (addIceCandidate c m) = localStream m"
  "gLocalStream (addPeer ice p b g) = gLocalStream g" "gLocalStream (groupHandleOffer ice p d g) = gLocalStream g"
  "gLocalStream (groupHandleAnswer p d g) = gLocalStream g" "gLocalStream (handleIceCandidate p c g) = gLocalStream g"
  "gLocalStream (removePeer p g) = gLocalStream g"
  by (simp_all add: handleAnswer_def suspend_def addIceCandidate_def handCandidate_def updConn_def addPeer_def Let_def gSuspend_def
      groupHandleOffer_def groupHandleAnswer_def handleIceCandidate_def giveCandidate_def gUpdConn_def gUpdPeer_def removePeer_def
      gNotice_def split: option.split)

text \<open>No stream is opened between two states.\<close>

definition noNewStream :: "callPage \<Rightarrow> callPage \<Rightarrow> bool" where
  "noNewStream s s' \<longleftrightarrow> callTasks s' = callTasks s
     \<and> list_all2 (\<lambda>e e'. localStream (snd e') = localStream (snd e) \<or> localStream (snd e') = None) (managers s) (managers s')
     \<and> list_all2 (\<lambda>e e'. gLocalStream (snd e') = gLocalStream (snd e)) (groupManagers s) (groupManagers s')"

lemma noNewStream_refl [simp, intro]: "noNewStream s s"
  by (simp add: noNewStream_def list_all2_refl)

lemma noNewStream_trans: "noNewStream s t \<Longrightarrow> noNewStream t u \<Longrightarrow> noNewStream s u"
  unfolding noNewStream_def by (fastforce elim: list_all2_trans [rotated])

lemma noNewStream_same:
  "callTasks s' = callTasks s \<Longrightarrow> managers s' = managers s \<Longrightarrow> groupManagers s' = groupManagers s \<Longrightarrow> noNewStream s s'"
  by (simp add: noNewStream_def list_all2_refl)

lemma noNewStream_manager:
  "localStream m' = localStream (snd (managers s ! i)) \<or> localStream m' = None \<Longrightarrow>
   noNewStream s (s\<lparr>managers := (managers s)[i := (o', m')]\<rparr>)"
  by (cases "i < length (managers s)") (auto simp: noNewStream_def list_all2_conv_all_nth nth_list_update list_update_beyond)

lemma noNewStream_group:
  "gLocalStream m' = gLocalStream (snd (groupManagers s ! i)) \<Longrightarrow>
   noNewStream s (s\<lparr>groupManagers := (groupManagers s)[i := (o', m')]\<rparr>)"
  by (cases "i < length (groupManagers s)") (auto simp: noNewStream_def list_all2_conv_all_nth nth_list_update list_update_beyond)

lemma noNewStream_drop: "noNewStream s (dropCall s)"
proof -
  have 1: "noNewStream s (hangupCurrent s)"
  proof (cases "webrtcRef s")
    case (Some i)
    have "noNewStream s (s\<lparr>managers := (managers s)[i := (fst (managers s ! i), hangup (snd (managers s ! i)))]\<rparr>)"
      by (rule noNewStream_manager) simp
    then show ?thesis by (simp add: hangupCurrent_def Some noNewStream_def)
  qed (simp add: hangupCurrent_def)
  have "noNewStream (hangupCurrent s) (dropCall s)" by (rule noNewStream_same) (simp_all add: dropCall_def clearCall_def)
  with 1 show ?thesis by (rule noNewStream_trans)
qed

lemma noNewStream_end: "noNewStream s (handleEndCall s)"
  unfolding handleEndCall_def
  by (rule noNewStream_trans [OF noNewStream_same noNewStream_drop]) (simp_all add: tellPeer_def sendSignal_def)

lemma noNewStream_onNotice: "noNewStream s (onNotice i o' n s)"
proof (cases n)
  case NError
  have "noNewStream s (handleEndCall (alertUser s))" by (rule noNewStream_trans [OF noNewStream_same noNewStream_end]) (simp_all add: alertUser_def)
  with NError show ?thesis by (simp add: onNotice_def Let_def noNewStream_end)
next
  case (NState st)
  have "noNewStream s (s\<lparr>callState := CallConnected\<rparr>)" by (rule noNewStream_same) simp_all
  with NState show ?thesis by (simp add: onNotice_def Let_def noNewStream_end)
qed (auto simp: onNotice_def Let_def sendSignal_def intro!: noNewStream_same split: sdpType.split)

lemma noNewStream_fold: "(\<And>x s. noNewStream s (f x s)) \<Longrightarrow> noNewStream s (fold f xs s)"
  by (induction xs arbitrary: s) (auto intro: noNewStream_trans)

lemma noNewStream_atManager:
  "localStream (callStep ev (snd (managers s ! i))) = localStream (snd (managers s ! i)) \<Longrightarrow> noNewStream s (atManager i ev s)"
  unfolding atManager_def callbacks_def Let_def
  by (rule noNewStream_trans [OF noNewStream_manager noNewStream_fold]) (auto intro: noNewStream_onNotice)

lemma noNewStream_atGroup:
  assumes "gLocalStream (Group_Call.groupStep ev (snd (groupManagers s ! i))) = gLocalStream (snd (groupManagers s ! i))"
  shows "noNewStream s (atGroup i ev s)"
proof -
  have "noNewStream t (onGroupNotice j o' n t)" for j o' n t
    by (rule noNewStream_same) (simp_all add: onGroupNotice_def sendSignal_def split: groupNotice.split)
  then show ?thesis
    unfolding atGroup_def groupCallbacks_def Let_def
    by (intro noNewStream_trans [OF noNewStream_group noNewStream_fold]) (use assms in auto)
qed

lemma noNewStream_atCurrentGroup:
  "(\<And>ice g. gLocalStream (Group_Call.groupStep (ev ice) g) = gLocalStream g) \<Longrightarrow> noNewStream s (atCurrentGroup ev s)"
  by (auto simp: atCurrentGroup_def intro: noNewStream_atGroup split: option.split)

lemma noNewStream_signal: "noNewStream s (onCallSignal me g s)"
proof -
  have upd: "noNewStream s t \<Longrightarrow> noNewStream s (t\<lparr>ongoingCalls := x\<rparr>)" "noNewStream s t \<Longrightarrow> noNewStream s (t\<lparr>groupRemote := y\<rparr>)"
    "noNewStream s t \<Longrightarrow> noNewStream s (t\<lparr>callState := CallConnected\<rparr>)" "noNewStream s t \<Longrightarrow> noNewStream s (alertUser t)" for t x y
    by (simp_all add: noNewStream_def alertUser_def)
  have pre: "noNewStream (s\<lparr>ongoingCalls := x\<rparr>) t \<Longrightarrow> noNewStream s t" for x t by (simp add: noNewStream_def)
  have "noNewStream s (onGroupJoin me g s)"
    by (auto simp: onGroupJoin_def Let_def intro: upd pre [OF noNewStream_atCurrentGroup])
  moreover have "noNewStream s (onGroupLeave g s)"
    by (auto simp: onGroupLeave_def Let_def intro!: upd noNewStream_atCurrentGroup)
  moreover have "noNewStream s (groupNegotiation g s)"
    by (simp add: groupNegotiation_def noNewStream_atCurrentGroup)
  moreover have "noNewStream s (answerCall g s)"
    by (auto simp: answerCall_def Let_def intro!: upd noNewStream_atManager split: option.split)
  moreover have "noNewStream s (s\<lparr>earlyCandidates := x\<rparr>)" "noNewStream s (s\<lparr>pendingOffer := y, activeCallId := c, activeCallPeer := p, callVideo := v, callState := w\<rparr>)" for x y c p v w
    by (simp_all add: noNewStream_def list_all2_refl)
  ultimately show ?thesis
    by (auto simp: onCallSignal_def directSignal_def intro!: upd noNewStream_atManager noNewStream_drop split: option.split)
qed

text \<open>
  C24. No signal of another user, and no sequence of them, opens the microphone or the camera: no
  manager is created, no handler starts to wait for one, and the local stream of every manager of a
  call is the same as before or released, that of every group call the same as before.
\<close>

theorem signals_open_no_stream:
  "length (managers (fold (\<lambda>(me, g). onCallSignal me g) gs s)) = length (managers s)
   \<and> length (groupManagers (fold (\<lambda>(me, g). onCallSignal me g) gs s)) = length (groupManagers s)
   \<and> callTasks (fold (\<lambda>(me, g). onCallSignal me g) gs s) = callTasks s
   \<and> list_all2 (\<lambda>e e'. localStream (snd e') = localStream (snd e) \<or> localStream (snd e') = None)
       (managers s) (managers (fold (\<lambda>(me, g). onCallSignal me g) gs s))
   \<and> list_all2 (\<lambda>e e'. gLocalStream (snd e') = gLocalStream (snd e))
       (groupManagers s) (groupManagers (fold (\<lambda>(me, g). onCallSignal me g) gs s))"
proof -
  have "noNewStream s (fold (\<lambda>(me, g). onCallSignal me g) gs s)"
    by (rule noNewStream_fold) (auto intro: noNewStream_signal)
  then show ?thesis by (auto simp: noNewStream_def dest: list_all2_lengthD)
qed

section \<open>Calls that are left running\<close>

lemma lookup_last: "\<forall>(k, t) \<in> set xs. k < (n::nat) \<Longrightarrow> map_of (xs @ [(n, x)]) n = Some x"
  by (auto simp: map_of_append map_add_def split: option.split dest!: map_of_SomeD)

lemma ok_tasks_below: "callPageOk s \<Longrightarrow> \<forall>(k, t) \<in> set (callTasks s). k < nextCallTask s"
  by (auto simp: callPageOk_def list_all_iff)

lemma end_frame [simp]:
  "callTasks (handleEndCall s) = callTasks s" "nextCallTask (handleEndCall s) = nextCallTask s"
  "callState (handleEndCall s) = CallIdle" "activeCallId (handleEndCall s) = []" "webrtcRef (handleEndCall s) = None"
  by (simp_all add: handleEndCall_def dropCall_def clearCall_def hangupCurrent_def tellPeer_def sendSignal_def split: option.split)

lemma filter_below: "\<forall>(k, t) \<in> set xs. k < (n::nat) \<Longrightarrow> filter (\<lambda>e. fst e \<noteq> n) xs = xs"
  by (auto simp: filter_id_conv)

lemma startLocalStream_granted:
  assumes "primaryMedia m = Some ks" "Audio \<in> set ks" "localStream s = None"
  shows "\<exists>ids s'. startLocalStream v f m s = (Inr ids, s') \<and> localStream s' = Some ids \<and> ids \<noteq> []
    \<and> (\<forall>t \<in> set ids. t < length (rtcTracks s') \<and> trackLive (rtcTracks s' ! t))
    \<and> pc s' = pc s \<and> rtcConns s' = rtcConns s \<and> rtcTasks s' = rtcTasks s \<and> nextTask s' = nextTask s
    \<and> pendingCandidates s' = pendingCandidates s \<and> notices s' = notices s @ [NLocalStream ids]"
proof -
  define s1 where "s1 = snd (acquire ks s)"
  define ids where "ids = fst (acquire ks s)"
  have f: "localStream s1 = None" "pc s1 = pc s" "rtcConns s1 = rtcConns s" "rtcTasks s1 = rtcTasks s" "nextTask s1 = nextTask s"
    "pendingCandidates s1 = pendingCandidates s" "notices s1 = notices s"
    using assms(3) by (simp_all add: s1_def acquire_def)
  have live: "t < length (rtcTracks s1) \<and> trackLive (rtcTracks s1 ! t)" if "t \<in> set ids" for t
    using that by (auto simp: s1_def ids_def acquire_def nth_append)
  have "\<exists>t \<in> set ids. trackKind (rtcTracks s1 ! t) = Audio"
  proof -
    from assms(2) obtain k where "k < length ks" "ks ! k = Audio" by (auto simp: in_set_conv_nth)
    then show ?thesis by (intro bexI [of _ "length (rtcTracks s) + k"]) (simp_all add: s1_def ids_def acquire_def nth_append)
  qed
  then obtain a where a: "firstTrack Audio ids s1 = Some a"
    by (cases "firstTrack Audio ids s1") (auto simp: firstTrack_def find_None_iff)
  have mem: "firstTrack k ids s1 = Some b \<Longrightarrow> b \<in> set ids" for k b by (rule firstTrack_mem)
  show ?thesis
    using f a mem [OF a] mem [of Video] live
    by (cases "firstTrack Video ids s1")
      (auto simp: startLocalStream_def assms(1,3) ids_def [symmetric] s1_def [symmetric] split_beta useTracks_def Let_def rtcNotify_def)
qed

section \<open>The stages of a call\<close>

text \<open>A manager with an open connection and one suspended operation, the last one, or none\<close>

definition running :: "nat \<Rightarrow> rtcTask option \<Rightarrow> rtcState \<Rightarrow> bool" where
  "running n t m \<longleftrightarrow> pc m = Some 0 \<and> length (rtcConns m) = 1 \<and> pcOpen (rtcConns m ! 0) \<and> pendingCandidates m = []
     \<and> nextTask m = n \<and> rtcTasks m = (case t of None \<Rightarrow> [] | Some x \<Rightarrow> [(n - 1, 0, x)])"

definition localDesc :: "rtcState \<Rightarrow> (sdpType \<times> string) option" where
  "localDesc m = pcLocal (rtcConns m ! 0)"

definition remoteDesc :: "rtcState \<Rightarrow> (sdpType \<times> string) option" where
  "remoteDesc m = pcRemote (rtcConns m ! 0)"

lemma running_suspend: "running n None m \<Longrightarrow> running (Suc n) (Some t) (suspend 0 t m)"
  by (simp add: running_def suspend_def)

lemma running_take: "running (Suc n) (Some t) m \<Longrightarrow>
  resumeTask e n a m = continueTask e 0 t a (m\<lparr>rtcTasks := []\<rparr>) \<and> running (Suc n) None (m\<lparr>rtcTasks := []\<rparr>)"
  by (simp add: running_def resumeTask_def)

lemma running_upd [simp]:
  "running n t (updConn 0 (\<lambda>c. c\<lparr>pcLocal := d\<rparr>) m) = running n t m" "running n t (updConn 0 (\<lambda>c. c\<lparr>pcRemote := d\<rparr>) m) = running n t m"
  "running n t (m\<lparr>isRemoteDescriptionSet := b\<rparr>) = running n t m" "running n t (rtcNotify x m) = running n t m"
  by (auto simp: running_def updConn_def rtcNotify_def)

lemma running_configure [simp]: "running n t (configureSenders e m) = running n t m"
  by (auto simp: running_def configureSenders_def updConn_def split: option.split)

lemma desc_frames [simp]:
  "localDesc (suspend i t m) = localDesc m" "remoteDesc (suspend i t m) = remoteDesc m"
  "localDesc (rtcNotify x m) = localDesc m" "remoteDesc (rtcNotify x m) = remoteDesc m"
  "localDesc (m\<lparr>rtcTasks := ts\<rparr>) = localDesc m" "remoteDesc (m\<lparr>rtcTasks := ts\<rparr>) = remoteDesc m"
  "localDesc (m\<lparr>isRemoteDescriptionSet := b\<rparr>) = localDesc m" "remoteDesc (m\<lparr>isRemoteDescriptionSet := b\<rparr>) = remoteDesc m"
  by (simp_all add: localDesc_def remoteDesc_def suspend_def rtcNotify_def)

lemma desc_upd:
  "running n t m \<Longrightarrow> localDesc (updConn 0 (\<lambda>c. c\<lparr>pcLocal := d\<rparr>) m) = d \<and> remoteDesc (updConn 0 (\<lambda>c. c\<lparr>pcLocal := d\<rparr>) m) = remoteDesc m"
  "running n t m \<Longrightarrow> remoteDesc (updConn 0 (\<lambda>c. c\<lparr>pcRemote := d\<rparr>) m) = d \<and> localDesc (updConn 0 (\<lambda>c. c\<lparr>pcRemote := d\<rparr>) m) = localDesc m"
  by (auto simp: running_def localDesc_def remoteDesc_def updConn_def)

lemma desc_configure:
  "running n t m \<Longrightarrow> localDesc (configureSenders e m) = localDesc m \<and> remoteDesc (configureSenders e m) = remoteDesc m"
  by (auto simp: running_def localDesc_def remoteDesc_def configureSenders_def updConn_def)

lemma stream_frames [simp]:
  "localStream (suspend i t m) = localStream m" "localStream (configureSenders e m) = localStream m"
  "localStream (rtcNotify x m) = localStream m" "localStream (updConn i f m) = localStream m"
  "pendingCandidates (updConn i f m) = pendingCandidates m" "pc (updConn i f m) = pc m"
  "notices (suspend i t m) = notices m" "notices (configureSenders e m) = notices m" "notices (updConn i f m) = notices m"
  "notices (rtcNotify x m) = notices m @ [x]"
  by (simp_all add: suspend_def configureSenders_def rtcNotify_def updConn_def split: option.split)

text \<open>What a manager has: its stage, its descriptions, its local stream, the callbacks it has made\<close>

definition stage :: "nat \<Rightarrow> rtcTask option \<Rightarrow> (sdpType \<times> string) option \<Rightarrow> (sdpType \<times> string) option \<Rightarrow> nat list \<Rightarrow> rtcNotice list \<Rightarrow> rtcState \<Rightarrow> bool" where
  "stage n t l r ids ns m \<longleftrightarrow> running n t m \<and> localDesc m = l \<and> remoteDesc m = r \<and> localStream m = Some ids \<and> notices m = ns"

lemma stage_steps:
  "stage (Suc n) (Some OfferCreated) l r ids ns m \<Longrightarrow>
     stage (Suc (Suc n)) (Some (OfferLocal (optimizeAudioSdp d))) l r ids ns (resumeTask e n (RtcSdp d) m)"
  "stage (Suc n) (Some (OfferLocal d)) l r ids ns m \<Longrightarrow>
     stage (Suc n) None (Some (SdpOffer, d)) r ids (ns @ [NReturned SdpOffer d]) (resumeTask e n RtcOk m)"
  "stage (Suc n) (Some (RemoteSet SdpOffer d)) l r ids ns m \<Longrightarrow>
     stage (Suc (Suc n)) (Some AnswerCreated) l (Some (SdpOffer, d)) ids ns (resumeTask e n RtcOk m)"
  "stage (Suc n) (Some AnswerCreated) l r ids ns m \<Longrightarrow>
     stage (Suc (Suc n)) (Some (AnswerLocal (optimizeAudioSdp d))) l r ids ns (resumeTask e n (RtcSdp d) m)"
  "stage (Suc n) (Some (AnswerLocal d)) l r ids ns m \<Longrightarrow>
     stage (Suc n) None (Some (SdpAnswer, d)) r ids (ns @ [NReturned SdpAnswer d]) (resumeTask e n RtcOk m)"
  "stage (Suc n) (Some (RemoteSet SdpAnswer d)) l r ids ns m \<Longrightarrow>
     stage (Suc n) None l (Some (SdpAnswer, d)) ids ns (resumeTask e n RtcOk m)"
  "stage n None l r ids ns m \<Longrightarrow> stage (Suc n) (Some (RemoteSet SdpAnswer (optimizeAudioSdp d))) l r ids ns (handleAnswer d m)"
proof -
  have p: "running k None x \<Longrightarrow> pc x = Some 0 \<and> pendingCandidates x = []" for k x by (simp add: running_def)
  note D = stage_def continueTask_def drainStep_def afterDrain_def running_suspend desc_upd desc_configure
  show "stage (Suc n) (Some OfferCreated) l r ids ns m \<Longrightarrow>
     stage (Suc (Suc n)) (Some (OfferLocal (optimizeAudioSdp d))) l r ids ns (resumeTask e n (RtcSdp d) m)"
    using running_take [of n OfferCreated m e "RtcSdp d"] by (simp add: D)
  show "stage (Suc n) (Some AnswerCreated) l r ids ns m \<Longrightarrow>
     stage (Suc (Suc n)) (Some (AnswerLocal (optimizeAudioSdp d))) l r ids ns (resumeTask e n (RtcSdp d) m)"
    using running_take [of n AnswerCreated m e "RtcSdp d"] by (simp add: D)
  show "stage (Suc n) (Some (OfferLocal d)) l r ids ns m \<Longrightarrow>
     stage (Suc n) None (Some (SdpOffer, d)) r ids (ns @ [NReturned SdpOffer d]) (resumeTask e n RtcOk m)"
    using running_take [of n "OfferLocal d" m e RtcOk] by (auto simp: D)
  show "stage (Suc n) (Some (AnswerLocal d)) l r ids ns m \<Longrightarrow>
     stage (Suc n) None (Some (SdpAnswer, d)) r ids (ns @ [NReturned SdpAnswer d]) (resumeTask e n RtcOk m)"
    using running_take [of n "AnswerLocal d" m e RtcOk] by (auto simp: D)
  show "stage (Suc n) (Some (RemoteSet SdpOffer d)) l r ids ns m \<Longrightarrow>
     stage (Suc (Suc n)) (Some AnswerCreated) l (Some (SdpOffer, d)) ids ns (resumeTask e n RtcOk m)"
    using running_take [of n "RemoteSet SdpOffer d" m e RtcOk] p [of "Suc n" "m\<lparr>rtcTasks := []\<rparr>"]
    by (auto simp: D)
  show "stage (Suc n) (Some (RemoteSet SdpAnswer d)) l r ids ns m \<Longrightarrow>
     stage (Suc n) None l (Some (SdpAnswer, d)) ids ns (resumeTask e n RtcOk m)"
    using running_take [of n "RemoteSet SdpAnswer d" m e RtcOk] p [of "Suc n" "m\<lparr>rtcTasks := []\<rparr>"]
    by (auto simp: D)
  show "stage n None l r ids ns m \<Longrightarrow> stage (Suc n) (Some (RemoteSet SdpAnswer (optimizeAudioSdp d))) l r ids ns (handleAnswer d m)"
    using p [of n m] by (simp add: D handleAnswer_def)
qed

lemma startLocalStream_new:
  assumes "primaryMedia m = Some ks" "Audio \<in> set ks"
  shows "\<exists>ids s'. startLocalStream v f m newManager = (Inr ids, s') \<and> localStream s' = Some ids \<and> ids \<noteq> []
    \<and> (\<forall>t \<in> set ids. trackLive (rtcTracks s' ! t))
    \<and> pc s' = None \<and> rtcConns s' = [] \<and> rtcTasks s' = [] \<and> nextTask s' = 0 \<and> pendingCandidates s' = [] \<and> notices s' = [NLocalStream ids]"
  using startLocalStream_granted [OF assms, of newManager v f] by (fastforce simp: newManager_def)

lemma stage_first:
  assumes "localStream s = Some ids" "pc s = None" "rtcConns s = []" "rtcTasks s = []" "nextTask s = 0" "pendingCandidates s = []"
    "notices s = ns"
  shows "stage 1 (Some t) None None ids (ns @ [NRemoteStream []]) (suspend 0 t (snd (initPeerConnection ice s)))
    \<and> fst (initPeerConnection ice s) = 0 \<and> rtcTracks (snd (initPeerConnection ice s)) = rtcTracks s"
  using assms
  by (simp add: stage_def running_def localDesc_def remoteDesc_def initPeerConnection_def Let_def suspend_def rtcNotify_def)

lemma callbacks_last:
  assumes "managers x = ms @ [(o', m)]" "notices m' = notices m @ ns"
  shows "callbacks (length ms) m' x = fold (onNotice (length ms) o') ns (x\<lparr>managers := ms @ [(o', m')]\<rparr>)"
  using assms by (simp add: callbacks_def)

text \<open>The operation that follows the local media, with the task it leaves\<close>

fun firstTask :: "callEvent \<Rightarrow> rtcTask option" where
  "firstTask (CreateOffer ice) = Some OfferCreated"
| "firstTask (OfferArrives ice sdp) = Some (RemoteSet SdpOffer (optimizeAudioSdp sdp))"
| "firstTask _ = None"

lemma camera_opens:
  assumes "managers x = ms @ [(o', newManager)]" "primaryMedia m = Some ks" "Audio \<in> set ks" "firstTask ev = Some t"
  shows "\<exists>ids mm. stage 1 (Some t) None None ids [NLocalStream ids, NRemoteStream []] mm \<and> ids \<noteq> []
    \<and> (\<forall>k \<in> set ids. trackLive (rtcTracks mm ! k))
    \<and> cameraReady (length ms) f m ev x
      = x\<lparr>localShown := Some (length ms, ids), remoteShown := Some (length ms, []), managers := ms @ [(o', mm)]\<rparr>"
proof -
  obtain ids s' where st: "startLocalStream (ownVideo o') f m newManager = (Inr ids, s')" "localStream s' = Some ids" "ids \<noteq> []"
    "\<forall>k \<in> set ids. trackLive (rtcTracks s' ! k)" "pc s' = None" "rtcConns s' = []" "rtcTasks s' = []" "nextTask s' = 0"
    "pendingCandidates s' = []" "notices s' = [NLocalStream ids]"
    using startLocalStream_new [OF assms(2,3), of "ownVideo o'" f] by blast
  obtain ice where ev: "callStep ev s' = suspend 0 t (snd (initPeerConnection ice s'))"
    using assms(4) stage_first [OF st(2,5-10)]
    by (cases ev) (auto simp: createOffer_def handleOffer_def split_beta)
  define mm where "mm = suspend 0 t (snd (initPeerConnection ice s'))"
  have mm: "stage 1 (Some t) None None ids [NLocalStream ids, NRemoteStream []] mm" "rtcTracks mm = rtcTracks s'"
    using stage_first [OF st(2,5-10), of t ice] by (simp_all add: mm_def) (simp add: suspend_def)
  define y where "y = x\<lparr>localShown := Some (length ms, ids), managers := ms @ [(o', s')]\<rparr>"
  have "callbacks (length ms) s' x = y"
    using callbacks_last [OF assms(1), of s' "[NLocalStream ids]"] st(10) by (simp add: newManager_def onNotice_def y_def)
  moreover have "atManager (length ms) ev y
      = x\<lparr>localShown := Some (length ms, ids), remoteShown := Some (length ms, []), managers := ms @ [(o', mm)]\<rparr>"
    using callbacks_last [of y ms o' s' mm "[NRemoteStream []]"] mm(1) st(10)
    by (simp add: atManager_def y_def ev mm_def [symmetric] onNotice_def stage_def)
  ultimately have "cameraReady (length ms) f m ev x
      = x\<lparr>localShown := Some (length ms, ids), remoteShown := Some (length ms, []), managers := ms @ [(o', mm)]\<rparr>"
    by (simp add: cameraReady_def assms(1) st(1))
  then show ?thesis using mm st(3,4) by (intro exI [of _ ids] exI [of _ mm]) simp
qed

lemma resumeCall_last:
  "callTasks x = ts @ [(n, t)] \<Longrightarrow> \<forall>(k, t) \<in> set ts. k < n \<Longrightarrow> answersTask t a \<Longrightarrow>
   resumeCall me n a x = goOn me t a (x\<lparr>callTasks := ts\<rparr>)"
  using lookup_last [of ts n t] by (simp add: resumeCall_def filter_below del: map_of_append)

lemma start_goes_on:
  assumes "callTasks x = ts @ [(n, StartServers c p v)]" "\<forall>(k, t) \<in> set ts. k < n" "nextCallTask x = Suc n"
    and "primaryMedia m = Some ks" "Audio \<in> set ks"
  shows "\<exists>ids mm. stage 1 (Some OfferCreated) None None ids [NLocalStream ids, NRemoteStream []] mm \<and> ids \<noteq> []
    \<and> (\<forall>k \<in> set ids. trackLive (rtcTracks mm ! k))
    \<and> resumeCall me (Suc n) (Media f m) (resumeCall me n (Servers ice) x)
      = x\<lparr>callTasks := ts, nextCallTask := Suc (Suc n), webrtcRef := Some (length (managers x)),
          localShown := Some (length (managers x), ids), remoteShown := Some (length (managers x), []),
          managers := managers x @ [(\<lparr>ownCall = c, ownPeer = p, ownCaller = True, ownVideo = v, ownServers = ice\<rparr>, mm)]\<rparr>"
proof -
  define o' where "o' = \<lparr>ownCall = c, ownPeer = p, ownCaller = True, ownVideo = v, ownServers = ice\<rparr>"
  define y where "y = x\<lparr>nextCallTask := Suc (Suc n), callTasks := ts @ [(Suc n, StartCamera (length (managers x)))],
     webrtcRef := Some (length (managers x)), managers := managers x @ [(o', newManager)]\<rparr>"
  have y: "resumeCall me n (Servers ice) x = y"
    using assms(3) by (simp add: resumeCall_last [OF assms(1,2)] goOn_def addManager_def waitFor_def y_def o'_def)
  have below: "\<forall>(k, t) \<in> set ts. k < Suc n" using assms(2) by auto
  have "resumeCall me (Suc n) (Media f m) y
      = cameraReady (length (managers x)) f m (CreateOffer ice) (y\<lparr>callTasks := ts\<rparr>)"
    by (subst resumeCall_last [of _ ts _ "StartCamera (length (managers x))"]) (use below in \<open>simp_all add: y_def goOn_def o'_def\<close>)
  moreover obtain ids mm where "stage 1 (Some OfferCreated) None None ids [NLocalStream ids, NRemoteStream []] mm" "ids \<noteq> []"
    "\<forall>k \<in> set ids. trackLive (rtcTracks mm ! k)"
    "cameraReady (length (managers x)) f m (CreateOffer ice) (y\<lparr>callTasks := ts\<rparr>)
      = y\<lparr>callTasks := ts, localShown := Some (length (managers x), ids), remoteShown := Some (length (managers x), []),
          managers := managers x @ [(o', mm)]\<rparr>"
    using camera_opens [of "y\<lparr>callTasks := ts\<rparr>" "managers x" o' m ks "CreateOffer ice" OfferCreated f] assms(4,5)
    by (auto simp: y_def)
  ultimately show ?thesis by (intro exI [of _ ids] exI [of _ mm]) (simp add: y y_def o'_def)
qed

lemma accept_goes_on:
  assumes "callTasks x = ts @ [(n, AcceptServers sdp c p v)]" "\<forall>(k, t) \<in> set ts. k < n" "nextCallTask x = Suc n"
    and "primaryMedia m = Some ks" "Audio \<in> set ks" "earlyCandidates x = []"
  shows "\<exists>ids mm. stage 1 (Some (RemoteSet SdpOffer (optimizeAudioSdp sdp))) None None ids [NLocalStream ids, NRemoteStream []] mm \<and> ids \<noteq> []
    \<and> resumeCall me (Suc n) (Media f m) (resumeCall me n (Servers ice) x)
      = x\<lparr>callTasks := ts, nextCallTask := Suc (Suc n), webrtcRef := Some (length (managers x)),
          localShown := Some (length (managers x), ids), remoteShown := Some (length (managers x), []),
          managers := managers x @ [(\<lparr>ownCall = c, ownPeer = p, ownCaller = False, ownVideo = v, ownServers = ice\<rparr>, mm)]\<rparr>"
proof -
  define o' where "o' = \<lparr>ownCall = c, ownPeer = p, ownCaller = False, ownVideo = v, ownServers = ice\<rparr>"
  define y where "y = x\<lparr>nextCallTask := Suc (Suc n), callTasks := ts @ [(Suc n, AcceptCamera (length (managers x)) sdp)],
     webrtcRef := Some (length (managers x)), managers := managers x @ [(o', newManager)]\<rparr>"
  have y: "resumeCall me n (Servers ice) x = y"
    using assms(3,6) by (simp add: resumeCall_last [OF assms(1,2)] goOn_def addManager_def drainEarly_def waitFor_def y_def o'_def)
  have below: "\<forall>(k, t) \<in> set ts. k < Suc n" using assms(2) by auto
  have "resumeCall me (Suc n) (Media f m) y
      = cameraReady (length (managers x)) f m (OfferArrives ice sdp) (y\<lparr>callTasks := ts\<rparr>)"
    by (subst resumeCall_last [of _ ts _ "AcceptCamera (length (managers x)) sdp"]) (use below in \<open>simp_all add: y_def goOn_def o'_def\<close>)
  moreover obtain ids mm where "stage 1 (Some (RemoteSet SdpOffer (optimizeAudioSdp sdp))) None None ids [NLocalStream ids, NRemoteStream []] mm" "ids \<noteq> []"
    "cameraReady (length (managers x)) f m (OfferArrives ice sdp) (y\<lparr>callTasks := ts\<rparr>)
      = y\<lparr>callTasks := ts, localShown := Some (length (managers x), ids), remoteShown := Some (length (managers x), []),
          managers := managers x @ [(o', mm)]\<rparr>"
    using camera_opens [of "y\<lparr>callTasks := ts\<rparr>" "managers x" o' m ks "OfferArrives ice sdp" "RemoteSet SdpOffer (optimizeAudioSdp sdp)" f] assms(4,5)
    by (auto simp: y_def)
  ultimately show ?thesis by (intro exI [of _ ids] exI [of _ mm]) (simp add: y y_def o'_def)
qed

section \<open>A call between two pages\<close>

lemma optimizeAudioSdp_idem: "optimizeAudioSdp (optimizeAudioSdp d) = optimizeAudioSdp d"
proof (cases "findOpus (splitCrlf d)")
  case (Some pt)
  note edit = optimizeAudioSdp_edit [OF Some]
  have "findOpus (splitCrlf (optimizeAudioSdp d)) = Some pt" using Some edit by simp
  from optimizeAudioSdp_edit(1) [OF this] show ?thesis using edit by (simp add: editLines_idem)
qed (simp add: optimizeAudioSdp_def)

lemma optimizeAudioSdp_not_Nil: "d \<noteq> [] \<Longrightarrow> optimizeAudioSdp d \<noteq> []"
proof (cases "findOpus (splitCrlf d)")
  case (Some pt)
  show ?thesis
  proof
    assume "optimizeAudioSdp d = []"
    then have "editLines pt (splitCrlf d) = [[]]" using optimizeAudioSdp_edit(2) [OF Some] by simp
    then have "findOpus [[]] = Some pt" using findOpus_editLines [of pt "splitCrlf d"] Some by simp
    then show False by (simp add: opusRtpmap_def startsWith_def toLowerCase_def)
  qed
qed (simp add: optimizeAudioSdp_def)

lemma resume_last:
  assumes "managers x = ms @ [(o', m)]" "stage (Suc n) (Some t) l r ids ns m" "notices (resumeTask e n a m) = ns @ new" "NThrown \<notin> set new"
  shows "resumeManager (length ms) e n a x
    = (let y = fold (onNotice (length ms) o') new (x\<lparr>managers := ms @ [(o', resumeTask e n a m)]\<rparr>)
       in if answerTask t \<and> nextTask (resumeTask e n a m) = Suc n then y\<lparr>callState := CallConnected\<rparr> else y)"
proof -
  have m: "notices m = ns" "nextTask m = Suc n" "rtcTasks m = [(n, 0, t)]" "pcOpen (rtcConns m ! 0)"
    using assms(2) by (simp_all add: stage_def running_def)
  show ?thesis
    unfolding resumeManager_def Let_def assms(1)
    using callbacks_last [OF assms(1), of "resumeTask e n a m" new] assms(3,4) by (simp add: m)
qed

lemma stage_next: "stage n t l r ids ns m \<Longrightarrow> nextTask m = n \<and> notices m = ns \<and> pc m = Some 0"
  by (simp add: stage_def running_def)

text \<open>What a page and its current manager have\<close>

definition inCall :: "(callOwner \<times> rtcState) list \<Rightarrow> callOwner \<Rightarrow> rtcState \<Rightarrow> callPage \<Rightarrow> bool" where
  "inCall ms o' m x \<longleftrightarrow> managers x = ms @ [(o', m)] \<and> webrtcRef x = Some (length ms) \<and> \<not> groupActive x
     \<and> activeCallId x = ownCall o' \<and> activeCallPeer x = ownPeer o'"

lemma inCall_resume:
  assumes "inCall ms o' m x" "stage (Suc n) (Some t) l r ids ns m" "stage k u l' r' ids ns (resumeTask e n a m)"
  shows "inCall ms o' (resumeTask e n a m) (resumeManager (length ms) e n a x)
    \<and> callState (resumeManager (length ms) e n a x) = (if answerTask t \<and> k = Suc n then CallConnected else callState x)
    \<and> sentSignals (resumeManager (length ms) e n a x) = sentSignals x"
proof -
  have "notices (resumeTask e n a m) = ns @ []" "nextTask (resumeTask e n a m) = k" using stage_next [OF assms(3)] by simp_all
  with resume_last [OF _ assms(2) this(1)] assms(1) show ?thesis by (simp add: inCall_def Let_def)
qed

lemma inCall_returns:
  assumes "inCall ms o' m x" "stage (Suc n) (Some t) l r ids ns m" "\<not> answerTask t"
    and "stage k u l' r' ids (ns @ [NReturned kind d]) (resumeTask e n a m)"
  shows "inCall ms o' (resumeTask e n a m) (resumeManager (length ms) e n a x)
    \<and> callState (resumeManager (length ms) e n a x) = callState x
    \<and> (\<exists>g. sentSignals (resumeManager (length ms) e n a x) = sentSignals x @ [g] \<and> sigSdp g = d \<and> sigCallId g = ownCall o'
        \<and> sigTarget g = ownPeer o' \<and> sigChannelId g = [] \<and> signalType g = (case kind of SdpOffer \<Rightarrow> ''offer'' | SdpAnswer \<Rightarrow> ''answer'')
        \<and> (kind = SdpOffer \<longrightarrow> sigVideo g = Some (ownVideo o')))"
proof -
  have n: "notices (resumeTask e n a m) = ns @ [NReturned kind d]" using stage_next [OF assms(4)] by simp
  have "resumeManager (length ms) e n a x
    = onNotice (length ms) o' (NReturned kind d) (x\<lparr>managers := ms @ [(o', resumeTask e n a m)]\<rparr>)"
    using resume_last [OF _ assms(2) n] assms(1,3) by (simp add: inCall_def Let_def)
  then show ?thesis using assms(1)
    by (cases kind) (simp_all add: onNotice_def Let_def inCall_def sendSignal_def plainSignal_def)
qed

text \<open>The caller up to its offer\<close>

lemma caller_offers:
  assumes "callPageOk s" "\<not> groupActive s" "primaryMedia m = Some ks" "Audio \<in> set ks"
    and n: "n = nextCallTask s" and i: "i = length (managers s)"
    and s': "s' = fold callPageStep [PStart (Some p) c v, PGoOn me n (Servers ice), PGoOn me (Suc n) (Media f m),
               PResume i e 0 (RtcSdp d), PResume i e 1 RtcOk] s"
  shows "\<exists>o' ids mm ns. inCall (managers s) o' mm s' \<and> ownCall o' = c \<and> ownPeer o' = p \<and> ids \<noteq> [] \<and> callState s' = CallOutgoing
    \<and> stage 2 None (Some (SdpOffer, optimizeAudioSdp d)) None ids ns mm
    \<and> (\<exists>g. last (sentSignals s') = g \<and> sigSdp g = optimizeAudioSdp d \<and> sigCallId g = c \<and> sigTarget g = p \<and> sigChannelId g = []
         \<and> signalType g = ''offer'' \<and> sigVideo g = Some v)"
proof -
  define o' where "o' = \<lparr>ownCall = c, ownPeer = p, ownCaller = True, ownVideo = v, ownServers = ice\<rparr>"
  define x where "x = handleStartCall (Some p) c v s"
  have x: "callTasks x = callTasks s @ [(n, StartServers c p v)]" "nextCallTask x = Suc n" "managers x = managers s"
    "activeCallId x = c" "activeCallPeer x = p" "\<not> groupActive x" "callState x = CallOutgoing"
    using assms(2) by (simp_all add: x_def handleStartCall_def waitFor_def n)
  obtain ids mm where mm: "stage 1 (Some OfferCreated) None None ids [NLocalStream ids, NRemoteStream []] mm" "ids \<noteq> []"
    "resumeCall me (Suc n) (Media f m) (resumeCall me n (Servers ice) x)
      = x\<lparr>callTasks := callTasks s, nextCallTask := Suc (Suc n), webrtcRef := Some (length (managers x)),
          localShown := Some (length (managers x), ids), remoteShown := Some (length (managers x), []),
          managers := managers x @ [(o', mm)]\<rparr>"
    using start_goes_on [OF x(1) _ x(2) assms(3,4), of me f ice] ok_tasks_below [OF assms(1)] unfolding n [symmetric] o'_def by blast
  define y where "y = resumeCall me (Suc n) (Media f m) (resumeCall me n (Servers ice) x)"
  have y: "inCall (managers s) o' mm y" "callState y = CallOutgoing" using x mm(3) by (simp_all add: y_def inCall_def o'_def)
  define m1 where "m1 = resumeTask e 0 (RtcSdp d) mm"
  have st1: "stage (Suc (Suc 0)) (Some (OfferLocal (optimizeAudioSdp d))) None None ids [NLocalStream ids, NRemoteStream []] m1"
    unfolding m1_def using stage_steps(1) [of 0] mm(1) by simp
  define z where "z = resumeManager i e 0 (RtcSdp d) y"
  have z: "inCall (managers s) o' m1 z" "callState z = CallOutgoing"
    using inCall_resume [OF y(1) mm(1) [unfolded One_nat_def] st1 [unfolded m1_def]] y(2) by (simp_all add: z_def i m1_def)
  have st2: "stage (Suc (Suc 0)) None (Some (SdpOffer, optimizeAudioSdp d)) None ids
      ([NLocalStream ids, NRemoteStream []] @ [NReturned SdpOffer (optimizeAudioSdp d)]) (resumeTask e (Suc 0) RtcOk m1)"
    by (rule stage_steps(2) [OF st1])
  have s'z: "s' = resumeManager i e (Suc 0) RtcOk z" unfolding s' z_def y_def x_def using y(1) z(1)
    by (simp add: inCall_def y_def z_def x_def i)
  have "length (managers z) = Suc i" using z(1) by (simp add: inCall_def i)
  then show ?thesis
    using inCall_returns [OF z(1) st1 _ st2] st2 z(2) mm(2) unfolding s'z i
    by (intro exI [of _ o'] exI [of _ ids] exI [of _ "resumeTask e (Suc 0) RtcOk m1"] exI) (auto simp: o'_def numeral_2_eq_2)
qed

text \<open>The callee from the offer to its answer\<close>

lemma callee_answers:
  assumes "callPageOk s" "\<not> groupActive s" "earlyCandidates s = []" "primaryMedia m = Some ks" "Audio \<in> set ks"
    and g: "signalType g = ''offer''" "sigSdp g \<noteq> []" "sigChannelId g = []" "sigSenderId g \<noteq> []"
    and n: "n = nextCallTask s" and i: "i = length (managers s)"
    and s': "s' = fold callPageStep [PSignal me g, PAccept, PGoOn me n (Servers ice), PGoOn me (Suc n) (Media f m),
               PResume i e 0 RtcOk, PResume i e 1 (RtcSdp d), PResume i e 2 RtcOk] s"
  shows "\<exists>o' ids mm ns. inCall (managers s) o' mm s' \<and> ownCall o' = sigCallId g \<and> ownPeer o' = sigSenderId g \<and> ids \<noteq> []
    \<and> callState s' = CallConnected
    \<and> stage 3 None (Some (SdpAnswer, optimizeAudioSdp d)) (Some (SdpOffer, optimizeAudioSdp (sigSdp g))) ids ns mm
    \<and> (\<exists>h. last (sentSignals s') = h \<and> sigSdp h = optimizeAudioSdp d \<and> sigTarget h = sigSenderId g \<and> sigChannelId h = []
         \<and> signalType h = ''answer'')"
proof -
  define v where "v = videoOf g"
  define o' where "o' = \<lparr>ownCall = sigCallId g, ownPeer = sigSenderId g, ownCaller = False, ownVideo = v, ownServers = ice\<rparr>"
  define x where "x = handleAcceptCall (onCallSignal me g s)"
  have x: "callTasks x = callTasks s @ [(n, AcceptServers (sigSdp g) (sigCallId g) (sigSenderId g) v)]" "nextCallTask x = Suc n"
    "managers x = managers s" "activeCallId x = sigCallId g" "activeCallPeer x = sigSenderId g" "\<not> groupActive x"
    "callState x = CallConnected" "earlyCandidates x = []"
    using assms(2,3) g by (simp_all add: x_def onCallSignal_def directSignal_def handleAcceptCall_def waitFor_def n v_def)
  obtain ids mm where mm: "stage 1 (Some (RemoteSet SdpOffer (optimizeAudioSdp (sigSdp g)))) None None ids [NLocalStream ids, NRemoteStream []] mm"
    "ids \<noteq> []" "resumeCall me (Suc n) (Media f m) (resumeCall me n (Servers ice) x)
      = x\<lparr>callTasks := callTasks s, nextCallTask := Suc (Suc n), webrtcRef := Some (length (managers x)),
          localShown := Some (length (managers x), ids), remoteShown := Some (length (managers x), []),
          managers := managers x @ [(o', mm)]\<rparr>"
    using accept_goes_on [OF x(1) _ x(2) assms(4,5) x(8), of me f ice] ok_tasks_below [OF assms(1)] unfolding n [symmetric] o'_def by blast
  define y where "y = resumeCall me (Suc n) (Media f m) (resumeCall me n (Servers ice) x)"
  have y: "inCall (managers s) o' mm y" "callState y = CallConnected" using x mm(3) by (simp_all add: y_def inCall_def o'_def)
  define m1 where "m1 = resumeTask e 0 RtcOk mm"
  define m2 where "m2 = resumeTask e (Suc 0) (RtcSdp d) m1"
  let ?r = "Some (SdpOffer, optimizeAudioSdp (sigSdp g))" let ?ns = "[NLocalStream ids, NRemoteStream []]"
  have st1: "stage (Suc (Suc 0)) (Some AnswerCreated) None ?r ids ?ns m1"
    unfolding m1_def using stage_steps(3) [of 0] mm(1) by simp
  have st2: "stage (Suc (Suc (Suc 0))) (Some (AnswerLocal (optimizeAudioSdp d))) None ?r ids ?ns m2"
    unfolding m2_def by (rule stage_steps(4) [OF st1])
  have st3: "stage (Suc (Suc (Suc 0))) None (Some (SdpAnswer, optimizeAudioSdp d)) ?r ids (?ns @ [NReturned SdpAnswer (optimizeAudioSdp d)])
      (resumeTask e (Suc (Suc 0)) RtcOk m2)"
    by (rule stage_steps(5) [OF st2])
  define z1 where "z1 = resumeManager i e 0 RtcOk y"
  define z2 where "z2 = resumeManager i e (Suc 0) (RtcSdp d) z1"
  have z1: "inCall (managers s) o' m1 z1" "callState z1 = CallConnected"
    using inCall_resume [OF y(1) mm(1) [unfolded One_nat_def] st1 [unfolded m1_def]] y(2) by (simp_all add: z1_def i m1_def)
  have z2: "inCall (managers s) o' m2 z2" "callState z2 = CallConnected"
    using inCall_resume [OF z1(1) st1 st2 [unfolded m2_def]] z1(2) by (simp_all add: z2_def i m2_def)
  have s'z: "s' = resumeManager i e (Suc (Suc 0)) RtcOk z2" unfolding s' z2_def z1_def y_def x_def
    using y(1) z1(1) z2(1) by (simp add: inCall_def y_def z1_def z2_def x_def i numeral_2_eq_2)
  show ?thesis
    using inCall_returns [OF z2(1) st2 _ st3] st3 z2(2) mm(2) unfolding s'z i
    by (intro exI [of _ o'] exI [of _ ids] exI [of _ "resumeTask e (Suc (Suc 0)) RtcOk m2"] exI) (auto simp: o'_def numeral_3_eq_3)
qed

definition sentBy :: "string \<Rightarrow> callSignal \<Rightarrow> callSignal" where
  "sentBy user g = g\<lparr>sigSenderId := user\<rparr>"

text \<open>
  C22. A call between two pages is established: the caller dials, its offer is delivered, the callee
  accepts, its answer is delivered, and each browser does what it is asked. Then both pages are
  connected in the same call with each other, both send a local stream, and each end holds as the
  remote description what the other holds as its local one.
\<close>

theorem call_established:
  assumes a: "callPageOk a" "\<not> groupActive a" "primaryMedia ma = Some ka" "Audio \<in> set ka"
    and b: "callPageOk b" "\<not> groupActive b" "earlyCandidates b = []" "primaryMedia mb = Some kb" "Audio \<in> set kb"
    and names: "alice \<noteq> []" "d \<noteq> []" "d' \<noteq> []"
    and n: "n = nextCallTask a" "k = nextCallTask b" and i: "i = length (managers a)" "j = length (managers b)"
    and a1: "a1 = fold callPageStep [PStart (Some bob) c v, PGoOn alice n (Servers iceA), PGoOn alice (Suc n) (Media fa ma),
               PResume i ea 0 (RtcSdp d), PResume i ea 1 RtcOk] a"
    and b1: "b1 = fold callPageStep [PSignal bob (sentBy alice (last (sentSignals a1))), PAccept, PGoOn bob k (Servers iceB),
               PGoOn bob (Suc k) (Media fb mb), PResume j eb 0 RtcOk, PResume j eb 1 (RtcSdp d'), PResume j eb 2 RtcOk] b"
    and a2: "a2 = fold callPageStep [PSignal alice (sentBy bob (last (sentSignals b1))), PResume i ea 2 RtcOk] a1"
  shows "callState a2 = CallConnected \<and> callState b1 = CallConnected
    \<and> activeCallId a2 = c \<and> activeCallId b1 = c \<and> activeCallPeer a2 = bob \<and> activeCallPeer b1 = alice
    \<and> webrtcRef a2 = Some i \<and> webrtcRef b1 = Some j
    \<and> localDesc (snd (managers a2 ! i)) = remoteDesc (snd (managers b1 ! j)) \<and> localDesc (snd (managers a2 ! i)) \<noteq> None
    \<and> localDesc (snd (managers b1 ! j)) = remoteDesc (snd (managers a2 ! i)) \<and> localDesc (snd (managers b1 ! j)) \<noteq> None
    \<and> localStream (snd (managers a2 ! i)) \<noteq> None \<and> localStream (snd (managers b1 ! j)) \<noteq> None"
proof -
  obtain oa ia na ga where A: "inCall (managers a) oa na a1" "ownCall oa = c" "ownPeer oa = bob"
    "callState a1 = CallOutgoing" and sA: "\<exists>ns. stage 2 None (Some (SdpOffer, optimizeAudioSdp d)) None ia ns na"
    and ga: "last (sentSignals a1) = ga" "sigSdp ga = optimizeAudioSdp d" "sigCallId ga = c" "sigChannelId ga = []" "signalType ga = ''offer''"
    using caller_offers [OF a n(1) i(1) a1] by blast
  define g where "g = sentBy alice (last (sentSignals a1))"
  have g: "signalType g = ''offer''" "sigSdp g \<noteq> []" "sigChannelId g = []" "sigSenderId g \<noteq> []" "sigSdp g = optimizeAudioSdp d"
    "sigCallId g = c" "sigSenderId g = alice"
    using ga names optimizeAudioSdp_not_Nil [OF names(2)] by (simp_all add: g_def sentBy_def)
  obtain ob ib nb hb where B: "inCall (managers b) ob nb b1" "ownCall ob = c" "ownPeer ob = alice" "callState b1 = CallConnected"
    and sB: "\<exists>ns. stage 3 None (Some (SdpAnswer, optimizeAudioSdp d')) (Some (SdpOffer, optimizeAudioSdp d)) ib ns nb"
    and hb: "last (sentSignals b1) = hb" "sigSdp hb = optimizeAudioSdp d'" "sigChannelId hb = []" "signalType hb = ''answer''"
    using callee_answers [OF b g(1-4) n(2) i(2) b1 [folded g_def]] unfolding g(5-7) optimizeAudioSdp_idem by blast
  define h where "h = sentBy bob (last (sentSignals b1))"
  have h: "signalType h = ''answer''" "sigSdp h = optimizeAudioSdp d'" "sigSdp h \<noteq> []" "sigChannelId h = []"
    using hb optimizeAudioSdp_not_Nil [OF names(3)] by (simp_all add: h_def sentBy_def)
  obtain ns where st: "stage (Suc (Suc 0)) None (Some (SdpOffer, optimizeAudioSdp d)) None ia ns na"
    using sA by (auto simp: numeral_2_eq_2)
  define na1 where "na1 = handleAnswer (sigSdp h) na"
  have st1: "stage (Suc (Suc (Suc 0))) (Some (RemoteSet SdpAnswer (optimizeAudioSdp d'))) (Some (SdpOffer, optimizeAudioSdp d)) None ia ns na1"
    using stage_steps(7) [OF st, of "sigSdp h"] by (simp add: na1_def h(2) optimizeAudioSdp_idem)
  define x where "x = onCallSignal alice h a1"
  have na1: "handleAnswer (optimizeAudioSdp d') na = na1" by (simp add: na1_def h(2))
  have "x = a1\<lparr>managers := managers a @ [(oa, na1)]\<rparr>"
    using A(1) h stage_next [OF st] stage_next [OF st1] callbacks_last [of a1 "managers a" oa na na1 "[]"]
    by (simp add: x_def onCallSignal_def directSignal_def answerCall_def inCall_def atManager_def na1 Let_def)
  then have x: "inCall (managers a) oa na1 x" using A(1) by (simp add: inCall_def)
  have st2: "stage (Suc (Suc (Suc 0))) None (Some (SdpOffer, optimizeAudioSdp d)) (Some (SdpAnswer, optimizeAudioSdp d')) ia ns
      (resumeTask ea (Suc (Suc 0)) RtcOk na1)"
    by (rule stage_steps(6) [OF st1])
  have a2x: "a2 = resumeManager i ea (Suc (Suc 0)) RtcOk x"
    using x by (simp add: a2 h_def [symmetric] x_def [symmetric] inCall_def i numeral_2_eq_2)
  have "inCall (managers a) oa (resumeTask ea (Suc (Suc 0)) RtcOk na1) a2 \<and> callState a2 = CallConnected"
    using inCall_resume [OF x st1 st2] by (simp add: a2x i)
  then show ?thesis using st2 B A(2,3) sB i by (auto simp: inCall_def stage_def)
qed

section \<open>Calls that are not over\<close>

text \<open>
  A call that is ended while the ICE servers are fetched goes on: the handler opens the
  microphone and the camera all the same, and the page, which is idle and shows no call, holds a
  manager whose tracks are live.
\<close>

theorem ended_call_opens_camera:
  assumes "callPageOk s" "primaryMedia m = Some ks" "Audio \<in> set ks" and n: "n = nextCallTask s"
    and s': "s' = fold callPageStep [PStart (Some p) c v, PEnd, PGoOn me n (Servers ice), PGoOn me (Suc n) (Media f m)] s"
  shows "callState s' = CallIdle \<and> activeCallId s' = []
    \<and> (\<exists>i ids. webrtcRef s' = Some i \<and> localStream (snd (managers s' ! i)) = Some ids \<and> ids \<noteq> []
         \<and> (\<forall>t \<in> set ids. trackLive (rtcTracks (snd (managers s' ! i)) ! t)))"
proof -
  define x where "x = handleEndCall (handleStartCall (Some p) c v s)"
  have x: "callTasks x = callTasks s @ [(n, StartServers c p v)]" "nextCallTask x = Suc n" "callState x = CallIdle" "activeCallId x = []"
    by (simp_all add: x_def handleStartCall_def waitFor_def n)
  obtain ids mm where mm: "stage 1 (Some OfferCreated) None None ids [NLocalStream ids, NRemoteStream []] mm" "ids \<noteq> []"
    "\<forall>k \<in> set ids. trackLive (rtcTracks mm ! k)"
    "resumeCall me (Suc n) (Media f m) (resumeCall me n (Servers ice) x)
      = x\<lparr>callTasks := callTasks s, nextCallTask := Suc (Suc n), webrtcRef := Some (length (managers x)),
          localShown := Some (length (managers x), ids), remoteShown := Some (length (managers x), []),
          managers := managers x @ [(\<lparr>ownCall = c, ownPeer = p, ownCaller = True, ownVideo = v, ownServers = ice\<rparr>, mm)]\<rparr>"
    using start_goes_on [OF x(1) _ x(2) assms(2,3), of me f ice] ok_tasks_below [OF assms(1)] unfolding n [symmetric] by blast
  have s'x: "s' = resumeCall me (Suc n) (Media f m) (resumeCall me n (Servers ice) x)" by (simp add: s' x_def)
  show ?thesis
    unfolding s'x mm(4) using mm(1,2,3) x(3,4)
    by (intro conjI exI [of _ "length (managers x)"] exI [of _ ids]) (simp_all add: stage_def)
qed

text \<open>
  An offer during a call takes the place of the call: when the user rejects it or lets it ring,
  the page is idle while the first call goes on, its tracks live and its manager still current; when
  the user accepts it, the first manager is forgotten, and ending the call does not stop it.
\<close>

theorem second_call_hides_first:
  assumes "callPageOk s" "\<not> groupActive s" "webrtcRef s = Some i"
    and g: "signalType g = ''offer''" "sigSdp g \<noteq> []" and n: "n = nextCallTask s"
    and ev: "ev = PReject \<or> ev = PTimeout"
  shows "callState (fold callPageStep [PSignal me g, ev] s) = CallIdle
    \<and> managers (fold callPageStep [PSignal me g, ev] s) = managers s
    \<and> webrtcRef (fold callPageStep [PSignal me g, ev] s) = Some i
    \<and> webrtcRef (fold callPageStep [PSignal me g, PAccept, PGoOn me n (Servers ice), PEnd] s) = None
    \<and> managers (fold callPageStep [PSignal me g, PAccept, PGoOn me n (Servers ice), PEnd] s) ! i = managers s ! i"
proof -
  define r where "r = onCallSignal me g s"
  have r: "managers r = managers s" "webrtcRef r = Some i" "callState r = CallIncoming" "nextCallTask r = n" "callTasks r = callTasks s"
    "pendingOffer r = Some (sigSdp g, videoOf g)"
    using assms(2,3) g by (simp_all add: r_def onCallSignal_def directSignal_def n)
  have 1: "callState (callPageStep ev r) = CallIdle" "managers (callPageStep ev r) = managers s" "webrtcRef (callPageStep ev r) = Some i"
    using ev r by (auto simp: handleRejectCall_def ringTimeout_def clearCall_def tellPeer_def sendSignal_def)
  define x where "x = handleAcceptCall r"
  have x: "callTasks x = callTasks s @ [(n, AcceptServers (sigSdp g) (activeCallId r) (activeCallPeer r) (videoOf g))]"
    "managers x = managers s" by (simp_all add: x_def handleAcceptCall_def r waitFor_def)
  have i: "i < length (managers s)" using assms(1,3) by (rule ok_ref)
  define k where "k = length (managers s)"
  define y where "y = resumeCall me n (Servers ice) x"
  have keep: "managers (fold (\<lambda>c. atManager k (CandidateArrives c)) cs t) ! i = managers t ! i
      \<and> webrtcRef (fold (\<lambda>c. atManager k (CandidateArrives c)) cs t) = webrtcRef t
      \<and> length (managers (fold (\<lambda>c. atManager k (CandidateArrives c)) cs t)) = length (managers t)" if "k < length (managers t)" for cs t
    using that
  proof (induction cs arbitrary: t)
    case (Cons c cs)
    have n0: "notices (addIceCandidate c m) = notices m" for m
      by (simp add: addIceCandidate_def handCandidate_def updConn_def split: option.split)
    then have "atManager k (CandidateArrives c) t
      = t\<lparr>managers := (managers t)[k := (fst (managers t ! k), addIceCandidate c (snd (managers t ! k)))]\<rparr>"
      by (simp add: atManager_def callbacks_def Let_def)
    then show ?case using Cons i by (simp add: k_def)
  qed simp
  have "y = waitFor (AcceptCamera k (sigSdp g)) (drainEarly k
      (addManager \<lparr>ownCall = activeCallId r, ownPeer = activeCallPeer r, ownCaller = False, ownVideo = videoOf g, ownServers = ice\<rparr>
        (x\<lparr>callTasks := callTasks s\<rparr>)))"
    unfolding y_def using resumeCall_last [OF x(1)] ok_tasks_below [OF assms(1)] by (simp add: goOn_def x(2) k_def n)
  then have y: "managers y ! i = managers s ! i" "webrtcRef y = Some k"
    using keep i by (simp_all add: drainEarly_def addManager_def waitFor_def x(2) k_def nth_append)
  have "i \<noteq> k" using i by (simp add: k_def)
  then have "webrtcRef (handleEndCall y) = None" "managers (handleEndCall y) ! i = managers s ! i"
    using y by (simp_all add: handleEndCall_def dropCall_def hangupCurrent_def clearCall_def tellPeer_def sendSignal_def)
  with 1 show ?thesis by (simp add: r_def [symmetric] x_def [symmetric] y_def [symmetric])
qed

section \<open>Counting the participants of a group call\<close>

definition joins :: "string \<Rightarrow> string \<Rightarrow> string \<Rightarrow> callSignal" where
  "joins c ch u = (plainSignal ''group_join'' c)\<lparr>sigChannelId := ch, sigSenderId := u\<rparr>"

definition leaves :: "string \<Rightarrow> string \<Rightarrow> string \<Rightarrow> callSignal" where
  "leaves c ch u = (plainSignal ''group_leave'' c)\<lparr>sigChannelId := ch, sigSenderId := u\<rparr>"

definition listed :: "string \<Rightarrow> callPage \<Rightarrow> int option" where
  "listed ch s = map_option participantCount (jsGet (ongoingCalls s) ch)"

lemma ongoing_frame [simp]:
  "ongoingCalls (atCurrentGroup ev s) = ongoingCalls s"
proof -
  have "ongoingCalls (fold (onGroupNotice i o') ns t) = ongoingCalls t" for i o' ns t
    by (induction ns arbitrary: t) (simp_all add: onGroupNotice_def sendSignal_def split: groupNotice.split)
  then show ?thesis by (simp add: atCurrentGroup_def atGroup_def groupCallbacks_def Let_def split: option.split)
qed

lemma listed_join:
  "ch \<noteq> [] \<Longrightarrow> u \<noteq> me \<Longrightarrow> listed ch (onCallSignal me (joins c ch u) s)
     = Some (case listed ch s of None \<Rightarrow> 2 | Some n \<Rightarrow> max 1 ((if n = 0 then 1 else n) + 1))"
  by (auto simp: listed_def onCallSignal_def onGroupJoin_def joins_def plainSignal_def countJoin_def Let_def channelOf_def split: option.split)

lemma listed_leave:
  "ch \<noteq> [] \<Longrightarrow> listed ch (onCallSignal me (leaves c ch u) s)
     = (case listed ch s of None \<Rightarrow> None | Some n \<Rightarrow> if max 0 (n - 1) = 0 then None else Some (max 0 (n - 1)))"
  by (auto simp: listed_def onCallSignal_def onGroupLeave_def leaves_def plainSignal_def countLeave_def Let_def channelOf_def split: option.split)

lemma listed_joins:
  "ch \<noteq> [] \<Longrightarrow> me \<notin> set us \<Longrightarrow> listed ch s = None \<or> (\<exists>n \<ge> 1. listed ch s = Some n) \<Longrightarrow> us \<noteq> [] \<Longrightarrow>
   listed ch (fold (\<lambda>u. onCallSignal me (joins c ch u)) us s)
     = Some ((case listed ch s of None \<Rightarrow> 1 | Some n \<Rightarrow> n) + int (length us))"
proof (induction us arbitrary: s)
  case (Cons u us)
  define t where "t = onCallSignal me (joins c ch u) s"
  have t: "listed ch t = Some ((case listed ch s of None \<Rightarrow> 1 | Some n \<Rightarrow> n) + 1)"
    using Cons.prems listed_join [of ch u me c s] by (auto simp: t_def)
  show ?case
  proof (cases "us = []")
    case False
    have "listed ch t = None \<or> (\<exists>n \<ge> 1. listed ch t = Some n)" using t Cons.prems(3) by (auto split: option.split)
    with Cons False t show ?thesis by (simp add: t_def [symmetric])
  qed (use t in \<open>simp add: t_def [symmetric]\<close>)
qed simp

lemma listed_leaves:
  "ch \<noteq> [] \<Longrightarrow> listed ch s = Some (1 + int (length us)) \<Longrightarrow> listed ch (fold (\<lambda>u. onCallSignal me (leaves c ch u)) us s) = Some 1"
proof (induction us arbitrary: s)
  case (Cons u us)
  then have "listed ch (onCallSignal me (leaves c ch u) s) = Some (1 + int (length us))"
    using listed_leave [of ch me c u s] by simp
  with Cons show ?case by simp
qed simp

text \<open>
  A group call that others started and ended stays listed: the first participant counts twice,
  so after all that joined have left the call is still shown, with one participant.
\<close>

theorem ended_group_call_stays_listed:
  assumes "ch \<noteq> []" "us \<noteq> []" "me \<notin> set us" "listed ch s = None"
  shows "listed ch (fold (\<lambda>u. onCallSignal me (joins c ch u)) us s) = Some (1 + int (length us))
    \<and> listed ch (fold (\<lambda>u. onCallSignal me (leaves c ch u)) us (fold (\<lambda>u. onCallSignal me (joins c ch u)) us s)) = Some 1"
  using listed_joins [of ch me us s c] listed_leaves [of ch _ us me c] assms by simp

section \<open>The statements at concrete inputs\<close>

theorem call_page_consistent_witness:
  "activeCallPeer (fold callPageStep [PStart (Some ''bob'') ''c1'' True, PEnd] newCallPage) = []"
proof -
  have "callState (fold callPageStep [PStart (Some ''bob'') ''c1'' True, PEnd] newCallPage) = CallIdle" by simp
  with call_page_consistent [OF refl, of "[PStart (Some ''bob'') ''c1'' True, PEnd]"] show ?thesis by blast
qed

definition demoOwner :: callOwner where
  "demoOwner = \<lparr>ownCall = ''c1'', ownPeer = ''bob'', ownCaller = True, ownVideo = True, ownServers = []\<rparr>"

definition demoCall :: callPage where
  "demoCall = newCallPage\<lparr>callState := CallConnected, activeCallId := ''c1'', activeCallPeer := ''bob'', webrtcRef := Some 0,
     managers := [(demoOwner, newManager)]\<rparr>"

lemma demoCall_ok: "callPageOk demoCall"
  by (simp add: demoCall_def callPageOk_def newCallPage_def rtcNew)

theorem every_exit_releases_witness:
  "sentSignals (callPageStep PEnd demoCall) = [(plainSignal ''hangup'' ''c1'')\<lparr>sigTarget := ''bob''\<rparr>]
   \<and> webrtcRef (callPageStep PEnd demoCall) = None"
  using every_exit_releases [of PEnd demoCall 0, OF _ _ _ refl]
  by (simp add: exits_def demoCall_def newCallPage_def)

definition demoMedia :: mediaAnswers where
  "demoMedia = \<lparr>primaryMedia = Some [Audio], audioOnlyMedia = None, silentAudio = False\<rparr>"

theorem ended_call_opens_camera_witness:
  "callState (fold callPageStep [PStart (Some ''bob'') ''c1'' False, PEnd, PGoOn ''alice'' 0 (Servers []), PGoOn ''alice'' (Suc 0) (Media False demoMedia)]
     newCallPage) = CallIdle
   \<and> webrtcRef (fold callPageStep [PStart (Some ''bob'') ''c1'' False, PEnd, PGoOn ''alice'' 0 (Servers []), PGoOn ''alice'' (Suc 0) (Media False demoMedia)]
     newCallPage) \<noteq> None"
  using ended_call_opens_camera [OF callPageOk_new, of demoMedia "[Audio]" 0 _ "''bob''" "''c1''" False "''alice''" "[]" False, OF _ _ _ refl]
  by (simp add: demoMedia_def newCallPage_def) blast

theorem second_call_hides_first_witness:
  "callState (fold callPageStep [PSignal ''alice'' ((plainSignal ''offer'' ''c2'')\<lparr>sigSdp := ''v=0''\<rparr>), PReject] demoCall) = CallIdle
   \<and> webrtcRef (fold callPageStep [PSignal ''alice'' ((plainSignal ''offer'' ''c2'')\<lparr>sigSdp := ''v=0''\<rparr>), PReject] demoCall) = Some 0"
proof -
  have d: "\<not> groupActive demoCall" "webrtcRef demoCall = Some 0" by (simp_all add: demoCall_def newCallPage_def)
  have g: "signalType ((plainSignal ''offer'' ''c2'')\<lparr>sigSdp := ''v=0''\<rparr>) = ''offer''" "sigSdp ((plainSignal ''offer'' ''c2'')\<lparr>sigSdp := ''v=0''\<rparr>) \<noteq> []"
    by (simp_all add: plainSignal_def)
  show ?thesis using second_call_hides_first [OF demoCall_ok d g refl, of PReject "''alice''"] by blast
qed

theorem ended_group_call_stays_listed_witness:
  "listed ''chan_1'' (onCallSignal ''alice'' (leaves ''g1'' ''chan_1'' ''bob'') (onCallSignal ''alice'' (joins ''g1'' ''chan_1'' ''bob'') newCallPage)) = Some 1"
  using ended_group_call_stays_listed [of "''chan_1''" "[''bob'']" "''alice''" newCallPage "''g1''"]
  by (simp add: listed_def newCallPage_def)

definition demoDialled :: callPage where
  "demoDialled = fold callPageStep [PStart (Some ''bob'') ''c1'' False, PGoOn ''alice'' 0 (Servers []), PGoOn ''alice'' (Suc 0) (Media False demoMedia),
     PResume 0 False 0 (RtcSdp ''v=0''), PResume 0 False 1 RtcOk] newCallPage"

definition demoAnswered :: callPage where
  "demoAnswered = fold callPageStep [PSignal ''bob'' (sentBy ''alice'' (last (sentSignals demoDialled))), PAccept, PGoOn ''bob'' 0 (Servers []),
     PGoOn ''bob'' (Suc 0) (Media False demoMedia), PResume 0 False 0 RtcOk, PResume 0 False 1 (RtcSdp ''v=0''), PResume 0 False 2 RtcOk] newCallPage"

theorem call_established_witness:
  "callState (fold callPageStep [PSignal ''alice'' (sentBy ''bob'' (last (sentSignals demoAnswered))), PResume 0 False 2 RtcOk] demoDialled)
     = CallConnected \<and> callState demoAnswered = CallConnected"
proof -
  have m: "primaryMedia demoMedia = Some [Audio]" "Audio \<in> set [Audio]" by (simp_all add: demoMedia_def)
  have p: "\<not> groupActive newCallPage" "earlyCandidates newCallPage = []" "0 = nextCallTask newCallPage" "0 = length (managers newCallPage)"
    by (simp_all add: newCallPage_def)
  have t: "''alice'' \<noteq> []" "''v=0'' \<noteq> []" by simp_all
  show ?thesis
    using call_established [OF callPageOk_new p(1) m callPageOk_new p(1,2) m t(1) t(2) t(2) p(3) p(3) p(4) p(4)
        demoDialled_def demoAnswered_def refl] by blast
qed

end
