(* ===== verification/Wire_Format.thy ===== *)
theory Wire_Format
  imports E2ee_Session Mls_Group Json_Text
begin

text \<open>
  The texts that direct and group messages travel as: \<open>JSON.stringify\<close> of the envelopes of
  \<open>packages/client-web/src/lib/e2ee-ratchet.ts\<close> and \<open>packages/client-web/src/lib/mls-group-manager.ts\<close>, and
  what \<open>JSON.parse\<close> makes of a text. A member that is missing, or is not of the type its interface
  declares, is read as absent.
\<close>

section \<open>Members\<close>

definition strField :: "json \<Rightarrow> string \<Rightarrow> string" where
  "strField j f = (case member j f of Some (JStr s) \<Rightarrow> s | _ \<Rightarrow> [])"

definition optStr :: "json \<Rightarrow> string \<Rightarrow> string option" where
  "optStr j f = (case member j f of Some (JStr s) \<Rightarrow> Some s | _ \<Rightarrow> None)"

definition optNum :: "json \<Rightarrow> string \<Rightarrow> int option" where
  "optNum j f = (case member j f of Some (JNum n) \<Rightarrow> Some n | _ \<Rightarrow> None)"

definition numField :: "json \<Rightarrow> string \<Rightarrow> int" where
  "numField j f = (case optNum j f of Some n \<Rightarrow> n | None \<Rightarrow> 0)"

section \<open>Direct messages\<close>

definition initJson :: "WasmPqxdhInitMessage \<Rightarrow> json" where
  "initJson m = jobj
     [(''sender_identity_key_hex'', Some (JStr (senderIdentityKeyHex m))),
      (''sender_identity_key_x25519_hex'', Some (JStr (senderIdentityKeyX25519Hex m))),
      (''ephemeral_key_hex'', Some (JStr (ephemeralKeyHex m))),
      (''pq_ciphertext_hex'', Some (JStr (pqCiphertextHex m))),
      (''used_signed_pre_key_id'', Some (JNum (usedSignedPreKeyId m))),
      (''used_pq_pre_key_id'', Some (JNum (usedPqPreKeyId m))),
      (''used_one_time_key_id'', map_option JNum (usedOneTimeKeyId m))]"

definition readInit :: "json \<Rightarrow> WasmPqxdhInitMessage" where
  "readInit j =
     \<lparr>senderIdentityKeyHex = strField j ''sender_identity_key_hex'',
      senderIdentityKeyX25519Hex = strField j ''sender_identity_key_x25519_hex'',
      ephemeralKeyHex = strField j ''ephemeral_key_hex'', pqCiphertextHex = strField j ''pq_ciphertext_hex'',
      usedSignedPreKeyId = numField j ''used_signed_pre_key_id'', usedPqPreKeyId = numField j ''used_pq_pre_key_id'',
      usedOneTimeKeyId = optNum j ''used_one_time_key_id''\<rparr>"

definition envelopeJson :: "EncryptedEnvelope \<Rightarrow> json" where
  "envelopeJson e = jobj
     [(''protocol'', Some (JStr (protocol e))), (''conversationId'', Some (JStr (conversationId e))),
      (''sequenceNum'', Some (JNum (EncryptedEnvelope.sequenceNum e))), (''senderId'', Some (JStr (EncryptedEnvelope.senderId e))),
      (''recipientId'', map_option JStr (recipientId e)), (''initMessage'', map_option initJson (initMessage e)),
      (''ivHex'', Some (JStr (ivHex e))), (''ciphertextBase64'', Some (JStr (ciphertextBase64 e))),
      (''senderFingerprint'', Some (JStr (EncryptedEnvelope.senderFingerprint e))), (''insecureFallback'', Some (JBool (insecureFallback e)))]"

definition envelopeText :: "EncryptedEnvelope \<Rightarrow> string" where
  "envelopeText e = printJson (envelopeJson e)"

definition readEnvelope :: "string \<Rightarrow> EncryptedEnvelope blob" where
  "readEnvelope t =
     (case parseJson t of
        None \<Rightarrow> Garbage t
      | Some j \<Rightarrow> Blob
          \<lparr>protocol = strField j ''protocol'', conversationId = strField j ''conversationId'',
           sequenceNum = numField j ''sequenceNum'', senderId = strField j ''senderId'', recipientId = optStr j ''recipientId'',
           initMessage = (case member j ''initMessage'' of Some (JObj fs) \<Rightarrow> Some (readInit (JObj fs)) | _ \<Rightarrow> None),
           ivHex = strField j ''ivHex'', ciphertextBase64 = strField j ''ciphertextBase64'',
           senderFingerprint = strField j ''senderFingerprint'', insecureFallback = (member j ''insecureFallback'' = Some (JBool True))\<rparr>)"

section \<open>Group messages\<close>

definition mlsJson :: "MlsEncryptedGroupMessage \<Rightarrow> json" where
  "mlsJson e = jobj
     [(''protocol'', Some (JStr (eProtocol e))), (''groupId'', Some (JStr (eGroupId e))), (''epoch'', Some (JNum (eEpoch e))),
      (''senderId'', Some (JStr (eSenderId e))), (''ivHex'', Some (JStr (eIvHex e))),
      (''ciphertextBase64'', Some (JStr (eCiphertextBase64 e)))]"

definition mlsText :: "MlsEncryptedGroupMessage blob \<Rightarrow> string" where
  "mlsText w = (case w of Blob e \<Rightarrow> printJson (mlsJson e) | Garbage t \<Rightarrow> t)"

definition readMls :: "string \<Rightarrow> MlsEncryptedGroupMessage blob" where
  "readMls t =
     (case parseJson t of
        None \<Rightarrow> Garbage t
      | Some j \<Rightarrow> Blob
          \<lparr>eProtocol = strField j ''protocol'', eGroupId = strField j ''groupId'', eEpoch = numField j ''epoch'',
           eSenderId = strField j ''senderId'', eIvHex = strField j ''ivHex'', eCiphertextBase64 = strField j ''ciphertextBase64''\<rparr>)"

section \<open>Reading what was written\<close>

lemma member_jobj_Nil [simp]: "member (jobj []) f = None"
  by (simp add: member_def jobj_def List.map_filter_simps)

lemma member_jobj_Cons [simp]:
  "member (jobj ((g, v) # fs)) f = (if f = g \<and> v \<noteq> None then v else member (jobj fs) f)"
  by (cases v) (auto simp: member_def jobj_def List.map_filter_simps)

lemma wfJson_jobj:
  "distinct (map fst fs) \<Longrightarrow> \<forall>(f, v) \<in> set fs. case v of Some x \<Rightarrow> wfJson x | None \<Rightarrow> True \<Longrightarrow> wfJson (jobj fs)"
proof -
  assume d: "distinct (map fst fs)" and w: "\<forall>(f, v) \<in> set fs. case v of Some x \<Rightarrow> wfJson x | None \<Rightarrow> True"
  have "set (List.map_filter (\<lambda>(f, v). map_option (Pair f) v) fs) \<subseteq> {(f, x). (f, Some x) \<in> set fs}"
    by (auto simp: List.map_filter_def)
  moreover from d have "distinct (map fst (List.map_filter (\<lambda>(f, v). map_option (Pair f) v) fs))"
  proof (induction fs)
    case (Cons a fs)
    have "fst ` set (List.map_filter (\<lambda>(f, v). map_option (Pair f) v) fs) \<subseteq> fst ` set fs"
      by (force simp: List.map_filter_def)
    with Cons show ?case by (cases a) (auto simp: List.map_filter_simps split: option.split)
  qed (simp add: List.map_filter_simps)
  ultimately show ?thesis using w by (fastforce simp: jobj_def)
qed

lemma wfJson_envelopes: "wfJson (initJson m)" "wfJson (envelopeJson e)" "wfJson (mlsJson g)"
proof -
  show i: "wfJson (initJson m)" for m
    unfolding initJson_def by (rule wfJson_jobj) (auto split: option.split)
  show "wfJson (envelopeJson e)"
    unfolding envelopeJson_def by (rule wfJson_jobj) (auto simp: i split: option.split)
  show "wfJson (mlsJson g)"
    unfolding mlsJson_def by (rule wfJson_jobj) auto
qed

lemma readInit_initJson: "readInit (initJson m) = m"
  by (cases "usedOneTimeKeyId m") (simp_all add: readInit_def initJson_def strField_def numField_def optNum_def)

lemma initJson_obj: "\<exists>fs. initJson m = JObj fs"
  by (simp add: initJson_def jobj_def)

lemma readEnvelope_text: "readEnvelope (envelopeText e) = Blob e"
proof -
  have p: "parseJson (envelopeText e) = Some (envelopeJson e)"
    unfolding envelopeText_def by (rule parse_print) (rule wfJson_envelopes)
  obtain m where i: "\<And>x. initJson x = JObj (m x)" using initJson_obj by metis
  have r: "readInit (JObj (m x)) = x" for x using readInit_initJson [of x] by (simp add: i)
  show ?thesis
    unfolding readEnvelope_def p
    by (cases "recipientId e"; cases "initMessage e")
      (simp_all add: envelopeJson_def strField_def numField_def optNum_def optStr_def i r)
qed

lemma readMls_text: "readMls (mlsText (Blob g)) = Blob g"
proof -
  have p: "parseJson (mlsText (Blob g)) = Some (mlsJson g)"
    unfolding mlsText_def by (simp add: parse_print wfJson_envelopes)
  show ?thesis unfolding readMls_def p by (simp add: mlsJson_def strField_def numField_def optNum_def)
qed

section \<open>The text of a direct envelope is not taken for one of a group\<close>

text \<open>
  The pieces of a text between its quotes that are not escaped; \<open>esc\<close>: the character before is a
  backslash that escapes.
\<close>

primrec pieces :: "string \<Rightarrow> bool \<Rightarrow> string list" where
  "pieces [] esc = [[]]"
| "pieces (c # s) esc =
     (if \<not> esc \<and> c = CHR 0x22 then [] # pieces s False
      else (let r = pieces s (\<not> esc \<and> c = CHR 0x5C) in (c # hd r) # tl r))"

definition groupMark :: string where
  "groupMark = printStr ''protocol'' @ '':'' @ printStr ''genchat-mls-v1''"

fun marked :: "string list \<Rightarrow> bool" where
  "marked (a # b # c # r) = (endsWith a ''protocol'' \<and> b = '':'' \<and> c = ''genchat-mls-v1'' \<or> marked (b # c # r))"
| "marked _ = False"

lemma marked_append: "marked (xs @ a # '':'' # ''genchat-mls-v1'' # zs)" if "endsWith a ''protocol''"
proof (induction xs)
  case Nil
  with that show ?case by simp
next
  case (Cons x xs)
  then show ?case by (cases "xs @ a # '':'' # ''genchat-mls-v1'' # zs" rule: marked.cases) auto
qed

lemma pieces_ne [simp]: "pieces s esc \<noteq> []"
  by (cases s) (simp_all add: Let_def)

lemma pieces_append: "\<exists>xs y esc'. pieces (u @ v) esc = xs @ (y @ hd (pieces v esc')) # tl (pieces v esc')"
proof (induction u arbitrary: esc)
  case Nil
  show ?case by (rule exI [of _ "[]"], rule exI [of _ "[]"], rule exI [of _ esc]) simp
next
  case (Cons c u)
  show ?case
  proof (cases "\<not> esc \<and> c = CHR 0x22")
    case True
    obtain xs y esc' where "pieces (u @ v) False = xs @ (y @ hd (pieces v esc')) # tl (pieces v esc')" using Cons.IH by blast
    with True show ?thesis by (intro exI [of _ "[] # xs"] exI [of _ y] exI [of _ esc']) simp
  next
    case False
    obtain xs y esc' where i: "pieces (u @ v) (\<not> esc \<and> c = CHR 0x5C) = xs @ (y @ hd (pieces v esc')) # tl (pieces v esc')"
      using Cons.IH by blast
    show ?thesis
    proof (cases xs)
      case Nil
      with i False show ?thesis by (intro exI [of _ "[]"] exI [of _ "c # y"] exI [of _ esc']) (auto simp: Let_def)
    next
      case (Cons x xs')
      with i False show ?thesis by (intro exI [of _ "(c # x) # xs'"] exI [of _ y] exI [of _ esc']) (auto simp: Let_def)
    qed
  qed
qed

lemma groupMark_eq: "groupMark = CHR 0x22 # ''protocol'' @ CHR 0x22 # '':'' @ CHR 0x22 # ''genchat-mls-v1'' @ [CHR 0x22]"
  by code_simp

lemma pieces_groupMark:
  "\<exists>y zs. tl (pieces (groupMark @ v) esc) = ''protocol'' # '':'' # ''genchat-mls-v1'' # zs
     \<or> hd (pieces (groupMark @ v) esc) = y @ ''protocol'' \<and> tl (pieces (groupMark @ v) esc) = '':'' # ''genchat-mls-v1'' # zs"
  unfolding groupMark_eq by (cases esc) (simp_all add: Let_def)

lemma includes_marked:
  assumes "strIncludes w groupMark"
  shows "marked (pieces w False)"
proof -
  obtain u v where w: "w = u @ groupMark @ v" using assms by (auto simp: strIncludes_def sublist_def)
  obtain xs y esc where p: "pieces w False = xs @ (y @ hd (pieces (groupMark @ v) esc)) # tl (pieces (groupMark @ v) esc)"
    unfolding w using pieces_append by blast
  have e: "endsWith (z @ ''protocol'') ''protocol''" for z by (simp add: endsWith_def suffix_def)
  obtain z zs where "tl (pieces (groupMark @ v) esc) = ''protocol'' # '':'' # ''genchat-mls-v1'' # zs
     \<or> hd (pieces (groupMark @ v) esc) = z @ ''protocol'' \<and> tl (pieces (groupMark @ v) esc) = '':'' # ''genchat-mls-v1'' # zs"
    using pieces_groupMark by blast
  then show ?thesis
  proof
    assume "tl (pieces (groupMark @ v) esc) = ''protocol'' # '':'' # ''genchat-mls-v1'' # zs"
    with marked_append [OF e [of "[]"], of "xs @ [y @ hd (pieces (groupMark @ v) esc)]" zs] show ?thesis by (simp add: p)
  next
    assume "hd (pieces (groupMark @ v) esc) = z @ ''protocol'' \<and> tl (pieces (groupMark @ v) esc) = '':'' # ''genchat-mls-v1'' # zs"
    with marked_append [OF e [of "y @ z"], of xs zs] show ?thesis by (simp add: p)
  qed
qed

lemma pieces_escape:
  "pieces (escapeChar c @ v) False = (escapeChar c @ hd (pieces v False)) # tl (pieces v False)"
proof -
  have d: "digitChar (n mod 16) \<noteq> CHR 0x22 \<and> digitChar (n mod 16) \<noteq> CHR 0x5C" for n
  proof -
    have "\<forall>d \<in> set [0..<16]. digitChar d \<noteq> CHR 0x22 \<and> digitChar d \<noteq> CHR 0x5C" by code_simp
    then show ?thesis by simp
  qed
  have d': "n < 32 \<Longrightarrow> digitChar (n div 16) \<noteq> CHR 0x22 \<and> digitChar (n div 16) \<noteq> CHR 0x5C" for n
    using d [of "n div 16"] by simp
  have q: "of_char c \<noteq> (92 :: nat) \<Longrightarrow> c \<noteq> CHR 0x5C" "of_char c \<noteq> (34 :: nat) \<Longrightarrow> c \<noteq> CHR 0x22" by auto
  show ?thesis
    using d d' q by (auto simp: escapeChar_def Let_def)
qed

lemma pieces_escaped:
  "pieces (concat (map escapeChar s) @ v) False = (concat (map escapeChar s) @ hd (pieces v False)) # tl (pieces v False)"
  by (induction s) (simp_all add: pieces_escape)

lemma pieces_plain: "\<forall>c \<in> set s. c \<noteq> CHR 0x22 \<and> c \<noteq> CHR 0x5C \<Longrightarrow>
    pieces (s @ v) False = (s @ hd (pieces v False)) # tl (pieces v False)"
  by (induction s) (simp_all add: Let_def)

lemma pieces_number: "pieces (numString n @ v) False = (numString n @ hd (pieces v False)) # tl (pieces v False)"
proof (rule pieces_plain)
  have q: "\<not> isDigit (CHR 0x22)" "\<not> isDigit (CHR 0x5C)" by code_simp+
  have d: "\<forall>c \<in> set (decimal k). c \<noteq> CHR 0x22 \<and> c \<noteq> CHR 0x5C" for k
    using decimal_digits [of k] q by metis
  then show "\<forall>c \<in> set (numString n). c \<noteq> CHR 0x22 \<and> c \<noteq> CHR 0x5C"
    using d [of "nat (- n)"] d [of "nat n"] by (simp add: numString_def)
qed

definition escaped :: "string \<Rightarrow> string" where
  "escaped s = concat (map escapeChar s)"

lemma pieces_str: "pieces (printStr s @ v) False = [] # escaped s # pieces v False"
  using pieces_escaped [of s "CHR 0x22 # v"] by (simp add: printStr_def escaped_def)

fun onHead :: "string \<Rightarrow> string list \<Rightarrow> string list" where
  "onHead s [] = []"
| "onHead s (x # xs) = (s @ x) # xs"

lemma pieces_onHead:
  "c \<noteq> CHR 0x22 \<Longrightarrow> c \<noteq> CHR 0x5C \<Longrightarrow> pieces (c # v) False = onHead [c] (pieces v False)"
  "pieces (numString n @ v) False = onHead (numString n) (pieces v False)"
  using pieces_number [of n v] by (cases "pieces v False"; simp add: Let_def)+

lemma escaped_keys:
  "escaped ''protocol'' = ''protocol''" "escaped ''genchat-pq-v1'' = ''genchat-pq-v1''"
  "escaped ''conversationId'' = ''conversationId''" "escaped ''sequenceNum'' = ''sequenceNum''"
  "escaped ''senderId'' = ''senderId''" "escaped ''recipientId'' = ''recipientId''"
  "escaped ''initMessage'' = ''initMessage''" "escaped ''ivHex'' = ''ivHex''"
  "escaped ''ciphertextBase64'' = ''ciphertextBase64''" "escaped ''senderFingerprint'' = ''senderFingerprint''"
  "escaped ''insecureFallback'' = ''insecureFallback''"
  "escaped ''sender_identity_key_hex'' = ''sender_identity_key_hex''"
  "escaped ''sender_identity_key_x25519_hex'' = ''sender_identity_key_x25519_hex''"
  "escaped ''ephemeral_key_hex'' = ''ephemeral_key_hex''" "escaped ''pq_ciphertext_hex'' = ''pq_ciphertext_hex''"
  "escaped ''used_signed_pre_key_id'' = ''used_signed_pre_key_id''"
  "escaped ''used_pq_pre_key_id'' = ''used_pq_pre_key_id''" "escaped ''used_one_time_key_id'' = ''used_one_time_key_id''"
  by code_simp+

lemma other_keys:
  "\<not> endsWith ''conversationId'' ''protocol''" "\<not> endsWith ''sequenceNum'' ''protocol''" "\<not> endsWith ''senderId'' ''protocol''"
  "\<not> endsWith ''recipientId'' ''protocol''" "\<not> endsWith ''initMessage'' ''protocol''" "\<not> endsWith ''ivHex'' ''protocol''"
  "\<not> endsWith ''ciphertextBase64'' ''protocol''" "\<not> endsWith ''senderFingerprint'' ''protocol''"
  "\<not> endsWith ''insecureFallback'' ''protocol''" "\<not> endsWith ''sender_identity_key_hex'' ''protocol''"
  "\<not> endsWith ''sender_identity_key_x25519_hex'' ''protocol''" "\<not> endsWith ''ephemeral_key_hex'' ''protocol''"
  "\<not> endsWith ''pq_ciphertext_hex'' ''protocol''" "\<not> endsWith ''used_signed_pre_key_id'' ''protocol''"
  "\<not> endsWith ''used_pq_pre_key_id'' ''protocol''" "\<not> endsWith ''used_one_time_key_id'' ''protocol''"
  by code_simp+

lemma numString_ne: "numString n \<noteq> []"
  using decimal_ne by (simp add: numString_def)

lemma direct_envelope_unmarked:
  assumes "protocol e = ''genchat-pq-v1''"
  shows "\<not> strIncludes (envelopeText e) groupMark"
proof
  assume "strIncludes (envelopeText e) groupMark"
  then have m: "marked (pieces (envelopeText e) False)" by (rule includes_marked)
  note rules = envelopeText_def envelopeJson_def initJson_def jobj_def List.map_filter_simps printJson_object printField_def
    assms pieces_str pieces_onHead escaped_keys other_keys numString_ne
  show False
  proof (cases "recipientId e"; cases "initMessage e")
    fix r assume r: "recipientId e = Some r" "initMessage e = None"
    show False using m by (cases "insecureFallback e") (simp_all add: rules r del: pieces.simps(2))
  next
    fix r i assume r: "recipientId e = Some r" "initMessage e = Some i"
    show False using m by (cases "usedOneTimeKeyId i"; cases "insecureFallback e") (simp_all add: rules r del: pieces.simps(2))
  next
    assume r: "recipientId e = None" "initMessage e = None"
    show False using m by (cases "insecureFallback e") (simp_all add: rules r del: pieces.simps(2))
  next
    fix i assume r: "recipientId e = None" "initMessage e = Some i"
    show False using m by (cases "usedOneTimeKeyId i"; cases "insecureFallback e") (simp_all add: rules r del: pieces.simps(2))
  qed
qed

end
