(* ===== verification/Media.thy ===== *)
theory Media
  imports Key_Transfer Json_Text
begin

text \<open>
  Files of messages: the encryption of \<open>packages/client-web/src/lib/media-crypto.ts\<close>, the uploads of
  \<open>media-client.ts\<close> and of \<open>media-upload.ts\<close> beside it. A function that talks to the media service or
  the object store returns its result with the list of requests it made; the answers are functions of
  the requests. A file is its bytes with its declared type and, for a \<open>File\<close>, its name. The import of
  a raw key is part of the decryption: a key of another length is one that opens nothing.
\<close>

section \<open>Encryption of a file\<close>

record mediaFile =
  fileBytes :: bytes
  fileType :: string
  givenName :: "string option"

record EncryptedMediaPayload =
  ciphertextBlob :: bytes
  encryptionKeyHex :: string
  payloadIvHex :: string
  payloadMime :: string
  originalSize :: nat

definition strOrElse :: "string \<Rightarrow> string \<Rightarrow> string" where
  "strOrElse a b = (if a \<noteq> [] then a else b)"

definition encryptFile :: "aead \<Rightarrow> key \<Rightarrow> bytes \<Rightarrow> mediaFile \<Rightarrow> EncryptedMediaPayload" where
  "encryptFile a k iv f =
     \<lparr>ciphertextBlob = seal a k iv [] (fileBytes f), encryptionKeyHex = bytesToHex k, payloadIvHex = bytesToHex iv,
      payloadMime = strOrElse (fileType f) ''application/octet-stream'', originalSize = length (fileBytes f)\<rparr>"

text \<open>\<open>None\<close> is an exception: a text without a pair of digits, or a cipher text that does not open.\<close>

definition decryptToBlob :: "aead \<Rightarrow> bytes \<Rightarrow> string \<Rightarrow> string \<Rightarrow> string \<Rightarrow> (bytes \<times> string) option" where
  "decryptToBlob a ct keyHex ivHexText mime =
     Option.bind (hexMatch keyHex) (\<lambda>k. Option.bind (hexMatch ivHexText) (\<lambda>iv.
       map_option (\<lambda>p. (p, mime)) (unseal a k iv [] ct)))"

definition decryptFile :: "aead \<Rightarrow> (bytes \<times> string \<Rightarrow> string) \<Rightarrow> bytes \<Rightarrow> string \<Rightarrow> string \<Rightarrow> string \<Rightarrow> string option" where
  "decryptFile a createObjectURL ct keyHex ivHexText mime =
     Option.bind (hexMatch keyHex) (\<lambda>k. Option.bind (hexMatch ivHexText) (\<lambda>iv.
       map_option (\<lambda>p. createObjectURL (p, mime)) (unseal a k iv [] ct)))"

section \<open>Uploads of MediaClient\<close>

record PresignedUploadResponse =
  upload_url :: string
  blob_id :: "string option"
  object_key :: "string option"
  download_url :: "string option"

record AttachmentMetadata =
  blobId :: string
  downloadUrl :: string
  keyOfFile :: string
  ivOfFile :: string
  mimeType :: string
  sizeOfFile :: nat
  fileName :: "string option"
  caption :: "string option"
  isVoiceNote :: "bool option"
  durationSec :: "int option"
  waveform :: "json option"

record UploadAttachmentOptions =
  optCaption :: "string option"
  optFileName :: "string option"
  optVoiceNote :: "bool option"
  optDuration :: "int option"
  optWaveform :: "json option"

definition noOptions :: UploadAttachmentOptions where
  "noOptions = \<lparr>optCaption = None, optFileName = None, optVoiceNote = None, optDuration = None, optWaveform = None\<rparr>"

datatype mediaRequest = PostUpload string string nat | PutObject string string bytes | GetUrl string

text \<open>An answer that is no JSON fails like the network.\<close>

record mediaNet =
  onUpload :: "string \<Rightarrow> string \<Rightarrow> nat \<Rightarrow> PresignedUploadResponse http"
  onPut :: "string \<Rightarrow> string \<Rightarrow> bytes \<Rightarrow> unit http"
  onUrl :: "string \<Rightarrow> string option http"
  onFetch :: "string \<Rightarrow> bytes http"

definition dropSlashes :: "string \<Rightarrow> string" where
  "dropSlashes s = rev (dropWhile (\<lambda>c. c = CHR ''/'') (rev s))"

definition getEndpoint :: "string \<Rightarrow> string \<Rightarrow> string" where
  "getEndpoint mediadBaseUrl action =
     (let base = dropSlashes mediadBaseUrl
      in if endsWith base ''/media'' then base @ ''/'' @ action else base @ ''/media/'' @ action)"

definition getDownloadUrl :: "mediaNet \<Rightarrow> string \<Rightarrow> string \<Rightarrow> (transferError + string) \<times> mediaRequest list" where
  "getDownloadUrl net base blob =
     (let url = getEndpoint base ''download'' @ ''?object_key='' @ encodeURIComponent blob
      in (case onUrl net url of
            NetFail \<Rightarrow> Inl NetworkError
          | HttpError st \<Rightarrow> Inl (ServerError st)
          | HttpOk d \<Rightarrow> Inr (case d of Some u \<Rightarrow> u | None \<Rightarrow> []), [GetUrl url]))"

definition blobIdOf :: "PresignedUploadResponse \<Rightarrow> string" where
  "blobIdOf p = strOrElse (case blob_id p of Some b \<Rightarrow> b | None \<Rightarrow> []) (case object_key p of Some b \<Rightarrow> b | None \<Rightarrow> [])"

definition resolvedFileName :: "UploadAttachmentOptions \<Rightarrow> mediaFile \<Rightarrow> string" where
  "resolvedFileName opts f =
     (case optFileName opts of
        Some n \<Rightarrow> strOrElse n (case givenName f of Some g \<Rightarrow> g
                              | None \<Rightarrow> if optVoiceNote opts = Some True then ''Voice message.webm'' else ''attachment'')
      | None \<Rightarrow> (case givenName f of Some g \<Rightarrow> g
                 | None \<Rightarrow> if optVoiceNote opts = Some True then ''Voice message.webm'' else ''attachment''))"

definition attachmentOf :: "EncryptedMediaPayload \<Rightarrow> UploadAttachmentOptions \<Rightarrow> mediaFile \<Rightarrow> string \<Rightarrow> string \<Rightarrow> AttachmentMetadata" where
  "attachmentOf e opts f blob url =
     \<lparr>blobId = blob, downloadUrl = url, keyOfFile = encryptionKeyHex e, ivOfFile = payloadIvHex e,
      mimeType = strOrElse (payloadMime e) (strOrElse (fileType f) ''application/octet-stream''), sizeOfFile = originalSize e,
      fileName = Some (resolvedFileName opts f), caption = optCaption opts, isVoiceNote = optVoiceNote opts,
      durationSec = optDuration opts, waveform = optWaveform opts\<rparr>"

definition uploadEncryptedAttachment ::
  "aead \<Rightarrow> mediaNet \<Rightarrow> string \<Rightarrow> key \<Rightarrow> bytes \<Rightarrow> mediaFile \<Rightarrow> UploadAttachmentOptions
    \<Rightarrow> (transferError + AttachmentMetadata) \<times> mediaRequest list" where
  "uploadEncryptedAttachment a net base k iv f opts =
     (let e = encryptFile a k iv f; octets = ''application/octet-stream''; ep = getEndpoint base ''upload'';
          ask = PostUpload ep octets (length (ciphertextBlob e))
      in case onUpload net ep octets (length (ciphertextBlob e)) of
           NetFail \<Rightarrow> (Inl NetworkError, [ask])
         | HttpError st \<Rightarrow> (Inl (ServerError st), [ask])
         | HttpOk p \<Rightarrow>
             let put = PutObject (upload_url p) octets (ciphertextBlob e); blob = blobIdOf p;
                 given = (case download_url p of Some u \<Rightarrow> u | None \<Rightarrow> [])
             in case onPut net (upload_url p) octets (ciphertextBlob e) of
                  NetFail \<Rightarrow> (Inl NetworkError, [ask, put])
                | HttpError st \<Rightarrow> (Inl (ServerError st), [ask, put])
                | HttpOk _ \<Rightarrow>
                    if given = [] \<and> blob \<noteq> []
                    then (case getDownloadUrl net base blob of
                            (Inl err, rs) \<Rightarrow> (Inl err, [ask, put] @ rs)
                          | (Inr u, rs) \<Rightarrow> (Inr (attachmentOf e opts f blob u), [ask, put] @ rs))
                    else (Inr (attachmentOf e opts f blob given), [ask, put]))"

text \<open>\<open>url.split('?')[0]\<close>\<close>

definition uploadAvatar :: "mediaNet \<Rightarrow> string \<Rightarrow> mediaFile \<Rightarrow> (transferError + string) \<times> mediaRequest list" where
  "uploadAvatar net base f =
     (let ep = getEndpoint base ''upload''; ct = strOrElse (fileType f) ''image/png'';
          ask = PostUpload ep ct (length (fileBytes f))
      in case onUpload net ep ct (length (fileBytes f)) of
           NetFail \<Rightarrow> (Inl NetworkError, [ask])
         | HttpError st \<Rightarrow> (Inl (ServerError st), [ask])
         | HttpOk p \<Rightarrow>
             let put = PutObject (upload_url p) ct (fileBytes f)
             in case onPut net (upload_url p) ct (fileBytes f) of
                  NetFail \<Rightarrow> (Inl NetworkError, [ask, put])
                | HttpError st \<Rightarrow> (Inl (ServerError st), [ask, put])
                | HttpOk _ \<Rightarrow>
                    (Inr (if blobIdOf p \<noteq> [] then ''/media/view?object_key='' @ encodeURIComponent (blobIdOf p)
                          else strOrElse (case download_url p of Some u \<Rightarrow> u | None \<Rightarrow> [])
                                 (hd (splitOn (CHR ''?'') (upload_url p)))), [ask, put]))"

section \<open>The other uploader\<close>

record MediaEnvelope =
  blobUrl :: string
  wrappedKeyBase64 :: string
  ivBase64 :: string
  envFilename :: string
  envMime :: string
  envSize :: nat

text \<open>The service signs a request for the object: the address to put it and the public one.\<close>

definition uploadBlob ::
  "(string \<Rightarrow> (string \<times> string) http) \<Rightarrow> mediaNet \<Rightarrow> string \<Rightarrow> bytes \<Rightarrow> string \<Rightarrow> (transferError + string) \<times> mediaRequest list" where
  "uploadBlob presign net service ct objectKey =
     (let url = service @ ''/presign?object_key='' @ encodeURIComponent objectKey
      in case presign url of
           NetFail \<Rightarrow> (Inl NetworkError, [GetUrl url])
         | HttpError st \<Rightarrow> (Inl (ServerError st), [GetUrl url])
         | HttpOk (putUrl, publicUrl) \<Rightarrow>
             let put = PutObject putUrl ''application/octet-stream'' ct
             in case onPut net putUrl ''application/octet-stream'' ct of
                  NetFail \<Rightarrow> (Inl NetworkError, [GetUrl url, put])
                | HttpError st \<Rightarrow> (Inl (ServerError st), [GetUrl url, put])
                | HttpOk _ \<Rightarrow> (Inr publicUrl, [GetUrl url, put]))"

definition exportKeyBase64 :: "key \<Rightarrow> string" where
  "exportKeyBase64 k = btoa (bytesToStr k)"

definition uploadEncryptedMedia ::
  "aead \<Rightarrow> (string \<Rightarrow> (string \<times> string) http) \<Rightarrow> mediaNet \<Rightarrow> string \<Rightarrow> key \<Rightarrow> bytes \<Rightarrow> int \<Rightarrow> string \<Rightarrow> mediaFile
    \<Rightarrow> (transferError + MediaEnvelope) \<times> mediaRequest list" where
  "uploadEncryptedMedia a presign net service k iv now random f =
     (let ct = seal a k iv [] (fileBytes f); objectKey = ''media/'' @ numString now @ ''-'' @ random
      in case uploadBlob presign net service ct objectKey of
           (Inl err, rs) \<Rightarrow> (Inl err, rs)
         | (Inr url, rs) \<Rightarrow>
             (Inr \<lparr>blobUrl = url, wrappedKeyBase64 = exportKeyBase64 k, ivBase64 = btoa (bytesToStr iv),
                   envFilename = (case givenName f of Some n \<Rightarrow> n | None \<Rightarrow> []), envMime = fileType f,
                   envSize = length (fileBytes f)\<rparr>, rs))"

definition decryptMediaBlob :: "aead \<Rightarrow> mediaNet \<Rightarrow> MediaEnvelope \<Rightarrow> transferError + (bytes \<times> string)" where
  "decryptMediaBlob a net e =
     (case atob (wrappedKeyBase64 e) of
        None \<Rightarrow> Inl BadEncoding
      | Some k \<Rightarrow>
          (case onFetch net (blobUrl e) of
             NetFail \<Rightarrow> Inl NetworkError
           | HttpError st \<Rightarrow> Inl (ServerError st)
           | HttpOk ct \<Rightarrow>
               (case atob (ivBase64 e) of
                  None \<Rightarrow> Inl BadEncoding
                | Some iv \<Rightarrow>
                    (case unseal a (strToBytes k) (strToBytes iv) [] ct of
                       None \<Rightarrow> Inl CannotDecrypt
                     | Some p \<Rightarrow> Inr (p, envMime e)))))"

section \<open>Attachments in messages\<close>

text \<open>The JSON of an attachment, as the page sends it\<close>

definition attachmentJson :: "AttachmentMetadata \<Rightarrow> json" where
  "attachmentJson m = jobj
     [(''blobId'', Some (JStr (blobId m))), (''downloadUrl'', Some (JStr (downloadUrl m))),
      (''encryptionKeyHex'', Some (JStr (keyOfFile m))), (''ivHex'', Some (JStr (ivOfFile m))),
      (''mimeType'', Some (JStr (mimeType m))), (''originalSize'', Some (JNum (int (sizeOfFile m)))),
      (''fileName'', map_option JStr (fileName m)), (''caption'', map_option JStr (caption m)),
      (''isVoiceNote'', map_option JBool (isVoiceNote m)), (''durationSec'', map_option JNum (durationSec m)),
      (''waveform'', waveform m)]"

text \<open>
  The page fetches the file of an attachment that arrived; an address that is refused is renewed by the
  identifier, once. The result is the address of the decrypted file, or \<open>None\<close> when it is left to be
  loaded on demand.
\<close>

definition textOf :: "json option \<Rightarrow> string" where
  "textOf v = (case v of Some (JStr s) \<Rightarrow> s | _ \<Rightarrow> [])"

definition renewedFetch :: "mediaNet \<Rightarrow> string \<Rightarrow> json \<Rightarrow> bytes http" where
  "renewedFetch net base j =
     (case onFetch net (textOf (member j ''downloadUrl'')) of
        HttpError st \<Rightarrow>
          if jsonTruthy (member j ''blobId'')
          then (case fst (getDownloadUrl net base (textOf (member j ''blobId''))) of
                  Inl e \<Rightarrow> HttpError st
                | Inr u \<Rightarrow> (case onFetch net u of NetFail \<Rightarrow> HttpError st | r \<Rightarrow> r))
          else HttpError st
      | r \<Rightarrow> r)"

definition openAttachment :: "aead \<Rightarrow> mediaNet \<Rightarrow> string \<Rightarrow> (bytes \<times> string \<Rightarrow> string) \<Rightarrow> json \<Rightarrow> string option" where
  "openAttachment a net base createObjectURL j =
     (case renewedFetch net base j of
        HttpOk ct \<Rightarrow> decryptFile a createObjectURL ct (textOf (member j ''encryptionKeyHex'')) (textOf (member j ''ivHex''))
                       (textOf (member j ''mimeType''))
      | _ \<Rightarrow> None)"

section \<open>What is uploaded\<close>

text \<open>
  What leaves the client when a file is attached is the encryption of its bytes under a key that is
  drawn for this file: every object that is put is that cipher text, typed as octets, and no other request
  carries anything but its length, whatever the services answer and whether the upload succeeds.
\<close>

theorem attachment_uploads_ciphertext:
  assumes "r \<in> set (snd (uploadEncryptedAttachment a net base k iv f opts))"
  shows "(\<exists>u. r = PutObject u ''application/octet-stream'' (seal a k iv [] (fileBytes f)))
    \<or> r = PostUpload (getEndpoint base ''upload'') ''application/octet-stream'' (length (seal a k iv [] (fileBytes f)))
    \<or> (\<exists>blob. r = GetUrl (getEndpoint base ''download'' @ ''?object_key='' @ encodeURIComponent blob))"
  using assms
  by (auto simp: uploadEncryptedAttachment_def Let_def encryptFile_def getDownloadUrl_def split: http.splits sum.splits if_splits)

text \<open>
  A file that was uploaded by the second uploader is read back, with its type, by whoever holds its envelope,
  when the store returns at the public address what was put.
\<close>

theorem media_roundtrip:
  assumes "aeadCorrect a" "uploadEncryptedMedia a presign net service k iv now random f = (Inr e, rs)"
    and "\<And>u ct b. PutObject u ct b \<in> set rs \<Longrightarrow> onFetch net' (blobUrl e) = HttpOk b"
  shows "decryptMediaBlob a net' e = Inr (fileBytes f, fileType f)"
proof -
  obtain p where p: "PutObject p ''application/octet-stream'' (seal a k iv [] (fileBytes f)) \<in> set rs"
    and e: "wrappedKeyBase64 e = exportKeyBase64 k" "ivBase64 e = btoa (bytesToStr iv)" "envMime e = fileType f"
    using assms(2) by (auto simp: uploadEncryptedMedia_def uploadBlob_def Let_def split: http.splits sum.splits prod.splits)
  from assms(3) [OF p] assms(1) e show ?thesis
    by (simp add: decryptMediaBlob_def exportKeyBase64_def)
qed

text \<open>An attachment that was uploaded, from its metadata; the address in it may have been refused meanwhile.\<close>

lemma uploaded_fields:
  assumes "uploadEncryptedAttachment a net base k iv f opts = (Inr m, rs)"
  shows "\<exists>u. PutObject u ''application/octet-stream'' (seal a k iv [] (fileBytes f)) \<in> set rs"
    "keyOfFile m = bytesToHex k" "ivOfFile m = bytesToHex iv" "caption m = optCaption opts" "waveform m = optWaveform opts"
    "mimeType m = strOrElse (fileType f) ''application/octet-stream''"
  using assms
  by (auto simp: uploadEncryptedAttachment_def Let_def encryptFile_def attachmentOf_def strOrElse_def getDownloadUrl_def
      split: http.splits sum.splits if_splits)

lemma renewedFetch_served:
  assumes "member j ''downloadUrl'' = Some (JStr (downloadUrl m))" "member j ''blobId'' = Some (JStr (blobId m))"
    and "onFetch net (downloadUrl m) = HttpOk b
      \<or> (\<exists>st u. onFetch net (downloadUrl m) = HttpError st \<and> blobId m \<noteq> []
           \<and> fst (getDownloadUrl net base (blobId m)) = Inr u \<and> onFetch net u = HttpOk b)"
  shows "renewedFetch net base j = HttpOk b"
  using assms by (auto simp: renewedFetch_def textOf_def)

section \<open>The statements at concrete inputs\<close>

definition sampleFile :: mediaFile where
  "sampleFile = \<lparr>fileBytes = [7, 8], fileType = ''image/png'', givenName = Some ''a.png''\<rparr>"

definition sampleNet :: mediaNet where
  "sampleNet = \<lparr>onUpload = (\<lambda>u t n. HttpOk \<lparr>upload_url = ''/put'', blob_id = Some ''f1'', object_key = None, download_url = Some ''/get''\<rparr>),
     onPut = (\<lambda>u t b. HttpOk ()), onUrl = (\<lambda>u. NetFail), onFetch = (\<lambda>u. HttpOk [5, 1, 7, 8])\<rparr>"

theorem attachment_uploads_ciphertext_witness:
  "\<exists>u. PutObject ''/put'' ''application/octet-stream'' [5, 1, 7, 8]
    = PutObject u ''application/octet-stream'' (seal tagAead [5] [1] [] (fileBytes sampleFile))"
proof -
  have "PutObject ''/put'' ''application/octet-stream'' [5, 1, 7, 8]
      \<in> set (snd (uploadEncryptedAttachment tagAead sampleNet ''/media'' [5] [1] sampleFile noOptions))"
    by (simp add: uploadEncryptedAttachment_def Let_def sampleNet_def encryptFile_def sampleFile_def tagAead_def)
  from attachment_uploads_ciphertext [OF this] show ?thesis by simp
qed

theorem media_roundtrip_witness:
  "decryptMediaBlob tagAead sampleNet
     \<lparr>blobUrl = ''/get'', wrappedKeyBase64 = exportKeyBase64 [5], ivBase64 = btoa (bytesToStr [1]), envFilename = ''a.png'',
      envMime = ''image/png'', envSize = 2\<rparr> = Inr ([7, 8], ''image/png'')"
proof -
  have u: "uploadEncryptedMedia tagAead (\<lambda>u. HttpOk (''/put'', ''/get'')) sampleNet [] [5] [1] 1 ''r'' sampleFile =
    (Inr \<lparr>blobUrl = ''/get'', wrappedKeyBase64 = exportKeyBase64 [5], ivBase64 = btoa (bytesToStr [1]), envFilename = ''a.png'',
      envMime = ''image/png'', envSize = 2\<rparr>,
     [GetUrl (''/presign?object_key='' @ encodeURIComponent (''media/'' @ numString 1 @ ''-'' @ ''r'')),
      PutObject ''/put'' ''application/octet-stream'' [5, 1, 7, 8]])"
    by (simp add: uploadEncryptedMedia_def uploadBlob_def Let_def sampleNet_def sampleFile_def tagAead_def)
  have "decryptMediaBlob tagAead sampleNet
     \<lparr>blobUrl = ''/get'', wrappedKeyBase64 = exportKeyBase64 [5], ivBase64 = btoa (bytesToStr [1]), envFilename = ''a.png'',
      envMime = ''image/png'', envSize = 2\<rparr> = Inr (fileBytes sampleFile, fileType sampleFile)"
    by (rule media_roundtrip [OF tagAead_ok(1) u]) (auto simp: sampleNet_def)
  then show ?thesis by (simp add: sampleFile_def)
qed

end
