(* ===== verification/End_To_End.thy ===== *)
theory End_To_End
  imports Chat_Behaviour Wire_Format Media
begin

text \<open>
  The chat page over the encryption services: a text that one user types reaches the list of another,
  for direct messages (\<open>E2ee_Session\<close>) and for groups (\<open>Mls_Group\<close>), through the JSON texts of
  \<open>Wire_Format\<close>; and what the composition makes of missing keys and of group messages that are
  opened again from the cache.
\<close>

section \<open>The services as the page calls them\<close>

text \<open>The result of \<open>E2eeService.decrypt\<close> for the text \<open>w\<close>; a text is shown by its Latin-1 bytes.\<close>

definition openedFrom :: "string \<Rightarrow> DecryptResult \<Rightarrow> openedText" where
  "openedFrom w r =
     \<lparr>openedBody = (case resultText r of ClearText t \<Rightarrow> t | RawText x \<Rightarrow> w | SessionPending \<Rightarrow> pendingNotice
                    | WideText bs \<Rightarrow> bytesToStr bs),
      openedEncrypted = isEncrypted r, openedFallback = isInsecureFallback r, openedWarning = warning r,
      openedFingerprint = resultFingerprint r\<rparr>"

text \<open>
  A page whose direct messages go through the service in state \<open>s\<close>. The page asks for the insecure
  fallback only after an attempt without it.
\<close>

definition directSealed :: "e2eeCrypto \<Rightarrow> e2eeEnv \<Rightarrow> e2eeState \<Rightarrow> string \<Rightarrow> string \<Rightarrow> string \<Rightarrow> bool \<Rightarrow> string outcome" where
  "directSealed c e s t conv me allow =
     (let s0 = (if allow then snd (encrypt c e t conv me 1 [] False s) else s)
      in case fst (encrypt c e t conv me 1 [] allow s0) of Inr x \<Rightarrow> Done (envelopeText x) | Inl err \<Rightarrow> Rejected)"

definition directOpened :: "e2eeCrypto \<Rightarrow> e2eeEnv \<Rightarrow> e2eeState \<Rightarrow> string \<Rightarrow> string \<Rightarrow> string \<Rightarrow> openedText outcome" where
  "directOpened c e s w conv me =
     (case fst (decrypt c e (readEnvelope w) conv me [] s) of Done r \<Rightarrow> Done (openedFrom w r) | Rejected \<Rightarrow> Rejected)"

definition withDirect :: "e2eeCrypto \<Rightarrow> e2eeEnv \<Rightarrow> e2eeState \<Rightarrow> pageEnv \<Rightarrow> pageEnv" where
  "withDirect c e s env = env\<lparr>directSeal := directSealed c e s, directOpen := directOpened c e s\<rparr>"




section \<open>What the receiver reads\<close>

lemma quotedOf_replyJson: "quotedOf (replyJson r) = r"
  by (cases "qSenderName r") (simp_all add: quotedOf_def replyJson_def strMember_def)

lemma wfJson_reply: "wfJson (JObj [(''text'', JStr t), (''replyTo'', replyJson r)])"
proof -
  have "wfJson (replyJson r)" unfolding replyJson_def by (rule wfJson_jobj) (auto split: option.split)
  then show ?thesis by simp
qed





text \<open>A message that was opened and read is listed, and its sender answered.\<close>

lemma listed_when_read:
  assumes "pageOk s" "inChannelId g \<noteq> []" "inCiphertext g = Some w" "w \<noteq> []"
    and k: "inClientMsgId g \<noteq> []" "\<not> startsWith (inClientMsgId g) ''notice_''" "inClientMsgId g \<notin> msgId ` set (items s)"
    and c: "c = effectiveChannel (myUserId s) g"
    and r: "openCiphertext env (myUserId s) c w = Done r" "readInner (fetchAttachment env) (openedBody r) = Some shown"
  shows "\<exists>n. items (onMessage env g s) = items s @ [n] \<and> msgText n = shText shown \<and> replyTo n = shReply shown
    \<and> attachment n = shAttachment shown \<and> StoredMessage.senderId n = (if inSenderId g \<noteq> [] then inSenderId g else ''peer'')
    \<and> channelId n = c \<and> itemEncrypted n = openedEncrypted r"
proof -
  define n where "n = receivedItem env c (effectiveTtl (inTtl g) c (conversationTtls s)) g (Some r) shown"
  have same: "\<not> list_ex (sameMessage n) (items s)"
  proof -
    have "\<not> sameMessage n m" if "m \<in> set (items s)" for m
    proof -
      have "itemOk m" using assms(1) that by (auto simp: pageOk_def itemsOk_def list_all_iff)
      moreover have "msgId m \<noteq> inClientMsgId g" using k(3) imageI [OF that, of msgId] by metis
      ultimately show ?thesis using k(1,2) by (auto simp: sameMessage_def n_def receivedItem_def itemOk_def)
    qed
    then show ?thesis by (auto simp: list_ex_iff)
  qed
  have "items (onMessage env g s) = upsertItem n (items s)"
    unfolding n_def using assms(2-4) r by (simp add: onMessage_def Let_def c [symmetric])
  then have "items (onMessage env g s) = items s @ [n]" using same by (simp add: upsertItem_def)
  then show ?thesis by (auto simp: n_def receivedItem_def intro!: exI [of _ n])
qed


section \<open>What the sender sends\<close>



lemma direct_opened:
  assumes "\<not> isMlsText (envelopeText x) conv" "decrypt c e (Blob x) conv b [] s = (Done r, s')"
  shows "openCiphertext (withDirect c e s env) b conv (envelopeText x) = Done (openedFrom (envelopeText x) r)"
  using assms by (simp add: openCiphertext_def withDirect_def directOpened_def readEnvelope_text)

lemma envelopeText_nonempty: "envelopeText x \<noteq> []" "mlsText (Blob g) \<noteq> []"
  by (simp_all add: envelopeText_def envelopeJson_def jobj_def mlsText_def mlsJson_def)

lemma attachment_sent:
  assumes "editingMessage s = None" "stagedFile s"
    and "sealPayload env (printJson (withReply meta (replyingTo s))) (activeChannelId s) (myUserId s) = Done wire"
  shows "sentTexts (handleSendMessage env (Done meta) pre s) = sentTexts s @ [wire]"
proof -
  have c: "\<And>s' :: pageState. pageCalls (s'\<lparr>stagedFile := False, inputText := []\<rparr>) = pageCalls s'"
    "\<And>s' :: pageState. pageCalls (s'\<lparr>replyingTo := None\<rparr>) = pageCalls s'" by simp_all
  show ?thesis using assms
    by (simp add: handleSendMessage_def Let_def sendAttachment_def sentTexts_frame [OF c(1)] sentTexts_frame [OF c(2)])
qed

section \<open>Direct messages\<close>

lemma direct_pipeline:
  assumes "aeadCorrect (gcmd c)" "aeadTagged (gcmd c)" "freshIv eA \<noteq> []" "reaches c eA ibA ibB b a b sA sB"
    and u: "a \<noteq> []" "b \<noteq> []" "a \<noteq> b" "extractPeerId b a = b"
    and "currentUserId sA = a" "identityBundle sA = Some ibA" "currentUserId sB = b" "identityBundle sB = Some ibB"
    and e: "encrypt c eA payload b a 1 [] False sA = (Inr e, sA')" "\<not> startsWith a ''chan_''"
  obtains r where "openCiphertext (withDirect c eB sB env) b a (envelopeText e) = Done r" "openedBody r = payload" "openedEncrypted r"
proof -
  note m = message_reaches [OF assms(1-8) u(2) assms(9-12) e(1), of eB a "[]"]
  then obtain r sB' where r: "decrypt c eB (Blob e) a b [] sB = (Done r, sB')" "resultText r = ClearText payload" "isEncrypted r"
    by blast
  from direct_envelope_unmarked [OF conjunct1 [OF m]] have n: "\<not> isMlsText (envelopeText e) a"
    using e(2) by (simp add: isMlsText_def groupMark_def)
  show thesis
    by (rule that [OF direct_opened [OF n r(1), of env]]) (use r(2,3) in \<open>simp_all add: openedFrom_def\<close>)
qed


section \<open>Group messages\<close>




section \<open>What the composition loses\<close>

text \<open>
  C29. A group message is readable when it arrives, and locked once it is loaded from the cache: the
  reopening gives every kept cipher text to the service of direct messages, which does not know the
  envelopes of groups, so the text is replaced by the notice that the session is missing.
\<close>

theorem reopened_group_message_locked:
  assumes "encryptGroupMessage cG now rs iv ch sender payload sG = Done (Blob x, sG')"
    and "rawCiphertext m = Some (mlsText (Blob x))"
    and "me \<noteq> []" "currentUserId s = me" "identityBundle s = Some ib"
  shows "reopenItem (withDirect c e s env) ch me m
    = Done (m\<lparr>msgText := Some pendingNotice, rawCiphertext := rawCiphertext m, itemEncrypted := False\<rparr>)"
proof -
  define w where "w = mlsText (Blob x)"
  have p: "eProtocol x = ''genchat-mls-v1''"
    using assms(1) by (auto simp: encryptGroupMessage_def split: prod.splits outcome.splits)
  have q: "printStr ''protocol'' = CHR 0x22 # ''protocol'' @ [CHR 0x22]"
    "printStr ''genchat-mls-v1'' = CHR 0x22 # ''genchat-mls-v1'' @ [CHR 0x22]" by code_simp+
  from p have s: "startsWith w protocolPrefix" "w \<noteq> []"
    by (simp_all add: w_def mlsText_def mlsJson_def jobj_def List.map_filter_simps protocolPrefix_def startsWith_def q)
  obtain y where y: "readEnvelope w = Blob y" "protocol y = ''genchat-mls-v1''"
    unfolding readEnvelope_def w_def mlsText_def
    by (simp add: parse_print wfJson_envelopes) (simp add: strField_def mlsJson_def p)
  have "decryptEnvelope c e y ch me s = (rawResult (Blob y), s)"
    using y(2) by (simp add: decryptEnvelope_def isEnvelope_def)
  then have "decrypt c e (Blob y) ch me [] s = (Done (rawResult (Blob y)), s)"
    by (intro decrypt_ready) (use assms(3-5) in simp_all)
  then have "directOpen (withDirect c e s env) w ch me = Done (openedFrom w (rawResult (Blob y)))"
    by (simp add: withDirect_def directOpened_def y(1))
  then show ?thesis
    using s by (simp add: reopenItem_def assms(2) strOr_def w_def [symmetric] opensClear_def openedFrom_def rawResult_def)
qed

lemma keys_unavailable:
  assumes "freshKeys e = Rejected" "u \<noteq> []" "currentUserId z = u" "identityBundle z = None" "loadIdentity u z = None"
  shows "\<exists>d. encrypt c e t conv u 1 [] allow z = (Inl KeysUnavailable, z\<lparr>currentUserId := u, currentDeviceId := d\<rparr>)"
proof -
  have i: "loadIdentity u (z\<lparr>currentUserId := u, currentDeviceId := d\<rparr>) = None" for d
    using assms(5) by (simp add: loadIdentity_def split: if_splits)
  have "ensureKeys e u [] z = (False, z\<lparr>currentUserId := u,
      currentDeviceId := effectiveDevice e (deviceForKeys e [] z) (authToken z) (if authToken z \<noteq> [] then z\<lparr>authToken := authToken z\<rparr> else z)\<rparr>)"
    by (simp add: ensureKeys_def initUserKeys_def Let_def assms(1,2,4) i)
  then show ?thesis by (auto simp: encrypt_def enterOperation_ready [OF assms(2,3)])
qed

text \<open>
  C28. A user whose keys cannot be created sends texts in the clear: both attempts to encrypt throw, the
  page hands the text itself, with its quote, to the gateway, lists it as encrypted without a warning, and
  takes back a warning of the conversation.
\<close>

theorem keyless_text_sent_clear:
  assumes pa: "editingMessage pa = None" "\<not> stagedFile pa" "trim (inputText pa) \<noteq> []" "myUserId pa \<noteq> []"
      "\<not> isGroupChannel (activeChannelId pa)"
    and s: "currentUserId s = myUserId pa" "identityBundle s = None" "loadIdentity (myUserId pa) s = None"
    and "freshKeys e = Rejected"
    and p: "payload = textPayload (trim (inputText pa)) (replyingTo pa)" "\<not> isWireFallback payload"
    and pa': "pa' = handleSendMessage (withDirect c e s env) up pre pa"
  shows "sentTexts pa' = sentTexts pa @ [payload]
    \<and> (\<exists>m. items pa' = items pa @ [m] \<and> msgText m = Some (trim (inputText pa)) \<and> rawCiphertext m = Some payload
           \<and> itemEncrypted m \<and> \<not> itemFallback m \<and> securityWarning m = None \<and> status m = StPending)
    \<and> jsGet (conversationWarnings pa') (activeChannelId pa) = None"
proof -
  have i: "loadIdentity (myUserId pa) (s\<lparr>currentUserId := myUserId pa, currentDeviceId := d\<rparr>) = None" for d
    using s(3) by (simp add: loadIdentity_def split: if_splits)
  have "directSealed c e s t conv (myUserId pa) allow = Rejected" for t conv allow
  proof (cases allow)
    case True
    obtain d where d: "encrypt c e t conv (myUserId pa) 1 [] False s
        = (Inl KeysUnavailable, s\<lparr>currentUserId := myUserId pa, currentDeviceId := d\<rparr>)"
      using keys_unavailable [OF assms(9) pa(4) s] by blast
    have "\<exists>d'. encrypt c e t conv (myUserId pa) 1 [] True (s\<lparr>currentUserId := myUserId pa, currentDeviceId := d\<rparr>)
        = (Inl KeysUnavailable, s\<lparr>currentUserId := myUserId pa, currentDeviceId := d, currentUserId := myUserId pa, currentDeviceId := d'\<rparr>)"
      by (rule keys_unavailable [OF assms(9) pa(4) _ _ i]) (simp_all add: s)
    with d True show ?thesis by (auto simp: directSealed_def Let_def)
  next
    case False
    then show ?thesis using keys_unavailable [OF assms(9) pa(4) s, of c t conv False] by (auto simp: directSealed_def Let_def)
  qed
  then have "sealPayload (withDirect c e s env) payload (activeChannelId pa) (myUserId pa) = Rejected"
    using pa(5) by (simp add: sealPayload_def sealDirect_def withDirect_def)
  from failed_encryption_sends_plaintext [OF pa(1-3) p(1) this p(2) pa'] show ?thesis .
qed

section \<open>The statements at concrete inputs\<close>

text \<open>Bob's page, the envelope that carries \<open>w\<close> to him, and a client that is in the group \<open>chan_g\<close>\<close>

definition demoPeerPage :: pageState where
  "demoPeerPage = (demoPage [] [])\<lparr>myUserId := ''bob'', activeChannelId := ''alice''\<rparr>"

definition demoCarrier :: "string \<Rightarrow> string \<Rightarrow> envelopeIn" where
  "demoCarrier ch w = \<lparr>inChannelId = ch, inSenderId = ''alice'', inClientMsgId = ''m1'', inSequenceNum = Some 1, inCiphertext = Some w, inTtl = 0\<rparr>"

definition demoGroupClient :: mlsState where
  "demoGroupClient = exampleMls\<lparr>groupCache := [(''chan_g'', exampleGroup)]\<rparr>"

definition demoGroupPage :: pageState where
  "demoGroupPage = (demoPage [] ''hi'')\<lparr>activeChannelId := ''chan_g''\<rparr>"

lemma demo_pages:
  "pageOk demoPeerPage" "trim (inputText (demoPage [] ''hi'')) = ''hi''" "trim (inputText demoGroupPage) = ''hi''"
  "editingMessage (demoPage [] u) = None" "\<not> stagedFile (demoPage [] u)" "replyingTo (demoPage [] u) = None"
  "items demoPeerPage = []" "myUserId demoPeerPage = ''bob''" "\<not> isGroupChannel ''bob''" "isGroupChannel ''chan_g''"
proof -
  show "pageOk demoPeerPage" by (simp add: pageOk_def demoPeerPage_def demoPage_def itemsOk_def)
  show "trim (inputText (demoPage [] ''hi'')) = ''hi''" by (simp add: demoPage_def) code_simp
  show "trim (inputText demoGroupPage) = ''hi''" by (simp add: demoPage_def demoGroupPage_def) code_simp
  show "\<not> isGroupChannel ''bob''" "isGroupChannel ''chan_g''" by code_simp+
qed (simp_all add: demoPeerPage_def demoPage_def)

lemma demo_direct_sealed:
  "\<exists>e s'. encrypt demoCrypto demoEnv t ''bob'' ''alice'' 1 [] False (demoUser ''alice'') = (Inr e, s')"
proof -
  have r: "getOrRestoreSession demoCrypto demoEnv ''bob'' ''alice'' ''bob'' (demoUser ''alice'') = (None, demoUser ''alice'')"
    by (simp add: getOrRestoreSession_def demoUser_def Let_def)
  have "fst (handshakeLoop demoCrypto demoEnv ''bob'' ''bob'' 3 0 (demoUser ''alice'')) =
     Some (initiatedSession demoCrypto ''bob'' ''alice'' ''bob'' demoPublic ''0a'' demoInit, demoInit)"
    by (subst handshakeLoop_fst [where ib = demoIdentity])
      (simp_all add: demoUser_def firstAnswer_step demo_answer numeral_2_eq_2)
  then have "\<exists>s'. establishSessionWithRetry demoCrypto demoEnv ''bob'' ''bob'' 3 (demoUser ''alice'') =
     (Some (initiatedSession demoCrypto ''bob'' ''alice'' ''bob'' demoPublic ''0a'' demoInit, demoInit), s')"
    by (cases "handshakeLoop demoCrypto demoEnv ''bob'' ''bob'' 3 0 (demoUser ''alice'')")
      (simp add: establishSessionWithRetry_def demoUser_def)
  moreover have "extractPeerId ''bob'' ''alice'' = ''bob''" by code_simp
  ultimately show ?thesis
    using r by (auto simp: encrypt_def enterOperation_ready demoUser_def Let_def split: prod.splits)
qed

lemma demo_reaches: "reaches demoCrypto demoEnv demoIdentity demoIdentity conv ''alice'' ''bob'' (demoUser ''alice'') (demoUser ''bob'')"
  using demo_agrees by (simp add: reaches_def demoUser_def jsGet_def)



lemma demo_group_sealed:
  "\<exists>x s'. encryptGroupMessage exampleCrypto 1 [] [9] ''chan_g'' ''alice'' ''hi'' demoGroupClient = Done (Blob x, s')"
proof -
  have "\<exists>k. deriveAppKey exampleCrypto exampleGroup = Some k" by (simp add: deriveAppKey_def exampleGroup_def codec_simps)
  moreover have "appCacheOk exampleCrypto ''chan_g'' demoGroupClient" "groupView demoGroupClient ''chan_g'' = Some exampleGroup"
    by (simp_all add: appCacheOk_def groupView_def getLocalGroupState_def demoGroupClient_def exampleMls_def jsGet_def)
  ultimately show ?thesis using encryptGroup_known by blast
qed


theorem reopened_group_message_locked_witness:
  "\<exists>x. map_outcome msgText (reopenItem (withDirect demoCrypto demoEnv (demoUser ''bob'') demoPageEnv) ''chan_g'' ''bob''
      ((demoItem ''m1'' ''hi'')\<lparr>rawCiphertext := Some (mlsText (Blob x))\<rparr>)) = Done (Some pendingNotice)"
proof -
  obtain x s' where e: "encryptGroupMessage exampleCrypto 1 [] [9] ''chan_g'' ''alice'' ''hi'' demoGroupClient = Done (Blob x, s')"
    using demo_group_sealed by blast
  have "reopenItem (withDirect demoCrypto demoEnv (demoUser ''bob'') demoPageEnv) ''chan_g'' ''bob''
      ((demoItem ''m1'' ''hi'')\<lparr>rawCiphertext := Some (mlsText (Blob x))\<rparr>) =
    Done ((demoItem ''m1'' ''hi'')\<lparr>rawCiphertext := Some (mlsText (Blob x)), msgText := Some pendingNotice,
       rawCiphertext := Some (mlsText (Blob x)), itemEncrypted := False\<rparr>)"
    using reopened_group_message_locked [OF e, of "(demoItem ''m1'' ''hi'')\<lparr>rawCiphertext := Some (mlsText (Blob x))\<rparr>" "''bob''" "demoUser ''bob''" demoIdentity demoCrypto demoEnv demoPageEnv]
    by (simp add: demoUser_def)
  then show ?thesis by (intro exI [of _ x]) simp
qed

theorem keyless_text_sent_clear_witness:
  "sentTexts (handleSendMessage (withDirect demoCrypto (demoEnv\<lparr>freshKeys := Rejected\<rparr>) ((demoUser ''alice'')\<lparr>identityBundle := None\<rparr>) demoPageEnv)
     Rejected [] (demoPage [] ''hi'')) = [''hi'']"
proof -
  have p: "myUserId (demoPage [] ''hi'') = ''alice''" "activeChannelId (demoPage [] ''hi'') = ''bob''" "sentTexts (demoPage [] ''hi'') = []"
    by (simp_all add: demoPage_def sentTexts_def List.map_filter_simps)
  have t: "textPayload (trim (inputText (demoPage [] ''hi''))) (replyingTo (demoPage [] ''hi'')) = ''hi''"
    by (simp add: demo_pages textPayload_def)
  have f: "\<not> isWireFallback ''hi''" by code_simp
  show ?thesis
    using keyless_text_sent_clear [OF demo_pages(4,5) _ _ _ _ _ _ _ t [symmetric] f refl,
      of "(demoUser ''alice'')\<lparr>identityBundle := None\<rparr>" "demoEnv\<lparr>freshKeys := Rejected\<rparr>" demoCrypto demoPageEnv Rejected "[]"]
    by (simp add: demo_pages p demoUser_def loadIdentity_def jsGet_def)
qed

section \<open>Attachments\<close>

text \<open>A page that fetches the files of attachments through \<open>net\<close>\<close>

definition withMedia :: "aead \<Rightarrow> mediaNet \<Rightarrow> string \<Rightarrow> (bytes \<times> string \<Rightarrow> string) \<Rightarrow> pageEnv \<Rightarrow> pageEnv" where
  "withMedia a net base createObjectURL env = env\<lparr>fetchAttachment := openAttachment a net base createObjectURL\<rparr>"

lemma jobj_append: "jobj (fs @ gs) = JObj (List.map_filter (\<lambda>(f, v). map_option (Pair f) v) fs @ List.map_filter (\<lambda>(f, v). map_option (Pair f) v) gs)"
  by (simp add: jobj_def List.map_filter_def)

lemma withReply_jobj:
  assumes "''replyTo'' \<notin> fst ` set fs"
  shows "withReply (jobj fs) reply = jobj (fs @ [(''replyTo'', map_option replyJson reply)])"
proof -
  have "''replyTo'' \<notin> fst ` set (List.map_filter (\<lambda>(f, v). map_option (Pair f) v) fs)"
    using assms by (force simp: List.map_filter_def)
  moreover from this have "jsDelete ''replyTo'' (List.map_filter (\<lambda>(f, v). map_option (Pair f) v) fs) = List.map_filter (\<lambda>(f, v). map_option (Pair f) v) fs"
    by (force simp: jsDelete_def filter_id_conv)
  ultimately show ?thesis
    by (cases reply) (simp_all add: withReply_def jobj_append, simp_all add: jobj_def List.map_filter_simps jsSet_absent)
qed

lemma wfJson_replyJson: "wfJson (replyJson r)"
  using wfJson_reply [of "[]" r] by simp

lemma readInner_attachment:
  assumes "downloadUrl m \<noteq> []" "keyOfFile m \<noteq> []" "ivOfFile m \<noteq> []" "\<And>x. waveform m = Some x \<Longrightarrow> wfJson x"
    and J_def: "J = withReply (attachmentJson m) reply"
  shows "readInner f (printJson J) = Some \<lparr>shText = strOr (caption m) None, shReply = reply, shAttachment = Some (withUrl J (f J))\<rparr>"
    "member J ''downloadUrl'' = Some (JStr (downloadUrl m))" "member J ''blobId'' = Some (JStr (blobId m))"
    "member J ''encryptionKeyHex'' = Some (JStr (keyOfFile m))" "member J ''ivHex'' = Some (JStr (ivOfFile m))"
    "member J ''mimeType'' = Some (JStr (mimeType m))"
proof -
  define fs where "fs = [(''blobId'', Some (JStr (blobId m))), (''downloadUrl'', Some (JStr (downloadUrl m))),
      (''encryptionKeyHex'', Some (JStr (keyOfFile m))), (''ivHex'', Some (JStr (ivOfFile m))),
      (''mimeType'', Some (JStr (mimeType m))), (''originalSize'', Some (JNum (int (sizeOfFile m)))),
      (''fileName'', map_option JStr (fileName m)), (''caption'', map_option JStr (caption m)),
      (''isVoiceNote'', map_option JBool (isVoiceNote m)), (''durationSec'', map_option JNum (durationSec m)),
      (''waveform'', waveform m), (''replyTo'', map_option replyJson reply)]"
  have J: "J = jobj fs" unfolding J_def attachmentJson_def fs_def by (subst withReply_jobj) simp_all
  have "wfJson J" unfolding J
    by (rule wfJson_jobj) (auto simp: fs_def wfJson_replyJson assms(4) split: option.split)
  then have p: "parseJson (printJson J) = Some J" by (rule parse_print)
  have s: "startsWith (printJson J) ''{''" by (simp add: J jobj_def startsWith_def)
  show m: "member J ''downloadUrl'' = Some (JStr (downloadUrl m))" "member J ''blobId'' = Some (JStr (blobId m))"
    "member J ''encryptionKeyHex'' = Some (JStr (keyOfFile m))" "member J ''ivHex'' = Some (JStr (ivOfFile m))"
    "member J ''mimeType'' = Some (JStr (mimeType m))"
    by (simp_all add: J fs_def)
  have c: "member J ''caption'' = map_option JStr (caption m)" "member J ''replyTo'' = map_option replyJson reply"
    by (cases "caption m"; cases reply; simp add: J fs_def)+
  have t: "textMember (map_option JStr (caption m)) = Some (caption m)" by (cases "caption m") (simp_all add: textMember_def)
  have r: "jsonTruthy (map_option replyJson reply) \<longleftrightarrow> reply \<noteq> None"
    by (cases reply) (simp_all add: replyJson_def jobj_def)
  have q: "map_option quotedOf (map_option replyJson reply) = reply" by (cases reply) (simp_all add: quotedOf_replyJson)
  have a: "isAttachment J" using assms(1-3) by (simp add: isAttachment_def m)
  show "readInner f (printJson J) = Some \<lparr>shText = strOr (caption m) None, shReply = reply, shAttachment = Some (withUrl J (f J))\<rparr>"
    using s a by (simp add: readInner_def Let_def p c t r q)
qed

lemma openAttachment_uploaded:
  assumes "aeadCorrect a" "uploadEncryptedAttachment a net base k iv f opts = (Inr m, rs)" "k \<noteq> []" "iv \<noteq> []"
    and "\<And>u ct b. PutObject u ct b \<in> set rs \<Longrightarrow> renewedFetch net' base' j = HttpOk b"
    and "member j ''encryptionKeyHex'' = Some (JStr (keyOfFile m))" "member j ''ivHex'' = Some (JStr (ivOfFile m))"
      "member j ''mimeType'' = Some (JStr (mimeType m))"
  shows "openAttachment a net' base' url j = Some (url (fileBytes f, strOrElse (fileType f) ''application/octet-stream''))"
proof -
  note u = uploaded_fields [OF assms(2)]
  obtain p where "PutObject p ''application/octet-stream'' (seal a k iv [] (fileBytes f)) \<in> set rs" using u(1) by blast
  from assms(5) [OF this] show ?thesis
    using assms(1,3,4) by (simp add: openAttachment_def textOf_def assms(6-8) u decryptFile_def codec_simps)
qed

text \<open>
  C5. A file in a direct conversation, end to end, as the first message or a later one: it is encrypted under a key of its own and put in the
  store, the key travels in an envelope for the peer, and the peer's page lists the message with the
  caption, the quote and the address of the file's own bytes, fetched from the store and decrypted.
\<close>

theorem direct_attachment_delivered:
  assumes "aeadCorrect (gcmd c)" "aeadTagged (gcmd c)" "freshIv eA \<noteq> []" "reaches c eA ibA ibB b a b sA sB"
    and u: "a \<noteq> []" "b \<noteq> []" "a \<noteq> b" "extractPeerId b a = b" "\<not> isGroupChannel b"
    and "currentUserId sA = a" "identityBundle sA = Some ibA" "currentUserId sB = b" "identityBundle sB = Some ibB"
    and pa: "editingMessage pa = None" "stagedFile pa" "myUserId pa = a" "activeChannelId pa = b"
    and t: "opts = (if trim (inputText pa) = [] then noOptions else noOptions\<lparr>optCaption := Some (trim (inputText pa))\<rparr>)"
    and up: "aeadCorrect am" "uploadEncryptedAttachment am net base k iv f opts = (Inr m, rs)" "k \<noteq> []" "iv \<noteq> []" "downloadUrl m \<noteq> []"
    and store: "\<And>p ct x. PutObject p ct x \<in> set rs \<Longrightarrow> onFetch net' (downloadUrl m) = HttpOk x"
    and J: "J = withReply (attachmentJson m) (replyingTo pa)"
    and e: "encrypt c eA (printJson J) b a 1 [] False sA = (Inr e, sA')" "\<not> startsWith a ''chan_''"
    and pb: "pageOk pb" "myUserId pb = b"
    and g: "inChannelId g = b" "inSenderId g = a" "inCiphertext g = Some w"
      "last (sentTexts (handleSendMessage (withDirect c eA sA envA) (Done (attachmentJson m)) pre pa)) = w"
      "inClientMsgId g \<noteq> []" "\<not> startsWith (inClientMsgId g) ''notice_''" "inClientMsgId g \<notin> msgId ` set (items pb)"
  shows "\<exists>n. items (onMessage (withDirect c eB sB (withMedia am net' base' url envB)) g pb) = items pb @ [n]
    \<and> msgText n = optCaption opts \<and> replyTo n = replyingTo pa \<and> itemEncrypted n
    \<and> attachment n = Some (withUrl J (Some (url (fileBytes f, strOrElse (fileType f) ''application/octet-stream''))))"
proof -
  let ?env = "withDirect c eB sB (withMedia am net' base' url envB)"
  obtain r where r: "openCiphertext ?env b a (envelopeText e) = Done r" "openedBody r = printJson J" "openedEncrypted r"
    using direct_pipeline [OF assms(1-8,10-13) e] .
  have "sealPayload (withDirect c eA sA envA) (printJson J) b a = Done (envelopeText e)"
    using u(5) e(1) by (simp add: sealPayload_def sealDirect_def withDirect_def directSealed_def)
  then have w: "w = envelopeText e"
    using attachment_sent [OF pa(1,2)] g(4) pa(3,4) J by simp
  note fields = uploaded_fields [OF up(2)]
  have ne: "keyOfFile m \<noteq> []" "ivOfFile m \<noteq> []"
    using up(3,4) by (simp_all add: fields bytesToHex_concat neq_Nil_conv hexByte_digits)
  have wf: "waveform m = None" by (simp add: fields t noOptions_def)
  note ri = readInner_attachment [OF up(5) ne _ J, simplified wf]
  have "fetchAttachment ?env J = Some (url (fileBytes f, strOrElse (fileType f) ''application/octet-stream''))"
    unfolding withDirect_def withMedia_def
    using openAttachment_uploaded [OF up(1-4) _ ri(4-6), of net' base' url] renewedFetch_served [OF ri(2,3)] store by simp
  with ri(1) r(2) have i: "readInner (fetchAttachment ?env) (openedBody r) = Some \<lparr>shText = strOr (caption m) None, shReply = replyingTo pa,
      shAttachment = Some (withUrl J (Some (url (fileBytes f, strOrElse (fileType f) ''application/octet-stream''))))\<rparr>"
    by simp
  have cap: "strOr (caption m) None = optCaption opts" by (simp add: fields t noOptions_def strOr_def)
  have ch: "a = effectiveChannel (myUserId pb) g" using g(1,2) u(1,2) pb(2) by (simp add: effectiveChannel_def isDirectForMe_def)
  show ?thesis
    using listed_when_read [OF pb(1) _ g(3) _ g(5-7) ch _ i] r(1,3) w cap u(2) g(1) pb(2)
    by (fastforce simp: envelopeText_nonempty)
qed

definition demoMeta :: AttachmentMetadata where
  "demoMeta = attachmentOf (encryptFile tagAead [5] [1] sampleFile) noOptions sampleFile ''f1'' ''/get''"

definition demoStagedPage :: pageState where
  "demoStagedPage = (demoPage [] [])\<lparr>stagedFile := True\<rparr>"

lemma demo_upload:
  "uploadEncryptedAttachment tagAead sampleNet ''/media'' [5] [1] sampleFile noOptions =
     (Inr demoMeta, [PostUpload (getEndpoint ''/media'' ''upload'') ''application/octet-stream'' 4,
        PutObject ''/put'' ''application/octet-stream'' [5, 1, 7, 8]])"
  by (simp add: uploadEncryptedAttachment_def Let_def sampleNet_def encryptFile_def sampleFile_def tagAead_def blobIdOf_def strOrElse_def demoMeta_def)

theorem direct_attachment_delivered_witness:
  "\<exists>w n. items (onMessage (withDirect demoCrypto demoEnv (demoUser ''bob'') (withMedia tagAead sampleNet ''/media'' snd demoPageEnv))
       (demoCarrier ''bob'' w) demoPeerPage) = [n]
    \<and> msgText n = None \<and> itemEncrypted n
    \<and> attachment n = Some (withUrl (withReply (attachmentJson demoMeta) None) (Some ''image/png''))"
proof -
  obtain e s' where e: "encrypt demoCrypto demoEnv (printJson (withReply (attachmentJson demoMeta) (replyingTo demoStagedPage))) ''bob'' ''alice'' 1 []
      False (demoUser ''alice'') = (Inr e, s')"
    using demo_direct_sealed by blast
  have p: "editingMessage demoStagedPage = None" "stagedFile demoStagedPage" "myUserId demoStagedPage = ''alice''"
    "activeChannelId demoStagedPage = ''bob''" "replyingTo demoStagedPage = None" by (simp_all add: demoStagedPage_def demoPage_def)
  define w where "w = last (sentTexts (handleSendMessage (withDirect demoCrypto demoEnv (demoUser ''alice'') demoPageEnv)
    (Done (attachmentJson demoMeta)) [] demoStagedPage))"
  have g: "inChannelId (demoCarrier ''bob'' w) = ''bob''" "inSenderId (demoCarrier ''bob'' w) = ''alice''"
    "inCiphertext (demoCarrier ''bob'' w) = Some w" "inClientMsgId (demoCarrier ''bob'' w) = ''m1''" by (simp_all add: demoCarrier_def)
  have x: "extractPeerId ''bob'' ''alice'' = ''bob''" by code_simp
  have u: "currentUserId (demoUser z) = z" "identityBundle (demoUser z) = Some demoIdentity" "jsGet (sessionCache (demoUser z)) k = None"
    "jsGet (pendingHandshakes (demoUser z)) k = None" "jsGet (persistedSessions (demoUser z)) k = None" for z k
    by (simp_all add: demoUser_def jsGet_def)
  have t: "noOptions = (if trim (inputText demoStagedPage) = [] then noOptions else noOptions\<lparr>optCaption := Some (trim (inputText demoStagedPage))\<rparr>)"
    by (simp add: demoStagedPage_def demoPage_def trim_def)
  have d: "downloadUrl demoMeta \<noteq> []" "[5] \<noteq> ([] :: byte list)" "[1] \<noteq> ([] :: byte list)" by (simp_all add: demoMeta_def attachmentOf_def)
  have st: "onFetch sampleNet (downloadUrl demoMeta) = HttpOk b"
    if "PutObject u ct b \<in> set [PostUpload (getEndpoint ''/media'' ''upload'') ''application/octet-stream'' 4,
        PutObject ''/put'' ''application/octet-stream'' [5, 1, 7, 8]]" for u ct b
    using that by (simp add: sampleNet_def)
  have "\<exists>n. items (onMessage (withDirect demoCrypto demoEnv (demoUser ''bob'') (withMedia tagAead sampleNet ''/media'' snd demoPageEnv))
       (demoCarrier ''bob'' w) demoPeerPage) = items demoPeerPage @ [n]
     \<and> msgText n = optCaption noOptions \<and> replyTo n = replyingTo demoStagedPage \<and> itemEncrypted n
     \<and> attachment n = Some (withUrl (withReply (attachmentJson demoMeta) (replyingTo demoStagedPage))
         (Some (snd (fileBytes sampleFile, strOrElse (fileType sampleFile) ''application/octet-stream''))))"
    by (rule direct_attachment_delivered [OF demo_laws demo_reaches _ _ _ x demo_pages(9) u(1,2) u(1,2) p(1-4) t tagAead_ok(1)
          demo_upload d(2,3,1) st refl e _ demo_pages(1,8) g(1-3) w_def [symmetric]])
      (simp_all add: g(4) demo_pages startsWith_def)
  then show ?thesis by (auto simp: demo_pages p noOptions_def sampleFile_def strOrElse_def)
qed

end
