(* ===== verification/Secure_Keys.thy ===== *)
theory Secure_Keys
  imports Crypto_Api Json_Text Kv_Store
begin

text \<open>
  The store of secret keys of \<open>packages/client-crypto/src/storage.ts\<close>, the facade over the compiled
  module of \<open>crypto.ts\<close> beside it, and \<open>packages/client-web/src/lib/ws-reconciler.ts\<close>, which decrypts pushed
  messages with both. The compiled module is a parameter. An operation of the store that waits for the
  master key or for the cipher is a task; \<open>ringStep\<close> lets tasks interleave, \<open>storeEntry\<close> and \<open>loadEntry\<close> are
  an operation that nothing interrupts.
\<close>

section \<open>Encryption at rest\<close>

record secureKeys =
  masterKey :: "key option"
  inMemoryFallback :: "(string \<times> string) jsmap"

text \<open>A key is generated when there is none; \<open>fresh\<close> is that key.\<close>

definition getMasterKey :: "key \<Rightarrow> secureKeys \<Rightarrow> key \<times> secureKeys" where
  "getMasterKey fresh s = (case masterKey s of Some k \<Rightarrow> (k, s) | None \<Rightarrow> (fresh, s\<lparr>masterKey := Some fresh\<rparr>))"

definition encryptAtRest :: "aead \<Rightarrow> key \<Rightarrow> bytes \<Rightarrow> string \<Rightarrow> string \<times> string" where
  "encryptAtRest a k iv data = (btoa (bytesToStr (seal a k iv [] (textEncode data))), bytesToHex iv)"

definition decryptAtRest :: "aead \<Rightarrow> key \<Rightarrow> string \<times> string \<Rightarrow> string option" where
  "decryptAtRest a k enc =
     Option.bind (atob (fst enc)) (\<lambda>ct. Option.bind (unseal a k (hexToBuffer (snd enc)) [] (strToBytes ct)) textDecode)"

definition storeEntry :: "aead \<Rightarrow> key \<Rightarrow> bytes \<Rightarrow> string \<Rightarrow> string \<Rightarrow> secureKeys \<Rightarrow> secureKeys" where
  "storeEntry a fresh iv name data s =
     (case getMasterKey fresh s of (k, s1) \<Rightarrow>
        s1\<lparr>inMemoryFallback := jsSet name (encryptAtRest a k iv data) (inMemoryFallback s1)\<rparr>)"

text \<open>\<open>Done None\<close>: nothing is stored under the name. A rejected promise: the entry does not decrypt.\<close>

definition loadEntry :: "aead \<Rightarrow> key \<Rightarrow> string \<Rightarrow> secureKeys \<Rightarrow> string option outcome \<times> secureKeys" where
  "loadEntry a fresh name s =
     (case jsGet (inMemoryFallback s) name of
        None \<Rightarrow> (Done None, s)
      | Some enc \<Rightarrow>
          (case getMasterKey fresh s of (k, s1) \<Rightarrow>
             ((case decryptAtRest a k enc of Some d \<Rightarrow> Done (Some d) | None \<Rightarrow> Rejected), s1)))"

definition wipeAllKeys :: "secureKeys \<Rightarrow> secureKeys" where
  "wipeAllKeys s = s\<lparr>inMemoryFallback := [], masterKey := None\<rparr>"

section \<open>Identity keys and ratchet sessions\<close>

record RatchetSessionState =
  conversation_id :: string
  peer_user_id :: string
  session_pickle :: string
  pickle_key_hex :: string
  updated_at :: int

definition sessionJson :: "RatchetSessionState \<Rightarrow> json" where
  "sessionJson x = JObj
     [(''conversation_id'', JStr (conversation_id x)), (''peer_user_id'', JStr (peer_user_id x)),
      (''session_pickle'', JStr (session_pickle x)), (''pickle_key_hex'', JStr (pickle_key_hex x)),
      (''updated_at'', JNum (updated_at x))]"

definition strOf :: "json \<Rightarrow> string \<Rightarrow> string" where
  "strOf j f = (case member j f of Some (JStr s) \<Rightarrow> s | _ \<Rightarrow> [])"

definition readSession :: "json \<Rightarrow> RatchetSessionState" where
  "readSession j =
     \<lparr>conversation_id = strOf j ''conversation_id'', peer_user_id = strOf j ''peer_user_id'',
      session_pickle = strOf j ''session_pickle'', pickle_key_hex = strOf j ''pickle_key_hex'',
      updated_at = (case member j ''updated_at'' of Some (JNum n) \<Rightarrow> n | _ \<Rightarrow> 0)\<rparr>"

text \<open>\<open>JSON.parse\<close> of what was loaded, which rejects on a text that is no JSON.\<close>

definition parsedEntry :: "string option outcome \<Rightarrow> json option outcome" where
  "parsedEntry r =
     (case r of Done (Some t) \<Rightarrow> (case parseJson t of Some j \<Rightarrow> Done (Some j) | None \<Rightarrow> Rejected)
      | Done None \<Rightarrow> Done None | Rejected \<Rightarrow> Rejected)"

definition storeIdentityKey :: "aead \<Rightarrow> key \<Rightarrow> bytes \<Rightarrow> json \<Rightarrow> secureKeys \<Rightarrow> secureKeys" where
  "storeIdentityKey a fresh iv bundle s = storeEntry a fresh iv ''identity_keys'' (printJson bundle) s"

definition loadIdentityKey :: "aead \<Rightarrow> key \<Rightarrow> secureKeys \<Rightarrow> json option outcome \<times> secureKeys" where
  "loadIdentityKey a fresh s = (case loadEntry a fresh ''identity_keys'' s of (r, s1) \<Rightarrow> (parsedEntry r, s1))"

definition sessionName :: "string \<Rightarrow> string" where
  "sessionName conv = ''ratchet_sessions:'' @ conv"

definition storeSession :: "aead \<Rightarrow> key \<Rightarrow> bytes \<Rightarrow> RatchetSessionState \<Rightarrow> secureKeys \<Rightarrow> secureKeys" where
  "storeSession a fresh iv x s = storeEntry a fresh iv (sessionName (conversation_id x)) (printJson (sessionJson x)) s"

definition loadSession :: "aead \<Rightarrow> key \<Rightarrow> string \<Rightarrow> secureKeys \<Rightarrow> RatchetSessionState option outcome \<times> secureKeys" where
  "loadSession a fresh conv s =
     (case loadEntry a fresh (sessionName conv) s of (r, s1) \<Rightarrow>
        ((case parsedEntry r of Done j \<Rightarrow> Done (map_option readSession j) | Rejected \<Rightarrow> Rejected), s1))"

definition getSession :: "aead \<Rightarrow> key \<Rightarrow> string \<Rightarrow> secureKeys \<Rightarrow> string outcome \<times> secureKeys" where
  "getSession a fresh channel s =
     (case loadSession a fresh channel s of (r, s1) \<Rightarrow>
        ((case r of Done (Some x) \<Rightarrow> Done (session_pickle x) | Done None \<Rightarrow> Done [] | Rejected \<Rightarrow> Rejected), s1))"

definition zeroKeyHex :: string where
  "zeroKeyHex = concat (replicate 32 ''00'')"

definition savePickle :: "aead \<Rightarrow> key \<Rightarrow> bytes \<Rightarrow> int \<Rightarrow> string \<Rightarrow> string \<Rightarrow> string option \<Rightarrow> secureKeys \<Rightarrow> secureKeys" where
  "savePickle a fresh iv now channel pickle pickleKey s =
     storeSession a fresh iv
       \<lparr>conversation_id = channel, peer_user_id = [], session_pickle = pickle,
        pickle_key_hex = (case pickleKey of Some k \<Rightarrow> k | None \<Rightarrow> zeroKeyHex), updated_at = now\<rparr> s"

section \<open>Operations that interleave\<close>

text \<open>
  An operation takes the master key at once if there is one, and waits for a new one otherwise. A new
  key is put in place and used by the operation that waited for it, whatever happened meanwhile.
\<close>

datatype keyOp = StoreOp string string bytes | LoadOp "string \<times> string"

datatype keyTask = AwaitKey keyOp | HaveKey key keyOp

record keyRing = secureKeys +
  keyTasks :: "(nat \<times> keyTask) list"
  nextTask :: nat
  loaded :: "(nat \<times> string option) list"

datatype ringEvent = BeginStore string string bytes | BeginLoad string | KeyMade nat key | Finish nat | Wipe

definition beginOp :: "keyOp \<Rightarrow> keyRing \<Rightarrow> keyRing" where
  "beginOp x s =
     s\<lparr>keyTasks := keyTasks s @ [(nextTask s, case masterKey s of Some k \<Rightarrow> HaveKey k x | None \<Rightarrow> AwaitKey x)],
       nextTask := Suc (nextTask s)\<rparr>"

definition dropTask :: "nat \<Rightarrow> keyRing \<Rightarrow> keyRing" where
  "dropTask i s = s\<lparr>keyTasks := filter (\<lambda>t. fst t \<noteq> i) (keyTasks s)\<rparr>"

definition finishTask :: "aead \<Rightarrow> nat \<Rightarrow> keyRing \<Rightarrow> keyRing" where
  "finishTask a i s =
     (case map_of (keyTasks s) i of
        Some (HaveKey k (StoreOp name data iv)) \<Rightarrow>
          (dropTask i s)\<lparr>inMemoryFallback := jsSet name (encryptAtRest a k iv data) (inMemoryFallback s)\<rparr>
      | Some (HaveKey k (LoadOp enc)) \<Rightarrow> (dropTask i s)\<lparr>loaded := loaded s @ [(i, decryptAtRest a k enc)]\<rparr>
      | _ \<Rightarrow> s)"

fun ringStep :: "aead \<Rightarrow> ringEvent \<Rightarrow> keyRing \<Rightarrow> keyRing" where
  "ringStep a (BeginStore name data iv) s = beginOp (StoreOp name data iv) s"
| "ringStep a (BeginLoad name) s =
     (case jsGet (inMemoryFallback s) name of
        None \<Rightarrow> s\<lparr>loaded := loaded s @ [(nextTask s, None)], nextTask := Suc (nextTask s)\<rparr>
      | Some enc \<Rightarrow> beginOp (LoadOp enc) s)"
| "ringStep a (KeyMade i k) s =
     (case map_of (keyTasks s) i of
        Some (AwaitKey x) \<Rightarrow>
          s\<lparr>masterKey := Some k, keyTasks := map (\<lambda>t. if fst t = i then (i, HaveKey k x) else t) (keyTasks s)\<rparr>
      | _ \<Rightarrow> s)"
| "ringStep a (Finish i) s = finishTask a i s"
| "ringStep a Wipe s = s\<lparr>inMemoryFallback := [], masterKey := None\<rparr>"

section \<open>The facade over the compiled module\<close>

record WasmExports =
  generate_pqxdh_keys :: "nat \<Rightarrow> json \<times> json"
  initiate_pqxdh_handshake :: "json \<Rightarrow> json \<Rightarrow> json option"
  receive_pqxdh_handshake :: "json \<Rightarrow> json \<Rightarrow> string option"
  encrypt_message :: "string \<Rightarrow> string \<Rightarrow> bytes \<Rightarrow> json option"
  decrypt_message :: "string \<Rightarrow> string \<Rightarrow> int \<Rightarrow> string \<Rightarrow> (bytes \<times> string) option"

definition generatePqxdhKeys :: "WasmExports option \<Rightarrow> nat option \<Rightarrow> (json \<times> json) option" where
  "generatePqxdhKeys wasm count =
     map_option (\<lambda>w. generate_pqxdh_keys w (case count of Some n \<Rightarrow> n | None \<Rightarrow> 20)) wasm"

definition initiatePqxdhHandshake :: "WasmExports option \<Rightarrow> json \<Rightarrow> json \<Rightarrow> json option" where
  "initiatePqxdhHandshake wasm alice bob = Option.bind wasm (\<lambda>w. initiate_pqxdh_handshake w alice bob)"

definition receivePqxdhHandshake :: "WasmExports option \<Rightarrow> json \<Rightarrow> json \<Rightarrow> string option" where
  "receivePqxdhHandshake wasm bob m = Option.bind wasm (\<lambda>w. receive_pqxdh_handshake w bob m)"

datatype plainArg = TextArg string | BytesArg bytes

definition encryptMessage :: "WasmExports option \<Rightarrow> string \<Rightarrow> string \<Rightarrow> plainArg \<Rightarrow> json option" where
  "encryptMessage wasm pickle pickleKey plaintext =
     Option.bind wasm (\<lambda>w. encrypt_message w pickle pickleKey (case plaintext of TextArg t \<Rightarrow> textEncode t | BytesArg b \<Rightarrow> b))"

datatype callArg = NumArg int | StrArg string

text \<open>Two forms of call; the one without a key uses a key of zeros.\<close>

definition decryptMessage ::
  "WasmExports option \<Rightarrow> string \<Rightarrow> callArg \<Rightarrow> callArg \<Rightarrow> callArg option \<Rightarrow> (bytes \<times> string) option" where
  "decryptMessage wasm pickle arg2 arg3 arg4 =
     Option.bind wasm (\<lambda>w.
       case (arg2, arg3, arg4) of
         (NumArg n, StrArg ct, _) \<Rightarrow> decrypt_message w pickle zeroKeyHex n ct
       | (StrArg k, NumArg n, Some (StrArg ct)) \<Rightarrow> decrypt_message w pickle k n ct
       | _ \<Rightarrow> None)"

section \<open>Pushed messages\<close>

record inFrame =
  frameType :: string
  frChannel :: string
  frSender :: string
  frCiphertext :: string
  frMessageType :: "int option"
  frServerId :: string

record MessageRecord =
  recServerId :: string
  recChannelId :: string
  recSenderId :: string
  recBody :: string
  recStatus :: string

record reconciler =
  recMessages :: "MessageRecord list"
  recKeys :: secureKeys
  subscribed :: bool

definition recStart :: "reconciler \<Rightarrow> reconciler" where
  "recStart r = r\<lparr>subscribed := True\<rparr>"

definition recStop :: "reconciler \<Rightarrow> reconciler" where
  "recStop r = r\<lparr>subscribed := False\<rparr>"

text \<open>
  The text of a push: decrypted with the session of the channel, which is then replaced; the payload itself
  when anything of that throws. A plaintext that is no UTF-8 of Latin-1 is shown by its bytes.
\<close>

definition pushText ::
  "aead \<Rightarrow> WasmExports option \<Rightarrow> key \<Rightarrow> bytes \<Rightarrow> int \<Rightarrow> inFrame \<Rightarrow> secureKeys \<Rightarrow> string \<times> secureKeys" where
  "pushText a wasm fresh iv now f s =
     (case getSession a fresh (frChannel f) s of
        (Rejected, s1) \<Rightarrow> (frCiphertext f, s1)
      | (Done pickle, s1) \<Rightarrow>
          (case (case frMessageType f of Some n \<Rightarrow> decryptMessage wasm pickle (NumArg n) (StrArg (frCiphertext f)) None | None \<Rightarrow> None) of
             None \<Rightarrow> (frCiphertext f, s1)
           | Some (plain, pickle') \<Rightarrow>
               (case textDecode plain of Some t \<Rightarrow> t | None \<Rightarrow> bytesToStr plain,
                savePickle a fresh iv now (frChannel f) pickle' None s1)))"

definition handlePush ::
  "aead \<Rightarrow> WasmExports option \<Rightarrow> key \<Rightarrow> bytes \<Rightarrow> int \<Rightarrow> inFrame \<Rightarrow> reconciler \<Rightarrow> reconciler" where
  "handlePush a wasm fresh iv now f r =
     (if frChannel f = [] \<or> frSender f = [] \<or> frCiphertext f = [] then r
      else case pushText a wasm fresh iv now f (recKeys r) of (body, ks) \<Rightarrow>
        r\<lparr>recKeys := ks,
          recMessages := recMessages r @ [\<lparr>recServerId = frServerId f, recChannelId = frChannel f, recSenderId = frSender f,
            recBody = body, recStatus = ''delivered''\<rparr>]\<rparr>)"

fun updateFirst :: "('m \<Rightarrow> bool) \<Rightarrow> ('m \<Rightarrow> 'm) \<Rightarrow> 'm list \<Rightarrow> 'm list" where
  "updateFirst p g [] = []"
| "updateFirst p g (m # ms) = (if p m then g m # ms else m # updateFirst p g ms)"

definition handleReadReceipt :: "inFrame \<Rightarrow> reconciler \<Rightarrow> reconciler" where
  "handleReadReceipt f r =
     (if frServerId f = [] then r
      else r\<lparr>recMessages := updateFirst (\<lambda>m. recServerId m = frServerId f) (\<lambda>m. m\<lparr>recStatus := ''read''\<rparr>) (recMessages r)\<rparr>)"

definition handleFrame ::
  "aead \<Rightarrow> WasmExports option \<Rightarrow> key \<Rightarrow> bytes \<Rightarrow> int \<Rightarrow> inFrame \<Rightarrow> reconciler \<Rightarrow> reconciler" where
  "handleFrame a wasm fresh iv now f r =
     (if \<not> subscribed r then r
      else if frameType f = ''push'' then handlePush a wasm fresh iv now f r
      else if frameType f = ''read_receipt'' then handleReadReceipt f r
      else r)"

section \<open>What the store keeps\<close>

lemma decryptAtRest_encryptAtRest: "aeadCorrect a \<Longrightarrow> decryptAtRest a k (encryptAtRest a k iv d) = Some d"
  by (simp add: decryptAtRest_def encryptAtRest_def codec_simps)

lemma storeEntry_masterKey: "masterKey (storeEntry a fresh iv name d s) = Some (fst (getMasterKey fresh s))"
  by (auto simp: storeEntry_def getMasterKey_def split: option.splits prod.splits)

lemma loadEntry_stored:
  assumes "aeadCorrect a" "masterKey s = Some k" "jsGet (inMemoryFallback s) name = Some (encryptAtRest a k iv d)"
  shows "loadEntry a fresh name s = (Done (Some d), s)"
  using assms by (simp add: loadEntry_def getMasterKey_def decryptAtRest_encryptAtRest)

lemma readSession_json: "readSession (sessionJson x) = x"
  by (simp add: readSession_def sessionJson_def strOf_def member_def)

lemma wfJson_session: "wfJson (sessionJson x)"
  by (simp add: sessionJson_def)

text \<open>
  C16. A ratchet session that was stored is loaded as it was, however many other entries are stored in between
  and whether or not there was a master key before.
\<close>

theorem stored_session_loaded:
  assumes "aeadCorrect a" "sessionName (conversation_id x) \<notin> (\<lambda>(fresh, iv, name, data). name) ` set ops"
  shows "fst (loadSession a fresh' (conversation_id x)
      (fold (\<lambda>(fresh, iv, name, data). storeEntry a fresh iv name data) ops (storeSession a fresh iv x s))) = Done (Some x)"
proof -
  define n where "n = sessionName (conversation_id x)"
  define d where "d = printJson (sessionJson x)"
  define k where "k = fst (getMasterKey fresh s)"
  have step: "masterKey (fold (\<lambda>(fresh, iv, name, data). storeEntry a fresh iv name data) ops s0) = Some k
      \<and> jsGet (inMemoryFallback (fold (\<lambda>(fresh, iv, name, data). storeEntry a fresh iv name data) ops s0)) n = Some (encryptAtRest a k iv d)"
    if "masterKey s0 = Some k" "jsGet (inMemoryFallback s0) n = Some (encryptAtRest a k iv d)" for s0
    using assms(2) that
  proof (induction ops arbitrary: s0)
    case (Cons o' ops)
    obtain f v m e where o: "o' = (f, v, m, e)" by (cases o')
    have "masterKey (storeEntry a f v m e s0) = Some k"
      "jsGet (inMemoryFallback (storeEntry a f v m e s0)) n = Some (encryptAtRest a k iv d)"
      using Cons.prems by (auto simp: o storeEntry_def getMasterKey_def n_def)
    with Cons show ?case by (simp add: o)
  qed simp
  have "masterKey (storeSession a fresh iv x s) = Some k"
    by (simp add: storeSession_def storeEntry_masterKey k_def)
  moreover have "jsGet (inMemoryFallback (storeSession a fresh iv x s)) n = Some (encryptAtRest a k iv d)"
    by (auto simp: storeSession_def storeEntry_def n_def d_def k_def split: prod.split)
  ultimately have "loadEntry a fresh' n (fold (\<lambda>(fresh, iv, name, data). storeEntry a fresh iv name data) ops (storeSession a fresh iv x s))
      = (Done (Some d), fold (\<lambda>(fresh, iv, name, data). storeEntry a fresh iv name data) ops (storeSession a fresh iv x s))"
    using step loadEntry_stored [OF assms(1)] by blast
  then show ?thesis
    by (simp add: loadSession_def n_def parsedEntry_def d_def parse_print wfJson_session readSession_json)
qed

text \<open>
  Two operations that both find no master key each generate one, and the second key replaces the first:
  what the first operation stores is encrypted under a key that is gone, and loading it fails.
\<close>

theorem concurrent_first_stores:
  assumes "masterKey s = None" "keyTasks s = []" "n1 \<noteq> n2" "i = nextTask s"
    and "unseal a k2 iv1 [] (seal a k1 iv1 [] (textEncode d1)) = None"
    and "s' = fold (ringStep a) [BeginStore n1 d1 iv1, BeginStore n2 d2 iv2, KeyMade i k1, KeyMade (Suc i) k2, Finish i, Finish (Suc i)] s"
  shows "fst (loadEntry a fresh n1 (secureKeys.truncate s')) = Rejected"
proof -
  have "masterKey s' = Some k2" "jsGet (inMemoryFallback s') n1 = Some (encryptAtRest a k1 iv1 d1)"
    unfolding assms(6) using assms(1-4) by (simp_all add: beginOp_def finishTask_def dropTask_def)
  moreover have "decryptAtRest a k2 (encryptAtRest a k1 iv1 d1) = None"
    using assms(5) by (simp add: decryptAtRest_def encryptAtRest_def codec_simps)
  ultimately show ?thesis by (simp add: loadEntry_def getMasterKey_def secureKeys.truncate_def)
qed

text \<open>
  A store that waits for its key while everything is wiped, as at the end of a session, puts the new key and
  its entry in place afterwards: what was to be erased can be loaded.
\<close>

theorem wipe_undone_by_pending_store:
  assumes "aeadCorrect a" "masterKey s = None" "keyTasks s = []" "i = nextTask s"
    and "s' = fold (ringStep a) [BeginStore n d iv, Wipe, KeyMade i k, Finish i] s"
  shows "fst (loadEntry a fresh n (secureKeys.truncate s')) = Done (Some d)"
proof -
  have "masterKey s' = Some k" "jsGet (inMemoryFallback s') n = Some (encryptAtRest a k iv d)"
    unfolding assms(5) using assms(2-4) by (simp_all add: beginOp_def finishTask_def dropTask_def)
  then show ?thesis
    using loadEntry_stored [OF assms(1), of "secureKeys.truncate s'"] by (simp add: secureKeys.truncate_def)
qed

text \<open>
  Every well-formed push adds exactly one message, in the order of the pushes, with its sender and its
  channel; receipts and other frames add none.
\<close>

theorem pushes_recorded_in_order:
  assumes "subscribed r"
  shows "map (\<lambda>m. (recServerId m, recChannelId m, recSenderId m))
      (recMessages (fold (\<lambda>(fresh, iv, now, f). handleFrame a wasm fresh iv now f) fs r))
    = map (\<lambda>m. (recServerId m, recChannelId m, recSenderId m)) (recMessages r)
      @ map (\<lambda>f. (frServerId f, frChannel f, frSender f))
          (filter (\<lambda>f. frameType f = ''push'' \<and> frChannel f \<noteq> [] \<and> frSender f \<noteq> [] \<and> frCiphertext f \<noteq> []) (map (snd \<circ> snd \<circ> snd) fs))"
  using assms
proof (induction fs arbitrary: r)
  case (Cons x fs)
  obtain fresh iv now f where x: "x = (fresh, iv, now, f)" by (cases x)
  have u: "map (\<lambda>m. (recServerId m, recChannelId m, recSenderId m)) (updateFirst p (\<lambda>m. m\<lparr>recStatus := st\<rparr>) ms)
      = map (\<lambda>m. (recServerId m, recChannelId m, recSenderId m)) ms" for p st ms
    by (induction ms) simp_all
  have s: "subscribed (handleFrame a wasm fresh iv now f r)"
    using Cons.prems by (simp add: handleFrame_def handlePush_def handleReadReceipt_def split: prod.split)
  show ?case
    unfolding x using Cons.IH [OF s] Cons.prems
    by (auto simp: handleFrame_def handlePush_def handleReadReceipt_def u split: prod.split)
qed simp

section \<open>The statements at concrete inputs\<close>

definition noKeys :: secureKeys where
  "noKeys = \<lparr>masterKey = None, inMemoryFallback = []\<rparr>"

definition idleRing :: keyRing where
  "idleRing = \<lparr>masterKey = None, inMemoryFallback = [], keyTasks = [], nextTask = 0, loaded = []\<rparr>"

definition sampleSession :: RatchetSessionState where
  "sampleSession = \<lparr>conversation_id = ''c'', peer_user_id = ''bob'', session_pickle = ''p'', pickle_key_hex = ''00'', updated_at = 5\<rparr>"

theorem stored_session_loaded_witness:
  "fst (loadSession tagAead [9] ''c'' (storeEntry tagAead [2] [1] ''identity_keys'' ''x'' (storeSession tagAead [1] [1] sampleSession noKeys)))
    = Done (Some sampleSession)"
  using stored_session_loaded [OF tagAead_ok(1), of sampleSession "[([2], [1], ''identity_keys'', ''x'')]" "[9]" "[1]" "[1]" noKeys]
  by (simp add: sampleSession_def sessionName_def)

theorem concurrent_first_stores_witness:
  "fst (loadEntry tagAead [9] ''a'' (secureKeys.truncate (fold (ringStep tagAead)
     [BeginStore ''a'' ''x'' [7], BeginStore ''b'' ''y'' [8], KeyMade 0 [1], KeyMade (Suc 0) [2], Finish 0, Finish (Suc 0)] idleRing))) = Rejected"
  by (rule concurrent_first_stores [OF _ _ _ _ _ refl]) (simp_all add: idleRing_def tagAead_def)

theorem wipe_undone_by_pending_store_witness:
  "fst (loadEntry tagAead [9] ''a'' (secureKeys.truncate (fold (ringStep tagAead)
     [BeginStore ''a'' ''x'' [7], Wipe, KeyMade 0 [1], Finish 0] idleRing))) = Done (Some ''x'')"
  by (rule wipe_undone_by_pending_store [OF tagAead_ok(1) _ _ _ refl]) (simp_all add: idleRing_def)

definition samplePush :: "string \<Rightarrow> inFrame" where
  "samplePush k = \<lparr>frameType = ''push'', frChannel = ''c'', frSender = ''bob'', frCiphertext = ''w'', frMessageType = Some 1, frServerId = k\<rparr>"

theorem pushes_recorded_in_order_witness:
  "map recServerId (recMessages (fold (\<lambda>(fresh, iv, now, f). handleFrame tagAead None fresh iv now f)
     [([1], [1], 1, samplePush ''s1''), ([1], [1], 2, samplePush ''s2'')] \<lparr>recMessages = [], recKeys = noKeys, subscribed = True\<rparr>))
   = [''s1'', ''s2'']"
proof -
  let ?r = "\<lparr>recMessages = [], recKeys = noKeys, subscribed = True\<rparr>"
  let ?fs = "[([1], [1], 1, samplePush ''s1''), ([1], [1], 2, samplePush ''s2'')] :: (key \<times> bytes \<times> int \<times> inFrame) list"
  have "map recServerId ms = map fst (map (\<lambda>m. (recServerId m, recChannelId m, recSenderId m)) ms)" for ms by simp
  also have "map (\<lambda>m. (recServerId m, recChannelId m, recSenderId m)) (recMessages (fold (\<lambda>(fresh, iv, now, f). handleFrame tagAead None fresh iv now f) ?fs ?r))
      = [(''s1'', ''c'', ''bob''), (''s2'', ''c'', ''bob'')]"
    by (subst pushes_recorded_in_order) (simp_all add: samplePush_def)
  finally show ?thesis by simp
qed

end
