(* ===== verification/Sign_In.thy ===== *)
theory Sign_In
  imports E2ee_Session Secure_Keys
begin

text \<open>
  The signed-in user of \<open>packages/client-web/src/lib/auth-context.tsx\<close>. A request that is on its way is an
  element of a list of the state, and its answer an event. Members that are missing are empty strings,
  except those of a profile, where the code tells them apart.
\<close>

section \<open>Claims of a token\<close>

definition base64Chars :: "string \<Rightarrow> string" where
  "base64Chars s = map (\<lambda>c. if c = CHR ''-'' then CHR ''+'' else if c = CHR ''_'' then CHR ''/'' else c) s"

definition claimOf :: "json \<Rightarrow> string \<Rightarrow> string" where
  "claimOf j f = (case member j f of Some (JStr s) \<Rightarrow> s | _ \<Rightarrow> [])"

definition parseJwtClaims :: "string option \<Rightarrow> string \<times> string" where
  "parseJwtClaims token =
     (case token of
        None \<Rightarrow> ([], [])
      | Some t \<Rightarrow>
          if t = [] then ([], [])
          else (case splitOn (CHR ''.'') t of
                  [h, p, g] \<Rightarrow>
                    (case Option.bind (atob (base64Chars p)) parseJson of
                       Some j \<Rightarrow> (claimOf j ''sub'', claimOf j ''device_id'')
                     | None \<Rightarrow> ([], []))
                | _ \<Rightarrow> ([], [])))"

section \<open>The user and the tokens\<close>

record AuthUser =
  auUserId :: string
  auDeviceId :: string
  auName :: "string option"
  auAvatar :: "string option"
  auIdentityKey :: "string option"

record UserProfile =
  pfName :: string
  pfAvatar :: "string option"
  pfIdentityKey :: string

text \<open>
  \<open>user\<close>, \<open>accessToken\<close> and \<open>isLoading\<close> are the state of the provider, the next three what the session
  storage holds. A refresh on its way is only counted; a profile request keeps the user of the moment it was sent.
\<close>

record authState =
  user :: "AuthUser option"
  accessToken :: "string option"
  isLoading :: bool
  kvUser :: "AuthUser blob option"
  kvAccess :: "string option"
  kvRefresh :: "string option"
  keyStore :: secureKeys
  refreshing :: nat
  profileFor :: "AuthUser option list"

definition repairUser :: "string \<times> string \<Rightarrow> AuthUser \<Rightarrow> AuthUser" where
  "repairUser claims u =
     u\<lparr>auDeviceId := (if \<not> isUuid (auDeviceId u) \<and> snd claims \<noteq> [] then snd claims else auDeviceId u),
       auUserId := (if \<not> isUuid (auUserId u) \<and> fst claims \<noteq> [] then fst claims else auUserId u)\<rparr>"

definition recoverUser :: "string \<times> string \<Rightarrow> AuthUser option" where
  "recoverUser claims =
     (if fst claims \<noteq> [] \<and> snd claims \<noteq> []
      then Some \<lparr>auUserId = fst claims, auDeviceId = snd claims, auName = None, auAvatar = None, auIdentityKey = None\<rparr>
      else None)"

definition startUser :: "AuthUser blob option \<Rightarrow> string option \<Rightarrow> AuthUser option" where
  "startUser stored token =
     (let claims = parseJwtClaims token
      in case stored of
           Some (Blob u) \<Rightarrow> Some (repairUser claims u)
         | _ \<Rightarrow> recoverUser claims)"

text \<open>The effect that fetches the profile, after a change of the access token\<close>

definition profileEffect :: "string option \<Rightarrow> authState \<Rightarrow> authState" where
  "profileEffect before s =
     (if accessToken s \<noteq> before \<and> (case accessToken s of Some t \<Rightarrow> t \<noteq> [] | None \<Rightarrow> False)
      then s\<lparr>profileFor := profileFor s @ [user s]\<rparr> else s)"

definition mountProvider :: "AuthUser blob option \<Rightarrow> string option \<Rightarrow> string option \<Rightarrow> authState" where
  "mountProvider stored token refresh =
     (let u = startUser stored token
      in profileEffect None
           \<lparr>user = u, accessToken = token, isLoading = False,
            kvUser = (case u of Some x \<Rightarrow> Some (Blob x) | None \<Rightarrow> stored), kvAccess = token, kvRefresh = refresh,
            keyStore = \<lparr>masterKey = None, inMemoryFallback = []\<rparr>, refreshing = 0, profileFor = []\<rparr>)"

definition eitherStr :: "string \<Rightarrow> string \<Rightarrow> string" where
  "eitherStr a b = (if a \<noteq> [] then a else b)"

text \<open>An identifier that is no UUID gives way to the claim; \<open>fallback\<close> is for when both are missing.\<close>

definition effectiveId :: "string \<Rightarrow> string \<Rightarrow> string \<Rightarrow> string" where
  "effectiveId given claim fallback = eitherStr (if isUuid given then given else claim) (eitherStr given fallback)"

record loginArgs =
  liToken :: string
  liRefresh :: string
  liUserId :: string
  liDeviceId :: string
  liName :: "string option"
  liAvatar :: "string option"
  liIdentityKey :: "string option"

definition login :: "string \<Rightarrow> loginArgs \<Rightarrow> authState \<Rightarrow> authState" where
  "login random x s =
     (let claims = parseJwtClaims (Some (liToken x));
          u = \<lparr>auUserId = effectiveId (liUserId x) (fst claims) (''user_'' @ random),
               auDeviceId = effectiveId (liDeviceId x) (snd claims) ''device_web_primary'',
               auName = liName x, auAvatar = liAvatar x, auIdentityKey = liIdentityKey x\<rparr>
      in profileEffect (accessToken s)
           (s\<lparr>user := Some u, accessToken := Some (liToken x), kvUser := Some (Blob u), kvAccess := Some (liToken x),
              kvRefresh := (if liRefresh x \<noteq> [] then Some (liRefresh x) else kvRefresh s)\<rparr>))"

text \<open>\<open>{ ...prev, ...updates }\<close>: a member of the updates that is present replaces the old one, also when it is undefined.\<close>

record userUpdates =
  upName :: "string option option"
  upAvatar :: "string option option"
  upIdentityKey :: "string option option"

definition replaced :: "'a option \<Rightarrow> 'a \<Rightarrow> 'a" where
  "replaced v old = (case v of Some new \<Rightarrow> new | None \<Rightarrow> old)"

definition withUpdates :: "userUpdates \<Rightarrow> AuthUser \<Rightarrow> AuthUser" where
  "withUpdates p u =
     u\<lparr>auName := replaced (upName p) (auName u), auAvatar := replaced (upAvatar p) (auAvatar u),
       auIdentityKey := replaced (upIdentityKey p) (auIdentityKey u)\<rparr>"

definition updateUser :: "userUpdates \<Rightarrow> authState \<Rightarrow> authState" where
  "updateUser p s =
     (case user s of
        None \<Rightarrow> s
      | Some u \<Rightarrow> s\<lparr>user := Some (withUpdates p u), kvUser := Some (Blob (withUpdates p u))\<rparr>)"

definition logout :: "authState \<Rightarrow> authState" where
  "logout s = s\<lparr>user := None, accessToken := None, kvUser := None, kvAccess := None, kvRefresh := None,
                keyStore := wipeAllKeys (keyStore s)\<rparr>"

definition refreshAccessToken :: "authState \<Rightarrow> authState" where
  "refreshAccessToken s =
     (case kvRefresh s of
        Some t \<Rightarrow> if t = [] then logout s else s\<lparr>isLoading := True, refreshing := Suc (refreshing s)\<rparr>
      | None \<Rightarrow> logout s)"

text \<open>The answer to a refresh: the two new tokens, or a failure\<close>

definition refreshed :: "(string \<times> string) option \<Rightarrow> authState \<Rightarrow> authState" where
  "refreshed r s =
     (if refreshing s = 0 then s
      else let s1 = s\<lparr>refreshing := refreshing s - 1, isLoading := False\<rparr>
           in case r of
                None \<Rightarrow> logout s1
              | Some (access, refresh) \<Rightarrow>
                  profileEffect (accessToken s1)
                    (s1\<lparr>accessToken := Some access, kvAccess := Some access, kvRefresh := Some refresh\<rparr>))"

definition profileUpdates :: "AuthUser option \<Rightarrow> UserProfile \<Rightarrow> userUpdates" where
  "profileUpdates asked p =
     \<lparr>upName = Some (if pfName p \<noteq> [] then Some (pfName p) else Option.bind asked auName),
      upAvatar = Some (case pfAvatar p of Some a \<Rightarrow> Some a | None \<Rightarrow> Option.bind asked auAvatar),
      upIdentityKey = Some (if pfIdentityKey p \<noteq> [] then Some (pfIdentityKey p) else Option.bind asked auIdentityKey)\<rparr>"

text \<open>The answer to the \<open>i\<close>-th profile request that is on its way; a failure, or no profile, changes nothing.\<close>

definition profileAnswer :: "nat \<Rightarrow> UserProfile option \<Rightarrow> authState \<Rightarrow> authState" where
  "profileAnswer i r s =
     (if i < length (profileFor s)
      then let s1 = s\<lparr>profileFor := take i (profileFor s) @ drop (Suc i) (profileFor s)\<rparr>
           in case r of None \<Rightarrow> s1 | Some p \<Rightarrow> updateUser (profileUpdates (profileFor s ! i) p) s1
      else s)"

definition isAuthenticated :: "authState \<Rightarrow> bool" where
  "isAuthenticated s \<longleftrightarrow> user s \<noteq> None \<and> (case accessToken s of Some t \<Rightarrow> t \<noteq> [] | None \<Rightarrow> False)"

datatype authEvent =
    ELogin string loginArgs
  | ELogout
  | ERefresh
  | ERefreshed "(string \<times> string) option"
  | EProfile nat "UserProfile option"
  | EUpdate userUpdates

fun authStep :: "authEvent \<Rightarrow> authState \<Rightarrow> authState" where
  "authStep (ELogin random x) s = login random x s"
| "authStep ELogout s = logout s"
| "authStep ERefresh s = refreshAccessToken s"
| "authStep (ERefreshed r) s = refreshed r s"
| "authStep (EProfile i r) s = profileAnswer i r s"
| "authStep (EUpdate p) s = updateUser p s"

section \<open>The state and the session storage\<close>

definition storageOk :: "authState \<Rightarrow> bool" where
  "storageOk s \<longleftrightarrow> accessToken s = kvAccess s
     \<and> (case user s of Some u \<Rightarrow> kvUser s = Some (Blob u) | None \<Rightarrow> Option.bind (kvUser s) parseBlob = None)"

lemma profileEffect_frame [simp]:
  "user (profileEffect b s) = user s" "accessToken (profileEffect b s) = accessToken s" "kvUser (profileEffect b s) = kvUser s"
  "kvAccess (profileEffect b s) = kvAccess s" "kvRefresh (profileEffect b s) = kvRefresh s" "keyStore (profileEffect b s) = keyStore s"
  "refreshing (profileEffect b s) = refreshing s" "isLoading (profileEffect b s) = isLoading s"
  by (simp_all add: profileEffect_def)

lemma storageOk_logout: "storageOk (logout s)"
  by (simp add: storageOk_def logout_def)

lemma storageOk_update: "storageOk s \<Longrightarrow> storageOk (updateUser p s)"
  by (auto simp: storageOk_def updateUser_def split: option.splits)

lemma refreshed_cases:
  "refreshing s = 0 \<Longrightarrow> refreshed r s = s"
  "refreshing s \<noteq> 0 \<Longrightarrow> refreshed None s = logout (s\<lparr>refreshing := refreshing s - 1, isLoading := False\<rparr>)"
  "refreshing s \<noteq> 0 \<Longrightarrow> refreshed (Some (access, refresh)) s = profileEffect (accessToken s)
     (s\<lparr>refreshing := refreshing s - 1, isLoading := False, accessToken := Some access, kvAccess := Some access, kvRefresh := Some refresh\<rparr>)"
  by (simp_all add: refreshed_def Let_def)

lemma storageOk_step: "storageOk s \<Longrightarrow> storageOk (authStep e s)"
proof (cases e)
  case (ELogin r x)
  then show ?thesis by (simp add: storageOk_def login_def Let_def)
next
  case (ERefreshed r)
  assume ok: "storageOk s"
  show ?thesis
  proof (cases "refreshing s = 0")
    case False
    then show ?thesis using ok
      by (cases r) (auto simp: ERefreshed refreshed_cases storageOk_logout, auto simp: storageOk_def split: option.splits)
  qed (simp add: ERefreshed refreshed_cases ok)
next
  case (EProfile i r)
  assume "storageOk s"
  then have "storageOk (s\<lparr>profileFor := q\<rparr>)" for q by (cases "user s") (simp_all add: storageOk_def)
  then show ?thesis using \<open>storageOk s\<close>
    by (cases r) (simp_all add: EProfile profileAnswer_def Let_def storageOk_update)
next
  case ERefresh
  assume "storageOk s"
  then have "storageOk (s\<lparr>isLoading := True, refreshing := n\<rparr>)" for n by (cases "user s") (simp_all add: storageOk_def)
  then show ?thesis by (auto simp: ERefresh refreshAccessToken_def storageOk_logout split: option.splits)
qed (simp_all add: storageOk_logout storageOk_update)

lemma storageOk_mount: "storageOk (mountProvider stored token refresh)"
proof -
  have "startUser stored token = None \<Longrightarrow> Option.bind stored parseBlob = None"
    by (cases stored) (auto simp: startUser_def Let_def split: blob.splits)
  then show ?thesis by (auto simp: storageOk_def mountProvider_def Let_def split: option.splits)
qed

lemma storageOk_run: "storageOk s \<Longrightarrow> storageOk (fold authStep es s)"
  by (induction es arbitrary: s) (simp_all add: storageOk_step)

text \<open>
  The page can be reloaded at any moment: after any run of sign-ins, refreshes, profile answers, changes and
  sign-outs, a provider that is mounted on the session storage has the same access token, and the same user
  when his identifiers are UUIDs.
\<close>

theorem reload_keeps_sign_in:
  assumes "s = fold authStep es (mountProvider stored token refresh)"
    and "s' = mountProvider (kvUser s) (kvAccess s) (kvRefresh s)"
  shows "accessToken s' = accessToken s
    \<and> (\<forall>u. user s = Some u \<and> isUuid (auUserId u) \<and> isUuid (auDeviceId u) \<longrightarrow> user s' = Some u)"
proof -
  have ok: "storageOk s" unfolding assms(1) by (intro storageOk_run storageOk_mount)
  then show ?thesis
    by (auto simp: assms(2) mountProvider_def Let_def storageOk_def startUser_def repairUser_def)
qed

section \<open>Signing out\<close>

definition signedOut :: "authState \<Rightarrow> bool" where
  "signedOut s \<longleftrightarrow> user s = None \<and> accessToken s = None \<and> kvUser s = None \<and> kvAccess s = None \<and> kvRefresh s = None
     \<and> keyStore s = \<lparr>masterKey = None, inMemoryFallback = []\<rparr>"

lemma signedOut_logout: "signedOut (logout s)"
  by (simp add: signedOut_def logout_def wipeAllKeys_def)

lemma signedOut_step:
  assumes "signedOut s" "refreshing s = 0" "\<And>r x. e \<noteq> ELogin r x"
  shows "signedOut (authStep e s) \<and> refreshing (authStep e s) = 0"
  using assms
  by (cases e)
    (auto simp: signedOut_logout refreshAccessToken_def refreshed_cases profileAnswer_def updateUser_def Let_def
      split: option.splits, auto simp: signedOut_def logout_def)

text \<open>
  C9. A sign-out is complete and lasts, when no refresh is on its way: the user, both tokens and the secret keys are
  gone from the state and from the session storage, and no answer that comes later, and no operation but a
  sign-in, brings anything back.
\<close>

theorem sign_out_lasts:
  assumes "refreshing s = 0" "list_all (\<lambda>e. case e of ELogin r x \<Rightarrow> False | _ \<Rightarrow> True) es"
  shows "signedOut (fold authStep (ELogout # es) s) \<and> \<not> isAuthenticated (fold authStep (ELogout # es) s)"
proof -
  have "signedOut (fold authStep es s') \<and> refreshing (fold authStep es s') = 0" if "signedOut s'" "refreshing s' = 0" for s'
    using assms(2) that
  proof (induction es arbitrary: s')
    case (Cons e es)
    have "signedOut (authStep e s') \<and> refreshing (authStep e s') = 0"
      by (rule signedOut_step [OF Cons.prems(2,3)]) (use Cons.prems(1) in auto)
    with Cons show ?case by simp
  qed simp
  moreover have "refreshing (logout s) = 0" using assms(1) by (simp add: logout_def)
  ultimately show ?thesis using signedOut_logout by (auto simp: signedOut_def isAuthenticated_def)
qed

text \<open>
  C30. A refresh that is on its way undoes a sign-out: its answer puts a new access token and a new refresh token
  into the state and the session storage, and a page that is loaded then is signed in as the user of the token.
\<close>

theorem refresh_undoes_sign_out:
  assumes "refreshing s > 0" "access \<noteq> []" "fst (parseJwtClaims (Some access)) \<noteq> []" "snd (parseJwtClaims (Some access)) \<noteq> []"
    and "s' = fold authStep [ELogout, ERefreshed (Some (access, refresh))] s"
  shows "accessToken s' = Some access \<and> kvAccess s' = Some access \<and> kvRefresh s' = Some refresh \<and> user s' = None
    \<and> isAuthenticated (mountProvider (kvUser s') (kvAccess s') (kvRefresh s'))
    \<and> map_option auUserId (user (mountProvider (kvUser s') (kvAccess s') (kvRefresh s'))) = Some (fst (parseJwtClaims (Some access)))"
proof -
  have "refreshing (logout s) \<noteq> 0" using assms(1) by (simp add: logout_def)
  from refreshed_cases(3) [OF this] have r: "refreshed (Some (access, refresh)) (logout s) = profileEffect None
     ((logout s)\<lparr>refreshing := refreshing s - 1, isLoading := False, accessToken := Some access, kvAccess := Some access, kvRefresh := Some refresh\<rparr>)"
    and l: "user (logout s) = None" "kvUser (logout s) = None" by (simp_all add: logout_def)
  have f: "accessToken s' = Some access" "kvAccess s' = Some access" "kvRefresh s' = Some refresh" "user s' = None" "kvUser s' = None"
    unfolding assms(5) by (simp_all add: r l)
  then show ?thesis
    using assms(2-4) by (simp add: mountProvider_def Let_def startUser_def recoverUser_def isAuthenticated_def)
qed

text \<open>
  A profile that arrives after another user has signed in is written into his account: his identifiers stay,
  but the name, the picture and the identity key of the user before are his from then on, also in the session storage.
\<close>

theorem profile_of_previous_user:
  assumes "profileFor s = []" "accessToken s \<noteq> Some (liToken x)" "liToken x \<noteq> []" "liToken y \<noteq> []"
    and "pfName p \<noteq> []" "pfIdentityKey p \<noteq> []"
    and "s1 = fold authStep [ELogin r x, ELogout, ELogin r' y] s" "s' = authStep (EProfile 0 (Some p)) s1"
  shows "\<exists>u u'. user s1 = Some u \<and> user s' = Some u' \<and> auUserId u' = auUserId u \<and> auDeviceId u' = auDeviceId u
    \<and> auName u' = Some (pfName p) \<and> auIdentityKey u' = Some (pfIdentityKey p) \<and> kvUser s' = Some (Blob u')"
proof -
  define z where "z = logout (login r x s)"
  obtain u where u: "user (login r' y z) = Some u" by (simp add: login_def Let_def)
  have "length (profileFor (login r' y z)) > 0"
    using assms(1-4) by (simp add: z_def login_def logout_def Let_def profileEffect_def)
  moreover have s1: "s1 = login r' y z" by (simp add: assms(7) z_def)
  ultimately show ?thesis
    using u assms(5,6)
    by (simp add: assms(8) profileAnswer_def Let_def updateUser_def withUpdates_def profileUpdates_def replaced_def)
qed

section \<open>The statements at concrete inputs\<close>

definition sampleUuid :: string where
  "sampleUuid = ''01234567-89ab-cdef-0123-456789abcdef''"

definition sampleToken :: string where
  "sampleToken = ''h.'' @ btoa (printJson (JObj [(''sub'', JStr ''u''), (''device_id'', JStr ''d'')])) @ ''.s''"

definition sampleLogin :: "string \<Rightarrow> loginArgs" where
  "sampleLogin t = \<lparr>liToken = t, liRefresh = ''r'', liUserId = sampleUuid, liDeviceId = sampleUuid, liName = None, liAvatar = None,
     liIdentityKey = None\<rparr>"

definition sampleStart :: authState where
  "sampleStart = mountProvider None None None"

lemma sample_uuid: "isUuid sampleUuid" "sampleUuid \<noteq> []"
  by (simp add: sampleUuid_def, code_simp) (simp add: sampleUuid_def)

lemma base64Chars_btoa: "base64Chars (btoa s) = btoa s"
  unfolding base64Chars_def
proof (rule map_idI)
  fix c assume "c \<in> set (btoa s)"
  then have "b64Val c \<noteq> None \<or> c = CHR ''=''" by (rule set_btoa)
  then have "c \<noteq> CHR ''-''" "c \<noteq> CHR ''_''" by (auto simp: b64Val_def)
  then show "(if c = CHR ''-'' then CHR ''+'' else if c = CHR ''_'' then CHR ''/'' else c) = c" by simp
qed

lemma splitOn_token: "splitOn (CHR ''.'') (''h.'' @ btoa t @ ''.s'') = [''h'', btoa t, ''s'']"
proof -
  have "CHR ''.'' \<notin> set (btoa t)" using set_btoa [of "CHR ''.''" t] by (auto simp: b64Val_def)
  then show ?thesis using splitOn_append_sep [of "CHR ''.''" "btoa t" "''s''"] by simp
qed

lemma sample_claims: "parseJwtClaims (Some sampleToken) = (''u'', ''d'')" "sampleToken \<noteq> []"
proof -
  have "wfJson (JObj [(''sub'', JStr ''u''), (''device_id'', JStr ''d'')])" by simp
  from parse_print [OF this] show "parseJwtClaims (Some sampleToken) = (''u'', ''d'')"
    unfolding sampleToken_def parseJwtClaims_def option.case splitOn_token
    by (simp add: base64Chars_btoa claimOf_def member_def del: printJson.simps)
qed (simp add: sampleToken_def)

lemma sample_start: "user sampleStart = None" "accessToken sampleStart = None" "profileFor sampleStart = []" "refreshing sampleStart = 0"
  by (simp_all add: sampleStart_def mountProvider_def startUser_def parseJwtClaims_def recoverUser_def profileEffect_def)

lemma sample_login:
  "user (login r (sampleLogin t) s) = Some \<lparr>auUserId = sampleUuid, auDeviceId = sampleUuid, auName = None, auAvatar = None, auIdentityKey = None\<rparr>"
  "kvRefresh (login r (sampleLogin t) s) = Some ''r''"
  by (simp_all add: login_def Let_def sampleLogin_def effectiveId_def eitherStr_def sample_uuid)

theorem reload_keeps_sign_in_witness:
  "\<exists>s. s = fold authStep [ELogin ''x'' (sampleLogin ''t'')] (mountProvider None None None)
    \<and> map_option auUserId (user (mountProvider (kvUser s) (kvAccess s) (kvRefresh s))) = Some sampleUuid"
proof -
  define s where "s = fold authStep [ELogin ''x'' (sampleLogin ''t'')] (mountProvider None None None)"
  have "user s = Some \<lparr>auUserId = sampleUuid, auDeviceId = sampleUuid, auName = None, auAvatar = None, auIdentityKey = None\<rparr>"
    by (simp add: s_def sample_login)
  with reload_keeps_sign_in [OF s_def refl] have "map_option auUserId (user (mountProvider (kvUser s) (kvAccess s) (kvRefresh s))) = Some sampleUuid"
    by (simp add: sample_uuid)
  with s_def show ?thesis by blast
qed

theorem sign_out_lasts_witness:
  "signedOut (fold authStep [ELogout, ERefresh, EProfile 0 None] (login ''x'' (sampleLogin ''t'') sampleStart))"
  using sign_out_lasts [of "login ''x'' (sampleLogin ''t'') sampleStart" "[ERefresh, EProfile 0 None]"]
  by (simp add: login_def Let_def sample_start)

theorem refresh_undoes_sign_out_witness:
  "\<exists>s'. s' = fold authStep [ELogout, ERefreshed (Some (sampleToken, ''r2''))] (refreshAccessToken (login ''x'' (sampleLogin ''t'') sampleStart))
    \<and> isAuthenticated (mountProvider (kvUser s') (kvAccess s') (kvRefresh s'))"
proof -
  have "refreshing (refreshAccessToken (login ''x'' (sampleLogin ''t'') sampleStart)) > 0"
    by (simp add: refreshAccessToken_def sample_login)
  moreover have "fst (parseJwtClaims (Some sampleToken)) \<noteq> []" "snd (parseJwtClaims (Some sampleToken)) \<noteq> []"
    by (simp_all add: sample_claims)
  ultimately show ?thesis
    using refresh_undoes_sign_out [OF _ sample_claims(2) _ _ refl, where refresh = "''r2''"] by blast
qed

theorem profile_of_previous_user_witness:
  "\<exists>u'. user (authStep (EProfile 0 (Some \<lparr>pfName = ''Ann'', pfAvatar = None, pfIdentityKey = ''k''\<rparr>))
      (fold authStep [ELogin ''x'' (sampleLogin ''t''), ELogout, ELogin ''y'' (sampleLogin ''w'')] sampleStart)) = Some u'
    \<and> auName u' = Some ''Ann''"
  using profile_of_previous_user [OF sample_start(3) _ _ _ _ _ refl refl, of "sampleLogin ''t''" "sampleLogin ''w''"
      "\<lparr>pfName = ''Ann'', pfAvatar = None, pfIdentityKey = ''k''\<rparr>" "''x''" "''y''"]
  by (auto simp: sample_start sampleLogin_def)

end
