(* ===== verification/Account.thy ===== *)
theory Account
  imports Codec Kv_Store
begin

text \<open>
  Small services about the account, all in \<open>packages/client-web/src/lib/\<close>: the list of sessions
  (\<open>session-client.ts\<close>), the feature flags (\<open>feature-flags.ts\<close>) and the stock of one-time keys
  (\<open>prekey-manager.ts\<close>).
\<close>

section \<open>Sessions\<close>

record DeviceSession =
  asId :: string
  asDeviceId :: string
  asCurrent :: bool

datatype sessionError = TokenRequired | SessionIdRequired | SessionRequestFailed nat | SessionUnreachable

text \<open>An answer without a list counts as an empty one.\<close>

definition listActiveSessions :: "DeviceSession list option http \<Rightarrow> string \<Rightarrow> string \<Rightarrow> sessionError + DeviceSession list" where
  "listActiveSessions answer authToken currentDeviceId =
     (if authToken = [] then Inl TokenRequired
      else case answer of
             NetFail \<Rightarrow> Inl SessionUnreachable
           | HttpError st \<Rightarrow> Inl (SessionRequestFailed st)
           | HttpOk raw \<Rightarrow>
               Inr (map (\<lambda>s. if currentDeviceId \<noteq> [] then s\<lparr>asCurrent := (asDeviceId s = currentDeviceId)\<rparr> else s)
                     (case raw of Some l \<Rightarrow> l | None \<Rightarrow> [])))"

text \<open>A refused deletion is tried once more as a post; a request that fails to reach the server is not.\<close>

definition revokeSession :: "unit http \<Rightarrow> unit http \<Rightarrow> string \<Rightarrow> string \<Rightarrow> sessionError option" where
  "revokeSession deleted posted authToken sessionId =
     (if authToken = [] then Some TokenRequired
      else if sessionId = [] then Some SessionIdRequired
      else case deleted of
             NetFail \<Rightarrow> Some SessionUnreachable
           | HttpOk _ \<Rightarrow> None
           | HttpError st \<Rightarrow>
               (case posted of
                  NetFail \<Rightarrow> Some SessionUnreachable
                | HttpOk _ \<Rightarrow> None
                | HttpError st' \<Rightarrow> Some (SessionRequestFailed st')))"

section \<open>Feature flags\<close>

text \<open>
  A component that uses a flag has read it when it was rendered and follows it once it has subscribed.
\<close>

record flagHook =
  hookFlag :: string
  hookEnabled :: bool
  hookSubscribed :: bool

record flagState =
  cachedFlags :: "bool jsmap"
  storedFlags :: "bool jsmap blob option"
  flagsWritable :: bool
  hooks :: "flagHook list"

definition defaultFlags :: "bool jsmap" where
  "defaultFlags = [(''device_linking'', True), (''group_calling'', True), (''ai_summary'', True), (''protobuf_wire'', True)]"

definition moduleLoaded :: "bool jsmap blob option \<Rightarrow> bool \<Rightarrow> flagState" where
  "moduleLoaded stored canWrite = \<lparr>cachedFlags = defaultFlags, storedFlags = stored, flagsWritable = canWrite, hooks = []\<rparr>"

definition mergeFlags :: "bool jsmap \<Rightarrow> bool jsmap \<Rightarrow> bool jsmap" where
  "mergeFlags features flags = fold (\<lambda>(k, v). jsSet k v) features flags"

definition handleUpdate :: "bool jsmap \<Rightarrow> flagHook \<Rightarrow> flagHook" where
  "handleUpdate flags h =
     (if hookSubscribed h
      then (case jsGet flags (hookFlag h) of Some v \<Rightarrow> h\<lparr>hookEnabled := v\<rparr> | None \<Rightarrow> h) else h)"

text \<open>The answer carries the features, or nothing that is used.\<close>

definition fetchFeatureFlags :: "bool jsmap option http \<Rightarrow> flagState \<Rightarrow> bool jsmap \<times> flagState" where
  "fetchFeatureFlags answer s =
     (case answer of
        HttpOk (Some features) \<Rightarrow>
          let flags = mergeFlags features (cachedFlags s)
          in (flags, s\<lparr>cachedFlags := flags, hooks := map (handleUpdate flags) (hooks s),
                       storedFlags := (if flagsWritable s then Some (Blob flags) else storedFlags s)\<rparr>)
      | _ \<Rightarrow> (cachedFlags s, s))"

definition isFeatureEnabled :: "string \<Rightarrow> flagState \<Rightarrow> bool \<times> flagState" where
  "isFeatureEnabled flag s =
     (let s1 = (if cachedFlags s = [] then (case storedFlags s of Some (Blob f) \<Rightarrow> s\<lparr>cachedFlags := f\<rparr> | _ \<Rightarrow> s) else s)
      in (case jsGet (cachedFlags s1) flag of Some v \<Rightarrow> v | None \<Rightarrow> False, s1))"

text \<open>\<open>useFeatureFlag\<close>: the first render, the effect that subscribes, and the unmounting\<close>

definition renderHook :: "string \<Rightarrow> flagState \<Rightarrow> flagState" where
  "renderHook flag s =
     (case isFeatureEnabled flag s of (v, s1) \<Rightarrow>
        s1\<lparr>hooks := hooks s1 @ [\<lparr>hookFlag = flag, hookEnabled = v, hookSubscribed = False\<rparr>]\<rparr>)"

definition subscribeHook :: "nat \<Rightarrow> flagState \<Rightarrow> flagState" where
  "subscribeHook i s = (if i < length (hooks s) then s\<lparr>hooks := (hooks s)[i := (hooks s ! i)\<lparr>hookSubscribed := True\<rparr>]\<rparr> else s)"

definition unmountHook :: "nat \<Rightarrow> flagState \<Rightarrow> flagState" where
  "unmountHook i s = s\<lparr>hooks := take i (hooks s) @ drop (Suc i) (hooks s)\<rparr>"

section \<open>One-time keys\<close>

record otkEntry =
  pkId :: int
  pkPublic :: string

datatype keyCheck = Counting string string | Uploading int "otkEntry list"

text \<open>\<open>isChecking\<close>, the checks that are on their way, what they uploaded, and what the calls returned\<close>

record preKeyState =
  isChecking :: bool
  checks :: "keyCheck list"
  uploadedKeys :: "otkEntry list"
  returned :: "int list"

definition freshKeyBatch :: "int \<Rightarrow> (nat \<Rightarrow> bytes) \<Rightarrow> otkEntry list" where
  "freshKeyBatch now random =
     map (\<lambda>i. \<lparr>pkId = now mod 1000000 + int i, pkPublic = btoa (bytesToStr (random i))\<rparr>) [0..<50]"

definition endCheck :: "int \<Rightarrow> nat \<Rightarrow> preKeyState \<Rightarrow> preKeyState" where
  "endCheck r i s = s\<lparr>checks := take i (checks s) @ drop (Suc i) (checks s), returned := returned s @ [r], isChecking := False\<rparr>"

definition checkAndReplenish :: "string \<Rightarrow> string \<Rightarrow> preKeyState \<Rightarrow> preKeyState" where
  "checkAndReplenish accessToken deviceId s =
     (if isChecking s \<or> accessToken = [] \<or> deviceId = [] then s\<lparr>returned := returned s @ [-1]\<rparr>
      else s\<lparr>isChecking := True, checks := checks s @ [Counting accessToken deviceId]\<rparr>)"

definition countAnswered :: "int \<Rightarrow> (nat \<Rightarrow> bytes) \<Rightarrow> nat \<Rightarrow> int option http \<Rightarrow> preKeyState \<Rightarrow> preKeyState" where
  "countAnswered now random i answer s =
     (if i < length (checks s) \<and> (case checks s ! i of Counting t d \<Rightarrow> True | _ \<Rightarrow> False)
      then (case answer of
              NetFail \<Rightarrow> endCheck (-1) i s
            | HttpError st \<Rightarrow> endCheck (-1) i s
            | HttpOk c \<Rightarrow>
                let n = (case c of Some n \<Rightarrow> n | None \<Rightarrow> 0)
                in if n < 20 then s\<lparr>checks := (checks s)[i := Uploading n (freshKeyBatch now random)]\<rparr>
                   else endCheck n i s)
      else s)"

definition uploadAnswered :: "nat \<Rightarrow> unit http \<Rightarrow> preKeyState \<Rightarrow> preKeyState" where
  "uploadAnswered i answer s =
     (if i < length (checks s)
      then (case checks s ! i of
              Counting t d \<Rightarrow> s
            | Uploading n ks \<Rightarrow>
                (case answer of
                   NetFail \<Rightarrow> endCheck (-1) i s
                 | HttpError st \<Rightarrow> endCheck n i s
                 | HttpOk _ \<Rightarrow> endCheck (n + 50) i (s\<lparr>uploadedKeys := uploadedKeys s @ ks\<rparr>)))
      else s)"

datatype keyEvent = KCheck string string | KCount int "nat \<Rightarrow> bytes" nat "int option http" | KUpload nat "unit http"

fun keyStep :: "keyEvent \<Rightarrow> preKeyState \<Rightarrow> preKeyState" where
  "keyStep (KCheck t d) s = checkAndReplenish t d s"
| "keyStep (KCount now random i a) s = countAnswered now random i a s"
| "keyStep (KUpload i a) s = uploadAnswered i a s"

section \<open>What holds of them\<close>

text \<open>
  The stored flags are not used: whatever was stored, a page that is loaded has the default flags, all four of
  them on, until a request succeeds; so a feature that was switched off is on again while the server cannot be reached.
\<close>

theorem stored_flags_ignored:
  "fst (isFeatureEnabled flag (snd (fetchFeatureFlags NetFail (moduleLoaded stored canWrite))))
    = (flag \<in> {''device_linking'', ''group_calling'', ''ai_summary'', ''protobuf_wire''})"
  by (auto simp: isFeatureEnabled_def fetchFeatureFlags_def moduleLoaded_def defaultFlags_def jsGet_def Let_def)

lemma jsGet_mergeFlags_mono: "jsGet flags k \<noteq> None \<Longrightarrow> jsGet (mergeFlags features flags) k \<noteq> None"
  by (induction features arbitrary: flags) (auto simp: mergeFlags_def)

definition keysOk :: "preKeyState \<Rightarrow> bool" where
  "keysOk s \<longleftrightarrow> length (checks s) = (if isChecking s then 1 else 0)
     \<and> (\<forall>n ks. Uploading n ks \<in> set (checks s) \<longrightarrow> n < 20 \<and> length ks = 50 \<and> distinct (map pkId ks))
     \<and> length (uploadedKeys s) mod 50 = 0"

lemma freshKeyBatch_ok: "length (freshKeyBatch now random) = 50" "distinct (map pkId (freshKeyBatch now random))"
  by (simp_all add: freshKeyBatch_def distinct_map inj_on_def)

lemma keysOk_end:
  assumes "keysOk s" "i < length (checks s)" "length ks mod 50 = 0"
  shows "keysOk (endCheck r i (s\<lparr>uploadedKeys := uploadedKeys s @ ks\<rparr>))" "keysOk (endCheck r i s)"
proof -
  have "length (uploadedKeys s) mod 50 = 0" using assms(1) by (simp add: keysOk_def)
  then have "(length (uploadedKeys s) + length ks) mod 50 = 0" using assms(3) by presburger
  then show "keysOk (endCheck r i (s\<lparr>uploadedKeys := uploadedKeys s @ ks\<rparr>))"
    using assms(1,2) by (auto simp: keysOk_def endCheck_def split: if_splits)
  show "keysOk (endCheck r i s)" using assms(1,2) by (auto simp: keysOk_def endCheck_def split: if_splits)
qed

lemma keysOk_upload:
  assumes "keysOk s" "n < 20"
  shows "keysOk (s\<lparr>checks := (checks s)[i := Uploading n (freshKeyBatch now random)]\<rparr>)"
proof -
  have "m < 20 \<and> length ks = 50 \<and> distinct (map pkId ks)"
    if "Uploading m ks \<in> set ((checks s)[i := Uploading n (freshKeyBatch now random)])" for m ks
  proof -
    have "Uploading m ks = Uploading n (freshKeyBatch now random) \<or> Uploading m ks \<in> set (checks s)"
      using subsetD [OF set_update_subset_insert that] by blast
    then show ?thesis using assms freshKeyBatch_ok by (auto simp: keysOk_def)
  qed
  then show ?thesis using assms(1) by (simp add: keysOk_def)
qed

lemma keysOk_step:
  assumes k: "keysOk s"
  shows "keysOk (keyStep e s)"
proof (cases e)
  case (KCheck t d)
  show ?thesis using k by (auto simp: KCheck checkAndReplenish_def keysOk_def)
next
  case (KCount now random i a)
  show ?thesis
  proof (cases "i < length (checks s) \<and> (case checks s ! i of Counting t d \<Rightarrow> True | _ \<Rightarrow> False)")
    case True
    then have e: "keysOk (endCheck r i s)" for r using keysOk_end(2) [OF k, of i "[]"] by simp
    show ?thesis
    proof (cases a)
      case (HttpOk c)
      show ?thesis
        using e keysOk_upload [OF k] by (simp add: KCount countAnswered_def HttpOk Let_def k split: option.split)
    qed (simp_all add: KCount countAnswered_def e k)
  next
    case False
    then show ?thesis by (simp only: KCount keyStep.simps countAnswered_def if_False k)
  qed
next
  case (KUpload i a)
  show ?thesis
  proof (cases "i < length (checks s)")
    case True
    show ?thesis
    proof (cases "checks s ! i")
      case (Uploading n ks)
      with True have "Uploading n ks \<in> set (checks s)" by (metis nth_mem)
      with k have "length ks mod 50 = 0" by (auto simp: keysOk_def)
      note e = keysOk_end [OF k True this]
      have "uploadAnswered i a s = (case a of NetFail \<Rightarrow> endCheck (-1) i s | HttpError st \<Rightarrow> endCheck n i s
          | HttpOk _ \<Rightarrow> endCheck (n + 50) i (s\<lparr>uploadedKeys := uploadedKeys s @ ks\<rparr>))"
        using True by (simp only: uploadAnswered_def Uploading if_True keyCheck.case)
      then show ?thesis by (cases a) (simp_all only: KUpload keyStep.simps http.case e)
    qed (simp add: KUpload uploadAnswered_def k)
  qed (simp add: KUpload uploadAnswered_def k)
qed

text \<open>
  Only one check of the stock is on its way at any time, however often and whenever checks are asked for and
  answers come: a batch is uploaded at most once per check, always of fifty keys, only when fewer than twenty
  are left; and nothing is on its way when no check runs.
\<close>

theorem one_check_at_a_time:
  "keysOk (fold keyStep es \<lparr>isChecking = False, checks = [], uploadedKeys = [], returned = []\<rparr>)"
proof -
  have run: "keysOk s \<Longrightarrow> keysOk (fold keyStep es s)" for s by (induction es arbitrary: s) (simp_all add: keysOk_step)
  show ?thesis by (rule run) (simp add: keysOk_def)
qed

text \<open>
  A session is revoked exactly when one of the two requests succeeds; the caller's own session is the one of its device.
\<close>

lemma revokeSession_None:
  "authToken \<noteq> [] \<Longrightarrow> sessionId \<noteq> [] \<Longrightarrow>
   revokeSession deleted posted authToken sessionId = None
     \<longleftrightarrow> deleted = HttpOk () \<or> (\<exists>st. deleted = HttpError st \<and> posted = HttpOk ())"
  by (auto simp: revokeSession_def split: http.splits)

lemma current_is_own_device:
  "listActiveSessions answer authToken device = Inr l \<Longrightarrow> device \<noteq> [] \<Longrightarrow> x \<in> set l \<Longrightarrow> asCurrent x \<longleftrightarrow> asDeviceId x = device"
proof -
  assume a: "listActiveSessions answer authToken device = Inr l" "device \<noteq> []" "x \<in> set l"
  then obtain y where "x = y\<lparr>asCurrent := (asDeviceId y = device)\<rparr>"
    by (cases answer) (auto simp: listActiveSessions_def split: if_splits)
  then show "asCurrent x \<longleftrightarrow> asDeviceId x = device" by simp
qed

end
