(* ===== verification/Local_Intelligence.thy ===== *)
theory Local_Intelligence
  imports Js_Prelude Complex_Main
begin

text \<open>
  The heuristics over message texts of \<open>packages/client-web/src/lib/local-intelligence.ts\<close>: action items,
  suggested replies and summaries; and the transcript of \<open>export-chat.ts\<close> beside it. The two regular expressions that
  collect (sentences and addresses) are written as scanners: each position is tried in turn and the scan goes on
  after a match, which for these expressions is the longest one.
\<close>

section \<open>Sentences\<close>

datatype ActionType = Todo | Meeting | Deadline | Link | Question

record ActionItem =
  actionType :: ActionType
  itemText :: string
  itemContext :: string
  confidence :: rat

record ConversationSummary =
  keyTopics :: "string list"
  summaryBullets :: "string list"
  actionItems :: "ActionItem list"

definition endMark :: "char \<Rightarrow> bool" where
  "endMark c \<longleftrightarrow> c \<in> set ''.!?;''"

text \<open>\<open>match(/[^.!?;\n]+(?:[.!?;]+|$)/g)\<close> on a line: every run of other characters with the marks after it\<close>

function sentenceMatches :: "string \<Rightarrow> string list" where
  "sentenceMatches s =
     (let t = dropWhile endMark s
      in if t = [] then []
         else let r = dropWhile (\<lambda>c. \<not> endMark c) t
              in (takeWhile (\<lambda>c. \<not> endMark c) t @ takeWhile endMark r) # sentenceMatches (dropWhile endMark r))"
  by pat_completeness auto
termination
proof (relation "measure length")
  fix s t r
  assume t: "t = dropWhile endMark (s :: string)" "t \<noteq> []" and r: "r = dropWhile (\<lambda>c. \<not> endMark c) t"
  obtain c cs where c: "t = c # cs" using t(2) by (cases t) auto
  have "\<not> endMark c" using t(1) c by (metis dropWhile_eq_Cons_conv)
  then have "length r < length t" using c r length_dropWhile_le [of "\<lambda>c. \<not> endMark c" cs] by simp
  moreover have "length t \<le> length s" unfolding t(1) by (rule length_dropWhile_le)
  moreover have "length (dropWhile endMark r) \<le> length r" by (rule length_dropWhile_le)
  ultimately show "(dropWhile endMark r, s) \<in> measure length" by simp
qed simp

declare sentenceMatches.simps [simp del]

definition lineSentences :: "string \<Rightarrow> string list" where
  "lineSentences line =
     (let l = trim line
      in if l = [] then []
         else if strIncludes l ''http://'' \<or> strIncludes l ''https://'' then [l]
         else if sentenceMatches l = [] then [l]
         else filter (\<lambda>s. s \<noteq> []) (map trim (sentenceMatches l)))"

definition sentencesOf :: "string \<Rightarrow> string list" where
  "sentencesOf text = concat (map lineSentences (splitOn (CHR 0x0A) text))"

section \<open>Addresses and times\<close>

definition urlChar :: "char \<Rightarrow> bool" where
  "urlChar c \<longleftrightarrow> \<not> isSpace c \<and> c \<notin> {CHR ''<'', CHR ''>'', CHR 0x27, CHR 0x22}"

text \<open>\<open>match(/https?:\/\/[^\s<>'"]+/g)\<close>\<close>

definition schemeOf :: "string \<Rightarrow> string option" where
  "schemeOf s = (if startsWith s ''http://'' then Some ''http://'' else if startsWith s ''https://'' then Some ''https://'' else None)"

function urlMatches :: "string \<Rightarrow> string list" where
  "urlMatches [] = []"
| "urlMatches (c # s) =
     (case schemeOf (c # s) of
        Some p \<Rightarrow>
          let r = drop (length p) (c # s)
          in if takeWhile urlChar r = [] then urlMatches s
             else (p @ takeWhile urlChar r) # urlMatches (dropWhile urlChar r)
      | None \<Rightarrow> urlMatches s)"
  by pat_completeness auto
termination
proof (relation "measure length")
  fix c :: char and s p r :: string
  assume "schemeOf (c # s) = Some p" and r: "r = drop (length p) (c # s)"
  then have "length p > 0" by (auto simp: schemeOf_def split: if_splits)
  then have "length r \<le> length s" unfolding r by (cases p) simp_all
  then show "(dropWhile urlChar r, c # s) \<in> measure length" using length_dropWhile_le [of urlChar r] by simp
qed simp_all

definition wordChar :: "char \<Rightarrow> bool" where
  "wordChar c \<longleftrightarrow> (let n = (of_char c :: nat) in (48 \<le> n \<and> n \<le> 57) \<or> (65 \<le> n \<and> n \<le> 90) \<or> (97 \<le> n \<and> n \<le> 122) \<or> n = 95)"

definition wordEnds :: "string \<Rightarrow> bool" where
  "wordEnds s \<longleftrightarrow> s = [] \<or> \<not> wordChar (hd s)"

text \<open>
  \<open>\bby\s+(?:\d{1,2}(?::\d{2})?\s*(?:am|pm)|noon|midnight)\b\<close>, on the text in lower case: the time after
  the spaces, and the scan for the word before it
\<close>

definition clockTime :: "string \<Rightarrow> bool" where
  "clockTime s \<longleftrightarrow>
     (let ds = takeWhile isDigit s; r = dropWhile isDigit s;
          r' = (if startsWith r '':'' \<and> length (takeWhile isDigit (drop 1 r)) = 2 then drop 3 r else r);
          q = dropWhile isSpace r'
      in 1 \<le> length ds \<and> length ds \<le> 2 \<and> (startsWith q ''am'' \<or> startsWith q ''pm'') \<and> wordEnds (drop 2 q))"

definition timeWord :: "string \<Rightarrow> bool" where
  "timeWord s \<longleftrightarrow> clockTime s \<or> (startsWith s ''noon'' \<and> wordEnds (drop 4 s)) \<or> (startsWith s ''midnight'' \<and> wordEnds (drop 8 s))"

fun byTime :: "bool \<Rightarrow> string \<Rightarrow> bool" where
  "byTime inWord [] = False"
| "byTime inWord (c # s) =
     ((\<not> inWord \<and> startsWith (c # s) ''by'' \<and> takeWhile isSpace (drop 1 s) \<noteq> [] \<and> timeWord (dropWhile isSpace (drop 1 s)))
      \<or> byTime (wordChar c) s)"

section \<open>Action items\<close>

definition isTodo :: "string \<Rightarrow> bool" where
  "isTodo l \<longleftrightarrow> strIncludes l ''todo:'' \<or> startsWith l ''todo'' \<or> startsWith l ''task:'' \<or> startsWith l ''- [ ]''
     \<or> startsWith l ''[ ]'' \<or> strIncludes l ''please make sure to'' \<or> strIncludes l ''need to'' \<or> strIncludes l ''action item:''
     \<or> strIncludes l (''don'' @ CHR 0x27 # ''t forget to'') \<or> strIncludes l ''remember to''"

definition isMeeting :: "string \<Rightarrow> bool" where
  "isMeeting l \<longleftrightarrow> list_ex (strIncludes l) [''meet'', ''meeting'', ''sync'', ''call at'', ''huddle'', ''standup'', ''quick chat'']"

definition isDeadline :: "string \<Rightarrow> bool" where
  "isDeadline l \<longleftrightarrow> list_ex (strIncludes l) [''deadline'', ''due '', ''due:'', ''due by'', ''before eod'', ''by tomorrow'', ''by friday'',
       ''by monday'', ''by end of day'', ''by eod''] \<or> byTime False l"

definition itemsOf :: "string \<Rightarrow> ActionItem list" where
  "itemsOf sentence =
     (let l = toLowerCase sentence;
          item = (\<lambda>a c. \<lparr>actionType = a, itemText = sentence, itemContext = sentence, confidence = c\<rparr>)
      in (if isTodo l then [item Todo (95 / 100)] else [])
         @ (if isMeeting l then [item Meeting (9 / 10)] else [])
         @ (if isDeadline l then [item Deadline (92 / 100)] else [])
         @ map (\<lambda>u. \<lparr>actionType = Link, itemText = u, itemContext = sentence, confidence = 99 / 100\<rparr>) (urlMatches sentence)
         @ (if strIncludes sentence ''?'' \<and> length sentence > 5 then [item Question (88 / 100)] else []))"

definition sameItem :: "ActionItem \<Rightarrow> ActionItem \<Rightarrow> bool" where
  "sameItem x y \<longleftrightarrow> actionType x = actionType y \<and> itemText x = itemText y"

text \<open>The items that are the first of their type and text\<close>

fun firstItems :: "ActionItem list \<Rightarrow> ActionItem list \<Rightarrow> ActionItem list" where
  "firstItems seen [] = []"
| "firstItems seen (x # xs) = (if list_ex (sameItem x) seen then firstItems seen xs else x # firstItems (seen @ [x]) xs)"

definition extractActionItems :: "string \<Rightarrow> ActionItem list" where
  "extractActionItems text = firstItems [] (concat (map itemsOf (sentencesOf text)))"

section \<open>Replies and summaries\<close>

definition includesAny :: "string \<Rightarrow> string list \<Rightarrow> bool" where
  "includesAny l ws \<longleftrightarrow> list_ex (strIncludes l) ws"

definition suggestSmartReplies :: "string \<Rightarrow> string list" where
  "suggestSmartReplies lastMessage =
     (if lastMessage = [] then [''Sounds good!'', ''Got it, thanks!'', ''I will check on that.'']
      else
        let l = trim (toLowerCase lastMessage)
        in if includesAny l [''how are you'', ''how'' @ CHR 0x27 # ''s it going'', ''what'' @ CHR 0x27 # ''s up'']
           then [''I'' @ CHR 0x27 # ''m doing well, thanks! How about you?'', ''All good on my end! What'' @ CHR 0x27 # ''s up?'',
                 ''Great! Ready to dive in.'']
           else if includesAny l [''thank'', ''thanks'', ''appreciate'']
           then [''You'' @ CHR 0x27 # ''re welcome!'', ''No problem at all!'', ''Glad to help!'']
           else if includesAny l [''can you'', ''could you'', ''please'', ''would you'']
           then [''On it right now!'', ''Sure thing, I'' @ CHR 0x27 # ''ll take care of it.'', ''Will do shortly.'']
           else if includesAny l [''are you available'', ''free to talk'', ''jump on a call'', ''quick call'']
           then [''Yes, free now!'', ''Give me 5 minutes.'', ''Can we connect in an hour?'']
           else if includesAny l [''?'']
           then [''Let me check and get back to you.'', ''Yes, absolutely.'', ''Sounds good to me!'']
           else if includesAny l [''done'', ''finished'', ''merged'']
           then [''Awesome work!'', ''Looks great, thank you!'', ''Sweet, moving to the next item.'']
           else [''Sounds good!'', ''Got it, thanks for the update.'', ''Let me know if you need anything else.''])"

text \<open>Messages are texts with the name of the sender, if there is one.\<close>

definition bulletOf :: "string \<times> string option \<Rightarrow> string option" where
  "bulletOf m =
     (let t = trim (fst m); l = toLowerCase t
      in if length t < 12 \<or> startsWith l ''ok'' \<or> startsWith l ''thanks'' \<or> startsWith l ''sounds good'' then None
         else Some ((case snd m of Some s \<Rightarrow> if s \<noteq> [] then s @ '': '' else [] | None \<Rightarrow> []) @ t))"

fun bulletsOf :: "(string \<times> string option) list \<Rightarrow> string list \<Rightarrow> string list" where
  "bulletsOf [] acc = acc"
| "bulletsOf (m # ms) acc =
     (if fst m = [] then bulletsOf ms acc
      else bulletsOf ms (case bulletOf m of Some b \<Rightarrow> if length acc < 8 then acc @ [b] else acc | None \<Rightarrow> acc))"

definition topicsOf :: "ActionItem list \<Rightarrow> string list" where
  "topicsOf acts =
     (let has = (\<lambda>k. list_ex (\<lambda>a. actionType a = k) acts);
          ts = (if has Todo \<or> has Deadline then [''Action Items & Deadlines''] else [])
             @ (if has Meeting then [''Meetings & Coordination''] else [])
             @ (if has Link then [''Shared Resources & Links''] else [])
             @ (if has Question then [''Q&A & Clarifications''] else [])
      in if ts = [] then [''General Discussion''] else ts)"

definition summarizeConversation :: "(string \<times> string option) list \<Rightarrow> ConversationSummary" where
  "summarizeConversation ms =
     (let acts = concat (map (\<lambda>m. if fst m = [] then [] else extractActionItems (fst m)) ms)
      in \<lparr>keyTopics = topicsOf acts, summaryBullets = bulletsOf ms [], actionItems = firstItems [] acts\<rparr>)"

section \<open>The transcript of an export\<close>

record ExportableMessage =
  exSenderName :: string
  exTime :: string
  exContent :: string
  exMediaUrl :: string
  exEdited :: bool

definition paperclip :: string where
  "paperclip = map char_of [240, 159, 147, 142 :: nat]"

definition emDash :: string where
  "emDash = map char_of [226, 128, 148 :: nat]"

definition newline :: string where
  "newline = [CHR 0x0A]"

definition messageMarkdown :: "ExportableMessage \<Rightarrow> string" where
  "messageMarkdown m =
     ''### **'' @ exSenderName m @ ''** '' @ emDash @ '' '' @ CHR 0x60 # exTime m @ CHR 0x60 # (if exEdited m then '' *(edited)*'' else []) @ newline
     @ exContent m @ newline
     @ (if exMediaUrl m \<noteq> [] then newline @ paperclip @ '' Attachment: ['' @ exMediaUrl m @ ''](''  @ exMediaUrl m @ '')'' @ newline else [])
     @ newline"

definition formatMessagesMarkdown :: "string \<Rightarrow> string \<Rightarrow> string \<Rightarrow> ExportableMessage list \<Rightarrow> string" where
  "formatMessagesMarkdown date channelName exportedBy ms =
     ''# Chat Export: '' @ channelName @ newline @ newline
     @ ''*Exported on '' @ date @ '' by '' @ exportedBy @ ''*'' @ newline
     @ ''*Total Messages: '' @ numString (int (length ms)) @ ''*'' @ newline @ newline
     @ ''---'' @ newline @ newline
     @ concat (map messageMarkdown ms)"

section \<open>Nothing is made up\<close>

lemma sublist_trim: "sublist (trim s) s"
proof -
  have p: "prefix (rev (dropWhile isSpace (rev t))) t" for t :: string
    unfolding suffix_to_prefix [symmetric] using suffix_dropWhile [of isSpace "rev t"] by (simp add: suffix_to_prefix)
  have "suffix (dropWhile isSpace s) s" by (rule suffix_dropWhile)
  with p [of "dropWhile isSpace s"] show ?thesis
    unfolding trim_def by (meson prefix_imp_sublist suffix_imp_sublist sublist_order.order.trans)
qed

lemma sublist_parts: "sublist x y \<Longrightarrow> sublist y z \<Longrightarrow> sublist x z"
  by (rule sublist_order.order.trans)

lemma sublist_splitOn: "x \<in> set (splitOn c s) \<Longrightarrow> sublist x s"
proof (induction s arbitrary: x)
  case (Cons a s)
  show ?case
  proof (cases "a = c")
    case True
    with Cons show ?thesis by (auto simp: sublist_Cons_right)
  next
    case False
    obtain y ys where y: "splitOn c s = y # ys" using splitOn_not_Nil [of c s] by (meson neq_Nil_conv)
    have h: "prefix y s" using y
    proof (induction s arbitrary: y ys)
      case (Cons b s)
      show ?case
      proof (cases "b = c")
        case False
        obtain z zs where z: "splitOn c s = z # zs" using splitOn_not_Nil [of c s] by (meson neq_Nil_conv)
        from Cons.IH [OF z] Cons.prems z False show ?thesis by auto
      qed (use Cons.prems in simp)
    qed simp
    have t: "z \<in> set ys \<Longrightarrow> sublist z s" for z using Cons.IH y by simp
    have "sublist z (a # s)" if "sublist z s" for z
      using that by (simp add: sublist_Cons_right)
    with False y h t Cons.prems show ?thesis
      by (auto intro: prefix_imp_sublist)
  qed
qed simp

lemma sublist_sentenceMatches: "x \<in> set (sentenceMatches s) \<Longrightarrow> sublist x s"
proof (induction s rule: sentenceMatches.induct)
  case (1 s)
  define t where "t = dropWhile endMark s"
  define r where "r = dropWhile (\<lambda>c. \<not> endMark c) t"
  have t: "suffix t s" unfolding t_def by (rule suffix_dropWhile)
  show ?case
  proof (cases "t = []")
    case True
    with 1(2) show ?thesis by (subst (asm) sentenceMatches.simps) (simp add: t_def)
  next
    case False
    have split: "t = (takeWhile (\<lambda>c. \<not> endMark c) t @ takeWhile endMark r) @ dropWhile endMark r" by (simp add: r_def)
    have m: "sentenceMatches s = (takeWhile (\<lambda>c. \<not> endMark c) t @ takeWhile endMark r) # sentenceMatches (dropWhile endMark r)"
      using False by (subst sentenceMatches.simps) (simp add: Let_def t_def r_def)
    have "sublist (takeWhile (\<lambda>c. \<not> endMark c) t @ takeWhile endMark r) t"
      by (subst (2) split) (rule prefix_imp_sublist, simp add: takeWhile_is_prefix)
    moreover have "suffix (dropWhile endMark r) t" using split by (metis suffixI)
    moreover have "x \<in> set (sentenceMatches (dropWhile endMark r)) \<Longrightarrow> sublist x (dropWhile endMark r)"
      using 1(1) [OF t_def False r_def] .
    ultimately show ?thesis using 1(2) t unfolding m
      by (auto intro: sublist_parts suffix_imp_sublist)
  qed
qed

lemma sublist_urlMatches: "x \<in> set (urlMatches s) \<Longrightarrow> sublist x s"
proof (induction s rule: urlMatches.induct)
  case (2 c s)
  have w: "sublist x s \<Longrightarrow> sublist x (c # s)" by (simp add: sublist_Cons_right)
  show ?case
  proof (cases "schemeOf (c # s)")
    case None
    with 2 w show ?thesis by simp
  next
    case (Some p)
    define r where "r = drop (length p) (c # s)"
    have p: "c # s = p @ r" using Some by (auto simp: schemeOf_def r_def startsWith_def prefix_def split: if_splits)
    show ?thesis
    proof (cases "takeWhile urlChar r = []")
      case True
      with 2 w Some show ?thesis by (simp add: Let_def r_def)
    next
      case False
      then have m: "urlMatches (c # s) = (p @ takeWhile urlChar r) # urlMatches (dropWhile urlChar r)"
        using Some by (simp add: Let_def r_def)
      have a: "sublist (p @ takeWhile urlChar r) (c # s)"
        unfolding p by (rule prefix_imp_sublist) (simp add: takeWhile_is_prefix)
      have b: "sublist (dropWhile urlChar r) (c # s)"
        unfolding p by (rule suffix_imp_sublist) (meson suffix_append suffix_dropWhile suffix_order.trans suffixI)
      show ?thesis
        using 2(4) 2(3) [OF Some r_def False] a b unfolding m by (auto intro: sublist_parts)
    qed
  qed
qed simp

lemma sublist_lineSentences: "x \<in> set (lineSentences l) \<Longrightarrow> sublist x l"
  using sublist_trim [of l] sublist_sentenceMatches [of _ "trim l"] sublist_trim
  by (auto simp: lineSentences_def Let_def split: if_splits) (meson sublist_parts)+

lemma sublist_sentences: "x \<in> set (sentencesOf t) \<Longrightarrow> sublist x t"
  unfolding sentencesOf_def using sublist_lineSentences sublist_splitOn by (fastforce intro: sublist_parts)

definition fromText :: "string \<Rightarrow> ActionItem \<Rightarrow> bool" where
  "fromText t a \<longleftrightarrow> sublist (itemText a) (itemContext a) \<and> sublist (itemContext a) t"

lemma itemsOf_from: "x \<in> set (itemsOf s) \<Longrightarrow> sublist (itemText x) s \<and> itemContext x = s"
  using sublist_urlMatches [of _ s] by (auto simp: itemsOf_def Let_def split: if_splits)

lemma set_firstItems: "set (firstItems seen xs) \<subseteq> set xs"
  by (induction xs arbitrary: seen) auto

lemma firstItems_distinct:
  "distinct (map (\<lambda>x. (actionType x, itemText x)) (firstItems seen xs))
   \<and> (\<forall>x \<in> set (firstItems seen xs). \<not> list_ex (sameItem x) seen)"
proof (induction xs arbitrary: seen)
  case (Cons x xs)
  show ?case
  proof (cases "list_ex (sameItem x) seen")
    case False
    have d: "\<forall>y \<in> set (firstItems (seen @ [x]) xs). \<not> list_ex (sameItem y) seen \<and> \<not> sameItem y x"
      using Cons.IH [of "seen @ [x]"] by simp
    have e: "sameItem y x \<longleftrightarrow> (actionType y, itemText y) = (actionType x, itemText x)" for y by (simp add: sameItem_def)
    have "(actionType x, itemText x) \<notin> (\<lambda>x. (actionType x, itemText x)) ` set (firstItems (seen @ [x]) xs)"
      using d e by force
    then show ?thesis using False Cons.IH [of "seen @ [x]"] d by simp
  qed (simp add: Cons.IH)
qed simp

text \<open>
  C40. Nothing is made up: every action item that is found in a message is a part of its context, which is a part
  of the message, and no two items have the same type and text.
\<close>

theorem actions_from_message:
  "list_all (fromText t) (extractActionItems t)
   \<and> distinct (map (\<lambda>x. (actionType x, itemText x)) (extractActionItems t))"
proof -
  have "fromText t x" if "x \<in> set (extractActionItems t)" for x
  proof -
    have "x \<in> set (concat (map itemsOf (sentencesOf t)))"
      using that set_firstItems unfolding extractActionItems_def by blast
    then show ?thesis using itemsOf_from sublist_sentences by (fastforce simp: fromText_def)
  qed
  then show ?thesis using firstItems_distinct [of "[]"] by (simp add: list_all_iff extractActionItems_def)
qed

lemma bulletsOf_bound:
  "length acc \<le> 8 \<Longrightarrow> length (bulletsOf ms acc) \<le> 8"
  by (induction ms acc rule: bulletsOf.induct) (auto split: option.splits)

lemma bulletsOf_from:
  "list_all (\<lambda>b. \<exists>m \<in> S. bulletOf m = Some b) acc \<Longrightarrow> set ms \<subseteq> S \<Longrightarrow> list_all (\<lambda>b. \<exists>m \<in> S. bulletOf m = Some b) (bulletsOf ms acc)"
proof (induction ms acc rule: bulletsOf.induct)
  case (2 m ms acc)
  have "\<exists>x \<in> S. bulletOf x = Some b" if "bulletOf m = Some b" for b using that 2(4) by auto
  with 2 show ?case by (auto split: option.splits)
qed simp

text \<open>
  The shape of the suggestions and summaries, for every input: three different replies; between one and four
  different topics, at most eight bullets, each made of one message of the conversation, and items that differ.
\<close>

theorem intelligence_shapes:
  "length (suggestSmartReplies t) = 3 \<and> distinct (suggestSmartReplies t)
   \<and> length (keyTopics (summarizeConversation ms)) \<in> {1..4} \<and> distinct (keyTopics (summarizeConversation ms))
   \<and> length (summaryBullets (summarizeConversation ms)) \<le> 8
   \<and> list_all (\<lambda>b. \<exists>m \<in> set ms. bulletOf m = Some b) (summaryBullets (summarizeConversation ms))
   \<and> distinct (map (\<lambda>x. (actionType x, itemText x)) (actionItems (summarizeConversation ms)))"
proof -
  have "length (suggestSmartReplies t) = 3" "distinct (suggestSmartReplies t)"
    by (simp_all add: suggestSmartReplies_def Let_def)
  moreover have "length (topicsOf acts) \<in> {1..4} \<and> distinct (topicsOf acts)" for acts
    by (simp add: topicsOf_def Let_def)
  moreover have "list_all (\<lambda>b. \<exists>m \<in> set ms. bulletOf m = Some b) (bulletsOf ms [])" by (rule bulletsOf_from) simp_all
  ultimately show ?thesis
    using bulletsOf_bound [of "[]" ms] firstItems_distinct [of "[]"]
    by (simp add: summarizeConversation_def Let_def)
qed

end
