(* ===== verification/Voice_Recorder.thy ===== *)
theory Voice_Recorder
  imports Event_Loop
begin

text \<open>
  The voice recorder of \<open>packages/client-web/src/lib/voice-recorder.ts\<close>: the microphone's streams, the browser's
  recorders and the promises of \<open>stop\<close> as explicit state, and the resampling of the waveform. What the browser decides
  (the permission, the supported type, whether the analyser can be set up) is part of the events. Amplitudes are
  rationals; the sine of the waveform that is shown for an empty recording is a parameter.
\<close>

section \<open>The waveform\<close>

definition roundTo2 :: "rat \<Rightarrow> rat" where
  "roundTo2 x = of_int (mathRound (x * 100)) / 100"

text \<open>The samples of bar \<open>i\<close> of \<open>n\<close>: the bounds are \<open>Math.floor(i * (length / n))\<close>.\<close>

definition bucketStart :: "nat \<Rightarrow> nat \<Rightarrow> nat \<Rightarrow> nat" where
  "bucketStart len n i = i * len div n"

definition bucketOf :: "rat list \<Rightarrow> nat \<Rightarrow> nat \<Rightarrow> rat list" where
  "bucketOf xs n i =
     (let a = bucketStart (length xs) n i; b = min (length xs) (bucketStart (length xs) n (Suc i))
      in take (b - a) (drop a xs))"

definition barHeight :: "rat list \<Rightarrow> rat" where
  "barHeight xs =
     min 1 (max (15 / 100) (roundTo2 (fold (\<lambda>x m. if x > m then x else m) xs (15 / 100))))"

definition normalizeWaveform :: "(rat \<Rightarrow> rat) \<Rightarrow> rat list \<Rightarrow> nat \<Rightarrow> rat list" where
  "normalizeWaveform sinPi raw targetBars =
     (if raw = []
      then map (\<lambda>i. roundTo2 (2 / 10 + 5 / 10 * sinPi (of_nat i / of_nat (targetBars - 1)))) [0..<targetBars]
      else map (\<lambda>i. barHeight (bucketOf raw targetBars i)) [0..<targetBars])"

text \<open>The volume of one tick, from the average of the frequency data between 0 and 1\<close>

definition volumeOf :: "rat \<Rightarrow> rat" where
  "volumeOf avg = min 1 (max (8 / 100) (avg * (28 / 10)))"

section \<open>The recorder\<close>

record VoiceRecordingResult =
  recBlob :: "(nat \<times> nat) list"
  recDurationSec :: int
  recWaveform :: "rat list"
  recMimeType :: string

text \<open>
  A recorder of the browser: its stream, whether it records, whether the handler of \<open>dataavailable\<close> is attached, and
  the promise its \<open>onstop\<close> resolves
\<close>

record browserRecorder =
  brStream :: nat
  brRecording :: bool
  brOnData :: bool
  brOnStop :: "nat option"
  brMime :: string

text \<open>
  The streams are numbered, \<open>mics\<close> tells which are live. A chunk of data is a number with its size. \<open>pendingMics\<close> counts the calls of
  \<open>start\<close> that wait for the microphone; \<open>stopsPending\<close> are the recorders whose end the browser will report.
\<close>

record voiceState =
  mics :: "bool list"
  stream :: "nat option"
  recorders :: "browserRecorder list"
  mediaRecorder :: "nat option"
  audioOpen :: bool
  sampling :: bool
  volumeCallback :: bool
  chunks :: "(nat \<times> nat) list"
  samples :: "rat list"
  startTime :: int
  pendingMics :: nat
  stopsPending :: "nat list"
  nextPromise :: nat
  settled :: "(nat \<times> VoiceRecordingResult option) list"
  volumes :: "rat list"

definition freshRecorder :: voiceState where
  "freshRecorder =
     \<lparr>mics = [], stream = None, recorders = [], mediaRecorder = None, audioOpen = False, sampling = False, volumeCallback = False,
      chunks = [], samples = [], startTime = 0, pendingMics = 0, stopsPending = [], nextPromise = 0, settled = [], volumes = []\<rparr>"

definition onVolume :: "voiceState \<Rightarrow> voiceState" where
  "onVolume s = s\<lparr>volumeCallback := True\<rparr>"

definition vrStart :: "voiceState \<Rightarrow> voiceState" where
  "vrStart s = s\<lparr>chunks := [], samples := [], pendingMics := Suc (pendingMics s)\<rparr>"

text \<open>The microphone is given, with the result of the set-up of the analyser and the type of the recording, or refused.\<close>

definition chosenType :: "(string \<Rightarrow> bool) \<Rightarrow> string" where
  "chosenType supported =
     (if supported ''audio/webm;codecs=opus'' then ''audio/webm;codecs=opus''
      else if supported ''audio/webm'' then ''audio/webm''
      else if supported ''audio/ogg;codecs=opus'' then ''audio/ogg;codecs=opus''
      else if supported ''audio/mp4'' then ''audio/mp4'' else [])"

definition micGiven :: "int \<Rightarrow> bool \<Rightarrow> (string \<Rightarrow> bool) \<Rightarrow> voiceState \<Rightarrow> voiceState" where
  "micGiven now analyserOk supported s =
     (if pendingMics s = 0 then s
      else s\<lparr>pendingMics := pendingMics s - 1, mics := mics s @ [True], stream := Some (length (mics s)),
             audioOpen := (audioOpen s \<or> analyserOk), sampling := (sampling s \<or> analyserOk),
             recorders := recorders s @ [\<lparr>brStream = length (mics s), brRecording = True, brOnData = True, brOnStop = None, brMime = chosenType supported\<rparr>],
             mediaRecorder := Some (length (recorders s)), startTime := now\<rparr>)"

definition micRefused :: "voiceState \<Rightarrow> voiceState" where
  "micRefused s = s\<lparr>pendingMics := pendingMics s - 1\<rparr>"

definition vrTick :: "rat \<Rightarrow> voiceState \<Rightarrow> voiceState" where
  "vrTick avg s =
     (if sampling s
      then s\<lparr>samples := samples s @ [volumeOf avg],
             volumes := (if volumeCallback s then volumes s @ [volumeOf avg] else volumes s)\<rparr>
      else s)"

text \<open>Recorder \<open>i\<close> delivers data, while it records and once more when it is stopped; an empty chunk is dropped.\<close>

definition dataAvailable :: "nat \<Rightarrow> nat \<times> nat \<Rightarrow> voiceState \<Rightarrow> voiceState" where
  "dataAvailable i c s =
     (if i < length (recorders s) \<and> brOnData (recorders s ! i) \<and> snd c > 0 then s\<lparr>chunks := chunks s @ [c]\<rparr> else s)"

definition cleanup :: "voiceState \<Rightarrow> voiceState" where
  "cleanup s =
     s\<lparr>sampling := False, mics := (case stream s of Some i \<Rightarrow> (mics s)[i := False] | None \<Rightarrow> mics s), stream := None,
       audioOpen := False, volumeCallback := False\<rparr>"

text \<open>The recorder is told to stop; the browser reports the end later.\<close>

definition stopRecorder :: "nat \<Rightarrow> voiceState \<Rightarrow> voiceState" where
  "stopRecorder i s =
     (if i < length (recorders s) \<and> brRecording (recorders s ! i)
      then s\<lparr>recorders := (recorders s)[i := (recorders s ! i)\<lparr>brRecording := False\<rparr>], stopsPending := stopsPending s @ [i]\<rparr>
      else s)"

definition vrStop :: "voiceState \<Rightarrow> voiceState" where
  "vrStop s =
     (case mediaRecorder s of
        None \<Rightarrow> s\<lparr>settled := settled s @ [(nextPromise s, None)], nextPromise := Suc (nextPromise s)\<rparr>
      | Some i \<Rightarrow>
          stopRecorder i
            (s\<lparr>recorders := (recorders s)[i := (recorders s ! i)\<lparr>brOnStop := Some (nextPromise s)\<rparr>], nextPromise := Suc (nextPromise s)\<rparr>))"

definition durationOf :: "int \<Rightarrow> int \<Rightarrow> int" where
  "durationOf now start = max 1 (mathRound (of_int (now - start) / 1000))"

definition stopReported :: "(rat \<Rightarrow> rat) \<Rightarrow> int \<Rightarrow> nat \<Rightarrow> voiceState \<Rightarrow> voiceState" where
  "stopReported sinPi now i s =
     (if i \<notin> set (stopsPending s) then s
      else let s1 = s\<lparr>stopsPending := remove1 i (stopsPending s)\<rparr>
           in case brOnStop (recorders s ! i) of
                None \<Rightarrow> s1
              | Some p \<Rightarrow>
                  let mime = (case mediaRecorder s of Some j \<Rightarrow> brMime (recorders s ! j) | None \<Rightarrow> []);
                      r = \<lparr>recBlob = chunks s, recDurationSec = durationOf now (startTime s),
                           recWaveform = normalizeWaveform sinPi (samples s) 32,
                           recMimeType = (if mime \<noteq> [] then mime else ''audio/webm'')\<rparr>
                  in (cleanup s1)\<lparr>settled := settled s @ [(p, Some r)]\<rparr>)"

definition vrCancel :: "voiceState \<Rightarrow> voiceState" where
  "vrCancel s =
     (let s1 = (case mediaRecorder s of Some i \<Rightarrow> stopRecorder i s | None \<Rightarrow> s)
      in (cleanup s1)\<lparr>chunks := [], samples := []\<rparr>)"

datatype voiceEvent =
    VStart | VMicGiven int bool "string \<Rightarrow> bool" | VMicRefused | VTick rat | VData nat "nat \<times> nat"
  | VStop | VStopReported int nat | VCancel | VOnVolume

fun voiceStep :: "(rat \<Rightarrow> rat) \<Rightarrow> voiceEvent \<Rightarrow> voiceState \<Rightarrow> voiceState" where
  "voiceStep sinPi VStart s = vrStart s"
| "voiceStep sinPi (VMicGiven now ok types) s = micGiven now ok types s"
| "voiceStep sinPi VMicRefused s = micRefused s"
| "voiceStep sinPi (VTick avg) s = vrTick avg s"
| "voiceStep sinPi (VData i c) s = dataAvailable i c s"
| "voiceStep sinPi VStop s = vrStop s"
| "voiceStep sinPi (VStopReported now i) s = stopReported sinPi now i s"
| "voiceStep sinPi VCancel s = vrCancel s"
| "voiceStep sinPi VOnVolume s = onVolume s"

section \<open>Waveforms\<close>

lemma barHeight_bounds: "15 / 100 \<le> barHeight xs" "barHeight xs \<le> 1"
  by (auto simp: barHeight_def)

lemma bucketStart_mono: "0 < n \<Longrightarrow> i \<le> j \<Longrightarrow> bucketStart len n i \<le> bucketStart len n j"
  by (simp add: bucketStart_def div_le_mono)

lemma bucketStart_ends: "bucketStart len n 0 = 0" "0 < n \<Longrightarrow> bucketStart len n n = len"
  by (simp_all add: bucketStart_def)

lemma buckets_upto:
  assumes "0 < n" "k \<le> n"
  shows "concat (map (bucketOf xs n) [0..<k]) = take (bucketStart (length xs) n k) xs"
  using assms(2)
proof (induction k)
  case (Suc k)
  let ?a = "bucketStart (length xs) n k" and ?b = "bucketStart (length xs) n (Suc k)"
  have "?a \<le> ?b" by (rule bucketStart_mono [OF assms(1)]) simp
  moreover have "?b \<le> length xs"
    using bucketStart_mono [OF assms(1) Suc.prems, of "length xs"] bucketStart_ends(2) [OF assms(1)] by simp
  ultimately have "take ?a xs @ take (?b - ?a) (drop ?a xs) = take ?b xs"
    by (metis le_add_diff_inverse take_add)
  with Suc \<open>?b \<le> length xs\<close> show ?case by (simp add: bucketOf_def Let_def)
qed (simp add: bucketStart_ends)

text \<open>
  The waveform of a recording has exactly the number of bars that was asked for, each between 0.15 and 1, and
  every sample of the recording is in exactly one bar, in order: the bars cut the samples into consecutive pieces.
\<close>

theorem waveform_bars:
  assumes "raw \<noteq> []" "0 < n"
  shows "length (normalizeWaveform sinPi raw n) = n
    \<and> list_all (\<lambda>h. 15 / 100 \<le> h \<and> h \<le> 1) (normalizeWaveform sinPi raw n)
    \<and> normalizeWaveform sinPi raw n = map barHeight (map (bucketOf raw n) [0..<n])
    \<and> concat (map (bucketOf raw n) [0..<n]) = raw"
  using assms barHeight_bounds buckets_upto [OF assms(2) order.refl, of raw] bucketStart_ends(2) [OF assms(2)]
  by (simp add: normalizeWaveform_def list_all_iff)

lemma volumeOf_bounds: "8 / 100 \<le> volumeOf avg" "volumeOf avg \<le> 1"
  by (simp_all add: volumeOf_def)

section \<open>A recording from start to end\<close>

text \<open>What the browser reports between two calls: ticks, and data of the only recorder\<close>

definition whileRecording :: "voiceEvent \<Rightarrow> bool" where
  "whileRecording e = (case e of VTick avg \<Rightarrow> True | VData i c \<Rightarrow> i = 0 | VOnVolume \<Rightarrow> True | _ \<Rightarrow> False)"

definition dataOf :: "voiceEvent list \<Rightarrow> (nat \<times> nat) list" where
  "dataOf es = concat (map (\<lambda>e. case e of VData i c \<Rightarrow> if snd c > 0 then [c] else [] | _ \<Rightarrow> []) es)"

definition ticksOf :: "voiceEvent list \<Rightarrow> rat list" where
  "ticksOf es = concat (map (\<lambda>e. case e of VTick avg \<Rightarrow> [volumeOf avg] | _ \<Rightarrow> []) es)"

lemma recording_frame:
  assumes "list_all whileRecording es"
  shows "mics (fold (voiceStep sinPi) es s) = mics s \<and> stream (fold (voiceStep sinPi) es s) = stream s
    \<and> recorders (fold (voiceStep sinPi) es s) = recorders s \<and> mediaRecorder (fold (voiceStep sinPi) es s) = mediaRecorder s
    \<and> nextPromise (fold (voiceStep sinPi) es s) = nextPromise s \<and> settled (fold (voiceStep sinPi) es s) = settled s
    \<and> stopsPending (fold (voiceStep sinPi) es s) = stopsPending s \<and> startTime (fold (voiceStep sinPi) es s) = startTime s
    \<and> sampling (fold (voiceStep sinPi) es s) = sampling s
    \<and> samples (fold (voiceStep sinPi) es s) = samples s @ (if sampling s then ticksOf es else [])"
  using assms
proof (induction es arbitrary: s)
  case (Cons e es)
  then show ?case
    by (cases e) (simp_all add: whileRecording_def vrTick_def dataAvailable_def onVolume_def ticksOf_def)
qed (simp add: ticksOf_def)

lemma recording_data:
  assumes "list_all whileRecording es" "0 < length (recorders s)" "brOnData (recorders s ! 0)"
  shows "chunks (fold (voiceStep sinPi) es s) = chunks s @ dataOf es"
  using assms
proof (induction es arbitrary: s)
  case (Cons e es)
  then show ?case
    by (cases e) (simp_all add: whileRecording_def vrTick_def dataAvailable_def onVolume_def dataOf_def)
qed (simp add: dataOf_def)

text \<open>
  C17. A recording that is stopped is complete and lets go of the microphone: whatever the browser reports while it
  records, and between the call of \<open>stop\<close> and the end that it reports for it, the promise is resolved with all the data
  that were not empty, in order, the last chunk after the stop included, with a waveform of all the volumes measured, at
  least one second and the type that was chosen, and no stream is live any more.
\<close>

theorem recording_delivered:
  assumes "list_all whileRecording es" "list_all whileRecording late" "types ''audio/webm;codecs=opus''"
    and "s = fold (voiceStep sinPi) ([VStart, VMicGiven t0 ok types] @ es @ [VStop] @ late @ [VStopReported t1 0]) freshRecorder"
  shows "\<exists>r. settled s = [(0, Some r)] \<and> recBlob r = dataOf (es @ late)
    \<and> recWaveform r = normalizeWaveform sinPi (if ok then ticksOf (es @ late) else []) 32
    \<and> 1 \<le> recDurationSec r \<and> recMimeType r = ''audio/webm;codecs=opus''
    \<and> \<not> list_ex id (mics s) \<and> stream s = None \<and> \<not> audioOpen s \<and> \<not> sampling s"
proof -
  let ?br = "\<lparr>brStream = 0, brRecording = True, brOnData = True, brOnStop = None, brMime = ''audio/webm;codecs=opus''\<rparr>"
  define z where "z = micGiven t0 ok types (vrStart freshRecorder)"
  define s1 where "s1 = fold (voiceStep sinPi) es z"
  define s2 where "s2 = fold (voiceStep sinPi) late (vrStop s1)"
  have z: "z = freshRecorder\<lparr>mics := [True], stream := Some 0, audioOpen := ok, sampling := ok,
      recorders := [?br], mediaRecorder := Some 0, startTime := t0\<rparr>"
    using assms(3) by (simp add: z_def micGiven_def vrStart_def freshRecorder_def chosenType_def)
  have f: "mics s1 = [True]" "stream s1 = Some 0" "recorders s1 = [?br]" "mediaRecorder s1 = Some 0" "nextPromise s1 = 0"
    "settled s1 = []" "stopsPending s1 = []" "startTime s1 = t0" "chunks s1 = dataOf es" "sampling s1 = ok"
    "samples s1 = (if ok then ticksOf es else [])"
    using recording_frame [OF assms(1), of sinPi z] recording_data [OF assms(1), of z sinPi]
    by (simp_all add: s1_def z) (simp_all add: freshRecorder_def)
  have v: "vrStop s1 = s1\<lparr>recorders := [?br\<lparr>brRecording := False, brOnStop := Some 0\<rparr>], nextPromise := 1, stopsPending := [0]\<rparr>"
    by (simp add: vrStop_def stopRecorder_def f)
  have g: "mics s2 = [True]" "stream s2 = Some 0" "recorders s2 = [?br\<lparr>brRecording := False, brOnStop := Some 0\<rparr>]"
    "mediaRecorder s2 = Some 0" "settled s2 = []" "stopsPending s2 = [0]" "startTime s2 = t0" "chunks s2 = dataOf (es @ late)"
    "samples s2 = (if ok then ticksOf (es @ late) else [])"
    using recording_frame [OF assms(2), of sinPi "vrStop s1"] recording_data [OF assms(2), of "vrStop s1" sinPi]
    by (simp_all add: s2_def v f) (simp_all add: dataOf_def ticksOf_def)
  have "s = stopReported sinPi t1 0 s2" by (simp add: assms(4) s2_def s1_def z_def)
  then show ?thesis by (simp add: stopReported_def Let_def cleanup_def durationOf_def g)
qed

text \<open>
  A recording that is cancelled before the microphone was given goes on: when the permission comes, the recorder
  starts, and nothing that the browser reports afterwards turns the microphone off again.
\<close>

theorem cancelled_start_keeps_microphone:
  assumes "list_all whileRecording es"
    and "s = fold (voiceStep sinPi) ([VStart, VCancel, VMicGiven t0 ok types] @ es) freshRecorder"
  shows "mics s = [True] \<and> stream s = Some 0 \<and> map brRecording (recorders s) = [True]"
proof -
  define s1 where "s1 = micGiven t0 ok types (vrCancel (vrStart freshRecorder))"
  have f: "mics s1 = [True]" "stream s1 = Some 0" "map brRecording (recorders s1) = [True]"
    by (simp_all add: s1_def micGiven_def vrCancel_def vrStart_def cleanup_def freshRecorder_def Let_def)
  have "s = fold (voiceStep sinPi) es s1" by (simp add: assms(2) s1_def)
  with recording_frame [OF assms(1), of sinPi s1] f show ?thesis by simp
qed

text \<open>Stopping once more after the end: the recorder is kept but inactive, so the promise has nothing that resolves it.\<close>

lemma second_stop_waits:
  assumes "mediaRecorder s = Some i" "i < length (recorders s)" "\<not> brRecording (recorders s ! i)"
  shows "settled (vrStop s) = settled s \<and> stopsPending (vrStop s) = stopsPending s"
  using assms by (simp add: vrStop_def stopRecorder_def)

section \<open>The statements at concrete inputs\<close>

theorem waveform_bars_witness:
  "length (normalizeWaveform (\<lambda>x. 0) [1 / 2, 1 / 4] 32) = 32
   \<and> concat (map (bucketOf [1 / 2, 1 / 4] 32) [0..<32]) = [1 / 2, 1 / 4]"
  using waveform_bars [of "[1 / 2, 1 / 4]" 32 "\<lambda>x. 0"] by simp

theorem recording_delivered_witness:
  "\<exists>r. settled (fold (voiceStep (\<lambda>x. 0)) [VStart, VMicGiven 0 True (\<lambda>m. True), VData 0 (7, 3), VTick (1 / 2), VData 0 (8, 0), VStop, VData 0 (9, 1),
       VStopReported 4000 0] freshRecorder) = [(0, Some r)] \<and> recBlob r = [(7, 3), (9, 1)]"
  using recording_delivered [OF _ _ _ refl, of "[VData 0 (7, 3), VTick (1 / 2), VData 0 (8, 0)]" "[VData 0 (9, 1)]" "\<lambda>m. True" "\<lambda>x. 0" 0 True 4000]
  by (auto simp: whileRecording_def dataOf_def)

theorem cancelled_start_keeps_microphone_witness:
  "mics (fold (voiceStep (\<lambda>x. 0)) [VStart, VCancel, VMicGiven 0 True (\<lambda>m. True), VData 0 (7, 3)] freshRecorder) = [True]"
  using cancelled_start_keeps_microphone [OF _ refl, of "[VData 0 (7, 3)]" "\<lambda>x. 0" 0 True "\<lambda>m. True"]
  by (simp add: whileRecording_def)

end
