(* ===== verification/Registration.thy ===== *)
theory Registration
  imports Sign_In Key_Transfer
begin

text \<open>
  The pages \<open>packages/client-web/src/pages/RegisterPage.tsx\<close> and \<open>LoginPage.tsx\<close>: the passkey ceremonies with the
  sign-in service, the key ceremony, and what they leave for the services of the chat page. A page handles one
  ceremony at a time, because the form is not shown while one runs; its function gives the state when it has ended.
  The answers of the service and of the authenticator are functions of what is sent.
\<close>

section \<open>State\<close>

datatype RegistrationStep = RFormStep | RPasskeyStep | RKeygenStep | RDoneStep | RErrorStep

record formPage =
  formStep :: RegistrationStep
  formFailed :: bool
  visited :: "string list"

text \<open>What the pages share with the rest of the client: the provider of the user and the local storage of the service\<close>

record clientWorld =
  auth :: authState
  service :: e2eeState
  form :: formPage

record finishAnswer =
  finAccess :: string
  finRefresh :: string
  finUserId :: string
  finDeviceId :: string

record finishRequest =
  frSession :: string
  frCredential :: json
  frIdentityKey :: string
  frLabel :: string

record registerEnv =
  beginRegistration :: "string \<Rightarrow> (string \<times> string) outcome"
  createCredential :: "json \<Rightarrow> json outcome"
  coreKeys :: "(nat \<Rightarrow> WasmIdentityBundle \<times> WasmPublicPreKeyBundle) outcome"
  identityJson :: "WasmIdentityBundle \<Rightarrow> json"
  atRest :: "(aead \<times> key \<times> bytes) option"
  finishRegistration :: "finishRequest \<Rightarrow> finishAnswer outcome"
  userAgent :: string
  randomSuffix :: string

section \<open>Passkeys\<close>

text \<open>The options of the service for the authenticator; \<open>null\<close> has no members, which throws.\<close>

definition passkeyOptions :: "string \<Rightarrow> json option" where
  "passkeyOptions text =
     (case parseJson text of
        None \<Rightarrow> None
      | Some JNull \<Rightarrow> None
      | Some j \<Rightarrow>
          Some (JObj [(''publicKey'', case member j ''publicKey'' of
                                        Some p \<Rightarrow> if jsonTruthy (Some p) then p else j
                                      | None \<Rightarrow> j)]))"

definition deviceLabel :: "string \<Rightarrow> string" where
  "deviceLabel agent = (case splitOn (CHR '' '') agent of w # _ \<Rightarrow> w | [] \<Rightarrow> []) @ '' Browser''"

section \<open>Registration\<close>

definition showStep :: "RegistrationStep \<Rightarrow> clientWorld \<Rightarrow> clientWorld" where
  "showStep st w = w\<lparr>form := (form w)\<lparr>formStep := st\<rparr>\<rparr>"

definition formError :: "clientWorld \<Rightarrow> clientWorld" where
  "formError w = w\<lparr>form := (form w)\<lparr>formStep := RErrorStep, formFailed := True\<rparr>\<rparr>"

text \<open>\<open>login\<close> of the provider writes the session storage that the service reads.\<close>

definition signedIn :: "string \<Rightarrow> loginArgs \<Rightarrow> clientWorld \<Rightarrow> clientWorld" where
  "signedIn random x w =
     (let a = login random x (auth w)
      in w\<lparr>auth := a,
           service := (service w)\<lparr>
             storedUser := map_option (\<lambda>u. Blob \<lparr>suUserId = auUserId u, suDeviceId = auDeviceId u\<rparr>) (user a),
             storedToken := Some (liToken x)\<rparr>\<rparr>)"

definition goTo :: "string \<Rightarrow> clientWorld \<Rightarrow> clientWorld" where
  "goTo path w = w\<lparr>form := (form w)\<lparr>visited := visited (form w) @ [path]\<rparr>\<rparr>"

text \<open>The key ceremony: the keys of the core, stored encrypted in the key store (which may fail)\<close>

definition ceremony ::
  "registerEnv \<Rightarrow> (WasmIdentityBundle, WasmPublicPreKeyBundle) KeyCeremonyResult outcome" where
  "ceremony env =
     (case coreKeys env of
        Rejected \<Rightarrow> Rejected
      | Done generate \<Rightarrow> performKeyCeremony generate identityKeyEd25519PubHex (\<lambda>_. atRest env \<noteq> None) 20)"

definition keepIdentity :: "registerEnv \<Rightarrow> WasmIdentityBundle \<Rightarrow> clientWorld \<Rightarrow> clientWorld" where
  "keepIdentity env ib w =
     (case atRest env of
        None \<Rightarrow> w
      | Some (a, fresh, iv) \<Rightarrow>
          w\<lparr>auth := (auth w)\<lparr>keyStore := storeIdentityKey a fresh iv (identityJson env ib) (keyStore (auth w))\<rparr>\<rparr>)"

text \<open>After the account exists: the identity for the service, the public bundle, the sign-in. A failed upload is ignored.\<close>

definition registered ::
  "registerEnv \<Rightarrow> string \<Rightarrow> string \<Rightarrow> (WasmIdentityBundle, WasmPublicPreKeyBundle) KeyCeremonyResult \<Rightarrow> finishAnswer
    \<Rightarrow> clientWorld \<Rightarrow> clientWorld" where
  "registered env name keyHex k fin w =
     (let w1 = w\<lparr>service := storeIdentity (finUserId fin) (ceremonyIdentity k) (service w)\<rparr>;
          w2 = w1\<lparr>service := (service w1)\<lparr>
                 uploads := uploads (service w1) @ [(finAccess fin, publishedBundle (ceremonyPublic k) (finDeviceId fin))]\<rparr>\<rparr>
      in goTo ''/chat''
           (signedIn (randomSuffix env)
             \<lparr>liToken = finAccess fin, liRefresh = finRefresh fin, liUserId = finUserId fin, liDeviceId = finDeviceId fin,
              liName = Some name, liAvatar = None, liIdentityKey = Some keyHex\<rparr>
             (showStep RDoneStep w2)))"

definition handleRegister :: "registerEnv \<Rightarrow> string \<Rightarrow> clientWorld \<Rightarrow> clientWorld" where
  "handleRegister env displayName w =
     (let name = trim displayName; w0 = w\<lparr>form := (form w)\<lparr>formFailed := False\<rparr>\<rparr>
      in if name = [] then w
         else case beginRegistration env name of
                Rejected \<Rightarrow> formError (showStep RPasskeyStep w0)
              | Done (session, options) \<Rightarrow>
                  (case passkeyOptions options of
                     None \<Rightarrow> formError (showStep RPasskeyStep w0)
                   | Some opts \<Rightarrow>
                       (case createCredential env opts of
                          Rejected \<Rightarrow> formError (showStep RPasskeyStep w0)
                        | Done credential \<Rightarrow>
                            (case ceremony env of
                               Rejected \<Rightarrow> formError (showStep RKeygenStep w0)
                             | Done k \<Rightarrow>
                                 (let w1 = keepIdentity env (ceremonyIdentity k) (showStep RKeygenStep w0);
                                      keyHex = bytesToHex (identityKeyBytes k)
                                  in case finishRegistration env
                                            \<lparr>frSession = session, frCredential = credential, frIdentityKey = keyHex,
                                             frLabel = deviceLabel (userAgent env)\<rparr> of
                                       Rejected \<Rightarrow> formError w1
                                     | Done fin \<Rightarrow> registered env name keyHex k fin w1)))))"

section \<open>Login\<close>

record loginEnv =
  beginLogin :: "string \<Rightarrow> (string \<times> string) outcome"
  getAssertion :: "json \<Rightarrow> json outcome"
  finishLogin :: "string \<Rightarrow> json \<Rightarrow> finishAnswer outcome"
  loginSuffix :: string

definition handleLogin :: "loginEnv \<Rightarrow> string \<Rightarrow> clientWorld \<Rightarrow> clientWorld" where
  "handleLogin env typed w =
     (let uid = trim typed; w0 = showStep RPasskeyStep (w\<lparr>form := (form w)\<lparr>formFailed := False\<rparr>\<rparr>)
      in if uid = [] then w
         else case beginLogin env uid of
                Rejected \<Rightarrow> formError w0
              | Done (session, options) \<Rightarrow>
                  (case passkeyOptions options of
                     None \<Rightarrow> formError w0
                   | Some opts \<Rightarrow>
                       (case getAssertion env opts of
                          Rejected \<Rightarrow> formError w0
                        | Done assertion \<Rightarrow>
                            (case finishLogin env session assertion of
                               Rejected \<Rightarrow> formError w0
                             | Done fin \<Rightarrow>
                                 goTo ''/chat''
                                   (signedIn (loginSuffix env)
                                     \<lparr>liToken = finAccess fin, liRefresh = finRefresh fin, liUserId = finUserId fin,
                                      liDeviceId = finDeviceId fin, liName = None, liAvatar = None, liIdentityKey = None\<rparr>
                                     (showStep RDoneStep w0))))))"

section \<open>What the pages leave\<close>

lemma formError_keeps:
  "service (formError w) = service w" "auth (formError w) = auth w" "visited (form (formError w)) = visited (form w)"
  "service (showStep st w) = service w" "auth (showStep st w) = auth w" "visited (form (showStep st w)) = visited (form w)"
  by (simp_all add: formError_def showStep_def)

lemma keepIdentity_keeps:
  "service (keepIdentity env ib w) = service w"
  "visited (form (keepIdentity env ib w)) = visited (form w)"
  "auth (keepIdentity env ib w) = (auth w)\<lparr>keyStore := keyStore (auth (keepIdentity env ib w))\<rparr>"
  by (auto simp: keepIdentity_def split: option.splits)

lemmas page_keeps = formError_keeps keepIdentity_keeps(1,2)

text \<open>A ceremony either stops with an error and changes only the key store, or ends with a registered account.\<close>

definition ceremonyStopped :: "clientWorld \<Rightarrow> clientWorld \<Rightarrow> bool" where
  "ceremonyStopped w w' \<longleftrightarrow> service w' = service w \<and> visited (form w') = visited (form w)
     \<and> auth w' = (auth w)\<lparr>keyStore := keyStore (auth w')\<rparr>"

lemma stoppedI:
  "service w' = service w \<Longrightarrow> visited (form w') = visited (form w) \<Longrightarrow> auth w' = auth w \<Longrightarrow> ceremonyStopped w w'"
  by (simp add: ceremonyStopped_def)

text \<open>A stop at any of the steps, as a rule for the error paths of the two pages\<close>

lemma stopped_error: "ceremonyStopped w w1 \<Longrightarrow> ceremonyStopped w (formError w1)"
  by (simp add: ceremonyStopped_def page_keeps)

lemma stopped_show: "ceremonyStopped w w1 \<Longrightarrow> ceremonyStopped w (showStep st w1)"
  by (simp add: ceremonyStopped_def page_keeps)

lemma stopped_keep: "ceremonyStopped w w1 \<Longrightarrow> ceremonyStopped w (keepIdentity env ib w1)"
proof -
  assume s: "ceremonyStopped w w1"
  then obtain x where "auth w1 = (auth w)\<lparr>keyStore := x\<rparr>" by (metis ceremonyStopped_def)
  with s show ?thesis by (auto simp: ceremonyStopped_def keepIdentity_def split: option.split)
qed

lemma stopped_start: "ceremonyStopped w w" "ceremonyStopped w (w\<lparr>form := (form w)\<lparr>formFailed := b\<rparr>\<rparr>)"
  by (simp_all add: ceremonyStopped_def)

lemmas stopped_rules = stopped_error stopped_show stopped_keep stopped_start

lemma handleRegister_cases:
  obtains (stopped) "ceremonyStopped w (handleRegister env d w)"
  | (ended) k fin r w1 where "ceremony env = Done k" "finishRegistration env r = Done fin"
      "frIdentityKey r = bytesToHex (identityKeyBytes k)" "ceremonyStopped w w1"
      "handleRegister env d w = registered env (trim d) (bytesToHex (identityKeyBytes k)) k fin w1"
proof -
  have "ceremonyStopped w (handleRegister env d w)
    \<or> (\<exists>k fin r w1. ceremony env = Done k \<and> finishRegistration env r = Done fin
        \<and> frIdentityKey r = bytesToHex (identityKeyBytes k) \<and> ceremonyStopped w w1
        \<and> handleRegister env d w = registered env (trim d) (bytesToHex (identityKeyBytes k)) k fin w1)"
    unfolding handleRegister_def Let_def
    by (auto split: outcome.split option.split intro!: stopped_rules) (metis finishRequest.select_convs(3) stopped_rules)+
  then show ?thesis using that by blast
qed

lemma registered_state:
  "visited (form (registered env name keyHex k fin w)) = visited (form w) @ [''/chat'']"
  "service (registered env name keyHex k fin w) =
     (storeIdentity (finUserId fin) (ceremonyIdentity k) (service w))\<lparr>
       uploads := uploads (service w) @ [(finAccess fin, publishedBundle (ceremonyPublic k) (finDeviceId fin))],
       storedUser := storedUser (service (registered env name keyHex k fin w)), storedToken := Some (finAccess fin)\<rparr>"
  "\<exists>u. user (auth (registered env name keyHex k fin w)) = Some u \<and> auIdentityKey u = Some keyHex
     \<and> accessToken (auth (registered env name keyHex k fin w)) = Some (finAccess fin)"
  by (simp_all add: registered_def goTo_def signedIn_def showStep_def storeIdentity_def login_def profileEffect_def Let_def)

lemma handleLogin_stops:
  "ceremonyStopped w (handleLogin env t w) \<or> visited (form (handleLogin env t w)) = visited (form w) @ [''/chat'']"
  unfolding handleLogin_def Let_def
  by (auto split: outcome.split option.split intro!: stopped_rules simp: goTo_def signedIn_def page_keeps Let_def)

lemma ceremony_result:
  assumes "ceremony env = Done k"
  obtains generate where "coreKeys env = Done generate" "generate 20 = (ceremonyIdentity k, ceremonyPublic k)"
    "identityKeyBytes k = hexToBytes (identityKeyEd25519PubHex (ceremonyIdentity k))"
  using assms by (auto simp: ceremony_def performKeyCeremony_def split: outcome.splits prod.splits if_splits)

lemma loadIdentity_stored:
  "localReadable s \<Longrightarrow> localWritable s \<Longrightarrow> loadIdentity uid (storeIdentity uid ib s) = Some ib"
  by (simp add: loadIdentity_def storeIdentity_def)

lemma registered_loads:
  assumes "localReadable (service w)" "localWritable (service w)"
  shows "loadIdentity (finUserId fin) (service (registered env name keyHex k fin w)) = Some (ceremonyIdentity k)"
    "localReadable (service (registered env name keyHex k fin w))"
    "localWritable (service (registered env name keyHex k fin w))"
  using assms
  by (simp_all add: registered_def goTo_def signedIn_def showStep_def storeIdentity_def loadIdentity_def Let_def)

lemma key_bytes: "hexToBytes (bytesToHex bs) = bs"
  by (simp add: hexToBytes_eq_hexToBuffer codec_simps)

lemma handleRegister_ended:
  assumes "visited (form (handleRegister env name w)) \<noteq> visited (form w)"
  obtains generate k fin w1 u keyHex where "coreKeys env = Done generate" "generate 20 = (ceremonyIdentity k, ceremonyPublic k)"
    "service w1 = service w" "handleRegister env name w = registered env (trim name) keyHex k fin w1"
    "user (auth (handleRegister env name w)) = Some u" "auIdentityKey u = Some keyHex"
    "hexToBytes keyHex = hexToBytes (identityKeyEd25519PubHex (ceremonyIdentity k))"
    "accessToken (auth (handleRegister env name w)) = Some (finAccess fin)"
proof (rule handleRegister_cases [of w env name])
  assume "ceremonyStopped w (handleRegister env name w)"
  then show ?thesis using assms by (simp add: ceremonyStopped_def)
next
  fix k fin r w1
  assume k: "ceremony env = Done k" and w1: "ceremonyStopped w w1"
    and h: "handleRegister env name w = registered env (trim name) (bytesToHex (identityKeyBytes k)) k fin w1"
  obtain generate where g: "coreKeys env = Done generate" "generate 20 = (ceremonyIdentity k, ceremonyPublic k)"
    and b: "identityKeyBytes k = hexToBytes (identityKeyEd25519PubHex (ceremonyIdentity k))"
    by (rule ceremony_result [OF k])
  have s: "service w1 = service w" using w1 by (simp add: ceremonyStopped_def)
  obtain u where u: "user (auth (handleRegister env name w)) = Some u" "auIdentityKey u = Some (bytesToHex (identityKeyBytes k))"
    "accessToken (auth (handleRegister env name w)) = Some (finAccess fin)"
    unfolding h using registered_state(3) [of env "trim name" "bytesToHex (identityKeyBytes k)" k fin w1] by blast
  show ?thesis by (rule that [OF g s h u(1,2) _ u(3)]) (simp add: b key_bytes)
qed

lemma loadIdentity_fields [simp]:
  "loadIdentity uid (s\<lparr>authToken := t\<rparr>) = loadIdentity uid s"
  "loadIdentity uid (s\<lparr>currentUserId := t\<rparr>) = loadIdentity uid s"
  "loadIdentity uid (s\<lparr>currentDeviceId := t\<rparr>) = loadIdentity uid s"
  "loadIdentity uid (s\<lparr>identityBundle := b\<rparr>) = loadIdentity uid s"
  "loadIdentity uid (s\<lparr>uploads := l\<rparr>) = loadIdentity uid s"
  by (simp_all add: loadIdentity_def)

lemma initUserKeys_found:
  assumes "loadIdentity uid s = Some ib" "keyCount e = HttpOk n" "n \<noteq> 0"
  shows "fst (initUserKeys e uid dev tok s) = Done ib"
  using assms by (simp add: initUserKeys_def Let_def needsFreshKeys_def)

lemma effectiveDevice_nonempty: "dev \<noteq> [] \<Longrightarrow> effectiveDevice e dev tok s \<noteq> []"
  by (simp add: effectiveDevice_def Let_def)

lemma initUserKeys_replaces:
  assumes "loadIdentity uid s = Some ib" "localReadable s" "localWritable s" "needsFreshKeys (keyCount e)"
    and "freshKeys e = Done (ib', pb')" "dev \<noteq> []" "tok \<noteq> []"
  shows "fst (initUserKeys e uid dev tok s) = Done ib'" "loadIdentity uid (snd (initUserKeys e uid dev tok s)) = Some ib'"
  using assms effectiveDevice_nonempty [of dev e tok]
  by (simp_all add: initUserKeys_def Let_def installFreshKeys_def publishPreKeyBundle_def loadIdentity_stored)

text \<open>
  A registration or a sign-in that does not get to the chat changes nothing but the store of secret keys: nobody
  is signed in, and the local storage of the services is as it was.
\<close>

theorem ceremonies_all_or_nothing:
  assumes "w' \<in> {handleRegister env name w, handleLogin env' uid w}" "visited (form w') = visited (form w)"
  shows "service w' = service w \<and> auth w' = (auth w)\<lparr>keyStore := keyStore (auth w')\<rparr>"
proof -
  have "ceremonyStopped w w'"
  proof (cases "w' = handleLogin env' uid w")
    case True
    then show ?thesis using handleLogin_stops [of w env' uid] assms(2) by auto
  next
    case False
    with assms(1) have e: "w' = handleRegister env name w" by simp
    show ?thesis
      by (rule handleRegister_cases [of w env name])
        (use assms(2) in \<open>auto simp: e registered_state(1) ceremonyStopped_def\<close>)
  qed
  then show ?thesis by (simp add: ceremonyStopped_def)
qed

text \<open>
  A user who registers chats with the registered identity: the account is signed in with the public key of the
  identity that the ceremony generated, the last bundle that was uploaded is the one generated with it, and the service
  of the chat page, started for the new user, finds this very identity (while the server has one-time keys left).
\<close>

theorem registration_identity_used:
  assumes "visited (form (handleRegister env name w)) \<noteq> visited (form w)"
    and "localReadable (service w)" "localWritable (service w)" "keyCount e = HttpOk n" "n \<noteq> 0"
  shows "\<exists>generate ib pb (fin :: finishAnswer) u keyHex.
    coreKeys env = Done generate \<and> generate 20 = (ib, pb)
    \<and> user (auth (handleRegister env name w)) = Some u \<and> auIdentityKey u = Some keyHex
    \<and> hexToBytes keyHex = hexToBytes (identityKeyEd25519PubHex ib)
    \<and> last (uploads (service (handleRegister env name w))) = (finAccess fin, publishedBundle pb (finDeviceId fin))
    \<and> accessToken (auth (handleRegister env name w)) = Some (finAccess fin)
    \<and> fst (initUserKeys e (finUserId fin) dev tok (service (handleRegister env name w))) = Done ib"
proof -
  obtain generate k fin w1 u keyHex where g: "coreKeys env = Done generate" "generate 20 = (ceremonyIdentity k, ceremonyPublic k)"
    and w1: "service w1 = service w" and h: "handleRegister env name w = registered env (trim name) keyHex k fin w1"
    and u: "user (auth (handleRegister env name w)) = Some u" "auIdentityKey u = Some keyHex"
      "hexToBytes keyHex = hexToBytes (identityKeyEd25519PubHex (ceremonyIdentity k))"
      "accessToken (auth (handleRegister env name w)) = Some (finAccess fin)"
    by (rule handleRegister_ended [OF assms(1)])
  have r: "localReadable (service w1)" "localWritable (service w1)" using w1 assms(2,3) by simp_all
  have i: "fst (initUserKeys e (finUserId fin) dev tok (service (handleRegister env name w))) = Done (ceremonyIdentity k)"
    unfolding h by (rule initUserKeys_found [OF registered_loads(1) [OF r] assms(4,5)])
  have up: "last (uploads (service (handleRegister env name w))) = (finAccess fin, publishedBundle (ceremonyPublic k) (finDeviceId fin))"
    by (simp add: h registered_def goTo_def signedIn_def showStep_def Let_def)
  show ?thesis by (intro exI conjI) (rule g u up i)+
qed

text \<open>
  The upload of the bundle at the registration is allowed to fail, and then the identity that was just registered is
  replaced: the service finds no one-time keys on the server (or gets an error for the question) and generates another
  identity, while the account keeps the key of the first.
\<close>

theorem registered_identity_replaced:
  assumes "visited (form (handleRegister env name w)) \<noteq> visited (form w)"
    and "localReadable (service w)" "localWritable (service w)" "needsFreshKeys (keyCount e)"
    and "freshKeys e = Done (ib', pb')" "dev \<noteq> []" "tok \<noteq> []"
  shows "\<exists>generate ib pb (fin :: finishAnswer) u keyHex.
    coreKeys env = Done generate \<and> generate 20 = (ib, pb)
    \<and> (let r = initUserKeys e (finUserId fin) dev tok (service (handleRegister env name w))
       in fst r = Done ib' \<and> loadIdentity (finUserId fin) (snd r) = Some ib')
    \<and> user (auth (handleRegister env name w)) = Some u \<and> auIdentityKey u = Some keyHex
    \<and> hexToBytes keyHex = hexToBytes (identityKeyEd25519PubHex ib)"
proof -
  obtain generate k fin w1 u keyHex where g: "coreKeys env = Done generate" "generate 20 = (ceremonyIdentity k, ceremonyPublic k)"
    and w1: "service w1 = service w" and h: "handleRegister env name w = registered env (trim name) keyHex k fin w1"
    and u: "user (auth (handleRegister env name w)) = Some u" "auIdentityKey u = Some keyHex"
      "hexToBytes keyHex = hexToBytes (identityKeyEd25519PubHex (ceremonyIdentity k))"
      "accessToken (auth (handleRegister env name w)) = Some (finAccess fin)"
    by (rule handleRegister_ended [OF assms(1)])
  have r: "localReadable (service w1)" "localWritable (service w1)" using w1 assms(2,3) by simp_all
  note i = initUserKeys_replaces [OF registered_loads [OF r] assms(4-7)]
  show ?thesis unfolding Let_def by (intro exI conjI) (rule g u | (simp only: h, rule i))+
qed

definition demoRegisterEnv :: registerEnv where
  "demoRegisterEnv = \<lparr>beginRegistration = (\<lambda>n. Done (''s1'', ''7'')), createCredential = (\<lambda>j. Done j),
     coreKeys = Done (\<lambda>n. (demoIdentity, demoPublic)), identityJson = (\<lambda>b. JStr (identityKeyEd25519PubHex b)),
     atRest = Some (tagAead, [1], [2]), finishRegistration = (\<lambda>r. Done \<lparr>finAccess = ''tok'', finRefresh = ''ref'',
       finUserId = ''u1'', finDeviceId = ''d1''\<rparr>),
     userAgent = ''Mozilla 5'', randomSuffix = ''x''\<rparr>"

definition demoWorld :: clientWorld where
  "demoWorld = \<lparr>auth = mountProvider None None None, service = demoUser ''u1'',
     form = \<lparr>formStep = RFormStep, formFailed = False, visited = []\<rparr>\<rparr>"


lemma demo_registers:
  "visited (form (handleRegister demoRegisterEnv ''a'' demoWorld)) \<noteq> visited (form demoWorld)"
proof -
  have p: "passkeyOptions ''7'' = Some (JObj [(''publicKey'', JNum 7)])" by code_simp
  show ?thesis
    by (simp add: handleRegister_def Let_def demoRegisterEnv_def p ceremony_def performKeyCeremony_def registered_state(1) trim_def isSpace_def)
      (simp add: page_keeps demoWorld_def)
qed

lemma demo_store: "localReadable (service demoWorld)" "localWritable (service demoWorld)"
  by (simp_all add: demoWorld_def demoUser_def)

theorem ceremonies_all_or_nothing_witness:
  "service (handleRegister (demoRegisterEnv\<lparr>beginRegistration := \<lambda>n. Rejected\<rparr>) ''a'' demoWorld) = service demoWorld"
proof -
  let ?w' = "handleRegister (demoRegisterEnv\<lparr>beginRegistration := \<lambda>n. Rejected\<rparr>) ''a'' demoWorld"
  have "visited (form ?w') = visited (form demoWorld)"
    by (simp add: handleRegister_def trim_def isSpace_def page_keeps Let_def)
  then show ?thesis
    using ceremonies_all_or_nothing [where w' = ?w' and env' = "undefined" and uid = "[]"] by blast
qed

theorem registration_identity_used_witness:
  "\<exists>(fin :: finishAnswer) ib. fst (initUserKeys (demoEnv\<lparr>keyCount := HttpOk 5\<rparr>) (finUserId fin) ''d1'' ''tok''
      (service (handleRegister demoRegisterEnv ''a'' demoWorld))) = Done ib"
  using registration_identity_used [OF demo_registers demo_store,
      where e = "demoEnv\<lparr>keyCount := HttpOk 5\<rparr>" and n = 5 and dev = "''d1''" and tok = "''tok''"]
  by fastforce

theorem registered_identity_replaced_witness:
  "\<exists>fin :: finishAnswer. fst (initUserKeys (demoEnv\<lparr>freshKeys := Done (demoIdentity\<lparr>identityKeyEd25519PubHex := ''bb''\<rparr>, demoPublic)\<rparr>)
      (finUserId fin) ''d1'' ''tok'' (service (handleRegister demoRegisterEnv ''a'' demoWorld)))
    = Done (demoIdentity\<lparr>identityKeyEd25519PubHex := ''bb''\<rparr>)"
  using registered_identity_replaced [OF demo_registers demo_store,
      where e = "demoEnv\<lparr>freshKeys := Done (demoIdentity\<lparr>identityKeyEd25519PubHex := ''bb''\<rparr>, demoPublic)\<rparr>"
        and ib' = "demoIdentity\<lparr>identityKeyEd25519PubHex := ''bb''\<rparr>" and pb' = demoPublic and dev = "''d1''" and tok = "''tok''"]
  by (simp add: demoEnv_def needsFreshKeys_def Let_def) blast

end
