(* ===== verification/Key_Dialogs.thy ===== *)
theory Key_Dialogs
  imports Registration
begin

text \<open>
  The dialogs of \<open>packages/client-web/src/components/\<close> that move keys: \<open>KeyBackupModal.tsx\<close> and
  \<open>DeviceLinkingModal.tsx\<close>, over the functions of \<open>Key_Transfer\<close>. Their buttons are disabled while a request runs, so
  an operation is one step. The backup dialog reads the local storage in which \<open>E2ee_Session\<close> and \<open>Registration\<close> keep
  the identities.
\<close>

section \<open>Strength of a passphrase\<close>

datatype pinLabel = PinEmpty | PinVeryWeak | PinWeak | PinFair | PinStrong | PinExcellent

definition isLower :: "char \<Rightarrow> bool" where
  "isLower c \<longleftrightarrow> c \<in> set ''abcdefghijklmnopqrstuvwxyz''"

definition isUpper :: "char \<Rightarrow> bool" where
  "isUpper c \<longleftrightarrow> c \<in> set ''ABCDEFGHIJKLMNOPQRSTUVWXYZ''"

definition isSymbol :: "char \<Rightarrow> bool" where
  "isSymbol c \<longleftrightarrow> \<not> isLower c \<and> \<not> isUpper c \<and> \<not> isDigit c"

text \<open>One point for each: eight characters, twelve, a digit, both cases, a character of no class.\<close>

definition pinScore :: "string \<Rightarrow> nat" where
  "pinScore pass =
     of_bool (8 \<le> length pass) + of_bool (12 \<le> length pass) + of_bool (list_ex isDigit pass)
     + of_bool (list_ex isLower pass \<and> list_ex isUpper pass) + of_bool (list_ex isSymbol pass)"

text \<open>\<open>/^(.)\1+$/\<close>, and the prefixes that are compared without case\<close>

definition trivialPin :: "string \<Rightarrow> bool" where
  "trivialPin pass \<longleftrightarrow>
     (case pass of x # y # r \<Rightarrow> \<not> isLineEnd x \<and> list_all (\<lambda>c. c = x) (y # r) | _ \<Rightarrow> False)
     \<or> list_ex (startsWith (toLowerCase pass)) [''123456'', ''abcdef'', ''password'', ''qwerty'', ''000000'']"

definition getPinStrength :: "string \<Rightarrow> nat \<times> pinLabel" where
  "getPinStrength pass =
     (if pass = [] then (0, PinEmpty)
      else let score = pinScore pass
           in if trivialPin pass then (1, PinVeryWeak)
              else if score \<le> 1 then (1, PinWeak)
              else if score = 2 then (2, PinFair)
              else if score = 3 \<or> score = 4 then (3, PinStrong)
              else (4, PinExcellent))"

section \<open>The backup dialog\<close>

datatype backupTab = BackupTab | RestoreTab

datatype dialogError = WeakPassphrase | PassphrasesDiffer | PassphraseMissing | BackupMissing | BundleUnreadable
  | TransferFailed transferError

record backupDialog =
  dlTab :: backupTab
  dlPass :: string
  dlConfirm :: string
  dlError :: "dialogError option"
  dlSuccess :: bool
  dlExisting :: "BackupPayload option"
  sentBackups :: "BackupPayload list"
  restoredBundles :: "json list"

text \<open>An entry of the local storage as text; \<open>toJson\<close> gives the members of an identity.\<close>

definition itemText :: "(WasmIdentityBundle \<Rightarrow> json) \<Rightarrow> e2eeState \<Rightarrow> string \<Rightarrow> string option" where
  "itemText toJson s name =
     (case jsGet (persistedIdentities s) name of
        None \<Rightarrow> None
      | Some (Blob b) \<Rightarrow> Some (printJson (toJson b))
      | Some (Garbage t) \<Rightarrow> Some t)"

definition placeholderBundle :: "string option \<Rightarrow> json" where
  "placeholderBundle pub =
     JObj [(''identity_key_ed25519_pub_hex'', JStr (eitherStr (case pub of Some t \<Rightarrow> t | None \<Rightarrow> []) ''dev_identity'')),
           (''identity_key_ed25519_priv_hex'', JStr ''dev_priv'')]"

text \<open>\<open>None\<close>: the storage throws, or the entry does not parse.\<close>

definition collectIdentity :: "(WasmIdentityBundle \<Rightarrow> json) \<Rightarrow> e2eeState \<Rightarrow> json option" where
  "collectIdentity toJson s =
     (if \<not> localReadable s then None
      else case itemText toJson s ''genchat_identity_bundle'' of
             Some t \<Rightarrow> if t \<noteq> [] then parseJson t else Some (placeholderBundle (itemText toJson s ''genchat_identity_pub''))
           | None \<Rightarrow> Some (placeholderBundle (itemText toJson s ''genchat_identity_pub'')))"

definition jsonBytes :: "json \<Rightarrow> bytes" where
  "jsonBytes j = textEncode (printJson j)"

definition bytesJson :: "bytes \<Rightarrow> json option" where
  "bytesJson bs = Option.bind (textDecode bs) parseJson"

definition dialogFails :: "dialogError \<Rightarrow> backupDialog \<Rightarrow> backupDialog" where
  "dialogFails e d = d\<lparr>dlError := Some e, dlSuccess := False\<rparr>"

definition handleCreateBackup ::
  "(bytes \<Rightarrow> bytes \<Rightarrow> nat \<Rightarrow> key) \<Rightarrow> aead \<Rightarrow> bytes \<Rightarrow> bytes \<Rightarrow> (WasmIdentityBundle \<Rightarrow> json) \<Rightarrow> unit http \<Rightarrow> e2eeState
    \<Rightarrow> backupDialog \<Rightarrow> backupDialog" where
  "handleCreateBackup pbkdf2 a salt iv toJson answer s d =
     (if length (dlPass d) < 8 \<or> fst (getPinStrength (dlPass d)) < 2 then dialogFails WeakPassphrase d
      else if dlPass d \<noteq> dlConfirm d then dialogFails PassphrasesDiffer d
      else case collectIdentity toJson s of
             None \<Rightarrow> dialogFails BundleUnreadable d
           | Some bundle \<Rightarrow>
               let p = createEncryptedBackup pbkdf2 a jsonBytes salt iv bundle (dlPass d);
                   d1 = d\<lparr>sentBackups := sentBackups d @ [p]\<rparr>
               in case uploadKeyBackup answer of
                    Inl e \<Rightarrow> dialogFails (TransferFailed e) d1
                  | Inr _ \<Rightarrow> d1\<lparr>dlError := None, dlSuccess := True, dlExisting := Some p, dlPass := [], dlConfirm := []\<rparr>)"

definition loadExistingBackup :: "BackupPayload http \<Rightarrow> backupDialog \<Rightarrow> backupDialog" where
  "loadExistingBackup answer d = (case fetchKeyBackup answer of Inl e \<Rightarrow> d | Inr b \<Rightarrow> d\<lparr>dlExisting := b\<rparr>)"

definition handleRestoreBackup ::
  "(bytes \<Rightarrow> bytes \<Rightarrow> nat \<Rightarrow> key) \<Rightarrow> aead \<Rightarrow> BackupPayload http \<Rightarrow> backupDialog \<Rightarrow> backupDialog" where
  "handleRestoreBackup pbkdf2 a answer d =
     (if dlPass d = [] then dialogFails PassphraseMissing d
      else case (case dlExisting d of Some b \<Rightarrow> Inr (Some b) | None \<Rightarrow> fetchKeyBackup answer) of
             Inl e \<Rightarrow> dialogFails (TransferFailed e) d
           | Inr None \<Rightarrow> dialogFails BackupMissing d
           | Inr (Some b) \<Rightarrow>
               (case restoreEncryptedBackup pbkdf2 a bytesJson b (dlPass d) of
                  Inl e \<Rightarrow> dialogFails (TransferFailed e) d
                | Inr j \<Rightarrow> d\<lparr>dlError := None, dlSuccess := True, restoredBundles := restoredBundles d @ [j]\<rparr>))"

definition handleDeleteBackup :: "bool \<Rightarrow> unit http \<Rightarrow> backupDialog \<Rightarrow> backupDialog" where
  "handleDeleteBackup confirmed answer d =
     (if \<not> confirmed then d
      else case deleteKeyBackup answer of
             Inl e \<Rightarrow> d\<lparr>dlError := Some (TransferFailed e)\<rparr>
           | Inr _ \<Rightarrow> d\<lparr>dlExisting := None, dlSuccess := True\<rparr>)"

definition switchBackupTab :: "backupTab \<Rightarrow> backupDialog \<Rightarrow> backupDialog" where
  "switchBackupTab t d = d\<lparr>dlTab := t, dlError := None, dlSuccess := False\<rparr>"

section \<open>The linking dialog\<close>

record linkDialog =
  lkResult :: "DeviceLinkingInitResult option"
  lkStatus :: string
  lkError :: "transferError option"

definition newLinkDialog :: linkDialog where
  "newLinkDialog = \<lparr>lkResult = None, lkStatus = ''pending'', lkError = None\<rparr>"

definition startInitiation :: "transferError + DeviceLinkingInitResult \<Rightarrow> linkDialog \<Rightarrow> linkDialog" where
  "startInitiation answer d =
     (case answer of
        Inl e \<Rightarrow> d\<lparr>lkError := Some e\<rparr>
      | Inr r \<Rightarrow> d\<lparr>lkError := None, lkResult := Some r, lkStatus := ''pending''\<rparr>)"

text \<open>The effect of the dialog on \<open>isOpen\<close> and the token: a request, or the reset\<close>

definition linkDialogShown :: "bool \<Rightarrow> string \<Rightarrow> (transferError + DeviceLinkingInitResult) \<Rightarrow> linkDialog \<Rightarrow> linkDialog" where
  "linkDialogShown isOpen token answer d =
     (if isOpen \<and> token \<noteq> [] then startInitiation answer d else d\<lparr>lkResult := None, lkStatus := ''pending''\<rparr>)"

definition polling :: "bool \<Rightarrow> string \<Rightarrow> linkDialog \<Rightarrow> bool" where
  "polling isOpen token d \<longleftrightarrow> isOpen \<and> token \<noteq> [] \<and> lkResult d \<noteq> None \<and> lkStatus d \<noteq> ''consumed''"

definition linkPoll :: "bool \<Rightarrow> string \<Rightarrow> LinkingSessionStatus http \<Rightarrow> linkDialog \<Rightarrow> linkDialog" where
  "linkPoll isOpen token answer d =
     (if polling isOpen token d
      then case checkDeviceLinkingStatus answer of Inl e \<Rightarrow> d | Inr s \<Rightarrow> d\<lparr>lkStatus := linkStatus s\<rparr>
      else d)"

section \<open>What a backup holds\<close>

text \<open>
  The identities that the client itself has stored, under the names it gives them. A history starts with an empty
  storage; reloads and sessions change everything but the stored identities.
\<close>

definition ownNames :: "e2eeState \<Rightarrow> bool" where
  "ownNames s \<longleftrightarrow> (\<forall>k \<in> fst ` set (persistedIdentities s). startsWith k ''genchat_pqxdh_identity_'')"

lemma ownNames_cong: "persistedIdentities s' = persistedIdentities s \<Longrightarrow> ownNames s' \<longleftrightarrow> ownNames s"
  by (simp add: ownNames_def)

inductive identityHistory :: "e2eeState \<Rightarrow> bool" where
  fresh: "persistedIdentities s = [] \<Longrightarrow> identityHistory s"
| reload: "identityHistory s \<Longrightarrow> persistedIdentities s' = persistedIdentities s \<Longrightarrow> identityHistory s'"
| register: "identityHistory (service w) \<Longrightarrow> identityHistory (service (handleRegister env n w))"
| initKeys: "identityHistory s \<Longrightarrow> identityHistory (snd (initUserKeys e uid dev tok s))"
| encrypts: "identityHistory s \<Longrightarrow> identityHistory (snd (encrypt c e t conv me n tok allow s))"
| decrypts: "identityHistory s \<Longrightarrow> identityHistory (snd (decrypt c e b conv me tok s))"

lemma fst_update: "fst ` set (AList.update k v m) \<subseteq> insert k (fst ` set m)"
  by (induction m) (auto split: if_splits)

lemma ball_insert: "\<forall>k \<in> A. P k \<Longrightarrow> P x \<Longrightarrow> B \<subseteq> insert x A \<Longrightarrow> \<forall>k \<in> B. P k"
  by blast

lemma ownNames_stored:
  assumes "ownNames s" "persistedIdentities s' = persistedIdentities (storeIdentity uid ib s)"
  shows "ownNames s'"
proof -
  have n: "startsWith (identityStorageKey uid) ''genchat_pqxdh_identity_''"
    by (simp add: startsWith_def identityStorageKey_def)
  have "fst ` set (persistedIdentities s') \<subseteq> insert (identityStorageKey uid) (fst ` set (persistedIdentities s))"
    unfolding assms(2) storeIdentity_def using fst_update [of "identityStorageKey uid" "Blob ib" "persistedIdentities s"]
    by (cases "localWritable s") (simp_all add: jsSet_def subset_insertI)
  with assms(1) n show ?thesis unfolding ownNames_def by (rule ball_insert)
qed

lemma persistedIdentities_frames [simp]:
  "persistedIdentities (notePeerKey p k s) = persistedIdentities s"
  "persistedIdentities (saveSession env p me conv ses s) = persistedIdentities s"
  "persistedIdentities (snd (publishPreKeyBundle env b dev tok s)) = persistedIdentities s"
  "persistedIdentities (snd (getOrRestoreSession c env p me conv s)) = persistedIdentities s"
  "persistedIdentities (snd (fetchPreKeyBundle a p tok s)) = persistedIdentities s"
  "persistedIdentities (snd (enterOperation env me tok s)) = persistedIdentities s"
  by (simp_all add: notePeerKey_def saveSession_def publishPreKeyBundle_def getOrRestoreSession_def fetchPreKeyBundle_def
      enterOperation_def Let_def split: option.split http.split)

lemma persistedIdentities_attempt [simp]:
  "persistedIdentities (snd (attemptHandshake c env p conv i s)) = persistedIdentities s"
proof -
  obtain b s1 where f: "fetchPreKeyBundle (bundleOf env p i) p (authToken s) s = (b, s1)" by fastforce
  then have "persistedIdentities s1 = persistedIdentities s" by (metis persistedIdentities_frames(5) snd_conv)
  then show ?thesis by (auto simp: attemptHandshake_def f Let_def split: option.split outcome.split)
qed

lemma persistedIdentities_loop [simp]:
  "persistedIdentities (snd (handshakeLoop c env p conv n i s)) = persistedIdentities s"
proof (induction c env p conv n i s rule: handshakeLoop.induct)
  case (1 c env p conv n i s)
  obtain r s1 where a: "attemptHandshake c env p conv (i + 1) s = (r, s1)" by fastforce
  then have "persistedIdentities s1 = persistedIdentities s" by (metis persistedIdentities_attempt snd_conv)
  with 1 a show ?case by (subst handshakeLoop.simps) (auto split: option.split)
qed

lemma persistedIdentities_establish [simp]:
  "persistedIdentities (snd (establishSessionWithRetry c env p conv n s)) = persistedIdentities s"
proof -
  obtain r s1 where l: "handshakeLoop c env p conv n 0 s = (r, s1)" by fastforce
  then have "persistedIdentities s1 = persistedIdentities s" by (metis persistedIdentities_loop snd_conv)
  then show ?thesis by (auto simp: establishSessionWithRetry_def l split: option.split)
qed

lemma persistedIdentities_opening [simp]:
  "persistedIdentities (snd (openEnvelope c env e conv uid k s)) = persistedIdentities s"
  "persistedIdentities (snd (decryptEnvelope c env e conv uid s)) = persistedIdentities s"
proof -
  show o: "persistedIdentities (snd (openEnvelope c env e conv uid k s)) = persistedIdentities s" for k s
    by (auto simp: openEnvelope_def split: option.split)
  obtain ses s1 where g: "getOrRestoreSession c env (envelopePeer e conv uid) uid (envelopeConversation e conv) s = (ses, s1)"
    by fastforce
  then have "persistedIdentities s1 = persistedIdentities s" by (metis persistedIdentities_frames(4) snd_conv)
  then show "persistedIdentities (snd (decryptEnvelope c env e conv uid s)) = persistedIdentities s"
    by (auto simp: decryptEnvelope_def sessionForEnvelope_def g Let_def o split: option.split)
qed

lemma initUserKeys_identities:
  "persistedIdentities (snd (initUserKeys e uid dev tok s)) = persistedIdentities s
   \<or> (\<exists>ib. persistedIdentities (snd (initUserKeys e uid dev tok s)) = persistedIdentities (storeIdentity uid ib s))"
  by (auto simp: initUserKeys_def installFreshKeys_def storeIdentity_def Let_def split: option.split outcome.split)

lemma ownNames_initUserKeys: "ownNames s \<Longrightarrow> ownNames (snd (initUserKeys e uid dev tok s))"
  using initUserKeys_identities [of e uid dev tok s] ownNames_stored ownNames_cong by metis

lemma ownNames_ensureKeys: "ownNames s \<Longrightarrow> ownNames (snd (ensureKeys e uid tok s))"
  using ownNames_initUserKeys [of s e uid "deviceForKeys e tok s" "authToken s"]
  by (auto simp: ensureKeys_def split: prod.split outcome.split)

lemma ownNames_encrypt:
  assumes "ownNames s"
  shows "ownNames (snd (encrypt c env t conv me n tok allow s))"
proof -
  obtain uid s1 where 1: "enterOperation env me tok s = (uid, s1)" by fastforce
  obtain b s2 where 2: "ensureKeys env uid tok s1 = (b, s2)" by fastforce
  obtain ses0 s3 where 3: "getOrRestoreSession c env (extractPeerId conv uid) uid conv s2 = (ses0, s3)" by fastforce
  obtain r s4 where 4: "(if ses0 = None \<and> identityBundle s3 \<noteq> None \<and> extractPeerId conv uid \<noteq> uid
      then establishSessionWithRetry c env (extractPeerId conv uid) conv 3 s3 else (None, s3)) = (r, s4)"
    by fastforce
  have "ownNames s1" using assms 1 persistedIdentities_frames(6) [of env me tok s] by (simp add: ownNames_def)
  then have s2: "ownNames s2" using ownNames_ensureKeys 2 by (metis snd_conv)
  have "persistedIdentities s3 = persistedIdentities s2" using 3 by (metis persistedIdentities_frames(4) snd_conv)
  moreover have "persistedIdentities s4 = persistedIdentities s3"
    using 4 by (metis persistedIdentities_establish snd_conv)
  ultimately have "ownNames s4" using s2 by (simp add: ownNames_def)
  with s2 show ?thesis unfolding encrypt_def Let_def 1 2 3 4 prod.case by (simp split: bool.split)
qed

lemma ownNames_decrypt:
  assumes "ownNames s"
  shows "ownNames (snd (decrypt c env w conv me tok s))"
proof -
  obtain uid s1 where 1: "enterOperation env me tok s = (uid, s1)" by fastforce
  define s2 where "s2 = (if identityBundle s1 = None \<and> uid \<noteq> []
    then (case loadIdentity uid s1 of Some b \<Rightarrow> s1\<lparr>identityBundle := Some b\<rparr> | None \<Rightarrow> s1) else s1)"
  obtain b s3 where 3: "ensureKeys env uid tok s2 = (b, s3)" by fastforce
  have "ownNames s1" using assms 1 persistedIdentities_frames(6) [of env me tok s] by (simp add: ownNames_def)
  then have "ownNames s2" by (simp add: s2_def ownNames_def split: option.split)
  then have s3: "ownNames s3" using ownNames_ensureKeys 3 by (metis snd_conv)
  then have "ownNames (snd (decryptEnvelope c env e conv uid s3))" for e by (simp add: ownNames_def)
  with assms s3 show ?thesis
    unfolding decrypt_def 1 Let_def prod.case s2_def [symmetric] 3
    by (auto split: blob.splits bool.splits prod.splits) (metis snd_conv)
qed

lemma ownNames_register: "ownNames (service w) \<Longrightarrow> ownNames (service (handleRegister env n w))"
proof (rule handleRegister_cases [of w env n])
  assume "ownNames (service w)" "ceremonyStopped w (handleRegister env n w)"
  then show ?thesis by (simp add: ceremonyStopped_def)
next
  fix k fin r w1
  assume o: "ownNames (service w)" and w1: "ceremonyStopped w w1"
    and h: "handleRegister env n w = registered env (trim n) (bytesToHex (identityKeyBytes k)) k fin w1"
  have o1: "ownNames (service w1)" using o w1 by (simp add: ceremonyStopped_def)
  show ?thesis unfolding h
    by (rule ownNames_stored [OF o1, of _ "finUserId fin" "ceremonyIdentity k"])
      (simp add: registered_def goTo_def signedIn_def showStep_def Let_def)
qed

lemma history_names: "identityHistory s \<Longrightarrow> ownNames s"
proof (induction rule: identityHistory.induct)
  case (reload s s')
  then show ?case by (simp add: ownNames_def)
qed (simp_all add: ownNames_register ownNames_initUserKeys ownNames_encrypt ownNames_decrypt, simp add: ownNames_def)

lemma bytesJson_jsonBytes: "wfJson j \<Longrightarrow> bytesJson (jsonBytes j) = Some j"
  by (simp add: bytesJson_def jsonBytes_def parse_print)

lemma wfJson_placeholder: "wfJson (placeholderBundle p)"
  by (simp add: placeholderBundle_def)

lemma restore_created:
  assumes "aeadCorrect a" "aeadTagged a" "length iv = 12" "wfJson j"
  shows "restoreEncryptedBackup pbkdf2 a bytesJson (createEncryptedBackup pbkdf2 a jsonBytes salt iv j pass) pass = Inr j"
  using openCombined_sealed [OF assms(1-3)] bytesJson_jsonBytes [OF assms(4)]
  by (simp add: restoreEncryptedBackup_def createEncryptedBackup_def sealCombined_def backupIterations_def parseResult_def
      base64ToBuffer_bufferToBase64)

lemma jsGet_absent: "k \<notin> fst ` set m \<Longrightarrow> jsGet m k = None"
  by (simp add: jsGet_def map_of_eq_None_iff)

lemma history_items:
  assumes "identityHistory s"
  shows "itemText toJson s ''genchat_identity_bundle'' = None" "itemText toJson s ''genchat_identity_pub'' = None"
proof -
  have b: "\<not> startsWith ''genchat_identity_bundle'' ''genchat_pqxdh_identity_''"
    "\<not> startsWith ''genchat_identity_pub'' ''genchat_pqxdh_identity_''"
    by (simp_all add: startsWith_def)
  have n: "\<forall>k \<in> fst ` set (persistedIdentities s). startsWith k ''genchat_pqxdh_identity_''"
    using history_names [OF assms] unfolding ownNames_def .
  have "''genchat_identity_bundle'' \<notin> fst ` set (persistedIdentities s)"
    using b(1) bspec [OF n, of "''genchat_identity_bundle''"] by (rule contrapos_nn)
  then have "jsGet (persistedIdentities s) ''genchat_identity_bundle'' = None" by (rule jsGet_absent)
  then show "itemText toJson s ''genchat_identity_bundle'' = None" by (simp add: itemText_def)
  have "''genchat_identity_pub'' \<notin> fst ` set (persistedIdentities s)"
    using b(2) bspec [OF n, of "''genchat_identity_pub''"] by (rule contrapos_nn)
  then have "jsGet (persistedIdentities s) ''genchat_identity_pub'' = None" by (rule jsGet_absent)
  then show "itemText toJson s ''genchat_identity_pub'' = None" by (simp add: itemText_def)
qed

text \<open>
  The backup dialog never backs up an identity: whatever identities the client has created and stored, by
  registrations and by the service in any order, the backup that is sent decrypts to two fixed words. The dialog reads
  a name of the local storage under which nothing is written.
\<close>

theorem backup_holds_no_identity:
  assumes "identityHistory s" "localReadable s" "aeadCorrect a" "aeadTagged a" "length iv = 12"
    and "8 \<le> length (dlPass d)" "2 \<le> fst (getPinStrength (dlPass d))" "dlConfirm d = dlPass d"
  shows "\<exists>p. sentBackups (handleCreateBackup pbkdf2 a salt iv toJson answer s d) = sentBackups d @ [p]
    \<and> restoreEncryptedBackup pbkdf2 a bytesJson p (dlPass d) = Inr (placeholderBundle None)"
proof -
  let ?p = "createEncryptedBackup pbkdf2 a jsonBytes salt iv (placeholderBundle None) (dlPass d)"
  have c: "collectIdentity toJson s = Some (placeholderBundle None)"
    using assms(2) by (simp add: collectIdentity_def history_items [OF assms(1)])
  have "sentBackups (handleCreateBackup pbkdf2 a salt iv toJson answer s d) = sentBackups d @ [?p]"
    using assms(6-8) by (simp add: handleCreateBackup_def c Let_def dialogFails_def split: sum.split)
  moreover have "restoreEncryptedBackup pbkdf2 a bytesJson ?p (dlPass d) = Inr (placeholderBundle None)"
    by (rule restore_created [OF assms(3-5) wfJson_placeholder])
  ultimately show ?thesis by blast
qed

text \<open>
  What the dialog sends is sealed under a passphrase it has checked: at least eight characters, not one repeated
  character, no well-known beginning, and besides its eight characters either four more, a digit, both cases or a symbol;
  and it was typed twice.
\<close>

theorem backup_passphrase_checked:
  assumes "sentBackups (handleCreateBackup pbkdf2 a salt iv toJson answer s d) \<noteq> sentBackups d"
  shows "8 \<le> length (dlPass d) \<and> dlConfirm d = dlPass d \<and> \<not> trivialPin (dlPass d)
    \<and> (12 \<le> length (dlPass d) \<or> list_ex isDigit (dlPass d) \<or> list_ex isSymbol (dlPass d)
       \<or> list_ex isLower (dlPass d) \<and> list_ex isUpper (dlPass d))"
proof -
  have p: "\<not> (length (dlPass d) < 8 \<or> fst (getPinStrength (dlPass d)) < 2)" "dlPass d = dlConfirm d"
    using assms by (auto simp: handleCreateBackup_def dialogFails_def split: if_splits)
  then have "\<not> trivialPin (dlPass d) \<and> \<not> pinScore (dlPass d) \<le> 1"
    by (auto simp: getPinStrength_def Let_def split: if_splits)
  then show ?thesis using p by (auto simp: pinScore_def of_bool_def split: if_splits)
qed

section \<open>Examples\<close>

definition demoDialog :: backupDialog where
  "demoDialog = \<lparr>dlTab = BackupTab, dlPass = ''Xbcdefg1'', dlConfirm = ''Xbcdefg1'', dlError = None, dlSuccess = False,
     dlExisting = None, sentBackups = [], restoredBundles = []\<rparr>"

lemma demo_strength: "getPinStrength ''Xbcdefg1'' = (3, PinStrong)"
  by code_simp

theorem backup_holds_no_identity_witness:
  "\<exists>p. sentBackups (handleCreateBackup (\<lambda>p s n. p @ s) tagAead [9] (replicate 12 7)
      (\<lambda>b. JStr (identityKeyEd25519PubHex b)) (HttpOk ())
      (service (handleRegister demoRegisterEnv ''a'' demoWorld)) demoDialog) = sentBackups demoDialog @ [p]
    \<and> restoreEncryptedBackup (\<lambda>p s n. p @ s) tagAead bytesJson p (dlPass demoDialog) = Inr (placeholderBundle None)"
proof (rule backup_holds_no_identity)
  show "identityHistory (service (handleRegister demoRegisterEnv ''a'' demoWorld))"
    by (intro register fresh) (simp add: demoWorld_def demoUser_def)
  show "localReadable (service (handleRegister demoRegisterEnv ''a'' demoWorld))"
    by (rule handleRegister_cases [of demoWorld demoRegisterEnv "''a''"])
      (use demo_store in \<open>auto simp: ceremonyStopped_def registered_loads(2)\<close>)
qed (simp_all add: tagAead_ok tagAead_tagged demoDialog_def demo_strength)

theorem backup_passphrase_checked_witness:
  "\<not> trivialPin (dlPass demoDialog)"
proof -
  have "collectIdentity (\<lambda>b. JNull) (demoUser ''u'') = Some (placeholderBundle None)"
    by (simp add: collectIdentity_def itemText_def demoUser_def jsGet_def)
  then have "sentBackups (handleCreateBackup (\<lambda>p s n. p) tagAead [9] [7] (\<lambda>b. JNull) (HttpOk ()) (demoUser ''u'') demoDialog)
      \<noteq> sentBackups demoDialog"
    by (simp add: handleCreateBackup_def Let_def demoDialog_def demo_strength uploadKeyBackup_def)
  from backup_passphrase_checked [OF this] show ?thesis by blast
qed

end
