(* ===== verification/Safety_Dialog.thy ===== *)
theory Safety_Dialog
  imports Safety_Numbers
begin

text \<open>
  The verification dialog \<open>packages/client-web/src/components/SafetyNumberModal.tsx\<close> over the trust store of
  \<open>Safety_Numbers\<close>. The camera's streams, the timers and the \<open>video\<close> element are explicit; the element exists exactly
  when the dialog renders it, which depends on the state the handlers set.
\<close>

section \<open>State\<close>

datatype safetyTab = ViewTab | ScanTab

record dialogProps =
  dpUser :: string
  dpPeer :: string
  dpNumber :: string

record safetyDialog =
  sdProps :: dialogProps
  sdMounted :: bool
  activeTab :: safetyTab
  copied :: bool
  shownTrust :: TrustRecord
  cameraActive :: bool
  cameraError :: bool
  scanResult :: "(bool \<times> qrResult) option"
  scanInterval :: "nat option"
  scanIntervals :: "(nat \<times> dialogProps) list"
  nextInterval :: nat
  videoSource :: "nat option"
  cameraStreams :: "bool list"
  cameraRequests :: "dialogProps list"
  tabTimers :: nat
  trustSlotOf :: trustSlot
  verificationChanges :: "bool list"

definition readTrust :: "dialogProps \<Rightarrow> safetyDialog \<Rightarrow> safetyDialog" where
  "readTrust p s = s\<lparr>shownTrust := getTrustRecord (trustSlotOf s) (dpPeer p) (dpNumber p)\<rparr>"

definition openSafetyDialog :: "dialogProps \<Rightarrow> trustSlot \<Rightarrow> safetyDialog" where
  "openSafetyDialog p ls =
     \<lparr>sdProps = p, sdMounted = True, activeTab = ViewTab, copied = False,
      shownTrust = getTrustRecord ls (dpPeer p) (dpNumber p), cameraActive = False, cameraError = False, scanResult = None,
      scanInterval = None, scanIntervals = [], nextInterval = 0, videoSource = None, cameraStreams = [],
      cameraRequests = [], tabTimers = 0, trustSlotOf = ls, verificationChanges = []\<rparr>"

text \<open>The effect on new properties of the dialog\<close>

definition changeProps :: "dialogProps \<Rightarrow> safetyDialog \<Rightarrow> safetyDialog" where
  "changeProps p s = readTrust p (s\<lparr>sdProps := p\<rparr>)"

text \<open>\<open>videoRef.current\<close>: the element is rendered in the scan tab while the camera counts as active.\<close>

definition videoShown :: "safetyDialog \<Rightarrow> bool" where
  "videoShown s \<longleftrightarrow> sdMounted s \<and> activeTab s = ScanTab \<and> cameraActive s"

text \<open>After a change of the state: an element that is no longer rendered is gone with its source.\<close>

definition rendered :: "safetyDialog \<Rightarrow> safetyDialog" where
  "rendered s = (if videoShown s then s else s\<lparr>videoSource := None\<rparr>)"

section \<open>Verification by hand\<close>

definition handleToggleVerified :: "int \<Rightarrow> safetyDialog \<Rightarrow> safetyDialog" where
  "handleToggleVerified now s =
     (let p = sdProps s
      in if isVerified (shownTrust s)
         then (readTrust p (s\<lparr>trustSlotOf := revokeVerification (dpPeer p) (trustSlotOf s)\<rparr>))
                \<lparr>verificationChanges := verificationChanges s @ [False]\<rparr>
         else (readTrust p (s\<lparr>trustSlotOf := setVerified now (dpPeer p) (dpNumber p) (trustSlotOf s)\<rparr>))
                \<lparr>verificationChanges := verificationChanges s @ [True]\<rparr>)"

section \<open>The scanner\<close>

definition startCamera :: "safetyDialog \<Rightarrow> safetyDialog" where
  "startCamera s =
     s\<lparr>cameraError := False, scanResult := None, cameraRequests := cameraRequests s @ [sdProps s]\<rparr>"

text \<open>
  The camera is given to the request at position \<open>i\<close>; \<open>plays\<close> says whether the element plays, \<open>detector\<close> whether the
  browser detects bar codes. Without an element nothing happens to the stream.
\<close>

definition cameraGiven :: "nat \<Rightarrow> bool \<Rightarrow> bool \<Rightarrow> safetyDialog \<Rightarrow> safetyDialog" where
  "cameraGiven i plays detector s =
     (if i < length (cameraRequests s)
      then let p = cameraRequests s ! i;
               n = length (cameraStreams s);
               s1 = s\<lparr>cameraStreams := cameraStreams s @ [True],
                      cameraRequests := take i (cameraRequests s) @ drop (Suc i) (cameraRequests s)\<rparr>
           in if \<not> videoShown s1 then s1
              else if \<not> plays then s1\<lparr>videoSource := Some n, cameraError := True, cameraActive := False\<rparr>
              else let s2 = s1\<lparr>videoSource := Some n, cameraActive := True\<rparr>
                   in if detector
                      then s2\<lparr>scanInterval := Some (nextInterval s2), scanIntervals := scanIntervals s2 @ [(nextInterval s2, p)],
                              nextInterval := Suc (nextInterval s2)\<rparr>
                      else s2
      else s)"

definition cameraRefused :: "nat \<Rightarrow> safetyDialog \<Rightarrow> safetyDialog" where
  "cameraRefused i s =
     (if i < length (cameraRequests s)
      then s\<lparr>cameraRequests := take i (cameraRequests s) @ drop (Suc i) (cameraRequests s), cameraError := True,
             cameraActive := False\<rparr>
      else s)"

definition stopCamera :: "safetyDialog \<Rightarrow> safetyDialog" where
  "stopCamera s =
     (let s1 = (case scanInterval s of
                  Some i \<Rightarrow> s\<lparr>scanIntervals := filter (\<lambda>x. fst x \<noteq> i) (scanIntervals s), scanInterval := None\<rparr>
                | None \<Rightarrow> s);
          s2 = (case (videoShown s1, videoSource s1) of
                  (True, Some n) \<Rightarrow> s1\<lparr>cameraStreams := (cameraStreams s1)[n := False], videoSource := None\<rparr>
                | _ \<Rightarrow> s1)
      in s2\<lparr>cameraActive := False\<rparr>)"

definition handleScannedPayload :: "int \<Rightarrow> dialogProps \<Rightarrow> string \<Rightarrow> safetyDialog \<Rightarrow> safetyDialog" where
  "handleScannedPayload now p text s =
     (case parseAndVerifyQrPayload text (dpUser p) (dpPeer p) (dpNumber p) of
        Valid \<Rightarrow>
          let s1 = stopCamera s;
              s2 = readTrust p (s1\<lparr>trustSlotOf := setVerified now (dpPeer p) (dpNumber p) (trustSlotOf s1)\<rparr>)
          in s2\<lparr>verificationChanges := verificationChanges s2 @ [True], scanResult := Some (True, Valid),
                tabTimers := Suc (tabTimers s2)\<rparr>
      | r \<Rightarrow> s\<lparr>scanResult := Some (False, r)\<rparr>)"

text \<open>A tick of an interval; \<open>None\<close>: no code in the picture, or the detection fails.\<close>

definition scanTick :: "int \<Rightarrow> nat \<Rightarrow> string option \<Rightarrow> safetyDialog \<Rightarrow> safetyDialog" where
  "scanTick now i code s =
     (case (map_of (scanIntervals s) i, code) of
        (Some p, Some text) \<Rightarrow> if videoShown s then handleScannedPayload now p text s else s
      | _ \<Rightarrow> s)"

section \<open>Tabs, the end of the dialog\<close>

definition handleSwitchTab :: "safetyTab \<Rightarrow> safetyDialog \<Rightarrow> safetyDialog" where
  "handleSwitchTab tab s =
     (if tab = ScanTab then (startCamera s)\<lparr>activeTab := ScanTab\<rparr> else (stopCamera s)\<lparr>activeTab := ViewTab\<rparr>)"

definition tabTimer :: "safetyDialog \<Rightarrow> safetyDialog" where
  "tabTimer s = (if tabTimers s = 0 then s else s\<lparr>tabTimers := tabTimers s - 1, activeTab := ViewTab\<rparr>)"

definition handleCopy :: "bool \<Rightarrow> safetyDialog \<Rightarrow> safetyDialog" where
  "handleCopy b s = s\<lparr>copied := b\<rparr>"

text \<open>The dialog is taken away: the element is gone before the cleanup of its effect runs.\<close>

definition closeDialog :: "safetyDialog \<Rightarrow> safetyDialog" where
  "closeDialog s = stopCamera (rendered (s\<lparr>sdMounted := False\<rparr>))"

datatype safetyEvent =
    SToggle int | SProps dialogProps | SSwitch safetyTab | SRetry | SGiven nat bool bool | SRefused nat
  | STick int nat "string option" | STabTimer | SCopy bool | SClose

text \<open>The buttons are there while the dialog is; the retry button is shown with an error in the scan tab.\<close>

fun safetyStep :: "safetyEvent \<Rightarrow> safetyDialog \<Rightarrow> safetyDialog" where
  "safetyStep (SToggle now) s = (if sdMounted s \<and> activeTab s = ViewTab then handleToggleVerified now s else s)"
| "safetyStep (SProps p) s = (if sdMounted s then changeProps p s else s)"
| "safetyStep (SSwitch t) s = (if sdMounted s then rendered (handleSwitchTab t s) else s)"
| "safetyStep SRetry s =
     (if sdMounted s \<and> activeTab s = ScanTab \<and> cameraError s \<and> \<not> cameraActive s then rendered (startCamera s) else s)"
| "safetyStep (SGiven i plays detector) s = rendered (cameraGiven i plays detector s)"
| "safetyStep (SRefused i) s = rendered (cameraRefused i s)"
| "safetyStep (STick now i code) s = rendered (scanTick now i code s)"
| "safetyStep STabTimer s = rendered (tabTimer s)"
| "safetyStep (SCopy b) s = handleCopy b s"
| "safetyStep SClose s = closeDialog s"

section \<open>Properties\<close>

text \<open>The camera never counts as active, so the element that would make it active is never rendered.\<close>

definition scannerIdle :: "safetyDialog \<Rightarrow> bool" where
  "scannerIdle s \<longleftrightarrow> \<not> cameraActive s \<and> scanIntervals s = [] \<and> scanInterval s = None \<and> scanResult s = None
     \<and> videoSource s = None \<and> tabTimers s = 0 \<and> list_all id (cameraStreams s)"

lemma idle_hidden: "scannerIdle s \<Longrightarrow> \<not> videoShown s"
  by (simp add: scannerIdle_def videoShown_def)

lemma idle_rendered: "scannerIdle (rendered s) \<longleftrightarrow> scannerIdle s" if "videoSource s = None"
  using that by (cases s) (simp add: rendered_def)

lemma idle_stop: "scannerIdle s \<Longrightarrow> stopCamera s = s"
  using idle_hidden [of s] by (cases s) (auto simp: stopCamera_def Let_def scannerIdle_def)

lemma idle_start: "scannerIdle s \<Longrightarrow> scannerIdle (startCamera s)"
  by (simp add: startCamera_def scannerIdle_def)

lemma idle_given: "scannerIdle s \<Longrightarrow> scannerIdle (cameraGiven i plays detector s)"
  by (auto simp: cameraGiven_def Let_def scannerIdle_def videoShown_def)

lemma idle_source: "scannerIdle s \<Longrightarrow> videoSource s = None"
  by (simp add: scannerIdle_def)

lemma idle_frames:
  "scannerIdle s \<Longrightarrow> scannerIdle (s\<lparr>activeTab := t\<rparr>)" "scannerIdle s \<Longrightarrow> scannerIdle (s\<lparr>sdMounted := b\<rparr>)"
  "scannerIdle s \<Longrightarrow> scannerIdle (handleCopy b s)" "scannerIdle s \<Longrightarrow> scannerIdle (changeProps p s)"
  "scannerIdle s \<Longrightarrow> scannerIdle (handleToggleVerified now s)" "scannerIdle s \<Longrightarrow> scannerIdle (cameraRefused i s)"
  "scannerIdle s \<Longrightarrow> tabTimer s = s" "scannerIdle s \<Longrightarrow> scanTick now i code s = s"
  by (auto simp: scannerIdle_def handleCopy_def changeProps_def readTrust_def handleToggleVerified_def cameraRefused_def
      tabTimer_def scanTick_def Let_def split: option.split)

lemma idle_renders: "scannerIdle s \<Longrightarrow> rendered s = s"
  using idle_source [of s] by (cases s) (simp add: rendered_def)

lemma idle_step: "scannerIdle s \<Longrightarrow> scannerIdle (safetyStep ev s)"
  by (cases ev)
    (simp_all add: idle_renders idle_frames idle_given idle_start idle_stop handleSwitchTab_def closeDialog_def)

lemma idle_run: "scannerIdle s \<Longrightarrow> scannerIdle (fold safetyStep es s)"
  by (induction es arbitrary: s) (simp_all add: idle_step)

lemma idle_open: "scannerIdle (openSafetyDialog p ls)"
  by (simp add: scannerIdle_def openSafetyDialog_def)

text \<open>
  The scanner never starts: whatever the user and the browser do, the camera's picture is never shown, no code is
  ever read, no result appears; and every camera that was given to the dialog stays on, also after the dialog is closed.
  The element for the picture is rendered only after the camera counts as active, and it counts as active only
  when the element is there.
\<close>

theorem scanner_never_starts:
  "\<not> videoShown (fold safetyStep es (openSafetyDialog p ls))
   \<and> scanIntervals (fold safetyStep es (openSafetyDialog p ls)) = []
   \<and> scanResult (fold safetyStep es (openSafetyDialog p ls)) = None
   \<and> list_all id (cameraStreams (fold safetyStep es (openSafetyDialog p ls)))
   \<and> cameraStreams (safetyStep (SGiven 0 plays detector) (safetyStep (SSwitch ScanTab) (openSafetyDialog p ls))) = [True]"
proof -
  have i: "scannerIdle (fold safetyStep es (openSafetyDialog p ls))" by (rule idle_run [OF idle_open])
  have "cameraStreams (safetyStep (SGiven 0 plays detector) (safetyStep (SSwitch ScanTab) (openSafetyDialog p ls))) = [True]"
    by (simp add: openSafetyDialog_def handleSwitchTab_def startCamera_def rendered_def videoShown_def cameraGiven_def)
  with i idle_hidden [OF i] show ?thesis by (simp add: scannerIdle_def)
qed

text \<open>The trust that is shown is the one that is stored, for the properties the dialog has.\<close>

definition trustShown :: "safetyDialog \<Rightarrow> bool" where
  "trustShown s \<longleftrightarrow> trustOk (trustSlotOf s)
     \<and> shownTrust s = getTrustRecord (trustSlotOf s) (dpPeer (sdProps s)) (dpNumber (sdProps s))"

lemma trustShown_cong:
  "trustSlotOf s = trustSlotOf t \<Longrightarrow> sdProps s = sdProps t \<Longrightarrow> shownTrust s = shownTrust t \<Longrightarrow> trustShown s \<longleftrightarrow> trustShown t"
  by (simp add: trustShown_def)

lemma trustShown_frames:
  "trustShown (startCamera s) \<longleftrightarrow> trustShown s" "trustShown (cameraRefused i s) \<longleftrightarrow> trustShown s"
  "trustShown (handleCopy b s) \<longleftrightarrow> trustShown s" "trustShown (s\<lparr>activeTab := t\<rparr>) \<longleftrightarrow> trustShown s"
  "trustShown (s\<lparr>sdMounted := b\<rparr>) \<longleftrightarrow> trustShown s" "trustShown (cameraGiven i plays detector s) \<longleftrightarrow> trustShown s"
  by (rule trustShown_cong; simp add: startCamera_def cameraRefused_def handleCopy_def cameraGiven_def Let_def)+

lemma trustShown_writes:
  "trustShown s \<Longrightarrow> trustShown (handleToggleVerified now s)" "trustShown s \<Longrightarrow> trustShown (changeProps p s)"
  by (simp_all add: trustShown_def handleToggleVerified_def changeProps_def readTrust_def Let_def trustOk_setVerified
      trustOk_revoke)

lemma trustShown_step: "scannerIdle s \<Longrightarrow> trustShown s \<Longrightarrow> trustShown (safetyStep ev s)"
  by (cases ev)
    (simp_all add: idle_renders idle_frames idle_given idle_start idle_stop handleSwitchTab_def closeDialog_def
      trustShown_frames trustShown_writes)

lemma trustShown_run:
  "scannerIdle s \<Longrightarrow> trustShown s \<Longrightarrow> trustShown (fold safetyStep es s)"
  by (induction es arbitrary: s) (simp_all add: idle_step trustShown_step)

text \<open>
  Verifying by hand does what the button says: it changes the verification that is shown, the contact is among the
  verified ones exactly when the dialog shows it as verified, and the page is told so; a number that has changed since it
  was verified counts as not verified.
\<close>

theorem toggle_changes_verification:
  assumes "trustOk ls" "s = fold safetyStep es (openSafetyDialog p ls)" "sdMounted s" "activeTab s = ViewTab"
  shows "(isVerified (shownTrust (safetyStep (SToggle now) s)) \<longleftrightarrow> \<not> isVerified (shownTrust s))
    \<and> (dpPeer (sdProps s) \<in> getVerifiedPeerIds (trustSlotOf (safetyStep (SToggle now) s))
      \<longleftrightarrow> isVerified (shownTrust (safetyStep (SToggle now) s)))
    \<and> verificationChanges (safetyStep (SToggle now) s)
        = verificationChanges s @ [isVerified (shownTrust (safetyStep (SToggle now) s))]"
proof -
  let ?p = "sdProps s" and ?ls = "trustSlotOf s"
  have "trustShown s" unfolding assms(2)
    by (rule trustShown_run [OF idle_open]) (simp add: trustShown_def openSafetyDialog_def assms(1))
  then have ok: "trustOk ?ls" and t: "shownTrust s = getTrustRecord ?ls (dpPeer ?p) (dpNumber ?p)"
    by (simp_all add: trustShown_def)
  have r: "verifiedEntry (revokeVerification (dpPeer ?p) ?ls) (dpPeer ?p) = None"
    and v: "verifiedEntry (setVerified now (dpPeer ?p) (dpNumber ?p) ?ls) (dpPeer ?p) = Some (now, dpNumber ?p)"
    using trust.lookup_del [OF ok] trust.lookup_put [OF ok, where k = "dpPeer ?p" and v = "(now, dpNumber ?p)"] by simp_all
  show ?thesis
    using assms(3,4) r v getVerifiedPeerIds_iff [OF trustOk_revoke [OF ok]] getVerifiedPeerIds_iff [OF trustOk_setVerified [OF ok]]
    by (cases "isVerified (shownTrust s)")
      (simp_all add: handleToggleVerified_def readTrust_def Let_def getTrustRecord_verified)
qed

theorem toggle_changes_verification_witness:
  "isVerified (shownTrust (safetyStep (SToggle 5)
     (openSafetyDialog \<lparr>dpUser = ''a'', dpPeer = ''b'', dpNumber = ''1''\<rparr> \<lparr>item = None, readable = True, writable = True\<rparr>)))"
  using toggle_changes_verification [where es = "[]" and now = 5 and p = "\<lparr>dpUser = ''a'', dpPeer = ''b'', dpNumber = ''1''\<rparr>",
      OF _ refl, of "\<lparr>item = None, readable = True, writable = True\<rparr>"]
  by (simp add: openSafetyDialog_def trustOk_def getAllRecords_def slotRead_def getTrustRecord_def jsGet_def wfMap_def)

section \<open>The safety number of the open conversation\<close>

text \<open>
  The chat page (\<open>packages/client-web/src/pages/ChatPage.tsx\<close>) computes the number of the contact whose conversation is
  open. The digests take time: a computation is a promise, and its answer is taken whenever it comes.
\<close>

record safetyPage =
  spPeer :: string
  spNumber :: string
  spVerified :: bool
  spDialogOpen :: bool
  spPending :: "(bool \<times> string \<times> string) list"
  spTrust :: trustSlot

definition numberFor ::
  "(string \<Rightarrow> string \<Rightarrow> int) \<Rightarrow> (bytes \<Rightarrow> bytes) \<Rightarrow> string \<times> string \<Rightarrow> (string \<Rightarrow> string) \<Rightarrow> string \<Rightarrow> string" where
  "numberFor cmp digest me peerKey peer =
     computeSafetyNumber cmp digest (fst me) (KeyHex (snd me)) (Some peer) (Some (KeyHex (peerKey peer)))"

text \<open>The effect on the open conversation: \<open>None\<close> when there is none or it is no direct one\<close>

definition safetyEffect ::
  "(string \<Rightarrow> string \<Rightarrow> int) \<Rightarrow> (bytes \<Rightarrow> bytes) \<Rightarrow> string \<times> string \<Rightarrow> (string \<Rightarrow> string) \<Rightarrow> string option \<Rightarrow> safetyPage
    \<Rightarrow> safetyPage" where
  "safetyEffect cmp digest me peerKey conv s =
     (case conv of
        None \<Rightarrow> s\<lparr>spNumber := [], spPeer := []\<rparr>
      | Some peer \<Rightarrow> s\<lparr>spPeer := peer, spPending := spPending s @ [(False, peer, numberFor cmp digest me peerKey peer)]\<rparr>)"

definition handleOpenSafetyModal ::
  "(string \<Rightarrow> string \<Rightarrow> int) \<Rightarrow> (bytes \<Rightarrow> bytes) \<Rightarrow> string \<times> string \<Rightarrow> (string \<Rightarrow> string) \<Rightarrow> string option \<Rightarrow> safetyPage
    \<Rightarrow> safetyPage" where
  "handleOpenSafetyModal cmp digest me peerKey conv s =
     (case conv of
        None \<Rightarrow> s
      | Some peer \<Rightarrow> s\<lparr>spPeer := peer, spPending := spPending s @ [(True, peer, numberFor cmp digest me peerKey peer)]\<rparr>)"

text \<open>The computation at position \<open>i\<close> is done: it belongs to the effect, or to the button that opens the dialog.\<close>

definition numberComputed :: "nat \<Rightarrow> safetyPage \<Rightarrow> safetyPage" where
  "numberComputed i s =
     (if i < length (spPending s)
      then case spPending s ! i of (button, peer, n) \<Rightarrow>
        let s1 = s\<lparr>spPending := take i (spPending s) @ drop (Suc i) (spPending s), spNumber := n\<rparr>
        in if button then s1\<lparr>spDialogOpen := True\<rparr>
           else s1\<lparr>spVerified := isVerified (getTrustRecord (spTrust s) peer n)\<rparr>
      else s)"

text \<open>The properties that the page gives to the dialog\<close>

definition dialogFor :: "string \<Rightarrow> safetyPage \<Rightarrow> safetyDialog" where
  "dialogFor me s = openSafetyDialog \<lparr>dpUser = me, dpPeer = spPeer s, dpNumber = spNumber s\<rparr> (spTrust s)"

text \<open>
  A number that arrives late is taken for the contact who is open now: after a change from one conversation to
  another, the number of the first contact is shown for the second, and verifying by hand stores it as that contact's
  verified number, so that the true number then counts as a change of keys.
\<close>

theorem number_of_other_contact:
  assumes "trustOk (spTrust s0)" "spPending s0 = []" "\<not> isVerified (getTrustRecord (spTrust s0) b (numberFor cmp digest me peerKey a))"
    and "s = numberComputed 0 (numberComputed 1 (safetyEffect cmp digest me peerKey (Some b) (safetyEffect cmp digest me peerKey (Some a) s0)))"
    and "d = safetyStep (SToggle now) (dialogFor (fst me) s)"
  shows "spPeer s = b \<and> spNumber s = numberFor cmp digest me peerKey a
    \<and> verifiedEntry (trustSlotOf d) b = Some (now, numberFor cmp digest me peerKey a)
    \<and> (hasChanged (getTrustRecord (trustSlotOf d) b (numberFor cmp digest me peerKey b))
        \<longleftrightarrow> numberFor cmp digest me peerKey a \<noteq> numberFor cmp digest me peerKey b)"
proof -
  have s: "spPeer s = b" "spNumber s = numberFor cmp digest me peerKey a" "spTrust s = spTrust s0"
    using assms(2) by (simp_all add: assms(4) safetyEffect_def numberComputed_def Let_def)
  have "trustSlotOf d = setVerified now b (numberFor cmp digest me peerKey a) (spTrust s0)"
    using assms(3) by (simp add: assms(5) dialogFor_def s openSafetyDialog_def handleToggleVerified_def readTrust_def Let_def)
  then have v: "verifiedEntry (trustSlotOf d) b = Some (now, numberFor cmp digest me peerKey a)"
    using trust.lookup_put [OF assms(1), where k = b and v = "(now, numberFor cmp digest me peerKey a)"] by simp
  then show ?thesis using s(1,2) by (simp add: getTrustRecord_changed)
qed

text \<open>In the order in which they were started, the last answer is the one of the open conversation.\<close>

definition numbersPending :: "(string \<Rightarrow> string) \<Rightarrow> safetyPage \<Rightarrow> bool" where
  "numbersPending num s \<longleftrightarrow>
     (if spPending s = [] then spPeer s = [] \<or> spNumber s = num (spPeer s)
      else fst (snd (last (spPending s))) = spPeer s \<or> spPeer s = [])
     \<and> (\<forall>x \<in> set (spPending s). snd (snd x) = num (fst (snd x)))"

lemma numbers_in_order:
  assumes "numbersPending (numberFor cmp digest me peerKey) s"
  shows "numbersPending (numberFor cmp digest me peerKey) (safetyEffect cmp digest me peerKey conv s)"
    "numbersPending (numberFor cmp digest me peerKey) (handleOpenSafetyModal cmp digest me peerKey conv s)"
    "numbersPending (numberFor cmp digest me peerKey) (numberComputed 0 s)"
proof -
  show "numbersPending (numberFor cmp digest me peerKey) (safetyEffect cmp digest me peerKey conv s)"
    "numbersPending (numberFor cmp digest me peerKey) (handleOpenSafetyModal cmp digest me peerKey conv s)"
    using assms by (auto simp: numbersPending_def safetyEffect_def handleOpenSafetyModal_def split: option.split if_splits)
  show "numbersPending (numberFor cmp digest me peerKey) (numberComputed 0 s)"
  proof (cases "spPending s")
    case (Cons x xs)
    obtain button p n where x: "x = (button, p, n)" by (cases x) auto
    show ?thesis using assms
      by (cases "xs = []") (auto simp: numbersPending_def numberComputed_def Cons x Let_def)
  qed (use assms in \<open>simp add: numberComputed_def\<close>)
qed

theorem number_of_other_contact_witness:
  "\<exists>s :: safetyPage. spPeer s = ''b'' \<and> spNumber s = numberFor (\<lambda>x y. 0) (\<lambda>b. b) (''me'', ''k'') (\<lambda>p. p) ''a''"
proof -
  let ?ls = "\<lparr>item = None, readable = True, writable = True\<rparr> :: trustSlot"
  let ?s0 = "\<lparr>spPeer = [], spNumber = [], spVerified = False, spDialogOpen = False, spPending = [], spTrust = ?ls\<rparr>"
  have t: "trustOk (spTrust ?s0)" by (simp add: trustOk_def getAllRecords_def slotRead_def)
  have v: "\<not> isVerified (getTrustRecord (spTrust ?s0) ''b'' n)" for n
    by (simp add: getTrustRecord_def getAllRecords_def slotRead_def)
  have p: "spPending ?s0 = []" by simp
  show ?thesis
    using conjunct1 [OF number_of_other_contact [OF t p v refl refl]]
      conjunct1 [OF conjunct2 [OF number_of_other_contact [OF t p v refl refl, where a = "''a''" and cmp = "\<lambda>x y. 0"
        and digest = "\<lambda>b. b" and me = "(''me'', ''k'')" and peerKey = "\<lambda>p. p"]]]
    by (intro exI conjI)
qed

end
