(* ===== verification/Group_Dialog.thy ===== *)
theory Group_Dialog
  imports Mls_Group
begin

text \<open>
  The member dialog of a group, \<open>packages/client-web/src/components/GroupMembersModal.tsx\<close>, over \<open>Mls_Group\<close>: the list it
  shows is made of the local group state and of the members the server names, and its buttons call the group
  manager. One operation runs at a time, because the buttons are disabled while it does.
\<close>

section \<open>The list of members\<close>

datatype serverRole = RoleNumber int | RoleName string | NoRole

record serverMember =
  smUserIdSnake :: "string option"
  smUserIdCamel :: "string option"
  smRole :: serverRole

datatype shownRole = OwnerRole | AdminRole | MemberRole

record channelMember =
  cmUserId :: "string option"
  cmRole :: shownRole
  cmLeafIndex :: "int option"
  cmIsOwner :: bool

definition roleOf :: "serverRole \<Rightarrow> shownRole" where
  "roleOf r =
     (if r = RoleNumber 1 \<or> r = RoleName ''owner'' then OwnerRole
      else if r = RoleNumber 2 \<or> r = RoleName ''admin'' then AdminRole
      else MemberRole)"

text \<open>\<open>sm.user_id || sm.userId\<close>\<close>

definition memberId :: "serverMember \<Rightarrow> string option" where
  "memberId m = (case smUserIdSnake m of Some u \<Rightarrow> if u \<noteq> [] then Some u else smUserIdCamel m | None \<Rightarrow> smUserIdCamel m)"

definition localEntry :: "serverMember list \<Rightarrow> leaf \<Rightarrow> channelMember" where
  "localEntry sms m =
     (let r = (case find (\<lambda>sm. smUserIdSnake sm = Some (leafUserId m) \<or> smUserIdCamel sm = Some (leafUserId m)) sms of
                 Some sm \<Rightarrow> smRole sm | None \<Rightarrow> NoRole)
      in \<lparr>cmUserId = Some (leafUserId m), cmRole = roleOf r, cmLeafIndex = Some (leafIndex m),
          cmIsOwner = (leafIndex m = 0 \<or> roleOf r = OwnerRole)\<rparr>)"

fun remainingEntries :: "string option set \<Rightarrow> serverMember list \<Rightarrow> channelMember list" where
  "remainingEntries seen [] = []"
| "remainingEntries seen (sm # sms) =
     (if memberId sm \<in> seen then remainingEntries seen sms
      else \<lparr>cmUserId = memberId sm, cmRole = roleOf (smRole sm), cmLeafIndex = None,
            cmIsOwner = (roleOf (smRole sm) = OwnerRole)\<rparr> # remainingEntries (insert (memberId sm) seen) sms)"

definition combinedMembers :: "MlsLocalGroupState option \<Rightarrow> serverMember list \<Rightarrow> channelMember list" where
  "combinedMembers grp sms =
     (let ms = (case grp of Some st \<Rightarrow> members st | None \<Rightarrow> [])
      in map (localEntry sms) ms @ remainingEntries (set (map (Some \<circ> leafUserId) ms)) sms)"

section \<open>The dialog\<close>

datatype groupStatus = MemberAlready | MemberAdded string int | AddFailed | MemberRemoved string int | RemoveFailed | LeaveFailed

record groupDialog =
  dgChannel :: string
  dgMe :: string
  dgToken :: string
  dgGroup :: "MlsLocalGroupState option"
  dgServer :: "serverMember list"
  dgTyped :: string
  dgStatus :: "groupStatus option"
  dgLeft :: bool
  dgManager :: mlsState
  dgSent :: "mlsOut list"

text \<open>The local state, then the members of the server; a failed request keeps those known before.\<close>

definition loadGroupData :: "serverMember list http \<Rightarrow> groupDialog \<Rightarrow> groupDialog" where
  "loadGroupData answer d =
     (if dgChannel d = [] then d
      else case getLocalGroupState (dgChannel d) (dgManager d) of (g, s) \<Rightarrow>
        d\<lparr>dgGroup := g, dgManager := s, dgServer := (case answer of HttpOk ms \<Rightarrow> ms | _ \<Rightarrow> dgServer d)\<rparr>)"

definition openGroupDialog :: "serverMember list http \<Rightarrow> groupDialog \<Rightarrow> groupDialog" where
  "openGroupDialog answer d = (loadGroupData answer d)\<lparr>dgStatus := None, dgTyped := []\<rparr>"

text \<open>\<open>some\<close> over the shown members, without case; an entry without an identifier throws.\<close>

fun knownMember :: "string \<Rightarrow> channelMember list \<Rightarrow> bool option" where
  "knownMember target [] = Some False"
| "knownMember target (m # ms) =
     (case cmUserId m of
        None \<Rightarrow> None
      | Some u \<Rightarrow> if toLowerCase u = toLowerCase target then Some True else knownMember target ms)"

definition handleAddMember ::
  "mlsCrypto \<Rightarrow> int \<Rightarrow> bytes \<Rightarrow> (string \<Rightarrow> keyPackageAnswer http) \<Rightarrow> bool \<Rightarrow> serverMember list http \<Rightarrow> groupDialog \<Rightarrow> groupDialog" where
  "handleAddMember c now randomSecret fetch wsSend answer d =
     (let target = trim (dgTyped d)
      in if target = [] then d
         else case knownMember target (combinedMembers (dgGroup d) (dgServer d)) of
                None \<Rightarrow> d
              | Some True \<Rightarrow> d\<lparr>dgStatus := Some MemberAlready\<rparr>
              | Some False \<Rightarrow>
                  (case addMember c now randomSecret fetch (dgChannel d) target (dgMe d) (dgToken d) wsSend (dgManager d) of
                     Rejected \<Rightarrow> d\<lparr>dgStatus := Some AddFailed\<rparr>
                   | Done (st, s, outs) \<Rightarrow>
                       loadGroupData answer
                         (d\<lparr>dgGroup := Some st, dgManager := s, dgSent := dgSent d @ outs, dgTyped := [],
                            dgStatus := Some (MemberAdded target (epoch st))\<rparr>)))"

definition handleRemoveMember ::
  "mlsCrypto \<Rightarrow> int \<Rightarrow> bool \<Rightarrow> bool \<Rightarrow> serverMember list http \<Rightarrow> string \<Rightarrow> groupDialog \<Rightarrow> groupDialog" where
  "handleRemoveMember c now confirmed wsSend answer target d =
     (if \<not> confirmed then d
      else case removeMember c now (dgChannel d) (dgMe d) target (Some (dgToken d)) wsSend (dgManager d) of
             Rejected \<Rightarrow> d\<lparr>dgStatus := Some RemoveFailed\<rparr>
           | Done (None, s, outs) \<Rightarrow> d\<lparr>dgManager := s, dgSent := dgSent d @ outs, dgStatus := Some RemoveFailed\<rparr>
           | Done (Some st, s, outs) \<Rightarrow>
               loadGroupData answer
                 (d\<lparr>dgGroup := Some st, dgManager := s, dgSent := dgSent d @ outs,
                    dgStatus := Some (MemberRemoved target (epoch st))\<rparr>))"

definition handleLeaveGroup :: "mlsCrypto \<Rightarrow> int \<Rightarrow> bool \<Rightarrow> bool \<Rightarrow> unit http \<Rightarrow> groupDialog \<Rightarrow> groupDialog" where
  "handleLeaveGroup c now confirmed wsSend answer d =
     (if \<not> confirmed then d
      else case leaveGroup c now answer (dgChannel d) (dgMe d) (dgToken d) wsSend (dgManager d) of (ok, s, outs) \<Rightarrow>
        (let d1 = d\<lparr>dgManager := s, dgSent := dgSent d @ outs\<rparr>
         in if ok then d1\<lparr>dgLeft := True\<rparr> else d1\<lparr>dgStatus := Some LeaveFailed\<rparr>))"

section \<open>What the list shows\<close>

lemma remaining_ids: "set (map cmUserId (remainingEntries seen sms)) = set (map memberId sms) - seen"
  by (induction seen sms rule: remainingEntries.induct) auto

lemma remaining_distinct: "distinct (map cmUserId (remainingEntries seen sms))"
proof (induction seen sms rule: remainingEntries.induct)
  case (2 seen sm sms)
  have "memberId sm \<notin> set (map cmUserId (remainingEntries (insert (memberId sm) seen) sms))" by (simp only: remaining_ids) simp
  with 2 show ?case by auto
qed simp

lemma local_ids: "map cmUserId (map (localEntry sms) ms) = map (Some \<circ> leafUserId) ms"
  by (simp add: localEntry_def Let_def)

lemma combined_map:
  "map cmUserId (combinedMembers grp sms) = (let ms = (case grp of Some st \<Rightarrow> members st | None \<Rightarrow> [])
     in map (Some \<circ> leafUserId) ms @ map cmUserId (remainingEntries (set (map (Some \<circ> leafUserId) ms)) sms))"
  by (simp only: combinedMembers_def Let_def map_append local_ids)

lemma combined_ids:
  "set (map cmUserId (combinedMembers grp sms))
   = (case grp of Some st \<Rightarrow> Some ` leafUserId ` set (members st) | None \<Rightarrow> {}) \<union> memberId ` set sms"
  unfolding combined_map Let_def by (simp only: set_append remaining_ids) (auto simp: image_comp split: option.split)

text \<open>
  The dialog lists every member of the local group and every member the server names, each once.
\<close>

theorem members_listed_once:
  assumes "\<forall>st. grp = Some st \<longrightarrow> uniqueMembers st"
  shows "distinct (map cmUserId (combinedMembers grp sms))
    \<and> set (map cmUserId (combinedMembers grp sms))
      = (case grp of Some st \<Rightarrow> Some ` leafUserId ` set (members st) | None \<Rightarrow> {}) \<union> memberId ` set sms"
proof -
  have "distinct (map (Some \<circ> leafUserId) (case grp of Some st \<Rightarrow> members st | None \<Rightarrow> []))"
    using assms by (auto simp: uniqueMembers_def distinct_map inj_on_def split: option.split)
  then have "distinct (map cmUserId (combinedMembers grp sms))"
    unfolding combined_map Let_def by (simp only: distinct_append remaining_distinct remaining_ids) blast
  then show ?thesis using combined_ids by simp
qed

section \<open>What the buttons do\<close>

lemma loadGroupData_group:
  assumes "dgChannel d \<noteq> []"
  shows "dgGroup (loadGroupData answer d) = groupView (dgManager d) (dgChannel d)"
    "groupView (dgManager (loadGroupData answer d)) = groupView (dgManager d)"
    "dgStatus (loadGroupData answer d) = dgStatus d" "dgSent (loadGroupData answer d) = dgSent d"
proof -
  obtain g s where e: "getLocalGroupState (dgChannel d) (dgManager d) = (g, s)" by fastforce
  then show "dgGroup (loadGroupData answer d) = groupView (dgManager d) (dgChannel d)"
    "groupView (dgManager (loadGroupData answer d)) = groupView (dgManager d)"
    "dgStatus (loadGroupData answer d) = dgStatus d" "dgSent (loadGroupData answer d) = dgSent d"
    using assms getLocal_view(1) [OF e] getLocal_fst [OF e] by (simp_all add: loadGroupData_def)
qed

lemma addMember_result:
  assumes "addMember c now rs fetch channel user cm tok ws s = Done (st, s', outs)"
  shows "groupView s' channel = Some st \<and> user \<in> leafUserId ` set (members st)
    \<and> (\<forall>old. groupView s channel = Some old \<longrightarrow> groupLe old st)"
  using assms
proof (cases rule: addMember_cases)
  case (1 t s1)
  then show ?thesis using ensureGroup_cases [OF 1(1)] by (auto simp: list_ex_iff)
next
  case (2 t s1 bits commit wel)
  obtain a where a: "cAddedMember commit = Some a" "leafUserId a = user" using 2(8) by auto
  have "user \<in> leafUserId ` set (commitMembers commit (members t))" using 2(7) a by (simp add: commitMembers_def)
  moreover have "groupLe t st" unfolding 2(4) by (rule groupLe_next) simp
  ultimately show ?thesis using 2(4,5) ensureGroup_cases [OF 2(1)] by (auto simp: nextState_def)
qed

text \<open>
  When the dialog reports that it has added a user, the group the manager keeps has this user, the dialog lists
  the user from it, and the group is at the reported epoch, no older than before and still with every user once.
\<close>

theorem added_member_listed:
  assumes "dgChannel d \<noteq> []" "dgStatus d = None"
    and "dgStatus (handleAddMember c now rs fetch ws answer d) = Some (MemberAdded u e)"
    and "d' = handleAddMember c now rs fetch ws answer d"
  shows "\<exists>st. groupView (dgManager d') (dgChannel d) = Some st \<and> epoch st = e \<and> u = trim (dgTyped d)
    \<and> Some u \<in> set (map cmUserId (combinedMembers (dgGroup d') (dgServer d')))
    \<and> (\<forall>old. groupView (dgManager d) (dgChannel d) = Some old \<longrightarrow> epoch old \<le> e \<and> (uniqueMembers old \<longrightarrow> uniqueMembers st))"
proof -
  obtain st s outs where a: "addMember c now rs fetch (dgChannel d) (trim (dgTyped d)) (dgMe d) (dgToken d) ws (dgManager d)
      = Done (st, s, outs)"
    and d': "d' = loadGroupData answer (d\<lparr>dgGroup := Some st, dgManager := s, dgSent := dgSent d @ outs, dgTyped := [],
      dgStatus := Some (MemberAdded (trim (dgTyped d)) (epoch st))\<rparr>)"
    using assms(2-4) by (auto simp: handleAddMember_def Let_def split: if_splits option.splits bool.splits outcome.splits)
  have st: "u = trim (dgTyped d)" "e = epoch st" using assms(1,3) assms(4) [symmetric] d' by (simp_all add: loadGroupData_group)
  note r = addMember_result [OF a]
  have g: "dgGroup d' = Some st" "groupView (dgManager d') (dgChannel d) = Some st"
    using assms(1) r by (simp_all add: d' loadGroupData_group)
  have "Some u \<in> set (map cmUserId (combinedMembers (dgGroup d') (dgServer d')))"
    using r by (auto simp: g(1) st(1) combinedMembers_def localEntry_def Let_def)
  then show ?thesis using g r st by (auto simp: groupLe_def)
qed

text \<open>
  Once the dialog reports that it has removed a user, the manager's group no longer has the user, and the dialog's
  list names the user only where the server still does.
\<close>

theorem removed_member_gone:
  assumes "dgChannel d \<noteq> []" "dgStatus d = None" "u \<noteq> []"
    and "dgStatus (handleRemoveMember c now True ws answer u d) = Some (MemberRemoved u e)"
    and "d' = handleRemoveMember c now True ws answer u d"
  shows "\<exists>st old. groupView (dgManager d') (dgChannel d) = Some st \<and> dgGroup d' = Some st
    \<and> groupView (dgManager d) (dgChannel d) = Some old \<and> e = epoch old + 1 \<and> epoch st = e
    \<and> leafUserId ` set (members st) = leafUserId ` set (members old) - {u}
    \<and> (Some u \<in> set (map cmUserId (combinedMembers (dgGroup d') (dgServer d'))) \<longleftrightarrow> Some u \<in> memberId ` set (dgServer d'))"
proof -
  obtain st s outs where a: "removeMember c now (dgChannel d) (dgMe d) u (Some (dgToken d)) ws (dgManager d) = Done (Some st, s, outs)"
    and d': "d' = loadGroupData answer (d\<lparr>dgGroup := Some st, dgManager := s, dgSent := dgSent d @ outs,
      dgStatus := Some (MemberRemoved u (epoch st))\<rparr>)"
    using assms(2,4,5) by (auto simp: handleRemoveMember_def split: outcome.splits option.splits)
  have e: "e = epoch st" using assms(1,4) assms(5) [symmetric] d' by (simp add: loadGroupData_group)
  obtain outs' where adv: "advanceEpoch c now (dgChannel d) (dgMe d) (Some u) (Some (dgToken d)) ws (dgManager d) = Done (Some st, s, outs')"
    using a by (auto simp: removeMember_def split: outcome.splits)
  show ?thesis
    using adv
  proof (cases rule: advanceEpoch_cases)
    case (2 old secretHex commit)
    have t: "truthy (Some u)" using assms(3) by (simp add: truthy_def)
    have st: "members st = filter (\<lambda>m. leafUserId m \<noteq> u) (members old)" "epoch st = epoch old + 1"
      using 2(3,6) t by (simp_all add: nextState_def commitMembers_def)
    have g: "dgGroup d' = Some st" "groupView (dgManager d') (dgChannel d) = Some st"
      using assms(1) 2(4) by (simp_all add: d' loadGroupData_group)
    have m: "leafUserId ` set (members st) = leafUserId ` set (members old) - {u}" by (auto simp: st(1))
    have "set (map cmUserId (combinedMembers (Some st) (dgServer d'))) = Some ` leafUserId ` set (members st) \<union> memberId ` set (dgServer d')"
      by (simp only: combined_ids) simp
    then have "Some u \<in> set (map cmUserId (combinedMembers (dgGroup d') (dgServer d'))) \<longleftrightarrow> Some u \<in> memberId ` set (dgServer d')"
      unfolding g(1) m by auto
    then show ?thesis using g m 2(1) st(2) e by blast
  qed simp
qed

section \<open>Examples\<close>

definition demoGroupDialog :: groupDialog where
  "demoGroupDialog = \<lparr>dgChannel = ''c'', dgMe = ''alice'', dgToken = [], dgGroup = None, dgServer = [],
     dgTyped = ''zed'', dgStatus = None, dgLeft = False,
     dgManager = exampleMls\<lparr>groupCache := [(''c'', exampleGroup\<lparr>groupId := ''c'', members :=
       [\<lparr>leafIndex = 0, leafUserId = ''alice'', leafPublicKeyHex = []\<rparr>]\<rparr>)]\<rparr>, dgSent = []\<rparr>"

lemma demo_group_keys:
  "nextSecretBits exampleCrypto ''c'' e (bytesToHex [1, 2]) = Some ([1, 2] @ textEncode (''mls_epoch_salt_'' @ numString e))"
  by (simp add: nextSecretBits_def hexMatch_bytesToHex exampleCrypto_def)

lemma demo_local: "getLocalGroupState ''c'' (dgManager demoGroupDialog) = (jsGet (groupCache (dgManager demoGroupDialog)) ''c'', dgManager demoGroupDialog)"
  by (simp add: getLocalGroupState_def demoGroupDialog_def jsGet_def)

lemma demo_cache: "jsGet (groupCache (dgManager demoGroupDialog)) ''c''
    = Some (exampleGroup\<lparr>groupId := ''c'', members := [\<lparr>leafIndex = 0, leafUserId = ''alice'', leafPublicKeyHex = []\<rparr>]\<rparr>)"
  by (simp add: demoGroupDialog_def jsGet_def)

lemma demo_fields: "dgChannel demoGroupDialog = ''c''" "dgStatus demoGroupDialog = None" "dgTyped demoGroupDialog = ''zed''"
  "dgGroup demoGroupDialog = None" "dgServer demoGroupDialog = []"
  by (simp_all add: demoGroupDialog_def)

lemma demo_epoch: "epoch exampleGroup = 0" "epochSecretHex exampleGroup = bytesToHex [1, 2]"
  by (simp_all add: exampleGroup_def)

theorem members_listed_once_witness:
  "distinct (map cmUserId (combinedMembers (jsGet (groupCache (dgManager demoGroupDialog)) ''c'')
      [\<lparr>smUserIdSnake = Some ''alice'', smUserIdCamel = None, smRole = NoRole\<rparr>]))"
  by (rule members_listed_once [THEN conjunct1]) (simp add: demoGroupDialog_def jsGet_def uniqueMembers_def)

lemma demo_adds:
  "dgStatus (handleAddMember exampleCrypto 0 [] (\<lambda>u. NetFail) False NetFail demoGroupDialog) = Some (MemberAdded ''zed'' 1)"
proof -
  have t: "trim ''zed'' = ''zed''" by code_simp
  show ?thesis
    by (simp add: handleAddMember_def t Let_def demo_fields combinedMembers_def addMember_def ensureGroup_def
        demo_local demo_cache loadGroupData_group demo_group_keys demo_epoch)
qed

theorem added_member_listed_witness:
  "\<exists>st. groupView (dgManager (handleAddMember exampleCrypto 0 [] (\<lambda>u. NetFail) False NetFail demoGroupDialog)) ''c'' = Some st"
  using added_member_listed [OF _ _ demo_adds refl] by (auto simp: demo_fields)

lemma demo_removes:
  "dgStatus (handleRemoveMember exampleCrypto 0 True False NetFail ''alice'' demoGroupDialog) = Some (MemberRemoved ''alice'' 1)"
  by (simp add: handleRemoveMember_def demo_fields removeMember_def advanceEpoch_def nextSecret_def demo_local demo_cache
      loadGroupData_group demo_group_keys demo_epoch Let_def)

theorem removed_member_gone_witness:
  "\<exists>st. dgGroup (handleRemoveMember exampleCrypto 0 True False NetFail ''alice'' demoGroupDialog) = Some st
    \<and> ''alice'' \<notin> leafUserId ` set (members st)"
  using removed_member_gone [OF _ _ _ demo_removes refl] by (auto simp: demo_fields)

end
