(* ===== verification/Attachment_View.thy ===== *)
theory Attachment_View
  imports Media Event_Loop
begin

text \<open>
  How attachments are opened: \<open>packages/client-web/src/components/FileAttachmentCard.tsx\<close> and \<open>VoiceNotePlayer.tsx\<close>
  over \<open>Media\<close>. A file is fetched and decrypted when it is first needed; an address that has expired is renewed once.
  Times are rationals; the sine of the bars for a note without a waveform is a parameter.
\<close>

section \<open>Opening on demand\<close>

text \<open>\<open>renew\<close> is the callback of the page, if it gave one.\<close>

definition downloadCipher ::
  "mediaNet \<Rightarrow> (string \<Rightarrow> transferError + string) option \<Rightarrow> AttachmentMetadata \<Rightarrow> transferError + bytes" where
  "downloadCipher net renew m =
     (case onFetch net (downloadUrl m) of
        NetFail \<Rightarrow> Inl NetworkError
      | HttpOk ct \<Rightarrow> Inr ct
      | HttpError st \<Rightarrow>
          (case renew of
             None \<Rightarrow> Inl (ServerError st)
           | Some f \<Rightarrow>
               (case f (blobId m) of
                  Inl e \<Rightarrow> Inl e
                | Inr u \<Rightarrow>
                    (case onFetch net u of
                       NetFail \<Rightarrow> Inl NetworkError
                     | HttpError st' \<Rightarrow> Inl (ServerError st')
                     | HttpOk ct \<Rightarrow> Inr ct))))"

definition decryptedUrl ::
  "aead \<Rightarrow> mediaNet \<Rightarrow> (string \<Rightarrow> transferError + string) option \<Rightarrow> (bytes \<times> string \<Rightarrow> string) \<Rightarrow> AttachmentMetadata \<Rightarrow> string
    \<Rightarrow> transferError + string" where
  "decryptedUrl a net renew createObjectURL m mime =
     (case downloadCipher net renew m of
        Inl e \<Rightarrow> Inl e
      | Inr ct \<Rightarrow>
          (case decryptFile a createObjectURL ct (keyOfFile m) (ivOfFile m) mime of
             None \<Rightarrow> Inl CannotDecrypt
           | Some u \<Rightarrow> Inr u))"

section \<open>The card of a file\<close>

record fileCard =
  cardUrl :: "string option"
  cardPlaying :: bool
  cardAudio :: "string option"
  cardSaved :: "(string \<times> string) list"

definition cardMime :: "AttachmentMetadata \<Rightarrow> string" where
  "cardMime m = strOrElse (mimeType m) ''application/octet-stream''"

definition cardName :: "AttachmentMetadata \<Rightarrow> string" where
  "cardName m = strOrElse (case fileName m of Some n \<Rightarrow> n | None \<Rightarrow> []) (strOrElse (blobId m) ''attachment'')"

definition hasExtension :: "string list \<Rightarrow> string \<Rightarrow> bool" where
  "hasExtension exts name \<longleftrightarrow> list_ex (\<lambda>e. endsWith (toLowerCase name) (CHR ''.'' # e)) exts"

definition isVideo :: "AttachmentMetadata \<Rightarrow> bool" where
  "isVideo m \<longleftrightarrow> startsWith (cardMime m) ''video/''"

definition isAudio :: "AttachmentMetadata \<Rightarrow> bool" where
  "isAudio m \<longleftrightarrow> startsWith (cardMime m) ''audio/''"

definition isPdf :: "AttachmentMetadata \<Rightarrow> bool" where
  "isPdf m \<longleftrightarrow> cardMime m = ''application/pdf'' \<or> endsWith (toLowerCase (cardName m)) ''.pdf''"

definition isArchive :: "AttachmentMetadata \<Rightarrow> bool" where
  "isArchive m \<longleftrightarrow> list_ex (strIncludes (cardMime m)) [''zip'', ''tar'', ''rar'', ''compressed'']
     \<or> hasExtension [''zip'', ''tar'', ''gz'', ''rar'', ''7z''] (cardName m)"

definition isCode :: "AttachmentMetadata \<Rightarrow> bool" where
  "isCode m \<longleftrightarrow> list_ex (strIncludes (cardMime m)) [''javascript'', ''typescript'', ''json'', ''html'']
     \<or> hasExtension [''ts'', ''tsx'', ''js'', ''jsx'', ''json'', ''go'', ''rs'', ''py'', ''c'', ''cpp'', ''h'', ''css'',
         ''html'', ''md'', ''sql''] (cardName m)"

text \<open>\<open>(n / d).toFixed(1)\<close>: the nearest tenth, upwards when two are as near\<close>

definition toFixed1 :: "nat \<Rightarrow> nat \<Rightarrow> string" where
  "toFixed1 n d = (let t = (20 * n + d) div (2 * d) in decimal (t div 10) @ ''.'' @ decimal (t mod 10))"

definition formatSize :: "nat \<Rightarrow> string" where
  "formatSize n =
     (if n = 0 then ''0 B''
      else if n < 1024 then decimal n @ '' B''
      else if n < 1024 * 1024 then toFixed1 n 1024 @ '' KB''
      else toFixed1 n (1024 * 1024) @ '' MB'')"

definition getDecryptedUrl ::
  "aead \<Rightarrow> mediaNet \<Rightarrow> (string \<Rightarrow> transferError + string) option \<Rightarrow> (bytes \<times> string \<Rightarrow> string) \<Rightarrow> AttachmentMetadata
    \<Rightarrow> fileCard \<Rightarrow> (transferError + string) \<times> fileCard" where
  "getDecryptedUrl a net renew createObjectURL m s =
     (case cardUrl s of
        Some u \<Rightarrow> (Inr u, s)
      | None \<Rightarrow>
          (case decryptedUrl a net renew createObjectURL m (cardMime m) of
             Inl e \<Rightarrow> (Inl e, s)
           | Inr u \<Rightarrow> (Inr u, s\<lparr>cardUrl := Some u\<rparr>)))"

definition handleDownload ::
  "aead \<Rightarrow> mediaNet \<Rightarrow> (string \<Rightarrow> transferError + string) option \<Rightarrow> (bytes \<times> string \<Rightarrow> string) \<Rightarrow> AttachmentMetadata
    \<Rightarrow> fileCard \<Rightarrow> fileCard" where
  "handleDownload a net renew createObjectURL m s =
     (case getDecryptedUrl a net renew createObjectURL m s of
        (Inl e, s1) \<Rightarrow> s1
      | (Inr u, s1) \<Rightarrow> s1\<lparr>cardSaved := cardSaved s1 @ [(cardName m, u)]\<rparr>)"

text \<open>\<open>plays\<close>: the browser plays the source; otherwise the error is only logged.\<close>

definition toggleAudioPlay ::
  "aead \<Rightarrow> mediaNet \<Rightarrow> (string \<Rightarrow> transferError + string) option \<Rightarrow> (bytes \<times> string \<Rightarrow> string) \<Rightarrow> bool \<Rightarrow> AttachmentMetadata
    \<Rightarrow> fileCard \<Rightarrow> fileCard" where
  "toggleAudioPlay a net renew createObjectURL plays m s =
     (case getDecryptedUrl a net renew createObjectURL m s of
        (Inl e, s1) \<Rightarrow> s1
      | (Inr u, s1) \<Rightarrow>
          if cardPlaying s1 then s1\<lparr>cardPlaying := False\<rparr>
          else if plays then s1\<lparr>cardAudio := Some u, cardPlaying := True\<rparr>
          else s1\<lparr>cardAudio := Some u\<rparr>)"

section \<open>The player of voice notes\<close>

record voicePlayer =
  vpUrl :: "string option"
  vpPlaying :: bool
  vpTime :: rat
  vpDuration :: rat
  vpRate :: rat
  vpSource :: string
  vpAudioTime :: rat
  vpAudioRate :: rat
  vpSaved :: "(string \<times> string) list"

definition newPlayer :: "string option \<Rightarrow> AttachmentMetadata \<Rightarrow> voicePlayer" where
  "newPlayer decrypted m =
     \<lparr>vpUrl = decrypted, vpPlaying = False, vpTime = 0,
      vpDuration = (case durationSec m of Some n \<Rightarrow> of_int n | None \<Rightarrow> 0), vpRate = 1, vpSource = [], vpAudioTime = 0,
      vpAudioRate = 1, vpSaved = []\<rparr>"

text \<open>The effect that takes over an address the page has decrypted meanwhile\<close>

definition parentUrl :: "string option \<Rightarrow> voicePlayer \<Rightarrow> voicePlayer" where
  "parentUrl decrypted s = (if vpUrl s = None then s\<lparr>vpUrl := decrypted\<rparr> else s)"

definition waveSeed :: "string \<Rightarrow> nat" where
  "waveSeed blob = sum_list (map of_char (strOrElse blob ''seed''))"

definition fallbackBar :: "(rat \<Rightarrow> rat) \<Rightarrow> nat \<Rightarrow> nat \<Rightarrow> rat" where
  "fallbackBar sinPi seed i =
     min 1 (max (15 / 100) (sinPi (of_nat i / 31) * (7 / 10) + of_nat (seed * (i + 1) mod 10) / 30))"

definition waveformBars :: "(rat \<Rightarrow> rat) \<Rightarrow> AttachmentMetadata \<Rightarrow> json list + rat list" where
  "waveformBars sinPi m =
     (case waveform m of
        Some (JArr (x # xs)) \<Rightarrow> Inl (x # xs)
      | _ \<Rightarrow> Inr (map (fallbackBar sinPi (waveSeed (blobId m))) [0..<32]))"

definition formatTime :: "rat \<Rightarrow> string" where
  "formatTime secs =
     (if secs = 0 then ''0:00''
      else numString \<lfloor>secs / 60\<rfloor> @ '':'' @ padStart 2 (CHR ''0'') (numString (\<lfloor>secs\<rfloor> mod 60)))"

definition ensureDecrypted ::
  "aead \<Rightarrow> mediaNet \<Rightarrow> (string \<Rightarrow> transferError + string) option \<Rightarrow> (bytes \<times> string \<Rightarrow> string) \<Rightarrow> AttachmentMetadata
    \<Rightarrow> voicePlayer \<Rightarrow> (transferError + string) \<times> voicePlayer" where
  "ensureDecrypted a net renew createObjectURL m s =
     (case vpUrl s of
        Some u \<Rightarrow> (Inr u, s)
      | None \<Rightarrow>
          (case decryptedUrl a net renew createObjectURL m (strOrElse (mimeType m) ''audio/webm'') of
             Inl e \<Rightarrow> (Inl e, s)
           | Inr u \<Rightarrow> (Inr u, s\<lparr>vpUrl := Some u\<rparr>)))"

definition togglePlayPause ::
  "aead \<Rightarrow> mediaNet \<Rightarrow> (string \<Rightarrow> transferError + string) option \<Rightarrow> (bytes \<times> string \<Rightarrow> string) \<Rightarrow> bool \<Rightarrow> AttachmentMetadata
    \<Rightarrow> voicePlayer \<Rightarrow> voicePlayer" where
  "togglePlayPause a net renew createObjectURL plays m s =
     (if vpPlaying s then s\<lparr>vpPlaying := False\<rparr>
      else case ensureDecrypted a net renew createObjectURL m s of
             (Inl e, s1) \<Rightarrow> s1\<lparr>vpPlaying := False\<rparr>
           | (Inr u, s1) \<Rightarrow> s1\<lparr>vpSource := u, vpAudioRate := vpRate s1, vpPlaying := plays\<rparr>)"

definition handleTimeUpdate :: "rat \<Rightarrow> voicePlayer \<Rightarrow> voicePlayer" where
  "handleTimeUpdate t s = s\<lparr>vpAudioTime := t, vpTime := t\<rparr>"

text \<open>\<open>None\<close>: the length is not a number, or zero.\<close>

definition handleLoadedMetadata :: "rat option \<Rightarrow> voicePlayer \<Rightarrow> voicePlayer" where
  "handleLoadedMetadata len s =
     (case len of Some d \<Rightarrow> if d \<noteq> 0 then s\<lparr>vpDuration := of_int (mathRound d)\<rparr> else s | None \<Rightarrow> s)"

definition handleEnded :: "voicePlayer \<Rightarrow> voicePlayer" where
  "handleEnded s = s\<lparr>vpPlaying := False, vpTime := 0, vpAudioTime := 0\<rparr>"

definition handleWaveformClick :: "rat \<Rightarrow> rat \<Rightarrow> bool \<Rightarrow> voicePlayer \<Rightarrow> voicePlayer" where
  "handleWaveformClick clickX width plays s =
     (let fraction = max 0 (min 1 (clickX / width));
          target = fraction * (if vpDuration s \<noteq> 0 then vpDuration s else 1);
          s1 = s\<lparr>vpTime := target, vpAudioTime := target\<rparr>
      in if \<not> vpPlaying s \<and> vpUrl s \<noteq> None \<and> plays then s1\<lparr>vpPlaying := True\<rparr> else s1)"

definition togglePlaybackRate :: "voicePlayer \<Rightarrow> voicePlayer" where
  "togglePlaybackRate s =
     (let rates = [1, 3 / 2, 2];
          here = (if vpRate s = 1 then 0 else if vpRate s = 3 / 2 then 1 else if vpRate s = 2 then 2 else -1);
          r = rates ! nat ((here + 1) mod (3 :: int))
      in s\<lparr>vpRate := r, vpAudioRate := r\<rparr>)"

definition saveVoiceNote ::
  "aead \<Rightarrow> mediaNet \<Rightarrow> (string \<Rightarrow> transferError + string) option \<Rightarrow> (bytes \<times> string \<Rightarrow> string) \<Rightarrow> AttachmentMetadata
    \<Rightarrow> voicePlayer \<Rightarrow> voicePlayer" where
  "saveVoiceNote a net renew createObjectURL m s =
     (case ensureDecrypted a net renew createObjectURL m s of
        (Inl e, s1) \<Rightarrow> s1
      | (Inr u, s1) \<Rightarrow>
          s1\<lparr>vpSaved := vpSaved s1 @ [(strOrElse (case fileName m of Some n \<Rightarrow> n | None \<Rightarrow> []) ''voice-note.webm'', u)]\<rparr>)"

definition playerProgress :: "voicePlayer \<Rightarrow> rat" where
  "playerProgress s = (if vpDuration s > 0 then min 1 (vpTime s / vpDuration s) else 0)"

datatype playerEvent =
    PToggle bool | PTime rat | PLoaded "rat option" | PEnded | PSeek rat rat bool | PRate | PParent "string option" | PSave

fun playerStep ::
  "aead \<Rightarrow> mediaNet \<Rightarrow> (string \<Rightarrow> transferError + string) option \<Rightarrow> (bytes \<times> string \<Rightarrow> string) \<Rightarrow> AttachmentMetadata
    \<Rightarrow> playerEvent \<Rightarrow> voicePlayer \<Rightarrow> voicePlayer" where
  "playerStep a net renew co m (PToggle plays) s = togglePlayPause a net renew co plays m s"
| "playerStep a net renew co m (PTime t) s = handleTimeUpdate t s"
| "playerStep a net renew co m (PLoaded d) s = handleLoadedMetadata d s"
| "playerStep a net renew co m PEnded s = handleEnded s"
| "playerStep a net renew co m (PSeek x w plays) s = handleWaveformClick x w plays s"
| "playerStep a net renew co m PRate s = togglePlaybackRate s"
| "playerStep a net renew co m (PParent u) s = parentUrl u s"
| "playerStep a net renew co m PSave s = saveVoiceNote a net renew co m s"

section \<open>Properties\<close>

text \<open>
  A file that was uploaded opens, whoever has its metadata: the card gives the bytes of the file with its type, also
  when the address has expired and the service renews it; opened again it needs no network.
\<close>

theorem uploaded_attachment_opens:
  assumes "aeadCorrect a" "k \<noteq> []" "iv \<noteq> []" "uploadEncryptedAttachment a net base k iv f opts = (Inr m, rs)"
    and "\<And>p t x. PutObject p t x \<in> set rs \<Longrightarrow> onFetch net' (downloadUrl m) = HttpOk x
      \<or> (\<exists>st u. onFetch net' (downloadUrl m) = HttpError st \<and> fst (getDownloadUrl net' base (blobId m)) = Inr u
           \<and> onFetch net' u = HttpOk x)"
    and "cardUrl c0 = None"
    and "opened = getDecryptedUrl a net' (Some (\<lambda>b. fst (getDownloadUrl net' base b))) createObjectURL m c0"
  shows "fst opened = Inr (createObjectURL (fileBytes f, strOrElse (fileType f) ''application/octet-stream''))
    \<and> fst (getDecryptedUrl a net2 renew2 createObjectURL m (snd opened)) = fst opened"
proof -
  note u = uploaded_fields [OF assms(4)]
  obtain p where p: "PutObject p ''application/octet-stream'' (seal a k iv [] (fileBytes f)) \<in> set rs" using u(1) by blast
  have d: "downloadCipher net' (Some (\<lambda>b. fst (getDownloadUrl net' base b))) m = Inr (seal a k iv [] (fileBytes f))"
    using assms(5) [OF p] by (auto simp: downloadCipher_def)
  have mime: "cardMime m = strOrElse (fileType f) ''application/octet-stream''"
    using u(6) by (simp add: cardMime_def strOrElse_def)
  have "decryptedUrl a net' (Some (\<lambda>b. fst (getDownloadUrl net' base b))) createObjectURL m (cardMime m)
      = Inr (createObjectURL (fileBytes f, cardMime m))"
    using assms(1-3) u(2,3) by (simp add: decryptedUrl_def d decryptFile_def hexMatch_bytesToHex)
  then show ?thesis by (simp add: assms(6,7) getDecryptedUrl_def mime)
qed

definition playerOk :: "voicePlayer \<Rightarrow> bool" where
  "playerOk s \<longleftrightarrow> vpRate s \<in> {1, 3 / 2, 2} \<and> 0 \<le> vpTime s \<and> 0 \<le> vpDuration s"

text \<open>What the browser reports: times and lengths are not negative.\<close>

fun plausible :: "playerEvent \<Rightarrow> bool" where
  "plausible (PTime t) \<longleftrightarrow> 0 \<le> t"
| "plausible (PLoaded (Some d)) \<longleftrightarrow> 0 \<le> d"
| "plausible _ \<longleftrightarrow> True"

lemma playerOk_decrypted: "playerOk (snd (ensureDecrypted a net renew co m s)) \<longleftrightarrow> playerOk s"
  by (simp add: ensureDecrypted_def playerOk_def split: option.split sum.split)

lemma playerOk_step:
  assumes "playerOk s" "plausible ev"
  shows "playerOk (playerStep a net renew co m ev s)"
proof (cases ev)
  case (PToggle plays)
  then show ?thesis using assms(1) playerOk_decrypted [of a net renew co m s]
    by (auto simp: togglePlayPause_def playerOk_def split: prod.splits sum.splits)
next
  case PSave
  then show ?thesis using assms(1) playerOk_decrypted [of a net renew co m s]
    by (auto simp: saveVoiceNote_def playerOk_def split: prod.splits sum.splits)
next
  case (PLoaded len)
  then show ?thesis using assms by (cases len) (auto simp: handleLoadedMetadata_def playerOk_def mathRound_def)
next
  case PRate
  then show ?thesis using assms(1) by (auto simp: togglePlaybackRate_def playerOk_def Let_def)
qed (use assms in \<open>auto simp: playerOk_def handleTimeUpdate_def handleEnded_def handleWaveformClick_def parentUrl_def Let_def\<close>)

text \<open>
  Whatever is clicked and reported, the progress that is shown stays between 0 and 1, and the speed is one of the three
  of the button.
\<close>

theorem player_within_note:
  assumes "list_all plausible es" "\<forall>n. durationSec m = Some n \<longrightarrow> 0 \<le> n"
    and "s = fold (playerStep a net renew co m) es (newPlayer decrypted m)"
  shows "0 \<le> playerProgress s \<and> playerProgress s \<le> 1 \<and> vpRate s \<in> {1, 3 / 2, 2}"
proof -
  have "playerOk s0 \<Longrightarrow> playerOk (fold (playerStep a net renew co m) es s0)" for s0
    using assms(1) by (induction es arbitrary: s0) (simp_all add: playerOk_step)
  moreover have "playerOk (newPlayer decrypted m)"
    using assms(2) by (auto simp: newPlayer_def playerOk_def split: option.split)
  ultimately have "playerOk s" by (simp add: assms(3))
  then show ?thesis by (auto simp: playerOk_def playerProgress_def)
qed

section \<open>Examples\<close>

definition emptyCard :: fileCard where
  "emptyCard = \<lparr>cardUrl = None, cardPlaying = False, cardAudio = None, cardSaved = []\<rparr>"

definition sampleMeta :: AttachmentMetadata where
  "sampleMeta = attachmentOf (encryptFile tagAead [5] [1] sampleFile) noOptions sampleFile ''f1'' ''/get''"

lemma sample_upload:
  "uploadEncryptedAttachment tagAead sampleNet ''/media'' [5] [1] sampleFile noOptions =
    (Inr sampleMeta, [PostUpload (getEndpoint ''/media'' ''upload'') ''application/octet-stream'' 4,
       PutObject ''/put'' ''application/octet-stream'' [5, 1, 7, 8]])"
  by (simp add: uploadEncryptedAttachment_def Let_def sampleNet_def encryptFile_def sampleFile_def tagAead_def blobIdOf_def
      strOrElse_def sampleMeta_def)

theorem uploaded_attachment_opens_witness:
  "fst (getDecryptedUrl tagAead (sampleNet\<lparr>onFetch := \<lambda>u. if u = ''/get'' then HttpError 403 else HttpOk [5, 1, 7, 8],
       onUrl := \<lambda>u. HttpOk (Some ''/new'')\<rparr>)
     (Some (\<lambda>b. fst (getDownloadUrl (sampleNet\<lparr>onFetch := \<lambda>u. if u = ''/get'' then HttpError 403 else HttpOk [5, 1, 7, 8],
       onUrl := \<lambda>u. HttpOk (Some ''/new'')\<rparr>) ''/media'' b))) (\<lambda>x. snd x @ bytesToHex (fst x)) sampleMeta emptyCard)
   = Inr (''image/png'' @ bytesToHex [7, 8])"
proof -
  have r: "onFetch (sampleNet\<lparr>onFetch := \<lambda>u. if u = ''/get'' then HttpError 403 else HttpOk [5, 1, 7, 8],
       onUrl := \<lambda>u. HttpOk (Some ''/new'')\<rparr>) (downloadUrl sampleMeta) = HttpError 403"
    by (simp add: sampleMeta_def attachmentOf_def)
  show ?thesis
    by (rule uploaded_attachment_opens [OF tagAead_ok(1) _ _ sample_upload _ _ refl, THEN conjunct1, THEN trans])
      (simp_all add: r emptyCard_def sampleFile_def getDownloadUrl_def strOrElse_def)
qed

theorem player_within_note_witness:
  "playerProgress (fold (playerStep tagAead sampleNet None (\<lambda>x. []) sampleMeta) [PSeek 3 2 True, PRate] (newPlayer None sampleMeta)) \<le> 1"
  using player_within_note [of "[PSeek 3 2 True, PRate]" sampleMeta, OF _ _ refl, of tagAead sampleNet None "\<lambda>x. []" None]
  by (simp add: sampleMeta_def attachmentOf_def noOptions_def)

end
