(* ===== verification/Service_Worker.thy ===== *)
theory Service_Worker
  imports Kv_Store
begin

text \<open>
  The service worker \<open>packages/client-web/public/sw.js\<close> and the hooks \<open>useNetworkStatus.ts\<close> and
  \<open>useKeyboardShortcuts.ts\<close> of \<open>packages/client-web/src/hooks\<close>. The storage of caches is an ordered map from names to
  ordered maps from addresses to responses; the network is a function of the request. A response is stored in a step of
  its own, because the code does not wait for it.
\<close>

section \<open>Caches\<close>

record cachedResponse =
  rsStatus :: nat
  rsBody :: string

record swRequest =
  rqUrl :: string
  rqPath :: string
  rqProtocol :: string
  rqNavigate :: bool
  rqGet :: bool

record swState =
  swCaches :: "cachedResponse jsmap jsmap"
  swPending :: "(string \<times> cachedResponse) list"

definition cacheName :: string where
  "cacheName = ''genchat-shell-v1.0.0''"

definition staticShell :: "string list" where
  "staticShell = [''/'', ''/index.html'', ''/manifest.json'', ''/icon.svg'']"

definition cacheOf :: "string \<Rightarrow> swState \<Rightarrow> cachedResponse jsmap" where
  "cacheOf name s = (case jsGet (swCaches s) name of Some c \<Rightarrow> c | None \<Rightarrow> [])"

text \<open>\<open>caches.match\<close>: the first cache that has the address; only \<open>GET\<close> requests match.\<close>

fun firstMatch :: "string \<Rightarrow> cachedResponse jsmap jsmap \<Rightarrow> cachedResponse option" where
  "firstMatch u [] = None"
| "firstMatch u (c # cs) = (case jsGet (snd c) u of Some r \<Rightarrow> Some r | None \<Rightarrow> firstMatch u cs)"

section \<open>Installation\<close>

text \<open>\<open>addAll\<close>: every address is fetched; when one fails or is not answered with success, nothing is stored.\<close>

fun fetchAll :: "(string \<Rightarrow> cachedResponse option) \<Rightarrow> string list \<Rightarrow> (string \<times> cachedResponse) list option" where
  "fetchAll net [] = Some []"
| "fetchAll net (u # us) =
     (case net u of
        None \<Rightarrow> None
      | Some r \<Rightarrow>
          if 200 \<le> rsStatus r \<and> rsStatus r < 300 \<and> rsStatus r \<noteq> 206 then map_option (\<lambda>rs. (u, r) # rs) (fetchAll net us) else None)"

definition swInstall :: "string \<Rightarrow> (string \<Rightarrow> cachedResponse option) \<Rightarrow> swState \<Rightarrow> bool \<times> swState" where
  "swInstall origin net s =
     (let s1 = s\<lparr>swCaches := jsSet cacheName (cacheOf cacheName s) (swCaches s)\<rparr>
      in case fetchAll net (map (\<lambda>p. origin @ p) staticShell) of
           None \<Rightarrow> (False, s1)
         | Some rs \<Rightarrow>
             (True, s1\<lparr>swCaches := jsSet cacheName (fold (\<lambda>(u, r). jsSet u r) rs (cacheOf cacheName s1)) (swCaches s1)\<rparr>))"

definition swActivate :: "swState \<Rightarrow> swState" where
  "swActivate s = s\<lparr>swCaches := filter (\<lambda>c. fst c = cacheName) (swCaches s)\<rparr>"

section \<open>Requests\<close>

definition notIntercepted :: "swRequest \<Rightarrow> bool" where
  "notIntercepted q \<longleftrightarrow>
     list_ex (startsWith (rqPath q))
       [''/ws'', ''/chat.v1.'', ''/auth'', ''/media'', ''/v1/media'', ''/readyz'', ''/healthz'']
     \<or> rqProtocol q = ''ws:'' \<or> rqProtocol q = ''wss:''"

definition cacheable :: "swRequest \<Rightarrow> cachedResponse \<Rightarrow> bool" where
  "cacheable q r \<longleftrightarrow> rsStatus r = 200 \<and> (startsWith (rqPath q) ''/assets/'' \<or> endsWith (rqPath q) ''.wasm'')"

text \<open>The browser answers itself, or the worker does; \<open>None\<close> is a failed request.\<close>

datatype swAnswer = ByBrowser | ByWorker "cachedResponse option"

definition swFetch :: "string \<Rightarrow> (string \<Rightarrow> cachedResponse option) \<Rightarrow> swRequest \<Rightarrow> swState \<Rightarrow> swAnswer \<times> swState" where
  "swFetch origin net q s =
     (if notIntercepted q then (ByBrowser, s)
      else if rqNavigate q
      then (ByWorker (case net (rqUrl q) of Some r \<Rightarrow> Some r | None \<Rightarrow> firstMatch (origin @ ''/index.html'') (swCaches s)), s)
      else case (if rqGet q then firstMatch (rqUrl q) (swCaches s) else None) of
             Some r \<Rightarrow> (ByWorker (Some r), s)
           | None \<Rightarrow>
               (case net (rqUrl q) of
                  None \<Rightarrow> (ByWorker None, s)
                | Some r \<Rightarrow>
                    (ByWorker (Some r),
                     if cacheable q r \<and> rqGet q then s\<lparr>swPending := swPending s @ [(rqUrl q, r)]\<rparr> else s)))"

text \<open>A pending response is stored.\<close>

definition swStore :: "nat \<Rightarrow> swState \<Rightarrow> swState" where
  "swStore i s =
     (if i < length (swPending s)
      then case swPending s ! i of (u, r) \<Rightarrow>
        s\<lparr>swCaches := jsSet cacheName (jsSet u r (cacheOf cacheName s)) (swCaches s),
          swPending := take i (swPending s) @ drop (Suc i) (swPending s)\<rparr>
      else s)"

datatype swEvent =
    SwInstall "string \<Rightarrow> cachedResponse option"
  | SwActivate
  | SwFetch "string \<Rightarrow> cachedResponse option" swRequest
  | SwStore nat

fun swStep :: "string \<Rightarrow> swEvent \<Rightarrow> swState \<Rightarrow> swState" where
  "swStep origin (SwInstall net) s = snd (swInstall origin net s)"
| "swStep origin SwActivate s = swActivate s"
| "swStep origin (SwFetch net q) s = snd (swFetch origin net q s)"
| "swStep origin (SwStore i) s = swStore i s"

section \<open>The hooks\<close>

record networkStatus =
  isOnline :: bool
  since :: int
  reconnectCount :: nat
  restoredCalls :: nat

definition newNetworkStatus :: "bool option \<Rightarrow> int \<Rightarrow> networkStatus" where
  "newNetworkStatus onLine now =
     \<lparr>isOnline = (case onLine of Some b \<Rightarrow> b | None \<Rightarrow> True), since = now, reconnectCount = 0, restoredCalls = 0\<rparr>"

definition handleOnline :: "bool \<Rightarrow> int \<Rightarrow> networkStatus \<Rightarrow> networkStatus" where
  "handleOnline hasCallback now s =
     s\<lparr>isOnline := True, since := now, reconnectCount := Suc (reconnectCount s),
       restoredCalls := (if hasCallback then Suc (restoredCalls s) else restoredCalls s)\<rparr>"

definition handleOffline :: "int \<Rightarrow> networkStatus \<Rightarrow> networkStatus" where
  "handleOffline now s = s\<lparr>isOnline := False, since := now\<rparr>"

record shortcutBinding =
  sbKey :: string
  sbMeta :: bool
  sbCtrl :: bool
  sbShift :: bool
  sbAlt :: bool

record keyEventOf =
  evKey :: string
  evMeta :: bool
  evCtrl :: bool
  evShift :: bool
  evAlt :: bool
  evInInput :: bool

definition shortcutMatches :: "bool \<Rightarrow> keyEventOf \<Rightarrow> shortcutBinding \<Rightarrow> bool" where
  "shortcutMatches isMac e b \<longleftrightarrow>
     \<not> (evInInput e \<and> \<not> sbMeta b \<and> \<not> sbCtrl b)
     \<and> toLowerCase (evKey e) = toLowerCase (sbKey b)
     \<and> (sbMeta b \<longrightarrow> (if isMac then evMeta e else evCtrl e))
     \<and> (sbShift b = evShift e) \<and> (sbAlt b = evAlt e)"

text \<open>The first binding that matches; its action runs and the others are not tried.\<close>

definition handleKeyDown :: "bool \<Rightarrow> shortcutBinding list \<Rightarrow> keyEventOf \<Rightarrow> shortcutBinding option" where
  "handleKeyDown isMac shortcuts e = find (shortcutMatches isMac e) shortcuts"

section \<open>What is stored\<close>

definition emptyWorker :: swState where
  "emptyWorker = \<lparr>swCaches = [], swPending = []\<rparr>"

text \<open>The entries that a history may have made\<close>

definition permitted :: "string \<Rightarrow> swEvent list \<Rightarrow> string \<Rightarrow> cachedResponse \<Rightarrow> bool" where
  "permitted origin es u r \<longleftrightarrow>
     (\<exists>net p. SwInstall net \<in> set es \<and> p \<in> set staticShell \<and> u = origin @ p \<and> net u = Some r)
     \<or> (\<exists>net q. SwFetch net q \<in> set es \<and> rqUrl q = u \<and> net u = Some r \<and> cacheable q r \<and> rqGet q \<and> \<not> notIntercepted q)"

definition onlyPermitted :: "string \<Rightarrow> swEvent list \<Rightarrow> swState \<Rightarrow> bool" where
  "onlyPermitted origin es s \<longleftrightarrow>
     (\<forall>nc \<in> set (swCaches s). fst nc = cacheName \<and> (\<forall>x \<in> set (snd nc). permitted origin es (fst x) (snd x)))
     \<and> (\<forall>x \<in> set (swPending s). permitted origin es (fst x) (snd x))"

lemma permitted_mono: "permitted origin es u r \<Longrightarrow> set es \<subseteq> set es' \<Longrightarrow> permitted origin es' u r"
  unfolding permitted_def by blast

lemma set_jsSet: "set (jsSet k v m) \<subseteq> insert (k, v) (set m)"
  unfolding jsSet_def by (induction m) auto

lemma set_cacheOf: "x \<in> set (cacheOf n s) \<Longrightarrow> \<exists>c. (n, c) \<in> set (swCaches s) \<and> x \<in> set c"
  by (cases "map_of (swCaches s) n") (auto simp: cacheOf_def jsGet_def dest: map_of_SomeD)

lemma set_fold_jsSet: "set (fold (\<lambda>(u, r). jsSet u r) rs m) \<subseteq> set m \<union> set rs"
proof (induction rs arbitrary: m)
  case (Cons x rs)
  show ?case using Cons [of "jsSet (fst x) (snd x) m"] set_jsSet [of "fst x" "snd x" m] by (cases x) auto
qed simp

lemma fetchAll_ok: "fetchAll net us = Some rs \<Longrightarrow> (u, r) \<in> set rs \<Longrightarrow> u \<in> set us \<and> net u = Some r"
  by (induction us arbitrary: rs) (auto split: option.splits if_splits)

text \<open>Writing permitted entries into the cache keeps the caches as permitted.\<close>

lemma onlyPermitted_write:
  assumes "onlyPermitted origin es s" "\<forall>x \<in> set c. x \<in> set (cacheOf cacheName s) \<or> permitted origin es (fst x) (snd x)"
  shows "onlyPermitted origin es (s\<lparr>swCaches := jsSet cacheName c (swCaches s)\<rparr>)"
proof -
  have c: "\<forall>x \<in> set c. permitted origin es (fst x) (snd x)"
    using assms set_cacheOf [of _ cacheName s] unfolding onlyPermitted_def by fastforce
  have "\<forall>nc \<in> set (jsSet cacheName c (swCaches s)). fst nc = cacheName \<and> (\<forall>x \<in> set (snd nc). permitted origin es (fst x) (snd x))"
    using assms(1) c set_jsSet [of cacheName c "swCaches s"] unfolding onlyPermitted_def by fastforce
  then show ?thesis using assms(1) by (simp add: onlyPermitted_def)
qed

lemma onlyPermitted_step:
  assumes "onlyPermitted origin es s" "ev \<in> set es"
  shows "onlyPermitted origin es (swStep origin ev s)"
proof (cases ev)
  case (SwInstall net)
  let ?s1 = "s\<lparr>swCaches := jsSet cacheName (cacheOf cacheName s) (swCaches s)\<rparr>"
  have 1: "onlyPermitted origin es ?s1" by (rule onlyPermitted_write [OF assms(1)]) simp
  show ?thesis
  proof (cases "fetchAll net (map (\<lambda>p. origin @ p) staticShell)")
    case None
    then show ?thesis using 1 by (simp add: SwInstall swInstall_def Let_def)
  next
    case (Some rs)
    have "permitted origin es (fst x) (snd x)" if "x \<in> set rs" for x
      using fetchAll_ok [OF Some, of "fst x" "snd x"] that assms(2) SwInstall by (auto simp: permitted_def)
    then have "\<forall>x \<in> set (fold (\<lambda>(u, r). jsSet u r) rs (cacheOf cacheName ?s1)).
        x \<in> set (cacheOf cacheName ?s1) \<or> permitted origin es (fst x) (snd x)"
      using set_fold_jsSet [of rs "cacheOf cacheName ?s1"] by blast
    from onlyPermitted_write [OF 1 this] show ?thesis by (simp add: SwInstall swInstall_def Let_def Some)
  qed
next
  case SwActivate
  then show ?thesis using assms(1) by (auto simp: swActivate_def onlyPermitted_def)
next
  case (SwFetch net q)
  have "permitted origin es (rqUrl q) r" if "net (rqUrl q) = Some r" "cacheable q r" "rqGet q" "\<not> notIntercepted q" for r
    using that assms(2) SwFetch unfolding permitted_def by blast
  then show ?thesis
    using assms(1) by (auto simp: SwFetch swFetch_def onlyPermitted_def split: option.splits)
next
  case (SwStore i)
  show ?thesis
  proof (cases "i < length (swPending s)")
    case True
    obtain u r where ur: "swPending s ! i = (u, r)" by fastforce
    then have "permitted origin es u r" using assms(1) True nth_mem [OF True] by (auto simp: onlyPermitted_def)
    then have "onlyPermitted origin es (s\<lparr>swCaches := jsSet cacheName (jsSet u r (cacheOf cacheName s)) (swCaches s)\<rparr>)"
      using set_jsSet [of u r "cacheOf cacheName s"] by (intro onlyPermitted_write [OF assms(1)]) auto
    then show ?thesis
      using True by (auto simp: SwStore swStore_def ur onlyPermitted_def dest: in_set_takeD in_set_dropD)
  qed (use assms(1) in \<open>simp add: SwStore swStore_def\<close>)
qed

text \<open>
  The worker never keeps an answer of the interfaces: after any history that starts without caches there is one
  cache at most, and it holds only the files of the shell, as an installation fetched them, and successful answers to
  \<open>GET\<close> requests for files under \<open>/assets/\<close> or ending in \<open>.wasm\<close> that the worker may intercept.
\<close>

theorem worker_stores_only_shell:
  assumes "(n, c) \<in> set (swCaches (fold (swStep origin) es emptyWorker))" "(u, r) \<in> set c"
  shows "n = cacheName
    \<and> ((\<exists>net p. SwInstall net \<in> set es \<and> p \<in> set staticShell \<and> u = origin @ p \<and> net u = Some r)
      \<or> (\<exists>net q. SwFetch net q \<in> set es \<and> rqUrl q = u \<and> net u = Some r \<and> cacheable q r \<and> rqGet q \<and> \<not> notIntercepted q))"
proof -
  have "set es' \<subseteq> set es \<Longrightarrow> onlyPermitted origin es s \<Longrightarrow> onlyPermitted origin es (fold (swStep origin) es' s)" for es' s
    by (induction es' arbitrary: s) (simp_all add: onlyPermitted_step)
  from this [of es emptyWorker] have "onlyPermitted origin es (fold (swStep origin) es emptyWorker)"
    by (simp add: onlyPermitted_def emptyWorker_def)
  then show ?thesis using assms unfolding onlyPermitted_def permitted_def by fastforce
qed

section \<open>Starting offline\<close>

text \<open>The address of the index page is that of no other path.\<close>

definition indexUrl :: "string \<Rightarrow> string" where
  "indexUrl origin = origin @ ''/index.html''"

definition sanePath :: "string \<Rightarrow> swEvent \<Rightarrow> bool" where
  "sanePath origin ev \<longleftrightarrow>
     (case ev of SwFetch net q \<Rightarrow> rqUrl q = indexUrl origin \<longrightarrow> rqPath q = ''/index.html'' | SwInstall net \<Rightarrow> False | _ \<Rightarrow> True)"

definition offlineReady :: "string \<Rightarrow> cachedResponse \<Rightarrow> swState \<Rightarrow> bool" where
  "offlineReady origin r s \<longleftrightarrow>
     (\<exists>c. swCaches s = [(cacheName, c)] \<and> jsGet c (indexUrl origin) = Some r)
     \<and> (\<forall>x \<in> set (swPending s). fst x \<noteq> indexUrl origin)"

lemma index_not_cacheable: "rqPath q = ''/index.html'' \<Longrightarrow> \<not> cacheable q r"
  by (simp add: cacheable_def startsWith_def endsWith_def suffix_def)

lemma jsSet_single: "jsSet k v [(k, w)] = [(k, v)]"
  by (simp add: jsSet_def)

lemma offlineReady_step:
  assumes "offlineReady origin r s" "sanePath origin ev"
  shows "offlineReady origin r (swStep origin ev s)"
proof -
  obtain c where c: "swCaches s = [(cacheName, c)]" "jsGet c (indexUrl origin) = Some r"
    and p: "\<forall>x \<in> set (swPending s). fst x \<noteq> indexUrl origin"
    using assms(1) by (auto simp: offlineReady_def)
  have get: "cacheOf cacheName s = c" by (simp add: cacheOf_def c(1) jsGet_def)
  show ?thesis
  proof (cases ev)
    case (SwFetch net q)
    then have "rqUrl q = indexUrl origin \<Longrightarrow> \<not> cacheable q x" for x
      using assms(2) by (intro index_not_cacheable) (simp add: sanePath_def)
    then show ?thesis using c p by (auto simp: SwFetch swFetch_def offlineReady_def split: option.splits)
  next
    case (SwStore i)
    show ?thesis
    proof (cases "i < length (swPending s)")
      case True
      obtain u x where ux: "swPending s ! i = (u, x)" by fastforce
      then have "u \<noteq> indexUrl origin" using p nth_mem [OF True] by auto
      then show ?thesis using True c p
        by (auto simp: SwStore swStore_def ux offlineReady_def get jsSet_single dest: in_set_takeD in_set_dropD)
    qed (use assms(1) in \<open>simp add: SwStore swStore_def\<close>)
  qed (use assms c p in \<open>simp_all add: swActivate_def offlineReady_def sanePath_def\<close>)
qed

lemma fold_jsSet_get:
  "fetchAll net us = Some rs \<Longrightarrow> jsGet (fold (\<lambda>(u, r). jsSet u r) rs m) k = (if k \<in> set us then net k else jsGet m k)"
proof (induction us arbitrary: rs m)
  case (Cons u us)
  then obtain r rs' where r: "net u = Some r" "fetchAll net us = Some rs'" "rs = (u, r) # rs'"
    by (auto split: option.splits if_splits)
  show ?case using Cons.IH [OF r(2), of "jsSet u r m"] r by auto
qed simp

lemma installed_ready:
  assumes "swInstall origin net emptyWorker = (True, s)"
  shows "\<exists>r. net (indexUrl origin) = Some r \<and> offlineReady origin r s"
proof -
  obtain rs where rs: "fetchAll net (map (\<lambda>p. origin @ p) staticShell) = Some rs"
    and s: "s = \<lparr>swCaches = [(cacheName, fold (\<lambda>(u, r). jsSet u r) rs [])], swPending = []\<rparr>"
    using assms by (auto simp: swInstall_def Let_def emptyWorker_def cacheOf_def jsGet_def jsSet_def split: option.splits)
  have i: "indexUrl origin \<in> set (map (\<lambda>p. origin @ p) staticShell)" by (simp add: indexUrl_def staticShell_def)
  have "fetchAll net us = Some rs' \<Longrightarrow> u \<in> set us \<Longrightarrow> net u \<noteq> None" for us rs' u
    by (induction us arbitrary: rs') (auto split: option.splits if_splits)
  from this [OF rs i] obtain r where "net (indexUrl origin) = Some r" by blast
  then show ?thesis using fold_jsSet_get [OF rs, of "[]" "indexUrl origin"] i by (simp add: s offlineReady_def)
qed

text \<open>
  Once installed, the client starts without a network: whatever requests were answered and stored since, and with an
  activation in between, a navigation whose request fails gets the index page as it was when it was installed.
\<close>

theorem offline_navigation:
  assumes "swInstall origin net emptyWorker = (True, s0)" "list_all (sanePath origin) es"
    and "rqNavigate q" "\<not> notIntercepted q" "net' (rqUrl q) = None"
  shows "\<exists>r. net (origin @ ''/index.html'') = Some r
    \<and> fst (swFetch origin net' q (fold (swStep origin) es s0)) = ByWorker (Some r)"
proof -
  obtain r where r: "net (indexUrl origin) = Some r" "offlineReady origin r s0" using installed_ready [OF assms(1)] by blast
  have "offlineReady origin r s \<Longrightarrow> offlineReady origin r (fold (swStep origin) es s)" for s
    using assms(2) by (induction es arbitrary: s) (simp_all add: offlineReady_step)
  from this [OF r(2)] obtain c where "swCaches (fold (swStep origin) es s0) = [(cacheName, c)]" "jsGet c (indexUrl origin) = Some r"
    by (auto simp: offlineReady_def)
  then show ?thesis using assms(3-5) r(1) by (auto simp: swFetch_def indexUrl_def)
qed

text \<open>
  A binding with the control key does not need it: the key alone runs its action, also in a text field, where other
  plain keys are left alone.
\<close>

lemma ctrl_binding_without_ctrl:
  "handleKeyDown False [\<lparr>sbKey = ''k'', sbMeta = False, sbCtrl = True, sbShift = False, sbAlt = False\<rparr>]
     \<lparr>evKey = ''k'', evMeta = False, evCtrl = False, evShift = False, evAlt = False, evInInput = True\<rparr>
   = Some \<lparr>sbKey = ''k'', sbMeta = False, sbCtrl = True, sbShift = False, sbAlt = False\<rparr>"
  by (simp add: handleKeyDown_def shortcutMatches_def)

section \<open>Examples\<close>

definition pageOf :: "string \<Rightarrow> cachedResponse option" where
  "pageOf u = Some \<lparr>rsStatus = 200, rsBody = u\<rparr>"

lemma demo_install: "\<exists>s. swInstall ''o'' pageOf emptyWorker = (True, s)"
  by (simp add: swInstall_def Let_def pageOf_def staticShell_def)

theorem worker_stores_only_shell_witness:
  "\<exists>net p. SwInstall net \<in> set [SwInstall pageOf] \<and> p \<in> set staticShell \<and> ''o/'' = ''o'' @ p
     \<and> net ''o/'' = Some \<lparr>rsStatus = 200, rsBody = ''o/''\<rparr>"
proof -
  have s: "swCaches (fold (swStep ''o'') [SwInstall pageOf] emptyWorker) =
      [(cacheName, map (\<lambda>p. (''o'' @ p, \<lparr>rsStatus = 200, rsBody = ''o'' @ p\<rparr>)) staticShell)]"
    by (simp add: swInstall_def Let_def pageOf_def staticShell_def emptyWorker_def cacheOf_def jsSet_def jsGet_def)
  then show ?thesis
    using worker_stores_only_shell [of cacheName _ "''o''" "[SwInstall pageOf]" "''o/''" "\<lparr>rsStatus = 200, rsBody = ''o/''\<rparr>"]
    by (simp add: staticShell_def)
qed

theorem offline_navigation_witness:
  "\<exists>s0. fst (swFetch ''o'' (\<lambda>u. None) \<lparr>rqUrl = ''o/chat'', rqPath = ''/chat'', rqProtocol = ''https:'', rqNavigate = True, rqGet = True\<rparr> s0)
    = ByWorker (Some \<lparr>rsStatus = 200, rsBody = ''o/index.html''\<rparr>)"
proof -
  obtain s where s: "swInstall ''o'' pageOf emptyWorker = (True, s)" using demo_install by blast
  have "\<exists>r. pageOf (''o'' @ ''/index.html'') = Some r
    \<and> fst (swFetch ''o'' (\<lambda>u. None) \<lparr>rqUrl = ''o/chat'', rqPath = ''/chat'', rqProtocol = ''https:'', rqNavigate = True, rqGet = True\<rparr>
        (fold (swStep ''o'') [SwActivate] s)) = ByWorker (Some r)"
    by (rule offline_navigation [OF s]) (simp_all add: sanePath_def notIntercepted_def startsWith_def)
  then show ?thesis by (auto simp: pageOf_def)
qed

end
