(* ===== verification/Camera_Dialog.thy ===== *)
theory Camera_Dialog
  imports Js_Prelude
begin

text \<open>
  The camera dialog \<open>packages/client-web/src/components/CameraModal.tsx\<close>. The streams of the browser and the requests for
  them are explicit; every run of the effect that starts the camera has the stream that it was given, because its cleanup
  stops that one only.
\<close>

section \<open>State\<close>

datatype cameraFailure = PermissionDenied | NoCamera | OtherFailure

record cameraRun =
  runStream :: "nat option"
  runEnded :: bool

record cameraDialog =
  cdOpen :: bool
  cdStream :: "nat option"
  cdDevices :: "string list"
  cdSelected :: string
  cdFacingUser :: bool
  cdCaptured :: "string option"
  cdPreviews :: nat
  cdError :: "cameraFailure option"
  cdStarting :: bool
  cdLive :: "bool list"
  cdRuns :: "cameraRun list"
  cdAsked :: "nat list"
  cdListings :: nat
  cdTaken :: "string list"

definition stopStream :: "nat option \<Rightarrow> cameraDialog \<Rightarrow> cameraDialog" where
  "stopStream n s = (case n of Some i \<Rightarrow> s\<lparr>cdLive := (cdLive s)[i := False]\<rparr> | None \<Rightarrow> s)"

section \<open>The effect of the camera\<close>

text \<open>A run of the effect asks for a camera; with a picture taken, or closed, it does nothing.\<close>

definition runEffect :: "cameraDialog \<Rightarrow> cameraDialog" where
  "runEffect s =
     (if \<not> cdOpen s \<or> cdCaptured s \<noteq> None then s
      else let s1 = stopStream (cdStream s) (s\<lparr>cdStarting := True, cdError := None\<rparr>)
           in s1\<lparr>cdRuns := cdRuns s1 @ [\<lparr>runStream = None, runEnded = False\<rparr>], cdAsked := cdAsked s1 @ [length (cdRuns s1)]\<rparr>)"

text \<open>The cleanup of the last run, if it has not ended\<close>

definition endEffect :: "cameraDialog \<Rightarrow> cameraDialog" where
  "endEffect s =
     (if cdRuns s = [] \<or> runEnded (last (cdRuns s)) then s
      else stopStream (runStream (last (cdRuns s)))
             (s\<lparr>cdRuns := butlast (cdRuns s) @ [(last (cdRuns s))\<lparr>runEnded := True\<rparr>]\<rparr>))"

definition sameDeps :: "cameraDialog \<Rightarrow> cameraDialog \<Rightarrow> bool" where
  "sameDeps s s' \<longleftrightarrow> cdOpen s = cdOpen s' \<and> cdSelected s = cdSelected s' \<and> cdFacingUser s = cdFacingUser s'
     \<and> cdCaptured s = cdCaptured s'"

text \<open>After a render in which one of its dependencies changed, the effect is cleaned up and runs again.\<close>

definition afterRender :: "cameraDialog \<Rightarrow> cameraDialog \<Rightarrow> cameraDialog" where
  "afterRender before s = (if sameDeps before s then s else runEffect (endEffect s))"

definition openCamera :: "cameraDialog" where
  "openCamera = runEffect
     \<lparr>cdOpen = True, cdStream = None, cdDevices = [], cdSelected = [], cdFacingUser = True, cdCaptured = None,
      cdPreviews = 0, cdError = None, cdStarting = False, cdLive = [], cdRuns = [], cdAsked = [], cdListings = 1, cdTaken = []\<rparr>"

section \<open>Answers of the browser\<close>

text \<open>The list of cameras: the first one is selected, because none was when the dialog was opened.\<close>

definition devicesListed :: "string list \<Rightarrow> cameraDialog \<Rightarrow> cameraDialog" where
  "devicesListed ds s =
     (if cdListings s = 0 then s
      else afterRender s
             (s\<lparr>cdListings := cdListings s - 1, cdDevices := ds,
                cdSelected := (case ds of d # _ \<Rightarrow> d | [] \<Rightarrow> cdSelected s)\<rparr>))"

definition cameraGranted :: "nat \<Rightarrow> cameraDialog \<Rightarrow> cameraDialog" where
  "cameraGranted i s =
     (if i < length (cdAsked s)
      then let r = cdAsked s ! i; n = length (cdLive s)
           in s\<lparr>cdAsked := take i (cdAsked s) @ drop (Suc i) (cdAsked s), cdLive := cdLive s @ [True],
                cdRuns := (cdRuns s)[r := (cdRuns s ! r)\<lparr>runStream := Some n\<rparr>], cdStream := Some n, cdStarting := False\<rparr>
      else s)"

definition cameraDenied :: "nat \<Rightarrow> cameraFailure \<Rightarrow> cameraDialog \<Rightarrow> cameraDialog" where
  "cameraDenied i e s =
     (if i < length (cdAsked s)
      then s\<lparr>cdAsked := take i (cdAsked s) @ drop (Suc i) (cdAsked s), cdError := Some e, cdStarting := False\<rparr>
      else s)"

section \<open>Buttons\<close>

text \<open>The position of the next camera; an unknown selection counts as position -1.\<close>

definition nextCamera :: "string list \<Rightarrow> string \<Rightarrow> string" where
  "nextCamera ds sel =
     ds ! (case find (\<lambda>i. ds ! i = sel) [0..<length ds] of Some i \<Rightarrow> (i + 1) mod length ds | None \<Rightarrow> 0)"

definition handleSwitchCamera :: "cameraDialog \<Rightarrow> cameraDialog" where
  "handleSwitchCamera s =
     afterRender s
       (if length (cdDevices s) > 1 then s\<lparr>cdSelected := nextCamera (cdDevices s) (cdSelected s)\<rparr>
        else s\<lparr>cdFacingUser := \<not> cdFacingUser s\<rparr>)"

text \<open>The picture, when the canvas has made one\<close>

definition handleCapture :: "string option \<Rightarrow> cameraDialog \<Rightarrow> cameraDialog" where
  "handleCapture blob s =
     (if cdError s \<noteq> None \<or> cdStarting s \<or> cdCaptured s \<noteq> None then s
      else case blob of
             None \<Rightarrow> s
           | Some b \<Rightarrow>
               afterRender s
                 ((stopStream (cdStream s) (s\<lparr>cdCaptured := Some b, cdPreviews := Suc (cdPreviews s)\<rparr>))\<lparr>cdStream := None\<rparr>))"

definition handleRetake :: "cameraDialog \<Rightarrow> cameraDialog" where
  "handleRetake s = (if cdCaptured s = None then s else afterRender s (s\<lparr>cdCaptured := None, cdPreviews := 0\<rparr>))"

definition tryAgain :: "cameraDialog \<Rightarrow> cameraDialog" where
  "tryAgain s = (if cdError s = None then s else afterRender s (s\<lparr>cdError := None, cdCaptured := None\<rparr>))"

text \<open>Closing takes the dialog away, which ends the last run of the effect.\<close>

definition handleClose :: "cameraDialog \<Rightarrow> cameraDialog" where
  "handleClose s =
     endEffect ((stopStream (cdStream s) s)\<lparr>cdStream := None, cdCaptured := None, cdPreviews := 0, cdError := None, cdOpen := False\<rparr>)"

definition handleConfirm :: "cameraDialog \<Rightarrow> cameraDialog" where
  "handleConfirm s =
     (case cdCaptured s of None \<Rightarrow> s | Some b \<Rightarrow> handleClose (s\<lparr>cdTaken := cdTaken s @ [b]\<rparr>))"

datatype cameraEvent =
    CListed "string list" | CGranted nat | CDenied nat cameraFailure | CSwitch | CCapture "string option" | CRetake
  | CTryAgain | CConfirm | CClose

fun cameraStep :: "cameraEvent \<Rightarrow> cameraDialog \<Rightarrow> cameraDialog" where
  "cameraStep (CListed ds) s = (if cdOpen s then devicesListed ds s else s)"
| "cameraStep (CGranted i) s = cameraGranted i s"
| "cameraStep (CDenied i e) s = cameraDenied i e s"
| "cameraStep CSwitch s = (if cdOpen s then handleSwitchCamera s else s)"
| "cameraStep (CCapture b) s = (if cdOpen s then handleCapture b s else s)"
| "cameraStep CRetake s = (if cdOpen s then handleRetake s else s)"
| "cameraStep CTryAgain s = (if cdOpen s then tryAgain s else s)"
| "cameraStep CConfirm s = (if cdOpen s then handleConfirm s else s)"
| "cameraStep CClose s = (if cdOpen s then handleClose s else s)"

section \<open>Where a camera stays on\<close>

text \<open>
  The usual start leaves a camera on: the list of cameras arrives while the first request waits for the user, selecting a
  camera asks a second time, and the camera given to the first request is stopped by nothing: not by the picture,
  not by the end of the dialog.
\<close>

theorem first_camera_stays_on:
  assumes "es = [CListed [d], CGranted 0, CGranted 0, CCapture (Some b), CConfirm]" "d \<noteq> []"
  shows "cdLive (fold cameraStep es openCamera) = [True, False] \<and> \<not> cdOpen (fold cameraStep es openCamera)
    \<and> cdTaken (fold cameraStep es openCamera) = [b]"
  using assms(2)
  by (simp add: assms(1) openCamera_def runEffect_def devicesListed_def afterRender_def sameDeps_def endEffect_def stopStream_def
      cameraGranted_def handleCapture_def handleConfirm_def handleClose_def Let_def)

text \<open>
  The button after an error asks for nothing: no dependency of the effect changes, and the dialog waits without a camera.
\<close>

lemma try_again_asks_nothing: "cdCaptured s = None \<Longrightarrow> cdError s \<noteq> None \<Longrightarrow> tryAgain s = s\<lparr>cdError := None\<rparr>"
  by (cases s) (simp add: tryAgain_def afterRender_def sameDeps_def)

section \<open>Where it does not\<close>

text \<open>At most the stream of the last run is live, and only that run may wait for one.\<close>

definition lastRunOnly :: "cameraDialog \<Rightarrow> bool" where
  "lastRunOnly s \<longleftrightarrow> cdRuns s \<noteq> []
     \<and> (\<forall>n < length (cdLive s). cdLive s ! n \<longrightarrow> \<not> runEnded (last (cdRuns s)) \<and> runStream (last (cdRuns s)) = Some n)
     \<and> (cdAsked s = [] \<or> cdAsked s = [length (cdRuns s) - 1] \<and> \<not> runEnded (last (cdRuns s)) \<and> runStream (last (cdRuns s)) = None)"

definition cameraOk :: "cameraDialog \<Rightarrow> bool" where
  "cameraOk s \<longleftrightarrow> lastRunOnly s \<and> (\<not> cdOpen s \<longrightarrow> runEnded (last (cdRuns s)))"

lemma stopStream_core [simp]:
  "cdRuns (stopStream n s) = cdRuns s" "cdAsked (stopStream n s) = cdAsked s" "cdOpen (stopStream n s) = cdOpen s"
  "cdCaptured (stopStream n s) = cdCaptured s" "length (cdLive (stopStream n s)) = length (cdLive s)"
  "cdSelected (stopStream n s) = cdSelected s" "cdFacingUser (stopStream n s) = cdFacingUser s"
  by (simp_all add: stopStream_def split: option.split)

lemma stopStream_live: "i < length (cdLive s) \<Longrightarrow> cdLive (stopStream n s) ! i \<longleftrightarrow> cdLive s ! i \<and> n \<noteq> Some i"
  by (cases n; cases "n = Some i") (auto simp: stopStream_def)

lemma lastRunOnly_cong:
  "cdRuns s' = cdRuns s \<Longrightarrow> cdAsked s' = cdAsked s \<Longrightarrow> cdLive s' = cdLive s \<Longrightarrow> lastRunOnly s' \<longleftrightarrow> lastRunOnly s"
  by (simp add: lastRunOnly_def)

lemma lastRunOnly_stop: "lastRunOnly s \<Longrightarrow> lastRunOnly (stopStream n s)"
  by (auto simp: lastRunOnly_def stopStream_live)

text \<open>After the cleanup no stream is live, when none is asked for.\<close>

lemma endEffect_off:
  assumes "lastRunOnly s" "cdAsked s = []"
  shows "lastRunOnly (endEffect s)" "runEnded (last (cdRuns (endEffect s)))" "cdAsked (endEffect s) = []"
    "list_all Not (cdLive (endEffect s))" "cdOpen (endEffect s) = cdOpen s" "cdCaptured (endEffect s) = cdCaptured s"
proof -
  let ?l = "last (cdRuns s)" and ?s1 = "s\<lparr>cdRuns := butlast (cdRuns s) @ [(last (cdRuns s))\<lparr>runEnded := True\<rparr>]\<rparr>"
  have off: "\<not> cdLive (endEffect s) ! i" if "i < length (cdLive s)" for i
    using assms(1) that stopStream_live [of i ?s1 "runStream ?l"] by (auto simp: endEffect_def lastRunOnly_def)
  have l: "length (cdLive (endEffect s)) = length (cdLive s)" by (simp add: endEffect_def)
  show "list_all Not (cdLive (endEffect s))" using off l by (simp add: list_all_length)
  show e: "runEnded (last (cdRuns (endEffect s)))" "cdAsked (endEffect s) = []"
    "cdOpen (endEffect s) = cdOpen s" "cdCaptured (endEffect s) = cdCaptured s"
    using assms by (auto simp: endEffect_def lastRunOnly_def)
  have "cdRuns (endEffect s) \<noteq> []" using assms(1) by (simp add: endEffect_def lastRunOnly_def)
  then show "lastRunOnly (endEffect s)" using off l e(2) by (simp add: lastRunOnly_def)
qed

lemma runEffect_ok:
  assumes "lastRunOnly s" "cdAsked s = []" "runEnded (last (cdRuns s))"
  shows "cameraOk (runEffect s)"
proof -
  have off: "\<not> cdLive s ! i" if "i < length (cdLive s)" for i using assms(1,3) that by (auto simp: lastRunOnly_def)
  then show ?thesis
    using assms by (simp add: cameraOk_def runEffect_def Let_def) (simp add: lastRunOnly_def stopStream_live)
qed

lemma afterRender_ok:
  assumes "cameraOk s" "lastRunOnly s'" "cdAsked s' = []" "cdOpen s' = cdOpen s" "cdRuns s' = cdRuns s"
  shows "cameraOk (afterRender s s')"
  using assms endEffect_off [OF assms(2,3)] runEffect_ok by (simp add: afterRender_def cameraOk_def)

fun isAnswer :: "cameraEvent \<Rightarrow> bool" where
  "isAnswer (CGranted i) \<longleftrightarrow> True"
| "isAnswer (CDenied i e) \<longleftrightarrow> True"
| "isAnswer _ \<longleftrightarrow> False"

text \<open>A run of events in which a request is answered before anything else happens\<close>

fun orderly :: "cameraEvent list \<Rightarrow> cameraDialog \<Rightarrow> bool" where
  "orderly [] s \<longleftrightarrow> True"
| "orderly (ev # es) s \<longleftrightarrow> (cdAsked s = [] \<or> isAnswer ev) \<and> orderly es (cameraStep ev s)"

lemma cameraOk_answers:
  assumes "cameraOk s"
  shows "cameraOk (cameraGranted i s)" "cameraOk (cameraDenied i e s)"
proof -
  have a: "cdAsked s = [length (cdRuns s) - 1] \<and> \<not> runEnded (last (cdRuns s)) \<and> runStream (last (cdRuns s)) = None \<and> i = 0"
    if "i < length (cdAsked s)"
    using assms that by (auto simp: cameraOk_def lastRunOnly_def)
  show "cameraOk (cameraDenied i e s)"
    using assms a by (auto simp: cameraDenied_def cameraOk_def lastRunOnly_def)
  show "cameraOk (cameraGranted i s)"
    using assms a by (auto simp: cameraGranted_def cameraOk_def lastRunOnly_def Let_def last_list_update last_conv_nth nth_append)
qed

lemma cameraOk_step:
  assumes "cameraOk s" "cdAsked s = [] \<or> isAnswer ev"
  shows "cameraOk (cameraStep ev s)"
proof (cases "isAnswer ev")
  case True
  then show ?thesis using cameraOk_answers [OF assms(1)] by (cases ev) simp_all
next
  case False
  then have a: "cdAsked s = []" using assms(2) by simp
  have l: "lastRunOnly s" using assms(1) by (simp add: cameraOk_def)
  have close: "cameraOk (handleClose s')" if "lastRunOnly s'" "cdAsked s' = []" for s'
  proof -
    have "lastRunOnly ((stopStream (cdStream s') s')\<lparr>cdStream := None, cdCaptured := None, cdPreviews := 0, cdError := None, cdOpen := False\<rparr>)"
      (is "lastRunOnly ?t") using lastRunOnly_stop [OF that(1), of "cdStream s'"] by (simp add: lastRunOnly_def)
    from endEffect_off [OF this] that(2) show ?thesis by (simp add: handleClose_def cameraOk_def)
  qed
  have cap: "cameraOk (handleCapture b s)" for b
  proof -
    have "lastRunOnly ((stopStream (cdStream s) (s\<lparr>cdCaptured := Some c, cdPreviews := Suc (cdPreviews s)\<rparr>))\<lparr>cdStream := None\<rparr>)" for c
      using lastRunOnly_stop [of "s\<lparr>cdCaptured := Some c, cdPreviews := Suc (cdPreviews s)\<rparr>" "cdStream s"] l
      by (simp add: lastRunOnly_def)
    then show ?thesis using assms(1) a by (auto simp: handleCapture_def intro!: afterRender_ok split: option.split)
  qed
  show ?thesis
    using False a l assms(1) close cap
    by (cases ev)
      (auto simp: devicesListed_def handleSwitchCamera_def handleRetake_def tryAgain_def handleConfirm_def
        intro!: afterRender_ok split: option.split simp: lastRunOnly_def)
qed

lemma cameraOk_open: "cameraOk openCamera"
  by (simp add: cameraOk_def lastRunOnly_def openCamera_def runEffect_def stopStream_def)

lemma cameraOk_run: "orderly es s \<Longrightarrow> cameraOk s \<Longrightarrow> cameraOk (fold cameraStep es s)"
  by (induction es arbitrary: s) (simp_all add: cameraOk_step)

lemma one_live:
  "\<forall>i < length bs. \<forall>j < length bs. bs ! i \<longrightarrow> bs ! j \<longrightarrow> i = j \<Longrightarrow> length (filter id bs) \<le> 1"
proof -
  assume u: "\<forall>i < length bs. \<forall>j < length bs. bs ! i \<longrightarrow> bs ! j \<longrightarrow> i = j"
  then have "card {i. i < length bs \<and> id (bs ! i)} \<le> Suc 0" by (subst card_le_Suc0_iff_eq) auto
  then show ?thesis by (simp add: length_filter_conv_card)
qed

text \<open>
  When every request for a camera is answered before anything else happens, the dialog leaves no camera on once it
  is closed, and while it is open at most one.
\<close>

theorem orderly_cameras_released:
  assumes "orderly es openCamera"
  shows "(\<not> cdOpen (fold cameraStep es openCamera) \<longrightarrow> list_all Not (cdLive (fold cameraStep es openCamera)))
    \<and> length (filter id (cdLive (fold cameraStep es openCamera))) \<le> 1"
proof -
  let ?s = "fold cameraStep es openCamera"
  have ok: "cameraOk ?s" by (rule cameraOk_run [OF assms cameraOk_open])
  have "list_all Not (cdLive ?s)" if "\<not> cdOpen ?s"
    using ok that by (auto simp: cameraOk_def lastRunOnly_def list_all_length)
  moreover have "\<forall>i < length (cdLive ?s). \<forall>j < length (cdLive ?s). cdLive ?s ! i \<longrightarrow> cdLive ?s ! j \<longrightarrow> i = j"
    using ok unfolding cameraOk_def lastRunOnly_def by (metis option.inject)
  then have "length (filter id (cdLive ?s)) \<le> 1" by (rule one_live)
  ultimately show ?thesis by blast
qed

theorem first_camera_stays_on_witness:
  "cdLive (fold cameraStep [CListed [''front''], CGranted 0, CGranted 0, CCapture (Some ''jpg''), CConfirm] openCamera) = [True, False]"
  by (rule first_camera_stays_on [OF refl, THEN conjunct1]) simp

theorem orderly_cameras_released_witness:
  "list_all Not (cdLive (fold cameraStep [CGranted 0, CListed [''front''], CGranted 0, CClose] openCamera))"
  using orderly_cameras_released [of "[CGranted 0, CListed [''front''], CGranted 0, CClose]"]
  by (simp add: openCamera_def runEffect_def devicesListed_def afterRender_def sameDeps_def endEffect_def stopStream_def
      cameraGranted_def handleClose_def Let_def)

end
