(* ===== verification/Spec2Isabelle.thy ===== *)
theory Spec2Isabelle
  imports Safety_Numbers Qr_Code Local_Cache Mls_Group E2ee_Session Handshake_Flight Ws_Transport Gateway_Client Key_Transfer Client_Db Group_Call Chat_Behaviour Call_Behaviour End_To_End Sign_In Account Local_Intelligence Voice_Recorder Registration Key_Dialogs Safety_Dialog Group_Dialog Attachment_View Service_Worker Camera_Dialog
begin

text \<open>
  A verification of the GenChat client: the TypeScript of \<open>packages/client-web\<close>,
  \<open>packages/client-db\<close> and \<open>packages/client-crypto\<close>. The Go services and the compiled cryptography module are not modelled; what
  the client relies on of them is a parameter or an argument of the definitions that use it.

  The parts of the client and how they fit together.

  The chat page holds one \<open>GatewayClient\<close> (a socket to the gateway). A message is encrypted by
  \<open>E2eeService\<close> (direct messages, a post-quantum handshake with every peer) or by
  \<open>MlsGroupManager\<close> (groups, an epoch secret shared by the members) and sent as an envelope; an
  envelope received is decrypted by the same classes. Messages are kept in \<open>LocalStorageDb\<close>
  (IndexedDB with a \<open>localStorage\<close> fallback), through \<open>LocalEncryptedCache\<close> for received ones.
  \<open>SafetyNumberManager\<close> lets two contacts compare their identity keys, as digits or as a QR code
  drawn by \<open>QrCodeSvgGenerator\<close>. \<open>WebRtcManager\<close> and \<open>GroupWebRtcManager\<close> hold the calls, whose
  signals travel over the gateway. \<open>key-backup\<close>, \<open>device-linking\<close> and \<open>key-ceremony\<close> move and
  create keys. \<open>client-db\<close> with the database context is a second message store with an outbox and
  an inbound queue, over \<open>WsTransport\<close>.

  The theories.

  \<open>Js_Prelude\<close> (no source file of its own): the JavaScript strings, \<open>Array\<close> and \<open>RegExp\<close> operations the
  sources use, results of promises (\<open>outcome\<close>) and of requests (\<open>http\<close>), stored text that parses or
  not (\<open>blob\<close>), and lemmas shared by all components.

  \<open>Kv_Store\<close>: objects and maps with insertion order, IndexedDB object stores, \<open>localStorage\<close> slots.
  The locale \<open>kv_store\<close> states what a read returns after a write or a delete; it is interpreted for
  the object model (\<open>jsmap\<close>), for object stores (\<open>idb\<close>), for the local group state of
  \<open>Mls_Group\<close> (\<open>groups\<close>) and for the trust records of \<open>Safety_Numbers\<close> (\<open>trust\<close>), and gives each of them the
  effect of a whole history of operations on one key.

  \<open>Codec\<close>: hexadecimal and base64 in all the variants of the sources, with their round trips. The
  locale \<open>codec\<close> is interpreted for each pair of functions and for compositions of them.

  \<open>Crypto_Api\<close>: AES-GCM as a parameter with the two documented laws (decryption inverts encryption;
  only what was encrypted is accepted).

  \<open>Safety_Numbers\<close> (\<open>lib/safety-numbers.ts\<close>): the number, the payload of the QR code and its parser, the
  trust store. Lemmas: symmetry and format of the number, the exact verdict on a scanned payload,
  the trust store as a refinement of a map from contacts to verified numbers.

  \<open>Reed_Solomon\<close> and \<open>Qr_Code\<close> (same file): the table arithmetic is the field with 256 elements; the
  error-correction bytes make every data block a code word; the bit stream reads back as the text;
  the matrix of a text of at most 134 bytes reads back as the whole bit stream, that of a longer one as
  its beginning.

  \<open>Local_Store\<close> (\<open>lib/local-storage-db.ts\<close>): both back ends with every failure. Lemmas: what every view
  hides and shows after any history of operations, the exact effect of a purge and of a deletion
  for everyone, the ranking of the search.

  \<open>Local_Cache\<close> (\<open>lib/local-cache.ts\<close>): encryption at rest and its round trip across a reload, and the text in
  the clear when no key can be had.

  \<open>Mls_Group\<close> (\<open>lib/mls-group-manager.ts\<close>): creation, welcome, join, commit, rotation, removal, messages.
  The relation \<open>mlsStep\<close> gives the reachable states; the locale \<open>replicated\<close> (an operation that is
  performed by one replica and delivered to others) is interpreted for commits and shows that
  members stay in agreement.

  \<open>E2ee_Session\<close> (\<open>lib/e2ee-ratchet.ts\<close>): identity keys, bundles, handshakes with retries, persisted
  sessions, encryption and decryption with every fallback. An operation is one step here, the handshake it
  waits for included; \<open>reaches\<close> says that the next message of one user can be opened by the other, first
  or later, and is kept by sending and receiving it. The loop over the attempts of a handshake ends: its
  measure is the number of attempts left.

  \<open>Handshake_Flight\<close> (\<open>lib/e2ee-ratchet.ts\<close>, \<open>establishSessionWithRetry\<close>): the same handshake with every
  suspension. Callers arrive at any time and join the handshake of their peer that is in flight; \<open>flightStep\<close>
  interleaves calls, answers, pauses, returns and other operations of the service. Lemmas: one handshake
  per peer, everybody gets its value, four resumptions for every attempt are enough for it to end, and a
  caller that is alone gets the result of the one-step definition of \<open>E2ee_Session\<close>.

  \<open>Event_Loop\<close>: sockets, timers, and the locale \<open>history_system\<close>: an invariant between the
  observations made so far and the state, preserved by each step, holds after every run. It is
  interpreted for the send queue, the acknowledgements and the lost promises of \<open>Ws_Transport\<close>, for
  the promises of \<open>Gateway_Client\<close>, for the inbound queue of \<open>Client_Db\<close> and for the ICE candidates of
  \<open>Webrtc_Call\<close>.

  \<open>Ws_Transport\<close> (\<open>lib/ws-transport.ts\<close>) and \<open>Gateway_Client\<close> (\<open>lib/gateway-client.ts\<close>): calls of the client
  and events of the browser as steps. Lemmas: frames leave in the order they were handed over and
  none is lost; every promise is settled or has an armed timer.

  \<open>Key_Transfer\<close> (\<open>lib/key-backup.ts\<close>, \<open>lib/device-linking.ts\<close>, \<open>lib/key-ceremony.ts\<close>): round trips and the failures
  of every function.

  \<open>Client_Db\<close> (\<open>packages/client-db\<close>, \<open>lib/database-context.tsx\<close>): model objects in a heap shared by
  collections and callers, the outbox, the batches of the inbound queue, the search.

  \<open>Webrtc_Call\<close> (\<open>lib/webrtc-manager.ts\<close>) and \<open>Group_Call\<close> (\<open>lib/group-webrtc-manager.ts\<close>): tracks, streams
  and connections are explicit; an operation that waits for the browser is suspended as a task
  that the browser resumes. Lemmas: no ICE candidate is lost, the media flags match the tracks,
  the mesh has one open connection per peer.

  \<open>Json_Text\<close>: the JSON values the client exchanges, their printer and their parser (with fuel: two steps
  for each character of the text and two more, and more fuel does not change the result of a text
  that parses, \<open>parse_fuel\<close>); what is printed parses back to the same value.

  \<open>Chat_Page\<close> (\<open>pages/ChatPage.tsx\<close>): the state of the page, every subscription to the gateway, every action
  of the user on messages and conversations, as the step function \<open>pageStep\<close> on \<open>pageEvent\<close>. A handler
  that awaits an encryption or a decryption is one step, taken when it has ended, except where the
  code itself keeps an old copy over the wait (\<open>sessionReady\<close>, \<open>retryDone\<close>) or settles later (\<open>sendSettled\<close>,
  \<open>fireRetry\<close>). \<open>Chat_Behaviour\<close>: what the handlers achieve over any run, and where they fail.

  \<open>Chat_Calls\<close> (\<open>pages/ChatPage.tsx\<close>): the state machine of the calls of the page over the managers of
  \<open>Webrtc_Call\<close> and \<open>Group_Call\<close>, whose callbacks it receives; a handler that awaits the ICE servers or
  the camera is suspended as a task. \<open>Call_Behaviour\<close>: two pages establish a call, every end of a call
  releases it, signals of other users open no stream, and the interleavings that leave a camera on.

  \<open>Media\<close> (\<open>lib/media-crypto.ts\<close>, \<open>lib/media-client.ts\<close>, \<open>lib/media-upload.ts\<close>): the encryption of files and the uploads,
  with the requests they make. \<open>Wire_Format\<close>: the JSON texts of the envelopes of direct messages and of
  groups, and that reading them gives the envelope back. \<open>End_To_End\<close>: the page over the services: a text or a
  file sent on one page arrives on another, directly and in groups; and what missing keys and the cache
  do to it.

  \<open>Secure_Keys\<close> (\<open>client-crypto/src/storage.ts\<close>, \<open>client-crypto/src/crypto.ts\<close>, \<open>lib/ws-reconciler.ts\<close>): the store of
  secret keys alone and with operations interleaved at the generation of its master key (\<open>ringStep\<close>), the facade
  over the compiled module, and the frames that are stored as they arrive.

  \<open>Sign_In\<close> (\<open>lib/auth-context.tsx\<close>): the provider of the signed-in user as the step function \<open>authStep\<close>; tokens that
  are refreshed and profiles that are fetched answer later. \<open>Account\<close> (\<open>lib/session-client.ts\<close>, \<open>lib/feature-flags.ts\<close>,
  \<open>lib/prekey-manager.ts\<close>): the sessions, the flags with their subscribers, the stock of one-time keys.

  \<open>Local_Intelligence\<close> (\<open>lib/local-intelligence.ts\<close>, \<open>lib/export-chat.ts\<close>): the scanners and key words of the action
  items, the replies, the summary, the transcript. \<open>Voice_Recorder\<close> (\<open>lib/voice-recorder.ts\<close>): the recorder over
  microphone streams and browser recorders, whose data may arrive until the end they report, and the bars of
  the waveform.

  \<open>Registration\<close> (\<open>pages/RegisterPage.tsx\<close>, \<open>pages/LoginPage.tsx\<close>): the passkey ceremonies and the key ceremony over
  the provider of the user and the encryption service; what a registered user is known by, and the failed upload
  after which the registered identity is replaced. \<open>Key_Dialogs\<close> (\<open>components/KeyBackupModal.tsx\<close>,
  \<open>components/DeviceLinkingModal.tsx\<close>): what a backup of the dialog really holds. \<open>Safety_Dialog\<close>
  (\<open>components/SafetyNumberModal.tsx\<close>, and the number of the open conversation in \<open>pages/ChatPage.tsx\<close>): the trust that
  is shown, the scanner that never starts, the number of another contact. \<open>Group_Dialog\<close>
  (\<open>components/GroupMembersModal.tsx\<close>): the list of members over the local group and the server. \<open>Attachment_View\<close>
  (\<open>components/FileAttachmentCard.tsx\<close>, \<open>components/VoiceNotePlayer.tsx\<close>): an uploaded file opens. \<open>Camera_Dialog\<close>
  (\<open>components/CameraModal.tsx\<close>): the effect with its streams. \<open>Service_Worker\<close> (\<open>public/sw.js\<close> and the hooks
  \<open>useNetworkStatus\<close> and \<open>useKeyboardShortcuts\<close>): what the caches may hold, and the page without a network.

  How the code is translated.

  A class or a module is a record of its fields and one definition per method, composed as the
  code composes them; a thrown exception, a rejected promise and an unsuccessful answer are values
  of a sum, option, \<open>outcome\<close> or \<open>http\<close> type. The clock, random bytes, generated keys and answers
  of the server are arguments. Strings are Latin-1 code units (see \<open>Js_Prelude\<close>); bytes are 8-bit words;
  counters and times are unbounded, far from the limit of exact doubles. Loops are structural
  recursion or \<open>function\<close> with a termination proof; only \<open>parseJson\<close> has fuel (see \<open>Json_Text\<close>). A serialised value
  that the client itself wrote is kept as the value (\<open>Blob\<close>), any other text as \<open>Garbage\<close>.

  Parameters and hypotheses. AES-GCM, HKDF, SHA-256, SHA-512, PBKDF2, ECDH and Ed25519 of Web
  Crypto, the handshake functions of the compiled module and the collation of \<open>localeCompare\<close> are
  parameters. Hypotheses on them are the documented laws only (\<open>aeadCorrect\<close>, \<open>aeadAuthentic\<close>,
  agreement of the two sides of a handshake or of ECDH, a digest of 64 bytes, a total order); each
  property with such a hypothesis is applied at concrete functions in its witness.

  Not modelled. The JSX of the pages and the other React components (calls, profile, sessions, security overview,
  summary) only render state and call the operations above;
  files that only wrap a request, a sound or a class name have no state to verify; \<open>gen\<close> and the
  \<open>pkg\<close> directories are generated; the Go services and the Rust module are other programs behind the
  network and the module boundary. The drawing of pictures (\<open>generateSvg\<close>, the synthetic camera
  picture) is output only.
\<close>

end
